(* ===== verification/Prelude.thy ===== *)
theory Prelude
  imports Main "HOL-Library.Word" "HOL-Library.Sublist"
begin

text \<open>
  The prelude of the development: effectful computations (fallible functions of a world that
  they may change, the reading of Rust's \<open>async fn f(..) -> Result<T, E>\<close>), the parts of
  Rust's string library the sources use, and the collections of rewrite rules the component
  theories share. Nothing here models a file of the repository by itself.
\<close>

named_theorems eff_simps \<open>running effectful computations\<close>
named_theorems run_defs \<open>definitions of the operations a run executes\<close>

section \<open>Effectful computations\<close>

text \<open>
  A call that may fail and may change the world. \<open>Inl\<close> is the error. A failing call still
  returns the world it leaves behind: an error does not undo the effects before it.
\<close>

type_synonym ('w, 'e, 'a) eff = "'w \<Rightarrow> ('e + 'a) \<times> 'w"

definition ok :: "'a \<Rightarrow> ('w, 'e, 'a) eff" where
  "ok a w = (Inr a, w)"

definition fail :: "'e \<Rightarrow> ('w, 'e, 'a) eff" where
  "fail e w = (Inl e, w)"

text \<open>\<open>m.await?\<close> followed by the rest of the function.\<close>

definition and_then :: "('w, 'e, 'a) eff \<Rightarrow> ('a \<Rightarrow> ('w, 'e, 'b) eff) \<Rightarrow> ('w, 'e, 'b) eff" where
  "and_then m f w = (case m w of (Inl e, w') \<Rightarrow> (Inl e, w') | (Inr a, w') \<Rightarrow> f a w')"

text \<open>\<open>m.await\<close> without \<open>?\<close>: the \<open>Result\<close> itself is the value.\<close>

definition result_of :: "('w, 'e, 'a) eff \<Rightarrow> ('w, 'f, 'e + 'a) eff" where
  "result_of m w = (case m w of (r, w') \<Rightarrow> (Inr r, w'))"

definition map_err :: "('e \<Rightarrow> 'f) \<Rightarrow> ('w, 'e, 'a) eff \<Rightarrow> ('w, 'f, 'a) eff" where
  "map_err f m w = (case m w of (Inl e, w') \<Rightarrow> (Inl (f e), w') | (Inr a, w') \<Rightarrow> (Inr a, w'))"

definition map_ok :: "('a \<Rightarrow> 'b) \<Rightarrow> ('w, 'e, 'a) eff \<Rightarrow> ('w, 'e, 'b) eff" where
  "map_ok f m = and_then m (\<lambda>a. ok (f a))"

definition from_result :: "'e + 'a \<Rightarrow> ('w, 'e, 'a) eff" where
  "from_result r w = (r, w)"

text \<open>Whether a returned \<open>Result\<close> is \<open>Ok\<close>.\<close>

definition is_ok :: "'e + 'a \<Rightarrow> bool" where
  "is_ok r = (case r of Inl _ \<Rightarrow> False | Inr _ \<Rightarrow> True)"

lemma is_ok_simps [simp]: "is_ok (Inr a)" "\<not> is_ok (Inl e)"
  by (simp_all add: is_ok_def)

lemma is_ok_iff: "is_ok r \<longleftrightarrow> (\<exists>a. r = Inr a)"
  by (cases r) simp_all

lemma ok_run [eff_simps, simp]: "ok a w = (Inr a, w)"
  by (simp add: ok_def)

lemma fail_run [eff_simps, simp]: "fail e w = (Inl e, w)"
  by (simp add: fail_def)

lemma from_result_run [eff_simps, simp]: "from_result r w = (r, w)"
  by (simp add: from_result_def)

lemma and_then_Inr [simp]: "m w = (Inr a, w') \<Longrightarrow> and_then m f w = f a w'"
  by (simp add: and_then_def)

lemma and_then_Inl [simp]: "m w = (Inl e, w') \<Longrightarrow> and_then m f w = (Inl e, w')"
  by (simp add: and_then_def)

lemma and_then_ok [simp]: "and_then (ok a) f = f a"
  by (rule ext) (simp add: and_then_def)

lemma and_then_fail [simp]: "and_then (fail e) f = fail e"
  by (rule ext) (simp add: and_then_def)

lemma and_then_ok_right [simp]: "and_then m ok = m"
  by (rule ext) (auto simp: and_then_def split: prod.split sum.split)

lemma and_then_assoc: "and_then (and_then m f) g = and_then m (\<lambda>a. and_then (f a) g)"
  by (rule ext) (auto simp: and_then_def split: prod.split sum.split)

lemma and_then_eq_Inr:
  "and_then m f w = (Inr b, w'') \<longleftrightarrow> (\<exists>a w'. m w = (Inr a, w') \<and> f a w' = (Inr b, w''))"
  by (auto simp: and_then_def split: prod.splits sum.splits)

lemma and_then_eq_Inl:
  "and_then m f w = (Inl e, w'') \<longleftrightarrow>
     m w = (Inl e, w'') \<or> (\<exists>a w'. m w = (Inr a, w') \<and> f a w' = (Inl e, w''))"
  by (auto simp: and_then_def split: prod.splits sum.splits)

lemma map_err_eq_Inr [simp]: "map_err f m w = (Inr a, w') \<longleftrightarrow> m w = (Inr a, w')"
  by (auto simp: map_err_def split: prod.splits sum.splits)

lemma map_err_eq_Inl:
  "map_err f m w = (Inl e, w') \<longleftrightarrow> (\<exists>e'. m w = (Inl e', w') \<and> e = f e')"
  by (auto simp: map_err_def split: prod.splits sum.splits)

lemma map_err_snd [simp]: "snd (map_err f m w) = snd (m w)"
  by (auto simp: map_err_def split: prod.split sum.split)

lemma map_err_ok [simp]: "map_err f (ok a) = ok a"
  by (rule ext) (simp add: map_err_def)

lemma map_err_fail [simp]: "map_err f (fail e) = fail (f e)"
  by (rule ext) (simp add: map_err_def)

lemma result_of_run: "result_of m w = (Inr (fst (m w)), snd (m w))"
  by (simp add: result_of_def split: prod.split)

lemma map_ok_eq_Inr: "map_ok f m w = (Inr b, w') \<longleftrightarrow> (\<exists>a. m w = (Inr a, w') \<and> b = f a)"
  by (auto simp: map_ok_def and_then_eq_Inr)

lemma map_ok_eq_Inl [simp]: "map_ok f m w = (Inl e, w') \<longleftrightarrow> m w = (Inl e, w')"
  by (auto simp: map_ok_def and_then_eq_Inl)

lemma map_ok_ok [simp]: "map_ok f (ok a) = ok (f a)"
  by (rule ext) (simp add: map_ok_def)

lemma map_ok_fail [simp]: "map_ok f (fail e) = fail e"
  by (rule ext) (simp add: map_ok_def)

lemmas eff_cases = and_then_eq_Inr and_then_eq_Inl map_err_eq_Inl map_ok_eq_Inr

subsection \<open>Framed observations\<close>

text \<open>
  A computation \<open>keeps\<close> an observation of the world when no run of it, failing or not, changes
  the observed value. Composition keeps what its parts keep.
\<close>

definition keeps :: "('w \<Rightarrow> 'o) \<Rightarrow> ('w, 'e, 'a) eff \<Rightarrow> bool" where
  "keeps obs m \<longleftrightarrow> (\<forall>w. obs (snd (m w)) = obs w)"

named_theorems keeps_intros \<open>computations that keep an observation\<close>

lemma keepsD: "keeps obs m \<Longrightarrow> m w = (r, w') \<Longrightarrow> obs w' = obs w"
  by (metis keeps_def snd_conv)

lemma keepsI: "(\<And>w r w'. m w = (r, w') \<Longrightarrow> obs w' = obs w) \<Longrightarrow> keeps obs m"
  by (simp add: keeps_def) (metis prod.collapse)

lemma keeps_ok [keeps_intros]: "keeps obs (ok a)"
  by (simp add: keeps_def)

lemma keeps_fail [keeps_intros]: "keeps obs (fail e)"
  by (simp add: keeps_def)

lemma keeps_from_result [keeps_intros]: "keeps obs (from_result r)"
  by (simp add: keeps_def)

lemma keeps_map_err [keeps_intros]: "keeps obs m \<Longrightarrow> keeps obs (map_err f m)"
  by (simp add: keeps_def)

lemma keeps_and_then [keeps_intros]:
  "keeps obs m \<Longrightarrow> (\<And>a. keeps obs (f a)) \<Longrightarrow> keeps obs (and_then m f)"
  by (auto simp: keeps_def and_then_def split: prod.split sum.split) (metis snd_conv)+

lemma keeps_map_ok [keeps_intros]: "keeps obs m \<Longrightarrow> keeps obs (map_ok f m)"
  by (simp add: map_ok_def keeps_and_then keeps_ok)

lemma keeps_result_of [keeps_intros]: "keeps obs m \<Longrightarrow> keeps obs (result_of m)"
  by (simp add: keeps_def result_of_run)

lemma keeps_if [keeps_intros]: "(b \<Longrightarrow> keeps obs m) \<Longrightarrow> (\<not> b \<Longrightarrow> keeps obs m') \<Longrightarrow> keeps obs (if b then m else m')"
  by simp

lemma keeps_option [keeps_intros]:
  "(x = None \<Longrightarrow> keeps obs m) \<Longrightarrow> (\<And>a. x = Some a \<Longrightarrow> keeps obs (f a)) \<Longrightarrow> keeps obs (case x of None \<Rightarrow> m | Some a \<Rightarrow> f a)"
  by (cases x) simp_all

lemma keeps_sum [keeps_intros]:
  "(\<And>a. x = Inl a \<Longrightarrow> keeps obs (f a)) \<Longrightarrow> (\<And>b. x = Inr b \<Longrightarrow> keeps obs (g b)) \<Longrightarrow>
     keeps obs (case x of Inl a \<Rightarrow> f a | Inr b \<Rightarrow> g b)"
  by (cases x) simp_all

lemma keeps_Pair [keeps_intros]: "keeps obs (Pair r)"
  by (simp add: keeps_def)

subsection \<open>Possible errors\<close>

text \<open>Every error a computation can return satisfies a predicate, whatever it was started on.\<close>

definition fails_in :: "('e \<Rightarrow> bool) \<Rightarrow> ('w, 'e, 'a) eff \<Rightarrow> bool" where
  "fails_in P m \<longleftrightarrow> (\<forall>w e w'. m w = (Inl e, w') \<longrightarrow> P e)"

named_theorems fails_intros \<open>computations whose errors satisfy a predicate\<close>

lemma fails_inD: "fails_in P m \<Longrightarrow> m w = (Inl e, w') \<Longrightarrow> P e"
  unfolding fails_in_def by blast

lemma fails_in_ok [fails_intros]: "fails_in P (ok a)"
  by (simp add: fails_in_def)

lemma fails_in_fail [fails_intros]: "P e \<Longrightarrow> fails_in P (fail e)"
  by (simp add: fails_in_def)

lemma fails_in_map_err [fails_intros]: "(\<And>e. P (f e)) \<Longrightarrow> fails_in P (map_err f m)"
  by (auto simp: fails_in_def map_err_eq_Inl)

lemma fails_in_result_of [fails_intros]: "fails_in P (result_of m)"
  by (simp add: fails_in_def result_of_run)

lemma fails_in_and_then [fails_intros]:
  "fails_in P m \<Longrightarrow> (\<And>a. fails_in P (f a)) \<Longrightarrow> fails_in P (and_then m f)"
  unfolding fails_in_def and_then_eq_Inl by blast

lemma fails_in_map_ok [fails_intros]: "fails_in P m \<Longrightarrow> fails_in P (map_ok f m)"
  by (simp add: fails_in_def)

lemma fails_in_if [fails_intros]: "fails_in P m \<Longrightarrow> fails_in P m' \<Longrightarrow> fails_in P (if b then m else m')"
  by simp

lemma fails_in_option [fails_intros]:
  "fails_in P m \<Longrightarrow> (\<And>a. fails_in P (f a)) \<Longrightarrow> fails_in P (case x of None \<Rightarrow> m | Some a \<Rightarrow> f a)"
  by (cases x) simp_all

lemma fails_in_sum [fails_intros]:
  "(\<And>a. fails_in P (f a)) \<Longrightarrow> (\<And>b. fails_in P (g b)) \<Longrightarrow> fails_in P (case x of Inl a \<Rightarrow> f a | Inr b \<Rightarrow> g b)"
  by (cases x) simp_all

section \<open>Strings\<close>

text \<open>
  A Rust \<open>String\<close> is the list of its UTF-8 bytes, so the indices that \<open>find\<close> and slicing use
  are positions in this list. Delimiters searched for are ASCII, which never occur inside a
  multi-byte character.
\<close>

text \<open>The first and the last index whose element satisfies a predicate (\<open>find\<close>, \<open>rfind\<close>).\<close>

fun position :: "('a \<Rightarrow> bool) \<Rightarrow> 'a list \<Rightarrow> nat option" where
  "position P [] = None"
| "position P (x # xs) = (if P x then Some 0 else map_option Suc (position P xs))"

fun rposition :: "('a \<Rightarrow> bool) \<Rightarrow> 'a list \<Rightarrow> nat option" where
  "rposition P [] = None"
| "rposition P (x # xs) =
     (case rposition P xs of Some i \<Rightarrow> Some (Suc i) | None \<Rightarrow> if P x then Some 0 else None)"

text \<open>The first index whose suffix satisfies a predicate (substring search).\<close>

fun find_suffix :: "('a list \<Rightarrow> bool) \<Rightarrow> 'a list \<Rightarrow> nat option" where
  "find_suffix P [] = (if P [] then Some 0 else None)"
| "find_suffix P (x # xs) = (if P (x # xs) then Some 0 else map_option Suc (find_suffix P xs))"

definition find_str :: "string \<Rightarrow> string \<Rightarrow> nat option" where
  "find_str pat = find_suffix (prefix pat)"

fun join :: "string \<Rightarrow> string list \<Rightarrow> string" where
  "join sep [] = []"
| "join sep [x] = x"
| "join sep (x # y # xs) = x @ sep @ join sep (y # xs)"

text \<open>Decimal rendering of an unsigned integer (\<open>Display\<close>).\<close>

definition digit_char :: "nat \<Rightarrow> char" where
  "digit_char n = char_of (48 + n)"

fun show_nat :: "nat \<Rightarrow> string" where
  "show_nat n = (if n < 10 then [digit_char n] else show_nat (n div 10) @ [digit_char (n mod 10)])"

declare show_nat.simps [simp del]

text \<open>ASCII letters and digits, and the continuation bytes of a multi-byte character.\<close>

definition ascii_alnum :: "char \<Rightarrow> bool" where
  "ascii_alnum c = (let n = of_char c :: nat in
     (48 \<le> n \<and> n \<le> 57) \<or> (65 \<le> n \<and> n \<le> 90) \<or> (97 \<le> n \<and> n \<le> 122))"

definition continuation :: "char \<Rightarrow> bool" where
  "continuation c = (let n = of_char c :: nat in 128 \<le> n \<and> n < 192)"

text \<open>The three UTF-8 bytes of the dash the messages of the sources contain.\<close>

definition em_dash :: string where
  "em_dash = [char_of (226::nat), char_of (128::nat), char_of (148::nat)]"

definition dquote :: char where
  "dquote = CHR 0x22"

text \<open>\<open>Option\<close> and \<open>Vec\<close> helpers.\<close>

definition last_opt :: "'a list \<Rightarrow> 'a option" where
  "last_opt xs = (if xs = [] then None else Some (last xs))"

lemma last_opt_simps [simp]: "last_opt [] = None" "last_opt (xs @ [x]) = Some x"
  by (simp_all add: last_opt_def)

definition or_else :: "'a option \<Rightarrow> 'a option \<Rightarrow> 'a option" where
  "or_else x y = (case x of Some a \<Rightarrow> Some a | None \<Rightarrow> y)"

lemma or_else_simps [simp]: "or_else (Some a) y = Some a" "or_else None y = y"
  by (simp_all add: or_else_def)

lemma position_None: "position P xs = None \<longleftrightarrow> (\<forall>x\<in>set xs. \<not> P x)"
  by (induction xs) auto

lemma position_less: "position P xs = Some i \<Longrightarrow> i < length xs \<and> P (xs ! i)"
  by (induction xs arbitrary: i) (auto split: if_splits)

lemma position_append:
  "position P (xs @ ys) =
     (case position P xs of Some i \<Rightarrow> Some i | None \<Rightarrow> map_option (\<lambda>i. length xs + i) (position P ys))"
  by (cases "position P ys"; induction xs) (auto split: option.splits)

lemma rposition_None: "rposition P xs = None \<longleftrightarrow> (\<forall>x\<in>set xs. \<not> P x)"
  by (induction xs) (auto split: option.splits)

lemma rposition_less: "rposition P xs = Some i \<Longrightarrow> i < length xs \<and> P (xs ! i)"
  by (induction xs arbitrary: i) (auto split: option.splits if_splits)

lemma rposition_append:
  "rposition P (xs @ ys) =
     (case rposition P ys of Some i \<Rightarrow> Some (length xs + i) | None \<Rightarrow> rposition P xs)"
  by (induction xs) (auto split: option.splits)

lemma find_suffix_less:
  "find_suffix P xs = Some i \<Longrightarrow> i \<le> length xs \<and> P (drop i xs)"
  by (induction xs arbitrary: i) (auto split: if_splits)

lemma find_suffix_first:
  "find_suffix P xs = Some i \<Longrightarrow> j < i \<Longrightarrow> \<not> P (drop j xs)"
  by (induction xs arbitrary: i j) (auto split: if_splits simp: drop_Cons split: nat.splits)

lemma find_suffix_append:
  assumes "\<And>i. i < length xs \<Longrightarrow> \<not> P (drop i xs @ ys)" and "P ys"
  shows "find_suffix P (xs @ ys) = Some (length xs)"
  using assms
proof (induction xs)
  case Nil
  then show ?case by (cases ys) auto
next
  case (Cons x xs)
  have "\<not> P (x # xs @ ys)" using Cons.prems(1) [of 0] by simp
  moreover have "find_suffix P (xs @ ys) = Some (length xs)"
    using Cons.IH Cons.prems(1) [of "Suc i" for i] Cons.prems(2) by simp
  ultimately show ?case by simp
qed

lemma find_str_bound: "find_str pat xs = Some i \<Longrightarrow> i + length pat \<le> length xs"
  unfolding find_str_def by (frule find_suffix_less) (auto dest: prefix_length_le)

lemma find_str_split:
  assumes "find_str pat xs = Some i"
  shows "xs = take i xs @ pat @ drop (i + length pat) xs"
proof -
  obtain zs where "drop i xs = pat @ zs"
    using find_suffix_less [of "prefix pat" xs i] assms by (auto simp: find_str_def prefix_def)
  moreover from this have "drop (i + length pat) xs = zs"
    by (metis add.commute append_eq_conv_conj drop_drop)
  ultimately show ?thesis by (metis append_take_drop_id)
qed

section \<open>Results, pairs of states, serialised values\<close>

text \<open>\<open>Option::ok_or\<close>.\<close>

definition ok_or :: "'a option \<Rightarrow> 'e \<Rightarrow> 'e + 'a" where
  "ok_or x e = (case x of Some a \<Rightarrow> Inr a | None \<Rightarrow> Inl e)"

text \<open>\<open>?\<close> on plain results.\<close>

definition and_if_ok :: "'e + 'a \<Rightarrow> ('a \<Rightarrow> 'e + 'b) \<Rightarrow> 'e + 'b" where
  "and_if_ok r f = (case r of Inl e \<Rightarrow> Inl e | Inr a \<Rightarrow> f a)"

text \<open>A computation on the first of two states.\<close>

definition on_fst :: "('s, 'e, 'a) eff \<Rightarrow> ('s \<times> 'w, 'e, 'a) eff" where
  "on_fst m = (\<lambda>(s, w). case m s of (r, s') \<Rightarrow> (r, s', w))"

lemma on_fst_eq [simp]: "on_fst m (s, w) = (r, s', w') \<longleftrightarrow> m s = (r, s') \<and> w' = w"
  by (auto simp: on_fst_def split: prod.splits)

text \<open>
  \<open>serde_json::to_value\<close> and \<open>from_value\<close> of a serialisable type (a third-party package: parameters;
  an \<open>Inl\<close> is the rendered error), and the round trip that a derived codec gives.
\<close>

record ('r, 'j) codec =
  to_value :: "'r \<Rightarrow> string + 'j"
  from_value :: "'j \<Rightarrow> string + 'r"

definition codec_ok :: "('r, 'j) codec \<Rightarrow> bool" where
  "codec_ok c \<longleftrightarrow> (\<forall>r. \<exists>v. to_value c r = Inr v \<and> from_value c v = Inr r)"

end
