(* ===== verification/Saga_Events.thy ===== *)
theory Saga_Events
  imports Prelude
begin

text \<open>
  The lifecycle states and events of a saga run (\<open>fraisier-saga/src/events.rs\<close>). The tracing
  spans that the same file opens have no effect on a run and are left out.
\<close>

datatype saga_state =
    Idle
  | Running string
  | Committed
  | Compensating string
  | RolledBack
  | Failed string
  | PartialRollback string

text \<open>The \<open>Display\<close> rendering used in span attributes.\<close>

fun display_state :: "saga_state \<Rightarrow> string" where
  "display_state Idle = ''idle''"
| "display_state (Running step) = ''running:'' @ step"
| "display_state Committed = ''committed''"
| "display_state (Compensating step) = ''compensating:'' @ step"
| "display_state RolledBack = ''rolled_back''"
| "display_state (Failed _) = ''failed''"
| "display_state (PartialRollback _) = ''partial_rollback''"

datatype saga_event = StateTransition (ev_from: saga_state) (ev_to: saga_state)

text \<open>
  The lifecycle as a transition system: forward steps follow each other from \<^const>\<open>Idle\<close> to
  \<^const>\<open>Committed\<close>; a running step may be followed by compensations that end in
  \<^const>\<open>RolledBack\<close> or in \<^const>\<open>PartialRollback\<close>. The last two and \<^const>\<open>Committed\<close> are
  final. This is the abstract specification of the event log.
\<close>

inductive lifecycle :: "saga_state \<Rightarrow> saga_state \<Rightarrow> bool" where
  start: "lifecycle Idle (Running s)"
| forward: "lifecycle (Running s) (Running t)"
| commit_empty: "lifecycle Idle Committed"
| commit: "lifecycle (Running s) Committed"
| turn: "lifecycle (Running s) (Compensating t)"
| backward: "lifecycle (Compensating s) (Compensating t)"
| undone: "lifecycle (Compensating s) RolledBack"
| undone_empty: "lifecycle (Running s) RolledBack"
| stuck: "lifecycle (Compensating s) (PartialRollback r)"

inductive_simps lifecycle_from_final [simp]:
  "lifecycle Committed s" "lifecycle RolledBack s" "lifecycle (PartialRollback r) s"

declare lifecycle.intros [intro, simp]

text \<open>An event log is a path: every event leaves the state the one before it entered.\<close>

fun path_from :: "saga_state \<Rightarrow> saga_event list \<Rightarrow> saga_state \<Rightarrow> bool" where
  "path_from s [] t = (s = t)"
| "path_from s (e # es) t = (ev_from e = s \<and> lifecycle s (ev_to e) \<and> path_from (ev_to e) es t)"

lemma path_from_append:
  "path_from s (es @ fs) t \<longleftrightarrow> (\<exists>u. path_from s es u \<and> path_from u fs t)"
  by (induction es arbitrary: s) auto

fun final_state :: "saga_state \<Rightarrow> bool" where
  "final_state Committed = True"
| "final_state RolledBack = True"
| "final_state (PartialRollback _) = True"
| "final_state _ = False"

lemma final_no_successor: "final_state s \<Longrightarrow> \<not> lifecycle s t"
  by (cases s) auto

end
