(* ===== verification/State_Store.thy ===== *)
theory State_Store
  imports Saga_Events "HOL-Library.AList"
begin

unbundle bit_operations_syntax

text \<open>
  Pluggable state persistence (\<open>fraisier-saga/src/state_store.rs\<close>): the key of a deploy and its
  file-name slug, the \<open>StateStore\<close> trait as a record of operations, the contract the trait's
  documentation promises as the locale \<open>state_store_contract\<close> (extended by \<open>reliable_store\<close>), and
  the in-memory backend with its interpretation of both.
\<close>

section \<open>Keys and slugs\<close>

record fraise_key =
  fraise :: string
  environment :: string

definition key_new :: "string \<Rightarrow> string \<Rightarrow> fraise_key" where
  "key_new f e = \<lparr>fraise = f, environment = e\<rparr>"

text \<open>\<open>Display\<close>.\<close>

definition show_key :: "fraise_key \<Rightarrow> string" where
  "show_key k = fraise k @ ''/'' @ environment k"

text \<open>
  \<open>stable_hash\<close> feeds both strings to the standard library's default hasher (a parameter: the
  function from the bytes written to it to its 64-bit result). Hashing a \<open>str\<close> writes its bytes
  and \<open>0xFF\<close>; the domain separator is one zero byte.
\<close>

type_synonym hasher = "string \<Rightarrow> 64 word"

definition hash_input :: "fraise_key \<Rightarrow> string" where
  "hash_input k = fraise k @ [CHR 0xFF] @ [CHR 0x00] @ environment k @ [CHR 0xFF]"

definition stable_hash :: "hasher \<Rightarrow> fraise_key \<Rightarrow> 64 word" where
  "stable_hash h k = h (hash_input k)"

text \<open>The advisory-lock key: the same 64 bits read as an \<open>i64\<close>.\<close>

definition advisory_key :: "hasher \<Rightarrow> fraise_key \<Rightarrow> int" where
  "advisory_key h k = sint (stable_hash h k)"

definition hex_digit :: "nat \<Rightarrow> char" where
  "hex_digit n = (if n < 10 then char_of (48 + n) else char_of (87 + n))"

definition hex16 :: "64 word \<Rightarrow> string" where
  "hex16 w = map (\<lambda>i. hex_digit (unat (drop_bit (4 * i) w AND 15))) (rev [0..<16])"

text \<open>
  Sanitising keeps ASCII letters, digits and \<open>.-_\<close> and maps every other character to one
  underscore (a multi-byte character is its first byte here, the continuation bytes vanish).
\<close>

definition sanitize :: "string \<Rightarrow> string" where
  "sanitize s = map (\<lambda>c. if ascii_alnum c \<or> c \<in> set ''.-_'' then c else CHR ''_'')
     (filter (\<lambda>c. \<not> continuation c) s)"

definition slug :: "hasher \<Rightarrow> fraise_key \<Rightarrow> string" where
  "slug h k = sanitize (fraise k @ ''__'' @ environment k) @ ''-'' @ hex16 (stable_hash h k)"

section \<open>Records, errors, guards\<close>

record deployment_state =
  ds_state :: saga_state
  ds_revision :: "string option"
  ds_recorded_at :: nat

definition deployment_state_new :: "saga_state \<Rightarrow> string option \<Rightarrow> nat \<Rightarrow> deployment_state" where
  "deployment_state_new st revision now = \<lparr>ds_state = st, ds_revision = revision, ds_recorded_at = now\<rparr>"

datatype store_error =
    Locked string
  | Io string
  | Serde string
  | Backend string
  | Database string

fun show_store_error :: "store_error \<Rightarrow> string" where
  "show_store_error (Locked key) = ''the deploy '' @ key @ '' is already locked by another writer''"
| "show_store_error (Io m) = ''state store I/O error: '' @ m"
| "show_store_error (Serde m) = ''state store (de)serialization error: '' @ m"
| "show_store_error (Backend m) = ''state store backend error: '' @ m"
| "show_store_error (Database m) = ''state store database error: '' @ m"

text \<open>Proof that a lock is held; \<open>flock\<close> is the open lock file of the filesystem backend.\<close>

record lock_guard =
  guard_key :: fraise_key
  guard_flock :: "string option"

definition lease :: "fraise_key \<Rightarrow> lock_guard" where
  "lease k = \<lparr>guard_key = k, guard_flock = None\<rparr>"

section \<open>The trait\<close>

text \<open>
  The \<open>StateStore\<close> trait object: its operations over the state \<open>'s\<close> of a backend. A snapshot is
  an opaque JSON value of type \<open>'j\<close>.
\<close>

record ('s, 'j) state_store =
  acquire_lock :: "fraise_key \<Rightarrow> ('s, store_error, lock_guard) eff"
  release_lock :: "lock_guard \<Rightarrow> ('s, store_error, unit) eff"
  record_state :: "fraise_key \<Rightarrow> deployment_state \<Rightarrow> ('s, store_error, unit) eff"
  current_state :: "fraise_key \<Rightarrow> ('s, store_error, deployment_state option) eff"
  record_event :: "fraise_key \<Rightarrow> saga_event \<Rightarrow> ('s, store_error, unit) eff"
  store_events :: "fraise_key \<Rightarrow> ('s, store_error, saga_event list) eff"
  record_snapshot :: "fraise_key \<Rightarrow> 'j \<Rightarrow> ('s, store_error, unit) eff"
  current_snapshot :: "fraise_key \<Rightarrow> ('s, store_error, 'j option) eff"
  store_keys :: "('s, store_error, fraise_key list) eff"

section \<open>The in-memory backend\<close>

record 'j memory_inner =
  mi_locks :: "string set"
  mi_states :: "string \<rightharpoonup> deployment_state list"
  mi_events :: "string \<rightharpoonup> saga_event list"
  mi_snapshots :: "string \<rightharpoonup> 'j"
  mi_keys :: "(string \<times> fraise_key) list"

definition memory_new :: "'j memory_inner" where
  "memory_new = \<lparr>mi_locks = {}, mi_states = Map.empty, mi_events = Map.empty,
     mi_snapshots = Map.empty, mi_keys = []\<rparr>"

text \<open>\<open>entry(key).or_default().push(v)\<close>.\<close>

definition push_entry :: "string \<Rightarrow> 'v \<Rightarrow> (string \<rightharpoonup> 'v list) \<Rightarrow> (string \<rightharpoonup> 'v list)" where
  "push_entry key v m = m(key \<mapsto> (case m key of None \<Rightarrow> [] | Some vs \<Rightarrow> vs) @ [v])"

definition remember_key :: "hasher \<Rightarrow> fraise_key \<Rightarrow> 'j memory_inner \<Rightarrow> 'j memory_inner" where
  "remember_key h k s = s\<lparr>mi_keys := AList.update (slug h k) k (mi_keys s)\<rparr>"

definition mem_acquire_lock :: "hasher \<Rightarrow> fraise_key \<Rightarrow> ('j memory_inner, store_error, lock_guard) eff" where
  "mem_acquire_lock h k s =
     (let acquired = slug h k \<notin> mi_locks s;
          s' = s\<lparr>mi_locks := insert (slug h k) (mi_locks s)\<rparr>
      in if acquired then (Inr (lease k), s') else (Inl (Locked (show_key k)), s'))"

definition mem_release_lock :: "hasher \<Rightarrow> lock_guard \<Rightarrow> ('j memory_inner, store_error, unit) eff" where
  "mem_release_lock h g s = (Inr (), s\<lparr>mi_locks := mi_locks s - {slug h (guard_key g)}\<rparr>)"

definition mem_record_state ::
  "hasher \<Rightarrow> fraise_key \<Rightarrow> deployment_state \<Rightarrow> ('j memory_inner, store_error, unit) eff" where
  "mem_record_state h k d s =
     (let s' = remember_key h k s
      in (Inr (), s'\<lparr>mi_states := push_entry (slug h k) d (mi_states s')\<rparr>))"

definition mem_current_state ::
  "hasher \<Rightarrow> fraise_key \<Rightarrow> ('j memory_inner, store_error, deployment_state option) eff" where
  "mem_current_state h k s =
     (Inr (case mi_states s (slug h k) of None \<Rightarrow> None | Some ds \<Rightarrow> last_opt ds), s)"

definition mem_record_event ::
  "hasher \<Rightarrow> fraise_key \<Rightarrow> saga_event \<Rightarrow> ('j memory_inner, store_error, unit) eff" where
  "mem_record_event h k e s = (Inr (), s\<lparr>mi_events := push_entry (slug h k) e (mi_events s)\<rparr>)"

definition mem_events :: "hasher \<Rightarrow> fraise_key \<Rightarrow> ('j memory_inner, store_error, saga_event list) eff" where
  "mem_events h k s = (Inr (case mi_events s (slug h k) of None \<Rightarrow> [] | Some es \<Rightarrow> es), s)"

definition mem_record_snapshot ::
  "hasher \<Rightarrow> fraise_key \<Rightarrow> 'j \<Rightarrow> ('j memory_inner, store_error, unit) eff" where
  "mem_record_snapshot h k j s =
     (let s' = remember_key h k s
      in (Inr (), s'\<lparr>mi_snapshots := (mi_snapshots s')(slug h k \<mapsto> j)\<rparr>))"

definition mem_current_snapshot ::
  "hasher \<Rightarrow> fraise_key \<Rightarrow> ('j memory_inner, store_error, 'j option) eff" where
  "mem_current_snapshot h k s = (Inr (mi_snapshots s (slug h k)), s)"

text \<open>The order of a hash map's values is unspecified; here it is the order of first insertion.\<close>

definition mem_keys :: "('j memory_inner, store_error, fraise_key list) eff" where
  "mem_keys s = (Inr (map snd (mi_keys s)), s)"

definition memory_store :: "hasher \<Rightarrow> ('j memory_inner, 'j) state_store" where
  "memory_store h =
     \<lparr>acquire_lock = mem_acquire_lock h, release_lock = mem_release_lock h,
      record_state = mem_record_state h, current_state = mem_current_state h,
      record_event = mem_record_event h, store_events = mem_events h,
      record_snapshot = mem_record_snapshot h, current_snapshot = mem_current_snapshot h,
      store_keys = mem_keys\<rparr>"

section \<open>The contract\<close>

text \<open>
  What a backend's state means to its clients, slot by slot: whether the lock is held, the
  append-only list of states, the event log and the snapshot cell.
\<close>

record ('k, 'j) store_view =
  sv_locked :: "'k \<Rightarrow> bool"
  sv_states :: "'k \<Rightarrow> deployment_state list"
  sv_events :: "'k \<Rightarrow> saga_event list"
  sv_snapshot :: "'k \<Rightarrow> 'j option"

definition set_locked :: "'k \<Rightarrow> bool \<Rightarrow> ('k, 'j) store_view \<Rightarrow> ('k, 'j) store_view" where
  "set_locked a b v = v\<lparr>sv_locked := (sv_locked v)(a := b)\<rparr>"

definition add_state :: "'k \<Rightarrow> deployment_state \<Rightarrow> ('k, 'j) store_view \<Rightarrow> ('k, 'j) store_view" where
  "add_state a d v = v\<lparr>sv_states := (sv_states v)(a := sv_states v a @ [d])\<rparr>"

definition add_event :: "'k \<Rightarrow> saga_event \<Rightarrow> ('k, 'j) store_view \<Rightarrow> ('k, 'j) store_view" where
  "add_event a e v = v\<lparr>sv_events := (sv_events v)(a := sv_events v a @ [e])\<rparr>"

definition set_snapshot :: "'k \<Rightarrow> 'j \<Rightarrow> ('k, 'j) store_view \<Rightarrow> ('k, 'j) store_view" where
  "set_snapshot a j v = v\<lparr>sv_snapshot := (sv_snapshot v)(a \<mapsto> j)\<rparr>"

lemmas view_defs = set_locked_def add_state_def add_event_def set_snapshot_def

text \<open>
  The contract of the trait. An operation that succeeds changes its key's slot and nothing else;
  one that fails changes nothing a client can see; a lock that is held is never handed out again.
  \<open>genuine\<close> guards are those the backend hands out (the type's fields are private).
\<close>

locale state_store_contract =
  fixes st :: "('s, 'j) state_store"
    and slot :: "fraise_key \<Rightarrow> 'k"
    and view :: "'s \<Rightarrow> ('k, 'j) store_view"
    and valid :: "'s \<Rightarrow> bool"
    and genuine :: "lock_guard \<Rightarrow> bool"
  assumes acquire_ok: "valid s \<Longrightarrow> acquire_lock st k s = (Inr g, s') \<Longrightarrow>
      valid s' \<and> genuine g \<and> guard_key g = k \<and> \<not> sv_locked (view s) (slot k) \<and> view s' = set_locked (slot k) True (view s)"
    and acquire_err: "valid s \<Longrightarrow> acquire_lock st k s = (Inl e, s') \<Longrightarrow> valid s' \<and> view s' = view s"
    and release_ok: "valid s \<Longrightarrow> genuine g \<Longrightarrow> release_lock st g s = (Inr u, s') \<Longrightarrow>
      valid s' \<and> view s' = set_locked (slot (guard_key g)) False (view s)"
    and release_err: "valid s \<Longrightarrow> genuine g \<Longrightarrow> release_lock st g s = (Inl e, s') \<Longrightarrow> valid s' \<and> view s' = view s"
    and record_state_ok: "valid s \<Longrightarrow> record_state st k d s = (Inr u, s') \<Longrightarrow>
      valid s' \<and> view s' = add_state (slot k) d (view s)"
    and record_state_err: "valid s \<Longrightarrow> record_state st k d s = (Inl e, s') \<Longrightarrow> valid s' \<and> view s' = view s"
    and record_event_ok: "valid s \<Longrightarrow> record_event st k v s = (Inr u, s') \<Longrightarrow>
      valid s' \<and> view s' = add_event (slot k) v (view s)"
    and record_event_err: "valid s \<Longrightarrow> record_event st k v s = (Inl e, s') \<Longrightarrow> valid s' \<and> view s' = view s"
    and record_snapshot_ok: "valid s \<Longrightarrow> record_snapshot st k j s = (Inr u, s') \<Longrightarrow>
      valid s' \<and> view s' = set_snapshot (slot k) j (view s)"
    and record_snapshot_err:
      "valid s \<Longrightarrow> record_snapshot st k j s = (Inl e, s') \<Longrightarrow> valid s' \<and> view s' = view s"
    and current_state_ok: "valid s \<Longrightarrow> current_state st k s = (r, s') \<Longrightarrow>
      valid s' \<and> view s' = view s \<and> (\<forall>d. r = Inr d \<longrightarrow> d = last_opt (sv_states (view s) (slot k)))"
    and store_events_ok: "valid s \<Longrightarrow> store_events st k s = (q, s') \<Longrightarrow>
      valid s' \<and> view s' = view s \<and> (\<forall>es. q = Inr es \<longrightarrow> es = sv_events (view s) (slot k))"
    and current_snapshot_ok: "valid s \<Longrightarrow> current_snapshot st k s = (p, s') \<Longrightarrow>
      valid s' \<and> view s' = view s \<and> (\<forall>j. p = Inr j \<longrightarrow> j = sv_snapshot (view s) (slot k))"

text \<open>A backend whose operations always complete: only a held lock is refused.\<close>

locale reliable_store = state_store_contract +
  assumes acquire_total: "valid s \<Longrightarrow> \<not> sv_locked (view s) (slot k) \<Longrightarrow> is_ok (fst (acquire_lock st k s))"
    and acquire_held: "valid s \<Longrightarrow> sv_locked (view s) (slot k) \<Longrightarrow>
      fst (acquire_lock st k s) = Inl (Locked (show_key k))"
    and release_total: "valid s \<Longrightarrow> genuine g \<Longrightarrow> is_ok (fst (release_lock st g s))"
    and record_state_total: "valid s \<Longrightarrow> is_ok (fst (record_state st k d s))"
    and record_event_total: "valid s \<Longrightarrow> is_ok (fst (record_event st k v s))"
    and record_snapshot_total: "valid s \<Longrightarrow> is_ok (fst (record_snapshot st k j s))"
    and current_state_total: "valid s \<Longrightarrow> is_ok (fst (current_state st k s))"
    and current_snapshot_total: "valid s \<Longrightarrow> is_ok (fst (current_snapshot st k s))"

section \<open>The in-memory backend keeps the contract\<close>

definition memory_view :: "'j memory_inner \<Rightarrow> (string, 'j) store_view" where
  "memory_view s =
     \<lparr>sv_locked = (\<lambda>a. a \<in> mi_locks s),
      sv_states = (\<lambda>a. case mi_states s a of None \<Rightarrow> [] | Some ds \<Rightarrow> ds),
      sv_events = (\<lambda>a. case mi_events s a of None \<Rightarrow> [] | Some es \<Rightarrow> es),
      sv_snapshot = mi_snapshots s\<rparr>"

text \<open>
  The invariant of the maps: every slug with a state or a snapshot has the key it was made from
  recorded beside it, so that \<open>keys\<close> can enumerate it.
\<close>

definition keys_sound :: "hasher \<Rightarrow> (string \<times> fraise_key) list \<Rightarrow> bool" where
  "keys_sound h ks \<longleftrightarrow> distinct (map fst ks) \<and> (\<forall>p\<in>set ks. fst p = slug h (snd p))"

definition memory_valid :: "hasher \<Rightarrow> 'j memory_inner \<Rightarrow> bool" where
  "memory_valid h s \<longleftrightarrow>
     keys_sound h (mi_keys s) \<and>
     dom (mi_states s) \<union> dom (mi_snapshots s) \<subseteq> dom (map_of (mi_keys s))"

lemmas memory_defs =
  memory_store_def mem_acquire_lock_def mem_release_lock_def mem_record_state_def
  mem_current_state_def mem_record_event_def mem_events_def mem_record_snapshot_def
  mem_current_snapshot_def mem_keys_def

lemma memory_new_locks [simp]: "mi_locks memory_new = {}"
  by (simp add: memory_new_def)

lemma memory_valid_new [simp]: "memory_valid h memory_new"
  by (simp add: memory_valid_def memory_new_def keys_sound_def)

lemma set_update_cases: "p \<in> set (AList.update a k ks) \<Longrightarrow> p = (a, k) \<or> p \<in> set ks"
  by (induction ks) (auto split: if_splits)

lemma keys_sound_update: "keys_sound h ks \<Longrightarrow> keys_sound h (AList.update (slug h k) k ks)"
  by (auto simp: keys_sound_def distinct_update dest!: set_update_cases)

lemma memory_valid_remember: "memory_valid h s \<Longrightarrow> memory_valid h (remember_key h k s)"
  by (auto simp: memory_valid_def remember_key_def update_conv' keys_sound_update)

lemma remember_key_simps [simp]:
  "mi_locks (remember_key h k s) = mi_locks s" "mi_states (remember_key h k s) = mi_states s"
  "mi_events (remember_key h k s) = mi_events s" "mi_snapshots (remember_key h k s) = mi_snapshots s"
  "map_of (mi_keys (remember_key h k s)) = (map_of (mi_keys s))(slug h k \<mapsto> k)"
  by (simp_all add: remember_key_def update_conv')

lemma memory_valid_locks [simp]: "memory_valid h (mi_locks_update f s) = memory_valid h s"
  by (simp add: memory_valid_def)

lemma memory_valid_events [simp]: "memory_valid h (mi_events_update f s) = memory_valid h s"
  by (simp add: memory_valid_def)

lemma memory_valid_put_state:
  assumes "memory_valid h s"
  shows "memory_valid h ((remember_key h k s)\<lparr>mi_states := push_entry (slug h k) d (mi_states s)\<rparr>)"
proof -
  have "dom (push_entry (slug h k) d (mi_states s)) = insert (slug h k) (dom (mi_states s))"
    by (simp add: push_entry_def)
  with memory_valid_remember [OF assms, of k] show ?thesis
    by (simp add: memory_valid_def)
qed

lemma memory_valid_put_snapshot:
  assumes "memory_valid h s"
  shows "memory_valid h ((remember_key h k s)\<lparr>mi_snapshots := (mi_snapshots s)(slug h k \<mapsto> j)\<rparr>)"
  using memory_valid_remember [OF assms, of k] by (simp add: memory_valid_def)

lemma memory_view_push:
  "memory_view (mi_states_update (\<lambda>_. push_entry a d (mi_states s)) s') =
     (memory_view s')\<lparr>sv_states := (sv_states (memory_view s))(a := sv_states (memory_view s) a @ [d])\<rparr>"
  "memory_view (mi_events_update (\<lambda>_. push_entry a e (mi_events s)) s') =
     (memory_view s')\<lparr>sv_events := (sv_events (memory_view s))(a := sv_events (memory_view s) a @ [e])\<rparr>"
  by (simp_all add: memory_view_def push_entry_def fun_eq_iff)

lemma memory_view_simps [simp]:
  "sv_locked (memory_view s) a \<longleftrightarrow> a \<in> mi_locks s" "sv_snapshot (memory_view s) = mi_snapshots s"
  by (simp_all add: memory_view_def)

lemma memory_view_remember [simp]: "memory_view (remember_key h k s) = memory_view s"
  by (simp add: memory_view_def)

interpretation mem: reliable_store "memory_store h" "slug h" memory_view "memory_valid h" "\<lambda>_. True" for h
proof (unfold_locales, goal_cases)
  case (5 s k d u s')
  then show ?case
    by (auto simp: memory_defs Let_def memory_valid_put_state memory_view_push view_defs)
next
  case (7 s k v u s')
  then show ?case
    by (auto simp: memory_defs memory_view_push view_defs)
next
  case (9 s k j u s')
  then show ?case
    by (auto simp: memory_defs Let_def memory_valid_put_snapshot view_defs) (simp add: memory_view_def)
qed (auto simp: memory_defs Let_def memory_view_def view_defs fun_eq_iff lease_def
      insert_absorb split: if_splits option.splits)

section \<open>Slugs separate keys\<close>

lemma hash_input_inj:
  assumes "CHR 0xFF \<notin> set (fraise k)" and "CHR 0xFF \<notin> set (fraise k')"
    and eq: "hash_input k = hash_input k'"
  shows "k = k'"
proof -
  have tw: "takeWhile (\<lambda>c. c \<noteq> CHR 0xFF) (xs @ CHR 0xFF # ys) = xs" if "CHR 0xFF \<notin> set xs" for xs ys
    using that by (induction xs) auto
  from eq have "takeWhile (\<lambda>c. c \<noteq> CHR 0xFF) (hash_input k) = takeWhile (\<lambda>c. c \<noteq> CHR 0xFF) (hash_input k')"
    by simp
  with assms(1,2) have "fraise k = fraise k'" by (simp add: hash_input_def tw)
  with eq have "environment k = environment k'" by (simp add: hash_input_def)
  with \<open>fraise k = fraise k'\<close> show ?thesis by simp
qed

lemma hex_digit_inj: "m < 16 \<Longrightarrow> n < 16 \<Longrightarrow> hex_digit m = hex_digit n \<Longrightarrow> m = n"
proof -
  assume *: "m < 16" "n < 16" "hex_digit m = hex_digit n"
  have code: "of_char (hex_digit i) = (if i < 10 then 48 + i else 87 + i)" if "i < 16" for i :: nat
    using that by (simp add: hex_digit_def)
  have "(if m < 10 then 48 + m else 87 + m) = (if n < 10 then 48 + n else 87 + n)"
    using code [OF *(1)] code [OF *(2)] *(3) by metis
  with *(1,2) show ?thesis by (simp split: if_splits)
qed

lemma nibble_small: "unat ((w :: 64 word) AND 15) < 16"
proof -
  have "w AND 15 \<le> 15" by (rule word_and_le1)
  then have "unat (w AND 15) \<le> unat (15 :: 64 word)" by (simp add: word_le_nat_alt)
  then show ?thesis by simp
qed

lemma hex16_inj:
  assumes "hex16 w = hex16 w'"
  shows "w = w'"
proof (rule bit_word_eqI)
  fix n assume n: "n < LENGTH(64)"
  define i where "i = n div 4"
  have i: "i < 16" using n by (simp add: i_def)
  from assms have "hex_digit (unat (drop_bit (4 * i) w AND 15)) = hex_digit (unat (drop_bit (4 * i) w' AND 15))"
    using i by (simp add: hex16_def)
  then have "drop_bit (4 * i) w AND 15 = drop_bit (4 * i) w' AND 15"
    using hex_digit_inj nibble_small by (meson word_unat_eq_iff)
  then have "bit (drop_bit (4 * i) w AND 15) (n mod 4) = bit (drop_bit (4 * i) w' AND 15) (n mod 4)"
    by simp
  moreover have "bit (15 :: 64 word) (n mod 4)"
  proof -
    have "n mod 4 \<in> {0, 1, 2, 3}" by auto
    then show ?thesis by (auto simp: bit_simps)
  qed
  moreover have "4 * i + n mod 4 = n" by (simp add: i_def)
  ultimately show "bit w n = bit w' n" by (simp add: bit_and_iff bit_drop_bit_eq)
qed

lemma length_hex16 [simp]: "length (hex16 w) = 16"
  by (simp add: hex16_def)

lemma slug_hash: "slug h k = slug h k' \<Longrightarrow> stable_hash h k = stable_hash h k'"
proof -
  assume "slug h k = slug h k'"
  then have "rev (take 16 (rev (slug h k))) = rev (take 16 (rev (slug h k')))" by simp
  then have "hex16 (stable_hash h k) = hex16 (stable_hash h k')" by (simp add: slug_def)
  then show ?thesis by (rule hex16_inj)
qed

text \<open>
  Two keys share a slug (a lock file, a row, a memory slot) only if they are the same key or the
  64-bit hash collides on two different inputs: the separator keeps \<open>("a", "bc")\<close> and
  \<open>("ab", "c")\<close> apart although their sanitised names can be equal. (UTF-8 text has no
  \<open>0xFF\<close> byte.)
\<close>

theorem slug_collision_is_hash_collision:
  assumes "CHR 0xFF \<notin> set (fraise k)" and "CHR 0xFF \<notin> set (fraise k')" and "slug h k = slug h k'"
  shows "k = k' \<or> (hash_input k \<noteq> hash_input k' \<and> h (hash_input k) = h (hash_input k'))"
  using hash_input_inj [OF assms(1,2)] slug_hash [OF assms(3)] by (auto simp: stable_hash_def)

theorem slug_collision_is_hash_collision_witness:
  "let k = key_new ''a'' ''_b''; k' = key_new ''a_'' ''b''; h = (\<lambda>_. 0) :: hasher in
   k = k' \<or> (hash_input k \<noteq> hash_input k' \<and> h (hash_input k) = h (hash_input k'))"
  using slug_collision_is_hash_collision [of "key_new ''a'' ''_b''" "key_new ''a_'' ''b''" "\<lambda>_. 0"]
  by (simp add: key_new_def slug_def stable_hash_def)

section \<open>Concurrent writers\<close>

text \<open>
  Any number of writers share one store. Each tries locks, releases the guard it holds and calls
  the other operations at any time: one step is one call of one writer. A failed release consumes
  the guard (it was moved into the call).
\<close>

type_synonym 's writers = "'s \<times> (nat \<rightharpoonup> lock_guard)"

inductive writer_step :: "('s, 'j) state_store \<Rightarrow> 's writers \<Rightarrow> 's writers \<Rightarrow> bool" for st where
  acquired: "held i = None \<Longrightarrow> acquire_lock st k s = (Inr g, s') \<Longrightarrow>
     writer_step st (s, held) (s', held(i \<mapsto> g))"
| refused: "acquire_lock st k s = (Inl e, s') \<Longrightarrow> writer_step st (s, held) (s', held)"
| released: "held i = Some g \<Longrightarrow> release_lock st g s = (r, s') \<Longrightarrow>
     writer_step st (s, held) (s', held(i := None))"
| wrote_state: "record_state st k d s = (r, s') \<Longrightarrow> writer_step st (s, held) (s', held)"
| wrote_event: "record_event st k v s = (r, s') \<Longrightarrow> writer_step st (s, held) (s', held)"
| wrote_snapshot: "record_snapshot st k j s = (r, s') \<Longrightarrow> writer_step st (s, held) (s', held)"
| read_state: "current_state st k s = (d, s') \<Longrightarrow> writer_step st (s, held) (s', held)"
| read_events: "store_events st k s = (es, s') \<Longrightarrow> writer_step st (s, held) (s', held)"
| read_snapshot: "current_snapshot st k s = (v, s') \<Longrightarrow> writer_step st (s, held) (s', held)"

text \<open>Guards of different writers never protect the same slot, and each slot they protect is locked.\<close>

definition exclusive :: "(fraise_key \<Rightarrow> 'k) \<Rightarrow> (nat \<rightharpoonup> lock_guard) \<Rightarrow> bool" where
  "exclusive slot held \<longleftrightarrow> (\<forall>i j g g'. held i = Some g \<longrightarrow> held j = Some g' \<longrightarrow>
     slot (guard_key g) = slot (guard_key g') \<longrightarrow> i = j)"

lemma exclusiveD:
  "exclusive slot held \<Longrightarrow> held i = Some g \<Longrightarrow> held j = Some g' \<Longrightarrow>
     slot (guard_key g) = slot (guard_key g') \<Longrightarrow> i = j"
  by (simp add: exclusive_def)

lemma exclusive_drop: "exclusive slot held \<Longrightarrow> exclusive slot (held(i := None))"
  unfolding exclusive_def by (metis fun_upd_apply option.distinct(1))

lemma exclusive_take:
  assumes "exclusive slot held" and "\<And>j g'. held j = Some g' \<Longrightarrow> slot (guard_key g') \<noteq> slot (guard_key g)"
  shows "exclusive slot (held(i \<mapsto> g))"
  using assms unfolding exclusive_def by (metis fun_upd_apply option.inject)

context state_store_contract
begin

definition writers_inv :: "'s writers \<Rightarrow> bool" where
  "writers_inv c \<longleftrightarrow> valid (fst c) \<and> exclusive slot (snd c) \<and>
     (\<forall>i g. snd c i = Some g \<longrightarrow> genuine g \<and> sv_locked (view (fst c)) (slot (guard_key g)))"

lemma writers_locked:
  "writers_inv (s, held) \<Longrightarrow> held i = Some g \<Longrightarrow> sv_locked (view s) (slot (guard_key g))"
  by (simp add: writers_inv_def)

lemma writers_inv_acquired:
  assumes inv: "writers_inv (s, held)" and "acquire_lock st k s = (Inr g, s')"
  shows "writers_inv (s', held(i \<mapsto> g))"
proof -
  have acq: "valid s' \<and> genuine g" "guard_key g = k" "\<not> sv_locked (view s) (slot k)"
    and view: "view s' = set_locked (slot k) True (view s)"
    using assms acquire_ok [of s k g s'] by (auto simp: writers_inv_def)
  have "slot (guard_key g') \<noteq> slot (guard_key g)" if "held j = Some g'" for j g'
    using writers_locked [OF inv that] acq(2,3) by metis
  then have "exclusive slot (held(i \<mapsto> g))"
    using inv by (intro exclusive_take) (simp_all add: writers_inv_def)
  with inv acq view show ?thesis
    by (simp add: writers_inv_def set_locked_def)
qed

lemma writers_inv_released:
  assumes inv: "writers_inv (s, held)" and held: "held i = Some g" and rel: "release_lock st g s = (r, s')"
  shows "writers_inv (s', held(i := None))"
proof -
  have view: "valid s'" "view s' = view s \<or> view s' = set_locked (slot (guard_key g)) False (view s)"
    using inv rel held release_ok [of s g _ s'] release_err [of s g _ s']
    by (cases r; auto simp: writers_inv_def)+
  have "slot (guard_key g') \<noteq> slot (guard_key g)" if "held j = Some g'" "j \<noteq> i" for j g'
    using inv exclusiveD [OF _ that(1) held] that(2) by (auto simp: writers_inv_def)
  with inv view have "sv_locked (view s') (slot (guard_key g'))" if "(held(i := None)) j = Some g'" for j g'
    using that writers_locked [OF inv, of j g'] by (auto simp: set_locked_def split: if_splits)
  moreover have "exclusive slot (held(i := None))"
    using inv by (intro exclusive_drop) (simp add: writers_inv_def)
  ultimately show ?thesis using view(1) inv by (auto simp: writers_inv_def split: if_splits)
qed

lemma writers_inv_step: "writer_step st c c' \<Longrightarrow> writers_inv c \<Longrightarrow> writers_inv c'"
proof (induction rule: writer_step.induct)
  case (acquired held i k s g s')
  then show ?case by (simp add: writers_inv_acquired)
next
  case (released held i g s r s')
  then show ?case by (simp add: writers_inv_released)
next
  case (refused k s e s' held)
  then show ?case using acquire_err [of s k e s'] by (auto simp: writers_inv_def)
next
  case (wrote_state k d s r s' held)
  then show ?case using record_state_ok [of s k d _ s'] record_state_err [of s k d _ s']
    by (cases r) (auto simp: writers_inv_def add_state_def)
next
  case (wrote_event k v s r s' held)
  then show ?case using record_event_ok [of s k v _ s'] record_event_err [of s k v _ s']
    by (cases r) (auto simp: writers_inv_def add_event_def)
next
  case (wrote_snapshot k j s r s' held)
  then show ?case using record_snapshot_ok [of s k j _ s'] record_snapshot_err [of s k j _ s']
    by (cases r) (auto simp: writers_inv_def set_snapshot_def)
next
  case (read_state k s d s' held)
  then show ?case using current_state_ok [of s k d s'] by (auto simp: writers_inv_def)
next
  case (read_events k s es s' held)
  then show ?case using store_events_ok [of s k es s'] by (auto simp: writers_inv_def)
next
  case (read_snapshot k s v s' held)
  then show ?case using current_snapshot_ok [of s k v s'] by (auto simp: writers_inv_def)
qed

lemma writers_exclusive:
  assumes "valid s" and "(writer_step st)\<^sup>*\<^sup>* (s, Map.empty) (s', held)"
  shows "exclusive slot held"
proof -
  have "writers_inv (s', held)"
    using assms(2)
  proof (induction "(s, Map.empty :: nat \<rightharpoonup> lock_guard)" "(s', held)" arbitrary: s' held rule: rtranclp.induct)
    case rtrancl_refl
    with assms(1) show ?case by (simp add: writers_inv_def exclusive_def)
  next
    case (rtrancl_into_rtrancl c)
    then show ?case using writers_inv_step by (cases c) auto
  qed
  then show ?thesis by (simp add: writers_inv_def)
qed

end

text \<open>
  C12: Cross-deploy serialisation. However the calls of any number of writers of one in-memory store
  interleave, at most one of them holds the lock of a \<open>(fraise, environment)\<close> pair at any time.
\<close>

theorem memory_lock_exclusive:
  assumes "(writer_step (memory_store h))\<^sup>*\<^sup>* (memory_new, Map.empty) (s, held)"
    and "held i = Some g" and "held j = Some g'" and "guard_key g = guard_key g'"
  shows "i = j"
proof -
  have "exclusive (slug h) held"
    using mem.writers_exclusive [OF memory_valid_new assms(1)] .
  from exclusiveD [OF this assms(2,3)] assms(4) show ?thesis by simp
qed

theorem memory_lock_exclusive_witness:
  "\<exists>s held g. (writer_step (memory_store (\<lambda>_. 0)))\<^sup>*\<^sup>* (memory_new :: nat memory_inner, Map.empty) (s, held)
     \<and> held 3 = Some g \<and> {j. \<exists>g'. held j = Some g' \<and> guard_key g' = guard_key g} = {3}"
proof -
  let ?k = "key_new ''app'' ''prod''"
  let ?s = "(memory_new :: nat memory_inner)\<lparr>mi_locks := {slug (\<lambda>_. 0) ?k}\<rparr>"
  let ?held = "[3 :: nat \<mapsto> lease ?k]"
  have "writer_step (memory_store (\<lambda>_. 0)) (memory_new, Map.empty) (?s, ?held)"
    by (rule writer_step.acquired [where k = ?k]) (simp_all add: memory_defs memory_new_def)
  then have reach: "(writer_step (memory_store (\<lambda>_. 0)))\<^sup>*\<^sup>* (memory_new, Map.empty) (?s, ?held)"
    by (rule r_into_rtranclp)
  have only: "3 = j" if "?held j = Some g'" "guard_key g' = guard_key (lease ?k)" for j g'
    by (rule memory_lock_exclusive [OF reach _ that(1) that(2) [symmetric]]) simp
  have "{j. \<exists>g'. ?held j = Some g' \<and> guard_key g' = guard_key (lease ?k)} = {3}"
    by (rule subset_antisym) (blast dest: only, simp)
  with reach show ?thesis by (intro exI [of _ ?s] exI [of _ ?held] exI [of _ "lease ?k"]) simp
qed

text \<open>
  \<open>keys\<close> enumerates every deploy the in-memory store has recorded a state or a snapshot for:
  in every state the invariant describes, the slot of each recorded deploy belongs to a listed
  key, and every write keeps the invariant.
\<close>

theorem memory_keys_complete:
  assumes "memory_valid h s" and "mi_states s a \<noteq> None \<or> mi_snapshots s a \<noteq> None"
  shows "\<exists>k ks. mem_keys s = (Inr ks, s) \<and> k \<in> set ks \<and> slug h k = a"
proof -
  from assms obtain k where "map_of (mi_keys s) a = Some k"
    by (auto simp: memory_valid_def dom_def)
  then have "(a, k) \<in> set (mi_keys s)" by (rule map_of_SomeD)
  moreover from this assms(1) have "slug h k = a"
    by (auto simp: memory_valid_def keys_sound_def)
  ultimately show ?thesis by (force simp: mem_keys_def)
qed

theorem memory_keys_complete_witness:
  "let k = key_new ''app'' ''prod''; s = snd (mem_record_snapshot (\<lambda>_. 0) k (7 :: nat) memory_new) in
   \<exists>k' ks. mem_keys s = (Inr ks, s) \<and> k' \<in> set ks \<and> slug (\<lambda>_. 0) k' = slug (\<lambda>_. 0) k"
proof -
  let ?k = "key_new ''app'' ''prod''"
  let ?s = "snd (mem_record_snapshot (\<lambda>_. 0) ?k (7 :: nat) memory_new)"
  have "memory_valid (\<lambda>_. 0) ?s"
    using memory_valid_put_snapshot [OF memory_valid_new] by (simp add: mem_record_snapshot_def Let_def)
  moreover have "mi_snapshots ?s (slug (\<lambda>_. 0) ?k) \<noteq> None" by (simp add: mem_record_snapshot_def Let_def)
  ultimately show ?thesis unfolding Let_def by (intro memory_keys_complete disjI2)
qed

end
