(* ===== verification/Rust_Strings.thy ===== *)
theory Rust_Strings
  imports Prelude
begin

text \<open>
  The parts of Rust's string library that split, trim and cut: white space, \<open>trim\<close>, \<open>lines\<close>,
  \<open>split_whitespace\<close>, \<open>strip_prefix\<close> and \<open>strip_suffix\<close>, and \<open>collect\<close> into a \<open>Result\<close>. Nothing here models
  a file of the repository by itself.
\<close>

section \<open>White space\<close>

text \<open>\<open>char::is_whitespace\<close>, as the UTF-8 encodings of the \<open>White_Space\<close> code points.\<close>

definition utf8_bytes :: "nat list \<Rightarrow> string" where
  "utf8_bytes = map char_of"

definition whitespace_chars :: "string list" where
  "whitespace_chars = map utf8_bytes
     ([[9], [10], [11], [12], [13], [32], [194, 133], [194, 160], [225, 154, 128]]
      @ map (\<lambda>n. [226, 128, 128 + n]) [0..<11]
      @ [[226, 128, 168], [226, 128, 169], [226, 128, 175], [226, 129, 159], [227, 128, 128]])"

lemma whitespace_chars_code [code]:
  "whitespace_chars = [[CHR 0x09], [CHR 0x0A], [CHR 0x0B], [CHR 0x0C], [CHR 0x0D], [CHR 0x20], [CHR 0xC2, CHR 0x85], [CHR 0xC2, CHR 0xA0], [CHR 0xE1, CHR 0x9A, CHR 0x80],
   [CHR 0xE2, CHR 0x80, CHR 0x80], [CHR 0xE2, CHR 0x80, CHR 0x81], [CHR 0xE2, CHR 0x80, CHR 0x82], [CHR 0xE2, CHR 0x80, CHR 0x83], [CHR 0xE2, CHR 0x80, CHR 0x84],
   [CHR 0xE2, CHR 0x80, CHR 0x85], [CHR 0xE2, CHR 0x80, CHR 0x86], [CHR 0xE2, CHR 0x80, CHR 0x87], [CHR 0xE2, CHR 0x80, CHR 0x88], [CHR 0xE2, CHR 0x80, CHR 0x89],
   [CHR 0xE2, CHR 0x80, CHR 0x8A], [CHR 0xE2, CHR 0x80, CHR 0xA8], [CHR 0xE2, CHR 0x80, CHR 0xA9], [CHR 0xE2, CHR 0x80, CHR 0xAF], [CHR 0xE2, CHR 0x81, CHR 0x9F], [CHR 0xE3, CHR 0x80, CHR 0x80]]"
  by (simp add: whitespace_chars_def utf8_bytes_def upt_rec char_of_def bit_0)

definition whitespace_here :: "string \<Rightarrow> bool" where
  "whitespace_here s \<longleftrightarrow> (\<exists>w\<in>set whitespace_chars. prefix w s)"

text \<open>\<open>str::trim\<close>: whitespace characters are dropped from both ends.\<close>

lemma whitespace_nonempty: "c \<in> set whitespace_chars \<Longrightarrow> c \<noteq> []"
  by (auto simp: whitespace_chars_def utf8_bytes_def)

lemma whitespace_found:
  assumes "find (\<lambda>c. R c s) whitespace_chars = Some c" and "\<And>c. R c s \<Longrightarrow> length c \<le> length s"
  shows "length s - length c < length s"
proof -
  from assms(1) have "R c s" "c \<in> set whitespace_chars" by (auto simp: find_Some_iff)
  with assms(2) whitespace_nonempty have "0 < length c" "length c \<le> length s" by auto
  then show ?thesis by linarith
qed

function trim_start :: "string \<Rightarrow> string" where
  "trim_start s =
     (case find (\<lambda>c. prefix c s) whitespace_chars of
        None \<Rightarrow> s | Some c \<Rightarrow> trim_start (drop (length c) s))"
  by pat_completeness auto
termination
  by (relation "measure length")
    (auto dest: whitespace_found prefix_length_le suffix_length_le)

function trim_end :: "string \<Rightarrow> string" where
  "trim_end s =
     (case find (\<lambda>c. suffix c s) whitespace_chars of
        None \<Rightarrow> s | Some c \<Rightarrow> trim_end (take (length s - length c) s))"
  by pat_completeness auto
termination
  by (relation "measure length")
    (auto dest: whitespace_found prefix_length_le suffix_length_le)

declare trim_start.simps [simp del] trim_end.simps [simp del]

definition trim :: "string \<Rightarrow> string" where
  "trim s = trim_end (trim_start s)"

section \<open>Lines\<close>

definition newline :: char where
  "newline = CHR 0x0A"

text \<open>\<open>str::lines\<close>: the pieces ended by a line feed, which drop a carriage return before it, and a last piece without one.\<close>

function lines :: "string \<Rightarrow> string list" where
  "lines s =
     (if s = [] then []
      else let l = takeWhile (\<lambda>c. c \<noteq> newline) s; r = dropWhile (\<lambda>c. c \<noteq> newline) s in
        if r = [] then [l]
        else (if l \<noteq> [] \<and> last l = CHR 0x0D then butlast l else l) # lines (tl r))"
  by pat_completeness auto
termination
proof (relation "measure length")
  fix s l r :: string
  assume "s \<noteq> []" "r = dropWhile (\<lambda>c. c \<noteq> newline) s" "r \<noteq> []"
  then have "length r \<le> length s" "0 < length s" by (simp_all add: length_dropWhile_le)
  then have "length (tl r) < length s" unfolding length_tl by linarith
  then show "(tl r, s) \<in> measure length" by simp
qed simp

declare lines.simps [simp del]

lemma lines_Cons:
  assumes "newline \<notin> set l" and "CHR 0x0D \<notin> set l"
  shows "lines (l @ newline # t) = l # lines t"
proof -
  have tw: "takeWhile (\<lambda>c. c \<noteq> newline) (l @ newline # t) = l" "dropWhile (\<lambda>c. c \<noteq> newline) (l @ newline # t) = newline # t"
    using assms(1) by (induction l) auto
  moreover have "\<not> (l \<noteq> [] \<and> last l = CHR 0x0D)" using assms(2) last_in_set by metis
  ultimately show ?thesis by (subst lines.simps) (auto simp: Let_def)
qed

text \<open>\<open>trim().is_empty()\<close>. A text that starts with a visible ASCII character is not blank.\<close>

definition blank :: "string \<Rightarrow> bool" where
  "blank l \<longleftrightarrow> trim l = []"

definition graphic :: "char \<Rightarrow> bool" where
  "graphic c = (let n = of_char c :: nat in 33 \<le> n \<and> n < 127)"

definition visible_start :: "string \<Rightarrow> bool" where
  "visible_start l \<longleftrightarrow> (\<exists>c s. l = c # s \<and> graphic c)"

lemma graphic_not_white: "w \<in> set whitespace_chars \<Longrightarrow> graphic c \<Longrightarrow> c \<notin> set w"
proof -
  have "\<forall>w\<in>set whitespace_chars. \<forall>c\<in>set w. (of_char c :: nat) < 33 \<or> (of_char c :: nat) \<ge> 128"
    by (simp add: whitespace_chars_def utf8_bytes_def upt_rec)
  then show "w \<in> set whitespace_chars \<Longrightarrow> graphic c \<Longrightarrow> c \<notin> set w" by (fastforce simp: graphic_def Let_def)
qed

lemma trim_start_visible: "graphic c \<Longrightarrow> trim_start (c # s) = c # s"
proof -
  assume "graphic c"
  then have "\<not> prefix w (c # s)" if "w \<in> set whitespace_chars" for w
    using graphic_not_white [OF that] whitespace_nonempty [OF that] by (cases w) auto
  then have "find (\<lambda>w. prefix w (c # s)) whitespace_chars = None" by (simp add: find_None_iff)
  then show ?thesis by (simp add: trim_start.simps)
qed

lemma trim_end_visible: "graphic c \<Longrightarrow> \<exists>s'. trim_end (c # s) = c # s'"
proof (induction "c # s" arbitrary: s rule: trim_end.induct)
  case (1 s)
  show ?case
  proof (cases "find (\<lambda>w. suffix w (c # s)) whitespace_chars")
    case None
    then show ?thesis by (simp add: trim_end.simps [of "c # s"])
  next
    case (Some w)
    then have w: "w \<in> set whitespace_chars" "suffix w (c # s)" by (auto simp: find_Some_iff)
    then have "c \<notin> set w" using graphic_not_white 1(2) by blast
    then have "length w \<le> length s" using w(2) by (auto simp: suffix_Cons dest: suffix_length_le)
    then obtain t where t: "take (length (c # s) - length w) (c # s) = c # t" by (simp add: Suc_diff_le)
    from 1(1) [OF Some t] 1(2) Some t show ?thesis by (simp add: trim_end.simps [of "c # s"])
  qed
qed

lemma visible_not_blank: "visible_start l \<Longrightarrow> \<not> blank l"
  by (auto simp: visible_start_def blank_def trim_def trim_start_visible dest: trim_end_visible) (metis list.distinct(1) trim_end_visible)

section \<open>Words\<close>

text \<open>\<open>split_whitespace\<close>: the maximal runs of other characters.\<close>

definition word_end :: "string \<Rightarrow> nat" where
  "word_end s = (case find_suffix whitespace_here s of Some n \<Rightarrow> n | None \<Rightarrow> length s)"

lemma trim_start_length: "length (trim_start s) \<le> length s"
proof (induction s rule: trim_start.induct)
  case (1 s)
  then show ?case by (subst trim_start.simps) (auto split: option.splits intro: le_trans)
qed

lemma trim_start_black: "\<not> whitespace_here (trim_start s)"
proof (induction s rule: trim_start.induct)
  case (1 s)
  show ?case
  proof (cases "find (\<lambda>c. prefix c s) whitespace_chars")
    case None
    then have "trim_start s = s" by (simp add: trim_start.simps [of s])
    with None show ?thesis by (simp add: whitespace_here_def find_None_iff)
  next
    case (Some w)
    with 1 show ?thesis by (simp add: trim_start.simps [of s])
  qed
qed

lemma word_end_pos: "trim_start s \<noteq> [] \<Longrightarrow> 0 < word_end (trim_start s)"
  using trim_start_black [of s] find_suffix_less [of whitespace_here "trim_start s" 0]
  by (auto simp: word_end_def split: option.splits intro: gr0I)

function split_whitespace :: "string \<Rightarrow> string list" where
  "split_whitespace s =
     (let t = trim_start s in if t = [] then [] else take (word_end t) t # split_whitespace (drop (word_end t) t))"
  by pat_completeness auto
termination
proof (relation "measure length")
  fix s t :: string
  assume "t = trim_start s" "t \<noteq> []"
  then have "0 < word_end t" "length t \<le> length s" "0 < length t" using word_end_pos [of s] trim_start_length [of s] by simp_all
  then have "length t - word_end t < length s" by linarith
  then show "(drop (word_end t) t, s) \<in> measure length" by simp
qed simp

declare split_whitespace.simps [simp del]

section \<open>Cutting\<close>

definition strip_prefix :: "string \<Rightarrow> string \<Rightarrow> string option" where
  "strip_prefix p s = (if prefix p s then Some (drop (length p) s) else None)"

definition strip_suffix :: "string \<Rightarrow> string \<Rightarrow> string option" where
  "strip_suffix p s = (if suffix p s then Some (take (length s - length p) s) else None)"

lemma strip_simps [simp]: "strip_prefix p (p @ s) = Some s" "strip_suffix p (s @ p) = Some s"
  by (simp_all add: strip_prefix_def strip_suffix_def suffix_def)

text \<open>\<open>contains\<close> with a string.\<close>

definition contains :: "string \<Rightarrow> string \<Rightarrow> bool" where
  "contains pat s \<longleftrightarrow> find_str pat s \<noteq> None"

lemma find_suffix_None: "find_suffix P xs = None \<longleftrightarrow> (\<forall>i \<le> length xs. \<not> P (drop i xs))"
proof (induction xs)
  case (Cons x xs)
  have "(\<forall>i \<le> length (x # xs). \<not> P (drop i (x # xs)))
      \<longleftrightarrow> \<not> P (x # xs) \<and> (\<forall>i \<le> length xs. \<not> P (drop i xs))"
    by (auto simp: all_conj_distrib less_Suc_eq_le drop_Cons split: nat.split)
  with Cons.IH show ?case by simp
qed simp

lemma contains_iff: "contains pat s \<longleftrightarrow> (\<exists>a b. s = a @ pat @ b)"
proof
  assume "contains pat s"
  then obtain i where "find_str pat s = Some i" by (auto simp: contains_def)
  then show "\<exists>a b. s = a @ pat @ b" by (metis find_str_split)
next
  assume "\<exists>a b. s = a @ pat @ b"
  then obtain a b where "s = a @ pat @ b" by blast
  then have "prefix pat (drop (length a) s)" "length a \<le> length s" by simp_all
  then show "contains pat s" unfolding contains_def find_str_def find_suffix_None by blast
qed

text \<open>\<open>{n:x}\<close>: hexadecimal digits.\<close>

definition hex_char :: "nat \<Rightarrow> char" where
  "hex_char n = char_of (if n < 10 then 48 + n else 87 + n)"

fun show_hex :: "nat \<Rightarrow> string" where
  "show_hex n = (if n < 16 then [hex_char n] else show_hex (n div 16) @ [hex_char (n mod 16)])"

declare show_hex.simps [simp del]

text \<open>
  \<open>{s:?}\<close>: the quoted form with ASCII control characters, quotes and backslashes escaped. Characters beyond
  ASCII are kept; those of them that Unicode calls unprintable would be escaped, too.
\<close>

definition debug_char :: "char \<Rightarrow> string" where
  "debug_char c = (let n = of_char c :: nat in
     if c = CHR 0x22 \<or> c = CHR 0x5C then [CHR 0x5C, c]
     else if n = 0 then [CHR 0x5C, CHR ''0''] else if n = 9 then [CHR 0x5C, CHR ''t'']
     else if n = 10 then [CHR 0x5C, CHR ''n''] else if n = 13 then [CHR 0x5C, CHR ''r'']
     else if n < 32 \<or> n = 127 then CHR 0x5C # ''u{'' @ show_hex n @ ''}'' else [c])"

definition debug_str :: "string \<Rightarrow> string" where
  "debug_str s = [dquote] @ concat (map debug_char s) @ [dquote]"

section \<open>Results\<close>

text \<open>\<open>collect\<close> into a \<open>Result\<close>: the first error, or all values.\<close>

fun collect_results :: "('e + 'a) list \<Rightarrow> 'e + 'a list" where
  "collect_results [] = Inr []"
| "collect_results (Inl e # rs) = Inl e"
| "collect_results (Inr a # rs) = (case collect_results rs of Inl e \<Rightarrow> Inl e | Inr as \<Rightarrow> Inr (a # as))"

text \<open>\<open>to_ascii_lowercase\<close> of one character, \<open>eq_ignore_ascii_case\<close>.\<close>

definition ascii_lower :: "char \<Rightarrow> char" where
  "ascii_lower c = (if 65 \<le> (of_char c :: nat) \<and> of_char c \<le> (90::nat) then char_of (of_char c + 32 :: nat) else c)"

lemma ascii_lower_code [code]:
  "ascii_lower c = (let n = of_char c :: int in if 65 \<le> n \<and> n \<le> 90 then char_of (n + 32) else c)"
proof -
  have n: "(of_char c :: int) = int (of_char c)" by (simp add: of_nat_of_char)
  have "char_of (int (of_char c) + 32) = char_of (of_char c + 32 :: nat)"
    using char_of_nat [where 'a = int, of "of_char c + 32"] by simp
  then show ?thesis unfolding ascii_lower_def Let_def n by simp
qed

definition eq_ignore_ascii_case :: "string \<Rightarrow> string \<Rightarrow> bool" where
  "eq_ignore_ascii_case a b \<longleftrightarrow> map ascii_lower a = map ascii_lower b"

section \<open>Splitting and validity\<close>

text \<open>\<open>split\<close> with a non-empty separator, \<open>split_once\<close> with a character.\<close>

function split_str :: "string \<Rightarrow> string \<Rightarrow> string list" where
  "split_str sep s =
     (if sep = [] then [s]
      else case find_str sep s of None \<Rightarrow> [s] | Some i \<Rightarrow> take i s # split_str sep (drop (i + length sep) s))"
  by pat_completeness auto
termination
proof (relation "measure (length \<circ> snd)")
  fix sep s :: string and i
  assume "sep \<noteq> []" and "find_str sep s = Some i"
  then have "length s - (i + length sep) < length s" using find_str_bound [of sep s i] by (cases sep) auto
  then show "((sep, drop (i + length sep) s), sep, s) \<in> measure (length \<circ> snd)" by simp
qed simp

declare split_str.simps [simp del]

text \<open>The pieces between the bytes that satisfy a predicate (\<open>slice::split\<close>).\<close>

fun split_on :: "('a \<Rightarrow> bool) \<Rightarrow> 'a list \<Rightarrow> 'a list list" where
  "split_on P [] = [[]]"
| "split_on P (x # xs) = (if P x then [] # split_on P xs else (case split_on P xs of p # ps \<Rightarrow> (x # p) # ps | [] \<Rightarrow> [[x]]))"

definition split_once :: "char \<Rightarrow> string \<Rightarrow> (string \<times> string) option" where
  "split_once c s = (case dropWhile (\<lambda>x. x \<noteq> c) s of [] \<Rightarrow> None | _ # rest \<Rightarrow> Some (takeWhile (\<lambda>x. x \<noteq> c) s, rest))"

definition rsplit_once :: "char \<Rightarrow> string \<Rightarrow> (string \<times> string) option" where
  "rsplit_once c s = map_option (\<lambda>i. (take i s, drop (Suc i) s)) (rposition (\<lambda>x. x = c) s)"

text \<open>\<open>str::from_utf8\<close>: the well-formed byte sequences of Unicode (table 3-7 of the standard).\<close>

definition byte_in :: "int \<Rightarrow> int \<Rightarrow> char \<Rightarrow> bool" where
  "byte_in lo hi c = (let n = of_char c :: int in lo \<le> n \<and> n \<le> hi)"

abbreviation tail_byte :: "char \<Rightarrow> bool" where
  "tail_byte \<equiv> byte_in 128 191"

fun utf8_step :: "string \<Rightarrow> nat option" where
  "utf8_step [] = None"
| "utf8_step (a # s) =
     (if byte_in 0 127 a then Some 1
      else if byte_in 194 223 a then (case s of b # _ \<Rightarrow> if tail_byte b then Some 2 else None | _ \<Rightarrow> None)
      else if byte_in 224 239 a then
        (case s of b # c # _ \<Rightarrow>
           if (if a = CHR 0xE0 then byte_in 160 191 b else if a = CHR 0xED then byte_in 128 159 b else tail_byte b) \<and> tail_byte c
           then Some 3 else None
         | _ \<Rightarrow> None)
      else if byte_in 240 244 a then
        (case s of b # c # d # _ \<Rightarrow>
           if (if a = CHR 0xF0 then byte_in 144 191 b else if a = CHR 0xF4 then byte_in 128 143 b else tail_byte b) \<and>
              tail_byte c \<and> tail_byte d
           then Some 4 else None
         | _ \<Rightarrow> None)
      else None)"

lemma utf8_step_pos: "utf8_step s = Some n \<Longrightarrow> 0 < n \<and> n \<le> length s"
  by (cases s) (auto split: if_splits list.splits)

function utf8_valid :: "string \<Rightarrow> bool" where
  "utf8_valid s = (if s = [] then True else case utf8_step s of None \<Rightarrow> False | Some n \<Rightarrow> utf8_valid (drop n s))"
  by pat_completeness auto
termination
  by (relation "measure length") (auto dest: utf8_step_pos)

declare utf8_valid.simps [simp del]

lemma trim_graphic:
  assumes "list_all graphic s"
  shows "trim s = s"
proof -
  have "find (\<lambda>c. c = []) whitespace_chars = None" using whitespace_nonempty by (auto simp: find_None_iff)
  then have start: "trim_start s = s" using assms by (cases s) (simp_all add: trim_start_visible trim_start.simps [of "[]"])
  have "\<not> suffix w s" if w: "w \<in> set whitespace_chars" for w
  proof
    assume "suffix w s"
    then have "set w \<subseteq> set s" by (auto simp: suffix_def)
    then have "list_all graphic w" using assms by (auto simp: list_all_iff)
    with graphic_not_white [OF w] whitespace_nonempty [OF w] show False by (cases w) auto
  qed
  then have "find (\<lambda>w. suffix w s) whitespace_chars = None" by (simp add: find_None_iff)
  with start show ?thesis by (simp add: trim_def trim_end.simps [of s])
qed

lemma trim_end_Nil: "trim_end t = [] \<Longrightarrow> t = [] \<or> (\<exists>w\<in>set whitespace_chars. prefix w t)"
proof (induction t rule: trim_end.induct)
  case (1 t)
  show ?case
  proof (cases "find (\<lambda>c. suffix c t) whitespace_chars")
    case None
    with 1 show ?thesis by (simp add: trim_end.simps [of t])
  next
    case (Some w)
    then have w: "w \<in> set whitespace_chars" "suffix w t" by (auto simp: find_Some_iff)
    then obtain s where t: "t = s @ w" by (auto simp: suffix_def)
    have "trim_end t = trim_end s" using Some t by (subst trim_end.simps) simp
    with Some 1 t have "s = [] \<or> (\<exists>w\<in>set whitespace_chars. prefix w s)" by simp
    then show ?thesis using w t by (metis append_Nil prefix_order.refl prefix_prefix)
  qed
qed

lemma trim_start_clean: "w \<in> set whitespace_chars \<Longrightarrow> \<not> prefix w (trim_start s)"
proof (induction s rule: trim_start.induct)
  case (1 s)
  show ?case
  proof (cases "find (\<lambda>c. prefix c s) whitespace_chars")
    case None
    then have "trim_start s = s" by (subst trim_start.simps) simp
    with None 1 show ?thesis by (auto simp: find_None_iff)
  next
    case (Some c)
    with 1 show ?thesis by (subst trim_start.simps) simp
  qed
qed

lemma blank_no_words: "blank s \<Longrightarrow> split_whitespace s = []"
proof -
  assume "blank s"
  then have "trim_end (trim_start s) = []" by (simp add: blank_def trim_def)
  then have "trim_start s = []" using trim_end_Nil trim_start_clean by blast
  then show ?thesis by (simp add: split_whitespace.simps [of s])
qed

end
