(* ===== verification/Redact.thy ===== *)
theory Redact
  imports Rust_Strings
begin

text \<open>
  Credential stripping (\<open>fraisier-saga/src/redact.rs\<close>): \<open>credentials\<close> is \<open>redact_keywords\<close> (the source's \<open>keywords\<close>) after
  \<open>urls\<close>, each a scanning loop over the text that is left. Proved here: text without a URL mark
  or a \<open>password=\<close> keyword is unchanged, and the output does not depend on the credentials in a
  URL's authority or on the value of a \<open>password=\<close> keyword (two texts that differ only there
  are redacted to the same text).
\<close>

section \<open>URL authorities\<close>

definition authority_end :: "char \<Rightarrow> bool" where
  "authority_end c \<longleftrightarrow> c \<in> set ''/?# '' \<or> c = CHR 0x09 \<or> c = CHR 0x22 \<or> c = CHR 0x27 \<or> c = CHR '',''"

definition url_end_char :: "char \<Rightarrow> bool" where
  "url_end_char c \<longleftrightarrow> c = CHR '' '' \<or> c = CHR 0x09 \<or> c = CHR 0x22 \<or> c = CHR 0x27 \<or> c = CHR '',''"

definition mark_str :: string where
  "mark_str = ''://''"

definition stars :: string where
  "stars = ''***''"

text \<open>\<open>find(..).unwrap_or(len)\<close>.\<close>

definition end_of :: "nat option \<Rightarrow> 'a list \<Rightarrow> nat" where
  "end_of p xs = (case p of Some e \<Rightarrow> e | None \<Rightarrow> length xs)"

text \<open>The byte offset of the \<open>@\<close> that ends the credentials of an authority, if it has any.\<close>

definition credentials_at :: "string \<Rightarrow> nat option" where
  "credentials_at authority =
     (let e = end_of (position authority_end authority) authority in
      case rposition (\<lambda>c. c = CHR ''@'') (take e authority) of
        Some a \<Rightarrow> Some a
      | None \<Rightarrow>
          (let url_end = end_of (position url_end_char authority) authority in
           if CHR '':'' \<in> set (take e authority)
           then rposition (\<lambda>c. c = CHR ''@'') (take url_end authority)
           else None))"

function urls :: "string \<Rightarrow> string" where
  "urls rest =
     (case find_str mark_str rest of
        None \<Rightarrow> rest
      | Some mark \<Rightarrow>
          (let head = take (mark + length mark_str) rest;
               authority = drop (mark + length mark_str) rest
           in case credentials_at authority of
                Some a \<Rightarrow> head @ stars @ urls (drop a authority)
              | None \<Rightarrow>
                  (let e = end_of (position authority_end authority) authority
                   in head @ take e authority @ urls (drop e authority))))"
  by pat_completeness auto
termination
  by (relation "measure length") (auto dest!: find_str_bound simp: mark_str_def)

declare urls.simps [simp del]

section \<open>libpq keyword/value pairs\<close>

definition key_str :: string where
  "key_str = ''password=''"

definition key_here :: "string \<Rightarrow> bool" where
  "key_here s \<longleftrightarrow> map ascii_lower (take (length key_str) s) = key_str"

text \<open>
  The last character of a text, as its UTF-8 bytes: the trailing continuation bytes and the byte
  before them. Which multi-byte characters are alphanumeric is Unicode's table, a parameter.
\<close>

definition last_char :: "string \<Rightarrow> string" where
  "last_char s = rev (take (Suc (length (takeWhile continuation (rev s)))) (rev s))"

definition char_alnum :: "(string \<Rightarrow> bool) \<Rightarrow> string \<Rightarrow> bool" where
  "char_alnum uni bs = (case bs of [c] \<Rightarrow> ascii_alnum c \<or> ((of_char c :: nat) \<ge> 128 \<and> uni bs) | _ \<Rightarrow> uni bs)"

definition boundary :: "(string \<Rightarrow> bool) \<Rightarrow> string \<Rightarrow> bool" where
  "boundary uni before \<longleftrightarrow> before = [] \<or> (\<not> char_alnum uni (last_char before) \<and> last_char before \<noteq> ''_'')"

definition quote :: char where
  "quote = CHR 0x27"

text \<open>Where the value of a keyword ends.\<close>

definition value_end :: "string \<Rightarrow> nat" where
  "value_end v =
     (case v of
        [] \<Rightarrow> end_of (find_suffix whitespace_here v) v
      | c # quoted \<Rightarrow>
          if c = quote
          then (case position (\<lambda>x. x = quote) quoted of Some close \<Rightarrow> close + 2 | None \<Rightarrow> length v)
          else end_of (find_suffix whitespace_here v) v)"

lemma find_key_bound: "find_suffix key_here rest = Some a \<Longrightarrow> a + length key_str \<le> length rest"
proof -
  assume "find_suffix key_here rest = Some a"
  then have "map ascii_lower (take (length key_str) (drop a rest)) = key_str" and "a \<le> length rest"
    using find_suffix_less [of key_here rest a] by (auto simp: key_here_def)
  then have "length (take (length key_str) (drop a rest)) = length key_str"
    by (metis length_map)
  with \<open>a \<le> length rest\<close> show ?thesis by simp
qed

function redact_keywords :: "(string \<Rightarrow> bool) \<Rightarrow> string \<Rightarrow> string" where
  "redact_keywords uni rest =
     (case find_suffix key_here rest of
        None \<Rightarrow> rest
      | Some a \<Rightarrow>
          (let head = take (a + length key_str) rest;
               v = drop (a + length key_str) rest
           in if \<not> boundary uni (take a rest) then head @ redact_keywords uni v
              else if value_end v = 0 then head @ redact_keywords uni v
              else head @ stars @ redact_keywords uni (drop (value_end v) v)))"
  by pat_completeness auto
termination
  by (relation "measure (length o snd)") (auto dest!: find_key_bound simp: key_str_def)

declare redact_keywords.simps [simp del]

definition credentials :: "(string \<Rightarrow> bool) \<Rightarrow> string \<Rightarrow> string" where
  "credentials uni t = redact_keywords uni (urls t)"


section \<open>URL credentials are hidden\<close>

lemma end_of_append:
  assumes "\<forall>c\<in>set xs. \<not> P c" and "\<not> P y"
  shows "end_of (position P (xs @ y # ys)) (xs @ y # ys) = length xs + 1 + end_of (position P ys) ys"
proof -
  from assms(1) have "position P xs = None" by (simp add: position_None)
  with assms(2) show ?thesis
    by (cases "position P ys") (simp_all add: end_of_def position_append)
qed

lemma end_of_inside:
  assumes "\<forall>c\<in>set xs. \<not> P c" and "\<exists>c\<in>set ys. P c"
  shows "\<exists>k < length ys. end_of (position P (xs @ ys @ zs)) (xs @ ys @ zs) = length xs + k"
proof -
  from assms(1) have "position P xs = None" by (simp add: position_None)
  moreover from assms(2) obtain k where "position P ys = Some k"
    by (metis not_None_eq position_None)
  moreover from this have "k < length ys" by (simp add: position_less)
  ultimately show ?thesis by (simp add: end_of_def position_append)
qed

lemma at_sign_plain [simp]: "\<not> authority_end (CHR ''@'')" "\<not> url_end_char (CHR ''@'')"
  "\<not> authority_end (CHR '':'')" "\<not> url_end_char (CHR '':'')"
  by (simp_all add: authority_end_def url_end_char_def)

lemma url_end_authority_end: "url_end_char c \<Longrightarrow> authority_end c"
  by (auto simp: authority_end_def url_end_char_def)

text \<open>The last \<open>@\<close> of a text that has one right after a prefix lies at or behind it.\<close>

lemma rposition_after:
  "\<exists>k \<le> length ys. rposition (\<lambda>c. c = CHR ''@'') (xs @ CHR ''@'' # ys) = Some (length xs + k)"
proof -
  obtain k where k: "rposition (\<lambda>c. c = CHR ''@'') (CHR ''@'' # ys) = Some k"
    by (cases "rposition (\<lambda>c. c = CHR ''@'') ys") auto
  from k have "k < length (CHR ''@'' # ys)" using rposition_less by blast
  with k show ?thesis by (auto simp: rposition_append split: option.splits)
qed

lemma credentials_at_hidden:
  assumes user: "\<forall>c\<in>set user. \<not> authority_end c \<and> c \<noteq> CHR ''@''"
    and pw: "\<forall>c\<in>set pw. \<not> url_end_char c" "CHR ''@'' \<in> set pw \<Longrightarrow> \<forall>c\<in>set pw. \<not> authority_end c"
  shows "\<exists>k \<le> length rest. credentials_at (user @ '':'' @ pw @ ''@'' @ rest)
           = Some (length (user @ '':'' @ pw) + k)"
proof -
  define cred where "cred = user @ '':'' @ pw"
  define authority where "authority = cred @ CHR ''@'' # rest"
  define e where "e = end_of (position authority_end authority) authority"
  have eq: "user @ '':'' @ pw @ ''@'' @ rest = authority"
    by (simp add: authority_def cred_def)
  have "\<exists>k \<le> length rest. credentials_at authority = Some (length cred + k)"
  proof (cases "\<exists>c\<in>set pw. authority_end c")
    case False
    with user have "\<forall>c\<in>set cred. \<not> authority_end c" by (auto simp: cred_def)
    then have "e = length cred + 1 + end_of (position authority_end rest) rest"
      unfolding e_def authority_def by (intro end_of_append) auto
    then obtain ys where "take e authority = cred @ CHR ''@'' # ys" and "length ys \<le> length rest"
      by (auto simp: authority_def)
    with rposition_after [of ys cred] show ?thesis
      by (auto simp: credentials_at_def e_def [symmetric] Let_def)
  next
    case True
    have "\<forall>c\<in>set (user @ '':''). \<not> authority_end c" using user by auto
    from end_of_inside [OF this True, of "CHR ''@'' # rest"]
    obtain k where k: "k < length pw" and e: "e = length (user @ '':'') + k"
      by (auto simp: e_def authority_def cred_def)
    then have "take e authority = user @ '':'' @ take k pw"
      by (simp add: authority_def cred_def)
    moreover have "\<forall>c\<in>set (user @ '':'' @ take k pw). c \<noteq> CHR ''@''"
      using user pw(2) True by (auto dest: in_set_takeD)
    ultimately have none: "rposition (\<lambda>c. c = CHR ''@'') (take e authority) = None"
      and colon: "CHR '':'' \<in> set (take e authority)"
      by (auto simp: rposition_None)
    define u where "u = end_of (position url_end_char authority) authority"
    have "\<forall>c\<in>set cred. \<not> url_end_char c"
      using user pw(1) url_end_authority_end by (auto simp: cred_def)
    then have "u = length cred + 1 + end_of (position url_end_char rest) rest"
      unfolding u_def authority_def by (intro end_of_append) auto
    then obtain ys where "take u authority = cred @ CHR ''@'' # ys" and "length ys \<le> length rest"
      by (auto simp: authority_def)
    with rposition_after [of ys cred] none colon show ?thesis
      by (auto simp: credentials_at_def e_def [symmetric] u_def [symmetric] Let_def)
  qed
  with eq show ?thesis by (simp add: cred_def)
qed

lemma find_mark:
  assumes "CHR '':'' \<notin> set pre"
  shows "find_str mark_str (pre @ mark_str @ authority) = Some (length pre)"
  unfolding find_str_def
proof (rule find_suffix_append)
  fix i assume i: "i < length pre"
  then have "drop i pre = pre ! i # drop (Suc i) pre" by (simp add: Cons_nth_drop_Suc)
  moreover from assms i have "pre ! i \<noteq> CHR '':''" by (metis nth_mem)
  ultimately show "\<not> prefix mark_str (drop i pre @ mark_str @ authority)"
    by (simp add: mark_str_def)
qed simp

lemma urls_hidden:
  assumes "CHR '':'' \<notin> set pre"
    and "\<forall>c\<in>set user. \<not> authority_end c \<and> c \<noteq> CHR ''@''"
    and "\<forall>c\<in>set pw. \<not> url_end_char c" and "CHR ''@'' \<in> set pw \<Longrightarrow> \<forall>c\<in>set pw. \<not> authority_end c"
  shows "\<exists>k \<le> length rest. urls (pre @ mark_str @ user @ '':'' @ pw @ ''@'' @ rest)
           = pre @ mark_str @ stars @ urls (drop k (''@'' @ rest))"
proof -
  obtain k where k: "k \<le> length rest"
    and at: "credentials_at (user @ '':'' @ pw @ ''@'' @ rest) = Some (length (user @ '':'' @ pw) + k)"
    using credentials_at_hidden [OF assms(2,3,4)] by blast
  have "drop (length (user @ '':'' @ pw) + k) ((user @ '':'' @ pw) @ ''@'' @ rest) = drop k (''@'' @ rest)"
    by (simp only: drop_append) simp
  with k at show ?thesis
    by (subst urls.simps) (auto simp: find_mark [OF assms(1)] Let_def)
qed

text \<open>A character that ends a URL separates what is redacted: the text after it is redacted on its own.\<close>

lemma end_of_separator:
  assumes "P sep"
  shows "end_of (position P (xs @ sep # ys)) (xs @ sep # ys) = end_of (position P xs) xs" and "end_of (position P xs) xs \<le> length xs"
  using assms position_less [of P xs] by (auto simp: end_of_def position_append split: option.splits)

lemma find_suffix_separator:
  assumes "\<And>xs. P (xs @ sep # ys) \<longleftrightarrow> P xs"
  shows "find_suffix P (xs @ sep # ys) = (case find_suffix P xs of Some i \<Rightarrow> Some i | None \<Rightarrow> map_option (\<lambda>i. length xs + 1 + i) (find_suffix P ys))"
proof (induction xs)
  case Nil
  then show ?case using assms [of "[]"] by (cases "find_suffix P ys") simp_all
next
  case (Cons x xs)
  then show ?case using assms [of "x # xs"] by (cases "find_suffix P ys"; cases "find_suffix P xs") simp_all
qed

lemma credentials_at_separator:
  assumes "url_end_char sep"
  shows "credentials_at (xs @ sep # ys) = credentials_at xs" and "credentials_at xs = Some a \<Longrightarrow> a < length xs"
proof -
  note ends = end_of_separator(1) [of authority_end sep xs ys, OF url_end_authority_end [OF assms]] end_of_separator(1) [of url_end_char sep xs ys, OF assms]
  moreover have "take (end_of (position P xs) xs) (xs @ sep # ys) = take (end_of (position P xs) xs) xs" for P
    using position_less [of P xs] by (auto simp: end_of_def split: option.split)
  ultimately show "credentials_at (xs @ sep # ys) = credentials_at xs" by (simp add: credentials_at_def Let_def split: option.split)
  show "a < length xs" if "credentials_at xs = Some a"
    using that by (auto simp: credentials_at_def Let_def split: option.splits if_splits dest!: rposition_less)
qed

lemma find_mark_separator:
  assumes "url_end_char sep"
  shows "find_str mark_str (xs @ sep # ys) =
    (case find_str mark_str xs of Some i \<Rightarrow> Some i | None \<Rightarrow> map_option (\<lambda>i. length xs + 1 + i) (find_str mark_str ys))"
proof -
  have sep: "sep \<noteq> CHR '':''" "sep \<noteq> CHR ''/''" using assms by (auto simp: url_end_char_def)
  have "prefix mark_str (xs @ sep # ys) \<longleftrightarrow> prefix mark_str xs" for xs
    using sep by (cases xs rule: remdups_adj.cases; cases "tl (tl xs)") (auto simp: mark_str_def)
  then show ?thesis unfolding find_str_def by (rule find_suffix_separator)
qed

lemma urls_step:
  assumes "find_str mark_str t = Some i"
  defines "authority \<equiv> drop (i + length mark_str) t"
  defines "e \<equiv> end_of (position authority_end authority) authority"
  shows "urls t = take (i + length mark_str) t @ (case credentials_at authority of
    Some a \<Rightarrow> stars @ urls (drop a authority) | None \<Rightarrow> take e authority @ urls (drop e authority))"
  using assms(1) unfolding authority_def e_def by (subst urls.simps) (simp add: Let_def split: option.split)

lemma urls_separator:
  assumes "url_end_char sep"
  shows "urls (xs @ sep # ys) = urls xs @ sep # urls ys"
proof (induction xs rule: urls.induct)
  case (1 xs)
  note found = find_mark_separator [OF assms, of xs ys]
  show ?case
  proof (cases "find_str mark_str xs")
    case None
    then have xs: "urls xs = xs" by (subst urls.simps) simp
    show ?thesis
    proof (cases "find_str mark_str ys")
      case None
      with \<open>find_str mark_str xs = None\<close> found have "find_str mark_str (xs @ sep # ys) = None" by simp
      then have "urls (xs @ sep # ys) = xs @ sep # ys" by (subst urls.simps) simp
      moreover have "urls ys = ys" using None by (subst urls.simps) simp
      ultimately show ?thesis using xs by simp
    next
      case (Some j)
      with \<open>find_str mark_str xs = None\<close> found have "find_str mark_str (xs @ sep # ys) = Some (Suc (length xs + j))" by simp
      moreover have "drop (Suc (length xs + j) + length mark_str) (xs @ sep # ys) = drop (j + length mark_str) ys"
        "take (Suc (length xs + j) + length mark_str) (xs @ sep # ys) = xs @ sep # take (j + length mark_str) ys" by simp_all
      ultimately show ?thesis using urls_step [OF Some] xs by (simp only: urls_step append_assoc append_Cons)
    qed
  next
    case (Some i)
    let ?a = "drop (i + length mark_str) xs"
    have i: "i + length mark_str \<le> length xs" using Some by (rule find_str_bound)
    have cut: "drop (i + length mark_str) (xs @ sep # ys) = ?a @ sep # ys" "take (i + length mark_str) (xs @ sep # ys) = take (i + length mark_str) xs"
      using i by simp_all
    from Some found have "find_str mark_str (xs @ sep # ys) = Some i" by simp
    note both = urls_step [OF this, unfolded cut credentials_at_separator(1) [OF assms] end_of_separator(1) [of authority_end, OF url_end_authority_end [OF assms]]]
      urls_step [OF Some]
    show ?thesis
    proof (cases "credentials_at ?a")
      case (Some a)
      have "drop a (?a @ sep # ys) = drop a ?a @ sep # ys" using credentials_at_separator(2) [OF assms Some] by simp
      with 1(2) [OF \<open>find_str mark_str xs = Some i\<close> refl refl Some] both Some show ?thesis by simp
    next
      case None
      let ?e = "end_of (position authority_end ?a) ?a"
      have "?e \<le> length ?a" by (rule end_of_separator(2) [where P = authority_end and sep = sep, OF url_end_authority_end [OF assms]])
      then have cut_e: "drop ?e (?a @ sep # ys) = drop ?e ?a @ sep # ys" "take ?e (?a @ sep # ys) = take ?e ?a" by simp_all
      note ih = 1(1) [OF \<open>find_str mark_str xs = Some i\<close> refl refl None refl]
      show ?thesis by (simp only: both None option.case cut_e ih append_assoc append_Cons)
    qed
  qed
qed

section \<open>Keyword values are hidden\<close>

text \<open>The keyword has no border: no proper suffix of it starts it again.\<close>

lemma key_no_border: "0 < m \<Longrightarrow> m < length key_str \<Longrightarrow> key_str ! m \<noteq> CHR ''p''"
  by (auto simp: key_str_def less_Suc_eq numeral_eq_Suc)

lemma find_key:
  assumes none: "find_suffix key_here pre = None" and key: "map ascii_lower key = key_str"
  shows "find_suffix key_here (pre @ key @ rest) = Some (length pre)"
proof (rule find_suffix_append)
  from key have len: "length key = length key_str" by (metis length_map)
  then show "key_here (key @ rest)" using key by (simp add: key_here_def)
  fix i assume i: "i < length pre"
  show "\<not> key_here (drop i pre @ key @ rest)"
  proof (cases "i + length key_str \<le> length pre")
    case True
    have "\<not> key_here (drop i pre)"
      using none by (induction pre arbitrary: i) (auto split: if_splits simp: drop_Cons split: nat.splits)
    with True i show ?thesis by (auto simp: key_here_def)
  next
    case False
    define m where "m = length pre - i"
    have m: "0 < m" "m < length key_str" using i False by (auto simp: m_def)
    have "(drop i pre @ key @ rest) ! m = key ! 0" using m len by (auto simp: nth_append m_def)
    moreover have "ascii_lower (key ! 0) = CHR ''p''"
      using key len by (metis key_str_def length_greater_0_conv list.distinct(1) nth_Cons_0 nth_map)
    moreover have "m < length (take (length key_str) (drop i pre @ key @ rest))"
      using m i len by (simp add: m_def)
    ultimately have "map ascii_lower (take (length key_str) (drop i pre @ key @ rest)) ! m = CHR ''p''"
      using m by (simp only: nth_map nth_take)
    with key_no_border [OF m] show ?thesis by (auto simp: key_here_def)
  qed
qed

lemma keyword_step:
  assumes "find_suffix key_here pre = None" and "boundary uni pre" and "map ascii_lower key = key_str"
    and "value_end (v @ rest) = length v" and "v \<noteq> []"
  shows "redact_keywords uni (pre @ key @ v @ rest) = pre @ key @ stars @ redact_keywords uni rest"
proof -
  from assms(3) have len: "length key = length key_str" by (metis length_map)
  have "find_suffix key_here (pre @ key @ v @ rest) = Some (length pre)"
    by (rule find_key [OF assms(1,3)])
  with assms len show ?thesis
    by (subst redact_keywords.simps) (simp add: Let_def)
qed

lemma whitespace_shape:
  "\<forall>w\<in>set whitespace_chars. (length w = 1 \<and> (\<forall>c\<in>set w. (of_char c :: nat) < 33))
      \<or> (length w \<noteq> 1 \<and> (\<forall>c\<in>set w. (of_char c :: nat) \<ge> 128))"
  by (simp add: whitespace_chars_def utf8_bytes_def upt_rec)

lemma whitespace_not_straddling:
  assumes "xs \<noteq> []" and "[c] \<in> set whitespace_chars" and "whitespace_here (xs @ c # ys)"
  shows "whitespace_here xs"
proof -
  from assms(3) obtain w where w: "w \<in> set whitespace_chars" and pre: "prefix w (xs @ c # ys)"
    by (auto simp: whitespace_here_def)
  have c: "(of_char c :: nat) < 33" using whitespace_shape assms(2) by fastforce
  have "prefix w xs"
  proof (cases "length w = 1")
    case True
    with assms(1) pre show ?thesis by (cases w; cases xs) auto
  next
    case False
    with whitespace_shape w have "\<forall>d\<in>set w. (of_char d :: nat) \<ge> 128" by blast
    with c have "c \<notin> set w" by force
    with pre show ?thesis by (auto simp: prefix_append prefix_Cons)
  qed
  with w show ?thesis by (auto simp: whitespace_here_def)
qed

text \<open>A text of printable ASCII characters holds no white space.\<close>

lemma printable_no_whitespace:
  assumes "\<forall>c\<in>set v. 33 \<le> (of_char c :: nat) \<and> (of_char c :: nat) < 128"
  shows "find_suffix whitespace_here v = None"
proof -
  have "\<not> prefix w (drop i v)" if "w \<in> set whitespace_chars" for w i
  proof
    assume "prefix w (drop i v)"
    then have "set w \<subseteq> set v" by (meson set_drop_subset set_mono_prefix subset_trans)
    with assms whitespace_shape that have "w = []" by (cases w) force+
    with that show False by (simp add: whitespace_chars_def utf8_bytes_def upt_rec)
  qed
  then show ?thesis by (auto simp: find_suffix_None whitespace_here_def)
qed

lemma space_whitespace: "'' '' \<in> set whitespace_chars"
proof -
  have "utf8_bytes [32] = '' ''" by code_simp
  then show ?thesis by (auto simp: whitespace_chars_def)
qed

lemma value_end_unquoted:
  assumes "v \<noteq> []" and "hd v \<noteq> quote" and "find_suffix whitespace_here v = None"
    and "rest = [] \<or> [hd rest] \<in> set whitespace_chars"
  shows "value_end (v @ rest) = length v"
proof (cases rest)
  case Nil
  with assms show ?thesis by (cases v) (simp_all add: value_end_def end_of_def)
next
  case (Cons c ys)
  have "find_suffix whitespace_here (v @ rest) = Some (length v)"
  proof (rule find_suffix_append)
    fix i assume "i < length v"
    with assms(3,4) Cons show "\<not> whitespace_here (drop i v @ rest)"
      using whitespace_not_straddling [of "drop i v" c ys] by (auto simp: find_suffix_None)
  next
    from assms(4) Cons show "whitespace_here rest"
      by (auto simp: whitespace_here_def intro: bexI [of _ "[c]"])
  qed
  with assms(1,2) show ?thesis by (cases v) (simp_all add: value_end_def end_of_def)
qed

lemma value_end_quoted:
  "quote \<notin> set q \<Longrightarrow> value_end ((quote # q @ [quote]) @ rest) = length (quote # q @ [quote])"
proof -
  assume "quote \<notin> set q"
  then have "position (\<lambda>x. x = quote) q = None" by (auto simp: position_None)
  then show ?thesis by (simp add: value_end_def position_append)
qed

section \<open>Properties\<close>

text \<open>
  A text that contains neither a URL mark nor a \<open>password=\<close> keyword (in any case) is returned
  byte for byte.
\<close>

lemma urls_untouched: "find_str mark_str t = None \<Longrightarrow> urls t = t"
  by (subst urls.simps) simp

lemma keywords_untouched: "find_suffix key_here t = None \<Longrightarrow> redact_keywords uni t = t"
  by (subst redact_keywords.simps) simp

text \<open>
  C28: In a URL \<open>user:password@\<close> anywhere in a text the credential part is replaced by \<open>***\<close>, also when the
  password holds an unencoded \<open>/\<close>, \<open>?\<close> or \<open>#\<close>: the text before the URL, in which other URLs may stand, is redacted on its own, and
  the scheme, the mark, three stars and the redaction of a tail of \<open>@rest\<close> follow, so nothing between the mark and the \<open>@\<close> is copied. The conditions: the URL
  starts the text or what comes before its scheme ends in a character that ends a URL (a blank, a tab, a quote or a comma); no colon stands between there and
  the mark; the user has no \<open>@\<close> and nothing that ends an authority; and the password has no character that ends a URL, and not both an
  \<open>@\<close> and one of \<open>/\<close>, \<open>?\<close> and \<open>#\<close>.
\<close>

theorem credentials_hide_url_password:
  assumes "pre = [] \<or> url_end_char (last pre)" and "CHR '':'' \<notin> set scheme"
    and "\<forall>c\<in>set user. \<not> authority_end c \<and> c \<noteq> CHR ''@''"
    and "\<forall>c\<in>set pw. \<not> url_end_char c" and "CHR ''@'' \<in> set pw \<longrightarrow> (\<forall>c\<in>set pw. \<not> authority_end c)"
  shows "\<exists>k \<le> length rest. credentials uni (pre @ scheme @ ''://'' @ user @ '':'' @ pw @ ''@'' @ rest)
           = redact_keywords uni (urls pre @ scheme @ ''://'' @ ''***'' @ urls (drop k (''@'' @ rest)))"
proof -
  let ?url = "scheme @ mark_str @ user @ '':'' @ pw @ ''@'' @ rest"
  obtain k where k: "k \<le> length rest" and url: "urls ?url = scheme @ mark_str @ stars @ urls (drop k (''@'' @ rest))"
    using urls_hidden [OF assms(2,3,4)] assms(5) by blast
  have nil: "urls [] = []" by (simp add: urls_untouched find_str_def mark_str_def)
  have "urls (pre @ ?url) = urls pre @ urls ?url"
  proof (cases pre rule: rev_cases)
    case (snoc xs sep)
    with assms(1) have "url_end_char sep" by simp
    from urls_separator [OF this, of xs ?url] urls_separator [OF this, of xs "[]"] snoc nil show ?thesis by simp
  qed (simp add: nil)
  with k url show ?thesis by (auto simp: credentials_def mark_str_def stars_def)
qed

theorem credentials_hide_url_password_witness:
  "\<exists>k \<le> length ''db/x''. credentials (\<lambda>_. False) (''error: http://h:1/ refused '' @ ''pg'' @ ''://'' @ ''u'' @ '':'' @ ''p/w'' @ ''@'' @ ''db/x'')
     = redact_keywords (\<lambda>_. False) (urls ''error: http://h:1/ refused '' @ ''pg'' @ ''://'' @ ''***'' @ urls (drop k (''@'' @ ''db/x'')))"
  by (rule credentials_hide_url_password) (simp_all add: authority_end_def url_end_char_def)

text \<open>
  The last condition is needed: a password with an \<open>@\<close> before an unencoded slash is cut at that \<open>@\<close>, and what follows it stays
  in the redacted text.
\<close>

theorem at_before_slash_leaks:
  "credentials uni ''pg://u:p@ss/word@db/x'' = ''pg://***@ss/word@db/x''"
proof -
  have "urls ''pg://u:p@ss/word@db/x'' = ''pg://***@ss/word@db/x''" by code_simp
  then show ?thesis
    unfolding credentials_def by (simp add: keywords_untouched key_here_def key_str_def ascii_lower_def)
qed

text \<open>
  The value of a \<open>password=\<close> keyword, spelled in any case, that starts at a word boundary is
  replaced by \<open>***\<close>, whether it is unquoted and ends at white space or single-quoted (and then
  may contain white space): the rest of the text is redacted on its own.
\<close>

theorem keywords_hide_password:
  assumes "find_suffix key_here pre = None" and "boundary uni pre"
    and "map ascii_lower key = ''password=''"
    and "(v \<noteq> [] \<and> hd v \<noteq> quote \<and> find_suffix whitespace_here v = None
            \<and> (rest = [] \<or> [hd rest] \<in> set whitespace_chars))
         \<or> (\<exists>q. v = quote # q @ [quote] \<and> quote \<notin> set q)"
  shows "redact_keywords uni (pre @ key @ v @ rest) = pre @ key @ ''***'' @ redact_keywords uni rest"
proof -
  have "value_end (v @ rest) = length v" and "v \<noteq> []"
    using assms(4) value_end_unquoted value_end_quoted by auto
  from keyword_step [OF assms(1,2) _ this] assms(3) show ?thesis
    by (simp add: key_str_def stars_def)
qed

theorem keywords_hide_password_witness:
  "redact_keywords (\<lambda>_. False) (''host=db '' @ ''PassWord='' @ ''s3cret'' @ '' port=1'')
     = ''host=db '' @ ''PassWord='' @ ''***'' @ redact_keywords (\<lambda>_. False) '' port=1''"
proof (rule keywords_hide_password)
  show "find_suffix key_here ''host=db '' = None" by (simp add: key_here_def key_str_def ascii_lower_def)
  show "boundary (\<lambda>_. False) ''host=db ''" by code_simp
  show "map ascii_lower ''PassWord='' = ''password=''" by code_simp
  show "(''s3cret'' \<noteq> [] \<and> hd ''s3cret'' \<noteq> quote \<and> find_suffix whitespace_here ''s3cret'' = None
            \<and> ('' port=1'' = [] \<or> [hd '' port=1''] \<in> set whitespace_chars))
         \<or> (\<exists>q. ''s3cret'' = quote # q @ [quote] \<and> quote \<notin> set q)"
    using space_whitespace printable_no_whitespace [of "''s3cret''"] by (simp add: quote_def)
qed

text \<open>
  Libpq escapes a quote inside a quoted value with a backslash, but the scan stops at the first
  quote: the tail of such a password is left in the redacted text.
\<close>

theorem escaped_quote_leaks:
  "credentials uni (''password='' @ [quote] @ ''a'' @ [CHR 0x5C] @ [quote] @ ''bc'' @ [quote])
     = ''password=***bc'' @ [quote]"
proof -
  let ?t = "''password='' @ [quote] @ ''a'' @ [CHR 0x5C] @ [quote] @ ''bc'' @ [quote]"
  have "urls ?t = ?t"
    by (rule urls_untouched) (simp add: find_str_def mark_str_def quote_def)
  moreover have "redact_keywords uni ([] @ ''password='' @ (quote # (''a'' @ [CHR 0x5C]) @ [quote]) @ (''bc'' @ [quote]))
      = [] @ ''password='' @ stars @ redact_keywords uni (''bc'' @ [quote])"
    by (rule keyword_step)
      (simp_all add: key_here_def key_str_def boundary_def ascii_lower_def value_end_quoted
        value_end_def quote_def)
  moreover have "redact_keywords uni (''bc'' @ [quote]) = ''bc'' @ [quote]"
    by (rule keywords_untouched) (simp add: key_here_def key_str_def)
  ultimately show ?thesis by (simp add: credentials_def stars_def)
qed

end
