(* ===== verification/Saga.thy ===== *)
theory Saga
  imports State_Store Redact
begin

text \<open>
  The saga driver (\<open>fraisier-saga/src/saga.rs\<close>): it takes the per-key lock, runs the steps forward,
  records every transition, and compensates the completed steps in reverse when one fails. The
  definitions follow the source function by function; \<open>saga_spec\<close> is the reference semantics
  without a store. Inside \<open>state_store_contract\<close> a run that returns an outcome is shown to
  implement \<open>saga_spec\<close> and to log exactly its states, a run that returns an error to leave a log
  that is still a lifecycle path, and inside \<open>reliable_store\<close> every run is shown to return an
  outcome.
\<close>

section \<open>Data\<close>

datatype saga_error = StepFailed string string | Store store_error

fun show_saga_error :: "saga_error \<Rightarrow> string" where
  "show_saga_error (StepFailed step message) = ''step '' @ [quote] @ step @ [quote] @ '' failed: '' @ message"
| "show_saga_error (Store e) = show_store_error e"

record step_context =
  sc_key :: fraise_key

text \<open>
  A compensable step. Its actions read and write \<open>'x\<close>: the run state \<open>R\<close> of the source together
  with the world its adapters act on.
\<close>

record 'x saga_step =
  step_name :: string
  forward :: "step_context \<Rightarrow> ('x, saga_error, unit) eff"
  compensate :: "step_context \<Rightarrow> ('x, saga_error, unit) eff"

datatype saga_outcome =
    OutcomeCommitted
  | OutcomeRolledBack string string
  | OutcomePartialRollback string

record ('s, 'j, 'x) saga =
  sg_store :: "('s, 'j) state_store"
  sg_key :: fraise_key
  sg_steps :: "'x saga_step list"

definition saga_new :: "('s, 'j) state_store \<Rightarrow> string \<Rightarrow> string \<Rightarrow> ('s, 'j, 'x) saga" where
  "saga_new store f e = \<lparr>sg_store = store, sg_key = key_new f e, sg_steps = []\<rparr>"

definition with_step :: "'x saga_step \<Rightarrow> ('s, 'j, 'x) saga \<Rightarrow> ('s, 'j, 'x) saga" where
  "with_step step sg = sg\<lparr>sg_steps := sg_steps sg @ [step]\<rparr>"

definition with_steps :: "'x saga_step list \<Rightarrow> ('s, 'j, 'x) saga \<Rightarrow> ('s, 'j, 'x) saga" where
  "with_steps steps sg = sg\<lparr>sg_steps := sg_steps sg @ steps\<rparr>"

text \<open>
  What the run reads from its platform: the clock (stamped into each recorded state) and Unicode's
  alphanumeric characters (used by the redaction).
\<close>

record 's platform =
  now :: "'s \<Rightarrow> nat"
  uni_alnum :: "string \<Rightarrow> bool"

section \<open>The driver\<close>

text \<open>Lifting a store call and a step call to the pair of both states.\<close>

definition on_store :: "('s, store_error, 'a) eff \<Rightarrow> ('s \<times> 'x, saga_error, 'a) eff" where
  "on_store m = (\<lambda>(s, x). case m s of (Inl e, s') \<Rightarrow> (Inl (Store e), s', x) | (Inr a, s') \<Rightarrow> (Inr a, s', x))"

definition on_world :: "('x, 'e, 'a) eff \<Rightarrow> ('s \<times> 'x, 'e, 'a) eff" where
  "on_world m = (\<lambda>(s, x). case m x of (r, x') \<Rightarrow> (r, s, x'))"

text \<open>A step's state is the run state \<open>R\<close> and the world: reading and updating the first.\<close>

definition get_run :: "('r \<times> 'w, 'e, 'r) eff" where
  "get_run = (\<lambda>(r, w). (Inr r, r, w))"

definition modify_run :: "('r \<Rightarrow> 'r) \<Rightarrow> ('r \<times> 'w, 'e, unit) eff" where
  "modify_run f = (\<lambda>(r, w). (Inr (), f r, w))"

definition transition ::
  "'s platform \<Rightarrow> ('s, 'j, 'x) saga \<Rightarrow> saga_state \<Rightarrow> saga_state \<Rightarrow> ('s \<times> 'x, saga_error, unit) eff" where
  "transition pf sg prev to =
     and_then (on_store (record_event (sg_store sg) (sg_key sg) (StateTransition prev to)))
       (\<lambda>_. on_store (\<lambda>s. record_state (sg_store sg) (sg_key sg) (deployment_state_new to None (now pf s)) s))"

definition partial_reason :: "'s platform \<Rightarrow> string \<Rightarrow> saga_error \<Rightarrow> string" where
  "partial_reason pf name comp_err =
     credentials (uni_alnum pf)
       (''compensation for '' @ [quote] @ name @ [quote] @ '' failed: '' @ show_saga_error comp_err)"

fun rollback_loop ::
  "'s platform \<Rightarrow> ('s, 'j, 'x) saga \<Rightarrow> step_context \<Rightarrow> string \<Rightarrow> saga_error \<Rightarrow> saga_state \<Rightarrow>
     'x saga_step list \<Rightarrow> ('s \<times> 'x, saga_error, saga_outcome) eff" where
  "rollback_loop pf sg ctx failed_step error prev [] =
     and_then (transition pf sg prev RolledBack)
       (\<lambda>_. ok (OutcomeRolledBack failed_step (show_saga_error error)))"
| "rollback_loop pf sg ctx failed_step error prev (step # rest) =
     (let to = Compensating (step_name step) in
      and_then (transition pf sg prev to)
        (\<lambda>_. and_then (result_of (on_world (compensate step ctx)))
          (\<lambda>r. case r of
             Inl comp_err \<Rightarrow>
               (let reason = partial_reason pf (step_name step) comp_err in
                and_then (transition pf sg to (PartialRollback reason))
                  (\<lambda>_. ok (OutcomePartialRollback reason)))
           | Inr _ \<Rightarrow> rollback_loop pf sg ctx failed_step error to rest)))"

definition rollback ::
  "'s platform \<Rightarrow> ('s, 'j, 'x) saga \<Rightarrow> step_context \<Rightarrow> 'x saga_step list \<Rightarrow> string \<Rightarrow> saga_error \<Rightarrow>
     ('s \<times> 'x, saga_error, saga_outcome) eff" where
  "rollback pf sg ctx completed failed_step error =
     rollback_loop pf sg ctx failed_step error (Running failed_step) (rev completed)"

fun execute_loop ::
  "'s platform \<Rightarrow> ('s, 'j, 'x) saga \<Rightarrow> step_context \<Rightarrow> saga_state \<Rightarrow> 'x saga_step list \<Rightarrow>
     'x saga_step list \<Rightarrow> ('s \<times> 'x, saga_error, saga_outcome) eff" where
  "execute_loop pf sg ctx prev completed [] =
     and_then (transition pf sg prev Committed) (\<lambda>_. ok OutcomeCommitted)"
| "execute_loop pf sg ctx prev completed (step # rest) =
     (let to = Running (step_name step) in
      and_then (transition pf sg prev to)
        (\<lambda>_. and_then (result_of (on_world (forward step ctx)))
          (\<lambda>r. case r of
             Inl error \<Rightarrow> rollback pf sg ctx completed (step_name step) error
           | Inr _ \<Rightarrow> execute_loop pf sg ctx to (completed @ [step]) rest)))"

definition execute :: "'s platform \<Rightarrow> ('s, 'j, 'x) saga \<Rightarrow> ('s \<times> 'x, saga_error, saga_outcome) eff" where
  "execute pf sg = execute_loop pf sg \<lparr>sc_key = sg_key sg\<rparr> Idle [] (sg_steps sg)"

definition run_inner :: "'s platform \<Rightarrow> ('s, 'j, 'x) saga \<Rightarrow> ('s \<times> 'x, saga_error, saga_outcome) eff" where
  "run_inner pf sg =
     and_then (on_store (acquire_lock (sg_store sg) (sg_key sg)))
       (\<lambda>guard. and_then (result_of (execute pf sg))
         (\<lambda>outcome. and_then (result_of (on_store (release_lock (sg_store sg) guard)))
           (\<lambda>released. from_result
             (case released of
                Inr _ \<Rightarrow> outcome
              | Inl release_err \<Rightarrow> if is_ok outcome then Inl release_err else outcome))))"

text \<open>\<open>run_with_state\<close> opens the root tracing span around \<open>run_inner\<close> and nothing else.\<close>

definition run_with_state :: "'s platform \<Rightarrow> ('s, 'j, 'x) saga \<Rightarrow> ('s \<times> 'x, saga_error, saga_outcome) eff" where
  "run_with_state pf sg = run_inner pf sg"

section \<open>Reference semantics\<close>

text \<open>
  The forward pass alone: the steps that completed, the failure that stopped it, the state left
  behind. The backward pass alone: the names of the steps it tried to compensate, the failure
  that stopped it, the state left behind.
\<close>

fun run_forward ::
  "step_context \<Rightarrow> 'x saga_step list \<Rightarrow> 'x \<Rightarrow> 'x saga_step list \<times> (string \<times> saga_error) option \<times> 'x" where
  "run_forward ctx [] x = ([], None, x)"
| "run_forward ctx (step # rest) x =
     (case forward step ctx x of
        (Inl e, x') \<Rightarrow> ([], Some (step_name step, e), x')
      | (Inr _, x') \<Rightarrow> (case run_forward ctx rest x' of (done, f, x'') \<Rightarrow> (step # done, f, x'')))"

fun run_back ::
  "step_context \<Rightarrow> 'x saga_step list \<Rightarrow> 'x \<Rightarrow> string list \<times> (string \<times> saga_error) option \<times> 'x" where
  "run_back ctx [] x = ([], None, x)"
| "run_back ctx (step # rest) x =
     (case compensate step ctx x of
        (Inl e, x') \<Rightarrow> ([step_name step], Some (step_name step, e), x')
      | (Inr _, x') \<Rightarrow> (case run_back ctx rest x' of (tried, f, x'') \<Rightarrow> (step_name step # tried, f, x'')))"

text \<open>How the backward pass ends: the outcome, the states visited and the state left behind.\<close>

definition back_spec ::
  "'s platform \<Rightarrow> step_context \<Rightarrow> string \<Rightarrow> saga_error \<Rightarrow> 'x saga_step list \<Rightarrow> 'x \<Rightarrow>
     saga_outcome \<times> saga_state list \<times> 'x" where
  "back_spec pf ctx n e cs x =
     (case run_back ctx cs x of
        (tried, None, x') \<Rightarrow> (OutcomeRolledBack n (show_saga_error e), map Compensating tried @ [RolledBack], x')
      | (tried, Some (m, ce), x') \<Rightarrow>
          (OutcomePartialRollback (partial_reason pf m ce),
           map Compensating tried @ [PartialRollback (partial_reason pf m ce)], x'))"

definition saga_spec ::
  "'s platform \<Rightarrow> step_context \<Rightarrow> 'x saga_step list \<Rightarrow> 'x saga_step list \<Rightarrow> 'x \<Rightarrow>
     saga_outcome \<times> saga_state list \<times> 'x" where
  "saga_spec pf ctx completed steps x =
     (case run_forward ctx steps x of
        (done, None, x') \<Rightarrow> (OutcomeCommitted, map (Running \<circ> step_name) done @ [Committed], x')
      | (done, Some (n, e), x') \<Rightarrow>
          (case back_spec pf ctx n e (rev (completed @ done)) x' of
             (out, ts, x'') \<Rightarrow> (out, map (Running \<circ> step_name) done @ Running n # ts, x'')))"

text \<open>The events of a walk through a list of states, and what a walk adds to a store's view.\<close>

fun chain :: "saga_state \<Rightarrow> saga_state list \<Rightarrow> saga_event list" where
  "chain s [] = []"
| "chain s (t # ts) = StateTransition s t # chain t ts"

definition advanced ::
  "'k \<Rightarrow> saga_event list \<Rightarrow> saga_state list \<Rightarrow> ('k, 'j) store_view \<Rightarrow> ('k, 'j) store_view \<Rightarrow> bool" where
  "advanced a evs ts v v' \<longleftrightarrow> (\<exists>ds. map ds_state ds = ts \<and>
     v' = v\<lparr>sv_events := (sv_events v)(a := sv_events v a @ evs),
           sv_states := (sv_states v)(a := sv_states v a @ ds)\<rparr>)"

lemma advanced_refl [simp]: "advanced a [] [] v v"
  by (simp add: advanced_def)

lemma advanced_trans:
  assumes "advanced a es ts v v'" and "advanced a es' ts' v' v''"
  shows "advanced a (es @ es') (ts @ ts') v v''"
proof -
  obtain ds where "map ds_state ds = ts" and v': "v' = v\<lparr>sv_events := (sv_events v)(a := sv_events v a @ es),
      sv_states := (sv_states v)(a := sv_states v a @ ds)\<rparr>"
    using assms(1) by (auto simp: advanced_def)
  moreover obtain ds' where "map ds_state ds' = ts'" and v'': "v'' = v'\<lparr>sv_events := (sv_events v')(a := sv_events v' a @ es'),
      sv_states := (sv_states v')(a := sv_states v' a @ ds')\<rparr>"
    using assms(2) by (auto simp: advanced_def)
  ultimately have "map ds_state (ds @ ds') = ts @ ts'"
    and "v'' = v\<lparr>sv_events := (sv_events v)(a := sv_events v a @ es @ es'),
      sv_states := (sv_states v)(a := sv_states v a @ ds @ ds')\<rparr>"
    by (simp_all add: fun_eq_iff)
  then show ?thesis unfolding advanced_def by blast
qed

lemma advanced_event: "advanced a [e] [] v (add_event a e v)"
  by (auto simp: advanced_def add_event_def)

lemma advanced_state: "advanced a [] [ds_state d] v (add_state a d v)"
  unfolding advanced_def by (rule exI [of _ "[d]"]) (simp add: add_state_def)

lemma advanced_step: "advanced a [e] [ds_state d] v (add_state a d (add_event a e v))"
  using advanced_trans [OF advanced_event advanced_state] by fastforce

lemma advanced_frame:
  assumes "advanced a es ts v v'"
  shows "sv_locked v' = sv_locked v" "sv_snapshot v' = sv_snapshot v"
    "b \<noteq> a \<Longrightarrow> sv_events v' b = sv_events v b" "sv_events v' a = sv_events v a @ es"
    "map ds_state (sv_states v' a) = map ds_state (sv_states v a) @ ts"
  using assms by (auto simp: advanced_def)

section \<open>The driver over any store that keeps the contract\<close>

lemma on_store_eq_Inr [simp]:
  "on_store m (s, x) = (Inr a, s', x') \<longleftrightarrow> m s = (Inr a, s') \<and> x' = x"
  by (auto simp: on_store_def split: prod.splits sum.splits)

lemma on_store_eq_Inl:
  "on_store m (s, x) = (Inl e, s', x') \<longleftrightarrow> (\<exists>se. m s = (Inl se, s') \<and> e = Store se) \<and> x' = x"
  by (auto simp: on_store_def split: prod.splits sum.splits)

lemma on_world_eq [simp]: "on_world m (s, x) = (r, s', x') \<longleftrightarrow> m x = (r, x') \<and> s' = s"
  by (auto simp: on_world_def split: prod.splits)

lemma result_of_eq: "result_of m w = (r, w') \<longleftrightarrow> (\<exists>q. r = Inr q \<and> m w = (q, w'))"
  by (auto simp: result_of_run)

text \<open>The driver's composition, run: the lock call, the execution, the release, in this order.\<close>

lemma run_with_state_run:
  "run_with_state pf sg (s, x) =
     (case acquire_lock (sg_store sg) (sg_key sg) s of
        (Inl e, s1) \<Rightarrow> (Inl (Store e), s1, x)
      | (Inr g, s1) \<Rightarrow>
          (case execute pf sg (s1, x) of (outc, s2, x2) \<Rightarrow>
             (case release_lock (sg_store sg) g s2 of (q, s3) \<Rightarrow>
                ((case q of Inr _ \<Rightarrow> outc | Inl e \<Rightarrow> if is_ok outc then Inl (Store e) else outc), s3, x2))))"
  by (auto simp: run_with_state_def run_inner_def and_then_def on_store_def result_of_def
      split: prod.splits sum.splits)

text \<open>A path through the lifecycle ends where its chain of states ends.\<close>

lemma path_chain: "path_from s (chain s (ts @ [t])) u \<Longrightarrow> u = t"
  by (induction ts arbitrary: s) auto

context state_store_contract
begin

lemma transition_ok:
  assumes "sg_store sg = st" and "valid s" and "transition pf sg f t (s, x) = (Inr u, s', x')"
  shows "x' = x" "valid s'" "advanced (slot (sg_key sg)) [StateTransition f t] [t] (view s) (view s')"
proof -
  from assms(1,3) obtain s1 where ev: "record_event st (sg_key sg) (StateTransition f t) s = (Inr (), s1)"
    and rs: "record_state st (sg_key sg) (deployment_state_new t None (now pf s1)) s1 = (Inr (), s')"
    and x: "x' = x"
    by (auto simp: transition_def and_then_eq_Inr)
  have v1: "valid s1" "view s1 = add_event (slot (sg_key sg)) (StateTransition f t) (view s)"
    using record_event_ok [OF assms(2) ev] by auto
  have v2: "valid s'" "view s' = add_state (slot (sg_key sg)) (deployment_state_new t None (now pf s1)) (view s1)"
    using record_state_ok [OF v1(1) rs] by auto
  show "x' = x" by (rule x)
  show "valid s'" by (rule v2(1))
  show "advanced (slot (sg_key sg)) [StateTransition f t] [t] (view s) (view s')"
    using advanced_step [where d = "deployment_state_new t None (now pf s1)"]
    by (simp add: v1 v2 deployment_state_new_def)
qed

lemma transition_err:
  assumes "sg_store sg = st" and "valid s" and "transition pf sg f t (s, x) = (Inl e, s', x')"
  shows "x' = x" "valid s'" "\<exists>se. e = Store se"
    "\<exists>es. (es = [] \<or> es = [StateTransition f t]) \<and> advanced (slot (sg_key sg)) es [] (view s) (view s')"
proof -
  let ?a = "slot (sg_key sg)" and ?ev = "StateTransition f t"
  obtain r s1 where ev: "record_event st (sg_key sg) ?ev s = (r, s1)" by fastforce
  have "x' = x \<and> valid s' \<and> (\<exists>se. e = Store se) \<and>
    (\<exists>es. (es = [] \<or> es = [?ev]) \<and> advanced ?a es [] (view s) (view s'))"
  proof (cases r)
    case (Inl se)
    with assms(1,3) ev have "s' = s1" "x' = x" "e = Store se"
      by (auto simp: transition_def and_then_def on_store_def)
    with record_event_err [OF assms(2) ev [unfolded Inl]] show ?thesis by (metis advanced_refl)
  next
    case (Inr u)
    with assms(1,3) ev obtain se where "x' = x" "e = Store se"
      and rs: "record_state st (sg_key sg) (deployment_state_new t None (now pf s1)) s1 = (Inl se, s')"
      by (auto simp: transition_def and_then_def on_store_def split: prod.splits sum.splits)
    moreover note ok = record_event_ok [OF assms(2) ev [unfolded Inr]]
    moreover from ok have "valid s' \<and> view s' = view s1" using record_state_err [OF _ rs] by blast
    ultimately show ?thesis using advanced_event by metis
  qed
  then show "x' = x" "valid s'" "\<exists>se. e = Store se"
    "\<exists>es. (es = [] \<or> es = [?ev]) \<and> advanced ?a es [] (view s) (view s')"
    by auto
qed

lemma rollback_ok:
  assumes "sg_store sg = st" and "valid s"
    and "rollback_loop pf sg ctx n e prev cs (s, x) = (Inr out, s', x')"
  shows "valid s' \<and> (\<exists>ts. back_spec pf ctx n e cs x = (out, ts, x') \<and>
           advanced (slot (sg_key sg)) (chain prev ts) ts (view s) (view s'))"
  using assms(2,3)
proof (induction cs arbitrary: prev s x)
  case Nil
  then have tr: "transition pf sg prev RolledBack (s, x) = (Inr (), s', x')"
    and "out = OutcomeRolledBack n (show_saga_error e)"
    by (auto simp: and_then_eq_Inr)
  with transition_ok [OF assms(1) Nil.prems(1) tr] show ?case
    by (simp add: back_spec_def)
next
  case (Cons step cs)
  let ?to = "Compensating (step_name step)"
  from Cons.prems(2) obtain s1 x1 r x2
    where tr: "transition pf sg prev ?to (s, x) = (Inr (), s1, x1)"
      and comp: "compensate step ctx x1 = (r, x2)"
      and rest: "(case r of
             Inl ce \<Rightarrow>
               and_then (transition pf sg ?to (PartialRollback (partial_reason pf (step_name step) ce)))
                 (\<lambda>_. ok (OutcomePartialRollback (partial_reason pf (step_name step) ce)))
           | Inr _ \<Rightarrow> rollback_loop pf sg ctx n e ?to cs) (s1, x2) = (Inr out, s', x')"
    by (auto simp: and_then_eq_Inr result_of_eq Let_def)
  note tr_ok = transition_ok [OF assms(1) Cons.prems(1) tr]
  show ?case
  proof (cases r)
    case (Inl ce)
    let ?reason = "partial_reason pf (step_name step) ce"
    from rest Inl have tr2: "transition pf sg ?to (PartialRollback ?reason) (s1, x2) = (Inr (), s', x')"
      and out: "out = OutcomePartialRollback ?reason"
      by (auto simp: and_then_eq_Inr Let_def)
    from transition_ok [OF assms(1) tr_ok(2) tr2] tr_ok comp Inl out
      advanced_trans [OF tr_ok(3) transition_ok(3) [OF assms(1) tr_ok(2) tr2]]
    show ?thesis by (simp add: back_spec_def)
  next
    case (Inr u)
    with rest have "rollback_loop pf sg ctx n e ?to cs (s1, x2) = (Inr out, s', x')" by simp
    from Cons.IH [OF tr_ok(2) this] obtain ts where valid: "valid s'"
      and spec: "back_spec pf ctx n e cs x2 = (out, ts, x')"
      and adv: "advanced (slot (sg_key sg)) (chain ?to ts) ts (view s1) (view s')"
      by auto
    from spec comp Inr tr_ok(1) have "back_spec pf ctx n e (step # cs) x = (out, ?to # ts, x')"
      by (auto simp: back_spec_def split: prod.splits option.splits)
    moreover from advanced_trans [OF tr_ok(3) adv]
    have "advanced (slot (sg_key sg)) (chain prev (?to # ts)) (?to # ts) (view s) (view s')" by simp
    ultimately show ?thesis using valid by blast
  qed
qed

lemma execute_ok:
  assumes "sg_store sg = st" and "valid s"
    and "execute_loop pf sg ctx prev completed steps (s, x) = (Inr out, s', x')"
  shows "valid s' \<and> (\<exists>ts. saga_spec pf ctx completed steps x = (out, ts, x') \<and>
           advanced (slot (sg_key sg)) (chain prev ts) ts (view s) (view s'))"
  using assms(2,3)
proof (induction steps arbitrary: prev completed s x)
  case Nil
  then have tr: "transition pf sg prev Committed (s, x) = (Inr (), s', x')" and "out = OutcomeCommitted"
    by (auto simp: and_then_eq_Inr)
  with transition_ok [OF assms(1) Nil.prems(1) tr] show ?case
    by (simp add: saga_spec_def)
next
  case (Cons step steps)
  let ?to = "Running (step_name step)"
  from Cons.prems(2) obtain s1 x1 r x2
    where tr: "transition pf sg prev ?to (s, x) = (Inr (), s1, x1)"
      and fwd: "forward step ctx x1 = (r, x2)"
      and rest: "(case r of
             Inl error \<Rightarrow> rollback pf sg ctx completed (step_name step) error
           | Inr _ \<Rightarrow> execute_loop pf sg ctx ?to (completed @ [step]) steps) (s1, x2) = (Inr out, s', x')"
    by (auto simp: and_then_eq_Inr result_of_eq Let_def)
  note tr_ok = transition_ok [OF assms(1) Cons.prems(1) tr]
  show ?case
  proof (cases r)
    case (Inl e)
    with rest have "rollback_loop pf sg ctx (step_name step) e ?to (rev completed) (s1, x2) = (Inr out, s', x')"
      by (simp add: rollback_def)
    from rollback_ok [OF assms(1) tr_ok(2) this] obtain ts where "valid s'"
      and spec: "back_spec pf ctx (step_name step) e (rev completed) x2 = (out, ts, x')"
      and adv: "advanced (slot (sg_key sg)) (chain ?to ts) ts (view s1) (view s')"
      by auto
    with advanced_trans [OF tr_ok(3) adv] fwd Inl tr_ok(1) show ?thesis
      by (simp add: saga_spec_def)
  next
    case (Inr u)
    with rest have "execute_loop pf sg ctx ?to (completed @ [step]) steps (s1, x2) = (Inr out, s', x')" by simp
    from Cons.IH [OF tr_ok(2) this] obtain ts where valid: "valid s'"
      and spec: "saga_spec pf ctx (completed @ [step]) steps x2 = (out, ts, x')"
      and adv: "advanced (slot (sg_key sg)) (chain ?to ts) ts (view s1) (view s')"
      by auto
    from spec fwd Inr tr_ok(1) have "saga_spec pf ctx completed (step # steps) x = (out, ?to # ts, x')"
      by (auto simp: saga_spec_def split: prod.splits option.splits)
    moreover from advanced_trans [OF tr_ok(3) adv]
    have "advanced (slot (sg_key sg)) (chain prev (?to # ts)) (?to # ts) (view s) (view s')" by simp
    ultimately show ?thesis using valid by blast
  qed
qed

end

section \<open>The log is a lifecycle path\<close>

fun outcome_state :: "saga_outcome \<Rightarrow> saga_state" where
  "outcome_state OutcomeCommitted = Committed"
| "outcome_state (OutcomeRolledBack _ _) = RolledBack"
| "outcome_state (OutcomePartialRollback r) = PartialRollback r"

lemma outcome_state_final [simp]: "final_state (outcome_state out)"
  by (cases out) auto

definition active :: "saga_state \<Rightarrow> bool" where
  "active s \<longleftrightarrow> (\<exists>n. s = Running n) \<or> (\<exists>n. s = Compensating n)"

lemma active_simps [simp]: "active (Running n)" "active (Compensating n)"
  by (simp_all add: active_def)

lemma active_lifecycle: "active s \<Longrightarrow> lifecycle s (Compensating n)" "active s \<Longrightarrow> lifecycle s RolledBack"
  by (auto simp: active_def)

lemma back_spec_Nil [simp]:
  "back_spec pf ctx n e [] x = (OutcomeRolledBack n (show_saga_error e), [RolledBack], x)"
  by (simp add: back_spec_def)

lemma back_spec_Cons:
  "back_spec pf ctx n e (step # cs) x =
     (case compensate step ctx x of
        (Inl ce, x') \<Rightarrow>
          (let r = partial_reason pf (step_name step) ce in
           (OutcomePartialRollback r, [Compensating (step_name step), PartialRollback r], x'))
      | (Inr _, x') \<Rightarrow>
          (case back_spec pf ctx n e cs x' of
             (out, ts, x'') \<Rightarrow> (out, Compensating (step_name step) # ts, x'')))"
  by (auto simp: back_spec_def Let_def split: prod.splits sum.splits option.splits)

lemma saga_spec_Nil [simp]: "saga_spec pf ctx completed [] x = (OutcomeCommitted, [Committed], x)"
  by (simp add: saga_spec_def)

lemma saga_spec_Cons:
  "saga_spec pf ctx completed (step # steps) x =
     (case forward step ctx x of
        (Inl e, x') \<Rightarrow>
          (case back_spec pf ctx (step_name step) e (rev completed) x' of
             (out, ts, x'') \<Rightarrow> (out, Running (step_name step) # ts, x''))
      | (Inr _, x') \<Rightarrow>
          (case saga_spec pf ctx (completed @ [step]) steps x' of
             (out, ts, x'') \<Rightarrow> (out, Running (step_name step) # ts, x'')))"
  by (auto simp: saga_spec_def split: prod.splits sum.splits option.splits)

lemma back_spec_path:
  "back_spec pf ctx n e cs x = (out, ts, x') \<Longrightarrow> active s \<Longrightarrow> path_from s (chain s ts) (outcome_state out)"
  by (induction cs arbitrary: x s ts)
    (auto simp: back_spec_Cons active_lifecycle Let_def split: prod.splits sum.splits)

lemma saga_spec_path:
  "saga_spec pf ctx completed steps x = (out, ts, x') \<Longrightarrow> s = Idle \<or> (\<exists>n. s = Running n) \<Longrightarrow>
     path_from s (chain s ts) (outcome_state out)"
proof (induction steps arbitrary: completed x s ts)
  case (Cons step steps)
  let ?to = "Running (step_name step)"
  have "lifecycle s ?to" using Cons.prems(2) by auto
  moreover obtain ts' where "ts = ?to # ts'" and "path_from ?to (chain ?to ts') (outcome_state out)"
  proof (cases "forward step ctx x")
    case (Pair r x1)
    show ?thesis
    proof (cases r)
      case (Inl e)
      with Pair Cons.prems(1) obtain ts' where "back_spec pf ctx (step_name step) e (rev completed) x1 = (out, ts', x')"
        and "ts = ?to # ts'"
        by (auto simp: saga_spec_Cons split: prod.splits)
      with back_spec_path [of pf ctx _ e "rev completed" x1 out ts' x' ?to] show ?thesis
        using that by simp
    next
      case (Inr u)
      with Pair Cons.prems(1) obtain ts' where "saga_spec pf ctx (completed @ [step]) steps x1 = (out, ts', x')"
        and "ts = ?to # ts'"
        by (auto simp: saga_spec_Cons split: prod.splits)
      with Cons.IH [of "completed @ [step]" x1 ts' ?to] show ?thesis using that by simp
    qed
  qed
  ultimately show ?case by simp
qed auto

lemma spec_last:
  "back_spec pf ctx n e cs x = (out, ts, x') \<Longrightarrow> ts \<noteq> [] \<and> last ts = outcome_state out"
  by (induction cs arbitrary: x ts) (auto simp: back_spec_Cons Let_def split: prod.splits sum.splits)

lemma saga_spec_last:
  "saga_spec pf ctx completed steps x = (out, ts, x') \<Longrightarrow> ts \<noteq> [] \<and> last ts = outcome_state out"
  by (induction steps arbitrary: completed x ts)
    (auto simp: saga_spec_Cons split: prod.splits sum.splits dest: spec_last)

section \<open>Errors and whole runs\<close>

text \<open>A piece of a log that a failing call left: a lifecycle path from where it started.\<close>

definition logged_path :: "'k \<Rightarrow> saga_state \<Rightarrow> ('k, 'j) store_view \<Rightarrow> ('k, 'j) store_view \<Rightarrow> bool" where
  "logged_path a s v v' \<longleftrightarrow> (\<exists>es ts t. advanced a es ts v v' \<and> path_from s es t)"

lemma logged_path_step:
  assumes "advanced a [StateTransition s t] [t] v v'" and "lifecycle s t" and "logged_path a t v' v''"
  shows "logged_path a s v v''"
proof -
  from assms(3) obtain es ts u where "advanced a es ts v' v''" "path_from t es u"
    by (auto simp: logged_path_def)
  with advanced_trans [OF assms(1)] assms(2) have "advanced a (StateTransition s t # es) (t # ts) v v''"
    and "path_from s (StateTransition s t # es) u" by fastforce+
  then show ?thesis unfolding logged_path_def by blast
qed

lemma logged_path_err:
  assumes "\<exists>es. (es = [] \<or> es = [StateTransition s t]) \<and> advanced a es [] v v'" and "lifecycle s t"
  shows "logged_path a s v v'"
  unfolding logged_path_def using assms by (metis path_from.simps saga_event.sel)

context state_store_contract
begin

lemma rollback_err:
  assumes "sg_store sg = st" and "valid s" and "active prev"
    and "rollback_loop pf sg ctx n e prev cs (s, x) = (Inl er, s', x')"
  shows "valid s' \<and> (\<exists>se. er = Store se) \<and> logged_path (slot (sg_key sg)) prev (view s) (view s')"
  using assms(2-4)
proof (induction cs arbitrary: prev s x)
  case Nil
  then have tr: "transition pf sg prev RolledBack (s, x) = (Inl er, s', x')"
    by (auto simp: and_then_eq_Inl)
  from transition_err [OF assms(1) Nil.prems(1) tr] Nil.prems(2) show ?case
    by (auto intro: logged_path_err active_lifecycle)
next
  case (Cons step cs)
  let ?to = "Compensating (step_name step)"
  have life: "lifecycle prev ?to" using Cons.prems(2) by (rule active_lifecycle)
  show ?case
  proof (cases "transition pf sg prev ?to (s, x)")
    case (fields r s1 x1)
    show ?thesis
    proof (cases r)
      case (Inl er')
      with fields Cons.prems(3) have "transition pf sg prev ?to (s, x) = (Inl er, s', x')"
        by (simp add: Let_def and_then_def)
      from transition_err [OF assms(1) Cons.prems(1) this] life show ?thesis
        by (auto intro: logged_path_err)
    next
      case (Inr u)
      with fields have tr: "transition pf sg prev ?to (s, x) = (Inr u, s1, x1)" by simp
      note tr_ok = transition_ok [OF assms(1) Cons.prems(1) tr]
      obtain q x2 where comp: "compensate step ctx x1 = (q, x2)" by fastforce
      show ?thesis
      proof (cases q)
        case (Inl ce)
        with comp tr Cons.prems(3) have tr2:
          "transition pf sg ?to (PartialRollback (partial_reason pf (step_name step) ce)) (s1, x2) = (Inl er, s', x')"
          by (auto simp: Let_def and_then_def result_of_def on_world_def split: prod.splits sum.splits)
        note er = transition_err [OF assms(1) tr_ok(2) tr2]
        have "logged_path (slot (sg_key sg)) ?to (view s1) (view s')"
          using er(4) by (rule logged_path_err) auto
        with logged_path_step [OF tr_ok(3) life] er show ?thesis by blast
      next
        case (Inr u')
        with comp tr Cons.prems(3) have "rollback_loop pf sg ctx n e ?to cs (s1, x2) = (Inl er, s', x')"
          by (auto simp: Let_def and_then_def result_of_def on_world_def split: prod.splits sum.splits)
        from Cons.IH [OF tr_ok(2) _ this] logged_path_step [OF tr_ok(3) life] show ?thesis by auto
      qed
    qed
  qed
qed

lemma execute_err:
  assumes "sg_store sg = st" and "valid s" and "prev = Idle \<or> (\<exists>n. prev = Running n)"
    and "execute_loop pf sg ctx prev completed steps (s, x) = (Inl er, s', x')"
  shows "valid s' \<and> (\<exists>se. er = Store se) \<and> logged_path (slot (sg_key sg)) prev (view s) (view s')"
  using assms(2-4)
proof (induction steps arbitrary: prev completed s x)
  case Nil
  then have tr: "transition pf sg prev Committed (s, x) = (Inl er, s', x')"
    by (auto simp: and_then_eq_Inl)
  from transition_err [OF assms(1) Nil.prems(1) tr] Nil.prems(2) show ?case
    by (auto intro: logged_path_err)
next
  case (Cons step steps)
  let ?to = "Running (step_name step)"
  have life: "lifecycle prev ?to" using Cons.prems(2) by auto
  show ?case
  proof (cases "transition pf sg prev ?to (s, x)")
    case (fields r s1 x1)
    show ?thesis
    proof (cases r)
      case (Inl er')
      with fields Cons.prems(3) have "transition pf sg prev ?to (s, x) = (Inl er, s', x')"
        by (simp add: Let_def and_then_def)
      from transition_err [OF assms(1) Cons.prems(1) this] life show ?thesis
        by (auto intro: logged_path_err)
    next
      case (Inr u)
      with fields have tr: "transition pf sg prev ?to (s, x) = (Inr u, s1, x1)" by simp
      note tr_ok = transition_ok [OF assms(1) Cons.prems(1) tr]
      obtain q x2 where fwd: "forward step ctx x1 = (q, x2)" by fastforce
      show ?thesis
      proof (cases q)
        case (Inl e)
        with fwd tr Cons.prems(3)
        have "rollback_loop pf sg ctx (step_name step) e ?to (rev completed) (s1, x2) = (Inl er, s', x')"
          by (auto simp: Let_def and_then_def result_of_def on_world_def rollback_def split: prod.splits sum.splits)
        from rollback_err [OF assms(1) tr_ok(2) _ this] logged_path_step [OF tr_ok(3) life]
        show ?thesis by auto
      next
        case (Inr u')
        with fwd tr Cons.prems(3)
        have "execute_loop pf sg ctx ?to (completed @ [step]) steps (s1, x2) = (Inl er, s', x')"
          by (auto simp: Let_def and_then_def result_of_def on_world_def split: prod.splits sum.splits)
        from Cons.IH [OF tr_ok(2) _ this] logged_path_step [OF tr_ok(3) life] show ?thesis by auto
      qed
    qed
  qed
qed

text \<open>A whole run that returns an outcome: the steps did what the reference semantics says, the
  store holds the log of exactly the states visited, and the lock is free again.\<close>

lemma run_ok:
  assumes "sg_store sg = st" and "valid s" and "run_with_state pf sg (s, x) = (Inr out, s', x')"
  shows "valid s' \<and> \<not> sv_locked (view s) (slot (sg_key sg)) \<and>
    (\<exists>ts. saga_spec pf \<lparr>sc_key = sg_key sg\<rparr> [] (sg_steps sg) x = (out, ts, x') \<and>
      advanced (slot (sg_key sg)) (chain Idle ts) ts (view s) (view s'))"
proof -
  let ?a = "slot (sg_key sg)"
  from assms(1,3) obtain g s1 s2 where acq: "acquire_lock st (sg_key sg) s = (Inr g, s1)"
    and ex: "execute pf sg (s1, x) = (Inr out, s2, x')"
    and rel: "release_lock st g s2 = (Inr (), s')"
    by (auto simp: run_with_state_run split: prod.splits sum.splits if_splits)
  note a = acquire_ok [OF assms(2) acq]
  obtain ts where v2: "valid s2" and spec: "saga_spec pf \<lparr>sc_key = sg_key sg\<rparr> [] (sg_steps sg) x = (out, ts, x')"
    and adv: "advanced ?a (chain Idle ts) ts (view s1) (view s2)"
    using execute_ok [OF assms(1) _ ex [unfolded execute_def]] a by auto
  have r: "valid s'" "view s' = set_locked ?a False (view s2)"
    using release_ok [OF v2 _ rel] a by auto
  from a adv r(2) have "advanced ?a (chain Idle ts) ts (view s) (view s')"
    by (auto simp: advanced_def set_locked_def fun_upd_idem)
  with a r spec show ?thesis by auto
qed

text \<open>A whole run that returns an error: it is a store error, and what was logged is a lifecycle
  path; the lock is free again unless the release itself failed.\<close>

lemma run_err:
  assumes "sg_store sg = st" and "valid s" and "run_with_state pf sg (s, x) = (Inl er, s', x')"
  shows "valid s' \<and> (\<exists>se. er = Store se) \<and>
    (\<exists>v. logged_path (slot (sg_key sg)) Idle (view s) v \<and>
       (view s' = v \<or> view s' = set_locked (slot (sg_key sg)) True v))"
proof (cases "acquire_lock st (sg_key sg) s")
  case (Pair r s1)
  let ?a = "slot (sg_key sg)"
  show ?thesis
  proof (cases r)
    case (Inl e)
    with Pair assms(1,3) have "er = Store e" "s' = s1"
      by (auto simp: run_with_state_def run_inner_def and_then_def on_store_def)
    moreover have "logged_path ?a Idle (view s) (view s)"
      unfolding logged_path_def by (metis advanced_refl path_from.simps(1))
    ultimately show ?thesis using acquire_err [OF assms(2) Pair [unfolded Inl]] by auto
  next
    case (Inr g)
    note a = acquire_ok [OF assms(2) Pair [unfolded Inr]]
    obtain outc s2 x2 where ex: "execute pf sg (s1, x) = (outc, s2, x2)" by (metis prod_cases3)
    obtain q s3 where rel: "release_lock st g s2 = (q, s3)" by fastforce
    have ex_props: "valid s2 \<and> (is_ok outc \<or> (\<exists>se. outc = Inl (Store se))) \<and> logged_path ?a Idle (view s1) (view s2)"
    proof (cases outc)
      case (Inl er')
      with execute_err [OF assms(1) _ _ ex [unfolded execute_def Inl]] a show ?thesis by auto
    next
      case (Inr out)
      with execute_ok [OF assms(1) _ ex [unfolded execute_def Inr]] a obtain ts where
        "valid s2" "saga_spec pf \<lparr>sc_key = sg_key sg\<rparr> [] (sg_steps sg) x = (out, ts, x2)"
        "advanced ?a (chain Idle ts) ts (view s1) (view s2)"
        by auto
      with saga_spec_path show ?thesis using Inr unfolding logged_path_def by fastforce
    qed
    from ex_props obtain es ts t where adv: "advanced ?a es ts (view s1) (view s2)" and path: "path_from Idle es t"
      by (auto simp: logged_path_def)
    let ?v = "set_locked ?a False (view s2)"
    have "advanced ?a es ts (view s) ?v"
      using adv a by (auto simp: advanced_def set_locked_def fun_upd_idem)
    with path have lp: "logged_path ?a Idle (view s) ?v" by (auto simp: logged_path_def)
    have s': "s' = s3" using assms(1,3) Pair Inr ex rel
      by (auto simp: run_with_state_def run_inner_def and_then_def on_store_def result_of_def split: sum.splits)
    show ?thesis
    proof (cases q)
      case (Inr u)
      with rel release_ok [of s2 g u s3] ex_props a s' have "valid s' \<and> view s' = ?v" by auto
      moreover from assms(1,3) Pair \<open>r = Inr g\<close> ex rel Inr have "outc = Inl er"
        by (auto simp: run_with_state_def run_inner_def and_then_def on_store_def result_of_def)
      ultimately show ?thesis using lp ex_props by auto
    next
      case (Inl re)
      with rel release_err [of s2 g re s3] ex_props a s' have "valid s' \<and> view s' = view s2" by auto
      moreover have "view s2 = set_locked ?a True ?v"
        using adv a by (auto simp: advanced_def set_locked_def)
      moreover from assms(1,3) Pair \<open>r = Inr g\<close> ex rel Inl have "er = Store re \<or> outc = Inl er"
        by (auto simp: run_with_state_def run_inner_def and_then_def on_store_def result_of_def split: if_splits)
      ultimately show ?thesis using lp ex_props by auto
    qed
  qed
qed

end

context reliable_store
begin

lemma transition_total:
  assumes "sg_store sg = st" and "valid s"
  shows "is_ok (fst (transition pf sg f t (s, x)))"
proof -
  obtain s1 where ev: "record_event st (sg_key sg) (StateTransition f t) s = (Inr (), s1)"
    using record_event_total [OF assms(2)] by (metis (full_types) is_ok_iff old.unit.exhaust prod.collapse)
  have "valid s1" using record_event_ok [OF assms(2) ev] by simp
  then obtain s2 where "record_state st (sg_key sg) (deployment_state_new t None (now pf s1)) s1 = (Inr (), s2)"
    using record_state_total by (metis (full_types) is_ok_iff old.unit.exhaust prod.collapse)
  with assms(1) ev show ?thesis by (simp add: transition_def and_then_def on_store_def)
qed

lemma transition_totalE:
  assumes "sg_store sg = st" and "valid s"
  obtains s' where "transition pf sg f t (s, x) = (Inr (), s', x)" "valid s'"
proof -
  obtain s' x' where tr: "transition pf sg f t (s, x) = (Inr (), s', x')"
    using transition_total [OF assms] by (metis (full_types) is_ok_iff old.unit.exhaust prod.collapse)
  from transition_ok [OF assms tr] tr that show ?thesis by simp
qed

lemma rollback_total:
  assumes "sg_store sg = st" and "valid s"
  shows "is_ok (fst (rollback_loop pf sg ctx n e prev cs (s, x)))"
  using assms(2)
proof (induction cs arbitrary: prev s x)
  case Nil
  obtain s1 where "transition pf sg prev RolledBack (s, x) = (Inr (), s1, x)"
    by (rule transition_totalE [OF assms(1) Nil])
  then show ?case by simp
next
  case (Cons step cs)
  let ?to = "Compensating (step_name step)"
  obtain s1 where tr: "transition pf sg prev ?to (s, x) = (Inr (), s1, x)" and v1: "valid s1"
    by (rule transition_totalE [OF assms(1) Cons.prems])
  obtain r x2 where comp: "compensate step ctx x = (r, x2)" by fastforce
  show ?case
  proof (cases r)
    case (Inl ce)
    obtain s2 where "transition pf sg ?to (PartialRollback (partial_reason pf (step_name step) ce)) (s1, x2) = (Inr (), s2, x2)"
      by (rule transition_totalE [OF assms(1) v1])
    with tr comp Inl show ?thesis by (simp add: Let_def result_of_def and_then_def on_world_def)
  next
    case (Inr u)
    with tr comp Cons.IH [OF v1] show ?thesis by (simp add: Let_def result_of_def and_then_def on_world_def)
  qed
qed

lemma execute_total:
  assumes "sg_store sg = st" and "valid s"
  shows "is_ok (fst (execute_loop pf sg ctx prev completed steps (s, x)))"
  using assms(2)
proof (induction steps arbitrary: prev completed s x)
  case Nil
  obtain s1 where "transition pf sg prev Committed (s, x) = (Inr (), s1, x)"
    by (rule transition_totalE [OF assms(1) Nil])
  then show ?case by simp
next
  case (Cons step steps)
  let ?to = "Running (step_name step)"
  obtain s1 where tr: "transition pf sg prev ?to (s, x) = (Inr (), s1, x)" and v1: "valid s1"
    by (rule transition_totalE [OF assms(1) Cons.prems])
  obtain r x2 where fwd: "forward step ctx x = (r, x2)" by fastforce
  show ?case
  proof (cases r)
    case (Inl e)
    with tr fwd rollback_total [OF assms(1) v1] show ?thesis
      by (simp add: Let_def result_of_def and_then_def on_world_def rollback_def)
  next
    case (Inr u)
    with tr fwd Cons.IH [OF v1] show ?thesis by (simp add: Let_def result_of_def and_then_def on_world_def)
  qed
qed

lemma run_total:
  assumes "sg_store sg = st" and "valid s" and "\<not> sv_locked (view s) (slot (sg_key sg))"
  obtains out s' x' where "run_with_state pf sg (s, x) = (Inr out, s', x')"
proof -
  obtain g s1 where acq: "acquire_lock st (sg_key sg) s = (Inr g, s1)"
    using acquire_total [OF assms(2,3)] by (metis is_ok_iff prod.collapse)
  have v1: "valid s1" "genuine g" using acquire_ok [OF assms(2) acq] by simp_all
  obtain out s2 x2 where ex: "execute pf sg (s1, x) = (Inr out, s2, x2)"
    using execute_total [OF assms(1) v1(1)] unfolding execute_def by (metis is_ok_iff prod.collapse)
  have "valid s2" using execute_ok [OF assms(1) v1(1) ex [unfolded execute_def]] by simp
  then obtain s3 where "release_lock st g s2 = (Inr (), s3)"
    using release_total [OF _ v1(2)] by (metis (full_types) is_ok_iff old.unit.exhaust prod.collapse)
  with assms(1) acq ex have "run_with_state pf sg (s, x) = (Inr out, s3, x2)"
    by (simp add: run_with_state_def run_inner_def and_then_def on_store_def result_of_def)
  with that show ?thesis .
qed

lemma run_held:
  assumes "sg_store sg = st" and "valid s" and "sv_locked (view s) (slot (sg_key sg))"
  shows "\<exists>s'. run_with_state pf sg (s, x) = (Inl (Store (Locked (show_key (sg_key sg)))), s', x) \<and> view s' = view s"
proof -
  obtain s' where acq: "acquire_lock st (sg_key sg) s = (Inl (Locked (show_key (sg_key sg))), s')"
    using acquire_held [OF assms(2,3)] by (metis prod.collapse)
  with acquire_err [OF assms(2) acq] assms(1) show ?thesis
    by (simp add: run_with_state_def run_inner_def and_then_def on_store_def)
qed

end

section \<open>What steps leave alone\<close>

lemma keeps_on_world [keeps_intros]: "keeps obs m \<Longrightarrow> keeps (obs \<circ> snd) (on_world m)"
  by (auto simp: keeps_def on_world_def split: prod.splits) (metis snd_conv)

lemma keeps_on_world_run [keeps_intros]: "keeps (f \<circ> fst) (on_world m)"
  by (auto simp: keeps_def on_world_def split: prod.splits)

lemma keeps_modify_run [keeps_intros]:
  "keeps (obs \<circ> snd) (modify_run f)" "(\<And>r. g (f r) = g r) \<Longrightarrow> keeps (g \<circ> fst) (modify_run f)"
  by (auto simp: keeps_def modify_run_def)

lemma keeps_get_run [keeps_intros]: "keeps obs get_run"
  by (auto simp: keeps_def get_run_def)

section \<open>What the forward and the backward pass did\<close>

text \<open>
  Undoing a step. \<open>agree x y\<close>: \<open>y\<close> is as good as \<open>x\<close> for whoever has to go back to \<open>x\<close>. A step is
  undoable from the states \<open>P\<close> if a successful forward action leads to \<open>Q\<close> and its compensation,
  started anywhere that agrees with what the action left, succeeds and gets back to agreement
  with where the action started, and if a failing forward action leaves a world that agrees with
  where it started. In a list of steps the states before the \<open>i\<close>-th are \<open>I i\<close>.
\<close>

definition undoable ::
  "('x \<Rightarrow> bool) \<Rightarrow> ('x \<Rightarrow> bool) \<Rightarrow> ('x \<Rightarrow> 'x \<Rightarrow> bool) \<Rightarrow> step_context \<Rightarrow> 'x saga_step \<Rightarrow> bool" where
  "undoable P Q agree ctx step \<longleftrightarrow> (\<forall>x. P x \<longrightarrow>
     (\<forall>x'. forward step ctx x = (Inr (), x') \<longrightarrow> Q x' \<and>
        (\<forall>y. agree x' y \<longrightarrow> (\<exists>y'. compensate step ctx y = (Inr (), y') \<and> agree x y'))) \<and>
     (\<forall>e x'. forward step ctx x = (Inl e, x') \<longrightarrow> agree x x'))"

fun undoable_steps ::
  "(nat \<Rightarrow> 'x \<Rightarrow> bool) \<Rightarrow> ('x \<Rightarrow> 'x \<Rightarrow> bool) \<Rightarrow> step_context \<Rightarrow> nat \<Rightarrow> 'x saga_step list \<Rightarrow> bool" where
  "undoable_steps I agree ctx i [] = True"
| "undoable_steps I agree ctx i (step # steps) =
     (undoable (I i) (I (Suc i)) agree ctx step \<and> undoable_steps I agree ctx (Suc i) steps)"

lemma undoableI:
  assumes "\<And>x x'. P x \<Longrightarrow> forward step ctx x = (Inr (), x') \<Longrightarrow> Q x'"
    and "\<And>x x' y. P x \<Longrightarrow> forward step ctx x = (Inr (), x') \<Longrightarrow> agree x' y \<Longrightarrow>
      \<exists>y'. compensate step ctx y = (Inr (), y') \<and> agree x y'"
    and "\<And>x e x'. P x \<Longrightarrow> forward step ctx x = (Inl e, x') \<Longrightarrow> agree x x'"
  shows "undoable P Q agree ctx step"
  unfolding undoable_def using assms by blast

lemma undoableD:
  assumes "undoable P Q agree ctx step" and "P x" and "forward step ctx x = (Inr (), x')"
  shows "Q x'" "agree x' y \<Longrightarrow> \<exists>y'. compensate step ctx y = (Inr (), y') \<and> agree x y'"
  using assms by (simp_all add: undoable_def)

lemma undoable_failed:
  "undoable P Q agree ctx step \<Longrightarrow> P x \<Longrightarrow> forward step ctx x = (Inl e, x') \<Longrightarrow> agree x x'"
  by (simp add: undoable_def)

lemma run_back_append:
  "run_back ctx (cs @ ds) x =
     (case run_back ctx cs x of
        (tried, None, x') \<Rightarrow> (case run_back ctx ds x' of (tried', f, x'') \<Rightarrow> (tried @ tried', f, x''))
      | r \<Rightarrow> r)"
  by (induction cs arbitrary: x) (auto split: prod.splits sum.splits option.splits)

lemma run_back_all: "run_back ctx cs x = (tried, None, x') \<Longrightarrow> tried = map step_name cs"
  by (induction cs arbitrary: x tried) (auto split: prod.splits sum.splits)

text \<open>The completed steps of a failing forward pass are undone by the backward pass over them.\<close>

lemma undo_all:
  assumes "run_forward ctx steps x = (cs, Some f, x')" and "undoable_steps I agree ctx i steps" and "I i x"
  obtains y tried where "run_back ctx (rev cs) x' = (tried, None, y)" "agree x y"
proof -
  have "\<exists>y tried. run_back ctx (rev cs) x' = (tried, None, y) \<and> agree x y"
    using assms
  proof (induction steps arbitrary: x cs i)
    case (Cons step steps)
    from Cons.prems(2) have und: "undoable (I i) (I (Suc i)) agree ctx step" by simp
    show ?case
    proof (cases "forward step ctx x")
      case (Pair r x1)
      show ?thesis
      proof (cases r)
        case (Inl e)
        with Pair Cons.prems(1) undoable_failed [OF und Cons.prems(3)] show ?thesis by auto
      next
        case (Inr u)
        with Pair Cons.prems(1) obtain cs' where fwd: "run_forward ctx steps x1 = (cs', Some f, x')"
          and d: "cs = step # cs'"
          by (auto split: prod.splits)
        have ok: "forward step ctx x = (Inr (), x1)" using Pair Inr by simp
        from Cons.IH [OF fwd, of "Suc i"] Cons.prems(2) undoableD(1) [OF und Cons.prems(3) ok] obtain y tried where
          bk: "run_back ctx (rev cs') x' = (tried, None, y)" and "agree x1 y" by auto
        then obtain y' where "compensate step ctx y = (Inr (), y')" "agree x y'"
          using undoableD(2) [OF und Cons.prems(3) ok] by blast
        with bk d show ?thesis by (simp add: run_back_append)
      qed
    qed
  qed simp
  with that show ?thesis by blast
qed

lemma saga_spec_undo:
  assumes "saga_spec pf ctx [] steps x = (out, ts, x')" and "undoable_steps I agree ctx 0 steps" and "I 0 x"
  shows "out = OutcomeCommitted \<or> ((\<exists>n m. out = OutcomeRolledBack n m) \<and> agree x x')"
proof (cases "run_forward ctx steps x")
  case (fields cs f x1)
  show ?thesis
  proof (cases f)
    case None
    with fields assms(1) show ?thesis by (simp add: saga_spec_def)
  next
    case (Some p)
    obtain y tried where "run_back ctx (rev cs) x1 = (tried, None, y)" "agree x y"
      using undo_all [OF fields [unfolded Some] assms(2,3)] .
    with fields Some assms(1) show ?thesis
      by (cases p) (auto simp: saga_spec_def back_spec_def)
  qed
qed

text \<open>
  The agreement the deploy flows use: an observation of the world is the same, and what a
  compensation reads back (\<open>cap\<close>, captured by its forward action) is still there. A step that
  changes neither, forward or backward, and whose compensation cannot fail is undoable.
\<close>

definition agreeing :: "('x \<Rightarrow> 'o) \<Rightarrow> ('x \<Rightarrow> 'c option) \<Rightarrow> 'x \<Rightarrow> 'x \<Rightarrow> bool" where
  "agreeing live cap x y \<longleftrightarrow> live x = live y \<and> (cap x = None \<or> cap x = cap y)"

lemma undoable_inert:
  assumes fwd: "keeps live (forward step ctx)" "keeps cap (forward step ctx)"
    and comp: "keeps live (compensate step ctx)" "keeps cap (compensate step ctx)"
    and total: "\<And>y. is_ok (fst (compensate step ctx y))"
    and PQ: "\<And>x x'. P x \<Longrightarrow> live x' = live x \<Longrightarrow> cap x' = cap x \<Longrightarrow> Q x'"
  shows "undoable P Q (agreeing live cap) ctx step"
proof (rule undoableI)
  fix x x' assume P: "P x" and run: "forward step ctx x = (Inr (), x')"
  note same = keepsD [OF fwd(1) run] keepsD [OF fwd(2) run]
  show "Q x'" using PQ [OF P] same by simp
  fix y assume ag: "agreeing live cap x' y"
  obtain y' where "compensate step ctx y = (Inr (), y')"
    using total [of y] by (cases "compensate step ctx y") (auto simp: is_ok_iff)
  with ag same keepsD [OF comp(1) this] keepsD [OF comp(2) this]
  show "\<exists>y'. compensate step ctx y = (Inr (), y') \<and> agreeing live cap x y'" by (simp add: agreeing_def)
next
  fix x e x' assume "forward step ctx x = (Inl e, x')"
  from keepsD [OF fwd(1) this] keepsD [OF fwd(2) this] show "agreeing live cap x x'" by (simp add: agreeing_def)
qed

text \<open>A committed run ran every step; a step list that runs through runs its first step, then the rest.\<close>

lemma run_forward_all: "run_forward ctx steps x = (cs, None, x') \<Longrightarrow> cs = steps"
  by (induction steps arbitrary: x cs) (auto split: prod.splits sum.splits)

lemma saga_spec_committed:
  assumes "saga_spec pf ctx completed steps x = (OutcomeCommitted, ts, x')"
  shows "run_forward ctx steps x = (steps, None, x')"
proof (cases "run_forward ctx steps x")
  case (fields cs f x1)
  show ?thesis
  proof (cases f)
    case None
    with fields assms run_forward_all [of ctx steps x cs x1] show ?thesis by (simp add: saga_spec_def)
  next
    case (Some p)
    with fields assms show ?thesis
      by (auto simp: saga_spec_def back_spec_def split: prod.splits option.splits)
  qed
qed

lemma run_forward_Cons_done:
  "run_forward ctx (step # steps) x = (cs, None, x') \<longleftrightarrow>
     (\<exists>x1. forward step ctx x = (Inr (), x1) \<and> run_forward ctx steps x1 = (steps, None, x')) \<and> cs = step # steps"
  by (auto split: prod.splits sum.splits dest: run_forward_all)

text \<open>A run that commits ends in the states after the last step.\<close>

lemma run_forward_inv:
  assumes "run_forward ctx steps x = (cs, None, x')" and "undoable_steps I agree ctx i steps" and "I i x"
  shows "I (i + length steps) x'"
  using assms
proof (induction steps arbitrary: x cs i)
  case (Cons step steps)
  from Cons.prems(1) obtain x1 where "forward step ctx x = (Inr (), x1)" and fwd: "run_forward ctx steps x1 = (steps, None, x')"
    unfolding run_forward_Cons_done by blast
  with undoableD(1) [of "I i" "I (Suc i)"] Cons.prems have "I (Suc i) x1" by auto
  with Cons.IH [OF fwd, of "Suc i"] Cons.prems(2) show ?case by simp
qed simp

text \<open>
  When a step can only fail and nothing up to it changes an observation, forward or backward, no
  run commits and none changes the observation.
\<close>

lemma run_forward_keeps:
  assumes "run_forward ctx (pre @ bad # post) x = (cs, f, x')" and "\<forall>s\<in>set pre. keeps obs (forward s ctx)"
    and "keeps obs (forward bad ctx)" and "\<And>x. \<not> is_ok (fst (forward bad ctx x))"
  shows "obs x' = obs x \<and> f \<noteq> None \<and> set cs \<subseteq> set pre"
  using assms(1,2)
proof (induction pre arbitrary: x cs)
  case Nil
  obtain r x1 where bad: "forward bad ctx x = (r, x1)" by fastforce
  with assms(4) [of x] obtain e where "r = Inl e" by (cases r) auto
  with Nil bad keepsD [OF assms(3) bad] show ?case by auto
next
  case (Cons step pre)
  obtain r x1 where fwd: "forward step ctx x = (r, x1)" by fastforce
  have obs: "obs x1 = obs x" using keepsD [of obs "forward step ctx", OF _ fwd] Cons.prems(2) by simp
  show ?case
  proof (cases r)
    case (Inl e)
    with fwd obs Cons.prems(1) show ?thesis by auto
  next
    case (Inr u)
    with fwd Cons.prems(1) obtain cs' where "run_forward ctx (pre @ bad # post) x1 = (cs', f, x')" "cs = step # cs'"
      by (auto split: prod.splits)
    with Cons.IH [of x1 cs'] Cons.prems(2) obs show ?thesis by auto
  qed
qed

lemma run_back_keeps:
  "run_back ctx cs x = (tried, f, x') \<Longrightarrow> \<forall>s\<in>set cs. keeps obs (compensate s ctx) \<Longrightarrow> obs x' = obs x"
proof (induction cs arbitrary: x tried)
  case (Cons step cs)
  obtain r x1 where comp: "compensate step ctx x = (r, x1)" by fastforce
  have "obs x1 = obs x" using keepsD [of obs "compensate step ctx", OF _ comp] Cons.prems(2) by simp
  with comp Cons show ?case by (cases r) (fastforce split: prod.splits)+
qed simp

lemma saga_spec_keeps:
  assumes "saga_spec pf ctx [] (pre @ bad # post) x = (out, ts, x')"
    and "\<forall>s\<in>set pre. keeps obs (forward s ctx) \<and> keeps obs (compensate s ctx)"
    and "keeps obs (forward bad ctx)" and "\<And>x. \<not> is_ok (fst (forward bad ctx x))"
  shows "obs x' = obs x \<and> out \<noteq> OutcomeCommitted"
proof -
  obtain cs f x1 where fwd: "run_forward ctx (pre @ bad # post) x = (cs, f, x1)" by (metis prod_cases3)
  then have f: "obs x1 = obs x" "f \<noteq> None" "set cs \<subseteq> set pre"
    using run_forward_keeps [OF fwd _ assms(3,4)] assms(2) by auto
  then obtain n e where "f = Some (n, e)" by fastforce
  obtain tried g x2 where bk: "run_back ctx (rev cs) x1 = (tried, g, x2)" by (metis prod_cases3)
  have "obs x2 = obs x1" using run_back_keeps [OF bk] assms(2) f(3) by auto
  with f(1) fwd bk assms(1) \<open>f = Some (n, e)\<close> show ?thesis
    by (auto simp: saga_spec_def back_spec_def split: option.splits)
qed

text \<open>Every step a successful backward pass went over was compensated.\<close>

lemma run_back_compensated:
  assumes "run_back ctx cs x = (tried, None, x')" and "step \<in> set cs"
  shows "\<exists>y y'. compensate step ctx y = (Inr (), y')"
  using assms
proof (induction cs arbitrary: x tried)
  case (Cons c cs)
  show ?case
  proof (cases "compensate c ctx x")
    case (Pair r x1)
    with Cons.prems(1) obtain tried' where r: "r = Inr ()" and bk: "run_back ctx cs x1 = (tried', None, x')"
      by (cases r) (auto split: prod.splits)
    from Cons.prems(2) Cons.IH [OF bk] Pair r show ?thesis by auto
  qed
qed simp

text \<open>The states of a run that rolled back completely.\<close>

lemma saga_spec_rolled_back:
  assumes "saga_spec pf ctx [] steps x = (OutcomeRolledBack n msg, ts, x')"
  obtains cs e x1 where "run_forward ctx steps x = (cs, Some (n, e), x1)" "msg = show_saga_error e"
    "ts = map Running (map step_name cs @ [n]) @ map Compensating (rev (map step_name cs)) @ [RolledBack]"
proof (cases "run_forward ctx steps x")
  case (fields cs f x1)
  with assms obtain e where f: "f = Some (n, e)" and "msg = show_saga_error e"
    by (auto simp: saga_spec_def back_spec_def split: prod.splits option.splits)
  moreover from assms fields f
  have "ts = map Running (map step_name cs @ [n]) @ map Compensating (rev (map step_name cs)) @ [RolledBack]"
    by (auto simp: saga_spec_def back_spec_def rev_map dest!: run_back_all split: prod.splits option.splits)
  ultimately show ?thesis using that fields by blast
qed

lemma saga_spec_rolled_back_run:
  assumes "saga_spec pf ctx [] steps x = (OutcomeRolledBack n msg, ts, x')"
  obtains cs e x1 tried where "run_forward ctx steps x = (cs, Some (n, e), x1)" "run_back ctx (rev cs) x1 = (tried, None, x')"
  using assms that by (fastforce simp: saga_spec_def back_spec_def split: prod.splits option.splits)

lemma run_forward_prefix:
  "run_forward ctx steps x = (cs, Some (n, e), x') \<Longrightarrow>
     \<exists>step rest. steps = cs @ step # rest \<and> step_name step = n"
proof (induction steps arbitrary: x cs)
  case (Cons step steps)
  show ?case
  proof (cases "forward step ctx x")
    case (Pair r x1)
    with Cons.prems Cons.IH [of x1] show ?thesis
      by (cases r) (auto split: prod.splits)
  qed
qed simp

lemma run_back_stuck:
  "run_back ctx cs x = (tried, Some (m, ce), x') \<Longrightarrow>
     \<exists>undone stuck kept. cs = undone @ stuck # kept \<and> step_name stuck = m \<and>
       tried = map step_name (undone @ [stuck])"
proof (induction cs arbitrary: x tried)
  case (Cons step cs)
  show ?case
  proof (cases "compensate step ctx x")
    case (Pair r x1)
    show ?thesis
    proof (cases r)
      case (Inl e)
      with Pair Cons.prems have "step # cs = [] @ step # cs \<and> step_name step = m \<and> tried = map step_name ([] @ [step])"
        by auto
      then show ?thesis by blast
    next
      case (Inr u)
      with Pair Cons.prems obtain t' where "run_back ctx cs x1 = (t', Some (m, ce), x')" and t: "tried = step_name step # t'"
        by (auto split: prod.splits)
      from Cons.IH [OF this(1)] obtain undone stuck kept where
        "cs = undone @ stuck # kept" "step_name stuck = m" "t' = map step_name (undone @ [stuck])" by blast
      with t have "step # cs = (step # undone) @ stuck # kept \<and> step_name stuck = m \<and>
          tried = map step_name ((step # undone) @ [stuck])" by simp
      then show ?thesis by blast
    qed
  qed
qed simp

lemma saga_spec_partial:
  assumes "saga_spec pf ctx [] steps x = (OutcomePartialRollback reason, ts, x')"
  obtains kept stuck undone n e ce x1 where
    "run_forward ctx steps x = (kept @ stuck # undone, Some (n, e), x1)"
    "reason = partial_reason pf (step_name stuck) ce"
    "ts = map Running (map step_name (kept @ stuck # undone) @ [n]) @
       map Compensating (rev (map step_name (stuck # undone))) @ [PartialRollback reason]"
proof (cases "run_forward ctx steps x")
  case (fields cs f x1)
  with assms obtain n e tried m ce where f: "f = Some (n, e)"
    and bk: "run_back ctx (rev cs) x1 = (tried, Some (m, ce), x')" and r: "reason = partial_reason pf m ce"
    and ts: "ts = map (Running \<circ> step_name) cs @ Running n # map Compensating tried @ [PartialRollback reason]"
    by (auto simp: saga_spec_def back_spec_def split: prod.splits option.splits)
  from run_back_stuck [OF bk] obtain undone stuck kept where
    split: "rev cs = undone @ stuck # kept" "step_name stuck = m" "tried = map step_name (undone @ [stuck])" by blast
  from split(1) have "cs = rev kept @ stuck # rev undone" by (metis append.assoc append_Cons append_Nil rev_append rev_rev_ident rev_singleton_conv rev.simps(2))
  with that [of "rev kept" stuck "rev undone" n e x1 ce] fields f r ts split show ?thesis
    by (simp add: rev_map)
qed

section \<open>Runs over the in-memory store\<close>

text \<open>A saga to instantiate the theorems with: the second of its steps fails.\<close>

definition demo_step :: "string \<Rightarrow> string list saga_step" where
  "demo_step n = \<lparr>step_name = n, forward = (\<lambda>_ x. (Inr (), n # x)), compensate = (\<lambda>_ x. (Inr (), tl x))\<rparr>"

definition demo_bad :: "string \<Rightarrow> string list saga_step" where
  "demo_bad n = \<lparr>step_name = n, forward = (\<lambda>_ x. (Inl (StepFailed n ''down''), x)),
     compensate = (\<lambda>_ x. (Inl (StepFailed n ''stuck''), x))\<rparr>"

definition demo_stuck :: "string \<Rightarrow> string list saga_step" where
  "demo_stuck n = (demo_step n)\<lparr>compensate := (\<lambda>_ x. (Inl (StepFailed n ''stuck''), x))\<rparr>"

definition demo_saga :: "string list saga_step list \<Rightarrow> (nat memory_inner, nat, string list) saga" where
  "demo_saga steps = \<lparr>sg_store = memory_store (\<lambda>_. 0), sg_key = key_new ''app'' ''prod'', sg_steps = steps\<rparr>"

definition demo_pf :: "nat memory_inner platform" where
  "demo_pf = \<lparr>now = (\<lambda>_. 0), uni_alnum = (\<lambda>_. False)\<rparr>"

lemma demo_simps [simp]:
  "sg_store (demo_saga steps) = memory_store (\<lambda>_. 0)" "sg_steps (demo_saga steps) = steps"
  "sg_key (demo_saga steps) = key_new ''app'' ''prod''"
  "\<not> sv_locked (memory_view memory_new) a" "sv_events (memory_view memory_new) a = []"
  by (simp_all add: demo_saga_def memory_new_def memory_view_def)

text \<open>
  C1: The driver implements the saga. On a store whose lock for the key is free, a run always
  returns an outcome (never an error), the outcome and the world left behind are those of the
  reference semantics (forward until a step fails, then compensate the completed steps in
  reverse until one fails), the log gains exactly the transitions between the states visited, in
  order, starting from \<open>Idle\<close>, and nothing else in the store changes: no other key's log, state,
  snapshot or lock.
\<close>

theorem run_refines_saga_spec:
  assumes "sg_store sg = memory_store h" and "memory_valid h s" and "slug h (sg_key sg) \<notin> mi_locks s"
  shows "\<exists>out ts s' x'. run_with_state pf sg (s, x) = (Inr out, s', x') \<and>
    saga_spec pf \<lparr>sc_key = sg_key sg\<rparr> [] (sg_steps sg) x = (out, ts, x') \<and> memory_valid h s' \<and>
    advanced (slug h (sg_key sg)) (chain Idle ts) ts (memory_view s) (memory_view s')"
proof -
  have "\<not> sv_locked (memory_view s) (slug h (sg_key sg))"
    using assms(3) by (simp add: memory_view_def)
  with mem.run_total [OF assms(1,2)] mem.run_ok [OF assms(1,2)] show ?thesis by metis
qed

theorem run_refines_saga_spec_witness:
  "\<exists>s'. run_with_state demo_pf (demo_saga [demo_step ''migrate'', demo_bad ''health'']) (memory_new, []) =
      (Inr (OutcomeRolledBack ''health'' (show_saga_error (StepFailed ''health'' ''down''))), s', []) \<and>
    sv_events (memory_view s') (slug (\<lambda>_. 0) (key_new ''app'' ''prod'')) =
      [StateTransition Idle (Running ''migrate''),
       StateTransition (Running ''migrate'') (Running ''health''),
       StateTransition (Running ''health'') (Compensating ''migrate''),
       StateTransition (Compensating ''migrate'') RolledBack]"
  using run_refines_saga_spec [where h = "\<lambda>_. 0" and s = memory_new and pf = demo_pf and x = "[]"
      and sg = "demo_saga [demo_step ''migrate'', demo_bad ''health'']"]
  by (auto simp: saga_spec_def back_spec_def demo_step_def demo_bad_def dest!: advanced_frame(4))

context reliable_store
begin

lemma run_final:
  assumes "sg_store sg = st" and "valid s" and "\<not> sv_locked (view s) (slot (sg_key sg))"
  obtains out s' x' es d where "run_with_state pf sg (s, x) = (Inr out, s', x')" and "valid s'"
    and "view s' = view s\<lparr>sv_states := sv_states (view s'), sv_events := sv_events (view s')\<rparr>"
    and "sv_events (view s') (slot (sg_key sg)) = sv_events (view s) (slot (sg_key sg)) @ es"
    and "path_from Idle es (outcome_state out)" and "final_state (outcome_state out)"
    and "last_opt (sv_states (view s') (slot (sg_key sg))) = Some d" and "ds_state d = outcome_state out"
proof -
  let ?a = "slot (sg_key sg)"
  obtain out s' x' where run: "run_with_state pf sg (s, x) = (Inr out, s', x')"
    using run_total [OF assms] .
  then obtain ts where spec: "saga_spec pf \<lparr>sc_key = sg_key sg\<rparr> [] (sg_steps sg) x = (out, ts, x')"
    and v': "valid s'" and adv: "advanced ?a (chain Idle ts) ts (view s) (view s')"
    using run_ok [OF assms(1,2)] by blast
  note fr = advanced_frame [OF adv]
  have last: "ts \<noteq> []" "last ts = outcome_state out" using saga_spec_last [OF spec] by auto
  have states: "map ds_state (sv_states (view s') ?a) \<noteq> []"
    "last (map ds_state (sv_states (view s') ?a)) = outcome_state out"
    using fr(5) last by simp_all
  then obtain d where d: "last_opt (sv_states (view s') ?a) = Some d" "ds_state d = outcome_state out"
    by (auto simp: last_opt_def last_map)
  have "view s' = view s\<lparr>sv_states := sv_states (view s'), sv_events := sv_events (view s')\<rparr>"
    using fr(1,2) by (cases "view s", cases "view s'") simp
  moreover have "final_state (outcome_state out)" by (cases out) auto
  ultimately show ?thesis using that run v' fr(4) d saga_spec_path [OF spec] by blast
qed

end

text \<open>
  C6: After every run over a free lock, the recorded log of the run is a path of the lifecycle
  from \<open>Idle\<close> to the final state that matches the outcome returned, \<open>current_state\<close> reads that
  same final state, and the lock of the key is free again.
\<close>

theorem run_leaves_final_state:
  assumes "sg_store sg = memory_store h" and "memory_valid h s" and "slug h (sg_key sg) \<notin> mi_locks s"
  shows "\<exists>out s' x' es d. run_with_state pf sg (s, x) = (Inr out, s', x') \<and>
    sv_events (memory_view s') (slug h (sg_key sg)) = sv_events (memory_view s) (slug h (sg_key sg)) @ es \<and>
    path_from Idle es (outcome_state out) \<and> final_state (outcome_state out) \<and>
    mem_current_state h (sg_key sg) s' = (Inr (Some d), s') \<and> ds_state d = outcome_state out \<and>
    slug h (sg_key sg) \<notin> mi_locks s'"
proof -
  let ?a = "slug h (sg_key sg)"
  have "\<not> sv_locked (memory_view s) ?a" using assms(3) by (simp add: memory_view_def)
  from mem.run_final [OF assms(1,2) this]
  obtain out s' x' es d where run: "run_with_state pf sg (s, x) = (Inr out, s', x')"
    and same: "memory_view s' = memory_view s\<lparr>sv_states := sv_states (memory_view s'), sv_events := sv_events (memory_view s')\<rparr>"
    and log: "sv_events (memory_view s') ?a = sv_events (memory_view s) ?a @ es" "path_from Idle es (outcome_state out)"
    and d: "final_state (outcome_state out)" "last_opt (sv_states (memory_view s') ?a) = Some d" "ds_state d = outcome_state out" .
  have "mem_current_state h (sg_key sg) s' = (Inr (Some d), s')"
    using d(2) by (auto simp: mem_current_state_def memory_view_def last_opt_def split: option.splits)
  moreover have "?a \<notin> mi_locks s'"
    using arg_cong [OF same, of sv_locked] assms(3) by (simp add: memory_view_def fun_eq_iff)
  ultimately show ?thesis using run log d(1,3) by blast
qed

theorem run_leaves_final_state_witness:
  "\<exists>out s' x' d. run_with_state demo_pf (demo_saga [demo_bad ''health'']) (memory_new, []) = (Inr out, s', x') \<and>
    mem_current_state (\<lambda>_. 0) (key_new ''app'' ''prod'') s' = (Inr (Some d), s') \<and> ds_state d = outcome_state out \<and>
    mi_locks s' \<inter> {slug (\<lambda>_. 0) (key_new ''app'' ''prod'')} = {}"
  using run_leaves_final_state [where h = "\<lambda>_. 0" and s = memory_new and pf = demo_pf and x = "[]"
      and sg = "demo_saga [demo_bad ''health'']"]
  by auto

text \<open>
  A run on a key that another writer has locked is refused with the lock error and is a no-op:
  neither the store nor the world the steps act on changes.
\<close>

theorem locked_run_is_noop:
  assumes "sg_store sg = memory_store h" and "slug h (sg_key sg) \<in> mi_locks s"
  shows "run_with_state pf sg (s, x) = (Inl (Store (Locked (show_key (sg_key sg)))), s, x)"
  using assms by (simp add: run_with_state_run memory_defs insert_absorb)

theorem locked_run_is_noop_witness:
  "let a = slug (\<lambda>_. 0) (key_new ''app'' ''prod''); s = memory_new\<lparr>mi_locks := {a}\<rparr> in
   run_with_state demo_pf (demo_saga [demo_step ''migrate'']) (s, []) =
     (Inl (Store (Locked ''app/prod'')), s, [])"
  using locked_run_is_noop [where h = "\<lambda>_. 0" and sg = "demo_saga [demo_step ''migrate'']" and pf = demo_pf and x = "[]"
      and s = "memory_new\<lparr>mi_locks := {slug (\<lambda>_. 0) (key_new ''app'' ''prod'')}\<rparr>"]
  by (simp add: show_key_def key_new_def)

text \<open>
  C26: A complete rollback compensates exactly the steps that completed, each once, in reverse
  order. When a run returns \<open>RolledBack\<close> naming step \<open>n\<close>, the steps before \<open>n\<close> ran forward in order and
  \<open>n\<close> failed with the reported error; from the world this left, the compensations of those same steps ran last
  first, each once and all of them successfully, and led to the world of the result; nothing after \<open>n\<close> was
  touched. The log gained exactly these transitions.
\<close>

theorem rollback_reverses_completed:
  assumes "sg_store sg = memory_store h" and "memory_valid h s"
    and "run_with_state pf sg (s, x) = (Inr (OutcomeRolledBack n msg), s', x')"
  shows "\<exists>cs step rest e x1. sg_steps sg = cs @ step # rest \<and> step_name step = n \<and> msg = show_saga_error e \<and>
    run_forward \<lparr>sc_key = sg_key sg\<rparr> (sg_steps sg) x = (cs, Some (n, e), x1) \<and>
    run_back \<lparr>sc_key = sg_key sg\<rparr> (rev cs) x1 = (rev (map step_name cs), None, x') \<and>
    sv_events (memory_view s') (slug h (sg_key sg)) = sv_events (memory_view s) (slug h (sg_key sg)) @
      chain Idle (map Running (map step_name cs @ [n]) @ map Compensating (rev (map step_name cs)) @ [RolledBack])"
proof -
  obtain ts where spec: "saga_spec pf \<lparr>sc_key = sg_key sg\<rparr> [] (sg_steps sg) x = (OutcomeRolledBack n msg, ts, x')"
    and adv: "advanced (slug h (sg_key sg)) (chain Idle ts) ts (memory_view s) (memory_view s')"
    using mem.run_ok [OF assms] by blast
  obtain cs e x1 where fwd: "run_forward \<lparr>sc_key = sg_key sg\<rparr> (sg_steps sg) x = (cs, Some (n, e), x1)" and msg: "msg = show_saga_error e"
    and ts: "ts = map Running (map step_name cs @ [n]) @ map Compensating (rev (map step_name cs)) @ [RolledBack]"
    using saga_spec_rolled_back [OF spec] .
  obtain tried where "run_back \<lparr>sc_key = sg_key sg\<rparr> (rev cs) x1 = (tried, None, x')"
    using saga_spec_rolled_back_run [OF spec] fwd by auto
  with run_back_all have undone: "run_back \<lparr>sc_key = sg_key sg\<rparr> (rev cs) x1 = (rev (map step_name cs), None, x')" by (metis rev_map)
  from run_forward_prefix [OF fwd] obtain step rest where "sg_steps sg = cs @ step # rest" "step_name step = n" by blast
  with fwd msg undone advanced_frame(4) [OF adv] ts show ?thesis by blast
qed

theorem rollback_reverses_completed_witness:
  "\<exists>s' x' cs x1. run_with_state demo_pf (demo_saga [demo_step ''a'', demo_step ''b'', demo_bad ''c'']) (memory_new, []) =
      (Inr (OutcomeRolledBack ''c'' (show_saga_error (StepFailed ''c'' ''down''))), s', x') \<and>
    run_back \<lparr>sc_key = key_new ''app'' ''prod''\<rparr> (rev cs) x1 = (rev (map step_name cs), None, x') \<and>
    sv_events (memory_view s') (slug (\<lambda>_. 0) (key_new ''app'' ''prod'')) =
      chain Idle (map Running (map step_name cs @ [''c'']) @ map Compensating (rev (map step_name cs)) @ [RolledBack])"
proof -
  let ?sg = "demo_saga [demo_step ''a'', demo_step ''b'', demo_bad ''c'']"
  obtain out s' x' where run: "run_with_state demo_pf ?sg (memory_new, []) = (Inr out, s', x')"
    by (rule mem.run_total [where h = "\<lambda>_. 0" and sg = ?sg and s = memory_new]) simp_all
  with mem.run_ok [where h = "\<lambda>_. 0" and sg = ?sg and s = memory_new]
  have out: "out = OutcomeRolledBack ''c'' (show_saga_error (StepFailed ''c'' ''down''))"
    by (auto simp: saga_spec_def back_spec_def demo_step_def demo_bad_def)
  from rollback_reverses_completed [where h = "\<lambda>_. 0" and sg = ?sg, OF _ memory_valid_new run [unfolded out]] run out
  show ?thesis by (simp only: demo_simps append_Nil) blast
qed

text \<open>
  C5: Atomicity. If the steps are undoable with respect to \<open>agree\<close>, a run over a free lock either
  commits or rolls back completely, and after a rollback the world agrees with the world before
  the run. No run of undoable steps ends in a partial rollback.
\<close>

theorem saga_atomic:
  assumes "sg_store sg = memory_store h" and "memory_valid h s" and "slug h (sg_key sg) \<notin> mi_locks s"
    and "undoable_steps I agree \<lparr>sc_key = sg_key sg\<rparr> 0 (sg_steps sg)" and "I 0 x"
  shows "\<exists>out s' x'. run_with_state pf sg (s, x) = (Inr out, s', x') \<and>
    (out = OutcomeCommitted \<or> ((\<exists>n m. out = OutcomeRolledBack n m) \<and> agree x x'))"
proof -
  have "\<not> sv_locked (memory_view s) (slug h (sg_key sg))" using assms(3) by (simp add: memory_view_def)
  then obtain out s' x' where run: "run_with_state pf sg (s, x) = (Inr out, s', x')"
    using mem.run_total [OF assms(1,2)] by blast
  then obtain ts where "saga_spec pf \<lparr>sc_key = sg_key sg\<rparr> [] (sg_steps sg) x = (out, ts, x')"
    using mem.run_ok [OF assms(1,2)] by blast
  from saga_spec_undo [OF this assms(4,5)] run show ?thesis by blast
qed

theorem saga_atomic_witness:
  "\<exists>out s' x'. run_with_state demo_pf (demo_saga [demo_step ''a'', demo_bad ''b'']) (memory_new, [''old'']) = (Inr out, s', x') \<and>
    (out = OutcomeCommitted \<or> ((\<exists>n m. out = OutcomeRolledBack n m) \<and> [''old''] = x'))"
  by (rule saga_atomic [where h = "\<lambda>_. 0" and sg = "demo_saga [demo_step ''a'', demo_bad ''b'']"
        and agree = "(=)" and I = "\<lambda>_ _. True"])
    (simp_all add: undoable_def demo_step_def demo_bad_def)

text \<open>
  A partial rollback stops at the first compensation that fails. The log shows which steps
  were compensated: the failing one last, the steps completed before it never, and the
  recorded reason names it and passed through the credential redaction.
\<close>

theorem partial_rollback_stops:
  assumes "sg_store sg = memory_store h" and "memory_valid h s"
    and "run_with_state pf sg (s, x) = (Inr (OutcomePartialRollback reason), s', x')"
  shows "\<exists>kept stuck undone step rest ce. sg_steps sg = (kept @ stuck # undone) @ step # rest \<and>
    reason = credentials (uni_alnum pf) (''compensation for '' @ [quote] @ step_name stuck @ [quote] @
      '' failed: '' @ show_saga_error ce) \<and>
    sv_events (memory_view s') (slug h (sg_key sg)) = sv_events (memory_view s) (slug h (sg_key sg)) @
      chain Idle (map Running (map step_name (kept @ stuck # undone) @ [step_name step]) @
        map Compensating (rev (map step_name (stuck # undone))) @ [PartialRollback reason])"
proof -
  obtain ts where spec: "saga_spec pf \<lparr>sc_key = sg_key sg\<rparr> [] (sg_steps sg) x = (OutcomePartialRollback reason, ts, x')"
    and adv: "advanced (slug h (sg_key sg)) (chain Idle ts) ts (memory_view s) (memory_view s')"
    using mem.run_ok [OF assms] by blast
  obtain kept stuck undone n e ce x1 where
    fwd: "run_forward \<lparr>sc_key = sg_key sg\<rparr> (sg_steps sg) x = (kept @ stuck # undone, Some (n, e), x1)"
    and r: "reason = partial_reason pf (step_name stuck) ce"
    and ts: "ts = map Running (map step_name (kept @ stuck # undone) @ [n]) @
       map Compensating (rev (map step_name (stuck # undone))) @ [PartialRollback reason]"
    using saga_spec_partial [OF spec] .
  obtain step rest where "sg_steps sg = (kept @ stuck # undone) @ step # rest" "step_name step = n"
    using run_forward_prefix [OF fwd] by blast
  with r ts advanced_frame(4) [OF adv] show ?thesis unfolding partial_reason_def by metis
qed

theorem partial_rollback_stops_witness:
  "\<exists>reason s' x' kept stuck undone step rest.
    run_with_state demo_pf (demo_saga [demo_step ''a'', demo_stuck ''b'', demo_bad ''c'']) (memory_new, []) =
      (Inr (OutcomePartialRollback reason), s', x') \<and>
    [demo_step ''a'', demo_stuck ''b'', demo_bad ''c''] = (kept @ stuck # undone) @ step # rest \<and>
    sv_events (memory_view s') (slug (\<lambda>_. 0) (key_new ''app'' ''prod'')) =
      chain Idle (map Running (map step_name (kept @ stuck # undone) @ [step_name step]) @
        map Compensating (rev (map step_name (stuck # undone))) @ [PartialRollback reason])"
proof -
  let ?sg = "demo_saga [demo_step ''a'', demo_stuck ''b'', demo_bad ''c'']"
  obtain out s' x' where run: "run_with_state demo_pf ?sg (memory_new, []) = (Inr out, s', x')"
    by (rule mem.run_total [where h = "\<lambda>_. 0" and sg = ?sg and s = memory_new]) simp_all
  from mem.run_ok [where h = "\<lambda>_. 0" and sg = ?sg, OF _ memory_valid_new run]
  obtain reason where out: "out = OutcomePartialRollback reason"
    by (auto simp: saga_spec_def back_spec_def demo_step_def demo_bad_def demo_stuck_def)
  note stops = partial_rollback_stops [where h = "\<lambda>_. 0" and sg = ?sg, OF _ memory_valid_new run [unfolded out]]
  show ?thesis
    by (rule exI [of _ reason], rule exI [of _ s'], rule exI [of _ x'])
      (use stops run out in \<open>simp only: demo_simps append_Nil, metis\<close>)
qed

definition commit_fails :: "('j memory_inner, 'j) state_store" where
  "commit_fails = (memory_store (\<lambda>_. 0))\<lparr>record_event := (\<lambda>k e s.
     if ev_to e = Committed then (Inl (Io ''disk full''), s) else mem_record_event (\<lambda>_. 0) k e s)\<rparr>"

lemma transition_world:
  "transition pf sg prev to (s, x) = (r, s', x') \<Longrightarrow> x' = x \<and> (case r of Inl e \<Rightarrow> \<exists>se. e = Store se | Inr _ \<Rightarrow> True)"
  by (auto simp: transition_def and_then_def on_store_def split: prod.splits sum.splits)

lemma rollback_loop_stops:
  "rollback_loop pf sg ctx n e prev cs (s, x) = (r, s', x') \<Longrightarrow>
     (\<exists>bs tried f. prefix bs cs \<and> run_back ctx bs x = (tried, f, x')) \<and> (case r of Inl err \<Rightarrow> \<exists>se. err = Store se | Inr _ \<Rightarrow> True)"
proof (induction cs arbitrary: prev s x)
  case Nil
  obtain q s1 x1 where t: "transition pf sg prev RolledBack (s, x) = (q, s1, x1)" by (rule prod_cases3)
  with Nil transition_world [OF t] show ?case by (cases q) (auto simp: and_then_def)
next
  case (Cons c cs)
  obtain q s1 x1 where t: "transition pf sg prev (Compensating (step_name c)) (s, x) = (q, s1, x1)" by (rule prod_cases3)
  note tw = transition_world [OF t]
  obtain g x2 where g: "compensate c ctx x = (g, x2)" by fastforce
  show ?case
  proof (cases q)
    case (Inl err)
    with Cons.prems t tw show ?thesis by (auto simp: and_then_def Let_def intro!: exI [of _ "[]"])
  next
    case q: (Inr u)
    show ?thesis
    proof (cases g)
      case (Inl ce)
      obtain q2 s3 x3 where t2: "transition pf sg (Compensating (step_name c)) (PartialRollback (partial_reason pf (step_name c) ce)) (s1, x2) = (q2, s3, x3)"
        by (rule prod_cases3)
      from Cons.prems t tw q g Inl t2 transition_world [OF t2] show ?thesis
        by (cases q2) (auto simp: and_then_def result_of_def on_world_def Let_def intro!: exI [of _ "[c]"])
    next
      case (Inr u2)
      with Cons.prems t tw q g have "rollback_loop pf sg ctx n e (Compensating (step_name c)) cs (s1, x2) = (r, s', x')"
        by (auto simp: and_then_def result_of_def on_world_def Let_def)
      from Cons.IH [OF this] obtain bs tried f where "prefix bs cs" "run_back ctx bs x2 = (tried, f, x')"
        "case r of Inl err \<Rightarrow> \<exists>se. err = Store se | Inr _ \<Rightarrow> True" by blast
      then have "prefix (c # bs) (c # cs)" "run_back ctx (c # bs) x = (step_name c # tried, f, x')" using g Inr by simp_all
      with \<open>case r of Inl err \<Rightarrow> \<exists>se. err = Store se | Inr _ \<Rightarrow> True\<close> show ?thesis by blast
    qed
  qed
qed

lemma execute_loop_stops:
  "execute_loop pf sg ctx prev completed steps (s, x) = (r, s', x') \<Longrightarrow>
     ((\<exists>cs rest. steps = cs @ rest \<and> run_forward ctx cs x = (cs, None, x')) \<or>
      (\<exists>cs n e1 x1 bs tried f. run_forward ctx steps x = (cs, Some (n, e1), x1) \<and> prefix bs (rev (completed @ cs)) \<and> run_back ctx bs x1 = (tried, f, x'))) \<and>
     (case r of Inl err \<Rightarrow> \<exists>se. err = Store se | Inr _ \<Rightarrow> True)"
proof (induction steps arbitrary: prev completed s x)
  case Nil
  obtain q s1 x1 where t: "transition pf sg prev Committed (s, x) = (q, s1, x1)" by (rule prod_cases3)
  with Nil transition_world [OF t] show ?case by (cases q) (auto simp: and_then_def)
next
  case (Cons c cs)
  obtain q s1 x1 where t: "transition pf sg prev (Running (step_name c)) (s, x) = (q, s1, x1)" by (rule prod_cases3)
  note tw = transition_world [OF t]
  obtain g x2 where g: "forward c ctx x = (g, x2)" by fastforce
  show ?case
  proof (cases q)
    case (Inl err)
    with Cons.prems t tw have "x' = x" "case r of Inl err \<Rightarrow> \<exists>se. err = Store se | Inr _ \<Rightarrow> True" by (auto simp: and_then_def Let_def)
    moreover have "c # cs = [] @ (c # cs)" "run_forward ctx [] x = ([], None, x)" by simp_all
    ultimately show ?thesis by metis
  next
    case q: (Inr u)
    show ?thesis
    proof (cases g)
      case (Inl e1)
      with Cons.prems t tw q g have "rollback_loop pf sg ctx (step_name c) e1 (Running (step_name c)) (rev completed) (s1, x2) = (r, s', x')"
        by (auto simp: and_then_def result_of_def on_world_def Let_def rollback_def)
      from rollback_loop_stops [OF this] obtain bs tried f where "prefix bs (rev (completed @ []))" "run_back ctx bs x2 = (tried, f, x')"
        "case r of Inl err \<Rightarrow> \<exists>se. err = Store se | Inr _ \<Rightarrow> True" by auto
      moreover have "run_forward ctx (c # cs) x = ([], Some (step_name c, e1), x2)" using g Inl by simp
      ultimately show ?thesis by blast
    next
      case (Inr u2)
      with Cons.prems t tw q g have "execute_loop pf sg ctx (Running (step_name c)) (completed @ [c]) cs (s1, x2) = (r, s', x')"
        by (auto simp: and_then_def result_of_def on_world_def Let_def)
      note ih = Cons.IH [OF this]
      have fw: "run_forward ctx (c # ds) x = (case run_forward ctx ds x2 of (d, f, x'') \<Rightarrow> (c # d, f, x''))" for ds using g Inr by simp
      from ih show ?thesis
      proof (elim conjE disjE exE)
        fix ds rest assume "cs = ds @ rest" "run_forward ctx ds x2 = (ds, None, x')" and r: "case r of Inl err \<Rightarrow> \<exists>se. err = Store se | Inr _ \<Rightarrow> True"
        then have "c # cs = (c # ds) @ rest" "run_forward ctx (c # ds) x = (c # ds, None, x')" by (simp_all only: fw, simp_all)
        with r show ?thesis by blast
      next
        fix ds n e1 y bs tried f assume "run_forward ctx cs x2 = (ds, Some (n, e1), y)" "prefix bs (rev ((completed @ [c]) @ ds))" "run_back ctx bs y = (tried, f, x')"
          and r: "case r of Inl err \<Rightarrow> \<exists>se. err = Store se | Inr _ \<Rightarrow> True"
        then have "run_forward ctx (c # cs) x = (c # ds, Some (n, e1), y)" "prefix bs (rev (completed @ c # ds))" by (simp_all only: fw, simp_all)
        with r \<open>run_back ctx bs y = (tried, f, x')\<close> show ?thesis by blast
      qed
    qed
  qed
qed

text \<open>
  C27: The limit of that guarantee, over any store. A run fails only with an error of the store, and then it
  stops where it is: the world is what a prefix of the steps left by running forward, none of them compensated,
  or, when a step failed, what a prefix of the compensations left after it. So a deploy of which no step
  failed is left neither committed nor rolled back.
\<close>

theorem store_error_skips_compensation:
  assumes "run_with_state pf sg (s, x) = (Inl err, s', x')"
  shows "(\<exists>se. err = Store se) \<and>
    ((\<exists>cs rest. sg_steps sg = cs @ rest \<and> run_forward \<lparr>sc_key = sg_key sg\<rparr> cs x = (cs, None, x')) \<or>
     (\<exists>cs n e1 x1 bs tried f. run_forward \<lparr>sc_key = sg_key sg\<rparr> (sg_steps sg) x = (cs, Some (n, e1), x1) \<and>
        prefix bs (rev cs) \<and> run_back \<lparr>sc_key = sg_key sg\<rparr> bs x1 = (tried, f, x')))"
proof (cases "acquire_lock (sg_store sg) (sg_key sg) s")
  case (Pair q s1)
  show ?thesis
  proof (cases q)
    case (Inl e)
    with assms Pair have "err = Store e" "x' = x" by (auto simp: run_with_state_run)
    moreover have "sg_steps sg = [] @ sg_steps sg" "run_forward \<lparr>sc_key = sg_key sg\<rparr> [] x = ([], None, x)" by simp_all
    ultimately show ?thesis by metis
  next
    case (Inr g)
    obtain r s2 x2 where ex: "execute pf sg (s1, x) = (r, s2, x2)" by (rule prod_cases3)
    have "x' = x2" "err = err \<and> (r = Inl err \<or> (\<exists>se. err = Store se))"
      using assms Pair Inr ex by (auto simp: run_with_state_run split: prod.splits sum.splits if_splits)
    with execute_loop_stops [OF ex [unfolded execute_def]] show ?thesis by auto
  qed
qed

theorem store_error_skips_compensation_witness:
  "\<exists>s' x' cs rest. run_with_state demo_pf \<lparr>sg_store = commit_fails, sg_key = key_new ''app'' ''prod'', sg_steps = [demo_step ''migrate'']\<rparr> (memory_new, []) =
      (Inl (Store (Io ''disk full'')), s', x') \<and> x' = [''migrate''] \<and>
    [demo_step ''migrate''] = cs @ rest \<and> run_forward \<lparr>sc_key = key_new ''app'' ''prod''\<rparr> cs [] = (cs, None, x')"
proof -
  let ?sg = "\<lparr>sg_store = commit_fails, sg_key = key_new ''app'' ''prod'', sg_steps = [demo_step ''migrate'']\<rparr>"
  obtain s' where run: "run_with_state demo_pf ?sg (memory_new, []) = (Inl (Store (Io ''disk full'')), s', [''migrate''])"
    by (simp add: run_with_state_run execute_def transition_def demo_step_def commit_fails_def memory_defs
      on_store_def on_world_def result_of_def and_then_def Let_def memory_new_def push_entry_def
      deployment_state_new_def lease_def remember_key_def)
  have "run_forward \<lparr>sc_key = sg_key ?sg\<rparr> (sg_steps ?sg) [] = ([demo_step ''migrate''], None, [''migrate''])"
    by (simp add: demo_step_def)
  with store_error_skips_compensation [OF run] run show ?thesis by auto
qed

end
