(* ===== verification/Files.thy ===== *)
theory Files
  imports Rust_Strings "HOL-Library.AList"
begin

text \<open>
  A directory as the operating system shows it to the components that keep files: each call is one
  transition of the directory and may fail. Shared by the filesystem state store and the backup
  archives; nothing here models a file of the repository by itself.
\<close>

section \<open>The directory\<close>

text \<open>
  The files with their contents, the files an exclusive \<open>flock\<close> is held on, and what happens to the
  next calls: \<open>Some m\<close> fails with \<open>m\<close>, \<open>None\<close> succeeds, and after the plan every call succeeds.
\<close>

record dir =
  dir_files :: "(string \<times> string) list"
  dir_flocks :: "string set"
  dir_faults :: "string option list"

definition syscall :: "(dir \<Rightarrow> 'a \<times> dir) \<Rightarrow> (dir, string, 'a) eff" where
  "syscall f s =
     (case dir_faults s of
        Some m # plan \<Rightarrow> (Inl m, s\<lparr>dir_faults := plan\<rparr>)
      | None # plan \<Rightarrow> (case f (s\<lparr>dir_faults := plan\<rparr>) of (a, s') \<Rightarrow> (Inr a, s'))
      | [] \<Rightarrow> (case f s of (a, s') \<Rightarrow> (Inr a, s')))"

definition contents :: "dir \<Rightarrow> string \<Rightarrow> string option" where
  "contents s name = map_of (dir_files s) name"

definition put_file :: "string \<Rightarrow> string \<Rightarrow> dir \<Rightarrow> dir" where
  "put_file name content s = s\<lparr>dir_files := AList.update name content (dir_files s)\<rparr>"

definition del_file :: "string \<Rightarrow> dir \<Rightarrow> dir" where
  "del_file name s = s\<lparr>dir_files := AList.delete name (dir_files s)\<rparr>"

text \<open>\<open>fs::write\<close> opens (creating or truncating), then writes; \<open>rename\<close> replaces its target in one call.\<close>

definition fs_write :: "string \<Rightarrow> string \<Rightarrow> (dir, string, unit) eff" where
  "fs_write name content =
     and_then (syscall (\<lambda>s. ((), put_file name [] s))) (\<lambda>_. syscall (\<lambda>s. ((), put_file name content s)))"

definition fs_rename :: "string \<Rightarrow> string \<Rightarrow> (dir, string, unit) eff" where
  "fs_rename a b =
     and_then (syscall (\<lambda>s. case contents s a of Some content \<Rightarrow> (True, put_file b content (del_file a s)) | None \<Rightarrow> (False, s)))
     (\<lambda>found. if found then ok () else fail ''No such file or directory'')"

definition fs_read :: "string \<Rightarrow> (dir, string, string option) eff" where
  "fs_read name = syscall (\<lambda>s. (contents s name, s))"

text \<open>\<open>Path::exists\<close>: false also when the call fails.\<close>

definition fs_exists :: "string \<Rightarrow> (dir, 'e, bool) eff" where
  "fs_exists name = and_then (result_of (fs_read name)) (\<lambda>r. ok (case r of Inr (Some _) \<Rightarrow> True | _ \<Rightarrow> False))"

text \<open>\<open>writeln!\<close> on an unbuffered file makes one write for the line and one for the line feed.\<close>

definition fs_append_line :: "string \<Rightarrow> string \<Rightarrow> (dir, string, unit) eff" where
  "fs_append_line name line =
     (let append_bytes = (\<lambda>content s. ((), put_file name ((case contents s name of Some c \<Rightarrow> c | None \<Rightarrow> []) @ content) s)) in
      and_then (syscall (append_bytes [])) (\<lambda>_.
      and_then (syscall (append_bytes line)) (\<lambda>_.
      syscall (append_bytes [newline]))))"

section \<open>Calls that succeed\<close>

lemma syscall_ok: "dir_faults s = [] \<Longrightarrow> syscall f s = (case f s of (a, s') \<Rightarrow> (Inr a, s'))"
  by (simp add: syscall_def)

lemma contents_simps [simp]:
  "contents (put_file n t s) = (contents s)(n \<mapsto> t)" "contents (del_file n s) = (contents s)(n := None)"
  "dir_faults (put_file n t s) = dir_faults s" "dir_faults (del_file n s) = dir_faults s"
  "dir_flocks (put_file n t s) = dir_flocks s" "dir_flocks (del_file n s) = dir_flocks s"
  "contents (dir_flocks_update f s) = contents s"
  by (simp_all add: contents_def put_file_def del_file_def update_conv' delete_conv' fun_eq_iff)

text \<open>What matters of a directory: contents and flocks, no faults ahead.\<close>

definition healthy_dir :: "(string \<rightharpoonup> string) \<Rightarrow> string set \<Rightarrow> dir \<Rightarrow> bool" where
  "healthy_dir m locks s \<longleftrightarrow> contents s = m \<and> dir_flocks s = locks \<and> dir_faults s = []"

lemma healthy_dirE:
  assumes "dir_faults s = []"
  shows "healthy_dir (contents s) (dir_flocks s) s"
  using assms by (simp add: healthy_dir_def)

lemma fs_read_ok: "healthy_dir m locks s \<Longrightarrow> fs_read n s = (Inr (m n), s)"
  by (simp add: fs_read_def syscall_ok healthy_dir_def)

lemma fs_exists_ok: "healthy_dir m locks s \<Longrightarrow> fs_exists n s = (Inr (m n \<noteq> None), s)"
  by (auto simp: fs_exists_def fs_read_ok result_of_def and_then_def split: option.split)

lemma fs_exists_peek: "\<exists>b s'. fs_exists n s = (Inr b, s') \<and> contents s' = contents s"
  by (auto simp: fs_exists_def fs_read_def syscall_def result_of_def and_then_def contents_def split: list.splits option.splits)

lemma fs_append_line_ok:
  assumes "healthy_dir m locks s"
  obtains s' where "fs_append_line n line s = (Inr (), s')"
    "healthy_dir (m(n \<mapsto> (case m n of Some c \<Rightarrow> c | None \<Rightarrow> []) @ line @ [newline])) locks s'"
  using assms that by (auto simp: fs_append_line_def syscall_ok healthy_dir_def Let_def and_then_def)

end
