(* ===== verification/State_Store_Files.thy ===== *)
theory State_Store_Files
  imports Saga Files "HOL-Library.Countable"
begin

text \<open>
  The filesystem backend of the state store (\<open>fraisier-saga/src/state_store.rs\<close>): JSON-lines logs,
  a snapshot and a key file per slug in one directory, and \<open>flock\<close> on a lock file. The directory is
  modelled call by call, and any call to the operating system may fail (the fault plan); without
  faults the backend keeps the same contract as the in-memory one, so everything proved of the
  saga driver holds over it. The JSON encoders are parameters.
\<close>

section \<open>The backend\<close>

text \<open>\<open>serde_json\<close> to and from text, per stored type.\<close>

record 'j json_codecs =
  jc_state :: "(deployment_state, string) codec"
  jc_event :: "(saga_event, string) codec"
  jc_snapshot :: "('j, string) codec"
  jc_key :: "(fraise_key, string) codec"

definition encode :: "('r, string) codec \<Rightarrow> 'r \<Rightarrow> (dir, store_error, string) eff" where
  "encode c r = map_err Serde (from_result (to_value c r))"

definition decode :: "('r, string) codec \<Rightarrow> string \<Rightarrow> store_error + 'r" where
  "decode c t = (case from_value c t of Inl m \<Rightarrow> Inl (Serde m) | Inr r \<Rightarrow> Inr r)"

definition lock_path :: "hasher \<Rightarrow> fraise_key \<Rightarrow> string" where "lock_path h k = slug h k @ ''.lock''"
definition state_path :: "hasher \<Rightarrow> fraise_key \<Rightarrow> string" where "state_path h k = slug h k @ ''.state.jsonl''"
definition events_path :: "hasher \<Rightarrow> fraise_key \<Rightarrow> string" where "events_path h k = slug h k @ ''.events.jsonl''"
definition snapshot_path :: "hasher \<Rightarrow> fraise_key \<Rightarrow> string" where "snapshot_path h k = slug h k @ ''.snapshot.json''"
definition key_path :: "hasher \<Rightarrow> fraise_key \<Rightarrow> string" where "key_path h k = slug h k @ ''.key.json''"

text \<open>\<open>Path::with_extension\<close> of a file name: what follows the last dot is replaced (a leading dot starts no extension).\<close>

definition with_extension :: "string \<Rightarrow> string \<Rightarrow> string" where
  "with_extension name ext =
     (case rposition (\<lambda>c. c = CHR ''.'') name of
        Some i \<Rightarrow> (if i = 0 then name else take i name) @ ''.'' @ ext
      | None \<Rightarrow> name @ ''.'' @ ext)"

definition write_json_atomic :: "('r, string) codec \<Rightarrow> string \<Rightarrow> 'r \<Rightarrow> (dir, store_error, unit) eff" where
  "write_json_atomic c path v =
     and_then (encode c v) (\<lambda>content.
     let tmp = with_extension path ''json.tmp'' in
     and_then (map_err Io (fs_write tmp content)) (\<lambda>_. map_err Io (fs_rename tmp path)))"

definition ensure_key_recorded :: "'j json_codecs \<Rightarrow> hasher \<Rightarrow> fraise_key \<Rightarrow> (dir, store_error, unit) eff" where
  "ensure_key_recorded c h k =
     and_then (fs_exists (key_path h k)) (\<lambda>e. if \<not> e then write_json_atomic (jc_key c) (key_path h k) k else ok ())"

definition parse_jsonl :: "('r, string) codec \<Rightarrow> string \<Rightarrow> store_error + 'r list" where
  "parse_jsonl c content = collect_results (map (decode c) (filter (\<lambda>l. \<not> blank l) (lines content)))"

definition read_jsonl :: "('r, string) codec \<Rightarrow> string \<Rightarrow> (dir, store_error, 'r list) eff" where
  "read_jsonl c path =
     and_then (map_err Io (fs_read path)) (\<lambda>content.
     case content of Some text \<Rightarrow> from_result (parse_jsonl c text) | None \<Rightarrow> ok [])"

definition append_jsonl :: "('r, string) codec \<Rightarrow> string \<Rightarrow> 'r \<Rightarrow> (dir, store_error, unit) eff" where
  "append_jsonl c path v = and_then (encode c v) (\<lambda>line. map_err Io (fs_append_line path line))"

text \<open>The lock: opening creates the file; the \<open>flock\<close> call is refused while another holder has it.\<close>

definition fs_acquire_lock :: "hasher \<Rightarrow> fraise_key \<Rightarrow> (dir, store_error, lock_guard) eff" where
  "fs_acquire_lock h k =
     (let path = lock_path h k in
      and_then (map_err Io (syscall (\<lambda>s. ((), case contents s path of Some _ \<Rightarrow> s | None \<Rightarrow> put_file path [] s)))) (\<lambda>_.
      and_then (map_err (\<lambda>errno. Backend (''flock failed: '' @ errno))
          (syscall (\<lambda>s. if path \<in> dir_flocks s then (False, s) else (True, s\<lparr>dir_flocks := insert path (dir_flocks s)\<rparr>)))) (\<lambda>locked.
      if locked then ok \<lparr>guard_key = k, guard_flock = Some path\<rparr> else fail (Locked (show_key k)))))"

definition fs_release_lock :: "lock_guard \<Rightarrow> (dir, store_error, unit) eff" where
  "fs_release_lock g =
     (case guard_flock g of
        Some path \<Rightarrow> map_err (\<lambda>errno. Backend (''flock unlock failed: '' @ errno))
          (syscall (\<lambda>s. ((), s\<lparr>dir_flocks := dir_flocks s - {path}\<rparr>)))
      | None \<Rightarrow> ok ())"

definition fs_record_state :: "'j json_codecs \<Rightarrow> hasher \<Rightarrow> fraise_key \<Rightarrow> deployment_state \<Rightarrow> (dir, store_error, unit) eff" where
  "fs_record_state c h k d = and_then (ensure_key_recorded c h k) (\<lambda>_. append_jsonl (jc_state c) (state_path h k) d)"

definition fs_current_state :: "'j json_codecs \<Rightarrow> hasher \<Rightarrow> fraise_key \<Rightarrow> (dir, store_error, deployment_state option) eff" where
  "fs_current_state c h k = map_ok last_opt (read_jsonl (jc_state c) (state_path h k))"

definition fs_record_event :: "'j json_codecs \<Rightarrow> hasher \<Rightarrow> fraise_key \<Rightarrow> saga_event \<Rightarrow> (dir, store_error, unit) eff" where
  "fs_record_event c h k e = append_jsonl (jc_event c) (events_path h k) e"

definition fs_events :: "'j json_codecs \<Rightarrow> hasher \<Rightarrow> fraise_key \<Rightarrow> (dir, store_error, saga_event list) eff" where
  "fs_events c h k = read_jsonl (jc_event c) (events_path h k)"

definition fs_record_snapshot :: "'j json_codecs \<Rightarrow> hasher \<Rightarrow> fraise_key \<Rightarrow> 'j \<Rightarrow> (dir, store_error, unit) eff" where
  "fs_record_snapshot c h k j =
     and_then (ensure_key_recorded c h k) (\<lambda>_. write_json_atomic (jc_snapshot c) (snapshot_path h k) j)"

definition fs_current_snapshot :: "'j json_codecs \<Rightarrow> hasher \<Rightarrow> fraise_key \<Rightarrow> (dir, store_error, 'j option) eff" where
  "fs_current_snapshot c h k =
     and_then (map_err Io (fs_read (snapshot_path h k))) (\<lambda>content.
     case content of
       Some content \<Rightarrow> and_then (from_result (decode (jc_snapshot c) content)) (\<lambda>j. ok (Some j))
     | None \<Rightarrow> ok None)"

text \<open>The loop over the directory's entries (their order is unspecified; here the order of creation).\<close>

fun read_keys :: "'j json_codecs \<Rightarrow> string list \<Rightarrow> (dir, store_error, fraise_key list) eff" where
  "read_keys c [] = ok []"
| "read_keys c (name # names) =
     (if suffix ''.key.json'' name then
        and_then (map_err Io (fs_read name)) (\<lambda>content.
        and_then (from_result (case content of Some t \<Rightarrow> decode (jc_key c) t | None \<Rightarrow> Inl (Io ''not found''))) (\<lambda>k.
        and_then (read_keys c names) (\<lambda>ks. ok (k # ks))))
      else read_keys c names)"

definition fs_keys :: "'j json_codecs \<Rightarrow> (dir, store_error, fraise_key list) eff" where
  "fs_keys c = and_then (map_err Io (syscall (\<lambda>s. (map fst (dir_files s), s)))) (read_keys c)"

definition filesystem_store :: "'j json_codecs \<Rightarrow> hasher \<Rightarrow> (dir, 'j) state_store" where
  "filesystem_store c h =
     \<lparr>acquire_lock = fs_acquire_lock h, release_lock = fs_release_lock,
      record_state = fs_record_state c h, current_state = fs_current_state c h,
      record_event = fs_record_event c h, store_events = fs_events c h,
      record_snapshot = fs_record_snapshot c h, current_snapshot = fs_current_snapshot c h,
      store_keys = fs_keys c\<rparr>"

section \<open>The contract\<close>

subsection \<open>Calls without faults\<close>

lemma fs_write_rename_ok:
  assumes "healthy_dir m locks s" and "tmp \<noteq> n" and "m tmp = None"
  obtains s' where "and_then (map_err Io (fs_write tmp content)) (\<lambda>_. map_err Io (fs_rename tmp n)) s = (Inr (), s')"
    "healthy_dir (m(n \<mapsto> content)) locks s'"
proof -
  let ?s' = "put_file n content (del_file tmp (put_file tmp content (put_file tmp [] s)))"
  have "and_then (map_err Io (fs_write tmp content)) (\<lambda>_. map_err Io (fs_rename tmp n)) s = (Inr (), ?s')"
    using assms(1) by (simp add: fs_write_def fs_rename_def syscall_ok healthy_dir_def and_then_def map_err_def)
  moreover have "healthy_dir (m(n \<mapsto> content)) locks ?s'"
    using assms by (auto simp: healthy_dir_def fun_eq_iff)
  ultimately show ?thesis using that by blast
qed

subsection \<open>Names\<close>

lemma with_extension_json: "with_extension (a @ ''.json'') ''json.tmp'' = a @ ''.json.tmp''" if "a \<noteq> []"
proof -
  have "rposition (\<lambda>c. c = CHR ''.'') (a @ ''.json'') = Some (length a)"
    by (simp add: rposition_append)
  then show ?thesis using that by (simp add: with_extension_def)
qed

lemma append_neq: "rev u @ rev a \<noteq> rev v @ rev b \<Longrightarrow> a @ u \<noteq> b @ v"
  by (metis rev_append)

lemma path_neq [simp]:
  "a @ ''.state.jsonl'' \<noteq> b @ ''.events.jsonl''" "a @ ''.state.jsonl'' \<noteq> b @ ''.snapshot.json''" "a @ ''.state.jsonl'' \<noteq> b @ ''.key.json''"
  "a @ ''.state.jsonl'' \<noteq> b @ ''.lock''" "a @ ''.events.jsonl'' \<noteq> b @ ''.snapshot.json''" "a @ ''.events.jsonl'' \<noteq> b @ ''.key.json''"
  "a @ ''.events.jsonl'' \<noteq> b @ ''.lock''" "a @ ''.snapshot.json'' \<noteq> b @ ''.key.json''" "a @ ''.snapshot.json'' \<noteq> b @ ''.lock''"
  "a @ ''.key.json'' \<noteq> b @ ''.lock''"
  "a @ ''.state.jsonl'' \<noteq> b @ ''.json.tmp''" "a @ ''.events.jsonl'' \<noteq> b @ ''.json.tmp''" "a @ ''.snapshot.json'' \<noteq> b @ ''.json.tmp''"
  "a @ ''.key.json'' \<noteq> b @ ''.json.tmp''" "a @ ''.lock'' \<noteq> b @ ''.json.tmp''"
  by (rule append_neq, simp)+

lemmas path_neq_sym [simp] = path_neq [symmetric]

lemma tmp_paths:
  "\<exists>b. with_extension (snapshot_path h k) ''json.tmp'' = b @ ''.json.tmp''"
  "\<exists>b. with_extension (key_path h k) ''json.tmp'' = b @ ''.json.tmp''"
  using with_extension_json [of "slug h k @ ''.snapshot''"] with_extension_json [of "slug h k @ ''.key''"]
  by (simp_all add: snapshot_path_def key_path_def)

subsection \<open>Logs\<close>

definition line_codec_ok :: "('r, string) codec \<Rightarrow> bool" where
  "line_codec_ok c \<longleftrightarrow> (\<forall>r. \<exists>v. to_value c r = Inr v \<and> from_value c v = Inr r \<and>
     newline \<notin> set v \<and> CHR 0x0D \<notin> set v \<and> visible_start v)"

definition codecs_ok :: "'j json_codecs \<Rightarrow> bool" where
  "codecs_ok c \<longleftrightarrow> line_codec_ok (jc_state c) \<and> line_codec_ok (jc_event c) \<and> codec_ok (jc_snapshot c) \<and> codec_ok (jc_key c)"

definition text_of :: "('r, string) codec \<Rightarrow> 'r \<Rightarrow> string" where
  "text_of c r = (case to_value c r of Inr v \<Rightarrow> v | Inl _ \<Rightarrow> [])"

definition log_text :: "('r, string) codec \<Rightarrow> 'r list \<Rightarrow> string" where
  "log_text c rs = concat (map (\<lambda>r. text_of c r @ [newline]) rs)"

lemma text_of_ok:
  assumes "line_codec_ok c"
  shows "to_value c r = Inr (text_of c r)" "from_value c (text_of c r) = Inr r" "newline \<notin> set (text_of c r)"
    "CHR 0x0D \<notin> set (text_of c r)" "visible_start (text_of c r)"
  using assms unfolding line_codec_ok_def text_of_def by (auto dest!: spec [of _ r])

lemma lines_log: "line_codec_ok c \<Longrightarrow> lines (log_text c rs) = map (text_of c) rs"
  by (induction rs) (simp_all add: log_text_def lines_Cons text_of_ok lines.simps [of "[]"])

lemma parse_log: "line_codec_ok c \<Longrightarrow> parse_jsonl c (log_text c rs) = Inr rs"
proof -
  assume c: "line_codec_ok c"
  have "filter (\<lambda>l. \<not> blank l) (map (text_of c) rs) = map (text_of c) rs"
    using text_of_ok(5) [OF c] visible_not_blank by (auto simp: filter_id_conv)
  moreover have "collect_results (map (\<lambda>r. decode c (text_of c r)) rs) = Inr rs"
    by (induction rs) (simp_all add: decode_def text_of_ok [OF c])
  ultimately show ?thesis by (simp add: parse_jsonl_def lines_log [OF c] comp_def)
qed

definition log_of :: "('r, string) codec \<Rightarrow> string option \<Rightarrow> 'r list" where
  "log_of c content = (case content of None \<Rightarrow> [] | Some t \<Rightarrow> (case parse_jsonl c t of Inr rs \<Rightarrow> rs | Inl _ \<Rightarrow> []))"

definition log_ok :: "('r, string) codec \<Rightarrow> string option \<Rightarrow> bool" where
  "log_ok c content \<longleftrightarrow> content = None \<or> (\<exists>rs. content = Some (log_text c rs))"

lemma log_append:
  fixes r
  assumes "line_codec_ok c" and "log_ok c content"
  defines "t \<equiv> (case content of Some t \<Rightarrow> t | None \<Rightarrow> []) @ text_of c r @ [newline]"
  shows "log_ok c (Some t)" "log_of c (Some t) = log_of c content @ [r]"
proof -
  obtain rs where rs: "log_of c content = rs" "t = log_text c (rs @ [r])"
  proof (cases content)
    case None
    then show ?thesis by (intro that [of "[]"]) (simp_all add: log_of_def t_def log_text_def)
  next
    case (Some u)
    then obtain rs where rs: "u = log_text c rs" using assms(2) by (auto simp: log_ok_def)
    with Some show ?thesis by (intro that [of rs]) (simp_all add: log_of_def t_def parse_log [OF assms(1)], simp add: log_text_def)
  qed
  then show "log_ok c (Some t)" "log_of c (Some t) = log_of c content @ [r]"
    by (auto simp: log_ok_def log_of_def parse_log [OF assms(1)])
qed

lemma read_jsonl_ok:
  assumes "line_codec_ok c" and "healthy_dir m locks s" and "log_ok c (m n)"
  shows "read_jsonl c n s = (Inr (log_of c (m n)), s)"
  using assms by (auto simp: read_jsonl_def fs_read_ok [OF assms(2)] and_then_def map_err_def log_ok_def log_of_def parse_log)

lemma append_jsonl_ok:
  assumes "line_codec_ok c" and "healthy_dir m locks s"
  obtains s' where "append_jsonl c n r s = (Inr (), s')"
    "healthy_dir (m(n \<mapsto> (case m n of Some t \<Rightarrow> t | None \<Rightarrow> []) @ text_of c r @ [newline])) locks s'"
proof -
  obtain s' where "fs_append_line n (text_of c r) s = (Inr (), s')"
    "healthy_dir (m(n \<mapsto> (case m n of Some t \<Rightarrow> t | None \<Rightarrow> []) @ text_of c r @ [newline])) locks s'"
    by (rule fs_append_line_ok [OF assms(2)])
  then show ?thesis using that by (simp add: append_jsonl_def encode_def and_then_def map_err_def text_of_ok [OF assms(1)])
qed

subsection \<open>Keys and snapshots\<close>

text \<open>
  The invariant of a directory nobody else writes to: no fault ahead, logs that are whole lines,
  readable snapshots, no temporary file left, and a readable key file for every slug with a state
  or a snapshot.
\<close>

definition key_ok :: "'j json_codecs \<Rightarrow> hasher \<Rightarrow> (string \<rightharpoonup> string) \<Rightarrow> string \<Rightarrow> bool" where
  "key_ok c h m a \<longleftrightarrow> (\<exists>k t. m (a @ ''.key.json'') = Some t \<and> from_value (jc_key c) t = Inr k \<and> slug h k = a)"

definition fs_ok :: "'j json_codecs \<Rightarrow> hasher \<Rightarrow> (string \<rightharpoonup> string) \<Rightarrow> bool" where
  "fs_ok c h m \<longleftrightarrow> codecs_ok c \<and>
     (\<forall>a. log_ok (jc_state c) (m (a @ ''.state.jsonl'')) \<and> log_ok (jc_event c) (m (a @ ''.events.jsonl'')) \<and>
        (\<forall>t. m (a @ ''.snapshot.json'') = Some t \<longrightarrow> (\<exists>j. from_value (jc_snapshot c) t = Inr j)) \<and>
        m (a @ ''.json.tmp'') = None \<and> (m (a @ ''.key.json'') \<noteq> None \<longrightarrow> key_ok c h m a) \<and>
        (m (a @ ''.state.jsonl'') \<noteq> None \<or> m (a @ ''.snapshot.json'') \<noteq> None \<longrightarrow> key_ok c h m a))"

definition fs_valid :: "'j json_codecs \<Rightarrow> hasher \<Rightarrow> dir \<Rightarrow> bool" where
  "fs_valid c h s \<longleftrightarrow> dir_faults s = [] \<and> fs_ok c h (contents s)"

definition fs_view :: "'j json_codecs \<Rightarrow> dir \<Rightarrow> (string, 'j) store_view" where
  "fs_view c s =
     \<lparr>sv_locked = (\<lambda>a. a @ ''.lock'' \<in> dir_flocks s),
      sv_states = (\<lambda>a. log_of (jc_state c) (contents s (a @ ''.state.jsonl''))),
      sv_events = (\<lambda>a. log_of (jc_event c) (contents s (a @ ''.events.jsonl''))),
      sv_snapshot = (\<lambda>a. case contents s (a @ ''.snapshot.json'') of None \<Rightarrow> None
         | Some t \<Rightarrow> (case from_value (jc_snapshot c) t of Inr j \<Rightarrow> Some j | Inl _ \<Rightarrow> None))\<rparr>"

lemma fs_validD: "fs_valid c h s \<Longrightarrow> healthy_dir (contents s) (dir_flocks s) s \<and> codecs_ok c"
  by (simp add: fs_valid_def fs_ok_def healthy_dir_def)

lemma healthy_valid: "healthy_dir m locks s \<Longrightarrow> fs_ok c h m \<Longrightarrow> fs_valid c h s"
  by (simp add: fs_valid_def healthy_dir_def)

lemma write_json_atomic_ok:
  assumes "codec_ok c" and "healthy_dir m locks s" and "with_extension n ''json.tmp'' = b @ ''.json.tmp''" and "m (b @ ''.json.tmp'') = None"
    and "\<And>b. n \<noteq> b @ ''.json.tmp''"
  obtains s' t where "write_json_atomic c n r s = (Inr (), s')" "from_value c t = Inr r" "healthy_dir (m(n \<mapsto> t)) locks s'"
proof -
  obtain t where t: "to_value c r = Inr t" "from_value c t = Inr r" using assms(1) unfolding codec_ok_def by blast
  obtain s' where "and_then (map_err Io (fs_write (b @ ''.json.tmp'') t)) (\<lambda>_. map_err Io (fs_rename (b @ ''.json.tmp'') n)) s = (Inr (), s')"
    "healthy_dir (m(n \<mapsto> t)) locks s'"
    by (rule fs_write_rename_ok [OF assms(2) assms(5) [symmetric] assms(4)])
  then show ?thesis using that t assms(3) by (simp add: write_json_atomic_def encode_def Let_def)
qed

lemma ensure_key_ok:
  assumes "fs_ok c h m" and "healthy_dir m locks s"
  obtains s' m' where "ensure_key_recorded c h k s = (Inr (), s')" "healthy_dir m' locks s'" "fs_ok c h m'" "key_ok c h m' (slug h k)"
    "\<And>n. n \<noteq> slug h k @ ''.key.json'' \<Longrightarrow> m' n = m n"
proof (cases "m (slug h k @ ''.key.json'') = None")
  case False
  then have "ensure_key_recorded c h k s = (Inr (), s)"
    by (simp add: ensure_key_recorded_def and_then_def fs_exists_ok [OF assms(2)] key_path_def)
  moreover have "key_ok c h m (slug h k)" using assms(1) False by (simp add: fs_ok_def)
  ultimately show ?thesis using that [of s m] assms by simp
next
  case True
  obtain b where b: "with_extension (key_path h k) ''json.tmp'' = b @ ''.json.tmp''" using tmp_paths by blast
  have c: "codec_ok (jc_key c)" "m (b @ ''.json.tmp'') = None" using assms(1) by (simp_all add: fs_ok_def codecs_ok_def)
  obtain s' t where w: "write_json_atomic (jc_key c) (key_path h k) k s = (Inr (), s')" "from_value (jc_key c) t = Inr k"
    "healthy_dir (m(key_path h k \<mapsto> t)) locks s'"
    by (rule write_json_atomic_ok [OF c(1) assms(2) b c(2)]) (simp add: key_path_def)
  let ?m = "m(key_path h k \<mapsto> t)"
  have key: "key_ok c h ?m (slug h k)" using w(2) by (auto simp: key_ok_def key_path_def)
  have "fs_ok c h ?m"
    using assms(1) key unfolding fs_ok_def key_ok_def key_path_def by simp
  moreover have "ensure_key_recorded c h k s = (Inr (), s')"
    using True w(1) by (simp add: ensure_key_recorded_def and_then_def fs_exists_ok [OF assms(2)] key_path_def)
  ultimately show ?thesis using that [of s' ?m] w(3) key by (simp add: key_path_def)
qed

subsection \<open>Each write\<close>

lemma view_eqI:
  assumes "healthy_dir m locks s'" and "locks = dir_flocks s"
    and "\<And>a. m (a @ ''.state.jsonl'') = contents s (a @ ''.state.jsonl'')" "\<And>a. m (a @ ''.events.jsonl'') = contents s (a @ ''.events.jsonl'')"
      "\<And>a. m (a @ ''.snapshot.json'') = contents s (a @ ''.snapshot.json'')"
  shows "fs_view c s' = fs_view c s"
  using assms by (simp add: fs_view_def healthy_dir_def)

lemma fs_ok_state:
  assumes "fs_ok c h m" and "log_ok (jc_state c) (Some t)" and "key_ok c h m a"
  shows "fs_ok c h (m(a @ ''.state.jsonl'' \<mapsto> t))"
  using assms by (simp add: fs_ok_def key_ok_def)

lemma fs_ok_event:
  assumes "fs_ok c h m" and "log_ok (jc_event c) (Some t)"
  shows "fs_ok c h (m(a @ ''.events.jsonl'' \<mapsto> t))"
  using assms by (simp add: fs_ok_def key_ok_def)

lemma fs_ok_snapshot:
  assumes "fs_ok c h m" and "from_value (jc_snapshot c) t = Inr j" and "key_ok c h m a"
  shows "fs_ok c h (m(a @ ''.snapshot.json'' \<mapsto> t))"
  using assms by (simp add: fs_ok_def key_ok_def)

lemma fs_record_state_run:
  assumes "fs_valid c h s"
  obtains s' where "fs_record_state c h k d s = (Inr (), s')" "fs_valid c h s'" "fs_view c s' = add_state (slug h k) d (fs_view c s)"
proof -
  note v = fs_validD [OF assms]
  have ok: "fs_ok c h (contents s)" "line_codec_ok (jc_state c)" using assms v by (simp_all add: fs_valid_def codecs_ok_def)
  obtain s1 m where e: "ensure_key_recorded c h k s = (Inr (), s1)" "healthy_dir m (dir_flocks s) s1" "fs_ok c h m" "key_ok c h m (slug h k)"
    and m: "\<And>n. n \<noteq> slug h k @ ''.key.json'' \<Longrightarrow> m n = contents s n"
    using ensure_key_ok [OF ok(1) conjunct1 [OF v]] by metis
  let ?n = "slug h k @ ''.state.jsonl''"
  obtain s2 where a: "append_jsonl (jc_state c) ?n d s1 = (Inr (), s2)"
    "healthy_dir (m(?n \<mapsto> (case m ?n of Some t \<Rightarrow> t | None \<Rightarrow> []) @ text_of (jc_state c) d @ [newline])) (dir_flocks s) s2"
    by (rule append_jsonl_ok [OF ok(2) e(2)])
  have log: "log_ok (jc_state c) (m ?n)" using e(3) by (simp add: fs_ok_def)
  note ap = log_append [OF ok(2) log, of d]
  have "fs_valid c h s2"
    by (rule healthy_valid [OF a(2)]) (rule fs_ok_state [OF e(3) ap(1) e(4)])
  moreover have "fs_view c s2 = add_state (slug h k) d (fs_view c s)"
    using a(2) ap(2) m by (simp add: fs_view_def healthy_dir_def add_state_def fun_eq_iff)
  moreover have "fs_record_state c h k d s = (Inr (), s2)" using e(1) a(1) by (simp add: fs_record_state_def state_path_def)
  ultimately show ?thesis using that by blast
qed

lemma fs_record_event_run:
  assumes "fs_valid c h s"
  obtains s' where "fs_record_event c h k e s = (Inr (), s')" "fs_valid c h s'" "fs_view c s' = add_event (slug h k) e (fs_view c s)"
proof -
  note v = fs_validD [OF assms]
  have ok: "fs_ok c h (contents s)" "line_codec_ok (jc_event c)" using assms v by (simp_all add: fs_valid_def codecs_ok_def)
  let ?n = "slug h k @ ''.events.jsonl''" and ?m = "contents s"
  obtain s2 where a: "append_jsonl (jc_event c) ?n e s = (Inr (), s2)"
    "healthy_dir (?m(?n \<mapsto> (case ?m ?n of Some t \<Rightarrow> t | None \<Rightarrow> []) @ text_of (jc_event c) e @ [newline])) (dir_flocks s) s2"
    by (rule append_jsonl_ok [OF ok(2) conjunct1 [OF v]])
  have log: "log_ok (jc_event c) (?m ?n)" using ok(1) by (simp add: fs_ok_def)
  note ap = log_append [OF ok(2) log, of e]
  have "fs_valid c h s2"
    by (rule healthy_valid [OF a(2)]) (rule fs_ok_event [OF ok(1) ap(1)])
  moreover have "fs_view c s2 = add_event (slug h k) e (fs_view c s)"
    using a(2) ap(2) by (simp add: fs_view_def healthy_dir_def add_event_def fun_eq_iff)
  ultimately show ?thesis using that a(1) by (simp add: fs_record_event_def events_path_def)
qed

lemma fs_record_snapshot_run:
  assumes "fs_valid c h s"
  obtains s' where "fs_record_snapshot c h k j s = (Inr (), s')" "fs_valid c h s'" "fs_view c s' = set_snapshot (slug h k) j (fs_view c s)"
proof -
  note v = fs_validD [OF assms]
  have ok: "fs_ok c h (contents s)" "codec_ok (jc_snapshot c)" using assms v by (simp_all add: fs_valid_def codecs_ok_def)
  obtain s1 m where e: "ensure_key_recorded c h k s = (Inr (), s1)" "healthy_dir m (dir_flocks s) s1" "fs_ok c h m" "key_ok c h m (slug h k)"
    and m: "\<And>n. n \<noteq> slug h k @ ''.key.json'' \<Longrightarrow> m n = contents s n"
    using ensure_key_ok [OF ok(1) conjunct1 [OF v]] by metis
  let ?n = "slug h k @ ''.snapshot.json''"
  obtain b where b: "with_extension (snapshot_path h k) ''json.tmp'' = b @ ''.json.tmp''" using tmp_paths by blast
  have tmp: "m (b @ ''.json.tmp'') = None" using e(3) by (simp add: fs_ok_def)
  obtain s2 t where w: "write_json_atomic (jc_snapshot c) (snapshot_path h k) j s1 = (Inr (), s2)" "from_value (jc_snapshot c) t = Inr j"
    "healthy_dir (m(snapshot_path h k \<mapsto> t)) (dir_flocks s) s2"
    by (rule write_json_atomic_ok [OF ok(2) e(2) b tmp]) (simp add: snapshot_path_def)
  have "fs_ok c h (m(?n \<mapsto> t))" by (rule fs_ok_snapshot [OF e(3) w(2) e(4)])
  then have "fs_valid c h s2" using healthy_valid [OF w(3)] by (simp add: snapshot_path_def)
  moreover have "fs_view c s2 = set_snapshot (slug h k) j (fs_view c s)"
    using w(2,3) m by (auto simp: fs_view_def healthy_dir_def set_snapshot_def fun_eq_iff snapshot_path_def)
  moreover have "fs_record_snapshot c h k j s = (Inr (), s2)" using e(1) w(1) by (simp add: fs_record_snapshot_def)
  ultimately show ?thesis using that by blast
qed

subsection \<open>The interpretation\<close>

lemma fs_acquire_run:
  assumes "fs_valid c h s"
  shows "fs_acquire_lock h k s =
    (let s1 = (case contents s (lock_path h k) of Some _ \<Rightarrow> s | None \<Rightarrow> put_file (lock_path h k) [] s) in
     if lock_path h k \<in> dir_flocks s then (Inl (Locked (show_key k)), s1)
     else (Inr \<lparr>guard_key = k, guard_flock = Some (lock_path h k)\<rparr>, s1\<lparr>dir_flocks := insert (lock_path h k) (dir_flocks s)\<rparr>))"
  using assms by (auto simp: fs_acquire_lock_def fs_valid_def syscall_ok and_then_def map_err_def Let_def split: option.split)

lemma lock_file_irrelevant:
  assumes "fs_valid c h s"
  shows "fs_valid c h (put_file (lock_path h k) t s)" "fs_view c (put_file (lock_path h k) t s) = fs_view c s"
proof -
  have "fs_ok c h ((contents s)(lock_path h k \<mapsto> t))" using assms by (simp add: fs_valid_def fs_ok_def key_ok_def lock_path_def)
  with assms show "fs_valid c h (put_file (lock_path h k) t s)" by (simp add: fs_valid_def)
  show "fs_view c (put_file (lock_path h k) t s) = fs_view c s" by (simp add: fs_view_def lock_path_def)
qed

lemma flocks_irrelevant: "fs_valid c h (dir_flocks_update f s) = fs_valid c h s"
  by (simp add: fs_valid_def)

lemma fs_reads_run:
  assumes "fs_valid c h s"
  shows "fs_current_state c h k s = (Inr (last_opt (sv_states (fs_view c s) (slug h k))), s)"
    "fs_events c h k s = (Inr (sv_events (fs_view c s) (slug h k)), s)"
    "fs_current_snapshot c h k s = (Inr (sv_snapshot (fs_view c s) (slug h k)), s)"
proof -
  note v = fs_validD [OF assms]
  have ok: "line_codec_ok (jc_state c)" "line_codec_ok (jc_event c)" "log_ok (jc_state c) (contents s (slug h k @ ''.state.jsonl''))"
    "log_ok (jc_event c) (contents s (slug h k @ ''.events.jsonl''))"
    and snap: "\<And>t. contents s (slug h k @ ''.snapshot.json'') = Some t \<Longrightarrow> \<exists>j. from_value (jc_snapshot c) t = Inr j"
    using assms v by (simp_all add: fs_valid_def fs_ok_def codecs_ok_def)
  show "fs_current_state c h k s = (Inr (last_opt (sv_states (fs_view c s) (slug h k))), s)"
    using read_jsonl_ok [OF ok(1) conjunct1 [OF v] ok(3)] by (simp add: fs_current_state_def state_path_def map_ok_def and_then_def fs_view_def)
  show "fs_events c h k s = (Inr (sv_events (fs_view c s) (slug h k)), s)"
    using read_jsonl_ok [OF ok(2) conjunct1 [OF v] ok(4)] by (simp add: fs_events_def events_path_def fs_view_def)
  show "fs_current_snapshot c h k s = (Inr (sv_snapshot (fs_view c s) (slug h k)), s)"
    using snap by (auto simp: fs_current_snapshot_def snapshot_path_def fs_read_ok [OF conjunct1 [OF v]] and_then_def map_err_def decode_def
        fs_view_def split: option.split sum.split)
qed

lemmas fs_store_defs = filesystem_store_def fs_release_lock_def

interpretation fs: reliable_store "filesystem_store c h" "slug h" "fs_view c" "fs_valid c h"
  "\<lambda>g. guard_flock g = Some (lock_path h (guard_key g))" for c :: "'j json_codecs" and h
proof (unfold_locales, goal_cases)
  case (1 s k g s')
  then show ?case
    using lock_file_irrelevant [OF 1(1), of k "[]"]
    by (auto simp: fs_store_defs fs_acquire_run Let_def flocks_irrelevant set_locked_def split: if_splits option.splits)
      (auto simp: fs_view_def lock_path_def fun_eq_iff)
next
  case (2 s k e s')
  then show ?case
    using lock_file_irrelevant [OF 2(1), of k "[]"] by (auto simp: fs_store_defs fs_acquire_run Let_def split: if_splits option.splits)
next
  case (3 s g u s')
  then have "s' = s\<lparr>dir_flocks := dir_flocks s - {lock_path h (guard_key g)}\<rparr>"
    by (simp add: fs_store_defs fs_valid_def syscall_ok map_err_def)
  with 3(1) show ?case by (auto simp: flocks_irrelevant fs_view_def set_locked_def lock_path_def fun_eq_iff)
next
  case (4 s g e s')
  then show ?case by (simp add: fs_store_defs fs_valid_def syscall_ok map_err_def)
next
  case (5 s k d u s')
  then show ?case by (metis fs_record_state_run filesystem_store_def prod.inject state_store.select_convs(3))
next
  case (6 s k d e s')
  then show ?case by (metis fs_record_state_run filesystem_store_def prod.inject state_store.select_convs(3) sum.distinct(1))
next
  case (7 s k v u s')
  then show ?case by (metis fs_record_event_run filesystem_store_def prod.inject state_store.select_convs(5))
next
  case (8 s k v e s')
  then show ?case by (metis fs_record_event_run filesystem_store_def prod.inject state_store.select_convs(5) sum.distinct(1))
next
  case (9 s k j u s')
  then show ?case by (metis fs_record_snapshot_run filesystem_store_def prod.inject state_store.select_convs(7))
next
  case (10 s k j e s')
  then show ?case by (metis fs_record_snapshot_run filesystem_store_def prod.inject state_store.select_convs(7) sum.distinct(1))
next
  case (11 s k r s')
  then show ?case by (auto simp: filesystem_store_def fs_reads_run)
next
  case (12 s k q s')
  then show ?case by (auto simp: filesystem_store_def fs_reads_run)
next
  case (13 s k p s')
  then show ?case by (auto simp: filesystem_store_def fs_reads_run)
next
  case (14 s k)
  then show ?case by (auto simp: fs_store_defs fs_acquire_run Let_def fs_view_def lock_path_def)
next
  case (15 s k)
  then show ?case by (auto simp: fs_store_defs fs_acquire_run Let_def fs_view_def lock_path_def)
next
  case (16 s g)
  then show ?case by (simp add: fs_store_defs fs_valid_def syscall_ok map_err_def)
next
  case (17 s k d)
  then show ?case by (metis fs_record_state_run filesystem_store_def state_store.select_convs(3) fst_conv is_ok_simps(1))
next
  case (18 s k v)
  then show ?case by (metis fs_record_event_run filesystem_store_def state_store.select_convs(5) fst_conv is_ok_simps(1))
next
  case (19 s k j)
  then show ?case by (metis fs_record_snapshot_run filesystem_store_def state_store.select_convs(7) fst_conv is_ok_simps(1))
next
  case (20 s k)
  then show ?case by (auto simp: filesystem_store_def fs_reads_run)
next
  case (21 s k)
  then show ?case by (auto simp: filesystem_store_def fs_reads_run)
qed

section \<open>A codec\<close>

text \<open>Countable values as marks with an end: one codec that satisfies the hypotheses on the encoders.\<close>

instance saga_state :: countable
  by countable_datatype

instance saga_event :: countable
  by countable_datatype

definition marks :: "nat \<Rightarrow> string" where
  "marks n = replicate n (CHR ''x'') @ '';''"

definition marks_codec :: "('r \<Rightarrow> nat) \<Rightarrow> (nat \<Rightarrow> 'r) \<Rightarrow> ('r, string) codec" where
  "marks_codec f g =
     \<lparr>to_value = (\<lambda>r. Inr (marks (f r))),
      from_value = (\<lambda>t. let n = length t - 1 in if t = marks n then Inr (g n) else Inl ''trailing characters'')\<rparr>"

lemma marks_visible: "visible_start (marks n)"
  by (cases n) (auto simp: marks_def visible_start_def graphic_def)

lemma marks_codec_ok: "(\<And>r. g (f r) = r) \<Longrightarrow> line_codec_ok (marks_codec f g)"
  using marks_visible by (auto simp: line_codec_ok_def marks_codec_def marks_def newline_def Let_def)

lemma line_codec_codec: "line_codec_ok c \<Longrightarrow> codec_ok c"
  unfolding line_codec_ok_def codec_ok_def by metis

definition demo_codecs :: "nat json_codecs" where
  "demo_codecs =
     \<lparr>jc_state = marks_codec (\<lambda>d. to_nat (ds_state d, ds_revision d, ds_recorded_at d))
        (\<lambda>n. case from_nat n of (a, b, c) \<Rightarrow> \<lparr>ds_state = a, ds_revision = b, ds_recorded_at = c\<rparr>),
      jc_event = marks_codec to_nat from_nat, jc_snapshot = marks_codec id id,
      jc_key = marks_codec (\<lambda>k. to_nat (fraise k, environment k)) (\<lambda>n. case from_nat n of (a, b) \<Rightarrow> key_new a b)\<rparr>"

lemma demo_codecs_ok: "codecs_ok demo_codecs"
  by (simp add: codecs_ok_def demo_codecs_def marks_codec_ok line_codec_codec key_new_def)

definition empty_dir :: dir where
  "empty_dir = \<lparr>dir_files = [], dir_flocks = {}, dir_faults = []\<rparr>"

lemma empty_dir_valid: "codecs_ok c \<Longrightarrow> fs_valid c h empty_dir"
  by (simp add: fs_valid_def fs_ok_def empty_dir_def contents_def log_ok_def)

section \<open>Enumeration\<close>

lemma read_keys_ok:
  assumes "fs_valid c h s" and "\<And>n. n \<in> set names \<Longrightarrow> contents s n \<noteq> None"
  shows "\<exists>ks. read_keys c names s = (Inr ks, s) \<and>
    (\<forall>a. a @ ''.key.json'' \<in> set names \<longrightarrow> (\<exists>k\<in>set ks. slug h k = a))"
  using assms(2)
proof (induction names)
  case (Cons n names)
  then obtain ks where ks: "read_keys c names s = (Inr ks, s)" "\<forall>a. a @ ''.key.json'' \<in> set names \<longrightarrow> (\<exists>k\<in>set ks. slug h k = a)"
    by auto
  note v = conjunct1 [OF fs_validD [OF assms(1)]]
  show ?case
  proof (cases "suffix ''.key.json'' n")
    case True
    then obtain a where n: "n = a @ ''.key.json''" by (auto simp: suffix_def)
    have "key_ok c h (contents s) a" using assms(1) Cons.prems [of n] n by (simp add: fs_valid_def fs_ok_def)
    then obtain k t where k: "contents s n = Some t" "from_value (jc_key c) t = Inr k" "slug h k = a" by (auto simp: key_ok_def n)
    then have "read_keys c (n # names) s = (Inr (k # ks), s)"
      using True ks(1) by (simp add: and_then_def map_err_def fs_read_ok [OF v] decode_def)
    with ks(2) k(3) n show ?thesis by auto
  next
    case False
    then have "\<And>a. a @ ''.key.json'' \<noteq> n" by (auto simp: suffix_def)
    with False ks show ?thesis by auto
  qed
qed simp

text \<open>
  The filesystem store enumerates every deploy it holds. In a directory the invariant describes
  (which every operation keeps), \<open>keys\<close> succeeds and lists a key for the slug of every recorded
  state and snapshot: the key files, not the one-way slugs in the file names, are what it reads.
\<close>

lemma fs_keys_total:
  assumes "fs_valid c h s" and "sv_states (fs_view c s) a \<noteq> [] \<or> sv_snapshot (fs_view c s) a \<noteq> None"
  shows "\<exists>k ks. fs_keys c s = (Inr ks, s) \<and> k \<in> set ks \<and> slug h k = a"
proof -
  have some: "\<And>n. n \<in> set (map fst (dir_files s)) \<longleftrightarrow> contents s n \<noteq> None"
    by (simp add: contents_def map_of_eq_None_iff)
  obtain ks where ks: "read_keys c (map fst (dir_files s)) s = (Inr ks, s)"
    "\<forall>a. a @ ''.key.json'' \<in> set (map fst (dir_files s)) \<longrightarrow> (\<exists>k\<in>set ks. slug h k = a)"
    using read_keys_ok [OF assms(1), of "map fst (dir_files s)"] some by blast
  have "contents s (a @ ''.state.jsonl'') \<noteq> None \<or> contents s (a @ ''.snapshot.json'') \<noteq> None"
    using assms(2) by (auto simp: fs_view_def log_of_def split: option.splits)
  then have "key_ok c h (contents s) a" using assms(1) by (auto simp: fs_valid_def fs_ok_def)
  then have "a @ ''.key.json'' \<in> set (map fst (dir_files s))" using some by (auto simp: key_ok_def)
  with ks(2) obtain k where "k \<in> set ks" "slug h k = a" by blast
  moreover have "fs_keys c s = (Inr ks, s)"
    using ks(1) assms(1) by (simp add: fs_keys_def fs_valid_def and_then_def map_err_def syscall_ok)
  ultimately show ?thesis by blast
qed

section \<open>A torn line\<close>

lemma lines_torn:
  assumes "line_codec_ok c"
  shows "lines (log_text c rs @ (text_of c r1 @ text_of c r2) @ [newline]) = map (text_of c) rs @ [text_of c r1 @ text_of c r2]"
proof (induction rs)
  case Nil
  show ?case using lines_Cons [of "text_of c r1 @ text_of c r2" "[]"] text_of_ok [OF assms] by (simp add: log_text_def lines.simps [of "[]"])
next
  case (Cons r rs)
  then show ?case using lines_Cons [of "text_of c r"] text_of_ok [OF assms] by (simp add: log_text_def)
qed

lemma collect_results_error: "collect_results (map Inr xs @ [Inl e]) = Inl e"
  by (induction xs) simp_all

lemma parse_torn:
  assumes "line_codec_ok c" and "from_value c (text_of c r1 @ text_of c r2) = Inl m"
  shows "parse_jsonl c (log_text c rs @ (text_of c r1 @ text_of c r2) @ [newline]) = Inl (Serde m)"
proof -
  have "\<not> blank (text_of c r1 @ text_of c r2)" using text_of_ok(5) [OF assms(1), of r1] by (auto simp: visible_start_def intro!: visible_not_blank)
  moreover have "filter (\<lambda>l. \<not> blank l) (map (text_of c) rs) = map (text_of c) rs"
    using text_of_ok(5) [OF assms(1)] visible_not_blank by (auto simp: filter_id_conv)
  moreover have "map (decode c) (map (text_of c) rs) = map Inr rs" by (simp add: decode_def text_of_ok [OF assms(1)])
  ultimately show ?thesis
    unfolding parse_jsonl_def lines_torn [OF assms(1)] filter_append map_append
    by (simp add: collect_results_error decode_def [of c "text_of c r1 @ text_of c r2"] assms(2) del: map_map)
qed

text \<open>
  A failure between the two writes of one record poisons the log. The write of the line feed
  fails (a full disk), so recording the state returns an error; the line is in the file without its
  end. The next state recorded for this deploy succeeds, but is appended to that line, and from then
  on reading the state of this deploy fails, although every record of it was accepted.
\<close>

theorem torn_append_poisons_log:
  assumes "fs_valid c h s" and "contents s (key_path h k) \<noteq> None"
    and "from_value (jc_state c) (text_of (jc_state c) d1 @ text_of (jc_state c) d2) = Inl m"
  shows "\<exists>s1 s2. fs_record_state c h k d1 (s\<lparr>dir_faults := [None, None, None, Some ''No space left on device'']\<rparr>) =
      (Inl (Io ''No space left on device''), s1) \<and>
    fs_record_state c h k d2 s1 = (Inr (), s2) \<and> fs_current_state c h k s2 = (Inl (Serde m), s2)"
proof -
  let ?n = "state_path h k" and ?c = "jc_state c"
  have ok: "line_codec_ok ?c" "log_ok ?c (contents s ?n)" "dir_faults s = []"
    using assms(1) by (simp_all add: fs_valid_def fs_ok_def codecs_ok_def state_path_def)
  obtain t where key: "contents s (key_path h k) = Some t" using assms(2) by auto
  obtain rs where rs: "(case contents s ?n of Some u \<Rightarrow> u | None \<Rightarrow> []) = log_text ?c rs"
    using ok(2) by (auto simp: log_ok_def log_text_def intro: that [of "[]"])
  have neq: "key_path h k \<noteq> ?n" by (simp add: key_path_def state_path_def)
  note defs = fs_record_state_def ensure_key_recorded_def fs_exists_def fs_read_def append_jsonl_def encode_def fs_append_line_def
    syscall_def and_then_def map_err_def result_of_def Let_def text_of_ok [OF ok(1)]
  have contents_plan: "contents (s\<lparr>dir_faults := p\<rparr>) = contents s" for p s by (simp add: contents_def fun_eq_iff)
  let ?s1 = "put_file ?n (log_text ?c rs @ text_of ?c d1) (put_file ?n (log_text ?c rs) (s\<lparr>dir_faults := []\<rparr>))"
  obtain s1 where r1: "fs_record_state c h k d1 (s\<lparr>dir_faults := [None, None, None, Some ''No space left on device'']\<rparr>) =
      (Inl (Io ''No space left on device''), s1)"
    and s1: "dir_faults s1 = []" "contents s1 ?n = Some (log_text ?c rs @ text_of ?c d1)" "contents s1 (key_path h k) = Some t"
    using key rs neq by (auto simp: defs contents_plan)
  obtain s2 where r2: "fs_record_state c h k d2 s1 = (Inr (), s2)" "dir_faults s2 = []"
    "contents s2 ?n = Some (log_text ?c rs @ (text_of ?c d1 @ text_of ?c d2) @ [newline])"
    using s1 neq by (auto simp: defs)
  have "fs_current_state c h k s2 = (Inl (Serde m), s2)"
    using r2(2,3) parse_torn [OF ok(1) assms(3), of rs]
    by (simp add: fs_current_state_def read_jsonl_def fs_read_def syscall_ok and_then_def map_err_def map_ok_def)
  with r1 r2(1) show ?thesis by blast
qed

lemma marks_torn: "from_value (marks_codec f g) (marks m @ marks n) = Inl ''trailing characters''"
proof -
  have "CHR '';'' \<in> set (butlast (marks m @ marks n))" by (simp add: marks_def butlast_append)
  moreover have "CHR '';'' \<notin> set (butlast (marks i))" for i by (simp add: marks_def butlast_append)
  ultimately have "marks m @ marks n \<noteq> marks i" for i by metis
  then show ?thesis by (simp add: marks_codec_def Let_def)
qed

theorem torn_append_poisons_log_witness:
  "\<exists>s d s1 s2. fs_record_snapshot demo_codecs (\<lambda>_. 0) (key_new ''app'' ''prod'') 7 empty_dir = (Inr (), s) \<and>
    fs_record_state demo_codecs (\<lambda>_. 0) (key_new ''app'' ''prod'') d (s\<lparr>dir_faults := [None, None, None, Some ''No space left on device'']\<rparr>) =
      (Inl (Io ''No space left on device''), s1) \<and>
    fs_record_state demo_codecs (\<lambda>_. 0) (key_new ''app'' ''prod'') d s1 = (Inr (), s2) \<and>
    fs_current_state demo_codecs (\<lambda>_. 0) (key_new ''app'' ''prod'') s2 = (Inl (Serde ''trailing characters''), s2)"
proof -
  let ?k = "key_new ''app'' ''prod''" and ?d = "deployment_state_new Committed None 0" and ?c = "jc_state demo_codecs"
  obtain s where s: "fs_record_snapshot demo_codecs (\<lambda>_. 0) ?k 7 empty_dir = (Inr (), s)" "fs_valid demo_codecs (\<lambda>_. 0) s"
    "fs_view demo_codecs s = set_snapshot (slug (\<lambda>_. 0) ?k) 7 (fs_view demo_codecs empty_dir)"
    by (rule fs_record_snapshot_run [OF empty_dir_valid [OF demo_codecs_ok]])
  have "sv_snapshot (fs_view demo_codecs s) (slug (\<lambda>_. 0) ?k) = Some 7" using s(3) by (simp add: set_snapshot_def)
  then have "contents s (slug (\<lambda>_. 0) ?k @ ''.snapshot.json'') \<noteq> None" by (auto simp: fs_view_def split: option.splits)
  then have key: "contents s (key_path (\<lambda>_. 0) ?k) \<noteq> None" using s(2) by (auto simp: fs_valid_def fs_ok_def key_ok_def key_path_def)
  have "\<exists>n. text_of ?c ?d = marks n" by (auto simp: text_of_def demo_codecs_def marks_codec_def)
  then have "from_value ?c (text_of ?c ?d @ text_of ?c ?d) = Inl ''trailing characters''" by (auto simp: demo_codecs_def marks_torn)
  from torn_append_poisons_log [OF s(2) key this] s(1) show ?thesis by blast
qed

end
