(* ===== verification/Saga_Files.thy ===== *)
theory Saga_Files
  imports State_Store_Files
begin

text \<open>
  The saga driver on the filesystem backend: what a run leaves on disk. Everything the driver
  guarantees over a contract-keeping store is available here through the interpretation \<open>fs\<close>.
\<close>

text \<open>The end of a process: the kernel drops the \<open>flock\<close>s it still holds, those of other processes and the files stay.\<close>

definition process_exit :: "string set \<Rightarrow> dir \<Rightarrow> dir" where
  "process_exit held s = s\<lparr>dir_flocks := dir_flocks s - held\<rparr>"

lemma process_exit_valid: "fs_valid c h s \<Longrightarrow> fs_valid c h (process_exit held s)"
  by (simp add: process_exit_def flocks_irrelevant)

lemma process_exit_states [simp]: "sv_states (fs_view c (process_exit held s)) = sv_states (fs_view c s)"
  by (simp add: process_exit_def fs_view_def contents_def)

lemma process_exit_locked: "\<not> sv_locked (fs_view c s) a \<Longrightarrow> \<not> sv_locked (fs_view c (process_exit held s)) a"
  by (simp add: process_exit_def fs_view_def)

text \<open>
  C13: a run is durable. While the calls on the directory do not fail (part of \<open>fs_valid\<close>), a run over a free lock on the filesystem
  store returns an outcome, and a
  process started on the same directory after this one is gone finds the deploy: its lock is free, whatever locks the
  first process still held at its end, if any,
  its current state is the final state of that outcome, and \<open>keys\<close> lists a key with its slug.
\<close>

theorem filesystem_run_durable:
  assumes "sg_store sg = filesystem_store c h" and "fs_valid c h s"
    and "lock_path h (sg_key sg) \<notin> dir_flocks s"
  shows "\<exists>out s' x' d k ks. run_with_state pf sg (s, x) = (Inr out, s', x') \<and> fs_valid c h s' \<and>
    final_state (outcome_state out) \<and>
    is_ok (fst (fs_acquire_lock h (sg_key sg) (process_exit held s'))) \<and>
    fs_current_state c h (sg_key sg) (process_exit held s') = (Inr (Some d), process_exit held s') \<and> ds_state d = outcome_state out \<and>
    fs_keys c (process_exit held s') = (Inr ks, process_exit held s') \<and> k \<in> set ks \<and> slug h k = slug h (sg_key sg)"
proof -
  let ?a = "slug h (sg_key sg)"
  have unlocked: "\<not> sv_locked (fs_view c s) ?a" using assms(3) by (simp add: fs_view_def lock_path_def)
  from fs.run_final [OF assms(1,2) unlocked]
  obtain out s' x' d where run: "run_with_state pf sg (s, x) = (Inr out, s', x')" and v: "fs_valid c h s'"
    and out: "final_state (outcome_state out)"
    and d: "last_opt (sv_states (fs_view c s') ?a) = Some d" "ds_state d = outcome_state out"
    and fr: "fs_view c s' = (fs_view c s)\<lparr>sv_states := sv_states (fs_view c s'), sv_events := sv_events (fs_view c s')\<rparr>" .
  have "sv_locked (fs_view c s') = sv_locked (fs_view c s)" by (subst fr) simp
  then have free: "\<not> sv_locked (fs_view c (process_exit held s')) ?a" using unlocked by (simp add: process_exit_locked)
  note v' = process_exit_valid [OF v]
  have "is_ok (fst (fs_acquire_lock h (sg_key sg) (process_exit held s')))"
    using fs.acquire_total [OF v' free] by (simp add: filesystem_store_def)
  moreover have "fs_current_state c h (sg_key sg) (process_exit held s') = (Inr (Some d), process_exit held s')"
    using fs_reads_run [OF v'] d(1) by simp
  moreover have "sv_states (fs_view c (process_exit held s')) ?a \<noteq> []" using d(1) by (auto simp: last_opt_def)
  note fs_keys_total [OF v' disjI1, OF this]
  ultimately show ?thesis using run v out d(2) by blast
qed

theorem filesystem_run_durable_witness:
  "\<exists>out s' x' d. run_with_state \<lparr>now = (\<lambda>_. 0), uni_alnum = (\<lambda>_. False)\<rparr> \<lparr>sg_store = filesystem_store demo_codecs (\<lambda>_. 0), sg_key = key_new ''app'' ''prod'',
        sg_steps = [demo_step ''migrate'', demo_bad ''health'']\<rparr> (empty_dir, []) = (Inr out, s', x') \<and>
    fs_current_state demo_codecs (\<lambda>_. 0) (key_new ''app'' ''prod'') (process_exit {} s') = (Inr (Some d), process_exit {} s') \<and>
    ds_state d = outcome_state out"
proof -
  let ?sg = "\<lparr>sg_store = filesystem_store demo_codecs (\<lambda>_. 0), sg_key = key_new ''app'' ''prod'',
        sg_steps = [demo_step ''migrate'', demo_bad ''health'']\<rparr>"
  have "lock_path (\<lambda>_. 0) (sg_key ?sg) \<notin> dir_flocks empty_dir" by (simp add: empty_dir_def)
  from filesystem_run_durable [OF _ empty_dir_valid [OF demo_codecs_ok] this, of "\<lparr>now = (\<lambda>_. 0), uni_alnum = (\<lambda>_. False)\<rparr>" "[]"] show ?thesis
    by simp blast
qed

end
