(* ===== verification/Adapter_Axes.thy ===== *)
theory Adapter_Axes
  imports Saga
begin

text \<open>
  The adapter contract of the deploy layer (\<open>fraisier-core/src/adapter_axes.rs\<close>): errors, the call
  context and its secrets, the vocabulary of the five axes, the migration risk contract, and the
  adapter traits as records of effectful calls over the world \<open>'w\<close> the adapters act on. The
  \<open>NoDatabase\<close> adapter (\<open>fraisier-core/src/no_database.rs\<close>) is the one instance the crate itself
  provides. Serialisation attributes are left out.
\<close>

section \<open>Errors\<close>

datatype adapter_error_kind =
    MethodNotSupported
  | MissingSecret
  | SecretReadFailed
  | InvalidConfig
  | PreconditionFailed
  | DbUnreachable
  | SchemaError
  | LockContention
  | GitError
  | IrreversibleRollback
  | InternalError
  | Execution
  | Protocol
  | Remote

fun kind_as_str :: "adapter_error_kind \<Rightarrow> string" where
  "kind_as_str MethodNotSupported = ''method_not_supported''"
| "kind_as_str MissingSecret = ''missing_secret''"
| "kind_as_str SecretReadFailed = ''secret_read_failed''"
| "kind_as_str InvalidConfig = ''invalid_config''"
| "kind_as_str PreconditionFailed = ''precondition_failed''"
| "kind_as_str DbUnreachable = ''db_unreachable''"
| "kind_as_str SchemaError = ''schema_error''"
| "kind_as_str LockContention = ''lock_contention''"
| "kind_as_str GitError = ''git_error''"
| "kind_as_str IrreversibleRollback = ''irreversible_rollback''"
| "kind_as_str InternalError = ''internal_error''"
| "kind_as_str Execution = ''execution''"
| "kind_as_str Protocol = ''protocol''"
| "kind_as_str Remote = ''remote''"

text \<open>JSON-RPC codes are \<open>i32\<close>; the constants are far from its bounds.\<close>

fun kind_code :: "adapter_error_kind \<Rightarrow> int" where
  "kind_code MethodNotSupported = -32601"
| "kind_code InvalidConfig = -32602"
| "kind_code Protocol = -32600"
| "kind_code MissingSecret = -32001"
| "kind_code SecretReadFailed = -32002"
| "kind_code Execution = -32000"
| "kind_code Remote = -32003"
| "kind_code PreconditionFailed = -32004"
| "kind_code DbUnreachable = -32005"
| "kind_code SchemaError = -32006"
| "kind_code LockContention = -32007"
| "kind_code GitError = -32008"
| "kind_code IrreversibleRollback = -32009"
| "kind_code InternalError = -32010"

record adapter_error =
  ae_kind :: adapter_error_kind
  ae_code :: int
  ae_message :: string
  ae_adapter :: "string option"
  ae_operation :: "string option"
  ae_stderr :: "string option"

definition adapter_error_new :: "adapter_error_kind \<Rightarrow> string \<Rightarrow> adapter_error" where
  "adapter_error_new kind message =
     \<lparr>ae_kind = kind, ae_code = kind_code kind, ae_message = message,
      ae_adapter = None, ae_operation = None, ae_stderr = None\<rparr>"

definition remote_error :: "int \<Rightarrow> string \<Rightarrow> adapter_error" where
  "remote_error code message = (adapter_error_new Remote message)\<lparr>ae_code := code\<rparr>"

definition method_not_supported :: "string \<Rightarrow> adapter_error" where
  "method_not_supported method =
     (adapter_error_new MethodNotSupported
       (''method '' @ [quote] @ method @ [quote] @ '' is not supported by this adapter''))
       \<lparr>ae_operation := Some method\<rparr>"

definition missing_secret :: "string \<Rightarrow> adapter_error" where
  "missing_secret logical =
     adapter_error_new MissingSecret
       (''secret '' @ [quote] @ logical @ [quote] @ '' is not declared in env_secrets'')"

text \<open>The rendering of \<open>std::env::VarError\<close> is a string here.\<close>

definition secret_read_failed :: "string \<Rightarrow> string \<Rightarrow> string \<Rightarrow> adapter_error" where
  "secret_read_failed logical source cause =
     adapter_error_new SecretReadFailed
       (''secret '' @ [quote] @ logical @ [quote] @ '' maps to env var '' @ [quote] @ source @ [quote] @
        '' which could not be read: '' @ cause)"

definition with_adapter :: "string \<Rightarrow> adapter_error \<Rightarrow> adapter_error" where
  "with_adapter adapter e = e\<lparr>ae_adapter := Some adapter\<rparr>"

text \<open>\<open>Display\<close>: the kind in brackets, then the message.\<close>

definition show_adapter_error :: "adapter_error \<Rightarrow> string" where
  "show_adapter_error e = ''['' @ kind_as_str (ae_kind e) @ ''] '' @ ae_message e"

section \<open>Vocabulary\<close>

type_synonym revision = string
type_synonym host_id = string
type_synonym traffic_target = string

record artifact_ref =
  ar_id :: string
  ar_checksum :: "string option"

record staged_artifact =
  sa_artifact :: artifact_ref
  sa_path :: string

record service_status =
  running :: bool
  ss_detail :: "string option"

record health_status =
  healthy :: bool
  hs_detail :: "string option"

datatype lb_state = InPool | Draining | Removed

record lb_membership =
  lb_state_of :: lb_state
  lb_weight :: "32 word option"

record swap_token =
  swapped_to :: traffic_target

record adapter_description =
  ad_name :: string
  ad_version :: string
  ad_protocol_version :: "32 word"
  ad_capabilities :: "string list"

record migration_outcome =
  mo_from :: "revision option"
  mo_to :: "revision option"
  mo_applied :: "revision list"
  mo_log :: string

definition migration_outcome_default :: migration_outcome where
  "migration_outcome_default = \<lparr>mo_from = None, mo_to = None, mo_applied = [], mo_log = []\<rparr>"

text \<open>A JSON value (\<open>serde_json::Value\<close>); a number is kept as its literal text.\<close>

datatype json =
    JNull
  | JBool bool
  | JNumber string
  | JString string
  | JArray "json list"
  | JObject "(string \<times> json) list"

section \<open>The call context\<close>

record adapter_ctx =
  ctx_fraise :: string
  ctx_environment :: string
  ctx_host :: "host_id option"
  ctx_workdir :: string
  ctx_migrations_path :: "string option"
  ctx_env_secrets :: "string \<rightharpoonup> string"
  ctx_resolved_secrets :: "string \<rightharpoonup> string"
  ctx_previous_revision :: "revision option"
  ctx_artifact_ref :: "artifact_ref option"
  ctx_settings :: "string \<rightharpoonup> json"

definition ctx_new :: "string \<Rightarrow> string \<Rightarrow> adapter_ctx" where
  "ctx_new f e =
     \<lparr>ctx_fraise = f, ctx_environment = e, ctx_host = None, ctx_workdir = ''.'', ctx_migrations_path = None,
      ctx_env_secrets = Map.empty, ctx_resolved_secrets = Map.empty, ctx_previous_revision = None,
      ctx_artifact_ref = None, ctx_settings = Map.empty\<rparr>"

definition with_resolved_secret :: "string \<Rightarrow> string \<Rightarrow> adapter_ctx \<Rightarrow> adapter_ctx" where
  "with_resolved_secret logical value ctx =
     ctx\<lparr>ctx_resolved_secrets := (ctx_resolved_secrets ctx)(logical \<mapsto> value)\<rparr>"

text \<open>\<open>env\<close> is \<open>std::env::var\<close> of the process: the value, or the rendering of why it is unreadable.\<close>

type_synonym process_env = "string \<Rightarrow> string + string"

definition secret :: "process_env \<Rightarrow> adapter_ctx \<Rightarrow> string \<Rightarrow> adapter_error + string" where
  "secret env ctx logical =
     (case ctx_resolved_secrets ctx logical of
        Some value \<Rightarrow> Inr value
      | None \<Rightarrow>
          (case ctx_env_secrets ctx logical of
             None \<Rightarrow> Inl (missing_secret logical)
           | Some source \<Rightarrow>
               (case env source of
                  Inl cause \<Rightarrow> Inl (secret_read_failed logical source cause)
                | Inr value \<Rightarrow> Inr value)))"

section \<open>Verification reports\<close>

record verify_check =
  vc_name :: string
  vc_ok :: bool
  vc_detail :: "string option"

record verify_report =
  vr_ok :: bool
  vr_checks :: "verify_check list"
  was_skipped :: bool

definition verify_report_new :: "bool \<Rightarrow> verify_report" where
  "verify_report_new good = \<lparr>vr_ok = good, vr_checks = [], was_skipped = False\<rparr>"

definition with_checks :: "verify_check list \<Rightarrow> verify_report \<Rightarrow> verify_report" where
  "with_checks checks r = r\<lparr>vr_checks := checks\<rparr>"

definition with_skipped :: "bool \<Rightarrow> verify_report \<Rightarrow> verify_report" where
  "with_skipped skipped r = r\<lparr>was_skipped := skipped\<rparr>"

definition check_text :: "verify_check \<Rightarrow> string" where
  "check_text check =
     (case map_option trim (vc_detail check) of
        Some detail \<Rightarrow> if detail \<noteq> [] then vc_name check @ '' ('' @ detail @ '')'' else vc_name check
      | None \<Rightarrow> vc_name check)"

definition failure_message :: "verify_report \<Rightarrow> string" where
  "failure_message r =
     (if was_skipped r then
        ''post-migration verify verified nothing: the migration adapter reported the run as skipped''
      else
        let failed = map check_text (filter (\<lambda>c. \<not> vc_ok c) (vr_checks r)) in
        if failed = [] then ''post-migration verify reported a failure without a failing check''
        else ''post-migration verify failed '' @ show_nat (length failed) @ '' check(s): '' @ join '', '' failed)"

section \<open>The migration risk contract\<close>

datatype severity = SevError | SevWarning | SevInfo

record preflight_issue =
  pi_severity :: severity
  pi_code :: string
  pi_message :: string
  pi_migration :: "string option"

definition risk_contract_version :: "32 word" where
  "risk_contract_version = 1"

datatype risk_tier = Additive | Reversible | LockRisky | Destructive | Irreversible

text \<open>\<open>RiskTier::ALL\<close>, least to most severe, and the derived order: the position in the list.\<close>

definition all_tiers :: "risk_tier list" where
  "all_tiers = [Additive, Reversible, LockRisky, Destructive, Irreversible]"

fun tier_rank :: "risk_tier \<Rightarrow> nat" where
  "tier_rank Additive = 0"
| "tier_rank Reversible = 1"
| "tier_rank LockRisky = 2"
| "tier_rank Destructive = 3"
| "tier_rank Irreversible = 4"

lemma tier_rank_inject: "tier_rank s = tier_rank t \<longleftrightarrow> s = t"
  by (cases s; cases t) simp_all

instantiation risk_tier :: linorder
begin

definition less_eq_risk_tier :: "risk_tier \<Rightarrow> risk_tier \<Rightarrow> bool" where
  "s \<le> t \<longleftrightarrow> tier_rank s \<le> tier_rank t"

definition less_risk_tier :: "risk_tier \<Rightarrow> risk_tier \<Rightarrow> bool" where
  "s < t \<longleftrightarrow> tier_rank s < tier_rank t"

instance
  by standard (auto simp: less_eq_risk_tier_def less_risk_tier_def tier_rank_inject)

end

fun tier_as_str :: "risk_tier \<Rightarrow> string" where
  "tier_as_str Additive = ''additive''"
| "tier_as_str Reversible = ''reversible''"
| "tier_as_str LockRisky = ''lock_risky''"
| "tier_as_str Destructive = ''destructive''"
| "tier_as_str Irreversible = ''irreversible''"

text \<open>\<open>FromStr\<close>; the error carries the name that did not parse.\<close>

definition tier_from_str :: "string \<Rightarrow> string + risk_tier" where
  "tier_from_str name =
     (case find (\<lambda>t. tier_as_str t = name) all_tiers of Some t \<Rightarrow> Inr t | None \<Rightarrow> Inl name)"

definition show_unknown_tier :: "string \<Rightarrow> string" where
  "show_unknown_tier name =
     ''unknown risk tier '' @ [quote] @ name @ [quote] @ ''; expected one of: '' @
     join '', '' (map tier_as_str all_tiers)"

record schema_change =
  sch_kind :: string
  sch_object :: string
  sch_migration :: "string option"
  sch_tier :: "risk_tier option"
  sch_detail :: "string option"

definition schema_change_new :: "string \<Rightarrow> string \<Rightarrow> schema_change" where
  "schema_change_new kind object =
     \<lparr>sch_kind = kind, sch_object = object, sch_migration = None, sch_tier = None, sch_detail = None\<rparr>"

definition with_migration :: "string \<Rightarrow> schema_change \<Rightarrow> schema_change" where
  "with_migration migration c = c\<lparr>sch_migration := Some migration\<rparr>"

definition with_tier :: "risk_tier \<Rightarrow> schema_change \<Rightarrow> schema_change" where
  "with_tier tier c = c\<lparr>sch_tier := Some tier\<rparr>"

definition with_detail :: "string \<Rightarrow> schema_change \<Rightarrow> schema_change" where
  "with_detail detail c = c\<lparr>sch_detail := Some detail\<rparr>"

record change_set =
  contract_version :: "32 word"
  changes :: "schema_change list"

definition change_set_default :: change_set where
  "change_set_default = \<lparr>contract_version = risk_contract_version, changes = []\<rparr>"

definition change_set_new :: "schema_change list \<Rightarrow> change_set" where
  "change_set_new cs = change_set_default\<lparr>changes := cs\<rparr>"

definition with_contract_version :: "32 word \<Rightarrow> change_set \<Rightarrow> change_set" where
  "with_contract_version v cs = cs\<lparr>contract_version := v\<rparr>"

definition worst_tier :: "change_set \<Rightarrow> risk_tier option" where
  "worst_tier cs =
     (case List.map_filter sch_tier (changes cs) of [] \<Rightarrow> None | t # ts \<Rightarrow> Some (fold max ts t))"

definition unclassified :: "change_set \<Rightarrow> schema_change list" where
  "unclassified cs = filter (\<lambda>c. sch_tier c = None) (changes cs)"

record preflight_report =
  pr_ok :: bool
  pr_issues :: "preflight_issue list"
  window_safe :: "bool option"
  pr_change_set :: "change_set option"

definition preflight_report_new :: "bool \<Rightarrow> preflight_report" where
  "preflight_report_new good =
     \<lparr>pr_ok = good, pr_issues = [], window_safe = None, pr_change_set = None\<rparr>"

definition with_issues :: "preflight_issue list \<Rightarrow> preflight_report \<Rightarrow> preflight_report" where
  "with_issues issues r = r\<lparr>pr_issues := issues\<rparr>"

definition with_window_safe :: "bool \<Rightarrow> preflight_report \<Rightarrow> preflight_report" where
  "with_window_safe safe r = r\<lparr>window_safe := Some safe\<rparr>"

definition with_change_set :: "change_set \<Rightarrow> preflight_report \<Rightarrow> preflight_report" where
  "with_change_set cs r = r\<lparr>pr_change_set := Some cs\<rparr>"

datatype change_set_unavailable =
    NotEmitted
  | VersionTooNew "32 word" "32 word"

fun show_unavailable :: "change_set_unavailable \<Rightarrow> string" where
  "show_unavailable NotEmitted =
     ''the migration adapter emitted no usable change-set; nothing classified the pending schema changes''"
| "show_unavailable (VersionTooNew found understood) =
     ''the migration adapter emitted a change-set at risk-contract version '' @ show_nat (unat found) @
     '', but this build of fraisier understands version '' @ show_nat (unat understood) @
     ''; upgrade fraisier or pin the adapter''"

definition usable_change_set :: "preflight_report \<Rightarrow> change_set_unavailable + change_set" where
  "usable_change_set r =
     (case pr_change_set r of
        None \<Rightarrow> Inl NotEmitted
      | Some cs \<Rightarrow>
          if contract_version cs > risk_contract_version
          then Inl (VersionTooNew (contract_version cs) risk_contract_version)
          else Inr cs)"

section \<open>The axis traits\<close>

text \<open>
  An adapter's method may read and change the world and may fail with an \<^typ>\<open>adapter_error\<close>,
  having changed the world or not.
\<close>

type_synonym ('w, 'a) call = "('w, adapter_error, 'a) eff"

record 'w migration_adapter =
  describe :: "('w, adapter_description) call"
  current_revision :: "adapter_ctx \<Rightarrow> ('w, revision option) call"
  up :: "adapter_ctx \<Rightarrow> revision option \<Rightarrow> ('w, migration_outcome) call"
  down_to :: "adapter_ctx \<Rightarrow> revision \<Rightarrow> ('w, migration_outcome) call"
  verify :: "adapter_ctx \<Rightarrow> ('w, verify_report) call"
  preflight :: "adapter_ctx \<Rightarrow> ('w, preflight_report) call"
  post_migrate :: "adapter_ctx \<Rightarrow> ('w, unit) call"
  owns_database :: bool

text \<open>The trait's default methods.\<close>

definition default_preflight :: "adapter_ctx \<Rightarrow> ('w, preflight_report) call" where
  "default_preflight ctx = fail (method_not_supported ''preflight'')"

definition default_post_migrate :: "adapter_ctx \<Rightarrow> ('w, unit) call" where
  "default_post_migrate ctx = ok ()"

definition default_owns_database :: bool where
  "default_owns_database = True"

record 'w artifact_adapter =
  stage :: "adapter_ctx \<Rightarrow> host_id \<Rightarrow> ('w, staged_artifact) call"
  activate :: "adapter_ctx \<Rightarrow> host_id \<Rightarrow> staged_artifact \<Rightarrow> ('w, unit) call"
  current_artifact :: "adapter_ctx \<Rightarrow> host_id \<Rightarrow> ('w, artifact_ref option) call"

record 'w service_adapter =
  restart :: "adapter_ctx \<Rightarrow> host_id \<Rightarrow> ('w, unit) call"
  status :: "adapter_ctx \<Rightarrow> host_id \<Rightarrow> ('w, service_status) call"

record 'w health_adapter =
  check :: "adapter_ctx \<Rightarrow> host_id \<Rightarrow> ('w, health_status) call"

record 'w lb_adapter =
  drain :: "adapter_ctx \<Rightarrow> host_id \<Rightarrow> ('w, lb_membership) call"
  reattach :: "adapter_ctx \<Rightarrow> host_id \<Rightarrow> lb_membership \<Rightarrow> ('w, unit) call"

record 'w traffic_director =
  td_describe :: "('w, adapter_description) call"
  current_target :: "adapter_ctx \<Rightarrow> ('w, traffic_target) call"
  switch_to :: "adapter_ctx \<Rightarrow> traffic_target \<Rightarrow> ('w, swap_token) call"

text \<open>The axis of a deployable without a database; \<open>version\<close> is the crate's version string.\<close>

definition no_database :: "string \<Rightarrow> 'w migration_adapter" where
  "no_database version =
     \<lparr>describe = ok \<lparr>ad_name = ''none'', ad_version = version, ad_protocol_version = 1, ad_capabilities = []\<rparr>,
      current_revision = (\<lambda>_. ok None),
      up = (\<lambda>_ _. ok migration_outcome_default),
      down_to = (\<lambda>_ _. ok migration_outcome_default),
      verify = (\<lambda>_. ok (with_skipped True (verify_report_new True))),
      preflight = default_preflight,
      post_migrate = default_post_migrate,
      owns_database = False\<rparr>"

section \<open>The risk vocabulary is unambiguous\<close>

lemma tier_as_str_inject: "tier_as_str s = tier_as_str t \<longleftrightarrow> s = t"
  by (cases s; cases t) simp_all

text \<open>
  A risk tier's wire name parses back to the tier, and nothing else parses: an unknown name is
  an error carrying that name, never a nearest match.
\<close>

theorem tier_wire_roundtrip: "tier_from_str name = Inr t \<longleftrightarrow> name = tier_as_str t"
proof -
  have all: "set all_tiers = UNIV"
    using risk_tier.exhaust by (auto simp: all_tiers_def)
  show ?thesis
  proof (cases "find (\<lambda>t. tier_as_str t = name) all_tiers")
    case None
    with all have "tier_as_str t \<noteq> name" by (auto simp: find_None_iff)
    with None show ?thesis by (auto simp: tier_from_str_def)
  next
    case (Some u)
    then have "tier_as_str u = name" by (auto simp: find_Some_iff)
    with Some show ?thesis by (auto simp: tier_from_str_def tier_as_str_inject)
  qed
qed

lemma set_map_filter_tier: "set (List.map_filter sch_tier cs) = {t. \<exists>c\<in>set cs. sch_tier c = Some t}"
  by (induction cs) (auto simp: List.map_filter_simps split: option.splits)

lemma worst_tier_Max:
  "worst_tier cs =
     (let tiers = {t. \<exists>c\<in>set (changes cs). sch_tier c = Some t} in if tiers = {} then None else Some (Max tiers))"
proof (cases "List.map_filter sch_tier (changes cs)")
  case Nil
  then show ?thesis using set_map_filter_tier [of "changes cs"] by (simp add: worst_tier_def Let_def)
next
  case (Cons t ts)
  with set_map_filter_tier [of "changes cs"]
  have tiers: "{t. \<exists>c\<in>set (changes cs). sch_tier c = Some t} = set (t # ts)" by simp
  have "fold max ts t = Max (set (t # ts))" by (rule Max.set_eq_fold [symmetric])
  with Cons show ?thesis unfolding Let_def tiers by (simp add: worst_tier_def)
qed

text \<open>
  The worst tier of a change-set is the most severe tier of any of its changes, and a set in
  which nothing is classified has none: unclassified changes are not a tier.
\<close>

theorem worst_tier_is_max:
  "worst_tier cs =
     (let tiers = {t. \<exists>c\<in>set (changes cs). sch_tier c = Some t} in if tiers = {} then None else Some (Max tiers))"
  by (rule worst_tier_Max)

text \<open>
  A change-set is usable exactly when the adapter emitted one and it was written to a contract
  this build understands; a later contract version is refused naming both versions.
\<close>

theorem usable_change_set_iff:
  "usable_change_set r = Inr cs \<longleftrightarrow> pr_change_set r = Some cs \<and> contract_version cs \<le> 1"
  by (auto simp: usable_change_set_def risk_contract_version_def split: option.splits if_splits)

text \<open>
  Every error kind has a JSON-RPC code of its own inside the range of \<open>i32\<close>, and a name of its
  own, so an error crosses the IPC boundary without being confused with another kind.
\<close>

theorem kinds_distinguished:
  "inj kind_code \<and> inj kind_as_str \<and> range kind_code \<subseteq> {- (2 ^ 31) ..< 2 ^ 31}"
proof (intro conjI injI subsetI)
  show "k = k'" if "kind_code k = kind_code k'" for k k'
    using that by (cases k; cases k') simp_all
  show "k = k'" if "kind_as_str k = kind_as_str k'" for k k'
    using that by (cases k; cases k') simp_all
  show "c \<in> {- (2 ^ 31) ..< 2 ^ 31}" if "c \<in> range kind_code" for c
  proof -
    from that obtain k where "c = kind_code k" by blast
    then show ?thesis by (cases k) simp_all
  qed
qed

text \<open>
  Secrets resolve in one order: a value resolved in process wins over the environment
  indirection, whatever the environment holds, and overriding one secret leaves every other
  secret as it was.
\<close>

theorem resolved_secret_wins:
  "secret env (with_resolved_secret logical value ctx) name =
     (if name = logical then Inr value else secret env ctx name)"
  by (simp add: secret_def with_resolved_secret_def split: option.split)

end
