(* ===== verification/Policy.thy ===== *)
theory Policy
  imports Adapter_Axes
begin

text \<open>
  The schema-change policy gate (\<open>fraisier-core/src/policy.rs\<close>): one decision function over the
  adapter's capabilities and its preflight report, the always-on baseline of the blue-green
  strategy, the approval hook and the refusal messages. The audit log lines have no effect on a
  decision and are left out. The theorems characterise exactly which deploys the gate lets
  through.
\<close>

section \<open>Policies\<close>

datatype policy_action = AutoApply | RequireApproval | Deny

fun action_rank :: "policy_action \<Rightarrow> nat" where
  "action_rank AutoApply = 0"
| "action_rank RequireApproval = 1"
| "action_rank Deny = 2"

lemma action_rank_inject: "action_rank a = action_rank b \<longleftrightarrow> a = b"
  by (cases a; cases b) simp_all

instantiation policy_action :: linorder
begin

definition less_eq_policy_action :: "policy_action \<Rightarrow> policy_action \<Rightarrow> bool" where
  "a \<le> b \<longleftrightarrow> action_rank a \<le> action_rank b"

definition less_policy_action :: "policy_action \<Rightarrow> policy_action \<Rightarrow> bool" where
  "a < b \<longleftrightarrow> action_rank a < action_rank b"

instance
  by standard (auto simp: less_eq_policy_action_def less_policy_action_def action_rank_inject)

end

lemma policy_action_order [simp]:
  "AutoApply \<le> a" "a \<le> Deny" "a \<le> AutoApply \<longleftrightarrow> a = AutoApply" "Deny \<le> a \<longleftrightarrow> a = Deny"
  by (cases a; simp add: less_eq_policy_action_def)+

datatype unclassified_action = UnclDeny | UnclRequireApproval

fun action_of_unclassified :: "unclassified_action \<Rightarrow> policy_action" where
  "action_of_unclassified UnclDeny = Deny"
| "action_of_unclassified UnclRequireApproval = RequireApproval"

record policy =
  pol_actions :: "risk_tier \<rightharpoonup> policy_action"
  pol_unclassified :: unclassified_action
  has_approval_hook :: bool

definition policy_new :: "(risk_tier \<rightharpoonup> policy_action) \<Rightarrow> unclassified_action \<Rightarrow> policy" where
  "policy_new actions uncl = \<lparr>pol_actions = actions, pol_unclassified = uncl, has_approval_hook = False\<rparr>"

definition with_approval_hook :: "bool \<Rightarrow> policy \<Rightarrow> policy" where
  "with_approval_hook present p = p\<lparr>has_approval_hook := present\<rparr>"

definition default_auto_apply :: "risk_tier list" where
  "default_auto_apply = [Additive, Reversible]"

definition default_require_approval :: "risk_tier list" where
  "default_require_approval = [LockRisky, Destructive, Irreversible]"

definition policy_default :: policy where
  "policy_default =
     policy_new
       (map_of (map (\<lambda>t. (t, AutoApply)) default_auto_apply @
                map (\<lambda>t. (t, RequireApproval)) default_require_approval))
       UnclDeny"

definition action_for :: "policy \<Rightarrow> schema_change \<Rightarrow> policy_action" where
  "action_for p change =
     (case sch_tier change of
        None \<Rightarrow> action_of_unclassified (pol_unclassified p)
      | Some tier \<Rightarrow> (case pol_actions p tier of Some a \<Rightarrow> a | None \<Rightarrow> Deny))"

section \<open>Reasons, decisions, approvals\<close>

record policy_reason =
  pre_tier :: "risk_tier option"
  pre_object :: string
  pre_kind :: string
  pre_migration :: "string option"

definition for_change :: "schema_change \<Rightarrow> policy_reason" where
  "for_change c =
     \<lparr>pre_tier = sch_tier c, pre_object = sch_object c, pre_kind = sch_kind c, pre_migration = sch_migration c\<rparr>"

definition for_change_set :: "string \<Rightarrow> policy_reason" where
  "for_change_set kind =
     \<lparr>pre_tier = None, pre_object = ''all pending migrations'', pre_kind = kind, pre_migration = None\<rparr>"

datatype policy_decision =
    DecAllow nat
  | DecNeedsApproval "policy_reason list"
  | DecDeny string "policy_reason list"

record approval_request =
  req_fraise :: string
  req_environment :: string
  req_reasons :: "policy_reason list"
  req_worst_tier :: "risk_tier option"

definition approval_request_new :: "string \<Rightarrow> string \<Rightarrow> policy_reason list \<Rightarrow> approval_request" where
  "approval_request_new f e reasons =
     \<lparr>req_fraise = f, req_environment = e, req_reasons = reasons,
      req_worst_tier =
        (case List.map_filter pre_tier reasons of [] \<Rightarrow> None | t # ts \<Rightarrow> Some (fold max ts t))\<rparr>"

datatype approval_verdict = Approved string | Denied string

text \<open>A hook always answers; how long it takes and what it does to the world is its own.\<close>

type_synonym 'w approval_hook = "approval_request \<Rightarrow> 'w \<Rightarrow> approval_verdict \<times> 'w"

section \<open>Capabilities and the baseline\<close>

definition pending_scope :: string where
  "pending_scope = ''pending_scope''"

definition judges_pending_only :: "adapter_description \<Rightarrow> bool" where
  "judges_pending_only described = (pending_scope \<in> set (ad_capabilities described))"

record capabilities =
  cap_preflight :: bool
  cap_risk_tier :: bool
  cap_window_safe :: bool

definition capabilities_new :: "bool \<Rightarrow> bool \<Rightarrow> capabilities" where
  "capabilities_new pf rt = \<lparr>cap_preflight = pf, cap_risk_tier = rt, cap_window_safe = False\<rparr>"

definition cap_with_window_safe :: "bool \<Rightarrow> capabilities \<Rightarrow> capabilities" where
  "cap_with_window_safe b c = c\<lparr>cap_window_safe := b\<rparr>"

definition from_advertised :: "string list \<Rightarrow> capabilities" where
  "from_advertised cs =
     cap_with_window_safe (''window_safe'' \<in> set cs)
       (capabilities_new (''preflight'' \<in> set cs) (''risk_tier'' \<in> set cs))"

datatype baseline = BaseNone | WindowSafety

definition baseline_verdict :: "baseline \<Rightarrow> capabilities \<Rightarrow> preflight_report option \<Rightarrow> string option" where
  "baseline_verdict b caps report =
     (case b of
        BaseNone \<Rightarrow> None
      | WindowSafety \<Rightarrow>
          if \<not> cap_preflight caps then
            Some (''the migration adapter does not advertise `preflight`; nothing can certify '' @
              ''the migration window-safe for a two-version blue-green window'')
          else if \<not> cap_window_safe caps then
            Some (''the migration adapter does not advertise `window_safe`; it runs the '' @
              ''forward-compatibility lint but cannot classify every statement, so a `true` '' @
              ''from it would mean *nothing was recognised*, not *nothing is unsafe* '' @ em_dash @
              '' see fraiseql/confiture#206'')
          else
            (case report of
               None \<Rightarrow> Some ''no preflight report was produced; cannot certify the window''
             | Some r \<Rightarrow>
                 (case window_safe r of
                    Some True \<Rightarrow> None
                  | Some False \<Rightarrow>
                      Some (''the migration is NOT forward-compatible for a two-version window '' @
                        ''(confiture window_safe = false)'')
                  | None \<Rightarrow>
                      Some (''the migration adapter returned no window-safety verdict (window_safe); '' @
                        ''blue-green needs a confiture release that emits it '' @ em_dash @
                        '' see fraiseql/confiture#154''))))"

section \<open>The decision\<close>

text \<open>The maximum of the actions; an empty set of triggers auto-applies.\<close>

definition worst_action :: "policy_action list \<Rightarrow> policy_action" where
  "worst_action actions = (case actions of [] \<Rightarrow> AutoApply | a # as \<Rightarrow> fold max as a)"

definition summarise :: "policy_reason list \<Rightarrow> string" where
  "summarise reasons =
     (let rendered = map (\<lambda>r. pre_object r @ '' ('' @ pre_kind r @ '', '' @
            (case pre_tier r of None \<Rightarrow> ''unclassified'' | Some t \<Rightarrow> tier_as_str t) @ '')'') (take 3 reasons)
      in join '', '' (if length reasons > 3
           then rendered @ [''and '' @ show_nat (length reasons - 3) @ '' more''] else rendered))"

definition assemble :: "policy \<Rightarrow> (policy_action \<times> policy_reason) list \<Rightarrow> nat \<Rightarrow> policy_decision" where
  "assemble p triggers n =
     (let outcome = worst_action (map fst triggers);
          responsible = map snd (filter (\<lambda>t. fst t = outcome) triggers);
          named = summarise responsible;
          reasons = map snd triggers
      in case outcome of
           AutoApply \<Rightarrow> DecAllow n
         | RequireApproval \<Rightarrow>
             if \<not> has_approval_hook p then
               DecDeny (''approval is required for '' @ named @ '', but no approval hook is configured '' @
                 ''(`[policy].approval_command`)'') reasons
             else DecNeedsApproval reasons
         | Deny \<Rightarrow>
             DecDeny (''the policy refuses '' @ show_nat (length responsible) @ '' of '' @ show_nat n @
               '' planned schema change(s): '' @ named) reasons)"

definition unclassified_change_set :: "policy \<Rightarrow> string \<Rightarrow> string \<Rightarrow> policy_decision" where
  "unclassified_change_set p cause kind =
     (case pol_unclassified p of
        UnclDeny \<Rightarrow> DecDeny cause [for_change_set kind]
      | UnclRequireApproval \<Rightarrow> assemble p [(RequireApproval, for_change_set kind)] 0)"

definition evaluate ::
  "policy option \<Rightarrow> baseline \<Rightarrow> capabilities \<Rightarrow> preflight_report option \<Rightarrow> policy_decision" where
  "evaluate pol b caps report =
     (case baseline_verdict b caps report of
        Some reason \<Rightarrow> DecDeny reason []
      | None \<Rightarrow>
     (case pol of
        None \<Rightarrow> DecAllow 0
      | Some p \<Rightarrow>
     (case report of
        None \<Rightarrow>
          DecDeny (''no preflight report was produced, so nothing inspected the pending schema '' @
            ''changes; the policy cannot approve what nobody has looked at'')
            [for_change_set ''preflight_not_run'']
      | Some r \<Rightarrow>
     if \<not> cap_risk_tier caps then
       unclassified_change_set p
         (''the migration adapter does not advertise `risk_tier`, so no pending schema change '' @
          ''was classified'') ''no_risk_tier_capability''
     else
       (case usable_change_set r of
          Inl NotEmitted \<Rightarrow>
            unclassified_change_set p
              (''the migration adapter advertises `risk_tier` but emitted no change-set; it '' @
               ''claimed to classify and then did not, which is an adapter bug'') ''no_change_set''
        | Inl error \<Rightarrow> DecDeny (show_unavailable error) [for_change_set ''unreadable_change_set'']
        | Inr cs \<Rightarrow>
            assemble p
              (filter (\<lambda>t. fst t \<noteq> AutoApply) (map (\<lambda>c. (action_for p c, for_change c)) (changes cs)))
              (length (changes cs))))))"

section \<open>Inspection and the gate\<close>

record inspection =
  insp_adapter :: "adapter_description option"
  insp_capabilities :: capabilities
  insp_report :: "preflight_report option"

text \<open>\<open>Inspection::default()\<close>: nobody was asked.\<close>

definition inspection_default :: inspection where
  "inspection_default =
     \<lparr>insp_adapter = None,
      insp_capabilities = \<lparr>cap_preflight = False, cap_risk_tier = False, cap_window_safe = False\<rparr>,
      insp_report = None\<rparr>"

definition inspect_described ::
  "'w migration_adapter \<Rightarrow> adapter_ctx \<Rightarrow> adapter_description \<Rightarrow> ('w, inspection) call" where
  "inspect_described migration ctx described =
     (let caps = from_advertised (ad_capabilities described) in
      and_then (if cap_preflight caps then map_ok Some (preflight migration ctx) else ok None)
        (\<lambda>report. ok \<lparr>insp_adapter = Some described, insp_capabilities = caps, insp_report = report\<rparr>))"

definition inspect :: "'w migration_adapter \<Rightarrow> adapter_ctx \<Rightarrow> ('w, inspection) call" where
  "inspect migration ctx =
     and_then (describe migration) (\<lambda>described. inspect_described migration ctx described)"

definition refused :: string where
  "refused = ''policy refused:''"

definition refuse :: "string \<Rightarrow> string" where
  "refuse reason = refused @ '' '' @ reason"

record 'w policy_gate =
  gate_policy :: "policy option"
  gate_hook :: "'w approval_hook option"

definition gate_default :: "'w policy_gate" where
  "gate_default = \<lparr>gate_policy = None, gate_hook = None\<rparr>"

definition gate_new :: "policy \<Rightarrow> 'w policy_gate" where
  "gate_new p = \<lparr>gate_policy = Some p, gate_hook = None\<rparr>"

definition with_hook :: "'w approval_hook option \<Rightarrow> 'w policy_gate \<Rightarrow> 'w policy_gate" where
  "with_hook hook g = g\<lparr>gate_hook := hook\<rparr>"

definition admit ::
  "'w policy_gate \<Rightarrow> baseline \<Rightarrow> capabilities \<Rightarrow> preflight_report option \<Rightarrow> adapter_ctx \<Rightarrow> ('w, string, unit) eff" where
  "admit g b caps report ctx w =
     (case evaluate (gate_policy g) b caps report of
        DecAllow _ \<Rightarrow> (Inr (), w)
      | DecDeny reason _ \<Rightarrow> (Inl (refuse reason), w)
      | DecNeedsApproval reasons \<Rightarrow>
          (case gate_hook g of
             None \<Rightarrow>
               (Inl (refuse (''approval is required, and the policy declares an approval hook that was '' @
                 ''never wired into the deploy'')), w)
           | Some hook \<Rightarrow>
               (let request = approval_request_new (ctx_fraise ctx) (ctx_environment ctx) reasons in
                case hook request w of
                  (Approved _, w') \<Rightarrow> (Inr (), w')
                | (Denied reason, w') \<Rightarrow>
                    (Inl (refuse (''approval was refused for '' @ summarise (req_reasons request) @ '': '' @ reason)), w'))))"

section \<open>The worst action\<close>

lemma worst_action_Max: "worst_action as = Max (insert AutoApply (set as))"
proof (cases as)
  case (Cons a bs)
  have "worst_action as = Max (set as)"
    unfolding Cons worst_action_def by (simp only: list.case Max.set_eq_fold)
  also have "\<dots> = Max (insert AutoApply (set as))"
    using Cons by (simp add: max_absorb2)
  finally show ?thesis .
qed (simp add: worst_action_def)

lemma worst_action_iff:
  "worst_action as = a \<longleftrightarrow> (a = AutoApply \<or> a \<in> set as) \<and> (\<forall>b\<in>set as. b \<le> a)"
  unfolding worst_action_Max by (subst Max_eq_iff) auto

lemma worst_action_AutoApply [simp]: "worst_action as = AutoApply \<longleftrightarrow> set as \<subseteq> {AutoApply}"
  by (auto simp: worst_action_iff)

lemma worst_action_Deny [simp]: "worst_action as = Deny \<longleftrightarrow> Deny \<in> set as"
  by (auto simp: worst_action_iff)

lemma worst_action_RequireApproval [simp]:
  "worst_action as = RequireApproval \<longleftrightarrow> RequireApproval \<in> set as \<and> Deny \<notin> set as"
proof -
  have "b \<le> RequireApproval \<longleftrightarrow> b \<noteq> Deny" for b
    by (cases b) (simp_all add: less_eq_policy_action_def)
  then show ?thesis by (auto simp: worst_action_iff)
qed

text \<open>The triggers of a change-set: what is not auto-applied, in the adapter's order.\<close>

definition triggers :: "policy \<Rightarrow> change_set \<Rightarrow> (policy_action \<times> policy_reason) list" where
  "triggers p cs = filter (\<lambda>t. fst t \<noteq> AutoApply) (map (\<lambda>c. (action_for p c, for_change c)) (changes cs))"

lemma triggers_actions: "fst ` set (triggers p cs) = action_for p ` set (changes cs) - {AutoApply}"
  by (force simp: triggers_def image_iff)

lemma triggers_reasons:
  "map snd (triggers p cs) = map for_change (filter (\<lambda>c. action_for p c \<noteq> AutoApply) (changes cs))"
  by (simp add: triggers_def filter_map o_def)

lemma assemble_allow: "assemble p ts n = DecAllow m \<longleftrightarrow> fst ` set ts \<subseteq> {AutoApply} \<and> m = n"
  by (auto simp: assemble_def Let_def split: policy_action.splits)

lemma assemble_approval:
  "assemble p ts n = DecNeedsApproval reasons \<longleftrightarrow>
     has_approval_hook p \<and> RequireApproval \<in> fst ` set ts \<and> Deny \<notin> fst ` set ts \<and> reasons = map snd ts"
  by (auto simp: assemble_def Let_def split: policy_action.splits)

lemma unclassified_allow [simp]: "unclassified_change_set p cause kind \<noteq> DecAllow n"
  by (auto simp: unclassified_change_set_def assemble_allow split: unclassified_action.splits)

lemma unclassified_approval [simp]:
  "unclassified_change_set p cause kind = DecNeedsApproval reasons \<longleftrightarrow>
     pol_unclassified p = UnclRequireApproval \<and> has_approval_hook p \<and> reasons = [for_change_set kind]"
  by (auto simp: unclassified_change_set_def assemble_approval split: unclassified_action.splits)

section \<open>What the gate lets through\<close>

lemma allow_char:
  "(\<exists>n. evaluate pol b caps report = DecAllow n) \<longleftrightarrow>
     baseline_verdict b caps report = None \<and>
     (pol = None \<or>
      (\<exists>p r cs. pol = Some p \<and> report = Some r \<and> cap_risk_tier caps \<and> usable_change_set r = Inr cs \<and>
         action_for p ` set (changes cs) \<subseteq> {AutoApply}))"
proof -
  have trig: "assemble p (triggers p cs) n = DecAllow m \<longleftrightarrow> action_for p ` set (changes cs) \<subseteq> {AutoApply} \<and> m = n" for p cs n m
    by (auto simp: assemble_allow triggers_actions)
  show ?thesis
    by (auto simp: evaluate_def triggers_def [symmetric] trig split: option.splits sum.splits change_set_unavailable.splits)
qed

text \<open>
  A deploy is allowed without asking anyone exactly when the baseline has no objection and
  either no policy is configured, or the adapter advertises \<open>risk_tier\<close>, its report carries a
  change-set this build can read, and the policy auto-applies every single change in it. Every
  way of not knowing (no report, no capability, no change-set, a contract from the future, an
  unclassified change) is a refusal.
\<close>

theorem evaluate_allow_iff:
  "(\<exists>n. evaluate pol b caps report = DecAllow n) \<longleftrightarrow>
     baseline_verdict b caps report = None \<and>
     (pol = None \<or>
      (\<exists>p r cs. pol = Some p \<and> report = Some r \<and> cap_risk_tier caps \<and> usable_change_set r = Inr cs \<and>
         action_for p ` set (changes cs) \<subseteq> {AutoApply}))"
  by (rule allow_char)

lemma approval_char:
  "evaluate pol b caps report = DecNeedsApproval reasons \<longleftrightarrow>
     baseline_verdict b caps report = None \<and>
     (\<exists>p r. pol = Some p \<and> report = Some r \<and> has_approval_hook p \<and>
        (if \<not> cap_risk_tier caps then
           pol_unclassified p = UnclRequireApproval \<and> reasons = [for_change_set ''no_risk_tier_capability'']
         else if pr_change_set r = None then
           pol_unclassified p = UnclRequireApproval \<and> reasons = [for_change_set ''no_change_set'']
         else \<exists>cs. usable_change_set r = Inr cs \<and>
           RequireApproval \<in> action_for p ` set (changes cs) \<and> Deny \<notin> action_for p ` set (changes cs) \<and>
           reasons = map for_change (filter (\<lambda>c. action_for p c \<noteq> AutoApply) (changes cs))))"
proof -
  have trig: "assemble p (triggers p cs) n = DecNeedsApproval rs \<longleftrightarrow>
      has_approval_hook p \<and> RequireApproval \<in> action_for p ` set (changes cs) \<and> Deny \<notin> action_for p ` set (changes cs) \<and>
      rs = map for_change (filter (\<lambda>c. action_for p c \<noteq> AutoApply) (changes cs))" for p cs n rs
    unfolding assemble_approval triggers_actions triggers_reasons by auto
  have emitted: "usable_change_set r = Inl NotEmitted \<longleftrightarrow> pr_change_set r = None" for r
    by (auto simp: usable_change_set_def split: option.splits if_splits)
  show ?thesis
    by (auto simp: evaluate_def triggers_def [symmetric] trig emitted split: option.splits sum.splits change_set_unavailable.splits if_splits)
      (auto simp: usable_change_set_def split: if_splits)
qed

text \<open>
  Sign-off is asked for exactly when the baseline has no objection, the policy has a hook, and
  either some change requires approval and none is denied (then the request lists every change
  that is not auto-applied, in the adapter's order), or nothing classified the pending changes
  and the policy sends unclassified changes to approval.
\<close>

theorem evaluate_approval_iff:
  "evaluate pol b caps report = DecNeedsApproval reasons \<longleftrightarrow>
     baseline_verdict b caps report = None \<and>
     (\<exists>p r. pol = Some p \<and> report = Some r \<and> has_approval_hook p \<and>
        (if \<not> cap_risk_tier caps then
           pol_unclassified p = UnclRequireApproval \<and> reasons = [for_change_set ''no_risk_tier_capability'']
         else if pr_change_set r = None then
           pol_unclassified p = UnclRequireApproval \<and> reasons = [for_change_set ''no_change_set'']
         else \<exists>cs. usable_change_set r = Inr cs \<and>
           RequireApproval \<in> action_for p ` set (changes cs) \<and> Deny \<notin> action_for p ` set (changes cs) \<and>
           reasons = map for_change (filter (\<lambda>c. action_for p c \<noteq> AutoApply) (changes cs))))"
  by (rule approval_char)

lemma admit_char:
  "admit g b caps report ctx w = (Inr (), w') \<longleftrightarrow>
     ((\<exists>n. evaluate (gate_policy g) b caps report = DecAllow n) \<and> w' = w) \<or>
     (\<exists>reasons hook approver. evaluate (gate_policy g) b caps report = DecNeedsApproval reasons \<and>
        gate_hook g = Some hook \<and>
        hook (approval_request_new (ctx_fraise ctx) (ctx_environment ctx) reasons) w = (Approved approver, w'))"
  by (auto simp: admit_def Let_def split: policy_decision.splits option.splits prod.splits approval_verdict.splits)

text \<open>What the policy's table says of one change: it is applied by itself, or it may be applied once somebody signs it off.\<close>

definition self_applied :: "policy \<Rightarrow> schema_change \<Rightarrow> bool" where
  "self_applied p c \<longleftrightarrow> (\<exists>t. sch_tier c = Some t \<and> pol_actions p t = Some AutoApply)"

definition approvable :: "policy \<Rightarrow> schema_change \<Rightarrow> bool" where
  "approvable p c \<longleftrightarrow> (case sch_tier c of
     None \<Rightarrow> pol_unclassified p = UnclRequireApproval | Some t \<Rightarrow> pol_actions p t \<in> {Some AutoApply, Some RequireApproval})"

lemma action_for_table: "action_for p c = AutoApply \<longleftrightarrow> self_applied p c" "action_for p c = Deny \<longleftrightarrow> \<not> approvable p c"
proof -
  have full: "a \<in> {AutoApply, RequireApproval, Deny}" for a by (cases a) simp_all
  show "action_for p c = AutoApply \<longleftrightarrow> self_applied p c" "action_for p c = Deny \<longleftrightarrow> \<not> approvable p c"
    using full by (cases "pol_unclassified p"; auto simp: action_for_def self_applied_def approvable_def split: option.splits)+
qed

lemma actions_table:
  "action_for p ` set cs \<subseteq> {AutoApply} \<longleftrightarrow> filter (\<lambda>c. \<not> self_applied p c) cs = []"
  "RequireApproval \<in> action_for p ` set cs \<and> Deny \<notin> action_for p ` set cs \<longleftrightarrow>
     filter (\<lambda>c. \<not> self_applied p c) cs \<noteq> [] \<and> (\<forall>c\<in>set cs. approvable p c)"
proof -
  have "action_for p c = RequireApproval \<longleftrightarrow> \<not> self_applied p c \<and> approvable p c" for c
    using action_for_table [of p c] by (cases "action_for p c") auto
  then show "action_for p ` set cs \<subseteq> {AutoApply} \<longleftrightarrow> filter (\<lambda>c. \<not> self_applied p c) cs = []"
    "RequireApproval \<in> action_for p ` set cs \<and> Deny \<notin> action_for p ` set cs \<longleftrightarrow>
       filter (\<lambda>c. \<not> self_applied p c) cs \<noteq> [] \<and> (\<forall>c\<in>set cs. approvable p c)"
    using action_for_table(1) action_for_table(2) [symmetric] by (auto simp: filter_empty_conv image_iff) metis+
qed

text \<open>
  C16: what the gate lets through under a policy, change by change. A deploy is admitted exactly when the baseline has no
  objection, the pending changes were inspected, and one of three holds: every change of a readable change-set is classified in a tier the
  policy's table applies by itself, and then nobody is asked; or some is not, the table or the rule for unclassified changes sends
  each of the others to sign-off rather than refusing it, and the wired hook approved a request that lists exactly these others in the
  adapter's order; or nothing was classified, the policy sends that to sign-off, and the hook approved. One
  change that the policy refuses, a change-set this build cannot read, a missing report, a hook that is missing or says no: each refuses the deploy.
\<close>

theorem gate_admits_iff_cleared:
  assumes "gate_policy g = Some p"
  shows "admit g b caps report ctx w = (Inr (), w') \<longleftrightarrow> baseline_verdict b caps report = None \<and> (\<exists>r. report = Some r \<and>
    ((\<exists>cs. cap_risk_tier caps \<and> usable_change_set r = Inr cs \<and> filter (\<lambda>c. \<not> self_applied p c) (changes cs) = [] \<and> w' = w) \<or>
     (\<exists>hook approver reasons. has_approval_hook p \<and> gate_hook g = Some hook \<and>
        hook (approval_request_new (ctx_fraise ctx) (ctx_environment ctx) reasons) w = (Approved approver, w') \<and>
        (if \<not> cap_risk_tier caps then pol_unclassified p = UnclRequireApproval \<and> reasons = [for_change_set ''no_risk_tier_capability'']
         else if pr_change_set r = None then pol_unclassified p = UnclRequireApproval \<and> reasons = [for_change_set ''no_change_set'']
         else \<exists>cs. usable_change_set r = Inr cs \<and> filter (\<lambda>c. \<not> self_applied p c) (changes cs) \<noteq> [] \<and>
           (\<forall>c\<in>set (changes cs). approvable p c) \<and> reasons = map for_change (filter (\<lambda>c. \<not> self_applied p c) (changes cs))))))"
proof -
  define Q where "Q r reasons \<longleftrightarrow>
    (if \<not> cap_risk_tier caps then pol_unclassified p = UnclRequireApproval \<and> reasons = [for_change_set ''no_risk_tier_capability'']
     else if pr_change_set r = None then pol_unclassified p = UnclRequireApproval \<and> reasons = [for_change_set ''no_change_set'']
     else \<exists>cs. usable_change_set r = Inr cs \<and> filter (\<lambda>c. \<not> self_applied p c) (changes cs) \<noteq> [] \<and>
       (\<forall>c\<in>set (changes cs). approvable p c) \<and> reasons = map for_change (filter (\<lambda>c. \<not> self_applied p c) (changes cs)))" for r reasons
  have approval: "evaluate (Some p) b caps report = DecNeedsApproval reasons \<longleftrightarrow>
      baseline_verdict b caps report = None \<and> (\<exists>r. report = Some r \<and> has_approval_hook p \<and> Q r reasons)" for reasons
    unfolding approval_char Q_def conj_assoc [symmetric] actions_table(2) [symmetric] by (simp add: action_for_table conj_assoc)
  show ?thesis
    unfolding admit_char allow_char approval assms actions_table(1) Q_def [symmetric] by (cases report) (simp_all, blast)
qed

text \<open>A hook for the examples, which approves and counts what it was asked.\<close>

definition yes_hook :: "nat approval_hook" where
  "yes_hook request n = (Approved ''ops'', n + length (req_reasons request))"

definition demo_policy :: policy where
  "demo_policy = policy_default\<lparr>has_approval_hook := True\<rparr>"

definition demo_changes :: change_set where
  "demo_changes = change_set_new
     [(schema_change_new ''add column'' ''users'')\<lparr>sch_tier := Some Additive\<rparr>, (schema_change_new ''drop table'' ''carts'')\<lparr>sch_tier := Some Destructive\<rparr>]"

theorem gate_admits_iff_cleared_witness:
  "admit (with_hook (Some yes_hook) (gate_new demo_policy)) BaseNone (capabilities_new True True)
     (Some ((preflight_report_new True)\<lparr>pr_change_set := Some demo_changes\<rparr>)) (ctx_new ''app'' ''prod'') 0 = (Inr (), 1)"
proof -
  let ?r = "(preflight_report_new True)\<lparr>pr_change_set := Some demo_changes\<rparr>"
  let ?drop = "(schema_change_new ''drop table'' ''carts'')\<lparr>sch_tier := Some Destructive\<rparr>"
  have gate: "gate_policy (with_hook (Some yes_hook) (gate_new demo_policy)) = Some demo_policy"
    "gate_hook (with_hook (Some yes_hook) (gate_new demo_policy)) = Some yes_hook" "has_approval_hook demo_policy"
    by (simp_all add: with_hook_def gate_new_def demo_policy_def)
  have report: "usable_change_set ?r = Inr demo_changes" "pr_change_set ?r \<noteq> None"
    by (simp_all add: usable_change_set_def demo_changes_def change_set_new_def change_set_default_def)
  have table: "pol_actions demo_policy Additive = Some AutoApply" "pol_actions demo_policy Destructive = Some RequireApproval"
    by (simp_all add: demo_policy_def policy_default_def policy_new_def default_auto_apply_def default_require_approval_def)
  then have changes: "filter (\<lambda>c. \<not> self_applied demo_policy c) (changes demo_changes) = [?drop]" "\<forall>c\<in>set (changes demo_changes). approvable demo_policy c"
    by (simp_all add: self_applied_def approvable_def demo_changes_def change_set_new_def)
  have yes: "yes_hook (approval_request_new f e [for_change ?drop]) 0 = (Approved ''ops'', 1)" for f e
    by (simp add: yes_hook_def approval_request_new_def)
  have base: "baseline_verdict BaseNone caps r = None" for caps r by (simp add: baseline_verdict_def)
  have caps: "cap_risk_tier (capabilities_new True True)" by (simp add: capabilities_new_def)
  show ?thesis
    unfolding gate_admits_iff_cleared [OF gate(1)]
    by (rule conjI [OF base], rule exI [of _ ?r], rule conjI [OF refl], rule disjI2, rule exI [of _ yes_hook], rule exI [of _ "''ops''"],
        rule exI [of _ "[for_change ?drop]"])
      (use gate report changes yes caps in simp)
qed

text \<open>
  C17: The window rule cannot be overridden. Under the blue-green baseline, whatever the policy and
  whatever the approval hook answers, a deploy is admitted only if the adapter advertises both
  \<open>preflight\<close> and \<open>window_safe\<close> and its report certifies the window; otherwise the refusal comes
  without the hook being asked.
\<close>

theorem window_safety_not_overridable:
  "(\<exists>r. cap_preflight caps \<and> cap_window_safe caps \<and> report = Some r \<and> window_safe r = Some True) \<or>
   (\<exists>m. admit g WindowSafety caps report ctx w = (Inl (refuse m), w))"
proof (cases "baseline_verdict WindowSafety caps report")
  case None
  then show ?thesis
    by (auto simp: baseline_verdict_def split: if_splits option.splits bool.splits)
next
  case (Some m)
  then show ?thesis by (auto simp: admit_def evaluate_def)
qed

text \<open>
  Every refusal of the gate opens with the marker that tells an operator a policy block from any
  other preflight failure.
\<close>

theorem refusal_is_marked:
  assumes "admit g b caps report ctx w = (Inl m, w')"
  shows "\<exists>reason. m = ''policy refused: '' @ reason"
proof -
  from assms obtain reason where "m = refuse reason"
    by (auto simp: admit_def Let_def split: policy_decision.splits option.splits prod.splits approval_verdict.splits)
  then show ?thesis by (simp add: refuse_def refused_def)
qed

theorem refusal_is_marked_witness:
  "\<exists>m reason. admit (gate_new policy_default) BaseNone (capabilities_new True True) None (ctx_new ''app'' ''prod'') (0 :: nat) = (Inl m, 0) \<and>
     m = ''policy refused: '' @ reason"
proof -
  let ?m = "refuse (''no preflight report was produced, so nothing inspected the pending schema '' @
            ''changes; the policy cannot approve what nobody has looked at'')"
  have "admit (gate_new policy_default) BaseNone (capabilities_new True True) None (ctx_new ''app'' ''prod'') (0 :: nat) = (Inl ?m, 0)"
    by (simp add: admit_def gate_new_def evaluate_def baseline_verdict_def)
  with refusal_is_marked [OF this] show ?thesis by blast
qed

lemma default_action:
  "action_for policy_default c =
     (case sch_tier c of Some t \<Rightarrow> if t \<le> Reversible then AutoApply else RequireApproval | None \<Rightarrow> Deny)"
proof (cases "sch_tier c")
  case (Some t)
  then show ?thesis
    by (cases t) (simp_all add: action_for_def policy_default_def policy_new_def default_auto_apply_def
      default_require_approval_def less_eq_risk_tier_def)
qed (simp add: action_for_def policy_default_def policy_new_def)

text \<open>
  Under the default policy the gate never asks for sign-off and admits a deploy only if every
  pending change is classified as additive or reversible, whatever the adapter says otherwise.
\<close>

theorem default_policy_admits:
  "(\<exists>w'. admit (with_hook hook (gate_new policy_default)) b caps report ctx w = (Inr (), w')) \<longleftrightarrow>
     baseline_verdict b caps report = None \<and> cap_risk_tier caps \<and>
     (\<exists>r cs. report = Some r \<and> usable_change_set r = Inr cs \<and> unclassified cs = [] \<and>
        (worst_tier cs = None \<or> (\<exists>t. worst_tier cs = Some t \<and> t \<le> Reversible)))"
proof -
  have nohook: "evaluate (Some policy_default) b caps report \<noteq> DecNeedsApproval reasons" for reasons
    by (auto simp: approval_char policy_default_def policy_new_def)
  have auto: "action_for policy_default ` set (changes cs) \<subseteq> {AutoApply} \<longleftrightarrow>
      unclassified cs = [] \<and> (worst_tier cs = None \<or> (\<exists>t. worst_tier cs = Some t \<and> t \<le> Reversible))" for cs
  proof -
    let ?T = "{t. \<exists>c\<in>set (changes cs). sch_tier c = Some t}"
    have fin: "finite ?T" unfolding set_map_filter_tier [symmetric] by simp
    have "(worst_tier cs = None \<or> (\<exists>t. worst_tier cs = Some t \<and> t \<le> Reversible)) \<longleftrightarrow> (\<forall>t\<in>?T. t \<le> Reversible)"
      unfolding worst_tier_Max Let_def using fin by auto
    moreover have "action_for policy_default ` set (changes cs) \<subseteq> {AutoApply} \<longleftrightarrow>
        unclassified cs = [] \<and> (\<forall>t\<in>?T. t \<le> Reversible)"
      by (auto simp: default_action unclassified_def filter_empty_conv split: option.splits if_splits) fastforce
    ultimately show ?thesis by simp
  qed
  have "(\<exists>w'. admit (with_hook hook (gate_new policy_default)) b caps report ctx w = (Inr (), w')) \<longleftrightarrow>
      (\<exists>n. evaluate (Some policy_default) b caps report = DecAllow n)"
    by (simp add: admit_char nohook with_hook_def gate_new_def)
  then show ?thesis by (auto simp: allow_char auto)
qed

end
