(* ===== verification/Preflight.thy ===== *)
theory Preflight
  imports Policy
begin

text \<open>
  The checks a deploy runs before it changes anything: database readiness
  (\<open>fraisier-core/src/readiness.rs\<close>), the restore rehearsal
  (\<open>fraisier-core/src/restore_rehearsal.rs\<close>) and the blue-green connection budget
  (\<open>fraisier-core/src/connection_budget.rs\<close>).
\<close>

section \<open>Database readiness\<close>

definition database_url_secret :: string where
  "database_url_secret = ''DATABASE_URL''"

text \<open>The probe: every reason the database at a DSN is not ready, or why it could not be asked.\<close>

type_synonym 'w database_readiness = "string \<Rightarrow> ('w, string, string list) eff"

definition refuse_preflight :: "string \<Rightarrow> saga_error" where
  "refuse_preflight message = StepFailed ''preflight'' message"

definition readiness_check ::
  "process_env \<Rightarrow> 'w database_readiness \<Rightarrow> adapter_ctx \<Rightarrow> ('w, saga_error, unit) eff" where
  "readiness_check env unready ctx =
     (case secret env ctx database_url_secret of
        Inl error \<Rightarrow>
          fail (refuse_preflight (''could not check database readiness: the database DSN is unavailable: '' @
            show_adapter_error error))
      | Inr live_dsn \<Rightarrow>
          and_then (map_err (\<lambda>error. refuse_preflight (''could not check database readiness: '' @ error)) (unready live_dsn))
            (\<lambda>reasons. if reasons = [] then ok ()
               else fail (refuse_preflight (''the database is not ready for this deployable: '' @ join ''; '' reasons))))"

section \<open>Restore rehearsal\<close>

definition against_database_url_secret :: string where
  "against_database_url_secret = ''AGAINST_DATABASE_URL''"

definition deep_classification :: string where
  "deep_classification = ''deep_classification''"

datatype backup_source = FreshDump | Archive string

record throwaway_db =
  td_dsn :: string
  td_name :: string
  td_live :: string

record rehearsal_report =
  rr_applied :: "revision list"
  rr_teardown_warning :: "string option"

datatype rehearsal_error =
    RehearsalSecret adapter_error
  | RehearsalProvision string
  | RehearsalMigrate adapter_error

fun show_rehearsal_error :: "rehearsal_error \<Rightarrow> string" where
  "show_rehearsal_error (RehearsalSecret e) =
     ''restore-rehearsal could not resolve the database DSN: '' @ show_adapter_error e"
| "show_rehearsal_error (RehearsalProvision m) =
     ''restore-rehearsal could not provision the throwaway database: '' @ m"
| "show_rehearsal_error (RehearsalMigrate e) =
     ''restore-rehearsal migration failed on the throwaway database: '' @ show_adapter_error e"

fun remedy :: "rehearsal_error \<Rightarrow> string" where
  "remedy (RehearsalMigrate _) =
     ''The pending migrations did not apply cleanly on a fresh restore. Fix the migrations''"
| "remedy (RehearsalProvision _) =
     ''The pending migrations were not rehearsed: the throwaway copy could not be '' @
     ''created or seeded. If the database role may not create databases, grant it '' @
     ''CREATEDB or name a restore identity with `[database].admin_url_env`. Otherwise '' @
     ''fix the cause above''"
| "remedy (RehearsalSecret _) =
     ''The pending migrations were not rehearsed: the live database DSN could not '' @
     ''be resolved. Check the `DATABASE_URL` secret''"

record 'w rehearsal_db =
  rdb_provision :: "string \<Rightarrow> backup_source \<Rightarrow> ('w, rehearsal_error, throwaway_db) eff"
  rdb_teardown :: "throwaway_db \<Rightarrow> ('w, string, unit) eff"

definition provision ::
  "process_env \<Rightarrow> 'w rehearsal_db \<Rightarrow> adapter_ctx \<Rightarrow> backup_source \<Rightarrow> ('w, rehearsal_error, throwaway_db) eff" where
  "provision env db ctx backup =
     (case secret env ctx database_url_secret of
        Inl e \<Rightarrow> fail (RehearsalSecret e)
      | Inr live_dsn \<Rightarrow> rdb_provision db live_dsn backup)"

definition on_throwaway :: "adapter_ctx \<Rightarrow> throwaway_db \<Rightarrow> adapter_ctx" where
  "on_throwaway ctx t = with_resolved_secret database_url_secret (td_dsn t) ctx"

definition against_throwaway :: "adapter_ctx \<Rightarrow> throwaway_db \<Rightarrow> adapter_ctx" where
  "against_throwaway ctx t =
     with_resolved_secret against_database_url_secret (td_dsn t) (on_throwaway ctx t)"

definition classifies_deeply :: "adapter_description \<Rightarrow> bool" where
  "classifies_deeply described = (deep_classification \<in> set (ad_capabilities described))"

definition rehearse_on ::
  "'w migration_adapter \<Rightarrow> adapter_ctx \<Rightarrow> throwaway_db \<Rightarrow> ('w, rehearsal_error, revision list) eff" where
  "rehearse_on migration ctx t =
     map_err RehearsalMigrate (map_ok mo_applied (up migration (on_throwaway ctx t) None))"

text \<open>\<open>Result::err\<close>.\<close>

definition result_err :: "'e + 'a \<Rightarrow> 'e option" where
  "result_err r = (case r of Inl e \<Rightarrow> Some e | Inr _ \<Rightarrow> None)"

definition run_restore_rehearsal ::
  "process_env \<Rightarrow> 'w rehearsal_db \<Rightarrow> 'w migration_adapter \<Rightarrow> adapter_ctx \<Rightarrow> backup_source \<Rightarrow>
     ('w, rehearsal_error, rehearsal_report) eff" where
  "run_restore_rehearsal env db migration ctx backup =
     and_then (provision env db ctx backup) (\<lambda>t.
     and_then (result_of (rehearse_on migration ctx t)) (\<lambda>migrate_result.
     and_then (result_of (rdb_teardown db t)) (\<lambda>teardown_result.
     and_then (from_result migrate_result) (\<lambda>applied.
     ok \<lparr>rr_applied = applied, rr_teardown_warning = result_err teardown_result\<rparr>))))"

section \<open>Connection budget\<close>

record budget_snapshot =
  max_connections :: "32 word"
  current_connections :: "32 word"

datatype budget_verdict = BudgetOk | BudgetWarn string | BudgetRefuse string

type_synonym 'w connection_budget = "adapter_ctx \<Rightarrow> ('w, string, budget_snapshot) eff"

text \<open>\<open>u32::saturating_add\<close> and \<open>u32::saturating_sub\<close>.\<close>

definition saturating_add :: "32 word \<Rightarrow> 32 word \<Rightarrow> 32 word" where
  "saturating_add a b = (if unat a + unat b < 2 ^ 32 then a + b else - 1)"

definition saturating_sub :: "32 word \<Rightarrow> 32 word \<Rightarrow> 32 word" where
  "saturating_sub a b = (if b \<le> a then a - b else 0)"

definition show_u32 :: "32 word \<Rightarrow> string" where
  "show_u32 w = show_nat (unat w)"

definition budget_evaluate :: "budget_snapshot \<Rightarrow> 32 word \<Rightarrow> 32 word \<Rightarrow> budget_verdict" where
  "budget_evaluate snapshot green_pool margin =
     (let projected = saturating_add (current_connections snapshot) green_pool;
          mx = max_connections snapshot
      in if projected > mx then
           BudgetRefuse (''blue-green would need '' @ show_u32 projected @ '' connections (current '' @
             show_u32 (current_connections snapshot) @ '' + green pool '' @ show_u32 green_pool @
             '') but max_connections is '' @ show_u32 mx @
             '': refusing before the swap (raise max_connections or shrink the pool)'')
         else if projected > saturating_sub mx margin then
           BudgetWarn (''blue-green will use '' @ show_u32 projected @ ''/'' @ show_u32 mx @ '' connections '' @
             em_dash @ '' within the '' @ show_u32 margin @ ''-connection safety margin'')
         else BudgetOk)"

section \<open>The budget check is exact\<close>

lemma unat_saturating_add: "unat (saturating_add a b) = min (unat a + unat b) (2 ^ 32 - 1)"
proof (cases "unat a + unat b < 2 ^ 32")
  case True
  then show ?thesis by (simp add: saturating_add_def unat_word_ariths)
next
  case False
  have "unat (- 1 :: 32 word) = 2 ^ 32 - 1"
    by (simp add: unsigned_minus_1_eq_mask mask_eq_exp_minus_1)
  with False show ?thesis by (simp add: saturating_add_def)
qed

lemma unat_saturating_sub: "unat (saturating_sub a b) = unat a - unat b"
  by (auto simp: saturating_sub_def unat_sub word_le_nat_alt)

text \<open>
  Below the top of the \<open>u32\<close> range the budget verdict is the arithmetic one: the deploy is refused
  exactly when the sum of both fleets' connections exceeds the server's limit, and it is let
  through without a warning exactly when the sum stays the margin below the limit. Saturation
  never turns a refusal into a pass.
\<close>

theorem budget_exact:
  assumes "unat (max_connections s) < 2 ^ 32 - 1"
  shows "((\<exists>m. budget_evaluate s pool margin = BudgetRefuse m) \<longleftrightarrow>
      unat (current_connections s) + unat pool > unat (max_connections s)) \<and>
    (budget_evaluate s pool margin = BudgetOk \<longleftrightarrow>
      unat (current_connections s) + unat pool \<le> unat (max_connections s) - unat margin)"
  using assms
  by (auto simp: budget_evaluate_def Let_def word_less_nat_alt unat_saturating_add unat_saturating_sub)

theorem budget_exact_witness:
  "let s = \<lparr>max_connections = 100, current_connections = 60\<rparr> in
   ((\<exists>m. budget_evaluate s 60 10 = BudgetRefuse m) \<longleftrightarrow> unat (60 :: 32 word) + unat (60 :: 32 word) > unat (100 :: 32 word)) \<and>
   (budget_evaluate s 60 10 = BudgetOk \<longleftrightarrow> unat (60 :: 32 word) + unat (60 :: 32 word) \<le> unat (100 :: 32 word) - unat (10 :: 32 word))"
  using budget_exact [of "\<lparr>max_connections = 100, current_connections = 60\<rparr>" 60 10] by simp

section \<open>What the checks guarantee\<close>

text \<open>
  Readiness fails closed. The deploy goes on exactly when the DSN resolved, the probe of that DSN
  ran, and it reported nothing missing.
\<close>

theorem readiness_fails_closed:
  "readiness_check env unready ctx w = (Inr (), w') \<longleftrightarrow>
     (\<exists>dsn. secret env ctx ''DATABASE_URL'' = Inr dsn \<and> unready dsn w = (Inr [], w'))"
  by (auto simp: readiness_check_def database_url_secret_def and_then_eq_Inr split: sum.splits if_splits)

text \<open>
  The throwaway is torn down exactly once, after the rehearsal, whatever the rehearsal did; a
  failed teardown never turns into a failed rehearsal.
\<close>

lemma rehearsal_run:
  assumes "provision env db ctx backup w = (Inr t, w1)" and "rehearse_on migration ctx t w1 = (r, w2)"
    and "rdb_teardown db t w2 = (d, w3)"
  shows "run_restore_rehearsal env db migration ctx backup w =
    ((case r of Inl e \<Rightarrow> Inl e | Inr applied \<Rightarrow> Inr \<lparr>rr_applied = applied, rr_teardown_warning = result_err d\<rparr>), w3)"
  using assms by (simp add: run_restore_rehearsal_def and_then_def result_of_def split: sum.splits)

lemma rehearsal_not_provisioned:
  assumes "provision env db ctx backup w = (Inl e, w1)"
  shows "run_restore_rehearsal env db migration ctx backup w = (Inl e, w1)"
  using assms by (simp add: run_restore_rehearsal_def)

text \<open>
  The rehearsal cannot touch the live database. Let \<open>live\<close> observe the live database, and assume
  what the contract of the throwaway provider says (provisioning yields a database with a DSN
  other than the live one and leaves the live one alone, and so does dropping such a throwaway) and
  what the migration adapter's contract says (it only acts on the database its \<open>DATABASE_URL\<close>
  secret names). Then no run of the rehearsal, successful or not, changes the live database.
\<close>

theorem rehearsal_spares_live_database:
  assumes "secret env ctx ''DATABASE_URL'' = Inr live_dsn"
    and "keeps live (rdb_provision db live_dsn backup)"
    and "\<And>w t w'. rdb_provision db live_dsn backup w = (Inr t, w') \<Longrightarrow> td_dsn t \<noteq> live_dsn"
    and "\<And>t. td_dsn t \<noteq> live_dsn \<Longrightarrow> keeps live (rdb_teardown db t)"
    and "\<And>c dsn. secret env c ''DATABASE_URL'' = Inr dsn \<Longrightarrow> dsn \<noteq> live_dsn \<Longrightarrow> keeps live (up migration c None)"
  shows "keeps live (run_restore_rehearsal env db migration ctx backup)"
proof (rule keepsI)
  fix w r w'
  assume run: "run_restore_rehearsal env db migration ctx backup w = (r, w')"
  obtain q w1 where prov: "rdb_provision db live_dsn backup w = (q, w1)" by fastforce
  with assms(1) have p: "provision env db ctx backup w = (q, w1)"
    by (simp add: provision_def database_url_secret_def)
  have live1: "live w1 = live w" using keepsD [OF assms(2) prov] .
  show "live w' = live w"
  proof (cases q)
    case (Inl e)
    with rehearsal_not_provisioned p run live1 show ?thesis by fastforce
  next
    case (Inr t)
    then have other: "td_dsn t \<noteq> live_dsn" using assms(3) prov by blast
    obtain m w2 where reh: "rehearse_on migration ctx t w1 = (m, w2)" by fastforce
    obtain d w3 where td: "rdb_teardown db t w2 = (d, w3)" by fastforce
    have "secret env (on_throwaway ctx t) ''DATABASE_URL'' = Inr (td_dsn t)"
      by (simp add: on_throwaway_def database_url_secret_def secret_def with_resolved_secret_def)
    with assms(5) other have "keeps live (rehearse_on migration ctx t)"
      unfolding rehearse_on_def by (intro keeps_map_err keeps_map_ok) blast
    from keepsD [OF this reh] keepsD [OF assms(4) [OF other] td] live1
    have "live w3 = live w" by simp
    with rehearsal_run [OF p [unfolded Inr] reh td] run show ?thesis by simp
  qed
qed

text \<open>
  A world of databases (the number of migrations applied to each DSN), a provider of one
  throwaway and an adapter that migrates the database its secret names.
\<close>

definition demo_rdb :: "(string \<Rightarrow> nat) rehearsal_db" where
  "demo_rdb =
     \<lparr>rdb_provision = (\<lambda>live _ w. (Inr \<lparr>td_dsn = live @ ''_rehearsal'', td_name = ''t'', td_live = ''app''\<rparr>, w(live @ ''_rehearsal'' := w live))),
      rdb_teardown = (\<lambda>t w. (Inr (), w(td_dsn t := 0)))\<rparr>"

definition demo_migration :: "process_env \<Rightarrow> (string \<Rightarrow> nat) migration_adapter" where
  "demo_migration env =
     (no_database ''1'')\<lparr>up := (\<lambda>c _ w. case secret env c ''DATABASE_URL'' of
        Inl e \<Rightarrow> (Inl e, w) | Inr dsn \<Rightarrow> (Inr migration_outcome_default, w(dsn := w dsn + 1)))\<rparr>"

theorem rehearsal_spares_live_database_witness:
  "keeps (\<lambda>w. w ''pg'') (run_restore_rehearsal Inl demo_rdb (demo_migration Inl)
     (with_resolved_secret ''DATABASE_URL'' ''pg'' (ctx_new ''app'' ''prod'')) FreshDump)"
  by (rule rehearsal_spares_live_database [where live_dsn = "''pg''"])
    (auto simp: secret_def with_resolved_secret_def demo_rdb_def demo_migration_def keeps_def split: option.splits)

section \<open>Checks that change nothing but what their parts change\<close>

lemma keeps_admit:
  assumes "\<And>hook req w. gate_hook g = Some hook \<Longrightarrow> obs (snd (hook req w)) = obs w"
  shows "keeps obs (admit g b caps report ctx)"
  using assms by (auto simp: keeps_def admit_def Let_def split: policy_decision.splits option.splits prod.splits approval_verdict.splits)
    (metis snd_conv)+

lemma keeps_inspect:
  assumes "keeps obs (describe m)" and "\<And>c. keeps obs (preflight m c)"
  shows "keeps obs (inspect m c)" "keeps obs (inspect_described m c dsc)"
  unfolding inspect_def inspect_described_def Let_def by (intro keeps_intros assms)+

lemma keeps_readiness_check: "(\<And>dsn. keeps obs (probe dsn)) \<Longrightarrow> keeps obs (readiness_check env probe c)"
  unfolding readiness_check_def by (auto intro!: keeps_intros)

end
