(* ===== verification/Single_Host.thy ===== *)
theory Single_Host
  imports Preflight
begin

text \<open>
  The single-host deploy (\<open>fraisier-core/src/single_host.rs\<close>): seven saga steps over the artifact,
  migration, service and health adapters, and the release ledger that a committed deploy writes
  and the next one reads. A step acts on the run's \<open>DeployRuntime\<close> and on the world \<open>'w\<close> of the
  adapters.
\<close>

section \<open>Data\<close>

record deploy_record =
  rec_active :: "staged_artifact option"
  rec_revision :: "revision option"

definition deploy_record_default :: deploy_record where
  "deploy_record_default = \<lparr>rec_active = None, rec_revision = None\<rparr>"

datatype deploy_error =
    DeploySaga saga_error
  | DeployStore store_error
  | DeployLedger string

record 'w single_host_deploy =
  shd_fraise :: string
  shd_environment :: string
  shd_host :: host_id
  shd_ctx :: adapter_ctx
  shd_target :: "revision option"
  shd_rollback_to :: "revision option"
  shd_lint :: bool
  shd_policy :: "'w policy_gate"
  shd_rehearsal :: "'w rehearsal_db option"
  shd_backup :: backup_source
  shd_readiness :: "'w database_readiness option"
  shd_artifact :: "'w artifact_adapter"
  shd_migration :: "'w migration_adapter"
  shd_service :: "'w service_adapter"
  shd_health :: "'w health_adapter"

record 'w deploy_builder =
  bld_fraise :: string
  bld_environment :: string
  bld_host :: host_id
  bld_ctx :: "adapter_ctx option"
  bld_target :: "revision option"
  bld_rollback_to :: "revision option"
  bld_lint :: bool
  bld_policy :: "'w policy_gate"
  bld_rehearsal :: "'w rehearsal_db option"
  bld_backup :: backup_source
  bld_readiness :: "'w database_readiness option"
  bld_artifact :: "'w artifact_adapter option"
  bld_migration :: "'w migration_adapter option"
  bld_service :: "'w service_adapter option"
  bld_health :: "'w health_adapter option"

definition builder_new :: "string \<Rightarrow> string \<Rightarrow> host_id \<Rightarrow> 'w deploy_builder" where
  "builder_new f e host =
     \<lparr>bld_fraise = f, bld_environment = e, bld_host = host, bld_ctx = None, bld_target = None,
      bld_rollback_to = None, bld_lint = True, bld_policy = gate_default, bld_rehearsal = None,
      bld_backup = FreshDump, bld_readiness = None, bld_artifact = None, bld_migration = None,
      bld_service = None, bld_health = None\<rparr>"

datatype deploy_build_error = MissingAdapter string

text \<open>The builder's setters are the record updates; \<open>restore_rehearsal\<close> sets two fields at once.\<close>

definition set_restore_rehearsal :: "'w rehearsal_db \<Rightarrow> backup_source \<Rightarrow> 'w deploy_builder \<Rightarrow> 'w deploy_builder" where
  "set_restore_rehearsal db backup b = b\<lparr>bld_rehearsal := Some db, bld_backup := backup\<rparr>"

definition build :: "'w deploy_builder \<Rightarrow> deploy_build_error + 'w single_host_deploy" where
  "build b =
     (let ctx = (case bld_ctx b of Some c \<Rightarrow> c | None \<Rightarrow> ctx_new (bld_fraise b) (bld_environment b)) in
      and_if_ok (ok_or (bld_artifact b) (MissingAdapter ''artifact'')) (\<lambda>artifact.
      and_if_ok (ok_or (bld_migration b) (MissingAdapter ''migration'')) (\<lambda>migration.
      and_if_ok (ok_or (bld_service b) (MissingAdapter ''service'')) (\<lambda>service.
      and_if_ok (ok_or (bld_health b) (MissingAdapter ''health'')) (\<lambda>health.
      Inr \<lparr>shd_fraise = bld_fraise b, shd_environment = bld_environment b, shd_host = bld_host b,
           shd_ctx = ctx, shd_target = bld_target b, shd_rollback_to = bld_rollback_to b,
           shd_lint = bld_lint b, shd_policy = bld_policy b, shd_rehearsal = bld_rehearsal b,
           shd_backup = bld_backup b, shd_readiness = bld_readiness b, shd_artifact = artifact,
           shd_migration = migration, shd_service = service, shd_health = health\<rparr>)))))"

text \<open>
  \<open>DeployShared\<close> holds the deploy's fields (its context with the host filled in) and the prior
  ledger record; it is immutable for the run.
\<close>

record 'w deploy_shared =
  ds_deploy :: "'w single_host_deploy"
  ds_ctx :: adapter_ctx
  ds_prior :: deploy_record

definition deploy_shared_new :: "'w single_host_deploy \<Rightarrow> deploy_record \<Rightarrow> 'w deploy_shared" where
  "deploy_shared_new d prior =
     \<lparr>ds_deploy = d, ds_ctx = (shd_ctx d)\<lparr>ctx_host := Some (shd_host d)\<rparr>, ds_prior = prior\<rparr>"

record deploy_runtime =
  rt_staged :: "staged_artifact option"
  rt_previous_revision :: "revision option"
  rt_new_revision :: "revision option"
  rt_warnings :: "string list"

definition runtime_default :: deploy_runtime where
  "runtime_default =
     \<lparr>rt_staged = None, rt_previous_revision = None, rt_new_revision = None, rt_warnings = []\<rparr>"

definition committed_record :: "deploy_runtime \<Rightarrow> deploy_record" where
  "committed_record rt = \<lparr>rec_active = rt_staged rt, rec_revision = rt_new_revision rt\<rparr>"

record deploy_run =
  run_outcome :: saga_outcome
  run_warnings :: "string list"

text \<open>
  What a deploy reads from its own machine: the process environment, and whether a path is a
  local directory now.
\<close>

record 'w host_env =
  he_env :: process_env
  he_is_dir :: "'w \<Rightarrow> string \<Rightarrow> bool"

type_synonym 'w run_state = "deploy_runtime \<times> 'w"

definition push_warning :: "string \<Rightarrow> ('w run_state, 'e, unit) eff" where
  "push_warning m = modify_run (\<lambda>rt. rt\<lparr>rt_warnings := rt_warnings rt @ [m]\<rparr>)"

definition failed :: "string \<Rightarrow> adapter_error \<Rightarrow> saga_error" where
  "failed step e = StepFailed step (show_adapter_error e)"

text \<open>An adapter call inside a step.\<close>

definition adapter_call :: "string \<Rightarrow> ('w, 'a) call \<Rightarrow> ('r \<times> 'w, saga_error, 'a) eff" where
  "adapter_call step m = map_err (failed step) (on_world m)"

section \<open>The steps\<close>

subsection \<open>Preflight\<close>

definition rehearsal_failed :: "rehearsal_error \<Rightarrow> saga_error" where
  "rehearsal_failed e =
     StepFailed ''preflight''
       (''restore-rehearsal preflight failed: '' @ show_rehearsal_error e @ ''. '' @ remedy e @
        '', or bypass this check with `--skip-preflight` (or `[migration].preflight_mode = '' @
        [dquote] @ ''off'' @ [dquote] @ ''`).'')"

definition leaked :: "throwaway_db \<Rightarrow> string \<Rightarrow> string" where
  "leaked t e =
     ''the restore-rehearsal throwaway database '' @ [quote] @ td_name t @ [quote] @
     '' was not dropped and must be removed by hand: '' @ e"

definition deep_rehearsal :: "'w deploy_shared \<Rightarrow> 'w rehearsal_db option" where
  "deep_rehearsal sh =
     (let d = ds_deploy sh in
      case shd_rehearsal d of
        None \<Rightarrow> None
      | Some db \<Rightarrow> if shd_lint d \<and> shd_rollback_to d = None \<and> shd_backup d = FreshDump then Some db else None)"

definition inspect_step :: "'w deploy_shared \<Rightarrow> adapter_description option \<Rightarrow> ('w run_state, saga_error, inspection) eff" where
  "inspect_step sh described =
     (if \<not> shd_lint (ds_deploy sh) then ok inspection_default
      else adapter_call ''preflight''
        (case described of
           Some dsc \<Rightarrow> inspect_described (shd_migration (ds_deploy sh)) (ds_ctx sh) dsc
         | None \<Rightarrow> inspect (shd_migration (ds_deploy sh)) (ds_ctx sh)))"

definition run_policy_gate :: "'w deploy_shared \<Rightarrow> inspection \<Rightarrow> ('w run_state, saga_error, unit) eff" where
  "run_policy_gate sh insp =
     (if shd_rollback_to (ds_deploy sh) \<noteq> None then ok ()
      else map_err refuse_preflight
        (on_world (admit (shd_policy (ds_deploy sh)) BaseNone (insp_capabilities insp) (insp_report insp) (ds_ctx sh))))"

definition issue_text :: "preflight_issue \<Rightarrow> string" where
  "issue_text issue =
     pi_code issue @ (case pi_migration issue of None \<Rightarrow> [] | Some m \<Rightarrow> '' ('' @ m @ '')'') @ '': '' @ pi_message issue"

definition run_forward_compat_lint :: "inspection \<Rightarrow> saga_error + unit" where
  "run_forward_compat_lint insp =
     (case insp_report insp of
        None \<Rightarrow> Inr ()
      | Some report \<Rightarrow>
          (let blocking = map issue_text (filter (\<lambda>i. pi_severity i = SevError) (pr_issues report)) in
           if blocking = [] then Inr ()
           else Inl (StepFailed ''preflight''
             (''forward-compatibility preflight found '' @ show_nat (length blocking) @ '' blocking issue(s): '' @
              join ''; '' blocking))))"

definition run_restore_rehearsal_step ::
  "'w host_env \<Rightarrow> 'w deploy_shared \<Rightarrow> 'w rehearsal_db \<Rightarrow> ('w run_state, saga_error, unit) eff" where
  "run_restore_rehearsal_step he sh db =
     and_then (map_err rehearsal_failed (on_world
         (run_restore_rehearsal (he_env he) db (shd_migration (ds_deploy sh)) (ds_ctx sh) (shd_backup (ds_deploy sh)))))
       (\<lambda>report. case rr_teardown_warning report of
          Some warning \<Rightarrow>
            push_warning (''the restore-rehearsal throwaway database was not dropped and must be removed '' @
              ''by hand: '' @ warning)
        | None \<Rightarrow> ok ())"

definition deep_checks ::
  "'w deploy_shared \<Rightarrow> adapter_description \<Rightarrow> throwaway_db \<Rightarrow> ('w run_state, saga_error, unit) eff" where
  "deep_checks sh described t =
     and_then (adapter_call ''preflight''
         (inspect_described (shd_migration (ds_deploy sh)) (against_throwaway (ds_ctx sh) t) described))
       (\<lambda>insp. and_then (run_policy_gate sh insp)
         (\<lambda>_. and_then (from_result (run_forward_compat_lint insp))
           (\<lambda>_. map_err rehearsal_failed
             (map_ok (\<lambda>_. ()) (on_world (rehearse_on (shd_migration (ds_deploy sh)) (ds_ctx sh) t))))))"

definition run_deep_preflight ::
  "'w host_env \<Rightarrow> 'w deploy_shared \<Rightarrow> 'w rehearsal_db \<Rightarrow> adapter_description \<Rightarrow> ('w run_state, saga_error, unit) eff" where
  "run_deep_preflight he sh db described =
     and_then (map_err rehearsal_failed (on_world (provision (he_env he) db (ds_ctx sh) (shd_backup (ds_deploy sh)))))
       (\<lambda>t. and_then (result_of (deep_checks sh described t))
         (\<lambda>result. and_then (result_of (on_world (rdb_teardown db t)))
           (\<lambda>torn. and_then (case torn of Inl e \<Rightarrow> push_warning (leaked t e) | Inr _ \<Rightarrow> ok ())
             (\<lambda>_. from_result result))))"

text \<open>\<open>run_preflight\<close> after its readiness check and its deep branch.\<close>

definition static_preflight ::
  "'w host_env \<Rightarrow> 'w deploy_shared \<Rightarrow> adapter_description option \<Rightarrow> ('w run_state, saga_error, unit) eff" where
  "static_preflight he sh described =
     and_then (inspect_step sh described)
       (\<lambda>insp. and_then (run_policy_gate sh insp)
         (\<lambda>_. and_then (from_result (run_forward_compat_lint insp))
           (\<lambda>_. case shd_rehearsal (ds_deploy sh) of
              Some db \<Rightarrow> if shd_rollback_to (ds_deploy sh) = None then run_restore_rehearsal_step he sh db else ok ()
            | None \<Rightarrow> ok ())))"

definition run_preflight :: "'w host_env \<Rightarrow> 'w deploy_shared \<Rightarrow> ('w run_state, saga_error, unit) eff" where
  "run_preflight he sh =
     and_then
       (case shd_readiness (ds_deploy sh) of
          Some probe \<Rightarrow>
            if shd_rollback_to (ds_deploy sh) = None
            then on_world (readiness_check (he_env he) probe (ds_ctx sh)) else ok ()
        | None \<Rightarrow> ok ())
       (\<lambda>_. case deep_rehearsal sh of
          Some db \<Rightarrow>
            and_then (adapter_call ''preflight'' (describe (shd_migration (ds_deploy sh))))
              (\<lambda>dsc. if classifies_deeply dsc then run_deep_preflight he sh db dsc
                     else static_preflight he sh (Some dsc))
        | None \<Rightarrow> static_preflight he sh None)"

subsection \<open>Fetch and migrate\<close>

definition run_fetch :: "'w deploy_shared \<Rightarrow> ('w run_state, saga_error, unit) eff" where
  "run_fetch sh =
     and_then (adapter_call ''fetch'' (stage (shd_artifact (ds_deploy sh)) (ds_ctx sh) (shd_host (ds_deploy sh))))
       (\<lambda>staged. modify_run (\<lambda>rt. rt\<lparr>rt_staged := Some staged\<rparr>))"

definition migration_ctx :: "'w host_env \<Rightarrow> 'w deploy_shared \<Rightarrow> 'w run_state \<Rightarrow> adapter_ctx" where
  "migration_ctx he sh st =
     (case rt_staged (fst st) of
        Some staged \<Rightarrow>
          if he_is_dir he (snd st) (sa_path staged) then (ds_ctx sh)\<lparr>ctx_workdir := sa_path staged\<rparr> else ds_ctx sh
      | None \<Rightarrow> ds_ctx sh)"

definition run_migrate :: "'w host_env \<Rightarrow> 'w deploy_shared \<Rightarrow> ('w run_state, saga_error, unit) eff" where
  "run_migrate he sh st =
     (let ctx = migration_ctx he sh st; m = shd_migration (ds_deploy sh) in
      and_then (adapter_call ''migrate'' (current_revision m ctx))
        (\<lambda>previous. and_then (modify_run (\<lambda>rt. rt\<lparr>rt_previous_revision := previous\<rparr>))
          (\<lambda>_. case shd_rollback_to (ds_deploy sh) of
             Some target \<Rightarrow>
               and_then (adapter_call ''migrate'' (down_to m ctx target))
                 (\<lambda>_. modify_run (\<lambda>rt. rt\<lparr>rt_new_revision := Some target\<rparr>))
           | None \<Rightarrow>
               and_then (adapter_call ''migrate'' (up m ctx (shd_target (ds_deploy sh))))
                 (\<lambda>outcome. modify_run (\<lambda>rt. rt\<lparr>rt_new_revision := or_else (mo_to outcome) (rt_previous_revision rt)\<rparr>)))) st)"

definition undo_migrate :: "'w host_env \<Rightarrow> 'w deploy_shared \<Rightarrow> ('w run_state, saga_error, unit) eff" where
  "undo_migrate he sh st =
     (let m = shd_migration (ds_deploy sh) in
      if \<not> owns_database m then ok () st
      else case rt_previous_revision (fst st) of
        None \<Rightarrow>
          fail (StepFailed ''migrate''
            (''cannot roll back the initial migration: there is no prior revision to '' @
             ''return the database to (a failed first-ever deploy has no committed '' @
             ''state to restore)'')) st
      | Some previous \<Rightarrow>
          (let ctx = migration_ctx he sh st in
           adapter_call ''migrate''
             (if shd_rollback_to (ds_deploy sh) \<noteq> None then map_ok (\<lambda>_. ()) (up m ctx (Some previous))
              else map_ok (\<lambda>_. ()) (down_to m ctx previous)) st))"

subsection \<open>Activate, restart, health, verify\<close>

definition run_activate :: "'w deploy_shared \<Rightarrow> ('w run_state, saga_error, unit) eff" where
  "run_activate sh =
     and_then get_run (\<lambda>rt.
       case rt_staged rt of
         None \<Rightarrow> fail (StepFailed ''activate'' ''no staged artifact to activate (fetch did not run)'')
       | Some staged \<Rightarrow>
           adapter_call ''activate'' (activate (shd_artifact (ds_deploy sh)) (ds_ctx sh) (shd_host (ds_deploy sh)) staged))"

definition run_restart :: "'w deploy_shared \<Rightarrow> ('w run_state, saga_error, unit) eff" where
  "run_restart sh = adapter_call ''restart'' (restart (shd_service (ds_deploy sh)) (ds_ctx sh) (shd_host (ds_deploy sh)))"

definition undo_activate :: "'w deploy_shared \<Rightarrow> ('w run_state, saga_error, unit) eff" where
  "undo_activate sh =
     (case rec_active (ds_prior sh) of
        Some previous \<Rightarrow>
          and_then (adapter_call ''activate''
              (activate (shd_artifact (ds_deploy sh)) (ds_ctx sh) (shd_host (ds_deploy sh)) previous))
            (\<lambda>_. adapter_call ''activate'' (restart (shd_service (ds_deploy sh)) (ds_ctx sh) (shd_host (ds_deploy sh))))
      | None \<Rightarrow>
          fail (StepFailed ''activate''
            (''cannot roll back artifact activation: no previously-active artifact is '' @
             ''recorded (a failed first-ever deploy has no prior release to restore)'')))"

definition unhealthy_message :: "health_status \<Rightarrow> string" where
  "unhealthy_message hs =
     ''health check reported the host unhealthy'' @
     (case hs_detail hs of Some d \<Rightarrow> '': '' @ d | None \<Rightarrow> [])"

definition run_health :: "'w deploy_shared \<Rightarrow> ('w run_state, saga_error, unit) eff" where
  "run_health sh =
     and_then (adapter_call ''health'' (check (shd_health (ds_deploy sh)) (ds_ctx sh) (shd_host (ds_deploy sh))))
       (\<lambda>hs. if healthy hs then ok () else fail (StepFailed ''health'' (unhealthy_message hs)))"

definition run_verify :: "'w deploy_shared \<Rightarrow> ('w run_state, saga_error, unit) eff" where
  "run_verify sh =
     and_then (adapter_call ''verify'' (verify (shd_migration (ds_deploy sh)) (ds_ctx sh)))
       (\<lambda>report. if vr_ok report then ok () else fail (StepFailed ''verify'' (failure_message report)))"

subsection \<open>The saga\<close>

datatype phase = Preflight | Fetch | Migrate | Activate | Restart | Health | Verify

fun phase_name :: "phase \<Rightarrow> string" where
  "phase_name Preflight = ''preflight''"
| "phase_name Fetch = ''fetch''"
| "phase_name Migrate = ''migrate''"
| "phase_name Activate = ''activate''"
| "phase_name Restart = ''restart''"
| "phase_name Health = ''health''"
| "phase_name Verify = ''verify''"

fun phase_forward :: "'w host_env \<Rightarrow> 'w deploy_shared \<Rightarrow> phase \<Rightarrow> ('w run_state, saga_error, unit) eff" where
  "phase_forward he sh Preflight = run_preflight he sh"
| "phase_forward he sh Fetch = run_fetch sh"
| "phase_forward he sh Migrate = run_migrate he sh"
| "phase_forward he sh Activate = run_activate sh"
| "phase_forward he sh Restart = run_restart sh"
| "phase_forward he sh Health = run_health sh"
| "phase_forward he sh Verify = run_verify sh"

fun phase_compensate :: "'w host_env \<Rightarrow> 'w deploy_shared \<Rightarrow> phase \<Rightarrow> ('w run_state, saga_error, unit) eff" where
  "phase_compensate he sh Migrate = undo_migrate he sh"
| "phase_compensate he sh Activate = undo_activate sh"
| "phase_compensate he sh Preflight = ok ()"
| "phase_compensate he sh Fetch = ok ()"
| "phase_compensate he sh Restart = ok ()"
| "phase_compensate he sh Health = ok ()"
| "phase_compensate he sh Verify = ok ()"

definition deploy_step :: "'w host_env \<Rightarrow> 'w deploy_shared \<Rightarrow> phase \<Rightarrow> 'w run_state saga_step" where
  "deploy_step he sh phase =
     \<lparr>step_name = phase_name phase, forward = (\<lambda>_. phase_forward he sh phase),
      compensate = (\<lambda>_. phase_compensate he sh phase)\<rparr>"

definition deploy_saga ::
  "'w host_env \<Rightarrow> ('s, 'j) state_store \<Rightarrow> 'w single_host_deploy \<Rightarrow> deploy_record \<Rightarrow> ('s, 'j, 'w run_state) saga" where
  "deploy_saga he store d prior =
     (let sh = deploy_shared_new d prior in
      fold (\<lambda>phase. with_step (deploy_step he sh phase))
        [Preflight, Fetch, Migrate, Activate, Restart, Health, Verify]
        (saga_new store (shd_fraise d) (shd_environment d)))"

section \<open>A run and its ledger\<close>

text \<open>
  \<open>serde_json::to_value\<close> and \<open>from_value\<close> of the ledger record (a third-party package: parameters;
  an \<open>Inl\<close> is the rendered error).
\<close>

type_synonym 'j ledger_codec = "(deploy_record, 'j) codec"

definition ledger_result :: "string + 'a \<Rightarrow> deploy_error + 'a" where
  "ledger_result r = (case r of Inl m \<Rightarrow> Inl (DeployLedger m) | Inr a \<Rightarrow> Inr a)"

definition read_prior ::
  "'j ledger_codec \<Rightarrow> ('s, 'j) state_store \<Rightarrow> fraise_key \<Rightarrow> ('s, deploy_error, deploy_record) eff" where
  "read_prior c store key =
     and_then (map_err DeployStore (current_snapshot store key))
       (\<lambda>v. case v of
          Some value \<Rightarrow> from_result (ledger_result (from_value c value))
        | None \<Rightarrow> ok deploy_record_default)"

definition run_deploy_saga ::
  "'s platform \<Rightarrow> 'w host_env \<Rightarrow> ('s, 'j) state_store \<Rightarrow> 'w single_host_deploy \<Rightarrow> deploy_record \<Rightarrow>
     ('s \<times> 'w, deploy_error, saga_outcome \<times> deploy_runtime) eff" where
  "run_deploy_saga pf he store d prior = (\<lambda>(s, w).
     case run_with_state pf (deploy_saga he store d prior) (s, runtime_default, w) of
       (Inl e, s', rt, w') \<Rightarrow> (Inl (DeploySaga e), s', w')
     | (Inr outcome, s', rt, w') \<Rightarrow> (Inr (outcome, rt), s', w'))"

definition record_commit ::
  "'j ledger_codec \<Rightarrow> ('s, 'j) state_store \<Rightarrow> fraise_key \<Rightarrow> saga_outcome \<Rightarrow> deploy_runtime \<Rightarrow>
     ('s, deploy_error, unit) eff" where
  "record_commit c store key outcome rt =
     (if outcome = OutcomeCommitted then
        and_then (from_result (ledger_result (to_value c (committed_record rt))))
          (\<lambda>v. map_err DeployStore (record_snapshot store key v))
      else ok ())"

definition run_reporting ::
  "'s platform \<Rightarrow> 'w host_env \<Rightarrow> 'j ledger_codec \<Rightarrow> ('s, 'j) state_store \<Rightarrow> 'w single_host_deploy \<Rightarrow>
     ('s \<times> 'w, deploy_error, deploy_run) eff" where
  "run_reporting pf he c store d =
     (let key = key_new (shd_fraise d) (shd_environment d) in
      and_then (on_fst (read_prior c store key)) (\<lambda>prior.
      and_then (run_deploy_saga pf he store d prior) (\<lambda>(outcome, rt).
      and_then (on_fst (record_commit c store key outcome rt)) (\<lambda>_.
      ok \<lparr>run_outcome = outcome, run_warnings = rt_warnings rt\<rparr>))))"

definition run_deploy ::
  "'s platform \<Rightarrow> 'w host_env \<Rightarrow> 'j ledger_codec \<Rightarrow> ('s, 'j) state_store \<Rightarrow> 'w single_host_deploy \<Rightarrow>
     ('s \<times> 'w, deploy_error, saga_outcome) eff" where
  "run_deploy pf he c store d = map_ok run_outcome (run_reporting pf he c store d)"

section \<open>A run over any store that keeps the contract\<close>

abbreviation deploy_key :: "'w single_host_deploy \<Rightarrow> fraise_key" where
  "deploy_key d \<equiv> key_new (shd_fraise d) (shd_environment d)"

definition deploy_steps :: "'w host_env \<Rightarrow> 'w single_host_deploy \<Rightarrow> deploy_record \<Rightarrow> 'w run_state saga_step list" where
  "deploy_steps he d prior =
     map (deploy_step he (deploy_shared_new d prior)) [Preflight, Fetch, Migrate, Activate, Restart, Health, Verify]"

lemma deploy_saga_simps [simp]:
  "sg_store (deploy_saga he store d prior) = store" "sg_key (deploy_saga he store d prior) = deploy_key d"
  "sg_steps (deploy_saga he store d prior) = deploy_steps he d prior"
  by (simp_all add: deploy_saga_def saga_new_def with_step_def deploy_steps_def Let_def)

text \<open>The record a snapshot cell holds.\<close>

definition ledger :: "'j ledger_codec \<Rightarrow> 'j option \<Rightarrow> deploy_error + deploy_record" where
  "ledger c j = (case j of Some v \<Rightarrow> ledger_result (from_value c v) | None \<Rightarrow> Inr deploy_record_default)"

lemma codec_roundtrip:
  assumes "codec_ok c"
  obtains v where "to_value c r = Inr v" "ledger c (Some v) = Inr r"
proof -
  from assms obtain v where "to_value c r = Inr v" "from_value c v = Inr r"
    unfolding codec_ok_def by blast
  with that show ?thesis by (simp add: ledger_def ledger_result_def)
qed

lemma run_deploy_saga_ok:
  "run_deploy_saga pf he store d prior (s, w) = (Inr (out, rt), s', w') \<longleftrightarrow>
     run_with_state pf (deploy_saga he store d prior) (s, runtime_default, w) = (Inr out, s', rt, w')"
  by (auto simp: run_deploy_saga_def split: prod.splits sum.splits)

context state_store_contract
begin

lemma read_prior_ok:
  assumes "valid s" and "read_prior c st k s = (r, s')"
  shows "valid s' \<and> view s' = view s \<and> (\<forall>prior. r = Inr prior \<longrightarrow> ledger c (sv_snapshot (view s) (slot k)) = Inr prior)"
proof -
  obtain q s1 where snap: "current_snapshot st k s = (q, s1)" by fastforce
  note props = current_snapshot_ok [OF assms(1) snap]
  have "s' = s1"
    using assms(2) snap by (auto simp: read_prior_def and_then_def map_err_def split: sum.splits option.splits)
  moreover have "ledger c (sv_snapshot (view s) (slot k)) = Inr prior" if "r = Inr prior" for prior
  proof (cases q)
    case (Inl e)
    with that assms(2) snap show ?thesis by (simp add: read_prior_def and_then_def map_err_def)
  next
    case (Inr j)
    with props have "j = sv_snapshot (view s) (slot k)" by simp
    with Inr that assms(2) snap show ?thesis
      by (auto simp: read_prior_def and_then_def map_err_def ledger_def split: option.splits)
  qed
  ultimately show ?thesis using props by blast
qed

lemma record_commit_ok:
  assumes "valid s" and "record_commit c st k out rt s = (Inr u, s')"
  shows "valid s' \<and> (if out = OutcomeCommitted
    then \<exists>j. to_value c (committed_record rt) = Inr j \<and> view s' = set_snapshot (slot k) j (view s) else s' = s)"
  using assms record_snapshot_ok [OF assms(1), of k _ _ s']
  by (auto simp: record_commit_def and_then_eq_Inr ledger_result_def split: sum.splits if_splits)

lemma run_reporting_ok:
  assumes "valid s" and "run_reporting pf he c st d (s, w) = (Inr run, s', w')"
  shows "\<exists>prior rt ts v. ledger c (sv_snapshot (view s) (slot (deploy_key d))) = Inr prior \<and>
    \<not> sv_locked (view s) (slot (deploy_key d)) \<and>
    saga_spec pf \<lparr>sc_key = deploy_key d\<rparr> [] (deploy_steps he d prior) (runtime_default, w) = (run_outcome run, ts, rt, w') \<and>
    run_warnings run = rt_warnings rt \<and> valid s' \<and>
    advanced (slot (deploy_key d)) (chain Idle ts) ts (view s) v \<and>
    (if run_outcome run = OutcomeCommitted
     then \<exists>j. to_value c (committed_record rt) = Inr j \<and> view s' = set_snapshot (slot (deploy_key d)) j v
     else view s' = v)"
proof -
  let ?k = "deploy_key d"
  from assms(2) obtain prior s1 out rt s2 where rd: "read_prior c st ?k s = (Inr prior, s1)"
    and sg: "run_with_state pf (deploy_saga he st d prior) (s1, runtime_default, w) = (Inr out, s2, rt, w')"
    and rc: "record_commit c st ?k out rt s2 = (Inr (), s')"
    and run: "run = \<lparr>run_outcome = out, run_warnings = rt_warnings rt\<rparr>"
    by (auto simp: run_reporting_def Let_def and_then_eq_Inr run_deploy_saga_ok)
  note r1 = read_prior_ok [OF assms(1) rd]
  have v1: "valid s1" using r1 by blast
  from run_ok [OF _ v1 sg] obtain ts where v2: "valid s2" and free: "\<not> sv_locked (view s1) (slot ?k)"
    and spec: "saga_spec pf \<lparr>sc_key = ?k\<rparr> [] (deploy_steps he d prior) (runtime_default, w) = (out, ts, rt, w')"
    and adv: "advanced (slot ?k) (chain Idle ts) ts (view s1) (view s2)"
    by auto
  note r3 = record_commit_ok [OF v2 rc]
  show ?thesis
    using r1 free spec adv r3 run by (intro exI [of _ prior] exI [of _ rt] exI [of _ ts] exI [of _ "view s2"]) auto
qed

lemma run_reporting_locks:
  assumes "valid s" and "run_reporting pf he c st d (s, w) = (Inr run, s', w')"
  shows "sv_locked (view s') = sv_locked (view s)"
proof -
  from run_reporting_ok [OF assms] obtain ts v where
    adv: "advanced (slot (deploy_key d)) (chain Idle ts) ts (view s) v" and fin: "sv_locked (view s') = sv_locked v"
    by (auto simp: set_snapshot_def split: if_splits)
  from advanced_frame(1) [OF adv] fin show ?thesis by simp
qed

end

context reliable_store
begin

lemma run_reporting_total:
  assumes "valid s" and "\<not> sv_locked (view s) (slot (deploy_key d))" and "codec_ok c"
    and "ledger c (sv_snapshot (view s) (slot (deploy_key d))) = Inr prior"
  obtains run s' w' where "run_reporting pf he c st d (s, w) = (Inr run, s', w')"
proof -
  let ?k = "deploy_key d"
  obtain j s1 where snap: "current_snapshot st ?k s = (Inr j, s1)"
    using current_snapshot_total [OF assms(1)] by (metis is_ok_iff prod.collapse)
  have v1: "valid s1" "view s1 = view s" "j = sv_snapshot (view s) (slot ?k)"
    using current_snapshot_ok [OF assms(1) snap] by auto
  have rd: "read_prior c st ?k s = (Inr prior, s1)"
    using snap assms(4) v1(3) by (auto simp: read_prior_def and_then_def map_err_def ledger_def split: option.splits)
  obtain out s2 x' where sg: "run_with_state pf (deploy_saga he st d prior) (s1, runtime_default, w) = (Inr out, s2, x')"
    by (rule run_total [where sg = "deploy_saga he st d prior" and s = s1 and pf = pf and x = "(runtime_default, w)"])
      (use v1 assms(2) in simp_all)
  have v2: "valid s2" using run_ok [OF _ v1(1) sg] by simp
  obtain v where "to_value c (committed_record (fst x')) = Inr v" using codec_roundtrip [OF assms(3)] .
  moreover obtain s3 where "record_snapshot st ?k v s2 = (Inr (), s3)"
    using record_snapshot_total [OF v2] by (metis (full_types) is_ok_iff old.unit.exhaust prod.collapse)
  ultimately obtain s' where rc: "record_commit c st ?k out (fst x') s2 = (Inr (), s')"
    by (cases "out = OutcomeCommitted")
      (auto simp: record_commit_def and_then_def map_err_def ledger_result_def)
  have "run_reporting pf he c st d (s, w) =
      (Inr \<lparr>run_outcome = out, run_warnings = rt_warnings (fst x')\<rparr>, s', snd x')"
    using rd sg rc by (cases x') (simp add: run_reporting_def Let_def and_then_def run_deploy_saga_def on_fst_def)
  with that show ?thesis .
qed

end

end
