(* ===== verification/Single_Host_Rollback.thy ===== *)
theory Single_Host_Rollback
  imports Single_Host
begin

text \<open>
  What a single-host deploy guarantees when its adapters keep their documented contracts: a
  deploy that does not commit leaves the release and the schema that were live before it, a
  refused preflight changes nothing, a failed first deploy says so, and a deliberate rollback is
  never held up by the forward-only checks. It ends with the window in which the ledger is stale.
\<close>

section \<open>Adapter contracts\<close>

text \<open>
  \<open>live\<close> observes the world: the active release and the revision of the database.
  A \<open>lawful\<close> set of adapters: probes and reports (describe, preflight, verify, health, staging,
  reading the revision, the approval hook, the readiness probe, restarting) do not change what is
  live; reading the revision reads the live one; activating a release makes it the live one and
  touches nothing else, migrating changes the revision and nothing else, and either of them
  changes nothing when it fails; migrating down to a revision succeeds and reaches it; the
  recorded prior release can be activated again and restarts; an adapter without a database
  changes no revision.
\<close>

record live_state =
  live_release :: "staged_artifact option"
  live_revision :: "revision option"

definition lawful_reads :: "('w \<Rightarrow> live_state) \<Rightarrow> 'w single_host_deploy \<Rightarrow> bool" where
  "lawful_reads live d \<longleftrightarrow>
     keeps live (describe (shd_migration d)) \<and>
     (\<forall>c. keeps live (preflight (shd_migration d) c)) \<and>
     (\<forall>c. keeps live (verify (shd_migration d) c)) \<and>
     (\<forall>c. keeps live (current_revision (shd_migration d) c)) \<and>
     (\<forall>c w r w'. current_revision (shd_migration d) c w = (Inr r, w') \<longrightarrow> r = live_revision (live w)) \<and>
     (\<forall>c h. keeps live (stage (shd_artifact d) c h)) \<and>
     (\<forall>c h. keeps live (check (shd_health d) c h)) \<and>
     (\<forall>c h. keeps live (restart (shd_service d) c h)) \<and>
     (\<forall>hook req w. gate_hook (shd_policy d) = Some hook \<longrightarrow> live (snd (hook req w)) = live w) \<and>
     (\<forall>probe dsn. shd_readiness d = Some probe \<longrightarrow> keeps live (probe dsn))"

definition lawful_writes :: "('w \<Rightarrow> live_state) \<Rightarrow> 'w single_host_deploy \<Rightarrow> staged_artifact \<Rightarrow> bool" where
  "lawful_writes live d prior \<longleftrightarrow>
     (\<forall>c h a w w'. activate (shd_artifact d) c h a w = (Inr (), w') \<longrightarrow> live w' = (live w)\<lparr>live_release := Some a\<rparr>) \<and>
     (\<forall>c h a w e w'. activate (shd_artifact d) c h a w = (Inl e, w') \<longrightarrow> live w' = live w) \<and>
     (\<forall>c t w out w'. up (shd_migration d) c t w = (Inr out, w') \<longrightarrow> live_release (live w') = live_release (live w)) \<and>
     (\<forall>c t w e w'. up (shd_migration d) c t w = (Inl e, w') \<longrightarrow> live w' = live w) \<and>
     (\<forall>c r w. \<exists>out w'. down_to (shd_migration d) c r w = (Inr out, w') \<and> live w' = (live w)\<lparr>live_revision := Some r\<rparr>) \<and>
     (\<forall>c h w. \<exists>w'. activate (shd_artifact d) c h prior w = (Inr (), w')) \<and>
     (\<forall>c h w. live_release (live w) = Some prior \<longrightarrow> is_ok (fst (restart (shd_service d) c h w))) \<and>
     (\<not> owns_database (shd_migration d) \<longrightarrow> (\<forall>c t. keeps live (up (shd_migration d) c t)))"

lemma lawful_current_revision:
  assumes "lawful_reads live d" and "current_revision (shd_migration d) c w = (r, w')"
  shows "live w' = live w" "r = Inr q \<Longrightarrow> q = live_revision (live w)"
proof -
  from assms(1) have "keeps live (current_revision (shd_migration d) c)" unfolding lawful_reads_def by (elim conjE) (rule spec)
  from keepsD [OF this assms(2)] show "live w' = live w" .
  from assms(1) have "\<forall>c w r w'. current_revision (shd_migration d) c w = (Inr r, w') \<longrightarrow> r = live_revision (live w)"
    unfolding lawful_reads_def by (elim conjE)
  then show "r = Inr q \<Longrightarrow> q = live_revision (live w)" using assms(2) by metis
qed

lemma lawful_up:
  assumes "lawful_writes live d p" and "up (shd_migration d) c t w = (r, w')"
  shows "live_release (live w') = live_release (live w)" "r = Inl e \<Longrightarrow> live w' = live w"
    "\<not> owns_database (shd_migration d) \<Longrightarrow> live w' = live w"
proof -
  have ups: "\<forall>c t w out w'. up (shd_migration d) c t w = (Inr out, w') \<longrightarrow> live_release (live w') = live_release (live w)"
    "\<forall>c t w e w'. up (shd_migration d) c t w = (Inl e, w') \<longrightarrow> live w' = live w"
    "\<not> owns_database (shd_migration d) \<Longrightarrow> keeps live (up (shd_migration d) c t)"
    using assms(1) unfolding lawful_writes_def by simp_all
  from ups(1,2) assms(2) show "live_release (live w') = live_release (live w)" by (cases r) metis+
  from ups(2) assms(2) show "r = Inl e \<Longrightarrow> live w' = live w" by metis
  from ups(3) assms(2) show "\<not> owns_database (shd_migration d) \<Longrightarrow> live w' = live w" using keepsD by metis
qed

lemma lawful_down_to:
  assumes "lawful_writes live d p"
  obtains out w' where "down_to (shd_migration d) c r w = (Inr out, w')" "live w' = (live w)\<lparr>live_revision := Some r\<rparr>"
proof -
  from assms have "\<forall>c r w. \<exists>out w'. down_to (shd_migration d) c r w = (Inr out, w') \<and> live w' = (live w)\<lparr>live_revision := Some r\<rparr>"
    unfolding lawful_writes_def by (elim conjE)
  with that show ?thesis by metis
qed

lemma lawful_activate:
  assumes "lawful_writes live d p" and "activate (shd_artifact d) c h a w = (r, w')"
  shows "r = Inr u \<Longrightarrow> live w' = (live w)\<lparr>live_release := Some a\<rparr>" "r = Inl e \<Longrightarrow> live w' = live w"
proof -
  have acts: "\<forall>c h a w w'. activate (shd_artifact d) c h a w = (Inr (), w') \<longrightarrow> live w' = (live w)\<lparr>live_release := Some a\<rparr>"
    "\<forall>c h a w e w'. activate (shd_artifact d) c h a w = (Inl e, w') \<longrightarrow> live w' = live w"
    using assms(1) unfolding lawful_writes_def by simp_all
  from acts(1) assms(2) show "r = Inr u \<Longrightarrow> live w' = (live w)\<lparr>live_release := Some a\<rparr>" by simp
  from acts(2) assms(2) show "r = Inl e \<Longrightarrow> live w' = live w" by metis
qed

lemma lawful_reactivate:
  assumes "lawful_reads live d" and "lawful_writes live d p"
  obtains w1 w2 where "activate (shd_artifact d) c h p w = (Inr (), w1)"
    "restart (shd_service d) c' h' w1 = (Inr (), w2)" "live w2 = (live w)\<lparr>live_release := Some p\<rparr>"
proof -
  have acts: "\<forall>c h w. \<exists>w'. activate (shd_artifact d) c h p w = (Inr (), w')"
    "\<forall>c h w. live_release (live w) = Some p \<longrightarrow> is_ok (fst (restart (shd_service d) c h w))"
    using assms(2) unfolding lawful_writes_def by simp_all
  obtain w1 where a: "activate (shd_artifact d) c h p w = (Inr (), w1)" using acts(1) by blast
  have l1: "live w1 = (live w)\<lparr>live_release := Some p\<rparr>" using lawful_activate(1) [OF assms(2) a] by simp
  then have "is_ok (fst (restart (shd_service d) c' h' w1))" using acts(2) by simp
  then obtain w2 where r: "restart (shd_service d) c' h' w1 = (Inr (), w2)"
    by (cases "restart (shd_service d) c' h' w1") (auto simp: is_ok_iff)
  have "keeps live (restart (shd_service d) c' h')" using assms(1) unfolding lawful_reads_def by simp
  from keepsD [OF this r] l1 a r that show ?thesis by simp
qed

section \<open>Inert steps\<close>

lemma keeps_adapter_call [keeps_intros]: "keeps obs m \<Longrightarrow> keeps (obs \<circ> snd) (adapter_call step m)"
  unfolding adapter_call_def by (intro keeps_intros)

lemma keeps_adapter_call_run [keeps_intros]: "keeps (f \<circ> fst) (adapter_call step m)"
  by (auto simp: keeps_def adapter_call_def map_err_def on_world_def split: prod.splits sum.splits)

lemma keeps_push_warning [keeps_intros]:
  "keeps (obs \<circ> snd) (push_warning m)" "keeps (rt_previous_revision \<circ> fst) (push_warning m)"
  by (auto simp: push_warning_def keeps_def modify_run_def)

lemma preflight_keeps_run: "keeps (rt_previous_revision \<circ> fst) (run_preflight he sh)"
  unfolding run_preflight_def static_preflight_def run_deep_preflight_def inspect_step_def run_policy_gate_def
    run_restore_rehearsal_step_def
  by (intro keeps_intros keeps_result_of) (auto simp: deep_checks_def run_policy_gate_def intro!: keeps_intros)

lemma preflight_keeps_live:
  assumes "lawful_reads live d" and "shd_rehearsal d = None"
  shows "keeps (live \<circ> snd) (run_preflight he (deploy_shared_new d prior))"
proof -
  let ?sh = "deploy_shared_new d prior"
  have sh: "ds_deploy ?sh = d" by (simp add: deploy_shared_new_def)
  from assms(1) have reads: "keeps live (describe (shd_migration d))" "\<And>c. keeps live (preflight (shd_migration d) c)"
    "\<And>probe dsn. shd_readiness d = Some probe \<Longrightarrow> keeps live (probe dsn)"
    and hook: "\<And>hook req w. gate_hook (shd_policy d) = Some hook \<Longrightarrow> live (snd (hook req w)) = live w"
    by (simp_all add: lawful_reads_def)
  have insp: "keeps live (inspect (shd_migration d) c)" "keeps live (inspect_described (shd_migration d) c dsc)" for c dsc
    by (rule keeps_inspect; rule reads)+
  have ready: "keeps live (readiness_check (he_env he) probe c)" if "shd_readiness d = Some probe" for probe c
    by (rule keeps_readiness_check) (rule reads(3) [OF that])
  show ?thesis
    unfolding run_preflight_def static_preflight_def inspect_step_def run_policy_gate_def sh deep_rehearsal_def assms(2) Let_def option.case
    by (auto intro!: keeps_intros insp ready keeps_admit hook)
qed

section \<open>A failed deploy restores what was live\<close>

text \<open>
  Agreement: the same things are live, and a revision captured for the compensation of the
  migration is still there.
\<close>

definition restored :: "('w \<Rightarrow> live_state) \<Rightarrow> 'w run_state \<Rightarrow> 'w run_state \<Rightarrow> bool" where
  "restored live x y \<longleftrightarrow> live (snd x) = live (snd y) \<and>
     (rt_previous_revision (fst x) = None \<or> rt_previous_revision (fst x) = rt_previous_revision (fst y))"

lemma restored_keeps:
  assumes "keeps (live \<circ> snd) m" and "keeps (rt_previous_revision \<circ> fst) m" and "m x = (r, x')"
  shows "restored live x x'" "restored live x' y \<Longrightarrow> restored live x y"
  using keepsD [OF assms(1,3)] keepsD [OF assms(2,3)] by (auto simp: restored_def)

lemma inert_undoable:
  assumes "forward step ctx = m" and "compensate step ctx = ok ()"
    and "keeps (live \<circ> snd) m" and "keeps (rt_previous_revision \<circ> fst) m"
    and "\<And>x x'. P x \<Longrightarrow> live (snd x') = live (snd x) \<Longrightarrow>
      rt_previous_revision (fst x') = rt_previous_revision (fst x) \<Longrightarrow> Q x'"
  shows "undoable P Q (restored live) ctx step"
proof (rule undoableI)
  fix x x' assume P: "P x" and fwd: "forward step ctx x = (Inr (), x')"
  from fwd assms(1) have run: "m x = (Inr (), x')" by simp
  show "Q x'" using assms(5) [OF P] keepsD [OF assms(3) run] keepsD [OF assms(4) run] by simp
  fix y assume "restored live x' y"
  with restored_keeps(2) [OF assms(3,4) run] show "\<exists>y'. compensate step ctx y = (Inr (), y') \<and> restored live x y'"
    by (simp add: assms(2))
next
  fix x e x' assume "P x" and "forward step ctx x = (Inl e, x')"
  with restored_keeps(1) [OF assms(3,4)] assms(1) show "restored live x x'" by simp
qed

text \<open>The states before each step: nothing is captured before the migration, and until the activation the prior release is live.\<close>

definition before :: "('w \<Rightarrow> live_state) \<Rightarrow> live_state \<Rightarrow> nat \<Rightarrow> 'w run_state \<Rightarrow> bool" where
  "before live l i x \<longleftrightarrow>
     (i \<le> 2 \<longrightarrow> rt_previous_revision (fst x) = None \<and> live (snd x) = l) \<and>
     (i = 3 \<longrightarrow> live_release (live (snd x)) = live_release l)"

lemma migrate_undoable:
  assumes "lawful_reads live d" and "lawful_writes live d p" and "shd_rollback_to d = None"
    and "owns_database (shd_migration d) \<longrightarrow> live_revision l \<noteq> None"
  shows "undoable (before live l 2) (before live l 3) (restored live) ctx (deploy_step he (deploy_shared_new d prior) Migrate)"
proof (rule undoableI)
  let ?sh = "deploy_shared_new d prior" and ?m = "shd_migration d"
  note defs = deploy_step_def deploy_shared_new_def run_migrate_def undo_migrate_def Let_def adapter_call_def
    and_then_eq_Inr and_then_eq_Inl map_err_eq_Inl modify_run_def assms(3)
  note cur = lawful_current_revision [OF assms(1)] and upl = lawful_up [OF assms(2)]
  {
    fix x x' assume P: "before live l 2 x" and fwd: "forward (deploy_step he ?sh Migrate) ctx x = (Inr (), x')"
    obtain r w1 out w2 where c: "current_revision ?m (migration_ctx he ?sh x) (snd x) = (Inr r, w1)"
      and u: "up ?m (migration_ctx he ?sh x) (shd_target d) w1 = (Inr out, w2)"
      and x': "snd x' = w2" "rt_previous_revision (fst x') = r"
      using fwd by (cases x) (auto simp: defs)
    have live1: "live w1 = l" "r = live_revision l" using cur [OF c] P by (auto simp: before_def)
    have live2: "live_release (live w2) = live_release l" using upl(1) [OF u] live1 by simp
    show "before live l 3 x'" using live2 x' by (simp add: before_def)
    fix y assume ag: "restored live x' y"
    show "\<exists>y'. compensate (deploy_step he ?sh Migrate) ctx y = (Inr (), y') \<and> restored live x y'"
    proof (cases "owns_database ?m")
      case False
      with upl(3) [OF u] live1 x' ag P show ?thesis
        by (auto simp: defs restored_def before_def)
    next
      case True
      with assms(4) live1 obtain rev where rev: "r = Some rev" by auto
      with ag x' have prev: "rt_previous_revision (fst y) = Some rev" by (simp add: restored_def)
      obtain out' w3 where d: "down_to ?m (migration_ctx he ?sh y) rev (snd y) = (Inr out', w3)"
        and l3: "live w3 = (live (snd y))\<lparr>live_revision := Some rev\<rparr>"
        by (rule lawful_down_to [OF assms(2)])
      have "live w3 = l" using l3 ag x' live1 live2 rev by (cases l; cases "live w2") (auto simp: restored_def)
      with True prev d P show ?thesis
        by (cases y) (auto simp: defs restored_def before_def map_ok_def on_world_def map_err_def and_then_def)
    qed
  next
    fix x e x' assume P: "before live l 2 x" and fwd: "forward (deploy_step he ?sh Migrate) ctx x = (Inl e, x')"
    then show "restored live x x'"
      by (cases x; cases x') (auto simp: defs restored_def before_def, (metis cur(1) upl(2))+)
  }
qed

lemma activate_undoable:
  assumes "lawful_reads live d" and "lawful_writes live d p" and "rec_active prior = Some p" and "live_release l = Some p"
  shows "undoable (before live l 3) (before live l 4) (restored live) ctx (deploy_step he (deploy_shared_new d prior) Activate)"
proof (rule undoableI)
  let ?sh = "deploy_shared_new d prior"
  note defs = deploy_step_def deploy_shared_new_def run_activate_def undo_activate_def adapter_call_def get_run_def
  fix x x' assume P: "before live l 3 x" and fwd: "forward (deploy_step he ?sh Activate) ctx x = (Inr (), x')"
  show "before live l 4 x'" by (simp add: before_def)
  obtain a where live': "live (snd x') = (live (snd x))\<lparr>live_release := Some a\<rparr>" and run: "fst x' = fst x"
    using fwd by (cases x; cases x') (auto simp: defs and_then_eq_Inr dest!: lawful_activate(1) [OF assms(2)] split: option.splits)
  fix y assume ag: "restored live x' y"
  obtain w1 w2 where "activate (shd_artifact d) (ds_ctx ?sh) (shd_host d) p (snd y) = (Inr (), w1)"
    "restart (shd_service d) (ds_ctx ?sh) (shd_host d) w1 = (Inr (), w2)" and l2: "live w2 = (live (snd y))\<lparr>live_release := Some p\<rparr>"
    by (rule lawful_reactivate [OF assms(1,2)])
  then have comp: "compensate (deploy_step he ?sh Activate) ctx y = (Inr (), fst y, w2)"
    using assms(3) by (cases y) (simp add: defs and_then_def map_err_def on_world_def)
  have "live (snd y) = (live (snd x))\<lparr>live_release := Some a\<rparr>" using ag live' by (simp add: restored_def)
  then have "live w2 = live (snd x)"
    using l2 P assms(4) by (cases "live (snd x)") (simp add: before_def)
  with comp ag run show "\<exists>y'. compensate (deploy_step he ?sh Activate) ctx y = (Inr (), y') \<and> restored live x y'"
    by (auto simp: restored_def)
next
  let ?sh = "deploy_shared_new d prior"
  fix x e x' assume "before live l 3 x" and fwd: "forward (deploy_step he ?sh Activate) ctx x = (Inl e, x')"
  then show "restored live x x'"
    by (cases x; cases x')
      (auto simp: deploy_step_def deploy_shared_new_def run_activate_def adapter_call_def get_run_def and_then_eq_Inl
        map_err_eq_Inl restored_def dest!: lawful_activate(2) [OF assms(2)] split: option.splits)
qed

lemma deploy_steps_undoable:
  assumes "lawful_reads live d" and "lawful_writes live d p" and "shd_rollback_to d = None" and "shd_rehearsal d = None"
    and "rec_active prior = Some p" and "live_release l = Some p"
    and "owns_database (shd_migration d) \<longrightarrow> live_revision l \<noteq> None"
  shows "undoable_steps (before live l) (restored live) ctx 0 (deploy_steps he d prior)"
proof -
  let ?sh = "deploy_shared_new d prior"
  have sh: "ds_deploy ?sh = d" by (simp add: deploy_shared_new_def)
  have reads: "\<And>c h. keeps live (stage (shd_artifact d) c h)" "\<And>c h. keeps live (restart (shd_service d) c h)"
    "\<And>c h. keeps live (check (shd_health d) c h)" "\<And>c. keeps live (verify (shd_migration d) c)"
    using assms(1) by (simp_all add: lawful_reads_def)
  note pre = preflight_keeps_live [OF assms(1,4), of he prior] preflight_keeps_run [of he ?sh]
  have fetch: "keeps (live \<circ> snd) (run_fetch ?sh)" "keeps (rt_previous_revision \<circ> fst) (run_fetch ?sh)"
    unfolding run_fetch_def sh by (intro keeps_intros reads; simp)+
  have restart: "keeps (live \<circ> snd) (run_restart ?sh)" "keeps (rt_previous_revision \<circ> fst) (run_restart ?sh)"
    unfolding run_restart_def sh by (intro keeps_intros reads)+
  have health: "keeps (live \<circ> snd) (run_health ?sh)" "keeps (rt_previous_revision \<circ> fst) (run_health ?sh)"
    unfolding run_health_def sh by (intro keeps_intros reads)+
  have verify: "keeps (live \<circ> snd) (run_verify ?sh)" "keeps (rt_previous_revision \<circ> fst) (run_verify ?sh)"
    unfolding run_verify_def sh by (intro keeps_intros reads)+
  have "undoable (before live l 0) (before live l 1) (restored live) ctx (deploy_step he ?sh Preflight)"
    by (rule inert_undoable [OF _ _ pre]) (simp_all add: deploy_step_def before_def)
  moreover have "undoable (before live l 1) (before live l 2) (restored live) ctx (deploy_step he ?sh Fetch)"
    by (rule inert_undoable [OF _ _ fetch]) (simp_all add: deploy_step_def before_def)
  moreover have "undoable (before live l 4) (before live l 5) (restored live) ctx (deploy_step he ?sh Restart)"
    by (rule inert_undoable [OF _ _ restart]) (simp_all add: deploy_step_def before_def)
  moreover have "undoable (before live l 5) (before live l 6) (restored live) ctx (deploy_step he ?sh Health)"
    by (rule inert_undoable [OF _ _ health]) (simp_all add: deploy_step_def before_def)
  moreover have "undoable (before live l 6) (before live l 7) (restored live) ctx (deploy_step he ?sh Verify)"
    by (rule inert_undoable [OF _ _ verify]) (simp_all add: deploy_step_def before_def)
  moreover note migrate_undoable [OF assms(1-3,7), of ctx he prior]
  moreover note activate_undoable [OF assms(1,2,5,6), of ctx he]
  moreover have idx: "Suc 0 = 1" "Suc 1 = 2" "Suc 2 = 3" "Suc 3 = 4" "Suc 4 = 5" "Suc 5 = 6" "Suc 6 = 7" by simp_all
  ultimately show ?thesis
    unfolding deploy_steps_def list.map undoable_steps.simps idx by (intro conjI TrueI)
qed

text \<open>A world to instantiate the theorems with: what is live is all there is.\<close>

definition demo_artifact :: "string \<Rightarrow> staged_artifact" where
  "demo_artifact v = \<lparr>sa_artifact = \<lparr>ar_id = v, ar_checksum = None\<rparr>, sa_path = ''/srv/'' @ v\<rparr>"

definition demo_world :: "string \<Rightarrow> live_state" where
  "demo_world v = \<lparr>live_release = Some (demo_artifact v), live_revision = Some v\<rparr>"

definition demo_adapter :: "string \<Rightarrow> live_state migration_adapter" where
  "demo_adapter v =
     (no_database ''1'')\<lparr>
       current_revision := (\<lambda>_ w. (Inr (live_revision w), w)),
       up := (\<lambda>_ _ w. (Inr (migration_outcome_default\<lparr>mo_to := Some v\<rparr>), w\<lparr>live_revision := Some v\<rparr>)),
       down_to := (\<lambda>_ r w. (Inr migration_outcome_default, w\<lparr>live_revision := Some r\<rparr>)),
       owns_database := True\<rparr>"

definition demo_deploy :: "string \<Rightarrow> bool \<Rightarrow> live_state single_host_deploy" where
  "demo_deploy v b =
     \<lparr>shd_fraise = ''app'', shd_environment = ''prod'', shd_host = ''h1'', shd_ctx = ctx_new ''app'' ''prod'',
      shd_target = None, shd_rollback_to = None, shd_lint = True, shd_policy = gate_default,
      shd_rehearsal = None, shd_backup = FreshDump, shd_readiness = None,
      shd_artifact = \<lparr>stage = (\<lambda>_ _. ok (demo_artifact v)), activate = (\<lambda>_ _ a w. (Inr (), w\<lparr>live_release := Some a\<rparr>)),
        current_artifact = (\<lambda>_ _. ok None)\<rparr>,
      shd_migration = demo_adapter v,
      shd_service = \<lparr>restart = (\<lambda>_ _. ok ()), status = (\<lambda>_ _. ok \<lparr>running = True, ss_detail = None\<rparr>)\<rparr>,
      shd_health = \<lparr>check = (\<lambda>_ _. ok \<lparr>healthy = b, hs_detail = None\<rparr>)\<rparr>\<rparr>"

definition demo_codec :: "deploy_record ledger_codec" where
  "demo_codec = \<lparr>to_value = Inr, from_value = Inr\<rparr>"

definition demo_store :: "string \<Rightarrow> deploy_record memory_inner" where
  "demo_store v = snd (mem_record_snapshot (\<lambda>_. 0) (key_new ''app'' ''prod'')
     \<lparr>rec_active = Some (demo_artifact v), rec_revision = Some v\<rparr> memory_new)"

definition demo_host :: "live_state host_env" where
  "demo_host = \<lparr>he_env = Inl, he_is_dir = (\<lambda>_ _. False)\<rparr>"

definition demo_clock :: "deploy_record memory_inner platform" where
  "demo_clock = \<lparr>now = (\<lambda>_. 0), uni_alnum = (\<lambda>_. False)\<rparr>"

lemma demo_store_valid [simp]: "memory_valid (\<lambda>_. 0) (demo_store v)"
  using memory_valid_put_snapshot [OF memory_valid_new] by (simp add: demo_store_def mem_record_snapshot_def Let_def)

lemma demo_store_simps [simp]:
  "mi_locks (demo_store v) = {}"
  "mi_snapshots (demo_store v) (slug (\<lambda>_. 0) (key_new ''app'' ''prod'')) =
     Some \<lparr>rec_active = Some (demo_artifact v), rec_revision = Some v\<rparr>"
  by (simp_all add: demo_store_def mem_record_snapshot_def Let_def memory_new_def)

lemma demo_codec_simps [simp]: "codec_ok demo_codec" "ledger demo_codec (Some r) = Inr r" "ledger demo_codec None = Inr deploy_record_default"
  by (simp_all add: codec_ok_def demo_codec_def ledger_def ledger_result_def)

lemma demo_deploy_key [simp]: "shd_fraise (demo_deploy v b) = ''app''" "shd_environment (demo_deploy v b) = ''prod''"
  by (simp_all add: demo_deploy_def)

lemma demo_lawful: "lawful_reads (\<lambda>w. w) (demo_deploy v b)" "lawful_writes (\<lambda>w. w) (demo_deploy v b) p"
  by (auto simp: lawful_reads_def lawful_writes_def demo_deploy_def demo_adapter_def no_database_def keeps_def
      default_preflight_def gate_default_def)

text \<open>
  C2: the headline guarantee. With adapters that keep their contracts, a recorded prior release that
  is the live one, a database that has a revision to go back to (or no database at all) and no restore
  rehearsal configured, a forward deploy on a free lock always returns, and it either commits or rolls back completely:
  after a rollback exactly the release and the schema revision that were live before the deploy
  are live again. It never ends half-way.
\<close>

theorem failed_deploy_restores_live:
  assumes "codec_ok c" and "memory_valid h s" and "slug h (deploy_key d) \<notin> mi_locks s"
    and "ledger c (mi_snapshots s (slug h (deploy_key d))) = Inr prior"
    and "rec_active prior = Some p" and "live_release (live w) = Some p"
    and "owns_database (shd_migration d) \<longrightarrow> live_revision (live w) \<noteq> None"
    and "shd_rollback_to d = None" and "shd_rehearsal d = None"
    and "lawful_reads live d" and "lawful_writes live d p"
  shows "\<exists>run s' w'. run_reporting pf he c (memory_store h) d (s, w) = (Inr run, s', w') \<and>
    (run_outcome run = OutcomeCommitted \<or> ((\<exists>n m. run_outcome run = OutcomeRolledBack n m) \<and> live w' = live w))"
proof -
  have view: "\<not> sv_locked (memory_view s) (slug h (deploy_key d))"
    "sv_snapshot (memory_view s) = mi_snapshots s"
    using assms(3) by (simp_all add: memory_view_def)
  obtain run s' w' where run: "run_reporting pf he c (memory_store h) d (s, w) = (Inr run, s', w')"
    by (rule mem.run_reporting_total [OF assms(2) view(1) assms(1)]) (use assms(4) view in auto)
  from mem.run_reporting_ok [OF assms(2) run] view assms(4) obtain rt ts where
    "saga_spec pf \<lparr>sc_key = deploy_key d\<rparr> [] (deploy_steps he d prior) (runtime_default, w) = (run_outcome run, ts, rt, w')"
    by auto
  from saga_spec_undo [OF this deploy_steps_undoable [OF assms(10,11,8,9,5,6,7)]] run show ?thesis
    by (auto simp: before_def runtime_default_def restored_def)
qed

theorem failed_deploy_restores_live_witness:
  "\<exists>run s' w'. run_reporting demo_clock demo_host demo_codec (memory_store (\<lambda>_. 0)) (demo_deploy ''v2'' False)
      (demo_store ''v1'', demo_world ''v1'') = (Inr run, s', w') \<and>
    (run_outcome run = OutcomeCommitted \<or> ((\<exists>n m. run_outcome run = OutcomeRolledBack n m) \<and> w' = demo_world ''v1''))"
  by (rule failed_deploy_restores_live [where live = "\<lambda>w. w" and p = "demo_artifact ''v1''"
        and prior = "\<lparr>rec_active = Some (demo_artifact ''v1''), rec_revision = Some ''v1''\<rparr>"])
    (simp_all only: demo_lawful, simp_all add: demo_world_def demo_deploy_def)

section \<open>First deploys, refusals and deliberate rollbacks\<close>

text \<open>A deploy whose staging fails.\<close>

definition demo_failing_fetch :: "live_state single_host_deploy" where
  "demo_failing_fetch = (demo_deploy ''v2'' True)\<lparr>shd_artifact := (shd_artifact (demo_deploy ''v2'' True))
     \<lparr>stage := (\<lambda>_ _. fail (adapter_error_new Execution ''no such release''))\<rparr>\<rparr>"

lemma demo_preflight:
  "shd_readiness d = None \<Longrightarrow> shd_rehearsal d = None \<Longrightarrow> shd_policy d = gate_default \<Longrightarrow>
     shd_migration d = demo_adapter v \<Longrightarrow> run_preflight he (deploy_shared_new d prior) x = (Inr (), x)"
  by (cases x) (simp add: run_preflight_def static_preflight_def deploy_shared_new_def deep_rehearsal_def inspect_step_def
      inspect_def inspect_described_def run_policy_gate_def run_forward_compat_lint_def Let_def and_then_def adapter_call_def
      map_err_def on_world_def demo_adapter_def no_database_def from_advertised_def capabilities_new_def
      cap_with_window_safe_def admit_def gate_default_def evaluate_def baseline_verdict_def inspection_default_def)

lemma demo_failing_fetch_run:
  "run_preflight he (deploy_shared_new demo_failing_fetch prior) x = (Inr (), x)"
  "run_fetch (deploy_shared_new demo_failing_fetch prior) x =
     (Inl (failed ''fetch'' (adapter_error_new Execution ''no such release'')), x)"
  by (simp_all add: demo_preflight demo_failing_fetch_def demo_deploy_def)
    (cases x, simp add: run_fetch_def deploy_shared_new_def and_then_def adapter_call_def map_err_def on_world_def)

text \<open>
  A failed first deploy never claims a clean rollback of what it activated. With no prior release
  on record, a run reported as rolled back failed before or at the activation; a failure after it
  is reported as a partial rollback.
\<close>

theorem first_deploy_rollback_is_partial:
  assumes "memory_valid h s" and "ledger c (mi_snapshots s (slug h (deploy_key d))) = Inr prior" and "rec_active prior = None"
    and "run_reporting pf he c (memory_store h) d (s, w) = (Inr run, s', w')"
    and "run_outcome run = OutcomeRolledBack n m"
  shows "n \<in> {''preflight'', ''fetch'', ''migrate'', ''activate''}"
proof -
  let ?ctx = "\<lparr>sc_key = deploy_key d\<rparr>" and ?step = "deploy_step he (deploy_shared_new d prior)"
  from mem.run_reporting_ok [OF assms(1,4)] assms(2,5) obtain rt ts where
    spec: "saga_spec pf ?ctx [] (deploy_steps he d prior) (runtime_default, w) = (OutcomeRolledBack n m, ts, rt, w')"
    by (auto simp: memory_view_def)
  obtain cs e x1 tried where fwd: "run_forward ?ctx (deploy_steps he d prior) (runtime_default, w) = (cs, Some (n, e), x1)"
    and bk: "run_back ?ctx (rev cs) x1 = (tried, None, rt, w')"
    using saga_spec_rolled_back_run [OF spec] .
  have "?step Activate \<notin> set cs"
    using run_back_compensated [OF bk, of "?step Activate"] assms(3)
    by (auto simp: deploy_step_def undo_activate_def deploy_shared_new_def)
  moreover obtain step rest where "deploy_steps he d prior = cs @ step # rest" "step_name step = n"
    using run_forward_prefix [OF fwd] by blast
  ultimately show ?thesis
    by (auto simp: deploy_steps_def deploy_step_def Cons_eq_append_conv)
qed

theorem first_deploy_rollback_is_partial_witness:
  "\<exists>run s' w' n m. run_reporting demo_clock demo_host demo_codec (memory_store (\<lambda>_. 0)) (demo_failing_fetch)
      (memory_new, demo_world ''v1'') = (Inr run, s', w') \<and>
    run_outcome run = OutcomeRolledBack n m \<and> n \<in> {''preflight'', ''fetch'', ''migrate'', ''activate''}"
proof -
  have led: "ledger demo_codec (mi_snapshots (memory_new :: deploy_record memory_inner) a) = Inr deploy_record_default" for a
    by (simp add: memory_new_def)
  obtain run s' w' where run: "run_reporting demo_clock demo_host demo_codec (memory_store (\<lambda>_. 0)) demo_failing_fetch
      (memory_new, demo_world ''v1'') = (Inr run, s', w')"
    by (rule mem.run_reporting_total [OF memory_valid_new _ demo_codec_simps(1)]) (simp_all add: memory_view_def memory_new_def)
  from mem.run_reporting_ok [OF memory_valid_new run]
  have out: "run_outcome run = OutcomeRolledBack ''fetch''
      (show_saga_error (failed ''fetch'' (adapter_error_new Execution ''no such release'')))"
    by (auto simp: saga_spec_def back_spec_def deploy_steps_def deploy_step_def demo_failing_fetch_run)
  from first_deploy_rollback_is_partial [OF memory_valid_new led _ run out] run out show ?thesis
    by (simp add: deploy_record_default_def)
qed

text \<open>
  C30: nothing is touched before the preflight has passed. When the preflight refuses (readiness, the
  policy gate, the lint or the rehearsal), the deploy reports a rollback that names it and the
  world is exactly what the preflight's own checks left: no artifact was staged or activated, no
  migration ran on the live database, and the ledger is unchanged.
\<close>

theorem refused_preflight_touches_nothing:
  assumes "codec_ok c" and "memory_valid h s" and "slug h (deploy_key d) \<notin> mi_locks s"
    and "ledger c (mi_snapshots s (slug h (deploy_key d))) = Inr prior"
    and "run_preflight he (deploy_shared_new d prior) (runtime_default, w) = (Inl e, rt, w1)"
  shows "\<exists>s'. run_reporting pf he c (memory_store h) d (s, w) =
      (Inr \<lparr>run_outcome = OutcomeRolledBack ''preflight'' (show_saga_error e), run_warnings = rt_warnings rt\<rparr>, s', w1) \<and>
    mi_snapshots s' = mi_snapshots s"
proof -
  have view: "\<not> sv_locked (memory_view s) (slug h (deploy_key d))"
    "sv_snapshot (memory_view s) = mi_snapshots s"
    using assms(3) by (simp_all add: memory_view_def)
  obtain run s' w' where run: "run_reporting pf he c (memory_store h) d (s, w) = (Inr run, s', w')"
    by (rule mem.run_reporting_total [OF assms(2) view(1) assms(1)]) (use assms(4) view in auto)
  from mem.run_reporting_ok [OF assms(2) run] view assms(4) obtain rt' ts v where
    spec: "saga_spec pf \<lparr>sc_key = deploy_key d\<rparr> [] (deploy_steps he d prior) (runtime_default, w) = (run_outcome run, ts, rt', w')"
    and warn: "run_warnings run = rt_warnings rt'"
    and adv: "advanced (slug h (deploy_key d)) (chain Idle ts) ts (memory_view s) v"
    and fin: "run_outcome run = OutcomeCommitted \<or> memory_view s' = v"
    by (auto split: if_splits)
  from spec assms(5) have out: "run_outcome run = OutcomeRolledBack ''preflight'' (show_saga_error e)" "rt' = rt" "w' = w1"
    by (auto simp: deploy_steps_def saga_spec_def back_spec_def deploy_step_def)
  with fin advanced_frame(2) [OF adv] have "sv_snapshot (memory_view s') = sv_snapshot (memory_view s)" by simp
  then have "mi_snapshots s' = mi_snapshots s" by (simp add: memory_view_def)
  with run out warn show ?thesis by (cases run) auto
qed

theorem refused_preflight_touches_nothing_witness:
  "\<exists>s' e. run_reporting demo_clock demo_host demo_codec (memory_store (\<lambda>_. 0))
      ((demo_deploy ''v2'' True)\<lparr>shd_policy := gate_new policy_default\<rparr>) (demo_store ''v1'', demo_world ''v1'') =
      (Inr \<lparr>run_outcome = OutcomeRolledBack ''preflight'' e, run_warnings = []\<rparr>, s', demo_world ''v1'')"
proof -
  let ?d = "(demo_deploy ''v2'' True)\<lparr>shd_policy := gate_new policy_default\<rparr>"
    and ?prior = "\<lparr>rec_active = Some (demo_artifact ''v1''), rec_revision = Some ''v1''\<rparr>"
  obtain e where "run_preflight demo_host (deploy_shared_new ?d ?prior) (runtime_default, demo_world ''v1'') =
      (Inl e, runtime_default, demo_world ''v1'')"
    by (simp add: run_preflight_def static_preflight_def deploy_shared_new_def deep_rehearsal_def inspect_step_def
      inspect_def inspect_described_def run_policy_gate_def Let_def and_then_def adapter_call_def demo_deploy_def
      map_err_def on_world_def demo_adapter_def no_database_def from_advertised_def capabilities_new_def
      cap_with_window_safe_def admit_def gate_new_def evaluate_def baseline_verdict_def)
  from refused_preflight_touches_nothing [where h = "\<lambda>_. 0" and s = "demo_store ''v1''", OF demo_codec_simps(1) _ _ _ this,
      of demo_clock]
  show ?thesis by (auto simp: runtime_default_def)
qed

text \<open>
  An emergency rollback is never held up. A deliberate rollback runs the same preflight whatever
  the readiness probe, the schema policy and the restore rehearsal are: none of the forward-only
  gates can refuse it.
\<close>

theorem rollback_skips_forward_gates:
  assumes "shd_rollback_to d \<noteq> None"
  shows "run_preflight he (deploy_shared_new (d\<lparr>shd_readiness := probe, shd_policy := g, shd_rehearsal := db\<rparr>) prior) =
    run_preflight he (deploy_shared_new d prior)"
proof -
  from assms obtain r where r: "shd_rollback_to d = Some r" by auto
  have deep: "deep_rehearsal (deploy_shared_new d prior) = None"
    "deep_rehearsal (deploy_shared_new (d\<lparr>shd_readiness := probe, shd_policy := g, shd_rehearsal := db\<rparr>) prior) = None"
    using assms by (auto simp: deep_rehearsal_def deploy_shared_new_def Let_def split: option.split)
  show ?thesis
    unfolding run_preflight_def deep option.case
    by (intro ext) (simp add: r static_preflight_def inspect_step_def run_policy_gate_def deploy_shared_new_def split: option.split)
qed

theorem rollback_skips_forward_gates_witness:
  "let d = (demo_deploy ''v1'' True)\<lparr>shd_rollback_to := Some ''v1''\<rparr> in
   run_preflight demo_host (deploy_shared_new
     (d\<lparr>shd_readiness := Some (\<lambda>_ w. (Inr [''no server''], w)), shd_policy := gate_new policy_default, shd_rehearsal := None\<rparr>)
     deploy_record_default) = run_preflight demo_host (deploy_shared_new d deploy_record_default)"
  unfolding Let_def by (rule rollback_skips_forward_gates) simp

text \<open>
  No deploy ever calls the migration adapter's \<open>post_migrate\<close> hook: replacing it by anything
  changes no run.
\<close>

theorem post_migrate_never_called:
  "run_reporting pf he c store (d\<lparr>shd_migration := (shd_migration d)\<lparr>post_migrate := f\<rparr>\<rparr>) = run_reporting pf he c store d"
proof -
  let ?d = "d\<lparr>shd_migration := (shd_migration d)\<lparr>post_migrate := f\<rparr>\<rparr>"
  have "deploy_step he (deploy_shared_new ?d prior) ph = deploy_step he (deploy_shared_new d prior) ph" for prior ph
    by (cases ph)
      (simp_all add: deploy_step_def deploy_shared_new_def run_preflight_def static_preflight_def deep_rehearsal_def
        run_deep_preflight_def deep_checks_def inspect_step_def inspect_def inspect_described_def run_policy_gate_def
        run_restore_rehearsal_step_def run_restore_rehearsal_def rehearse_on_def run_fetch_def run_migrate_def
        undo_migrate_def migration_ctx_def run_activate_def run_restart_def undo_activate_def run_health_def run_verify_def Let_def
        fun_eq_iff cong: option.case_cong if_cong)
  then show ?thesis
    by (simp add: run_reporting_def run_deploy_saga_def deploy_saga_def Let_def)
qed

section \<open>The release ledger\<close>

text \<open>Steps after the fetch keep what it staged, and steps after the migration the revision it recorded.\<close>

lemma keeps_staged:
  "keeps (rt_staged \<circ> fst) (run_migrate he sh)" "keeps (\<lambda>x. (rt_staged (fst x), rt_new_revision (fst x))) (run_activate sh)"
  "keeps (\<lambda>x. (rt_staged (fst x), rt_new_revision (fst x))) (run_restart sh)" "keeps (\<lambda>x. (rt_staged (fst x), rt_new_revision (fst x))) (run_health sh)"
  "keeps (\<lambda>x. (rt_staged (fst x), rt_new_revision (fst x))) (run_verify sh)"
  by (auto simp: keeps_def run_migrate_def run_activate_def run_restart_def run_health_def run_verify_def
      Let_def and_then_def adapter_call_def map_err_def on_world_def modify_run_def get_run_def
      split: prod.splits sum.splits option.splits)

text \<open>
  What a run stages and migrates to, from the world \<open>w\<close> it starts in: the preflight passes; in the world it leaves, the artifact adapter
  stages \<open>staged\<close>; then the migration adapter reports the revision the database is at, and migrating up to the target, or down to the one
  a rollback names, succeeds. The revision is the rollback's target, or the one the adapter says it migrated to, or else the one before.
\<close>

definition stages_and_migrates :: "'w host_env \<Rightarrow> 'w single_host_deploy \<Rightarrow> deploy_record \<Rightarrow> 'w \<Rightarrow> staged_artifact \<Rightarrow> revision option \<Rightarrow> bool" where
  "stages_and_migrates he d prior w staged reached \<longleftrightarrow>
     (\<exists>rt1 w1 w2 w3 previous. let m = shd_migration d; host_ctx = (shd_ctx d)\<lparr>ctx_host := Some (shd_host d)\<rparr>;
          ctx = (if he_is_dir he w2 (sa_path staged) then host_ctx\<lparr>ctx_workdir := sa_path staged\<rparr> else host_ctx) in
        run_preflight he (deploy_shared_new d prior) (runtime_default, w) = (Inr (), rt1, w1) \<and>
        stage (shd_artifact d) host_ctx (shd_host d) w1 = (Inr staged, w2) \<and>
        current_revision m ctx w2 = (Inr previous, w3) \<and>
        (case shd_rollback_to d of
           Some target \<Rightarrow> is_ok (fst (down_to m ctx target w3)) \<and> reached = Some target
         | None \<Rightarrow> (\<exists>outcome w4. up m ctx (shd_target d) w3 = (Inr outcome, w4) \<and> reached = or_else (mo_to outcome) previous)))"

lemma committed_staged:
  assumes "run_forward ctx (deploy_steps he d prior) (runtime_default, w) = (cs, None, rt, w')"
  shows "\<exists>staged. rt_staged rt = Some staged \<and> stages_and_migrates he d prior w staged (rt_new_revision rt)"
proof -
  let ?sh = "deploy_shared_new d prior" and ?ctx = "(shd_ctx d)\<lparr>ctx_host := Some (shd_host d)\<rparr>" and ?m = "shd_migration d"
  have sh: "ds_deploy ?sh = d" "ds_ctx ?sh = ?ctx" by (simp_all add: deploy_shared_new_def)
  note steps = assms [unfolded deploy_steps_def list.map run_forward_Cons_done]
  obtain x1 x2 x3 x4 x5 x6 where pre: "run_preflight he ?sh (runtime_default, w) = (Inr (), x1)" and fetch: "run_fetch ?sh x1 = (Inr (), x2)"
    and mig: "run_migrate he ?sh x2 = (Inr (), x3)" and later: "run_activate ?sh x3 = (Inr (), x4)"
      "run_restart ?sh x4 = (Inr (), x5)" "run_health ?sh x5 = (Inr (), x6)" "run_verify ?sh x6 = (Inr (), rt, w')"
    using steps by (auto simp: deploy_step_def)
  obtain rt1 w1 where x1: "x1 = (rt1, w1)" by (rule prod.exhaust)
  obtain staged w2 where st: "stage (shd_artifact d) ?ctx (shd_host d) w1 = (Inr staged, w2)" and x2: "x2 = (rt1\<lparr>rt_staged := Some staged\<rparr>, w2)"
    using fetch unfolding x1 by (auto simp: run_fetch_def sh and_then_eq_Inr adapter_call_def on_world_def modify_run_def split: prod.splits)
  define mctx where "mctx = (if he_is_dir he w2 (sa_path staged) then ?ctx\<lparr>ctx_workdir := sa_path staged\<rparr> else ?ctx)"
  have ctx: "migration_ctx he ?sh x2 = mctx" by (simp add: migration_ctx_def x2 mctx_def sh)
  note mig' = mig [unfolded run_migrate_def Let_def ctx sh, unfolded x2]
  obtain q w3 where cur: "current_revision ?m mctx w2 = (q, w3)" by (rule prod.exhaust)
  obtain q1 w4 where u: "up ?m mctx (shd_target d) w3 = (q1, w4)" by (rule prod.exhaust)
  obtain q2 w5 where dn: "down_to ?m mctx (the (shd_rollback_to d)) w3 = (q2, w5)" by (rule prod.exhaust)
  have "\<exists>previous. q = Inr previous \<and> (case shd_rollback_to d of
        Some target \<Rightarrow> is_ok (fst (down_to ?m mctx target w3)) \<and> rt_new_revision (fst x3) = Some target
      | None \<Rightarrow> (\<exists>outcome w4. up ?m mctx (shd_target d) w3 = (Inr outcome, w4) \<and> rt_new_revision (fst x3) = or_else (mo_to outcome) previous))"
    using mig' cur u dn by (cases "shd_rollback_to d"; cases q; cases q1; cases q2)
      (auto simp: and_then_def map_err_def adapter_call_def on_world_def modify_run_def)
  then obtain previous where q: "q = Inr previous"
    and to: "case shd_rollback_to d of
        Some target \<Rightarrow> is_ok (fst (down_to ?m mctx target w3)) \<and> rt_new_revision (fst x3) = Some target
      | None \<Rightarrow> (\<exists>outcome w4. up ?m mctx (shd_target d) w3 = (Inr outcome, w4) \<and> rt_new_revision (fst x3) = or_else (mo_to outcome) previous)"
    by blast
  note cur = cur [unfolded q]
  have "rt_staged rt = rt_staged (fst x3)" "rt_new_revision rt = rt_new_revision (fst x3)"
    using later(1) [THEN keepsD [OF keeps_staged(2)]] later(2) [THEN keepsD [OF keeps_staged(3)]]
      later(3) [THEN keepsD [OF keeps_staged(4)]] later(4) [THEN keepsD [OF keeps_staged(5)]] by simp_all
  moreover have "rt_staged (fst x3) = Some staged" using mig [THEN keepsD [OF keeps_staged(1)]] by (simp add: x2)
  moreover have "stages_and_migrates he d prior w staged (rt_new_revision (fst x3))"
    unfolding stages_and_migrates_def Let_def
    by (intro exI conjI) (fact pre [unfolded x1] st cur [unfolded mctx_def] to [unfolded mctx_def])+
  ultimately show ?thesis by auto
qed

text \<open>
  C29: the ledger is exact. After a committed deploy the next deploy reads back precisely the artifact this run staged, as its rollback target, and
  the revision this run migrated the database to, each as the adapters answered in the worlds this run led to; after a deploy that did not commit, no
  snapshot in the store has changed, so the rollback target of the last committed deploy survives.
\<close>

theorem commit_updates_ledger:
  assumes "codec_ok c" and "memory_valid h s"
    and "run_reporting pf he c (memory_store h) d (s, w) = (Inr run, s', w')"
  shows "if run_outcome run = OutcomeCommitted
    then \<exists>prior staged rev. read_prior c (memory_store h) (deploy_key d) s = (Inr prior, s) \<and> stages_and_migrates he d prior w staged rev \<and>
      read_prior c (memory_store h) (deploy_key d) s' = (Inr \<lparr>rec_active = Some staged, rec_revision = rev\<rparr>, s')
    else mi_snapshots s' = mi_snapshots s"
proof -
  obtain prior rt ts v where led: "ledger c (sv_snapshot (memory_view s) (slug h (deploy_key d))) = Inr prior" and
    spec: "saga_spec pf \<lparr>sc_key = deploy_key d\<rparr> [] (deploy_steps he d prior) (runtime_default, w) = (run_outcome run, ts, rt, w')"
    and adv: "advanced (slug h (deploy_key d)) (chain Idle ts) ts (memory_view s) v"
    and fin: "if run_outcome run = OutcomeCommitted
      then \<exists>j. to_value c (committed_record rt) = Inr j \<and> memory_view s' = set_snapshot (slug h (deploy_key d)) j v
      else memory_view s' = v"
    using mem.run_reporting_ok [OF assms(2,3)] by blast
  show ?thesis
  proof (cases "run_outcome run = OutcomeCommitted")
    case True
    with fin obtain j where j: "to_value c (committed_record rt) = Inr j"
      and v': "memory_view s' = set_snapshot (slug h (deploy_key d)) j v" by auto
    have "mi_snapshots s' (slug h (deploy_key d)) = Some j"
      using arg_cong [OF v', of "\<lambda>v. sv_snapshot v (slug h (deploy_key d))"]
      by (simp add: memory_view_def set_snapshot_def)
    moreover have "from_value c j = Inr (committed_record rt)"
      using assms(1) j unfolding codec_ok_def by (metis sum.inject(2))
    moreover obtain staged where "rt_staged rt = Some staged" "stages_and_migrates he d prior w staged (rt_new_revision rt)"
      using committed_staged saga_spec_committed spec True by metis
    moreover have "read_prior c (memory_store h) (deploy_key d) s = (Inr prior, s)"
      using led by (auto simp: read_prior_def and_then_def map_err_def memory_defs memory_view_def ledger_def split: option.splits)
    ultimately show ?thesis using True
      by (auto simp: read_prior_def and_then_def map_err_def memory_defs ledger_result_def committed_record_def)
  next
    case False
    with fin advanced_frame(2) [OF adv] have "sv_snapshot (memory_view s') = sv_snapshot (memory_view s)" by simp
    with False show ?thesis by (simp add: memory_view_def)
  qed
qed

lemma demo_deploy_runs:
  obtains run s' w' where "run_reporting demo_clock demo_host demo_codec (memory_store (\<lambda>_. 0)) (demo_deploy v b)
    (demo_store u, w) = (Inr run, s', w')"
  by (rule mem.run_reporting_total [where h = "\<lambda>_. 0" and s = "demo_store u" and d = "demo_deploy v b" and c = demo_codec
        and prior = "\<lparr>rec_active = Some (demo_artifact u), rec_revision = Some u\<rparr>"])
    (simp_all add: memory_view_def)

theorem commit_updates_ledger_witness:
  "\<exists>run s' w'. run_reporting demo_clock demo_host demo_codec (memory_store (\<lambda>_. 0)) (demo_deploy ''v2'' True)
      (demo_store ''v1'', demo_world ''v1'') = (Inr run, s', w') \<and>
    (if run_outcome run = OutcomeCommitted
     then \<exists>staged rev. read_prior demo_codec (memory_store (\<lambda>_. 0)) (key_new ''app'' ''prod'') s' =
       (Inr \<lparr>rec_active = Some staged, rec_revision = rev\<rparr>, s')
     else mi_snapshots s' = mi_snapshots (demo_store ''v1''))"
proof -
  obtain run s' w' where run: "run_reporting demo_clock demo_host demo_codec (memory_store (\<lambda>_. 0)) (demo_deploy ''v2'' True)
      (demo_store ''v1'', demo_world ''v1'') = (Inr run, s', w')"
    by (rule demo_deploy_runs)
  from commit_updates_ledger [OF demo_codec_simps(1) demo_store_valid run] run show ?thesis
    by (auto split: if_splits)
qed

section \<open>The ledger is read before the lock is taken\<close>

text \<open>The steps of the example deploy, run on any state.\<close>

lemma demo_steps_run:
  "run_preflight he (deploy_shared_new (demo_deploy v b) prior) x = (Inr (), x)"
  "run_fetch (deploy_shared_new (demo_deploy v b) prior) x = (Inr (), (fst x)\<lparr>rt_staged := Some (demo_artifact v)\<rparr>, snd x)"
  "run_migrate he (deploy_shared_new (demo_deploy v b) prior) x =
     (Inr (), (fst x)\<lparr>rt_previous_revision := live_revision (snd x), rt_new_revision := Some v\<rparr>,
      (snd x)\<lparr>live_revision := Some v\<rparr>)"
  "rt_staged (fst x) = Some a \<Longrightarrow> run_activate (deploy_shared_new (demo_deploy v b) prior) x =
     (Inr (), fst x, (snd x)\<lparr>live_release := Some a\<rparr>)"
  "run_restart (deploy_shared_new (demo_deploy v b) prior) x = (Inr (), x)"
  "run_health (deploy_shared_new (demo_deploy v b) prior) x =
     (if b then (Inr (), x) else (Inl (StepFailed ''health'' ''health check reported the host unhealthy''), x))"
  "run_verify (deploy_shared_new (demo_deploy v b) prior) x = (Inr (), x)"
  by (simp add: demo_preflight demo_deploy_def)
    (cases x; simp add: run_fetch_def run_migrate_def run_activate_def run_restart_def run_health_def run_verify_def
      deploy_shared_new_def demo_deploy_def demo_adapter_def no_database_def Let_def and_then_def adapter_call_def
      map_err_def on_world_def modify_run_def get_run_def migration_ctx_def or_else_def unhealthy_message_def
      with_skipped_def verify_report_new_def)+

lemma demo_undo_run:
  "rt_previous_revision (fst x) = Some r \<Longrightarrow> undo_migrate he (deploy_shared_new (demo_deploy v b) prior) x =
     (Inr (), fst x, (snd x)\<lparr>live_revision := Some r\<rparr>)"
  "rec_active prior = Some a \<Longrightarrow> undo_activate (deploy_shared_new (demo_deploy v b) prior) x =
     (Inr (), fst x, (snd x)\<lparr>live_release := Some a\<rparr>)"
  by (cases x; simp add: undo_migrate_def undo_activate_def deploy_shared_new_def demo_deploy_def demo_adapter_def Let_def
      and_then_def adapter_call_def map_err_def map_ok_def on_world_def)+

text \<open>
  Two deploys of one key, A and B. B reads the ledger (it says v1), A runs to its commit, then B
  takes the lock and fails its health check. B's rollback re-activates v1, although v2 is the
  committed release, and leaves the schema revision of v2: the release that is live is not the
  one the ledger names. The ledger is read before the lock protects it.
\<close>

theorem stale_ledger_window:
  "let key = key_new ''app'' ''prod''; st = memory_store (\<lambda>_. 0) in
   \<exists>prior run s1 w1 out rt s2 w2.
     read_prior demo_codec st key (demo_store ''v1'') = (Inr prior, demo_store ''v1'') \<and>
     run_reporting demo_clock demo_host demo_codec st (demo_deploy ''v2'' True) (demo_store ''v1'', demo_world ''v1'') = (Inr run, s1, w1) \<and>
     run_outcome run = OutcomeCommitted \<and> w1 = demo_world ''v2'' \<and>
     run_deploy_saga demo_clock demo_host st (demo_deploy ''v3'' False) prior (s1, w1) = (Inr (out, rt), s2, w2) \<and>
     (\<exists>m. out = OutcomeRolledBack ''health'' m) \<and>
     live_release w2 = Some (demo_artifact ''v1'') \<and> live_revision w2 = Some ''v2''"
proof -
  let ?key = "key_new ''app'' ''prod''" and ?st = "memory_store (\<lambda>_. 0) :: (deploy_record memory_inner, deploy_record) state_store"
  let ?prior = "\<lparr>rec_active = Some (demo_artifact ''v1''), rec_revision = Some ''v1''\<rparr>"
  have rd: "read_prior demo_codec ?st ?key (demo_store ''v1'') = (Inr ?prior, demo_store ''v1'')"
    by (simp add: read_prior_def and_then_def map_err_def memory_defs ledger_result_def demo_codec_def)
  obtain run s1 w1 where A: "run_reporting demo_clock demo_host demo_codec ?st (demo_deploy ''v2'' True)
      (demo_store ''v1'', demo_world ''v1'') = (Inr run, s1, w1)"
    by (rule demo_deploy_runs)
  from mem.run_reporting_ok [OF demo_store_valid A] obtain ts rt0 where
    specA: "saga_spec demo_clock \<lparr>sc_key = ?key\<rparr> [] (deploy_steps demo_host (demo_deploy ''v2'' True) ?prior)
      (runtime_default, demo_world ''v1'') = (run_outcome run, ts, rt0, w1)"
    and v1: "memory_valid (\<lambda>_. 0) s1"
    by auto
  have resA: "run_outcome run = OutcomeCommitted" "w1 = demo_world ''v2''"
    using specA by (auto simp: saga_spec_def deploy_steps_def deploy_step_def demo_steps_run demo_world_def)
  have free: "\<not> sv_locked (memory_view s1) (slug (\<lambda>_. 0) ?key)"
    using fun_cong [OF mem.run_reporting_locks [OF demo_store_valid A]] by simp
  obtain out s2 x2 where B: "run_with_state demo_clock (deploy_saga demo_host ?st (demo_deploy ''v3'' False) ?prior)
      (s1, runtime_default, w1) = (Inr out, s2, x2)"
    by (rule mem.run_total [where h = "\<lambda>_. 0" and s = s1 and sg = "deploy_saga demo_host ?st (demo_deploy ''v3'' False) ?prior"])
      (use v1 free in simp_all)
  from mem.run_ok [OF _ v1 B] obtain ts' where
    "saga_spec demo_clock \<lparr>sc_key = ?key\<rparr> [] (deploy_steps demo_host (demo_deploy ''v3'' False) ?prior)
      (runtime_default, w1) = (out, ts', x2)" by auto
  then have resB: "\<exists>m. out = OutcomeRolledBack ''health'' m" "live_release (snd x2) = Some (demo_artifact ''v1'')"
    "live_revision (snd x2) = Some ''v2''"
    using resA(2) by (auto simp: saga_spec_def back_spec_def deploy_steps_def deploy_step_def demo_steps_run demo_undo_run demo_world_def)
  have "run_deploy_saga demo_clock demo_host ?st (demo_deploy ''v3'' False) ?prior (s1, w1) = (Inr (out, fst x2), s2, snd x2)"
    using B by (cases x2) (simp add: run_deploy_saga_ok)
  with rd A resA resB show ?thesis unfolding Let_def by blast
qed

end
