(* ===== verification/Blue_Green.thy ===== *)
theory Blue_Green
  imports Preflight
begin

text \<open>
  The blue-green deploy (\<open>fraisier-core/src/blue_green.rs\<close>): seven saga steps that start a green
  fleet, migrate the shared database forward, health-gate green, swap the traffic, hold, and
  decommission blue. The traffic director, the fleet operations, the migration adapter and the
  probes are parameters acting on a world \<open>'w\<close>.
\<close>

section \<open>Data\<close>

text \<open>Durations are in any fixed unit; the flow only hands them on.\<close>

record 'w fleet_ops =
  provision_green :: "adapter_ctx \<Rightarrow> ('w, string, unit) eff"
  green_healthy :: "adapter_ctx \<Rightarrow> 'w \<Rightarrow> bool \<times> 'w"
  watch_green :: "adapter_ctx \<Rightarrow> nat \<Rightarrow> ('w, string, unit) eff"
  reap_green :: "adapter_ctx \<Rightarrow> ('w, string, unit) eff"
  reap_blue :: "adapter_ctx \<Rightarrow> ('w, string, unit) eff"

record 'w bg_shared =
  bg_ctx :: adapter_ctx
  bg_green :: traffic_target
  bg_hold :: nat
  bg_green_pool :: "32 word"
  bg_budget_margin :: "32 word"
  bg_migration :: "'w migration_adapter"
  bg_traffic :: "'w traffic_director"
  bg_fleet :: "'w fleet_ops"
  bg_budget :: "'w connection_budget option"
  bg_policy :: "'w policy_gate"
  bg_readiness :: "'w database_readiness option"

record bg_runtime =
  prior_target :: "traffic_target option"
  green_provisioned :: bool

definition bg_runtime_default :: bg_runtime where
  "bg_runtime_default = \<lparr>prior_target = None, green_provisioned = False\<rparr>"

type_synonym 'w bg_state = "bg_runtime \<times> 'w"

record 'w blue_green_params =
  bgp_fraise :: string
  bgp_environment :: string
  bgp_ctx :: adapter_ctx
  bgp_green :: traffic_target
  bgp_hold :: nat
  bgp_green_pool :: "32 word"
  bgp_budget_margin :: "32 word"
  bgp_policy :: "'w policy_gate"

record 'w blue_green_deploy =
  bgd_fraise :: string
  bgd_environment :: string
  bgd_shared :: "'w bg_shared"

definition blue_green_new ::
  "'w blue_green_params \<Rightarrow> 'w migration_adapter \<Rightarrow> 'w traffic_director \<Rightarrow> 'w fleet_ops \<Rightarrow>
     'w connection_budget option \<Rightarrow> 'w blue_green_deploy" where
  "blue_green_new p migration traffic fleet budget =
     \<lparr>bgd_fraise = bgp_fraise p, bgd_environment = bgp_environment p,
      bgd_shared =
        \<lparr>bg_ctx = bgp_ctx p, bg_green = bgp_green p, bg_hold = bgp_hold p, bg_green_pool = bgp_green_pool p,
         bg_budget_margin = bgp_budget_margin p, bg_migration = migration, bg_traffic = traffic,
         bg_fleet = fleet, bg_budget = budget, bg_policy = bgp_policy p, bg_readiness = None\<rparr>\<rparr>"

definition bg_database_readiness :: "'w database_readiness \<Rightarrow> 'w blue_green_deploy \<Rightarrow> 'w blue_green_deploy" where
  "bg_database_readiness probe d = d\<lparr>bgd_shared := (bgd_shared d)\<lparr>bg_readiness := Some probe\<rparr>\<rparr>"

section \<open>The steps\<close>

definition bg_failed :: "string \<Rightarrow> string \<Rightarrow> saga_error" where
  "bg_failed step message = StepFailed step message"

definition bg_run_preflight :: "process_env \<Rightarrow> 'w bg_shared \<Rightarrow> ('w bg_state, saga_error, unit) eff" where
  "bg_run_preflight env sh =
     and_then
       (case bg_readiness sh of
          Some probe \<Rightarrow> on_world (readiness_check env probe (bg_ctx sh))
        | None \<Rightarrow> ok ()) (\<lambda>_.
     and_then
       (map_err (\<lambda>e. bg_failed ''preflight''
            (''cannot certify the migration for the hold window: '' @ show_adapter_error e))
          (on_world (inspect (bg_migration sh) (bg_ctx sh)))) (\<lambda>insp.
     and_then
       (map_err (bg_failed ''preflight'')
          (on_world (admit (bg_policy sh) WindowSafety (insp_capabilities insp) (insp_report insp) (bg_ctx sh)))) (\<lambda>_.
     case bg_budget sh of
       None \<Rightarrow> ok ()
     | Some budget \<Rightarrow>
         and_then (map_err (\<lambda>e. bg_failed ''preflight'' (''connection-budget probe: '' @ e)) (on_world (budget (bg_ctx sh))))
           (\<lambda>snapshot. case budget_evaluate snapshot (bg_green_pool sh) (bg_budget_margin sh) of
              BudgetRefuse reason \<Rightarrow> fail (bg_failed ''preflight'' reason)
            | _ \<Rightarrow> ok ()))))"

definition run_provision_green :: "'w bg_shared \<Rightarrow> ('w bg_state, saga_error, unit) eff" where
  "run_provision_green sh =
     and_then (map_err (bg_failed ''provision-green'') (on_world (provision_green (bg_fleet sh) (bg_ctx sh))))
       (\<lambda>_. modify_run (\<lambda>rt. rt\<lparr>green_provisioned := True\<rparr>))"

definition bg_run_migrate :: "'w bg_shared \<Rightarrow> ('w bg_state, saga_error, unit) eff" where
  "bg_run_migrate sh =
     map_err (\<lambda>e. bg_failed ''migrate'' (show_adapter_error e))
       (map_ok (\<lambda>_. ()) (on_world (up (bg_migration sh) (bg_ctx sh) None)))"

definition run_health_gate :: "'w bg_shared \<Rightarrow> ('w bg_state, saga_error, unit) eff" where
  "run_health_gate sh = (\<lambda>(rt, w).
     case green_healthy (bg_fleet sh) (bg_ctx sh) w of
       (b, w') \<Rightarrow>
         if b then (Inr (), rt, w')
         else (Inl (bg_failed ''health-gate-green'' ''green failed its pre-swap health gate; traffic was not moved''), rt, w'))"

definition run_swap :: "'w bg_shared \<Rightarrow> ('w bg_state, saga_error, unit) eff" where
  "run_swap sh =
     and_then (map_err (\<lambda>e. bg_failed ''swap-traffic'' (show_adapter_error e))
         (on_world (current_target (bg_traffic sh) (bg_ctx sh))))
       (\<lambda>prior. and_then (modify_run (\<lambda>rt. rt\<lparr>prior_target := Some prior\<rparr>))
         (\<lambda>_. map_err (\<lambda>e. bg_failed ''swap-traffic'' (show_adapter_error e))
           (map_ok (\<lambda>_. ()) (on_world (switch_to (bg_traffic sh) (bg_ctx sh) (bg_green sh))))))"

definition undo_swap :: "'w bg_shared \<Rightarrow> ('w bg_state, saga_error, unit) eff" where
  "undo_swap sh =
     and_then get_run (\<lambda>rt.
       case prior_target rt of
         None \<Rightarrow> ok ()
       | Some prior \<Rightarrow>
           map_err (\<lambda>e. bg_failed ''swap-traffic'' (show_adapter_error e))
             (map_ok (\<lambda>_. ()) (on_world (switch_to (bg_traffic sh) (bg_ctx sh) prior))))"

definition run_hold :: "'w bg_shared \<Rightarrow> ('w bg_state, saga_error, unit) eff" where
  "run_hold sh = map_err (bg_failed ''hold'') (on_world (watch_green (bg_fleet sh) (bg_ctx sh) (bg_hold sh)))"

definition run_reap :: "'w bg_shared \<Rightarrow> ('w bg_state, saga_error, unit) eff" where
  "run_reap sh = map_err (bg_failed ''reap'') (on_world (reap_blue (bg_fleet sh) (bg_ctx sh)))"

definition undo_provision_green :: "'w bg_shared \<Rightarrow> ('w bg_state, saga_error, unit) eff" where
  "undo_provision_green sh =
     and_then get_run (\<lambda>rt.
       if green_provisioned rt
       then map_err (bg_failed ''provision-green'') (on_world (reap_green (bg_fleet sh) (bg_ctx sh)))
       else ok ())"

section \<open>The saga\<close>

datatype bg_phase = BgPreflight | ProvisionGreen | BgMigrate | HealthGateGreen | SwapTraffic | Hold | Reap

fun bg_phase_name :: "bg_phase \<Rightarrow> string" where
  "bg_phase_name BgPreflight = ''preflight''"
| "bg_phase_name ProvisionGreen = ''provision-green''"
| "bg_phase_name BgMigrate = ''migrate''"
| "bg_phase_name HealthGateGreen = ''health-gate-green''"
| "bg_phase_name SwapTraffic = ''swap-traffic''"
| "bg_phase_name Hold = ''hold''"
| "bg_phase_name Reap = ''reap''"

fun bg_forward :: "process_env \<Rightarrow> 'w bg_shared \<Rightarrow> bg_phase \<Rightarrow> ('w bg_state, saga_error, unit) eff" where
  "bg_forward env sh BgPreflight = bg_run_preflight env sh"
| "bg_forward env sh ProvisionGreen = run_provision_green sh"
| "bg_forward env sh BgMigrate = bg_run_migrate sh"
| "bg_forward env sh HealthGateGreen = run_health_gate sh"
| "bg_forward env sh SwapTraffic = run_swap sh"
| "bg_forward env sh Hold = run_hold sh"
| "bg_forward env sh Reap = run_reap sh"

fun bg_compensate :: "'w bg_shared \<Rightarrow> bg_phase \<Rightarrow> ('w bg_state, saga_error, unit) eff" where
  "bg_compensate sh SwapTraffic = undo_swap sh"
| "bg_compensate sh ProvisionGreen = undo_provision_green sh"
| "bg_compensate sh BgPreflight = ok ()"
| "bg_compensate sh BgMigrate = ok ()"
| "bg_compensate sh HealthGateGreen = ok ()"
| "bg_compensate sh Hold = ok ()"
| "bg_compensate sh Reap = ok ()"

definition bg_step :: "process_env \<Rightarrow> 'w bg_shared \<Rightarrow> bg_phase \<Rightarrow> 'w bg_state saga_step" where
  "bg_step env sh phase =
     \<lparr>step_name = bg_phase_name phase, forward = (\<lambda>_. bg_forward env sh phase), compensate = (\<lambda>_. bg_compensate sh phase)\<rparr>"

definition bg_saga ::
  "process_env \<Rightarrow> ('s, 'j) state_store \<Rightarrow> 'w blue_green_deploy \<Rightarrow> ('s, 'j, 'w bg_state) saga" where
  "bg_saga env store d =
     fold (\<lambda>phase. with_step (bg_step env (bgd_shared d) phase))
       [BgPreflight, ProvisionGreen, BgMigrate, HealthGateGreen, SwapTraffic, Hold, Reap]
       (saga_new store (bgd_fraise d) (bgd_environment d))"

definition bg_run ::
  "'s platform \<Rightarrow> process_env \<Rightarrow> ('s, 'j) state_store \<Rightarrow> 'w blue_green_deploy \<Rightarrow> ('s \<times> 'w, saga_error, saga_outcome) eff" where
  "bg_run pf env store d = (\<lambda>(s, w).
     case run_with_state pf (bg_saga env store d) (s, bg_runtime_default, w) of (r, s', rt, w') \<Rightarrow> (r, s', w'))"

section \<open>Runs\<close>

abbreviation bg_key :: "'w blue_green_deploy \<Rightarrow> fraise_key" where
  "bg_key d \<equiv> key_new (bgd_fraise d) (bgd_environment d)"

definition bg_steps :: "process_env \<Rightarrow> 'w bg_shared \<Rightarrow> 'w bg_state saga_step list" where
  "bg_steps env sh = map (bg_step env sh) [BgPreflight, ProvisionGreen, BgMigrate, HealthGateGreen, SwapTraffic, Hold, Reap]"

lemma bg_saga_simps [simp]:
  "sg_store (bg_saga env store d) = store" "sg_key (bg_saga env store d) = bg_key d"
  "sg_steps (bg_saga env store d) = bg_steps env (bgd_shared d)"
  by (simp_all add: bg_saga_def saga_new_def with_step_def bg_steps_def)

context reliable_store
begin

lemma bg_run_spec:
  assumes "valid s" and "\<not> sv_locked (view s) (slot (bg_key d))"
  obtains out s' w' ts rt where "bg_run pf env st d (s, w) = (Inr out, s', w')"
    "saga_spec pf \<lparr>sc_key = bg_key d\<rparr> [] (bg_steps env (bgd_shared d)) (bg_runtime_default, w) = (out, ts, rt, w')"
proof -
  obtain out s' x' where run: "run_with_state pf (bg_saga env st d) (s, bg_runtime_default, w) = (Inr out, s', x')"
    by (rule run_total [where sg = "bg_saga env st d" and s = s]) (use assms in simp_all)
  obtain rt w' where x': "x' = (rt, w')" by fastforce
  from run_ok [OF _ assms(1) run] x' obtain ts where
    "saga_spec pf \<lparr>sc_key = bg_key d\<rparr> [] (bg_steps env (bgd_shared d)) (bg_runtime_default, w) = (out, ts, rt, w')" by auto
  with run x' that show ?thesis by (simp add: bg_run_def)
qed

end

section \<open>Nothing happens without a certificate\<close>

text \<open>
  The certificate of a run that starts at \<open>w\<close>: what the inspection of the preflight itself returns,
  made right after the readiness check (if there is one) succeeded from \<open>w\<close>.
\<close>

definition window_certified :: "process_env \<Rightarrow> 'w bg_shared \<Rightarrow> 'w \<Rightarrow> bool" where
  "window_certified env sh w \<longleftrightarrow>
     (case (case bg_readiness sh of None \<Rightarrow> ok () w | Some probe \<Rightarrow> readiness_check env probe (bg_ctx sh) w) of
        (Inl e, _) \<Rightarrow> False
      | (Inr _, w0) \<Rightarrow>
          (case inspect (bg_migration sh) (bg_ctx sh) w0 of
             (Inl e, _) \<Rightarrow> False
           | (Inr insp, _) \<Rightarrow>
               cap_window_safe (insp_capabilities insp) \<and>
               (case insp_report insp of None \<Rightarrow> False | Some r \<Rightarrow> window_safe r = Some True)))"

lemma admitted_window_safe:
  assumes "admit gate WindowSafety caps report c w = (Inr (), w')"
  shows "cap_window_safe caps \<and> (case report of None \<Rightarrow> False | Some r \<Rightarrow> window_safe r = Some True)"
proof -
  from assms have "baseline_verdict WindowSafety caps report = None"
    by (auto simp: admit_char allow_char approval_char)
  then show ?thesis by (auto simp: baseline_verdict_def split: if_splits option.splits bool.splits)
qed

lemma bg_preflight_certified:
  assumes "bg_run_preflight env sh (rt, w) = (Inr (), x')"
  shows "window_certified env sh w"
proof -
  from assms obtain w0 insp w1 w2 where
    "(case bg_readiness sh of None \<Rightarrow> ok () w | Some probe \<Rightarrow> readiness_check env probe (bg_ctx sh) w) = (Inr (), w0)"
    "inspect (bg_migration sh) (bg_ctx sh) w0 = (Inr insp, w1)"
    "admit (bg_policy sh) WindowSafety (insp_capabilities insp) (insp_report insp) (bg_ctx sh) w1 = (Inr (), w2)"
    by (cases "bg_readiness sh") (auto simp: bg_run_preflight_def and_then_eq_Inr)
  then show ?thesis by (auto simp: window_certified_def dest: admitted_window_safe)
qed

text \<open>
  C31: The window gate stands before everything. Either this run's own preflight, right after the
  database answered it where a readiness probe is set, inspected the migration adapter, which
  advertises \<open>window_safe\<close> and certified the pending migrations for the two-version window, or the run
  rolled back at the preflight with the world exactly as the preflight's own checks left it: no fleet
  was provisioned, no migration ran and no traffic moved, whatever policy and approvals say.
\<close>

theorem no_fleet_without_certificate:
  assumes "memory_valid h s" and "slug h (bg_key d) \<notin> mi_locks s"
  shows "window_certified env (bgd_shared d) w \<or>
    (\<exists>m s'. bg_run pf env (memory_store h) d (s, w) =
      (Inr (OutcomeRolledBack ''preflight'' m), s',
       snd (snd (bg_run_preflight env (bgd_shared d) (bg_runtime_default, w)))))"
proof -
  obtain out s' w' ts rt where run: "bg_run pf env (memory_store h) d (s, w) = (Inr out, s', w')"
    and spec: "saga_spec pf \<lparr>sc_key = bg_key d\<rparr> [] (bg_steps env (bgd_shared d)) (bg_runtime_default, w) = (out, ts, rt, w')"
    by (rule mem.bg_run_spec [OF assms(1)]) (use assms(2) in simp)
  obtain r x1 where pre: "bg_run_preflight env (bgd_shared d) (bg_runtime_default, w) = (r, x1)" by (rule prod.exhaust)
  show ?thesis
  proof (cases r)
    case (Inl e)
    with spec pre have "out = OutcomeRolledBack ''preflight'' (show_saga_error e)" "w' = snd x1"
      by (auto simp: bg_steps_def saga_spec_def back_spec_def bg_step_def)
    with run pre show ?thesis by auto
  next
    case (Inr u)
    with pre have "window_certified env (bgd_shared d) w" by (cases u) (auto intro: bg_preflight_certified)
    then show ?thesis ..
  qed
qed

text \<open>A world of two fleets, and a deploy in it: \<open>hp\<close> is green's health, \<open>reap\<close> what reaping blue does.\<close>

record bg_world =
  bw_traffic :: traffic_target
  bw_blue_up :: bool
  bw_green_up :: bool

definition demo_bg :: "bool option \<Rightarrow> bool \<Rightarrow> (bg_world \<Rightarrow> (string + unit) \<times> bg_world) \<Rightarrow> bg_world blue_green_deploy" where
  "demo_bg cert hp reap =
     blue_green_new
       \<lparr>bgp_fraise = ''app'', bgp_environment = ''prod'', bgp_ctx = ctx_new ''app'' ''prod'', bgp_green = ''green'',
        bgp_hold = 60, bgp_green_pool = 10, bgp_budget_margin = 5, bgp_policy = gate_default\<rparr>
       ((no_database ''1'')\<lparr>describe := ok \<lparr>ad_name = ''m'', ad_version = ''1'', ad_protocol_version = 1,
           ad_capabilities = [''preflight'', ''window_safe'']\<rparr>,
         preflight := (\<lambda>_. ok ((preflight_report_new True)\<lparr>window_safe := cert\<rparr>))\<rparr>)
       \<lparr>td_describe = ok \<lparr>ad_name = ''t'', ad_version = ''1'', ad_protocol_version = 1, ad_capabilities = [''traffic_swap'']\<rparr>,
        current_target = (\<lambda>_ w. (Inr (bw_traffic w), w)),
        switch_to = (\<lambda>_ t w. (Inr \<lparr>swapped_to = t\<rparr>, w\<lparr>bw_traffic := t\<rparr>))\<rparr>
       \<lparr>provision_green = (\<lambda>_ w. (Inr (), w\<lparr>bw_green_up := True\<rparr>)),
        green_healthy = (\<lambda>_ w. (hp, w)),
        watch_green = (\<lambda>_ _. ok ()),
        reap_green = (\<lambda>_ w. (Inr (), w\<lparr>bw_green_up := False\<rparr>)),
        reap_blue = (\<lambda>_. reap)\<rparr>
       None"

definition demo_bg_world :: bg_world where
  "demo_bg_world = \<lparr>bw_traffic = ''blue'', bw_blue_up = True, bw_green_up = False\<rparr>"

definition demo_bg_pf :: "unit memory_inner platform" where
  "demo_bg_pf = \<lparr>now = (\<lambda>_. 0), uni_alnum = (\<lambda>_. False)\<rparr>"

lemma demo_bg_preflight:
  "bg_run_preflight env (bgd_shared (demo_bg cert hp reap)) x =
     (if cert = Some True then (Inr (), x) else (Inl (bg_failed ''preflight''
        (refuse (the (baseline_verdict WindowSafety \<lparr>cap_preflight = True, cap_risk_tier = False, cap_window_safe = True\<rparr>
          (Some ((preflight_report_new True)\<lparr>window_safe := cert\<rparr>)))))), x))"
  by (cases x) (auto simp: bg_run_preflight_def demo_bg_def blue_green_new_def inspect_def inspect_described_def
      from_advertised_def capabilities_new_def cap_with_window_safe_def admit_def evaluate_def baseline_verdict_def
      gate_default_def and_then_def map_err_def map_ok_def on_world_def Let_def split: option.splits bool.splits)

lemma demo_bg_key [simp]: "bgd_fraise (demo_bg cert hp reap) = ''app''" "bgd_environment (demo_bg cert hp reap) = ''prod''"
  by (simp_all add: demo_bg_def blue_green_new_def)

lemma demo_bg_inspect:
  "inspect (bg_migration (bgd_shared (demo_bg cert hp reap))) c w =
     (Inr \<lparr>insp_adapter = Some \<lparr>ad_name = ''m'', ad_version = ''1'', ad_protocol_version = 1, ad_capabilities = [''preflight'', ''window_safe'']\<rparr>,
        insp_capabilities = \<lparr>cap_preflight = True, cap_risk_tier = False, cap_window_safe = True\<rparr>,
        insp_report = Some ((preflight_report_new True)\<lparr>window_safe := cert\<rparr>)\<rparr>, w)"
  by (simp add: demo_bg_def blue_green_new_def inspect_def inspect_described_def and_then_def map_ok_def Let_def
      from_advertised_def capabilities_new_def cap_with_window_safe_def)

lemma demo_bg_readiness: "bg_readiness (bgd_shared (demo_bg cert hp reap)) = None"
  by (simp add: demo_bg_def blue_green_new_def)

lemma demo_bg_uncertified [simp]: "window_certified env (bgd_shared (demo_bg cert hp reap)) w \<longleftrightarrow> cert = Some True"
  by (simp add: window_certified_def demo_bg_inspect demo_bg_readiness)

theorem no_fleet_without_certificate_witness:
  "\<exists>m s'. bg_run demo_bg_pf Inl (memory_store (\<lambda>_. 0)) (demo_bg (Some False) True (ok ())) (memory_new, demo_bg_world) =
      (Inr (OutcomeRolledBack ''preflight'' m), s', demo_bg_world)"
  using no_fleet_without_certificate [where h = "\<lambda>_. 0" and s = memory_new and d = "demo_bg (Some False) True (ok ())"
      and pf = demo_bg_pf and env = Inl and w = demo_bg_world]
  by (simp add: demo_bg_preflight)

section \<open>Traffic\<close>

text \<open>
  \<open>tr\<close> observes where the live traffic goes. Lawful parts: the director reports and sets it, a failed
  switch changes nothing, switching to \<open>blue\<close> works; nothing else moves traffic, and green can be
  decommissioned.
\<close>

definition others_keep_traffic :: "('w \<Rightarrow> traffic_target) \<Rightarrow> 'w bg_shared \<Rightarrow> bool" where
  "others_keep_traffic tr sh \<longleftrightarrow>
     keeps tr (describe (bg_migration sh)) \<and> (\<forall>c. keeps tr (preflight (bg_migration sh) c)) \<and>
     (\<forall>c t. keeps tr (up (bg_migration sh) c t)) \<and>
     (\<forall>c. keeps tr (provision_green (bg_fleet sh) c)) \<and> (\<forall>c w. tr (snd (green_healthy (bg_fleet sh) c w)) = tr w) \<and>
     (\<forall>c. keeps tr (reap_green (bg_fleet sh) c)) \<and>
     (\<forall>hook req w. gate_hook (bg_policy sh) = Some hook \<longrightarrow> tr (snd (hook req w)) = tr w) \<and>
     (\<forall>probe dsn. bg_readiness sh = Some probe \<longrightarrow> keeps tr (probe dsn)) \<and>
     (\<forall>budget c. bg_budget sh = Some budget \<longrightarrow> keeps tr (budget c))"

definition lawful_traffic :: "('w \<Rightarrow> traffic_target) \<Rightarrow> 'w bg_shared \<Rightarrow> traffic_target \<Rightarrow> bool" where
  "lawful_traffic tr sh blue \<longleftrightarrow>
     (\<forall>c w. current_target (bg_traffic sh) c w = (Inr (tr w), snd (current_target (bg_traffic sh) c w)) \<or>
        (\<exists>e. fst (current_target (bg_traffic sh) c w) = Inl e)) \<and>
     (\<forall>c. keeps tr (current_target (bg_traffic sh) c)) \<and>
     (\<forall>c t w tok w'. switch_to (bg_traffic sh) c t w = (Inr tok, w') \<longrightarrow> tr w' = t) \<and>
     (\<forall>c t w e w'. switch_to (bg_traffic sh) c t w = (Inl e, w') \<longrightarrow> tr w' = tr w) \<and>
     (\<forall>c w. is_ok (fst (switch_to (bg_traffic sh) c blue w))) \<and>
     (\<forall>c w. is_ok (fst (reap_green (bg_fleet sh) c w))) \<and>
     (\<forall>c h. keeps tr (watch_green (bg_fleet sh) c h)) \<and> (\<forall>c. keeps tr (reap_blue (bg_fleet sh) c))"

lemma bg_preflight_keeps:
  assumes "others_keep_traffic tr sh"
  shows "keeps (tr \<circ> snd) (bg_run_preflight env sh)"
proof -
  from assms have k: "keeps tr (describe (bg_migration sh))" "\<And>c. keeps tr (preflight (bg_migration sh) c)"
    "\<And>probe dsn. bg_readiness sh = Some probe \<Longrightarrow> keeps tr (probe dsn)"
    "\<And>budget c. bg_budget sh = Some budget \<Longrightarrow> keeps tr (budget c)"
    and hook: "\<And>hook req w. gate_hook (bg_policy sh) = Some hook \<Longrightarrow> tr (snd (hook req w)) = tr w"
    by (simp_all add: others_keep_traffic_def)
  have insp: "keeps tr (inspect (bg_migration sh) c)" for c by (rule keeps_inspect; rule k)
  have ready: "keeps tr (readiness_check env probe c)" if "bg_readiness sh = Some probe" for probe c
    by (rule keeps_readiness_check) (rule k(3) [OF that])
  show ?thesis
    unfolding bg_run_preflight_def
    by (intro keeps_intros insp ready k keeps_admit hook) (auto split: budget_verdict.split intro: keeps_intros)
qed

lemma bg_preflight_keeps_run: "keeps (f \<circ> fst) (bg_run_preflight env sh)"
  unfolding bg_run_preflight_def
  by (intro keeps_intros) (auto split: budget_verdict.split intro: keeps_intros)

lemma keeps_health_gate:
  assumes "others_keep_traffic tr sh"
  shows "keeps (tr \<circ> snd) (run_health_gate sh)" "keeps (f \<circ> fst) (run_health_gate sh)"
proof -
  have "\<And>c w. tr (snd (green_healthy (bg_fleet sh) c w)) = tr w" using assms by (simp add: others_keep_traffic_def)
  then show "keeps (tr \<circ> snd) (run_health_gate sh)"
    by (auto simp: keeps_def run_health_gate_def split: prod.splits) (metis snd_conv)+
  show "keeps (f \<circ> fst) (run_health_gate sh)"
    by (auto simp: keeps_def run_health_gate_def split: prod.splits)
qed

lemma keeps_provision:
  assumes "others_keep_traffic tr sh"
  shows "keeps (tr \<circ> snd) (run_provision_green sh)" "keeps (prior_target \<circ> fst) (run_provision_green sh)"
    "keeps (tr \<circ> snd) (undo_provision_green sh)" "keeps (prior_target \<circ> fst) (undo_provision_green sh)"
proof -
  have k: "\<And>c. keeps tr (provision_green (bg_fleet sh) c)" "\<And>c. keeps tr (reap_green (bg_fleet sh) c)"
    using assms by (simp_all add: others_keep_traffic_def)
  show "keeps (tr \<circ> snd) (run_provision_green sh)" "keeps (prior_target \<circ> fst) (run_provision_green sh)"
    "keeps (tr \<circ> snd) (undo_provision_green sh)" "keeps (prior_target \<circ> fst) (undo_provision_green sh)"
    unfolding run_provision_green_def undo_provision_green_def by (intro keeps_intros k; simp)+
qed

lemma keeps_bg_migrate:
  assumes "others_keep_traffic tr sh"
  shows "keeps (tr \<circ> snd) (bg_run_migrate sh)" "keeps (f \<circ> fst) (bg_run_migrate sh)"
proof -
  have k: "\<And>c t. keeps tr (up (bg_migration sh) c t)" using assms by (simp add: others_keep_traffic_def)
  show "keeps (tr \<circ> snd) (bg_run_migrate sh)" "keeps (f \<circ> fst) (bg_run_migrate sh)"
    unfolding bg_run_migrate_def by (intro keeps_intros k)+
qed

text \<open>
  An unhealthy green never gets traffic. If green never answers its health probe, no run commits,
  and wherever the run stops and whatever compensation fails, the traffic is where it was. Nothing
  is assumed of the traffic director: the swap is never reached.
\<close>

theorem unhealthy_green_gets_no_traffic:
  assumes "memory_valid h s" and "slug h (bg_key d) \<notin> mi_locks s"
    and "others_keep_traffic tr (bgd_shared d)" and "\<And>c w. \<not> fst (green_healthy (bg_fleet (bgd_shared d)) c w)"
  shows "\<exists>out s' w'. bg_run pf env (memory_store h) d (s, w) = (Inr out, s', w') \<and>
    out \<noteq> OutcomeCommitted \<and> tr w' = tr w"
proof -
  let ?sh = "bgd_shared d" and ?ctx = "\<lparr>sc_key = bg_key d\<rparr>"
  obtain out s' w' ts rt where run: "bg_run pf env (memory_store h) d (s, w) = (Inr out, s', w')"
    and spec: "saga_spec pf ?ctx [] (bg_steps env ?sh) (bg_runtime_default, w) = (out, ts, rt, w')"
    by (rule mem.bg_run_spec [OF assms(1)]) (use assms(2) in simp)
  have steps: "bg_steps env ?sh = map (bg_step env ?sh) [BgPreflight, ProvisionGreen, BgMigrate] @
      bg_step env ?sh HealthGateGreen # map (bg_step env ?sh) [SwapTraffic, Hold, Reap]"
    by (simp add: bg_steps_def)
  have "\<forall>s\<in>set (map (bg_step env ?sh) [BgPreflight, ProvisionGreen, BgMigrate]).
      keeps (tr \<circ> snd) (forward s ?ctx) \<and> keeps (tr \<circ> snd) (compensate s ?ctx)"
    using bg_preflight_keeps [OF assms(3)] keeps_provision(1,3) [OF assms(3)] keeps_bg_migrate(1) [OF assms(3)]
    by (simp add: bg_step_def keeps_ok)
  moreover have "keeps (tr \<circ> snd) (forward (bg_step env ?sh HealthGateGreen) ?ctx)"
    using keeps_health_gate(1) [OF assms(3)] by (simp add: bg_step_def)
  moreover have "\<not> is_ok (fst (forward (bg_step env ?sh HealthGateGreen) ?ctx x))" for x
    using assms(4) by (cases x) (auto simp: bg_step_def run_health_gate_def split: prod.splits, metis fst_conv)
  ultimately have "(tr \<circ> snd) (rt, w') = (tr \<circ> snd) (bg_runtime_default, w) \<and> out \<noteq> OutcomeCommitted"
    using saga_spec_keeps [OF spec [unfolded steps]] by blast
  with run show ?thesis by simp
qed

theorem unhealthy_green_gets_no_traffic_witness:
  "\<exists>out s' w'. bg_run demo_bg_pf Inl (memory_store (\<lambda>_. 0)) (demo_bg (Some True) False (ok ())) (memory_new, demo_bg_world) =
      (Inr out, s', w') \<and> out \<noteq> OutcomeCommitted \<and> bw_traffic w' = ''blue''"
proof -
  have "\<exists>out s' w'. bg_run demo_bg_pf Inl (memory_store (\<lambda>_. 0)) (demo_bg (Some True) False (ok ())) (memory_new, demo_bg_world) =
      (Inr out, s', w') \<and> out \<noteq> OutcomeCommitted \<and> bw_traffic w' = bw_traffic demo_bg_world"
    by (rule unhealthy_green_gets_no_traffic)
      (auto simp: others_keep_traffic_def demo_bg_def blue_green_new_def keeps_def no_database_def gate_default_def)
  then show ?thesis by (simp add: demo_bg_world_def)
qed

section \<open>A rollback gives the traffic back\<close>

text \<open>The states before each step: until the swap no target is captured and \<open>blue\<close> is live, after it \<open>green\<close> is.\<close>

definition bg_before :: "('w \<Rightarrow> traffic_target) \<Rightarrow> traffic_target \<Rightarrow> traffic_target \<Rightarrow> nat \<Rightarrow> 'w bg_state \<Rightarrow> bool" where
  "bg_before tr blue green i x \<longleftrightarrow>
     (if i \<le> 4 then prior_target (fst x) = None \<and> tr (snd x) = blue else tr (snd x) = green)"

lemma swap_undoable:
  assumes "lawful_traffic tr sh blue"
  shows "undoable (bg_before tr blue (bg_green sh) 4) (bg_before tr blue (bg_green sh) 5)
    (agreeing (tr \<circ> snd) (prior_target \<circ> fst)) ctx (bg_step env sh SwapTraffic)"
proof (rule undoableI)
  have cur: "keeps tr (current_target (bg_traffic sh) c)" "current_target (bg_traffic sh) c w = (Inr t, w') \<Longrightarrow> t = tr w"
    and sw: "switch_to (bg_traffic sh) c t w = (Inr tok, w') \<Longrightarrow> tr w' = t" "switch_to (bg_traffic sh) c t w = (Inl e, w') \<Longrightarrow> tr w' = tr w"
    and bk: "is_ok (fst (switch_to (bg_traffic sh) c blue w))" for c w t w' tok e
    using assms unfolding lawful_traffic_def by (metis sum.inject(2) sum.simps(4) fst_conv prod.inject)+
  note defs = bg_step_def run_swap_def undo_swap_def and_then_eq_Inr and_then_eq_Inl map_err_eq_Inl map_ok_eq_Inr modify_run_def get_run_def
  fix x x' assume P: "bg_before tr blue (bg_green sh) 4 x" and fwd: "forward (bg_step env sh SwapTraffic) ctx x = (Inr (), x')"
  from P fwd have cap: "prior_target (fst x') = Some blue" and tr': "tr (snd x') = bg_green sh"
    by (cases x; cases x'; auto simp: defs bg_before_def dest: cur(2) sw(1))+
  show "bg_before tr blue (bg_green sh) 5 x'" using tr' by (simp add: bg_before_def)
  fix y assume "agreeing (tr \<circ> snd) (prior_target \<circ> fst) x' y"
  with cap have py: "prior_target (fst y) = Some blue" by (simp add: agreeing_def)
  obtain tok w2 where s: "switch_to (bg_traffic sh) (bg_ctx sh) blue (snd y) = (Inr tok, w2)"
    using bk [of "bg_ctx sh" "snd y"] by (cases "switch_to (bg_traffic sh) (bg_ctx sh) blue (snd y)") (auto simp: is_ok_iff)
  have "compensate (bg_step env sh SwapTraffic) ctx y = (Inr (), fst y, w2)"
    using py s by (cases y) (simp add: bg_step_def undo_swap_def get_run_def and_then_def map_err_def map_ok_def on_world_def)
  with sw(1) [OF s] P show "\<exists>y'. compensate (bg_step env sh SwapTraffic) ctx y = (Inr (), y') \<and>
      agreeing (tr \<circ> snd) (prior_target \<circ> fst) x y'"
    by (simp add: agreeing_def bg_before_def)
next
  have keep: "keeps tr (current_target (bg_traffic sh) c)" "switch_to (bg_traffic sh) c t w = (Inl e, w') \<Longrightarrow> tr w' = tr w" for c t w e w'
    using assms unfolding lawful_traffic_def by metis+
  fix x e x' assume P: "bg_before tr blue (bg_green sh) 4 x" and fwd: "forward (bg_step env sh SwapTraffic) ctx x = (Inl e, x')"
  then show "agreeing (tr \<circ> snd) (prior_target \<circ> fst) x x'"
    by (cases x; cases x') (auto simp: bg_step_def run_swap_def and_then_eq_Inr and_then_eq_Inl map_err_eq_Inl modify_run_def
        agreeing_def bg_before_def dest: keepsD [OF keep(1)], metis keep keepsD)
qed

lemma bg_steps_undoable:
  assumes "others_keep_traffic tr sh" and "lawful_traffic tr sh blue"
  shows "undoable_steps (bg_before tr blue (bg_green sh)) (agreeing (tr \<circ> snd) (prior_target \<circ> fst)) ctx 0 (bg_steps env sh)"
proof -
  let ?I = "bg_before tr blue (bg_green sh)" and ?ag = "agreeing (tr \<circ> snd) (prior_target \<circ> fst)"
  have watch: "\<And>c h. keeps tr (watch_green (bg_fleet sh) c h)" "\<And>c. keeps tr (reap_blue (bg_fleet sh) c)"
    and reaped: "is_ok (fst (reap_green (bg_fleet sh) c w))" for c w
    using assms(2) by (simp_all add: lawful_traffic_def)
  have hold: "keeps (tr \<circ> snd) (run_hold sh)" "keeps (prior_target \<circ> fst) (run_hold sh)"
    "keeps (tr \<circ> snd) (run_reap sh)" "keeps (prior_target \<circ> fst) (run_reap sh)"
    unfolding run_hold_def run_reap_def by (intro keeps_intros watch)+
  have undone: "is_ok (fst (undo_provision_green sh y))" for y
    using reaped [of "bg_ctx sh" "snd y"] by (cases y)
      (auto simp: undo_provision_green_def get_run_def and_then_def map_err_def on_world_def is_ok_iff split: prod.splits sum.splits)
  note inert = undoable_inert [where live = "tr \<circ> snd" and cap = "prior_target \<circ> fst"]
  have "undoable (?I 0) (?I 1) ?ag ctx (bg_step env sh BgPreflight)"
    by (rule inert) (simp_all add: bg_step_def bg_before_def keeps_ok bg_preflight_keeps [OF assms(1)] bg_preflight_keeps_run)
  moreover have "undoable (?I 1) (?I 2) ?ag ctx (bg_step env sh ProvisionGreen)"
    by (rule inert) (simp_all add: bg_step_def bg_before_def keeps_provision [OF assms(1)] undone)
  moreover have "undoable (?I 2) (?I 3) ?ag ctx (bg_step env sh BgMigrate)"
    by (rule inert) (simp_all add: bg_step_def bg_before_def keeps_ok keeps_bg_migrate [OF assms(1)])
  moreover have "undoable (?I 3) (?I 4) ?ag ctx (bg_step env sh HealthGateGreen)"
    by (rule inert) (simp_all add: bg_step_def bg_before_def keeps_ok keeps_health_gate [OF assms(1)])
  moreover have "undoable (?I 5) (?I 6) ?ag ctx (bg_step env sh Hold)"
    by (rule inert) (simp_all add: bg_step_def bg_before_def keeps_ok hold)
  moreover have "undoable (?I 6) (?I 7) ?ag ctx (bg_step env sh Reap)"
    by (rule inert) (simp_all add: bg_step_def bg_before_def keeps_ok hold)
  moreover note swap_undoable [OF assms(2), of ctx env]
  moreover have idx: "Suc 0 = 1" "Suc 1 = 2" "Suc 2 = 3" "Suc 3 = 4" "Suc 4 = 5" "Suc 5 = 6" "Suc 6 = 7" by simp_all
  ultimately show ?thesis
    unfolding bg_steps_def list.map undoable_steps.simps idx by (intro conjI TrueI)
qed

text \<open>
  C4: traffic is all or nothing. With a director that reports and sets the live target and can always
  go back to the target that was live, fleet, migration and probes that move no traffic, and a green fleet that
  can always be reaped, a run on a free lock always returns: it commits with all
  traffic on green, or rolls back completely with the traffic exactly where it was.
\<close>

theorem traffic_all_or_nothing:
  assumes "memory_valid h s" and "slug h (bg_key d) \<notin> mi_locks s"
    and "others_keep_traffic tr (bgd_shared d)" and "lawful_traffic tr (bgd_shared d) (tr w)"
  shows "\<exists>out s' w'. bg_run pf env (memory_store h) d (s, w) = (Inr out, s', w') \<and>
    ((out = OutcomeCommitted \<and> tr w' = bg_green (bgd_shared d)) \<or> ((\<exists>n m. out = OutcomeRolledBack n m) \<and> tr w' = tr w))"
proof -
  let ?sh = "bgd_shared d" and ?ctx = "\<lparr>sc_key = bg_key d\<rparr>"
  obtain out s' w' ts rt where run: "bg_run pf env (memory_store h) d (s, w) = (Inr out, s', w')"
    and spec: "saga_spec pf ?ctx [] (bg_steps env ?sh) (bg_runtime_default, w) = (out, ts, rt, w')"
    by (rule mem.bg_run_spec [OF assms(1)]) (use assms(2) in simp)
  note und = bg_steps_undoable [OF assms(3,4), of ?ctx env]
  have start: "bg_before tr (tr w) (bg_green ?sh) 0 (bg_runtime_default, w)"
    by (simp add: bg_before_def bg_runtime_default_def)
  have "tr w' = bg_green ?sh" if "out = OutcomeCommitted"
    using run_forward_inv [OF saga_spec_committed [OF spec [unfolded that]] und start]
    by (simp add: bg_steps_def bg_before_def)
  moreover have "out = OutcomeCommitted \<or> ((\<exists>n m. out = OutcomeRolledBack n m) \<and> tr w' = tr w)"
    using saga_spec_undo [OF spec und start] by (auto simp: agreeing_def)
  ultimately show ?thesis using run by blast
qed

theorem traffic_all_or_nothing_witness:
  "\<exists>out s' w'. bg_run demo_bg_pf Inl (memory_store (\<lambda>_. 0)) (demo_bg (Some True) True (ok ())) (memory_new, demo_bg_world) =
      (Inr out, s', w') \<and>
    ((out = OutcomeCommitted \<and> bw_traffic w' = ''green'') \<or> ((\<exists>n m. out = OutcomeRolledBack n m) \<and> bw_traffic w' = ''blue''))"
proof -
  have "bg_green (bgd_shared (demo_bg (Some True) True (ok ()))) = ''green''" "bw_traffic demo_bg_world = ''blue''"
    by (simp_all add: demo_bg_def blue_green_new_def demo_bg_world_def)
  moreover have "\<exists>out s' w'. bg_run demo_bg_pf Inl (memory_store (\<lambda>_. 0)) (demo_bg (Some True) True (ok ())) (memory_new, demo_bg_world) =
      (Inr out, s', w') \<and>
    ((out = OutcomeCommitted \<and> bw_traffic w' = bg_green (bgd_shared (demo_bg (Some True) True (ok ())))) \<or>
     ((\<exists>n m. out = OutcomeRolledBack n m) \<and> bw_traffic w' = bw_traffic demo_bg_world))"
    by (rule traffic_all_or_nothing)
      (auto simp: others_keep_traffic_def lawful_traffic_def demo_bg_def blue_green_new_def keeps_def no_database_def gate_default_def)
  ultimately show ?thesis by simp
qed

section \<open>A failing decommission of blue\<close>

text \<open>Decommissioning blue takes its instances down, then reports an error.\<close>

definition half_reaped :: "bg_world \<Rightarrow> (string + unit) \<times> bg_world" where
  "half_reaped w = (Inl ''timed out deleting the unit'', w\<lparr>bw_blue_up := False\<rparr>)"

lemma demo_bg_runs:
  fixes reap hp defines "sh \<equiv> bgd_shared (demo_bg (Some True) hp reap)"
  shows "run_provision_green sh (rt, w) = (Inr (), rt\<lparr>green_provisioned := True\<rparr>, w\<lparr>bw_green_up := True\<rparr>)"
    "bg_run_migrate sh (rt, w) = (Inr (), rt, w)"
    "run_swap sh (rt, w) = (Inr (), rt\<lparr>prior_target := Some (bw_traffic w)\<rparr>, w\<lparr>bw_traffic := ''green''\<rparr>)"
    "run_hold sh (rt, w) = (Inr (), rt, w)"
    "undo_swap sh (rt\<lparr>prior_target := Some t\<rparr>, w) = (Inr (), rt\<lparr>prior_target := Some t\<rparr>, w\<lparr>bw_traffic := t\<rparr>)"
    "green_provisioned rt \<Longrightarrow> undo_provision_green sh (rt, w) = (Inr (), rt, w\<lparr>bw_green_up := False\<rparr>)"
  by (simp_all add: sh_def demo_bg_def blue_green_new_def run_provision_green_def bg_run_migrate_def run_swap_def run_hold_def
      undo_swap_def undo_provision_green_def and_then_def map_err_def map_ok_def on_world_def modify_run_def get_run_def no_database_def)

lemma demo_bg_gates:
  "run_health_gate (bgd_shared (demo_bg c True reap)) (rt, w) = (Inr (), rt, w)"
  "run_reap (bgd_shared (demo_bg c hp half_reaped)) (rt, w) =
     (Inl (bg_failed ''reap'' ''timed out deleting the unit''), rt, w\<lparr>bw_blue_up := False\<rparr>)"
  by (simp_all add: demo_bg_def blue_green_new_def run_health_gate_def run_reap_def half_reaped_def map_err_def on_world_def)

lemma failed_reap_spec:
  "saga_spec demo_bg_pf ctx [] (bg_steps env (bgd_shared (demo_bg (Some True) True half_reaped))) (bg_runtime_default, demo_bg_world) =
     (out, ts, rt, w') \<Longrightarrow>
   (\<exists>m. out = OutcomeRolledBack ''reap'' m) \<and> w' = \<lparr>bw_traffic = ''blue'', bw_blue_up = False, bw_green_up = False\<rparr>"
  by (auto simp: saga_spec_def bg_steps_def bg_step_def demo_bg_preflight demo_bg_runs demo_bg_gates back_spec_def demo_bg_world_def)

text \<open>
  The reap step has the same compensation path as every other step. A run whose green is healthy
  through the hold, but where decommissioning blue reports an error after having taken blue down,
  rolls back: it moves all traffic to the fleet it has just stopped, decommissions the healthy green
  one and reports a complete rollback. No fleet is left running.
\<close>

theorem failed_reap_takes_both_fleets:
  "\<exists>m s'. bg_run demo_bg_pf Inl (memory_store (\<lambda>_. 0)) (demo_bg (Some True) True half_reaped) (memory_new, demo_bg_world) =
     (Inr (OutcomeRolledBack ''reap'' m), s', \<lparr>bw_traffic = ''blue'', bw_blue_up = False, bw_green_up = False\<rparr>)"
proof -
  obtain out s' w' ts rt where run: "bg_run demo_bg_pf Inl (memory_store (\<lambda>_. 0)) (demo_bg (Some True) True half_reaped)
      (memory_new, demo_bg_world) = (Inr out, s', w')"
    and spec: "saga_spec demo_bg_pf \<lparr>sc_key = key_new ''app'' ''prod''\<rparr> []
      (bg_steps Inl (bgd_shared (demo_bg (Some True) True half_reaped))) (bg_runtime_default, demo_bg_world) = (out, ts, rt, w')"
    by (rule mem.bg_run_spec [where s = memory_new and h = "\<lambda>_. 0" and d = "demo_bg (Some True) True half_reaped"]) simp_all
  from failed_reap_spec [OF spec] run show ?thesis by blast
qed

end
