(* ===== verification/Async.thy ===== *)
theory Async
  imports Prelude
begin

text \<open>
  Concurrent calls. The multi-host flow awaits the calls of several hosts together
  (\<open>futures::future::join_all\<close>): each host's future is a sequence of adapter calls, and the executor
  interleaves the sequences as it likes. A future is a task, one constructor per awaited call; a
  schedule names the task to advance next. When the schedule is used up the remaining tasks run to
  their end in order, so every complete interleaving is the run of some schedule and every schedule
  gives a complete run. An adapter call is one step: interleaving happens between calls.
\<close>

section \<open>Tasks\<close>

datatype ('w, 'a) task = Return 'a | Call "'w \<Rightarrow> ('w, 'a) task \<times> 'w"

text \<open>\<open>let r = m.await; k(r)\<close>.\<close>

definition await :: "('w, 'e, 'a) eff \<Rightarrow> ('e + 'a \<Rightarrow> ('w, 'b) task) \<Rightarrow> ('w, 'b) task" where
  "await m k = Call (\<lambda>w. case m w of (r, w') \<Rightarrow> (k r, w'))"

text \<open>\<open>m.await.map_err(f)?\<close> followed by the rest; \<open>quit\<close> makes the task's result from the error.\<close>

definition await_try :: "('w, 'e, 'a) eff \<Rightarrow> ('e \<Rightarrow> 'b) \<Rightarrow> ('a \<Rightarrow> ('w, 'b) task) \<Rightarrow> ('w, 'b) task" where
  "await_try m quit k = await m (\<lambda>r. case r of Inl e \<Rightarrow> Return (quit e) | Inr a \<Rightarrow> k a)"

primrec finish :: "('w, 'a) task \<Rightarrow> 'w \<Rightarrow> 'a \<times> 'w" where
  "finish (Return a) = Pair a"
| "finish (Call f) = (\<lambda>w. case map_prod finish id (f w) of (g, w') \<Rightarrow> g w')"

definition poll :: "nat \<Rightarrow> ('w, 'a) task list \<Rightarrow> 'w \<Rightarrow> ('w, 'a) task list \<times> 'w" where
  "poll i ts w =
     (if i < length ts then
        (case ts ! i of
           Return a \<Rightarrow> (ts, w)
         | Call f \<Rightarrow> (case f w of (t, w') \<Rightarrow> (ts[i := t], w')))
      else (ts, w))"

fun run_schedule :: "nat list \<Rightarrow> ('w, 'a) task list \<Rightarrow> 'w \<Rightarrow> ('w, 'a) task list \<times> 'w" where
  "run_schedule [] ts w = (ts, w)"
| "run_schedule (i # is) ts w = (case poll i ts w of (ts', w') \<Rightarrow> run_schedule is ts' w')"

fun finish_all :: "('w, 'a) task list \<Rightarrow> 'w \<Rightarrow> 'a list \<times> 'w" where
  "finish_all [] w = ([], w)"
| "finish_all (t # ts) w =
     (case finish t w of (a, w') \<Rightarrow> case finish_all ts w' of (as, w'') \<Rightarrow> (a # as, w''))"

definition join_all :: "nat list \<Rightarrow> ('w, 'a) task list \<Rightarrow> 'w \<Rightarrow> 'a list \<times> 'w" where
  "join_all sched ts w = (case run_schedule sched ts w of (ts', w') \<Rightarrow> finish_all ts' w')"

section \<open>Reasoning about one task among others\<close>

text \<open>
  \<open>tkeeps obs t\<close>: no call of the task changes the observation. \<open>tholds obs Q o t\<close>: if the others keep
  \<open>obs\<close>, then started where \<open>obs\<close> reads \<open>o\<close> the task ends with a result and an observation that
  satisfy \<open>Q\<close>, whatever else changes between its calls.
\<close>

primrec tkeeps :: "('w, 'a) task \<Rightarrow> ('w \<Rightarrow> 'o) \<Rightarrow> bool" where
  "tkeeps (Return a) obs = True"
| "tkeeps (Call f) obs = (\<forall>w. case map_prod (\<lambda>t. tkeeps t obs) id (f w) of (kept, w') \<Rightarrow> kept \<and> obs w' = obs w)"

primrec tholds :: "('w, 'a) task \<Rightarrow> ('w \<Rightarrow> 'o) \<Rightarrow> ('a \<Rightarrow> 'o \<Rightarrow> bool) \<Rightarrow> 'o \<Rightarrow> bool" where
  "tholds (Return a) obs Q o1 = Q a o1"
| "tholds (Call f) obs Q o1 =
     (\<forall>w. obs w = o1 \<longrightarrow> (case map_prod (\<lambda>t. tholds t obs Q) id (f w) of (g, w') \<Rightarrow> g (obs w')))"

named_theorems task_intros \<open>tasks that keep an observation\<close>

lemma tkeeps_Return [task_intros]: "tkeeps (Return a) obs"
  by simp

lemma tkeeps_await [task_intros]:
  "keeps obs m \<Longrightarrow> (\<And>r. tkeeps (k r) obs) \<Longrightarrow> tkeeps (await m k) obs"
  by (auto simp: await_def keeps_def split: prod.splits) (metis snd_conv)

lemma tkeeps_await_try [task_intros]:
  "keeps obs m \<Longrightarrow> (\<And>a. tkeeps (k a) obs) \<Longrightarrow> tkeeps (await_try m quit k) obs"
  unfolding await_try_def by (intro task_intros) (simp_all split: sum.split)

lemma tholds_await:
  assumes "\<And>w r w'. obs w = o1 \<Longrightarrow> m w = (r, w') \<Longrightarrow> tholds (k r) obs Q (obs w')"
  shows "tholds (await m k) obs Q o1"
  using assms by (auto simp: await_def split: prod.splits)

lemma tholds_await_try:
  assumes "\<And>w e w'. obs w = o1 \<Longrightarrow> m w = (Inl e, w') \<Longrightarrow> Q (quit e) (obs w')"
    and "\<And>w a w'. obs w = o1 \<Longrightarrow> m w = (Inr a, w') \<Longrightarrow> tholds (k a) obs Q (obs w')"
  shows "tholds (await_try m quit k) obs Q o1"
  unfolding await_try_def by (rule tholds_await) (simp add: assms split: sum.split)

lemma finish_keeps: "tkeeps t obs \<Longrightarrow> finish t w = (a, w') \<Longrightarrow> obs w' = obs w"
proof (induction t arbitrary: w)
  case (Call f)
  obtain t1 w1 where f: "f w = (t1, w1)" by fastforce
  have "tkeeps t1 obs" "obs w1 = obs w" using Call.prems(1) f by (auto dest: spec [of _ w])
  moreover have "finish t1 w1 = (a, w')" using Call.prems(2) f by simp
  moreover have "t1 \<in> Basic_BNFs.fsts (f w)" using f by (simp add: fsts.intros)
  ultimately show ?case using Call.IH by (metis rangeI)
qed simp

lemma finish_holds: "tholds t obs Q (obs w) \<Longrightarrow> finish t w = (a, w') \<Longrightarrow> Q a (obs w')"
proof (induction t arbitrary: w)
  case (Call f)
  obtain t1 w1 where f: "f w = (t1, w1)" by fastforce
  have "tholds t1 obs Q (obs w1)" using Call.prems(1) f by (auto dest: spec [of _ w])
  moreover have "finish t1 w1 = (a, w')" using Call.prems(2) f by simp
  moreover have "t1 \<in> Basic_BNFs.fsts (f w)" using f by (simp add: fsts.intros)
  ultimately show ?case using Call.IH by (metis rangeI)
qed simp

section \<open>Tasks together\<close>

lemma poll_length [simp]: "length (fst (poll i ts w)) = length ts"
  by (auto simp: poll_def split: task.splits prod.splits)

lemma run_schedule_length: "run_schedule is ts w = (ts', w') \<Longrightarrow> length ts' = length ts"
  by (induction "is" arbitrary: ts w) (auto split: prod.splits, metis fst_conv poll_length)

lemma finish_all_length: "finish_all ts w = (as, w') \<Longrightarrow> length as = length ts"
  by (induction ts arbitrary: w as) (auto split: prod.splits)

lemma join_all_length: "join_all sched ts w = (as, w') \<Longrightarrow> length as = length ts"
  by (auto simp: join_all_def split: prod.splits) (metis run_schedule_length finish_all_length)

lemma poll_task:
  assumes "i < length ts" and "ts ! i = Call f" and "f w = (t, w')"
  shows "poll i ts w = (ts[i := t], w')"
  using assms by (simp add: poll_def)

lemma poll_keeps:
  assumes "\<forall>t\<in>set ts. tkeeps t obs" and "poll i ts w = (ts', w')"
  shows "(\<forall>t\<in>set ts'. tkeeps t obs) \<and> obs w' = obs w"
proof (cases "i < length ts \<and> (\<exists>f. ts ! i = Call f)")
  case True
  then obtain f t1 w1 where i: "i < length ts" "ts ! i = Call f" and f: "f w = (t1, w1)" by fastforce
  with assms(1) have "tkeeps (Call f) obs" by (metis nth_mem)
  with f have "tkeeps t1 obs" "obs w1 = obs w" by (auto dest: spec [of _ w])
  with assms poll_task [OF i f] show ?thesis
    by (auto dest!: set_update_subset_insert [THEN subsetD])
qed (use assms in \<open>auto simp: poll_def split: task.splits if_splits\<close>)

lemma run_schedule_keeps:
  "\<forall>t\<in>set ts. tkeeps t obs \<Longrightarrow> run_schedule is ts w = (ts', w') \<Longrightarrow> (\<forall>t\<in>set ts'. tkeeps t obs) \<and> obs w' = obs w"
proof (induction "is" arbitrary: ts w)
  case (Cons i "is")
  obtain ts1 w1 where p: "poll i ts w = (ts1, w1)" by fastforce
  with Cons poll_keeps [OF Cons.prems(1) p] show ?case by fastforce
qed simp

lemma finish_all_keeps: "\<forall>t\<in>set ts. tkeeps t obs \<Longrightarrow> finish_all ts w = (as, w') \<Longrightarrow> obs w' = obs w"
  by (induction ts arbitrary: w as) (auto split: prod.splits, metis finish_keeps)

lemma join_all_keeps:
  assumes "\<forall>t\<in>set ts. tkeeps t obs" and "join_all sched ts w = (as, w')"
  shows "obs w' = obs w"
proof -
  obtain ts1 w1 where r: "run_schedule sched ts w = (ts1, w1)" by fastforce
  with assms(2) have "finish_all ts1 w1 = (as, w')" by (simp add: join_all_def)
  with run_schedule_keeps [OF assms(1) r] finish_all_keeps [of ts1 obs w1 as w'] show ?thesis by simp
qed

text \<open>
  The rule for disjoint tasks: task \<open>i\<close> is verified against its own observation alone, and no task
  changes what another one observes. Then every schedule gives every task its postcondition.
\<close>

definition disjoint_tasks :: "(nat \<Rightarrow> 'w \<Rightarrow> 'o) \<Rightarrow> (nat \<Rightarrow> 'a \<Rightarrow> 'o \<Rightarrow> bool) \<Rightarrow> ('w, 'a) task list \<Rightarrow> 'w \<Rightarrow> bool" where
  "disjoint_tasks obs Q ts w \<longleftrightarrow>
     (\<forall>i<length ts. tholds (ts ! i) (obs i) (Q i) (obs i w)) \<and>
     (\<forall>i<length ts. \<forall>j<length ts. i \<noteq> j \<longrightarrow> tkeeps (ts ! i) (obs j))"

lemma poll_disjoint:
  assumes "disjoint_tasks obs Q ts w" and "poll i ts w = (ts', w')"
  shows "disjoint_tasks obs Q ts' w'"
proof (cases "i < length ts \<and> (\<exists>f. ts ! i = Call f)")
  case True
  then obtain f t1 w1 where i: "i < length ts" "ts ! i = Call f" and f: "f w = (t1, w1)" by fastforce
  note hd = assms(1) [unfolded disjoint_tasks_def]
  have eq: "ts' = ts[i := t1]" "w' = w1" using poll_task [OF i f] assms(2) by simp_all
  have "tholds (Call f) (obs i) (Q i) (obs i w)" using hd i by metis
  with f have own: "tholds t1 (obs i) (Q i) (obs i w1)" by (auto dest: spec [of _ w])
  have others: "tkeeps t1 (obs j) \<and> obs j w1 = obs j w" if "j < length ts" "j \<noteq> i" for j
  proof -
    have "tkeeps (Call f) (obs j)" using hd i that by metis
    with f show ?thesis by (auto dest: spec [of _ w])
  qed
  show ?thesis
    unfolding disjoint_tasks_def eq using hd own others i(1) by (auto simp: nth_list_update)
qed (use assms in \<open>auto simp: poll_def split: task.splits if_splits\<close>)

lemma run_schedule_disjoint:
  "disjoint_tasks obs Q ts w \<Longrightarrow> run_schedule is ts w = (ts', w') \<Longrightarrow> disjoint_tasks obs Q ts' w'"
  by (induction "is" arbitrary: ts w) (auto split: prod.splits dest: poll_disjoint)

lemma finish_all_disjoint:
  assumes "disjoint_tasks obs Q ts w" and "finish_all ts w = (as, w')" and "i < length ts"
  shows "Q i (as ! i) (obs i w')"
  using assms
proof (induction ts arbitrary: w as i obs Q)
  case (Cons t ts)
  obtain a w1 as1 where t: "finish t w = (a, w1)" and rest: "finish_all ts w1 = (as1, w')" and as: "as = a # as1"
    using Cons.prems(2) by (auto split: prod.splits)
  have hd: "tholds t (obs 0) (Q 0) (obs 0 w)" "\<And>j. j < length ts \<Longrightarrow> tkeeps t (obs (Suc j))"
    "\<And>j. j < length ts \<Longrightarrow> tholds (ts ! j) (obs (Suc j)) (Q (Suc j)) (obs (Suc j) w)"
    "\<And>j. j < length ts \<Longrightarrow> tkeeps (ts ! j) (obs 0)"
    "\<And>j k. j < length ts \<Longrightarrow> k < length ts \<Longrightarrow> j \<noteq> k \<Longrightarrow> tkeeps (ts ! j) (obs (Suc k))"
    using Cons.prems(1) unfolding disjoint_tasks_def
    by (auto dest: spec [of _ 0] spec [of _ "Suc j" for j])
  have tl: "disjoint_tasks (\<lambda>j. obs (Suc j)) (\<lambda>j. Q (Suc j)) ts w1"
  proof -
    have "obs (Suc j) w1 = obs (Suc j) w" if "j < length ts" for j by (rule finish_keeps [OF hd(2) [OF that] t])
    with hd(3,5) show ?thesis by (simp add: disjoint_tasks_def)
  qed
  show ?case
  proof (cases i)
    case 0
    have "obs 0 w' = obs 0 w1" by (rule finish_all_keeps [OF _ rest]) (use hd(4) in \<open>auto simp: in_set_conv_nth\<close>)
    with finish_holds [OF hd(1) t] 0 as show ?thesis by simp
  next
    case (Suc j)
    with Cons.IH [OF tl rest, of j] Cons.prems(3) as show ?thesis by simp
  qed
qed simp

lemma join_all_disjoint:
  assumes "disjoint_tasks obs Q ts w" and "join_all sched ts w = (as, w')" and "i < length ts"
  shows "Q i (as ! i) (obs i w')"
proof -
  obtain ts1 w1 where r: "run_schedule sched ts w = (ts1, w1)" by fastforce
  with assms(2) have "finish_all ts1 w1 = (as, w')" by (simp add: join_all_def)
  with run_schedule_disjoint [OF assms(1) r] finish_all_disjoint [of obs Q ts1 w1 as w' i] assms(3) run_schedule_length [OF r]
  show ?thesis by simp
qed

end
