(* ===== verification/Multi_Host.thy ===== *)
theory Multi_Host
  imports Preflight Async
begin

text \<open>
  The multi-host rollout (\<open>fraisier-core/src/multi_host.rs\<close>): the shared migration runs once, then
  the inventory is advanced batch by batch, the hosts of a batch concurrently. The adapters act on a
  world \<open>'w\<close>; \<open>sched\<close> is the executor's choice of interleaving at each join.
\<close>

section \<open>Plan\<close>

record host_entry =
  ent_host :: host_id
  ent_address :: string
  ent_overrides :: "string \<rightharpoonup> json"

definition host_entry_new :: "host_id \<Rightarrow> string \<Rightarrow> host_entry" where
  "host_entry_new host address = \<lparr>ent_host = host, ent_address = address, ent_overrides = Map.empty\<rparr>"

record host_inventory =
  inv_hosts :: "host_entry list"

definition inventory_new :: host_inventory where
  "inventory_new = \<lparr>inv_hosts = []\<rparr>"

definition with_host :: "host_entry \<Rightarrow> host_inventory \<Rightarrow> host_inventory" where
  "with_host host i = i\<lparr>inv_hosts := inv_hosts i @ [host]\<rparr>"

definition inventory_is_empty :: "host_inventory \<Rightarrow> bool" where
  "inventory_is_empty i = (inv_hosts i = [])"

datatype rollout_strategy = AllAtOnce | Rolling nat

record multi_host_plan =
  plan_inventory :: host_inventory
  plan_strategy :: rollout_strategy

text \<open>\<open>slice::chunks\<close>: consecutive pieces of \<open>n\<close> elements, the last one shorter (\<open>n = 0\<close> panics there; no caller passes it).\<close>

function chunks :: "nat \<Rightarrow> 'a list \<Rightarrow> 'a list list" where
  "chunks n xs = (if n = 0 \<or> xs = [] then [] else take n xs # chunks n (drop n xs))"
  by pat_completeness auto
termination
  by (relation "measure (\<lambda>(n, xs). length xs)") auto

declare chunks.simps [simp del]

fun plan_batches :: "rollout_strategy \<Rightarrow> host_entry list \<Rightarrow> host_entry list list" where
  "plan_batches AllAtOnce inventory = [inventory]"
| "plan_batches (Rolling n) inventory = chunks (max n 1) inventory"

section \<open>Data\<close>

record multi_host_record =
  mhr_active :: "host_id \<rightharpoonup> staged_artifact"
  mhr_revision :: "revision option"

definition multi_host_record_default :: multi_host_record where
  "multi_host_record_default = \<lparr>mhr_active = Map.empty, mhr_revision = None\<rparr>"

datatype multi_host_error =
    MhSaga saga_error
  | MhStore store_error
  | MhLedger string

datatype multi_host_build_error = MhMissingAdapter string | EmptyInventory

record 'w multi_host_deploy =
  mhd_fraise :: string
  mhd_environment :: string
  mhd_plan :: multi_host_plan
  mhd_ctx :: adapter_ctx
  mhd_target :: "revision option"
  mhd_lint :: bool
  mhd_policy :: "'w policy_gate"
  mhd_readiness :: "'w database_readiness option"
  mhd_artifact :: "'w artifact_adapter"
  mhd_migration :: "'w migration_adapter"
  mhd_service :: "'w service_adapter"
  mhd_health :: "'w health_adapter"
  mhd_lb :: "'w lb_adapter"

record 'w multi_host_builder =
  mhb_fraise :: string
  mhb_environment :: string
  mhb_plan :: multi_host_plan
  mhb_ctx :: "adapter_ctx option"
  mhb_target :: "revision option"
  mhb_lint :: bool
  mhb_policy :: "'w policy_gate"
  mhb_readiness :: "'w database_readiness option"
  mhb_artifact :: "'w artifact_adapter option"
  mhb_migration :: "'w migration_adapter option"
  mhb_service :: "'w service_adapter option"
  mhb_health :: "'w health_adapter option"
  mhb_lb :: "'w lb_adapter option"

definition mh_builder_new :: "string \<Rightarrow> string \<Rightarrow> multi_host_plan \<Rightarrow> 'w multi_host_builder" where
  "mh_builder_new f e plan =
     \<lparr>mhb_fraise = f, mhb_environment = e, mhb_plan = plan, mhb_ctx = None, mhb_target = None, mhb_lint = True,
      mhb_policy = gate_default, mhb_readiness = None, mhb_artifact = None, mhb_migration = None,
      mhb_service = None, mhb_health = None, mhb_lb = None\<rparr>"

definition mh_build :: "'w multi_host_builder \<Rightarrow> multi_host_build_error + 'w multi_host_deploy" where
  "mh_build b =
     (if inventory_is_empty (plan_inventory (mhb_plan b)) then Inl EmptyInventory
      else
        let ctx = (case mhb_ctx b of Some c \<Rightarrow> c | None \<Rightarrow> ctx_new (mhb_fraise b) (mhb_environment b)) in
        and_if_ok (ok_or (mhb_artifact b) (MhMissingAdapter ''artifact'')) (\<lambda>artifact.
        and_if_ok (ok_or (mhb_migration b) (MhMissingAdapter ''migration'')) (\<lambda>migration.
        and_if_ok (ok_or (mhb_service b) (MhMissingAdapter ''service'')) (\<lambda>service.
        and_if_ok (ok_or (mhb_health b) (MhMissingAdapter ''health'')) (\<lambda>health.
        and_if_ok (ok_or (mhb_lb b) (MhMissingAdapter ''lb'')) (\<lambda>lb.
        Inr \<lparr>mhd_fraise = mhb_fraise b, mhd_environment = mhb_environment b, mhd_plan = mhb_plan b, mhd_ctx = ctx,
             mhd_target = mhb_target b, mhd_lint = mhb_lint b, mhd_policy = mhb_policy b, mhd_readiness = mhb_readiness b,
             mhd_artifact = artifact, mhd_migration = migration, mhd_service = service, mhd_health = health,
             mhd_lb = lb\<rparr>))))))"

text \<open>\<open>RolloutShared\<close>: the deploy's fields, its inventory and the prior ledger record, immutable for the run.\<close>

record 'w rollout_shared =
  rs_deploy :: "'w multi_host_deploy"
  rs_inventory :: "host_entry list"
  rs_prior :: multi_host_record

definition rollout_shared_new :: "'w multi_host_deploy \<Rightarrow> multi_host_record \<Rightarrow> 'w rollout_shared" where
  "rollout_shared_new d prior =
     \<lparr>rs_deploy = d, rs_inventory = inv_hosts (plan_inventory (mhd_plan d)), rs_prior = prior\<rparr>"

record host_progress =
  drained :: "lb_membership option"
  activated :: bool
  reattached :: bool

definition progress_default :: host_progress where
  "progress_default = \<lparr>drained = None, activated = False, reattached = False\<rparr>"

record rollout_runtime =
  ro_staged :: "host_id \<rightharpoonup> staged_artifact"
  ro_previous :: "revision option"
  ro_new :: "revision option"
  ro_progress :: "host_id \<rightharpoonup> host_progress"
  ro_unrecoverable :: "string option"

definition rollout_runtime_default :: rollout_runtime where
  "rollout_runtime_default =
     \<lparr>ro_staged = Map.empty, ro_previous = None, ro_new = None, ro_progress = Map.empty, ro_unrecoverable = None\<rparr>"

type_synonym 'w ro_state = "rollout_runtime \<times> 'w"

definition finalize :: "rollout_runtime \<Rightarrow> saga_outcome \<Rightarrow> saga_outcome" where
  "finalize rt outcome =
     (case (outcome, ro_unrecoverable rt) of
        (OutcomeRolledBack failed_step reason, Some detail) \<Rightarrow>
          OutcomePartialRollback
            (''rollback after '' @ [quote] @ failed_step @ [quote] @ '' failed left a host unrecoverable: '' @ detail @
             '' (original failure: '' @ reason @ '')'')
      | (other, _) \<Rightarrow> other)"

definition mh_committed_record :: "rollout_runtime \<Rightarrow> multi_host_record" where
  "mh_committed_record rt = \<lparr>mhr_active = ro_staged rt, mhr_revision = ro_new rt\<rparr>"

section \<open>The steps\<close>

definition mh_failed :: "string \<Rightarrow> adapter_error \<Rightarrow> saga_error" where
  "mh_failed step e = StepFailed step (show_adapter_error e)"

definition host_failed :: "host_id \<Rightarrow> string \<Rightarrow> adapter_error \<Rightarrow> saga_error" where
  "host_failed host operation e =
     StepFailed ''rollout'' (''host '' @ host @ '' '' @ operation @ '': '' @ show_adapter_error e)"

definition host_ctx :: "'w rollout_shared \<Rightarrow> host_entry \<Rightarrow> adapter_ctx" where
  "host_ctx sh entry =
     (let ctx = mhd_ctx (rs_deploy sh) in
      ctx\<lparr>ctx_host := Some (ent_host entry), ctx_settings := (ctx_settings ctx)(''address'' \<mapsto> JString (ent_address entry))\<rparr>)"

text \<open>\<open>filter_map(Result::err)\<close>, and joining the futures of several hosts inside a step.\<close>

definition errs :: "('e + 'a) list \<Rightarrow> 'e list" where
  "errs rs = List.map_filter (\<lambda>r. case r of Inl e \<Rightarrow> Some e | Inr _ \<Rightarrow> None) rs"

definition join_step :: "('w \<Rightarrow> nat list) \<Rightarrow> ('w, 'a) task list \<Rightarrow> ('r \<times> 'w, 'e, 'a list) eff" where
  "join_step sched ts = (\<lambda>(rt, w). case join_all (sched w) ts w of (as, w') \<Rightarrow> (Inr as, rt, w'))"

subsection \<open>Preflight, fetch, migrate, verify\<close>

definition mh_inspect :: "'w rollout_shared \<Rightarrow> ('w ro_state, saga_error, inspection) eff" where
  "mh_inspect sh =
     (if \<not> mhd_lint (rs_deploy sh) then ok inspection_default
      else map_err (mh_failed ''preflight'') (on_world (inspect (mhd_migration (rs_deploy sh)) (mhd_ctx (rs_deploy sh)))))"

definition mh_run_policy_gate :: "'w rollout_shared \<Rightarrow> inspection \<Rightarrow> ('w ro_state, saga_error, unit) eff" where
  "mh_run_policy_gate sh insp =
     map_err (\<lambda>reason. StepFailed ''preflight'' reason)
       (on_world (admit (mhd_policy (rs_deploy sh)) BaseNone (insp_capabilities insp) (insp_report insp) (mhd_ctx (rs_deploy sh))))"

definition mh_forward_compat_lint :: "inspection \<Rightarrow> saga_error + unit" where
  "mh_forward_compat_lint insp =
     (case insp_report insp of
        None \<Rightarrow> Inr ()
      | Some report \<Rightarrow>
          (let blocking = length (filter (\<lambda>i. pi_severity i = SevError) (pr_issues report)) in
           if blocking > 0
           then Inl (StepFailed ''preflight''
             (''forward-compatibility preflight found '' @ show_nat blocking @ '' blocking issue(s)''))
           else Inr ()))"

definition probe_host :: "'w rollout_shared \<Rightarrow> host_entry \<Rightarrow> ('w, string + unit) task" where
  "probe_host sh entry =
     await (status (mhd_service (rs_deploy sh)) (host_ctx sh entry) (ent_host entry))
       (\<lambda>r. Return (case r of Inl e \<Rightarrow> Inl (ent_host entry @ '': '' @ show_adapter_error e) | Inr _ \<Rightarrow> Inr ()))"

definition mh_run_preflight ::
  "process_env \<Rightarrow> ('w \<Rightarrow> nat list) \<Rightarrow> 'w rollout_shared \<Rightarrow> ('w ro_state, saga_error, unit) eff" where
  "mh_run_preflight env sched sh =
     and_then
       (case mhd_readiness (rs_deploy sh) of
          Some probe \<Rightarrow> on_world (readiness_check env probe (mhd_ctx (rs_deploy sh)))
        | None \<Rightarrow> ok ()) (\<lambda>_.
     and_then (mh_inspect sh) (\<lambda>insp.
     and_then (mh_run_policy_gate sh insp) (\<lambda>_.
     and_then (from_result (mh_forward_compat_lint insp)) (\<lambda>_.
     and_then (join_step sched (map (probe_host sh) (rs_inventory sh))) (\<lambda>rs.
     let unreachable = errs rs in
     if unreachable = [] then ok ()
     else fail (StepFailed ''preflight''
       (show_nat (length unreachable) @ '' host(s) unreachable: '' @ join ''; '' unreachable)))))))"

definition stage_host :: "'w rollout_shared \<Rightarrow> host_entry \<Rightarrow> ('w, string + host_id \<times> staged_artifact) task" where
  "stage_host sh entry =
     await (stage (mhd_artifact (rs_deploy sh)) (host_ctx sh entry) (ent_host entry))
       (\<lambda>r. Return (case r of
          Inl e \<Rightarrow> Inl (ent_host entry @ '': '' @ show_adapter_error e)
        | Inr artifact \<Rightarrow> Inr (ent_host entry, artifact)))"

text \<open>The loop over the results: successes into the map, failures into the list.\<close>

fun collect_staged ::
  "(string + host_id \<times> staged_artifact) list \<Rightarrow> (host_id \<rightharpoonup> staged_artifact) \<times> string list \<Rightarrow>
     (host_id \<rightharpoonup> staged_artifact) \<times> string list" where
  "collect_staged [] acc = acc"
| "collect_staged (Inr (host, artifact) # rs) (staged, failures) = collect_staged rs (staged(host \<mapsto> artifact), failures)"
| "collect_staged (Inl message # rs) (staged, failures) = collect_staged rs (staged, failures @ [message])"

definition mh_run_fetch :: "('w \<Rightarrow> nat list) \<Rightarrow> 'w rollout_shared \<Rightarrow> ('w ro_state, saga_error, unit) eff" where
  "mh_run_fetch sched sh =
     and_then (join_step sched (map (stage_host sh) (rs_inventory sh))) (\<lambda>rs.
     case collect_staged rs (Map.empty, []) of (staged, failures) \<Rightarrow>
       if failures \<noteq> [] then fail (StepFailed ''fetch''
         (show_nat (length failures) @ '' host(s) failed to stage: '' @ join ''; '' failures))
       else modify_run (\<lambda>rt. rt\<lparr>ro_staged := staged\<rparr>))"

definition mh_run_migrate :: "'w rollout_shared \<Rightarrow> ('w ro_state, saga_error, unit) eff" where
  "mh_run_migrate sh =
     (let m = mhd_migration (rs_deploy sh); ctx = mhd_ctx (rs_deploy sh) in
      and_then (map_err (mh_failed ''migrate'') (on_world (current_revision m ctx))) (\<lambda>previous.
      and_then (modify_run (\<lambda>rt. rt\<lparr>ro_previous := previous\<rparr>)) (\<lambda>_.
      and_then (map_err (mh_failed ''migrate'') (on_world (up m ctx (mhd_target (rs_deploy sh))))) (\<lambda>outcome.
      modify_run (\<lambda>rt. rt\<lparr>ro_new := or_else (mo_to outcome) (ro_previous rt)\<rparr>)))))"

definition mh_undo_migrate :: "'w rollout_shared \<Rightarrow> ('w ro_state, saga_error, unit) eff" where
  "mh_undo_migrate sh =
     (let m = mhd_migration (rs_deploy sh) in
      if \<not> owns_database m then ok ()
      else and_then get_run (\<lambda>rt.
        case ro_previous rt of
          Some target \<Rightarrow>
            map_err (mh_failed ''migrate'') (map_ok (\<lambda>_. ()) (on_world (down_to m (mhd_ctx (rs_deploy sh)) target)))
        | None \<Rightarrow> fail (StepFailed ''migrate''
            (''cannot roll back the initial migration: there is no prior revision to '' @
             ''return the database to (a failed first-ever deploy has no committed '' @
             ''state to restore)''))))"

definition smoke_host :: "'w rollout_shared \<Rightarrow> host_entry \<Rightarrow> ('w, string + unit) task" where
  "smoke_host sh entry =
     await (check (mhd_health (rs_deploy sh)) (host_ctx sh entry) (ent_host entry))
       (\<lambda>r. Return (case r of
          Inr st \<Rightarrow>
            if healthy st then Inr ()
            else Inl (ent_host entry @ '' unhealthy'' @ (case hs_detail st of Some d \<Rightarrow> '' ('' @ d @ '')'' | None \<Rightarrow> []))
        | Inl e \<Rightarrow> Inl (ent_host entry @ '': '' @ show_adapter_error e)))"

definition mh_run_verify :: "('w \<Rightarrow> nat list) \<Rightarrow> 'w rollout_shared \<Rightarrow> ('w ro_state, saga_error, unit) eff" where
  "mh_run_verify sched sh =
     and_then (map_err (mh_failed ''verify'') (on_world (verify (mhd_migration (rs_deploy sh)) (mhd_ctx (rs_deploy sh))))) (\<lambda>report.
     if \<not> vr_ok report then fail (StepFailed ''verify'' (failure_message report))
     else and_then (join_step sched (map (smoke_host sh) (rs_inventory sh))) (\<lambda>rs.
       let unhealthy = errs rs in
       if unhealthy = [] then ok ()
       else fail (StepFailed ''verify''
         (''global verify found '' @ show_nat (length unhealthy) @ '' unhealthy host(s): '' @ join ''; '' unhealthy))))"

subsection \<open>The rollout of a batch\<close>

definition advance_host ::
  "'w rollout_shared \<Rightarrow> (host_id \<rightharpoonup> staged_artifact) \<Rightarrow> host_entry \<Rightarrow> ('w, (saga_error + unit) \<times> host_progress) task" where
  "advance_host sh staged entry =
     (let d = rs_deploy sh; ctx = host_ctx sh entry; host = ent_host entry; p0 = progress_default in
      await_try (drain (mhd_lb d) ctx host) (\<lambda>e. (Inl (host_failed host ''drain'' e), p0)) (\<lambda>membership.
      let p1 = p0\<lparr>drained := Some membership\<rparr> in
      case staged host of
        None \<Rightarrow> Return (Inl (StepFailed ''rollout'' (''no staged artifact recorded for host '' @ host)), p1)
      | Some staged_artifact \<Rightarrow>
          await_try (activate (mhd_artifact d) ctx host staged_artifact) (\<lambda>e. (Inl (host_failed host ''activate'' e), p1)) (\<lambda>_.
          let p2 = p1\<lparr>activated := True\<rparr> in
          await_try (restart (mhd_service d) ctx host) (\<lambda>e. (Inl (host_failed host ''restart'' e), p2)) (\<lambda>_.
          await_try (check (mhd_health d) ctx host) (\<lambda>e. (Inl (host_failed host ''health'' e), p2)) (\<lambda>st.
          if \<not> healthy st then
            Return (Inl (StepFailed ''rollout''
              (''host '' @ host @ '' reported unhealthy after restart'' @ (case hs_detail st of Some t \<Rightarrow> '': '' @ t | None \<Rightarrow> []))), p2)
          else
            await_try (reattach (mhd_lb d) ctx host membership) (\<lambda>e. (Inl (host_failed host ''reattach'' e), p2)) (\<lambda>_.
            Return (Inr (), p2\<lparr>reattached := True\<rparr>)))))))"

definition restore_host :: "'w rollout_shared \<Rightarrow> (host_id \<rightharpoonup> host_progress) \<Rightarrow> host_entry \<Rightarrow> ('w, saga_error + unit) task" where
  "restore_host sh progress entry =
     (let d = rs_deploy sh; ctx = host_ctx sh entry; host = ent_host entry;
          p = (case progress host of Some p \<Rightarrow> p | None \<Rightarrow> progress_default) in
      case drained p of
        None \<Rightarrow> Return (Inr ())
      | Some prior_membership \<Rightarrow>
          (let rejoin =
             await (reattach (mhd_lb d) ctx host prior_membership)
               (\<lambda>r. Return (case r of Inl e \<Rightarrow> Inl (host_failed host ''rollback reattach'' e) | Inr _ \<Rightarrow> Inr ()));
           reinstall =
             (if activated p then
                case mhr_active (rs_prior sh) host of
                  None \<Rightarrow> Return (Inl (StepFailed ''rollout''
                    (''cannot restore host '' @ host @ '': no prior artifact is recorded (a failed '' @
                     ''first-ever deploy has no prior release to re-activate)'')))
                | Some prior_artifact \<Rightarrow>
                    await_try (activate (mhd_artifact d) ctx host prior_artifact)
                      (\<lambda>e. Inl (host_failed host ''rollback activate'' e)) (\<lambda>_.
                    await_try (restart (mhd_service d) ctx host)
                      (\<lambda>e. Inl (host_failed host ''rollback restart'' e)) (\<lambda>_. rejoin))
              else rejoin)
           in if reattached p
              then await_try (drain (mhd_lb d) ctx host) (\<lambda>e. Inl (host_failed host ''rollback drain'' e)) (\<lambda>_. reinstall)
              else reinstall))"

definition restore_batch ::
  "('w \<Rightarrow> nat list) \<Rightarrow> 'w rollout_shared \<Rightarrow> host_entry list \<Rightarrow> ('w ro_state, saga_error, unit) eff" where
  "restore_batch sched sh batch =
     and_then get_run (\<lambda>rt.
     and_then (join_step sched (map (restore_host sh (ro_progress rt)) batch)) (\<lambda>rs.
     let errors = map show_saga_error (errs rs) in
     if errors = [] then ok ()
     else fail (StepFailed ''rollout''
       (show_nat (length errors) @ '' host(s) could not be restored: '' @ join ''; '' errors))))"

definition merge_progress ::
  "(host_id \<times> host_progress) list \<Rightarrow> (host_id \<rightharpoonup> host_progress) \<Rightarrow> (host_id \<rightharpoonup> host_progress)" where
  "merge_progress ps m = fold (\<lambda>(host, p) m. m(host \<mapsto> p)) ps m"

definition run_rollout ::
  "('w \<Rightarrow> nat list) \<Rightarrow> 'w rollout_shared \<Rightarrow> host_entry list \<Rightarrow> ('w ro_state, saga_error, unit) eff" where
  "run_rollout sched sh batch =
     and_then get_run (\<lambda>rt.
     and_then (join_step sched (map (advance_host sh (ro_staged rt)) batch)) (\<lambda>rs.
     let errors = map show_saga_error (errs (map fst rs)) in
     and_then (modify_run (\<lambda>rt. rt\<lparr>ro_progress := merge_progress (zip (map ent_host batch) (map snd rs)) (ro_progress rt)\<rparr>)) (\<lambda>_.
     if errors = [] then ok ()
     else and_then (result_of (restore_batch sched sh batch)) (\<lambda>restored.
       and_then
         (case restored of
            Inl restore_err \<Rightarrow>
              modify_run (\<lambda>rt. rt\<lparr>ro_unrecoverable := or_else (ro_unrecoverable rt) (Some (show_saga_error restore_err))\<rparr>)
          | Inr _ \<Rightarrow> ok ()) (\<lambda>_.
       fail (StepFailed ''rollout''
         (show_nat (length errors) @ '' host(s) failed to advance: '' @ join ''; '' errors)))))))"

section \<open>The saga and the run\<close>

datatype step_kind = MhPreflight | MhFetch | MhMigrate | MhRollout string "host_entry list" | MhVerify

fun kind_name :: "step_kind \<Rightarrow> string" where
  "kind_name MhPreflight = ''preflight''"
| "kind_name MhFetch = ''fetch''"
| "kind_name MhMigrate = ''migrate''"
| "kind_name (MhRollout name batch) = name"
| "kind_name MhVerify = ''verify''"

fun mh_forward ::
  "process_env \<Rightarrow> ('w \<Rightarrow> nat list) \<Rightarrow> 'w rollout_shared \<Rightarrow> step_kind \<Rightarrow> ('w ro_state, saga_error, unit) eff" where
  "mh_forward env sched sh MhPreflight = mh_run_preflight env sched sh"
| "mh_forward env sched sh MhFetch = mh_run_fetch sched sh"
| "mh_forward env sched sh MhMigrate = mh_run_migrate sh"
| "mh_forward env sched sh (MhRollout name batch) = run_rollout sched sh batch"
| "mh_forward env sched sh MhVerify = mh_run_verify sched sh"

fun mh_compensate :: "('w \<Rightarrow> nat list) \<Rightarrow> 'w rollout_shared \<Rightarrow> step_kind \<Rightarrow> ('w ro_state, saga_error, unit) eff" where
  "mh_compensate sched sh MhPreflight = ok ()"
| "mh_compensate sched sh MhFetch = ok ()"
| "mh_compensate sched sh MhVerify = ok ()"
| "mh_compensate sched sh MhMigrate = mh_undo_migrate sh"
| "mh_compensate sched sh (MhRollout name batch) = restore_batch sched sh batch"

definition mh_step :: "process_env \<Rightarrow> ('w \<Rightarrow> nat list) \<Rightarrow> 'w rollout_shared \<Rightarrow> step_kind \<Rightarrow> 'w ro_state saga_step" where
  "mh_step env sched sh kind =
     \<lparr>step_name = kind_name kind, forward = (\<lambda>_. mh_forward env sched sh kind), compensate = (\<lambda>_. mh_compensate sched sh kind)\<rparr>"

definition rollout_step ::
  "process_env \<Rightarrow> ('w \<Rightarrow> nat list) \<Rightarrow> 'w rollout_shared \<Rightarrow> nat \<Rightarrow> host_entry list \<Rightarrow> 'w ro_state saga_step" where
  "rollout_step env sched sh index batch = mh_step env sched sh (MhRollout (''rollout-'' @ show_nat index) batch)"

definition mh_steps ::
  "process_env \<Rightarrow> ('w \<Rightarrow> nat list) \<Rightarrow> 'w multi_host_deploy \<Rightarrow> multi_host_record \<Rightarrow> 'w ro_state saga_step list" where
  "mh_steps env sched d prior =
     (let sh = rollout_shared_new d prior in
      [mh_step env sched sh MhPreflight, mh_step env sched sh MhFetch, mh_step env sched sh MhMigrate] @
      map (\<lambda>(index, batch). rollout_step env sched sh (index + 1) batch)
        (enumerate 0 (plan_batches (plan_strategy (mhd_plan d)) (inv_hosts (plan_inventory (mhd_plan d))))) @
      [mh_step env sched sh MhVerify])"

type_synonym 'j mh_codec = "(multi_host_record, 'j) codec"

definition mh_ledger_result :: "string + 'a \<Rightarrow> multi_host_error + 'a" where
  "mh_ledger_result r = (case r of Inl m \<Rightarrow> Inl (MhLedger m) | Inr a \<Rightarrow> Inr a)"

definition mh_read_prior ::
  "'j mh_codec \<Rightarrow> ('s, 'j) state_store \<Rightarrow> fraise_key \<Rightarrow> ('s, multi_host_error, multi_host_record) eff" where
  "mh_read_prior c store key =
     and_then (map_err MhStore (current_snapshot store key))
       (\<lambda>v. case v of
          Some value \<Rightarrow> from_result (mh_ledger_result (from_value c value))
        | None \<Rightarrow> ok multi_host_record_default)"

definition mh_record_commit ::
  "'j mh_codec \<Rightarrow> ('s, 'j) state_store \<Rightarrow> fraise_key \<Rightarrow> saga_outcome \<Rightarrow> rollout_runtime \<Rightarrow> ('s, multi_host_error, unit) eff" where
  "mh_record_commit c store key outcome rt =
     (if outcome = OutcomeCommitted then
        and_then (from_result (mh_ledger_result (to_value c (mh_committed_record rt))))
          (\<lambda>v. map_err MhStore (record_snapshot store key v))
      else ok ())"

definition mh_saga ::
  "process_env \<Rightarrow> ('w \<Rightarrow> nat list) \<Rightarrow> ('s, 'j) state_store \<Rightarrow> 'w multi_host_deploy \<Rightarrow> multi_host_record \<Rightarrow>
     ('s, 'j, 'w ro_state) saga" where
  "mh_saga env sched store d prior =
     with_steps (mh_steps env sched d prior) (saga_new store (mhd_fraise d) (mhd_environment d))"

definition run_mh_saga ::
  "'s platform \<Rightarrow> process_env \<Rightarrow> ('w \<Rightarrow> nat list) \<Rightarrow> ('s, 'j) state_store \<Rightarrow> 'w multi_host_deploy \<Rightarrow> multi_host_record \<Rightarrow>
     ('s \<times> 'w, multi_host_error, saga_outcome \<times> rollout_runtime) eff" where
  "run_mh_saga pf env sched store d prior = (\<lambda>(s, w).
     case run_with_state pf (mh_saga env sched store d prior) (s, rollout_runtime_default, w) of
       (Inl e, s', rt, w') \<Rightarrow> (Inl (MhSaga e), s', w')
     | (Inr outcome, s', rt, w') \<Rightarrow> (Inr (outcome, rt), s', w'))"

definition mh_run ::
  "'s platform \<Rightarrow> process_env \<Rightarrow> ('w \<Rightarrow> nat list) \<Rightarrow> 'j mh_codec \<Rightarrow> ('s, 'j) state_store \<Rightarrow> 'w multi_host_deploy \<Rightarrow>
     ('s \<times> 'w, multi_host_error, saga_outcome) eff" where
  "mh_run pf env sched c store d =
     (let key = key_new (mhd_fraise d) (mhd_environment d) in
      and_then (on_fst (mh_read_prior c store key)) (\<lambda>prior.
      and_then (run_mh_saga pf env sched store d prior) (\<lambda>(saga_outcome, rt).
      let outcome = finalize rt saga_outcome in
      and_then (on_fst (mh_record_commit c store key outcome rt)) (\<lambda>_.
      ok outcome))))"

end
