(* ===== verification/Multi_Host_Rollout.thy ===== *)
theory Multi_Host_Rollout
  imports Multi_Host
begin

text \<open>
  What a rollout guarantees: the batches partition the inventory in order; while a batch advances the
  rest of the fleet is untouched under every interleaving; a rollout over lawful adapters ends with
  the whole fleet on the new release or the whole fleet and the database exactly as before. It ends
  with the run where a host that cannot be restored does not stop the migration from being undone.
\<close>

section \<open>Batches\<close>

lemma chunks_Nil [simp]: "chunks n [] = []"
  by (simp add: chunks.simps)

lemma chunks_rec: "n > 0 \<Longrightarrow> xs \<noteq> [] \<Longrightarrow> chunks n xs = take n xs # chunks n (drop n xs)"
  by (subst chunks.simps) simp

lemma chunks_concat: "n > 0 \<Longrightarrow> concat (chunks n xs) = xs"
proof (induction n xs rule: chunks.induct)
  case (1 n xs)
  then show ?case by (cases "xs = []") (simp_all add: chunks_rec)
qed

lemma chunks_bounds: "b \<in> set (chunks n xs) \<Longrightarrow> b \<noteq> [] \<and> length b \<le> n"
proof (induction n xs rule: chunks.induct)
  case (1 n xs)
  then show ?case by (subst (asm) chunks.simps) (auto split: if_splits)
qed

lemma chunks_length: "n > 0 \<Longrightarrow> length (chunks n xs) = (length xs + n - 1) div n"
proof (induction n xs rule: chunks.induct)
  case (1 n xs)
  show ?case
  proof (cases "xs = []")
    case False
    then have "length (chunks n xs) = Suc ((length xs - n + n - 1) div n)" using 1 by (simp add: chunks_rec)
    also have "\<dots> = (length xs + n - 1) div n"
    proof (cases "length xs \<le> n")
      case True
      have eq: "length xs + n - 1 = n + (length xs - 1)" using False by (cases xs) auto
      have less: "length xs - 1 < n" "n - 1 < n" using True False "1.prems" by (cases xs; auto)+
      have "(n + (length xs - 1)) div n = Suc 0" using "1.prems" less(1) by (simp add: div_add_self1 div_less)
      with eq have "(length xs + n - 1) div n = Suc 0" by simp
      moreover have "(length xs - n + n - 1) div n = 0" using True less(2) by (simp add: div_less)
      ultimately show ?thesis by simp
    next
      case False
      then have "length xs + n - 1 = (length xs - n + n - 1) + n" using "1.prems" by linarith
      then have "(length xs + n - 1) div n = ((length xs - n + n - 1) + n) div n" by (rule arg_cong)
      also have "\<dots> = Suc ((length xs - n + n - 1) div n)" using "1.prems" by (simp only: div_add_self2)
      finally show ?thesis by (rule sym)
    qed
    finally show ?thesis .
  qed (use "1.prems" in simp)
qed

text \<open>
  The batches partition the inventory. Every host is in exactly one batch and the order of the
  inventory is kept; no batch is empty or larger than the configured size (at least one); a rolling
  rollout takes the least number of batches of that size, an all-at-once rollout one.
\<close>

theorem batches_partition:
  assumes "inventory \<noteq> []"
  shows "concat (plan_batches strategy inventory) = inventory \<and>
    (\<forall>b\<in>set (plan_batches strategy inventory). b \<noteq> [] \<and>
       length b \<le> (case strategy of AllAtOnce \<Rightarrow> length inventory | Rolling n \<Rightarrow> max n 1)) \<and>
    length (plan_batches strategy inventory) =
       (case strategy of AllAtOnce \<Rightarrow> 1 | Rolling n \<Rightarrow> (length inventory + max n 1 - 1) div max n 1)"
proof (cases strategy)
  case (Rolling n)
  have pos: "max n 1 > 0" by simp
  show ?thesis
    using chunks_concat [OF pos, of inventory] chunks_length [OF pos, of inventory] chunks_bounds [of _ "max n 1" inventory]
    unfolding Rolling plan_batches.simps rollout_strategy.case by blast
qed (use assms in simp)

theorem batches_partition_witness:
  "concat (plan_batches (Rolling 2) [host_entry_new ''a'' ''1'', host_entry_new ''b'' ''2'', host_entry_new ''c'' ''3'']) =
     [host_entry_new ''a'' ''1'', host_entry_new ''b'' ''2'', host_entry_new ''c'' ''3''] \<and>
   length (plan_batches (Rolling 2) [host_entry_new ''a'' ''1'', host_entry_new ''b'' ''2'', host_entry_new ''c'' ''3'']) = 2"
proof -
  have "Suc (Suc (Suc (Suc 0))) div Suc (Suc 0) = 2" by code_simp
  then show ?thesis
    using batches_partition [where strategy = "Rolling 2"
        and inventory = "[host_entry_new ''a'' ''1'', host_entry_new ''b'' ''2'', host_entry_new ''c'' ''3'']"] by simp
qed

section \<open>Lawful adapters\<close>

text \<open>
  \<open>live\<close> observes the world: each host's active release and its place in the load balancer, and the
  revision of the shared database. Probes and reports change nothing; a call for a host changes that
  host only; draining works and returns the membership it found; activating and reattaching set what
  they are asked to set, or nothing when they fail; the recorded release \<open>act h\<close> of a host can be
  activated again, and a host that runs it restarts and rejoins; migrating down reaches its target.
\<close>

record host_live =
  hl_release :: "staged_artifact option"
  hl_member :: lb_membership

record fleet_live =
  fl_hosts :: "host_id \<Rightarrow> host_live"
  fl_revision :: "revision option"

definition upd_host :: "host_id \<Rightarrow> (host_live \<Rightarrow> host_live) \<Rightarrow> fleet_live \<Rightarrow> fleet_live" where
  "upd_host h f l = l\<lparr>fl_hosts := (fl_hosts l)(h := f (fl_hosts l h))\<rparr>"

lemma upd_host_simps [simp]:
  "fl_hosts (upd_host h f l) h = f (fl_hosts l h)" "h' \<noteq> h \<Longrightarrow> fl_hosts (upd_host h f l) h' = fl_hosts l h'"
  "fl_revision (upd_host h f l) = fl_revision l"
  by (simp_all add: upd_host_def)

definition fleet_reads :: "('w \<Rightarrow> fleet_live) \<Rightarrow> 'w multi_host_deploy \<Rightarrow> bool" where
  "fleet_reads live d \<longleftrightarrow>
     keeps live (describe (mhd_migration d)) \<and>
     (\<forall>c. keeps live (preflight (mhd_migration d) c)) \<and>
     (\<forall>c. keeps live (verify (mhd_migration d) c)) \<and>
     (\<forall>c. keeps live (current_revision (mhd_migration d) c)) \<and>
     (\<forall>c w r w'. current_revision (mhd_migration d) c w = (Inr r, w') \<longrightarrow> r = fl_revision (live w)) \<and>
     (\<forall>c h. keeps live (stage (mhd_artifact d) c h)) \<and>
     (\<forall>c h. keeps live (status (mhd_service d) c h)) \<and>
     (\<forall>c h. keeps live (restart (mhd_service d) c h)) \<and>
     (\<forall>c h. keeps live (check (mhd_health d) c h)) \<and>
     (\<forall>hook req w. gate_hook (mhd_policy d) = Some hook \<longrightarrow> live (snd (hook req w)) = live w) \<and>
     (\<forall>probe dsn. mhd_readiness d = Some probe \<longrightarrow> keeps live (probe dsn))"

definition fleet_writes :: "('w \<Rightarrow> fleet_live) \<Rightarrow> 'w multi_host_deploy \<Rightarrow> (host_id \<rightharpoonup> staged_artifact) \<Rightarrow> bool" where
  "fleet_writes live d act \<longleftrightarrow>
     (\<forall>c h w. \<exists>m w'. drain (mhd_lb d) c h w = (Inr (hl_member (fl_hosts (live w) h)), w') \<and>
        live w' = upd_host h (hl_member_update (\<lambda>_. m)) (live w)) \<and>
     (\<forall>c h a w w'. activate (mhd_artifact d) c h a w = (Inr (), w') \<longrightarrow>
        live w' = upd_host h (hl_release_update (\<lambda>_. Some a)) (live w)) \<and>
     (\<forall>c h a w e w'. activate (mhd_artifact d) c h a w = (Inl e, w') \<longrightarrow> live w' = live w) \<and>
     (\<forall>c h m w w'. reattach (mhd_lb d) c h m w = (Inr (), w') \<longrightarrow>
        live w' = upd_host h (hl_member_update (\<lambda>_. m)) (live w)) \<and>
     (\<forall>c h m w e w'. reattach (mhd_lb d) c h m w = (Inl e, w') \<longrightarrow> live w' = live w) \<and>
     (\<forall>c h a w. act h = Some a \<longrightarrow> is_ok (fst (activate (mhd_artifact d) c h a w))) \<and>
     (\<forall>c h w. act h \<noteq> None \<and> hl_release (fl_hosts (live w) h) = act h \<longrightarrow> is_ok (fst (restart (mhd_service d) c h w))) \<and>
     (\<forall>c h m w. act h \<noteq> None \<and> hl_release (fl_hosts (live w) h) = act h \<longrightarrow> is_ok (fst (reattach (mhd_lb d) c h m w)))"

definition schema_writes :: "('w \<Rightarrow> fleet_live) \<Rightarrow> 'w multi_host_deploy \<Rightarrow> bool" where
  "schema_writes live d \<longleftrightarrow>
     (\<forall>c t w out w'. up (mhd_migration d) c t w = (Inr out, w') \<longrightarrow> fl_hosts (live w') = fl_hosts (live w)) \<and>
     (\<forall>c t w e w'. up (mhd_migration d) c t w = (Inl e, w') \<longrightarrow> live w' = live w) \<and>
     (\<forall>c r w. \<exists>out w'. down_to (mhd_migration d) c r w = (Inr out, w') \<and> live w' = (live w)\<lparr>fl_revision := Some r\<rparr>) \<and>
     (\<not> owns_database (mhd_migration d) \<longrightarrow> (\<forall>c t. keeps live (up (mhd_migration d) c t)))"

lemma reads_keep:
  assumes "fleet_reads live d"
  shows "keeps live (describe (mhd_migration d))" "\<And>c. keeps live (preflight (mhd_migration d) c)"
    "\<And>c. keeps live (verify (mhd_migration d) c)" "\<And>c. keeps live (current_revision (mhd_migration d) c)"
    "\<And>c h. keeps live (stage (mhd_artifact d) c h)" "\<And>c h. keeps live (status (mhd_service d) c h)"
    "\<And>c h. keeps live (restart (mhd_service d) c h)" "\<And>c h. keeps live (check (mhd_health d) c h)"
  using assms by (simp_all add: fleet_reads_def)

lemma fleet_drain:
  assumes "fleet_writes live d act" and "drain (mhd_lb d) c h w = (r, w')"
  shows "r = Inr (hl_member (fl_hosts (live w) h))" "\<exists>m. live w' = upd_host h (hl_member_update (\<lambda>_. m)) (live w)"
proof -
  from assms(1) have "\<forall>c h w. \<exists>m w'. drain (mhd_lb d) c h w = (Inr (hl_member (fl_hosts (live w) h)), w') \<and>
      live w' = upd_host h (hl_member_update (\<lambda>_. m)) (live w)"
    unfolding fleet_writes_def by (elim conjE)
  with assms(2) show "r = Inr (hl_member (fl_hosts (live w) h))"
    "\<exists>m. live w' = upd_host h (hl_member_update (\<lambda>_. m)) (live w)" by (metis prod.inject)+
qed

lemma fleet_activate:
  assumes "fleet_writes live d act" and "activate (mhd_artifact d) c h a w = (r, w')"
  shows "live w' = (if is_ok r then upd_host h (hl_release_update (\<lambda>_. Some a)) (live w) else live w)"
    "act h = Some a \<Longrightarrow> is_ok r"
proof -
  have "\<forall>c h a w w'. activate (mhd_artifact d) c h a w = (Inr (), w') \<longrightarrow> live w' = upd_host h (hl_release_update (\<lambda>_. Some a)) (live w)"
    "\<forall>c h a w e w'. activate (mhd_artifact d) c h a w = (Inl e, w') \<longrightarrow> live w' = live w"
    "\<forall>c h a w. act h = Some a \<longrightarrow> is_ok (fst (activate (mhd_artifact d) c h a w))"
    using assms(1) unfolding fleet_writes_def by simp_all
  with assms(2) show "live w' = (if is_ok r then upd_host h (hl_release_update (\<lambda>_. Some a)) (live w) else live w)"
    "act h = Some a \<Longrightarrow> is_ok r"
    by (cases r; auto; metis fst_conv is_ok_simps)+
qed

lemma fleet_reattach:
  assumes "fleet_writes live d act" and "reattach (mhd_lb d) c h m w = (r, w')"
  shows "live w' = (if is_ok r then upd_host h (hl_member_update (\<lambda>_. m)) (live w) else live w)"
    "act h = Some a \<Longrightarrow> hl_release (fl_hosts (live w) h) = Some a \<Longrightarrow> is_ok r"
proof -
  have "\<forall>c h m w w'. reattach (mhd_lb d) c h m w = (Inr (), w') \<longrightarrow> live w' = upd_host h (hl_member_update (\<lambda>_. m)) (live w)"
    "\<forall>c h m w e w'. reattach (mhd_lb d) c h m w = (Inl e, w') \<longrightarrow> live w' = live w"
    "\<forall>c h m w. act h \<noteq> None \<and> hl_release (fl_hosts (live w) h) = act h \<longrightarrow> is_ok (fst (reattach (mhd_lb d) c h m w))"
    using assms(1) unfolding fleet_writes_def by simp_all
  with assms(2) show "live w' = (if is_ok r then upd_host h (hl_member_update (\<lambda>_. m)) (live w) else live w)"
    "act h = Some a \<Longrightarrow> hl_release (fl_hosts (live w) h) = Some a \<Longrightarrow> is_ok r"
    by (cases r; auto; metis fst_conv is_ok_simps option.distinct(1))+
qed

lemma fleet_restart:
  assumes "fleet_writes live d act" and "restart (mhd_service d) c h w = (r, w')"
    and "act h = Some a" and "hl_release (fl_hosts (live w) h) = Some a"
  shows "is_ok r"
proof -
  have "\<forall>c h w. act h \<noteq> None \<and> hl_release (fl_hosts (live w) h) = act h \<longrightarrow> is_ok (fst (restart (mhd_service d) c h w))"
    using assms(1) unfolding fleet_writes_def by simp
  with assms(2-4) show ?thesis by (metis fst_conv option.distinct(1))
qed

section \<open>One host\<close>

abbreviation at_host :: "('w \<Rightarrow> fleet_live) \<Rightarrow> host_id \<Rightarrow> 'w \<Rightarrow> host_live" where
  "at_host live h w \<equiv> fl_hosts (live w) h"

text \<open>How far a host that was at \<open>o1\<close> has come, as its progress slot tells: undrained hosts are untouched.\<close>

definition progressed :: "host_live \<Rightarrow> host_progress \<Rightarrow> host_live \<Rightarrow> bool" where
  "progressed o1 p o2 \<longleftrightarrow>
     (case drained p of
        None \<Rightarrow> o2 = o1 \<and> \<not> activated p \<and> \<not> reattached p
      | Some m \<Rightarrow> m = hl_member o1 \<and> (activated p \<or> hl_release o2 = hl_release o1))"

definition advanced_to :: "(host_id \<rightharpoonup> staged_artifact) \<Rightarrow> host_id \<Rightarrow> host_live \<Rightarrow> host_live \<Rightarrow> bool" where
  "advanced_to staged h o1 o2 \<longleftrightarrow> (\<exists>a. staged h = Some a \<and> o2 = o1\<lparr>hl_release := Some a\<rparr>)"

definition advance_post ::
  "(host_id \<rightharpoonup> staged_artifact) \<Rightarrow> host_id \<Rightarrow> host_live \<Rightarrow> (saga_error + unit) \<times> host_progress \<Rightarrow> host_live \<Rightarrow> bool" where
  "advance_post staged h o1 rp o2 \<longleftrightarrow>
     progressed o1 (snd rp) o2 \<and> (is_ok (fst rp) \<longrightarrow> advanced_to staged h o1 o2)"

text \<open>What a call for a host does to that host.\<close>

lemma host_calls:
  assumes "fleet_reads live d" and "fleet_writes live d act"
  shows "drain (mhd_lb d) c h w = (Inl f, w') \<Longrightarrow> False"
    "drain (mhd_lb d) c h w = (Inr m, w') \<Longrightarrow> m = hl_member (at_host live h w) \<and> (\<exists>n. at_host live h w' = (at_host live h w)\<lparr>hl_member := n\<rparr>)"
    "activate (mhd_artifact d) c h a w = (Inl f, w') \<Longrightarrow> at_host live h w' = at_host live h w"
    "activate (mhd_artifact d) c h a w = (Inr u, w') \<Longrightarrow> at_host live h w' = (at_host live h w)\<lparr>hl_release := Some a\<rparr>"
    "restart (mhd_service d) c h w = (r, w') \<Longrightarrow> at_host live h w' = at_host live h w"
    "check (mhd_health d) c h w = (q, w') \<Longrightarrow> at_host live h w' = at_host live h w"
    "reattach (mhd_lb d) c h m w = (Inl f, w') \<Longrightarrow> at_host live h w' = at_host live h w"
    "reattach (mhd_lb d) c h m w = (Inr u, w') \<Longrightarrow> at_host live h w' = (at_host live h w)\<lparr>hl_member := m\<rparr>"
  using fleet_drain [OF assms(2), of c h w] fleet_activate(1) [OF assms(2), of c h a w] fleet_reattach(1) [OF assms(2), of c h m w]
    keepsD [OF reads_keep(7) [OF assms(1)], of c h w] keepsD [OF reads_keep(8) [OF assms(1)], of c h w]
  by (auto simp: upd_host_def)

lemma advance_host_holds:
  assumes "fleet_reads live (rs_deploy sh)" and "fleet_writes live (rs_deploy sh) act"
  shows "tholds (advance_host sh staged e) (at_host live (ent_host e)) (advance_post staged (ent_host e) o1) o1"
  unfolding advance_host_def Let_def
  by (auto intro!: tholds_await_try split: option.split
      simp: advance_post_def progressed_def progress_default_def advanced_to_def dest!: host_calls [OF assms])

text \<open>The calls that restore the recorded release.\<close>

lemma restore_calls:
  assumes "fleet_writes live d act" and "act h = Some a"
  shows "activate (mhd_artifact d) c h a w = (Inl f, w') \<Longrightarrow> False"
    "restart (mhd_service d) c h w = (Inl f, w') \<Longrightarrow> hl_release (at_host live h w) \<noteq> Some a"
    "reattach (mhd_lb d) c h m w = (Inl f, w') \<Longrightarrow> hl_release (at_host live h w) \<noteq> Some a"
  using fleet_activate(2) [OF assms(1) _ assms(2)] fleet_restart [OF assms(1) _ assms(2)] fleet_reattach(2) [OF assms(1) _ assms(2)]
  by fastforce+

lemma restore_host_holds:
  assumes "fleet_reads live (rs_deploy sh)" and "fleet_writes live (rs_deploy sh) (mhr_active (rs_prior sh))"
    and "mhr_active (rs_prior sh) (ent_host e) = Some a" and "hl_release o1 = Some a"
    and "progress (ent_host e) = Some p" and "progressed o1 p o2"
  shows "tholds (restore_host sh progress e) (at_host live (ent_host e)) (\<lambda>r o3. r = Inr () \<and> o3 = o1) o2"
proof (cases "drained p")
  case None
  then show ?thesis using assms(5,6) by (simp add: restore_host_def progressed_def Let_def)
next
  case (Some m)
  let ?d = "rs_deploy sh" and ?h = "ent_host e" and ?Q = "\<lambda>r o3. r = Inr () \<and> o3 = o1"
  define rejoin where "rejoin = await (reattach (mhd_lb ?d) (host_ctx sh e) ?h m)
    (\<lambda>r. Return (case r of Inl f \<Rightarrow> Inl (host_failed ?h ''rollback reattach'' f) | Inr _ \<Rightarrow> Inr ()))"
  have m: "m = hl_member o1" and rel: "activated p \<or> hl_release o2 = Some a"
    using assms(4,6) Some by (auto simp: progressed_def)
  note calls = host_calls [OF assms(1,2)] restore_calls [OF assms(2,3)]
  have join: "tholds rejoin (at_host live ?h) ?Q o3" if "hl_release o3 = Some a" for o3
    unfolding rejoin_def using that assms(4)
    by (intro tholds_await) (cases o1; auto split: sum.split simp: m dest: calls(7,8,11))
  define reboot where "reboot = await_try (restart (mhd_service ?d) (host_ctx sh e) ?h)
    (\<lambda>f. Inl (host_failed ?h ''rollback restart'' f)) (\<lambda>_. rejoin)"
  have boot: "tholds reboot (at_host live ?h) ?Q o3" if "hl_release o3 = Some a" for o3
    unfolding reboot_def
  proof (rule tholds_await_try)
    fix w f w' assume "at_host live ?h w = o3" and r: "restart (mhd_service ?d) (host_ctx sh e) ?h w = (Inl f, w')"
    with that calls(10) [OF r] show "?Q (Inl (host_failed ?h ''rollback restart'' f)) (at_host live ?h w')" by simp
  next
    fix w u w' assume "at_host live ?h w = o3" and r: "restart (mhd_service ?d) (host_ctx sh e) ?h w = (Inr u, w')"
    with that calls(5) [OF r] show "tholds rejoin (at_host live ?h) ?Q (at_host live ?h w')" by (intro join) simp
  qed
  define reinstall where "reinstall = (if activated p then
      await_try (activate (mhd_artifact ?d) (host_ctx sh e) ?h a) (\<lambda>f. Inl (host_failed ?h ''rollback activate'' f)) (\<lambda>_. reboot)
    else rejoin)"
  have re: "tholds reinstall (at_host live ?h) ?Q o3" if "activated p \<or> hl_release o3 = Some a" for o3
    unfolding reinstall_def using that join
    by (auto intro!: tholds_await_try boot dest: calls(4,9))
  have "restore_host sh progress e = (if reattached p
      then await_try (drain (mhd_lb ?d) (host_ctx sh e) ?h) (\<lambda>f. Inl (host_failed ?h ''rollback drain'' f)) (\<lambda>_. reinstall)
      else reinstall)"
    by (simp add: restore_host_def Let_def assms(3,5) Some reinstall_def reboot_def rejoin_def)
  with re rel show ?thesis by (auto intro!: tholds_await_try dest!: calls(1,2))
qed

text \<open>A host's calls leave the other hosts and the database alone.\<close>

lemma others_kept:
  assumes "fleet_reads live d" and "fleet_writes live d act" and "h' \<noteq> h"
  shows "keeps (at_host live h') (drain (mhd_lb d) c h)" "keeps (at_host live h') (activate (mhd_artifact d) c h a)"
    "keeps (at_host live h') (restart (mhd_service d) c h)" "keeps (at_host live h') (check (mhd_health d) c h)"
    "keeps (at_host live h') (reattach (mhd_lb d) c h m)"
  using fleet_drain(2) [OF assms(2), of c h] fleet_activate(1) [OF assms(2), of c h a] fleet_reattach(1) [OF assms(2), of c h m]
    keepsD [OF reads_keep(7) [OF assms(1)], of c h] keepsD [OF reads_keep(8) [OF assms(1)], of c h] assms(3)
  by (intro keepsI; fastforce)+

lemma revision_kept:
  assumes "fleet_reads live d" and "fleet_writes live d act"
  shows "keeps (fl_revision \<circ> live) (drain (mhd_lb d) c h)" "keeps (fl_revision \<circ> live) (activate (mhd_artifact d) c h a)"
    "keeps (fl_revision \<circ> live) (restart (mhd_service d) c h)" "keeps (fl_revision \<circ> live) (check (mhd_health d) c h)"
    "keeps (fl_revision \<circ> live) (reattach (mhd_lb d) c h m)"
  using fleet_drain(2) [OF assms(2), of c h] fleet_activate(1) [OF assms(2), of c h a] fleet_reattach(1) [OF assms(2), of c h m]
    keepsD [OF reads_keep(7) [OF assms(1)], of c h] keepsD [OF reads_keep(8) [OF assms(1)], of c h]
  by (intro keepsI; fastforce)+

lemma tkeeps_advance:
  assumes "\<And>c. keeps obs (drain (mhd_lb (rs_deploy sh)) c (ent_host e))"
    "\<And>c a. keeps obs (activate (mhd_artifact (rs_deploy sh)) c (ent_host e) a)"
    "\<And>c. keeps obs (restart (mhd_service (rs_deploy sh)) c (ent_host e))"
    "\<And>c. keeps obs (check (mhd_health (rs_deploy sh)) c (ent_host e))"
    "\<And>c m. keeps obs (reattach (mhd_lb (rs_deploy sh)) c (ent_host e) m)"
  shows "tkeeps (advance_host sh staged e) obs" "tkeeps (restore_host sh progress e) obs"
  unfolding advance_host_def restore_host_def Let_def
  by (auto intro!: task_intros assms split: option.split)

lemma tkeeps_host:
  assumes "fleet_reads live (rs_deploy sh)" and "fleet_writes live (rs_deploy sh) act"
  shows "h \<noteq> ent_host e \<Longrightarrow> tkeeps (advance_host sh staged e) (at_host live h)"
    "tkeeps (advance_host sh staged e) (fl_revision \<circ> live)"
    "h \<noteq> ent_host e \<Longrightarrow> tkeeps (restore_host sh progress e) (at_host live h)"
    "tkeeps (restore_host sh progress e) (fl_revision \<circ> live)"
  by (rule tkeeps_advance; rule others_kept [OF assms] revision_kept [OF assms]; assumption)+

section \<open>One batch\<close>

text \<open>Hosts that advance or are restored together do not interfere, whatever the interleaving.\<close>

lemma fleet_join:
  assumes "distinct (map ent_host batch)"
    and "\<And>e. e \<in> set batch \<Longrightarrow> tholds (f e) (at_host live (ent_host e)) (Q e) (at_host live (ent_host e) w)"
    and frame: "\<And>e h. h \<noteq> ent_host e \<Longrightarrow> tkeeps (f e) (at_host live h)" "\<And>e. tkeeps (f e) (fl_revision \<circ> live)"
    and join: "join_all sched (map f batch) w = (rs, w')"
  shows "length rs = length batch"
    "\<And>i. i < length batch \<Longrightarrow> Q (batch ! i) (rs ! i) (at_host live (ent_host (batch ! i)) w')"
    "\<And>h. h \<notin> ent_host ` set batch \<Longrightarrow> at_host live h w' = at_host live h w"
    "fl_revision (live w') = fl_revision (live w)"
proof -
  show "length rs = length batch" using join_all_length [OF join] by simp
  have "disjoint_tasks (\<lambda>i. at_host live (ent_host (batch ! i))) (\<lambda>i. Q (batch ! i)) (map f batch) w"
    unfolding disjoint_tasks_def using assms(1,2) frame(1) by (auto simp: distinct_conv_nth)
  from join_all_disjoint [OF this join]
  show "\<And>i. i < length batch \<Longrightarrow> Q (batch ! i) (rs ! i) (at_host live (ent_host (batch ! i)) w')" by simp
  show "\<And>h. h \<notin> ent_host ` set batch \<Longrightarrow> at_host live h w' = at_host live h w"
    by (rule join_all_keeps [OF _ join]) (auto intro: frame)
  show "fl_revision (live w') = fl_revision (live w)"
    using join_all_keeps [OF _ join, of "fl_revision \<circ> live"] frame(2) by simp
qed

lemma merge_progress_other: "h \<notin> set hs \<Longrightarrow> merge_progress (zip hs ps) m h = m h"
  by (induction hs arbitrary: ps m) (auto simp: merge_progress_def zip_Cons1 split: list.split)

lemma merge_progress_nth:
  "distinct hs \<Longrightarrow> length ps = length hs \<Longrightarrow> i < length hs \<Longrightarrow> merge_progress (zip hs ps) m (hs ! i) = Some (ps ! i)"
proof (induction hs arbitrary: ps m i)
  case (Cons h hs)
  obtain q qs where ps: "ps = q # qs" using Cons.prems(2) by (cases ps) auto
  have step: "merge_progress ((h, q) # zip hs qs) m = merge_progress (zip hs qs) (m(h \<mapsto> q))"
    by (simp add: merge_progress_def)
  show ?case
  proof (cases i)
    case 0
    then show ?thesis using Cons.prems(1) ps by (simp add: step merge_progress_other)
  next
    case (Suc j)
    then show ?thesis using Cons.prems ps Cons.IH [of qs j] by (simp add: step)
  qed
qed simp

lemma errs_Nil: "errs rs = [] \<longleftrightarrow> (\<forall>r\<in>set rs. is_ok r)"
  by (induction rs) (auto simp: errs_def map_filter_simps split: sum.split option.split)

lemma join_step_run: "join_step sched ts (rt, w) = (Inr (fst (join_all (sched w) ts w)), rt, snd (join_all (sched w) ts w))"
  by (simp add: join_step_def split: prod.split)

text \<open>The recorded releases: what the hosts of the plan run, and what the ledger can restore.\<close>

definition recorded :: "multi_host_record \<Rightarrow> fleet_live \<Rightarrow> host_id \<Rightarrow> bool" where
  "recorded prior l h \<longleftrightarrow> mhr_active prior h \<noteq> None \<and> hl_release (fl_hosts l h) = mhr_active prior h"

text \<open>A batch at the state its progress slots describe.\<close>

definition in_progress :: "('w \<Rightarrow> fleet_live) \<Rightarrow> fleet_live \<Rightarrow> host_entry list \<Rightarrow> 'w ro_state \<Rightarrow> bool" where
  "in_progress live l batch x \<longleftrightarrow> (\<forall>e\<in>set batch. \<exists>p. ro_progress (fst x) (ent_host e) = Some p \<and>
     progressed (fl_hosts l (ent_host e)) p (at_host live (ent_host e) (snd x)))"

lemma restore_batch_run:
  assumes "fleet_reads live (rs_deploy sh)" and "fleet_writes live (rs_deploy sh) (mhr_active (rs_prior sh))"
    and "distinct (map ent_host batch)" and "\<And>e. e \<in> set batch \<Longrightarrow> recorded (rs_prior sh) l (ent_host e)"
    and "in_progress live l batch (rt, w)"
  obtains w' where "restore_batch sched sh batch (rt, w) = (Inr (), rt, w')"
    "\<And>e. e \<in> set batch \<Longrightarrow> at_host live (ent_host e) w' = fl_hosts l (ent_host e)"
    "\<And>h. h \<notin> ent_host ` set batch \<Longrightarrow> at_host live h w' = at_host live h w"
    "fl_revision (live w') = fl_revision (live w)"
proof -
  obtain rs w' where join: "join_all (sched w) (map (restore_host sh (ro_progress rt)) batch) w = (rs, w')" by fastforce
  have own: "tholds (restore_host sh (ro_progress rt) e) (at_host live (ent_host e))
      (\<lambda>r o3. r = Inr () \<and> o3 = fl_hosts l (ent_host e)) (at_host live (ent_host e) w)" if e: "e \<in> set batch" for e
  proof -
    obtain p where p: "ro_progress rt (ent_host e) = Some p" "progressed (fl_hosts l (ent_host e)) p (at_host live (ent_host e) w)"
      using assms(5) e by (auto simp: in_progress_def)
    obtain a where a: "mhr_active (rs_prior sh) (ent_host e) = Some a" "hl_release (fl_hosts l (ent_host e)) = Some a"
      using assms(4) [OF e] by (auto simp: recorded_def)
    show ?thesis by (rule restore_host_holds) (rule assms a p)+
  qed
  note fj = fleet_join [OF assms(3) own tkeeps_host(3,4) [OF assms(1,2)] join]
  have "errs rs = []" using fj(1,2) by (auto simp: errs_Nil in_set_conv_nth)
  then have "restore_batch sched sh batch (rt, w) = (Inr (), rt, w')"
    using join by (simp add: restore_batch_def get_run_def and_then_def join_step_run Let_def)
  moreover have "at_host live (ent_host e) w' = fl_hosts l (ent_host e)" if "e \<in> set batch" for e
    using fj(2) that by (auto simp: in_set_conv_nth)
  ultimately show ?thesis using that fj(3,4) by blast
qed

lemma run_rollout_run:
  assumes "fleet_reads live (rs_deploy sh)" and "fleet_writes live (rs_deploy sh) (mhr_active (rs_prior sh))"
    and "distinct (map ent_host batch)" and "\<And>e. e \<in> set batch \<Longrightarrow> recorded (rs_prior sh) l (ent_host e)"
    and start: "\<And>e. e \<in> set batch \<Longrightarrow> at_host live (ent_host e) w = fl_hosts l (ent_host e)"
    and run: "run_rollout sched sh batch (rt, w) = (r, rt', w')"
  shows "\<exists>P. rt' = rt\<lparr>ro_progress := P\<rparr> \<and> (\<forall>h. h \<notin> ent_host ` set batch \<longrightarrow> P h = ro_progress rt h)"
    "\<And>h. h \<notin> ent_host ` set batch \<Longrightarrow> at_host live h w' = at_host live h w"
    "fl_revision (live w') = fl_revision (live w)"
    "is_ok r \<Longrightarrow> in_progress live l batch (rt', w')"
    "is_ok r \<Longrightarrow> e \<in> set batch \<Longrightarrow> advanced_to (ro_staged rt) (ent_host e) (fl_hosts l (ent_host e)) (at_host live (ent_host e) w')"
    "\<not> is_ok r \<Longrightarrow> live w' = live w"
proof -
  let ?hs = "map ent_host batch"
  obtain rs w1 where join: "join_all (sched w) (map (advance_host sh (ro_staged rt)) batch) w = (rs, w1)" by fastforce
  have own: "tholds (advance_host sh (ro_staged rt) e) (at_host live (ent_host e))
      (advance_post (ro_staged rt) (ent_host e) (fl_hosts l (ent_host e))) (at_host live (ent_host e) w)" if "e \<in> set batch" for e
    unfolding start [OF that] by (rule advance_host_holds [OF assms(1,2)])
  note fj = fleet_join [OF assms(3) own tkeeps_host(1,2) [OF assms(1,2)] join]
  define P where "P = merge_progress (zip ?hs (map snd rs)) (ro_progress rt)"
  have other: "h \<notin> ent_host ` set batch \<Longrightarrow> P h = ro_progress rt h" for h by (simp add: P_def merge_progress_other)
  have slot: "P (ent_host (batch ! i)) = Some (snd (rs ! i))" if "i < length batch" for i
    using merge_progress_nth [of ?hs "map snd rs" i "ro_progress rt"] that assms(3) fj(1) by (simp add: P_def)
  have prog: "in_progress live l batch (rt\<lparr>ro_progress := P\<rparr>, w1)"
    using fj(2) slot by (auto simp: in_progress_def in_set_conv_nth advance_post_def)
  obtain w2 where rb: "restore_batch sched sh batch (rt\<lparr>ro_progress := P\<rparr>, w1) = (Inr (), rt\<lparr>ro_progress := P\<rparr>, w2)"
    and b: "\<And>e. e \<in> set batch \<Longrightarrow> at_host live (ent_host e) w2 = fl_hosts l (ent_host e)"
      "\<And>h. h \<notin> ent_host ` set batch \<Longrightarrow> at_host live h w2 = at_host live h w1" "fl_revision (live w2) = fl_revision (live w1)"
    by (rule restore_batch_run [OF assms(1-4) prog]) blast+
  have eqn: "run_rollout sched sh batch (rt, w) =
      (if errs (map fst rs) = [] then (Inr (), rt\<lparr>ro_progress := P\<rparr>, w1)
       else (Inl (StepFailed ''rollout'' (show_nat (length (errs (map fst rs))) @ '' host(s) failed to advance: '' @
          join ''; '' (map show_saga_error (errs (map fst rs))))), rt\<lparr>ro_progress := P\<rparr>, w2))"
    using join rb by (simp add: run_rollout_def get_run_def modify_run_def and_then_def join_step_run Let_def P_def result_of_def)
  then have res: "r = (if errs (map fst rs) = [] then Inr () else r)" "rt' = rt\<lparr>ro_progress := P\<rparr>"
    "is_ok r \<longleftrightarrow> errs (map fst rs) = []" "w' = (if errs (map fst rs) = [] then w1 else w2)"
    using run by (auto split: if_splits)
  show "\<exists>P. rt' = rt\<lparr>ro_progress := P\<rparr> \<and> (\<forall>h. h \<notin> ent_host ` set batch \<longrightarrow> P h = ro_progress rt h)"
    using res(2) other by blast
  show "\<And>h. h \<notin> ent_host ` set batch \<Longrightarrow> at_host live h w' = at_host live h w"
    "fl_revision (live w') = fl_revision (live w)" using res(4) b fj(3,4) by auto
  show "is_ok r \<Longrightarrow> in_progress live l batch (rt', w')" using prog res by simp
  show "\<not> is_ok r \<Longrightarrow> live w' = live w"
  proof -
    assume "\<not> is_ok r"
    then have "w' = w2" using res by simp
    moreover have "at_host live h w2 = at_host live h w" for h
      using b(1,2) start fj(3) by (cases "h \<in> ent_host ` set batch") auto
    ultimately show ?thesis using b(3) fj(4) by (intro fleet_live.equality) (auto simp: fun_eq_iff)
  qed
  assume ok: "is_ok r" and "e \<in> set batch"
  then obtain i where i: "i < length batch" "e = batch ! i" by (auto simp: in_set_conv_nth)
  moreover have "is_ok (fst (rs ! i))"
    using ok res(3) fj(1) i by (auto simp: errs_Nil)
  ultimately show "advanced_to (ro_staged rt) (ent_host e) (fl_hosts l (ent_host e)) (at_host live (ent_host e) w')"
    using fj(2) [of i] ok res(3,4) by (simp add: advance_post_def)
qed

section \<open>The saga\<close>

lemma map_leI: "(\<And>h. m h = None \<or> m h = m' h) \<Longrightarrow> m \<subseteq>\<^sub>m m'"
  unfolding map_le_def by (metis domIff)

text \<open>
  Agreement: the same things are live, and what the compensations read back (the captured revision,
  the progress slots) is still there, with no host given up.
\<close>

definition fleet_agree :: "('w \<Rightarrow> fleet_live) \<Rightarrow> 'w ro_state \<Rightarrow> 'w ro_state \<Rightarrow> bool" where
  "fleet_agree live x y \<longleftrightarrow> live (snd x) = live (snd y) \<and>
     (ro_previous (fst x) = None \<or> ro_previous (fst x) = ro_previous (fst y)) \<and>
     (ro_progress (fst x) \<subseteq>\<^sub>m ro_progress (fst y)) \<and> ro_unrecoverable (fst x) = ro_unrecoverable (fst y)"

definition front :: "host_entry list list \<Rightarrow> nat \<Rightarrow> host_id set" where
  "front batches k = ent_host ` set (concat (take k batches))"

lemma front_simps: "front batches 0 = {}" "k < length batches \<Longrightarrow> front batches (Suc k) = front batches k \<union> ent_host ` set (batches ! k)"
  by (auto simp: front_def take_Suc_conv_app_nth)

definition mh_before ::
  "('w \<Rightarrow> fleet_live) \<Rightarrow> fleet_live \<Rightarrow> host_entry list list \<Rightarrow> nat \<Rightarrow> 'w ro_state \<Rightarrow> bool" where
  "mh_before live l batches i x \<longleftrightarrow>
     (i \<le> 2 \<longrightarrow> ro_previous (fst x) = None \<and> live (snd x) = l) \<and>
     (\<forall>h. h \<notin> front batches (i - 3) \<longrightarrow> ro_progress (fst x) h = None \<and> at_host live h (snd x) = fl_hosts l h) \<and>
     (\<forall>h\<in>front batches (i - 3). advanced_to (ro_staged (fst x)) h (fl_hosts l h) (at_host live h (snd x)))"

lemma rollout_undoable:
  assumes "fleet_reads live d" and "fleet_writes live d (mhr_active prior)"
    and dist: "distinct (map ent_host (concat batches))" and "\<And>e. e \<in> set (concat batches) \<Longrightarrow> recorded prior l (ent_host e)"
    and k: "k < length batches"
  shows "undoable (mh_before live l batches (3 + k)) (mh_before live l batches (4 + k)) (fleet_agree live) ctx
    (mh_step env sched (rollout_shared_new d prior) (MhRollout name (batches ! k)))"
proof -
  let ?sh = "rollout_shared_new d prior" and ?b = "batches ! k"
  have sh: "rs_deploy ?sh = d" "rs_prior ?sh = prior" by (simp_all add: rollout_shared_new_def)
  have split: "concat batches = concat (take k batches) @ ?b @ concat (drop (Suc k) batches)"
    by (metis k id_take_nth_drop concat_append concat.simps(2))
  have "distinct (map ent_host (concat (take k batches)) @ map ent_host ?b @ map ent_host (concat (drop (Suc k) batches)))"
    using dist by (metis split map_append)
  then have b: "distinct (map ent_host ?b)" and new: "h \<in> ent_host ` set ?b \<Longrightarrow> h \<notin> front batches k" for h
    unfolding distinct_append set_append set_map front_def by blast+
  have rec: "recorded (rs_prior ?sh) l (ent_host e)" if "e \<in> set ?b" for e using that assms(4) split sh by (metis Un_iff set_append)
  have start: "at_host live h (snd x) = fl_hosts l h" "ro_progress (fst x) h = None"
    if "mh_before live l batches (3 + k) x" "h \<in> ent_host ` set ?b" for x h
    using that(1) new [OF that(2)] by (auto simp: mh_before_def)
  have fleet: "fleet_reads live (rs_deploy ?sh)" "fleet_writes live (rs_deploy ?sh) (mhr_active (rs_prior ?sh))" using assms(1,2) sh by simp_all
  show ?thesis
  proof (rule undoableI)
    fix x x' assume P: "mh_before live l batches (3 + k) x"
      and fwd: "forward (mh_step env sched ?sh (MhRollout name ?b)) ctx x = (Inr (), x')"
    then have run: "run_rollout sched ?sh ?b (fst x, snd x) = (Inr (), fst x', snd x')" by (simp add: mh_step_def)
    note f = run_rollout_run [OF fleet b rec start(1) [OF P imageI] run, simplified]
    obtain Q where Q: "fst x' = (fst x)\<lparr>ro_progress := Q\<rparr>" "\<And>h. h \<notin> ent_host ` set ?b \<Longrightarrow> Q h = ro_progress (fst x) h" using f(1) by blast
    show "mh_before live l batches (4 + k) x'"
    proof -
      have "at_host live h (snd x') = at_host live h (snd x)" if "h \<in> front batches k" for h using f(2) [of h] new [of h] that by blast
      with P f(2,5) Q new show ?thesis by (auto simp: mh_before_def front_simps(2) [OF k])
    qed
    fix y assume ag: "fleet_agree live x' y"
    have pr: "in_progress live l ?b (fst y, snd y)"
      using f(4) ag by (auto simp: in_progress_def fleet_agree_def map_le_def dom_def)
    obtain w' where c: "restore_batch sched ?sh ?b (fst y, snd y) = (Inr (), fst y, w')"
      and w': "\<And>e. e \<in> set ?b \<Longrightarrow> at_host live (ent_host e) w' = fl_hosts l (ent_host e)"
        "\<And>h. h \<notin> ent_host ` set ?b \<Longrightarrow> at_host live h w' = at_host live h (snd y)" "fl_revision (live w') = fl_revision (live (snd y))"
      by (rule restore_batch_run [OF fleet b rec pr]) blast+
    have "at_host live h w' = at_host live h (snd x)" for h
      using w'(1,2) start(1) [OF P] f(2) ag by (cases "h \<in> ent_host ` set ?b") (auto simp: fleet_agree_def)
    then have "live w' = live (snd x)"
      using w'(3) f(3) ag by (intro fleet_live.equality) (auto simp: fun_eq_iff fleet_agree_def)
    moreover have "ro_progress (fst x) \<subseteq>\<^sub>m ro_progress (fst y)"
    proof -
      have "ro_progress (fst x) h = None \<or> ro_progress (fst x) h = ro_progress (fst x') h" for h
        using Q start(2) [OF P, of h] by (cases "h \<in> ent_host ` set ?b") simp_all
      then have "ro_progress (fst x) \<subseteq>\<^sub>m ro_progress (fst x')" by (rule map_leI)
      then show ?thesis using ag map_le_trans by (auto simp: fleet_agree_def)
    qed
    ultimately show "\<exists>y'. compensate (mh_step env sched ?sh (MhRollout name ?b)) ctx y = (Inr (), y') \<and> fleet_agree live x y'"
      using c ag Q(1) by (auto simp: mh_step_def fleet_agree_def)
  next
    fix x e x' assume P: "mh_before live l batches (3 + k) x"
      and fwd: "forward (mh_step env sched ?sh (MhRollout name ?b)) ctx x = (Inl e, x')"
    then have run: "run_rollout sched ?sh ?b (fst x, snd x) = (Inl e, fst x', snd x')" by (simp add: mh_step_def)
    note f = run_rollout_run [OF fleet b rec start(1) [OF P imageI] run, simplified]
    from f(1) obtain Q where Q: "fst x' = (fst x)\<lparr>ro_progress := Q\<rparr>" "\<And>h. h \<notin> ent_host ` set ?b \<Longrightarrow> Q h = ro_progress (fst x) h" by blast
    have "ro_progress (fst x) h = None \<or> ro_progress (fst x) h = Q h" for h
      using Q start(2) [OF P, of h] by (cases "h \<in> ent_host ` set ?b") simp_all
    then have "ro_progress (fst x) \<subseteq>\<^sub>m Q" by (rule map_leI)
    moreover have "live (snd x') = live (snd x)" by (rule run_rollout_run(6) [OF fleet b rec start(1) [OF P imageI] run]) simp_all
    ultimately show "fleet_agree live x x'" using Q(1) by (simp add: fleet_agree_def)
  qed
qed

lemma keeps_join_step [keeps_intros]:
  "keeps (g \<circ> fst) (join_step sched ts)" "(\<And>t. t \<in> set ts \<Longrightarrow> tkeeps t obs) \<Longrightarrow> keeps (obs \<circ> snd) (join_step sched ts)"
proof -
  show "keeps (g \<circ> fst) (join_step sched ts)" by (auto simp: keeps_def join_step_run)
  assume k: "\<And>t. t \<in> set ts \<Longrightarrow> tkeeps t obs"
  have "obs (snd (join_all (sched w) ts w)) = obs w" for w
    using join_all_keeps [of ts obs "sched w" w] k by (metis prod.collapse)
  then show "keeps (obs \<circ> snd) (join_step sched ts)" by (auto simp: keeps_def join_step_run)
qed

lemma fleet_inert:
  assumes "forward step ctx = m" and "compensate step ctx = ok ()" and "keeps (live \<circ> snd) m"
    and "keeps ((\<lambda>rt. (ro_previous rt, ro_progress rt, ro_unrecoverable rt)) \<circ> fst) m"
    and "\<And>x x'. P x \<Longrightarrow> m x = (Inr (), x') \<Longrightarrow> live (snd x') = live (snd x) \<Longrightarrow> ro_previous (fst x') = ro_previous (fst x) \<Longrightarrow>
      ro_progress (fst x') = ro_progress (fst x) \<Longrightarrow> Q x'"
  shows "undoable P Q (fleet_agree live) ctx step"
proof -
  have same: "live (snd x') = live (snd x)" "ro_previous (fst x') = ro_previous (fst x)" "ro_progress (fst x') = ro_progress (fst x)"
    "ro_unrecoverable (fst x') = ro_unrecoverable (fst x)" if "m x = (r, x')" for x r x'
    using keepsD [OF assms(3) that] keepsD [OF assms(4) that] by simp_all
  show ?thesis
    by (rule undoableI) (use assms(1,2,5) same in \<open>auto simp: fleet_agree_def\<close>)
qed

lemma mh_migrate_undoable:
  assumes "fleet_reads live d" and "schema_writes live d" and "owns_database (mhd_migration d) \<longrightarrow> fl_revision l \<noteq> None"
  shows "undoable (mh_before live l batches 2) (mh_before live l batches 3) (fleet_agree live) ctx
    (mh_step env sched (rollout_shared_new d prior) MhMigrate)"
proof (rule undoableI)
  let ?sh = "rollout_shared_new d prior" and ?m = "mhd_migration d" and ?c = "mhd_ctx d"
  have cur: "current_revision ?m c w = (Inr r, w') \<Longrightarrow> r = fl_revision (live w)"
    "current_revision ?m c w = (q, w') \<Longrightarrow> live w' = live w" for c w r q w'
    using assms(1) keepsD [OF reads_keep(4) [OF assms(1)]] unfolding fleet_reads_def by metis+
  have upl: "up ?m c t w = (q, w') \<Longrightarrow> fl_hosts (live w') = fl_hosts (live w)" "up ?m c t w = (Inl e, w') \<Longrightarrow> live w' = live w"
    "\<not> owns_database ?m \<Longrightarrow> up ?m c t w = (q, w') \<Longrightarrow> live w' = live w" for c t w q e w'
    using assms(2) keepsD unfolding schema_writes_def by (metis sum.exhaust)+
  have down: "\<exists>out w'. down_to ?m c r w = (Inr out, w') \<and> live w' = (live w)\<lparr>fl_revision := Some r\<rparr>" for c r w
    using assms(2) unfolding schema_writes_def by blast
  note defs = mh_step_def rollout_shared_new_def mh_run_migrate_def Let_def and_then_eq_Inr and_then_eq_Inl map_err_eq_Inl modify_run_def
  {
    fix x x' assume P: "mh_before live l batches 2 x" and fwd: "forward (mh_step env sched ?sh MhMigrate) ctx x = (Inr (), x')"
    obtain r w1 out w2 where c: "current_revision ?m ?c (snd x) = (Inr r, w1)" and u: "up ?m ?c (mhd_target d) w1 = (Inr out, w2)"
      and x': "snd x' = w2" "fst x' = (fst x)\<lparr>ro_previous := r, ro_new := or_else (mo_to out) r\<rparr>"
      using fwd by (cases x) (auto simp: defs)
    have l: "live (snd x) = l" "live w1 = l" "r = fl_revision l" "fl_hosts (live w2) = fl_hosts l"
      using cur [OF c] upl(1) [OF u] P by (auto simp: mh_before_def)
    show "mh_before live l batches 3 x'" using P l x' by (auto simp: mh_before_def front_simps)
    fix y assume ag: "fleet_agree live x' y"
    show "\<exists>y'. compensate (mh_step env sched ?sh MhMigrate) ctx y = (Inr (), y') \<and> fleet_agree live x y'"
    proof (cases "owns_database ?m")
      case False
      then show ?thesis using upl(3) [OF False u] l x' ag P
        by (auto simp: mh_step_def mh_undo_migrate_def rollout_shared_new_def fleet_agree_def mh_before_def Let_def)
    next
      case True
      then obtain q where q: "r = Some q" using assms(3) l by auto
      then have py: "ro_previous (fst y) = Some q" using ag x' by (auto simp: fleet_agree_def)
      obtain o2 w3 where dn: "down_to ?m ?c q (snd y) = (Inr o2, w3)" "live w3 = (live (snd y))\<lparr>fl_revision := Some q\<rparr>" using down by blast
      have "live w3 = l" using dn(2) ag x' l q by (intro fleet_live.equality) (auto simp: fleet_agree_def)
      moreover have "compensate (mh_step env sched ?sh MhMigrate) ctx y = (Inr (), fst y, w3)"
        using True py dn(1) by (cases y) (simp add: mh_step_def mh_undo_migrate_def rollout_shared_new_def Let_def get_run_def
            and_then_def map_err_def map_ok_def on_world_def)
      ultimately show ?thesis using ag x' l P by (auto simp: fleet_agree_def mh_before_def)
    qed
  next
    fix x e x' assume P: "mh_before live l batches 2 x" and fwd: "forward (mh_step env sched ?sh MhMigrate) ctx x = (Inl e, x')"
    then have "live (snd x') = live (snd x)" "ro_progress (fst x') = ro_progress (fst x)" "ro_unrecoverable (fst x') = ro_unrecoverable (fst x)"
      by (cases x; cases x'; auto simp: defs dest!: cur(2) upl(2))+
    with P show "fleet_agree live x x'" by (auto simp: fleet_agree_def mh_before_def)
  }
qed

lemma mh_inert_keeps:
  assumes "fleet_reads live d"
  shows "keeps (live \<circ> snd) (mh_run_preflight env sched (rollout_shared_new d prior))" "keeps (g \<circ> fst) (mh_run_preflight env sched (rollout_shared_new d prior))"
    "keeps (live \<circ> snd) (mh_run_fetch sched (rollout_shared_new d prior))"
    "keeps (live \<circ> snd) (mh_run_verify sched (rollout_shared_new d prior))" "keeps (g \<circ> fst) (mh_run_verify sched (rollout_shared_new d prior))"
proof -
  let ?sh = "rollout_shared_new d prior"
  have sh: "rs_deploy ?sh = d" by (simp add: rollout_shared_new_def)
  have hook: "\<And>hook req w. gate_hook (mhd_policy d) = Some hook \<Longrightarrow> live (snd (hook req w)) = live w"
    and ready: "\<And>probe c. mhd_readiness d = Some probe \<Longrightarrow> keeps live (readiness_check env probe c)"
    using assms by (auto simp: fleet_reads_def intro: keeps_readiness_check)
  note reads = reads_keep [OF assms]
  have tasks: "\<And>e. tkeeps (probe_host ?sh e) live" "\<And>e. tkeeps (stage_host ?sh e) live" "\<And>e. tkeeps (smoke_host ?sh e) live"
    unfolding probe_host_def stage_host_def smoke_host_def sh by (intro task_intros reads)+
  show "keeps (live \<circ> snd) (mh_run_preflight env sched ?sh)" "keeps (g \<circ> fst) (mh_run_preflight env sched ?sh)"
    unfolding mh_run_preflight_def mh_inspect_def mh_run_policy_gate_def sh Let_def
    by (auto intro!: keeps_intros ready keeps_inspect reads keeps_admit hook tasks)
  show "keeps (live \<circ> snd) (mh_run_fetch sched ?sh)"
    unfolding mh_run_fetch_def by (auto intro!: keeps_intros tasks split: prod.split)
  show "keeps (live \<circ> snd) (mh_run_verify sched ?sh)" "keeps (g \<circ> fst) (mh_run_verify sched ?sh)"
    unfolding mh_run_verify_def sh Let_def by (auto intro!: keeps_intros reads tasks)
qed

lemma mh_fetch_keeps_run:
  "keeps ((\<lambda>rt. (ro_previous rt, ro_progress rt, ro_unrecoverable rt)) \<circ> fst) (mh_run_fetch sched sh)"
  unfolding mh_run_fetch_def by (auto intro!: keeps_intros split: prod.split)

lemma undoable_steps_append:
  "undoable_steps I agree ctx i (xs @ ys) \<longleftrightarrow> undoable_steps I agree ctx i xs \<and> undoable_steps I agree ctx (i + length xs) ys"
  by (induction xs arbitrary: i) auto

lemma undoable_steps_nth:
  "undoable_steps I agree ctx i xs \<longleftrightarrow> (\<forall>j<length xs. undoable (I (i + j)) (I (Suc (i + j))) agree ctx (xs ! j))"
proof (induction xs arbitrary: i)
  case (Cons x xs)
  show ?case by (simp add: Cons.IH All_less_Suc2)
qed simp

abbreviation inventory_of :: "'w multi_host_deploy \<Rightarrow> host_entry list" where
  "inventory_of d \<equiv> inv_hosts (plan_inventory (mhd_plan d))"

abbreviation batches_of :: "'w multi_host_deploy \<Rightarrow> host_entry list list" where
  "batches_of d \<equiv> plan_batches (plan_strategy (mhd_plan d)) (inventory_of d)"

lemma batches_concat: "concat (batches_of d) = inventory_of d"
  by (cases "plan_strategy (mhd_plan d)") (simp_all add: chunks_concat)

lemma mh_steps_undoable:
  assumes "fleet_reads live d" and "fleet_writes live d (mhr_active prior)" and "schema_writes live d"
    and "owns_database (mhd_migration d) \<longrightarrow> fl_revision l \<noteq> None"
    and "distinct (map ent_host (inventory_of d))" and "\<And>e. e \<in> set (inventory_of d) \<Longrightarrow> recorded prior l (ent_host e)"
  shows "undoable_steps (mh_before live l (batches_of d)) (fleet_agree live) ctx 0 (mh_steps env sched d prior)"
proof -
  let ?sh = "rollout_shared_new d prior" and ?bs = "batches_of d"
  let ?I = "mh_before live l ?bs" and ?ag = "fleet_agree live"
  note inert = mh_inert_keeps [OF assms(1)]
  have "undoable (?I 0) (?I (Suc 0)) ?ag ctx (mh_step env sched ?sh MhPreflight)"
    by (rule fleet_inert [OF _ _ inert(1,2)]) (auto simp: mh_step_def mh_before_def front_simps)
  moreover have "undoable (?I (Suc 0)) (?I 2) ?ag ctx (mh_step env sched ?sh MhFetch)"
    by (rule fleet_inert [OF _ _ inert(3) mh_fetch_keeps_run]) (auto simp: mh_step_def mh_before_def front_simps)
  moreover note mh_migrate_undoable [OF assms(1,3,4), of ?bs ctx env sched prior]
  moreover have "undoable_steps ?I ?ag ctx 3 (map (\<lambda>(index, batch). rollout_step env sched ?sh (index + 1) batch) (enumerate 0 ?bs))"
    unfolding undoable_steps_nth using rollout_undoable [OF assms(1,2), of ?bs l _ ctx env sched] assms(5,6)
    by (simp add: batches_concat nth_enumerate_eq rollout_step_def)
  moreover have "undoable (?I (3 + length ?bs)) (?I (Suc (3 + length ?bs))) ?ag ctx (mh_step env sched ?sh MhVerify)"
  proof (rule fleet_inert [OF _ _ inert(4,5)])
    fix x x' assume "?I (3 + length ?bs) x" and run: "mh_run_verify sched ?sh x = (Inr (), x')"
    moreover have "ro_staged (fst x') = ro_staged (fst x)"
      using keepsD [OF inert(5) run, of ro_staged] by simp
    moreover have "front ?bs (Suc (length ?bs)) = front ?bs (length ?bs)" by (simp add: front_def)
    moreover assume "live (snd x') = live (snd x)" "ro_progress (fst x') = ro_progress (fst x)"
    ultimately show "?I (Suc (3 + length ?bs)) x'" by (auto simp: mh_before_def)
  qed (simp_all add: mh_step_def)
  ultimately show ?thesis
    by (simp add: mh_steps_def Let_def undoable_steps_append numeral_2_eq_2 numeral_3_eq_3)
qed

section \<open>A run\<close>

abbreviation mh_key :: "'w multi_host_deploy \<Rightarrow> fraise_key" where
  "mh_key d \<equiv> key_new (mhd_fraise d) (mhd_environment d)"

definition mh_ledger :: "'j mh_codec \<Rightarrow> 'j option \<Rightarrow> multi_host_error + multi_host_record" where
  "mh_ledger c j = (case j of Some v \<Rightarrow> mh_ledger_result (from_value c v) | None \<Rightarrow> Inr multi_host_record_default)"

lemma mh_saga_simps [simp]:
  "sg_store (mh_saga env sched store d prior) = store" "sg_key (mh_saga env sched store d prior) = mh_key d"
  "sg_steps (mh_saga env sched store d prior) = mh_steps env sched d prior"
  by (simp_all add: mh_saga_def saga_new_def with_steps_def)

context reliable_store
begin

lemma mh_run_spec:
  assumes "valid s" and "\<not> sv_locked (view s) (slot (mh_key d))" and "codec_ok c"
    and "mh_ledger c (sv_snapshot (view s) (slot (mh_key d))) = Inr prior"
  obtains out rt s1 s' w' ts v where "mh_run pf env sched c st d (s, w) = (Inr (finalize rt out), s', w')"
    "saga_spec pf \<lparr>sc_key = mh_key d\<rparr> [] (mh_steps env sched d prior) (rollout_runtime_default, w) = (out, ts, rt, w')"
    "valid s'" "advanced (slot (mh_key d)) (chain Idle ts) ts (view s) v"
    "if finalize rt out = OutcomeCommitted
     then \<exists>j. to_value c (mh_committed_record rt) = Inr j \<and> mh_ledger c (Some j) = Inr (mh_committed_record rt) \<and>
       view s' = set_snapshot (slot (mh_key d)) j v
     else view s' = v"
proof -
  let ?k = "mh_key d"
  obtain j s1 where snap: "current_snapshot st ?k s = (Inr j, s1)"
    using current_snapshot_total [OF assms(1)] by (metis is_ok_iff prod.collapse)
  have v1: "valid s1" "view s1 = view s" "j = sv_snapshot (view s) (slot ?k)"
    using current_snapshot_ok [OF assms(1) snap] by auto
  have rd: "mh_read_prior c st ?k s = (Inr prior, s1)"
    using snap assms(4) v1(3) by (auto simp: mh_read_prior_def and_then_def map_err_def mh_ledger_def split: option.splits)
  obtain out s2 rt w' where sg: "run_with_state pf (mh_saga env sched st d prior) (s1, rollout_runtime_default, w) = (Inr out, s2, rt, w')"
    by (rule run_total [where sg = "mh_saga env sched st d prior" and s = s1 and pf = pf and x = "(rollout_runtime_default, w)"])
      (use v1 assms(2) in \<open>auto simp: prod_eq_iff\<close>)
  from run_ok [OF _ v1(1) sg] obtain ts where v2: "valid s2"
    and spec: "saga_spec pf \<lparr>sc_key = ?k\<rparr> [] (mh_steps env sched d prior) (rollout_runtime_default, w) = (out, ts, rt, w')"
    and adv: "advanced (slot ?k) (chain Idle ts) ts (view s1) (view s2)"
    by auto
  obtain u where u: "to_value c (mh_committed_record rt) = Inr u" "from_value c u = Inr (mh_committed_record rt)"
    using assms(3) unfolding codec_ok_def by blast
  obtain s3 where s3: "record_snapshot st ?k u s2 = (Inr (), s3)"
    using record_snapshot_total [OF v2] by (metis (full_types) is_ok_iff old.unit.exhaust prod.collapse)
  let ?s' = "if finalize rt out = OutcomeCommitted then s3 else s2"
  have rc: "mh_record_commit c st ?k (finalize rt out) rt s2 = (Inr (), ?s')"
    using u s3 by (auto simp: mh_record_commit_def and_then_def map_err_def mh_ledger_result_def)
  have "mh_run pf env sched c st d (s, w) = (Inr (finalize rt out), ?s', w')"
    using rd sg rc by (simp add: mh_run_def Let_def and_then_def run_mh_saga_def on_fst_def)
  moreover have "valid ?s'" "view s3 = set_snapshot (slot ?k) u (view s2)" using v2 record_snapshot_ok [OF v2 s3] by auto
  moreover have "mh_ledger c (Some u) = Inr (mh_committed_record rt)" using u by (simp add: mh_ledger_def mh_ledger_result_def)
  ultimately show ?thesis using that [of rt out ?s' w' ts "view s2"] spec adv v1(2) u(1) by auto
qed

end

lemma mh_start: "mh_before live (live w) batches 0 (rollout_runtime_default, w)"
  by (simp add: mh_before_def rollout_runtime_default_def front_simps)

lemma finalize_clean: "ro_unrecoverable rt = None \<Longrightarrow> finalize rt out = out"
  by (cases out) (simp_all add: finalize_def)

text \<open>A committed run has no host it gave up: the outcome is what the driver reports.\<close>

lemma finalize_committed [simp]: "finalize rt OutcomeCommitted = OutcomeCommitted"
  by (simp add: finalize_def)

lemma front_all: "front batches (length batches) = ent_host ` set (concat batches)" "front batches (Suc (length batches)) = ent_host ` set (concat batches)"
  by (simp_all add: front_def)

text \<open>A fleet of hosts to instantiate the theorems with: what is live is all there is.\<close>

definition demo_fleet :: "string \<Rightarrow> fleet_live" where
  "demo_fleet v = \<lparr>fl_hosts = (\<lambda>_. \<lparr>hl_release = Some \<lparr>sa_artifact = \<lparr>ar_id = v, ar_checksum = None\<rparr>, sa_path = v\<rparr>,
     hl_member = \<lparr>lb_state_of = InPool, lb_weight = None\<rparr>\<rparr>), fl_revision = Some v\<rparr>"

definition demo_release :: "string \<Rightarrow> staged_artifact" where
  "demo_release v = \<lparr>sa_artifact = \<lparr>ar_id = v, ar_checksum = None\<rparr>, sa_path = v\<rparr>"

text \<open>\<open>sick\<close> are the hosts the new release does not start on, \<open>lost\<close> those that can no longer activate \<open>v1\<close>.\<close>

definition demo_rollout :: "host_id list \<Rightarrow> host_id list \<Rightarrow> fleet_live multi_host_deploy" where
  "demo_rollout sick lost =
     \<lparr>mhd_fraise = ''app'', mhd_environment = ''prod'',
      mhd_plan = \<lparr>plan_inventory = \<lparr>inv_hosts = [host_entry_new ''a'' ''10.0.0.1'', host_entry_new ''b'' ''10.0.0.2'']\<rparr>,
        plan_strategy = Rolling 1\<rparr>,
      mhd_ctx = ctx_new ''app'' ''prod'', mhd_target = None, mhd_lint = False, mhd_policy = gate_default, mhd_readiness = None,
      mhd_artifact = \<lparr>stage = (\<lambda>_ _. ok (demo_release ''v2'')),
        activate = (\<lambda>_ h a w. if h \<in> set lost \<and> a = demo_release ''v1'' then (Inl (adapter_error_new Execution ''gone''), w)
          else (Inr (), upd_host h (hl_release_update (\<lambda>_. Some a)) w)),
        current_artifact = (\<lambda>_ _. ok None)\<rparr>,
      mhd_migration = (no_database ''1'')\<lparr>current_revision := (\<lambda>_ w. (Inr (fl_revision w), w)),
        up := (\<lambda>_ _ w. (Inr (migration_outcome_default\<lparr>mo_to := Some ''v2''\<rparr>), w\<lparr>fl_revision := Some ''v2''\<rparr>)),
        down_to := (\<lambda>_ r w. (Inr migration_outcome_default, w\<lparr>fl_revision := Some r\<rparr>)), owns_database := True\<rparr>,
      mhd_service = \<lparr>restart = (\<lambda>_ _. ok ()), status = (\<lambda>_ _. ok \<lparr>running = True, ss_detail = None\<rparr>)\<rparr>,
      mhd_health = \<lparr>check = (\<lambda>_ h. ok \<lparr>healthy = (h \<notin> set sick), hs_detail = None\<rparr>)\<rparr>,
      mhd_lb = \<lparr>drain = (\<lambda>_ h w. (Inr (hl_member (fl_hosts w h)),
          upd_host h (hl_member_update (\<lambda>_. \<lparr>lb_state_of = Draining, lb_weight = None\<rparr>)) w)),
        reattach = (\<lambda>_ h m w. (Inr (), upd_host h (hl_member_update (\<lambda>_. m)) w))\<rparr>\<rparr>"

definition demo_mh_codec :: "multi_host_record mh_codec" where
  "demo_mh_codec = \<lparr>to_value = Inr, from_value = Inr\<rparr>"

definition demo_prior :: multi_host_record where
  "demo_prior = \<lparr>mhr_active = [''a'' \<mapsto> demo_release ''v1'', ''b'' \<mapsto> demo_release ''v1''], mhr_revision = Some ''v1''\<rparr>"

definition demo_mh_store :: "multi_host_record memory_inner" where
  "demo_mh_store = snd (mem_record_snapshot (\<lambda>_. 0) (key_new ''app'' ''prod'') demo_prior memory_new)"

definition demo_mh_clock :: "multi_host_record memory_inner platform" where
  "demo_mh_clock = \<lparr>now = (\<lambda>_. 0), uni_alnum = (\<lambda>_. False)\<rparr>"

lemma demo_mh_store_simps [simp]:
  "memory_valid (\<lambda>_. 0) demo_mh_store" "mi_locks demo_mh_store = {}"
  "mi_snapshots demo_mh_store (slug (\<lambda>_. 0) (key_new ''app'' ''prod'')) = Some demo_prior"
  using memory_valid_put_snapshot [OF memory_valid_new]
  by (simp_all add: demo_mh_store_def mem_record_snapshot_def Let_def memory_new_def)

lemma demo_mh_codec_simps [simp]:
  "codec_ok demo_mh_codec" "mh_ledger demo_mh_codec (Some r) = Inr r"
  by (simp_all add: codec_ok_def demo_mh_codec_def mh_ledger_def mh_ledger_result_def)

lemma demo_rollout_simps [simp]:
  "mhd_fraise (demo_rollout sick lost) = ''app''" "mhd_environment (demo_rollout sick lost) = ''prod''"
  "inventory_of (demo_rollout sick lost) = [host_entry_new ''a'' ''10.0.0.1'', host_entry_new ''b'' ''10.0.0.2'']"
  by (simp_all add: demo_rollout_def)

lemma demo_rollout_lawful:
  "fleet_reads (\<lambda>w. w) (demo_rollout sick [])" "fleet_writes (\<lambda>w. w) (demo_rollout sick []) act"
  "schema_writes (\<lambda>w. w) (demo_rollout sick lost)"
  by (auto simp: fleet_reads_def fleet_writes_def schema_writes_def demo_rollout_def no_database_def keeps_def default_preflight_def gate_default_def)

text \<open>
  C3: a rollout is all or nothing across the fleet. With lawful adapters, distinct host names and a
  ledger that records what every host runs, a multi-host deploy on a free lock always returns,
  whatever the strategy and however the hosts of a batch interleave. Either it commits: every host
  of the inventory runs the artifact staged for it, is back at its place in the load balancer, and
  exactly those artifacts are in the ledger. Or it rolls back completely: every host's release and
  membership and the revision of the database are what they were.
\<close>

theorem rollout_all_or_nothing:
  assumes "codec_ok c" and "memory_valid h s" and "slug h (mh_key d) \<notin> mi_locks s"
    and "mh_ledger c (mi_snapshots s (slug h (mh_key d))) = Inr prior"
    and "distinct (map ent_host (inventory_of d))" and "\<forall>e\<in>set (inventory_of d). recorded prior (live w) (ent_host e)"
    and "owns_database (mhd_migration d) \<longrightarrow> fl_revision (live w) \<noteq> None"
    and "fleet_reads live d" and "fleet_writes live d (mhr_active prior)" and "schema_writes live d"
  shows "\<exists>out s' w'. mh_run pf env sched c (memory_store h) d (s, w) = (Inr out, s', w') \<and>
    ((out = OutcomeCommitted \<and> (\<exists>r. mh_ledger c (mi_snapshots s' (slug h (mh_key d))) = Inr r \<and>
       (\<forall>e\<in>set (inventory_of d). advanced_to (mhr_active r) (ent_host e) (fl_hosts (live w) (ent_host e)) (fl_hosts (live w') (ent_host e))))) \<or>
     ((\<exists>n m. out = OutcomeRolledBack n m) \<and> live w' = live w))"
proof -
  let ?bs = "batches_of d"
  have view: "\<not> sv_locked (memory_view s) (slug h (mh_key d))" "mh_ledger c (sv_snapshot (memory_view s) (slug h (mh_key d))) = Inr prior"
    using assms(3,4) by (simp_all add: memory_view_def)
  obtain out rt s' w' ts v where run: "mh_run pf env sched c (memory_store h) d (s, w) = (Inr (finalize rt out), s', w')"
    and spec: "saga_spec pf \<lparr>sc_key = mh_key d\<rparr> [] (mh_steps env sched d prior) (rollout_runtime_default, w) = (out, ts, rt, w')"
    and led: "if finalize rt out = OutcomeCommitted
      then \<exists>j. to_value c (mh_committed_record rt) = Inr j \<and> mh_ledger c (Some j) = Inr (mh_committed_record rt) \<and>
        memory_view s' = set_snapshot (slug h (mh_key d)) j v
      else memory_view s' = v"
    by (rule mem.mh_run_spec [OF assms(2) view(1) assms(1) view(2), of pf env sched w]) blast
  have und: "undoable_steps (mh_before live (live w) ?bs) (fleet_agree live) \<lparr>sc_key = mh_key d\<rparr> 0 (mh_steps env sched d prior)"
    by (rule mh_steps_undoable) (use assms in auto)
  from saga_spec_undo [OF spec und mh_start] show ?thesis
  proof (elim disjE conjE)
    assume out: "out = OutcomeCommitted"
    have "mh_before live (live w) ?bs (0 + length (mh_steps env sched d prior)) (rt, w')"
      by (rule run_forward_inv [OF saga_spec_committed [OF spec [unfolded out]] und mh_start])
    moreover have "length (mh_steps env sched d prior) = Suc (length ?bs) + 3" by (simp add: mh_steps_def Let_def)
    ultimately have adv: "advanced_to (ro_staged rt) (ent_host e) (fl_hosts (live w) (ent_host e)) (fl_hosts (live w') (ent_host e))"
      if "e \<in> set (inventory_of d)" for e
      using that by (auto simp: mh_before_def front_all batches_concat)
    from led out obtain j where j: "mh_ledger c (Some j) = Inr (mh_committed_record rt)" "memory_view s' = set_snapshot (slug h (mh_key d)) j v" by auto
    then have "sv_snapshot (memory_view s') (slug h (mh_key d)) = Some j" by (simp add: set_snapshot_def)
    then have "mh_ledger c (mi_snapshots s' (slug h (mh_key d))) = Inr (mh_committed_record rt)" using j(1) by (simp add: memory_view_def)
    with adv run out show ?thesis by (auto simp: mh_committed_record_def)
  next
    assume rb: "\<exists>n m. out = OutcomeRolledBack n m" and ag: "fleet_agree live (rollout_runtime_default, w) (rt, w')"
    then have "finalize rt out = out" by (intro finalize_clean) (auto simp: fleet_agree_def rollout_runtime_default_def)
    with rb ag run show ?thesis by (auto simp: fleet_agree_def)
  qed
qed

theorem rollout_all_or_nothing_witness:
  "\<exists>out s' w'. mh_run demo_mh_clock Inl (\<lambda>_. [1, 0]) demo_mh_codec (memory_store (\<lambda>_. 0)) (demo_rollout [''b''] []) (demo_mh_store, demo_fleet ''v1'') =
      (Inr out, s', w') \<and>
    ((out = OutcomeCommitted \<and> (\<exists>r. mh_ledger demo_mh_codec (mi_snapshots s' (slug (\<lambda>_. 0) (key_new ''app'' ''prod''))) = Inr r \<and>
       advanced_to (mhr_active r) ''a'' (fl_hosts (demo_fleet ''v1'') ''a'') (fl_hosts w' ''a'') \<and>
       advanced_to (mhr_active r) ''b'' (fl_hosts (demo_fleet ''v1'') ''b'') (fl_hosts w' ''b''))) \<or>
     ((\<exists>n m. out = OutcomeRolledBack n m) \<and> w' = demo_fleet ''v1''))"
proof -
  let ?d = "demo_rollout [''b''] []"
  have "\<exists>out s' w'. mh_run demo_mh_clock Inl (\<lambda>_. [1, 0]) demo_mh_codec (memory_store (\<lambda>_. 0)) ?d (demo_mh_store, demo_fleet ''v1'') = (Inr out, s', w') \<and>
    ((out = OutcomeCommitted \<and> (\<exists>r. mh_ledger demo_mh_codec (mi_snapshots s' (slug (\<lambda>_. 0) (mh_key ?d))) = Inr r \<and>
       (\<forall>e\<in>set (inventory_of ?d). advanced_to (mhr_active r) (ent_host e) (fl_hosts (demo_fleet ''v1'') (ent_host e)) (fl_hosts w' (ent_host e))))) \<or>
     ((\<exists>n m. out = OutcomeRolledBack n m) \<and> w' = demo_fleet ''v1''))"
    by (rule rollout_all_or_nothing [where live = "\<lambda>w. w" and prior = demo_prior])
      (simp_all add: demo_rollout_lawful host_entry_new_def recorded_def demo_prior_def demo_fleet_def demo_release_def)
  then show ?thesis by (simp add: host_entry_new_def)
qed

text \<open>
  C32: the rest of the fleet stays live. With adapters whose calls for a host change at most that host (and reads that
  change nothing), while the hosts of a batch advance, at every moment of every
  interleaving, no host outside the batch and not the database either has changed.
\<close>

theorem batch_spares_the_rest:
  assumes "fleet_reads live (rs_deploy sh)" and "fleet_writes live (rs_deploy sh) act" and "host \<notin> ent_host ` set batch"
    and "run_schedule polls (map (advance_host sh staged) batch) w = (tasks, w')"
  shows "fl_hosts (live w') host = fl_hosts (live w) host \<and> fl_revision (live w') = fl_revision (live w)"
proof -
  let ?ts = "map (advance_host sh staged) batch"
  have "\<forall>t\<in>set ?ts. tkeeps t (at_host live host)" "\<forall>t\<in>set ?ts. tkeeps t (fl_revision \<circ> live)"
    using tkeeps_host(1,2) [OF assms(1,2)] assms(3) by (auto simp: image_iff)
  from run_schedule_keeps [OF this(1) assms(4)] run_schedule_keeps [OF this(2) assms(4)] show ?thesis by simp
qed

theorem batch_spares_the_rest_witness:
  "fl_hosts (snd (run_schedule [0, 0, 0] (map (advance_host (rollout_shared_new (demo_rollout [] []) demo_prior) [''a'' \<mapsto> demo_release ''v2''])
     [host_entry_new ''a'' ''10.0.0.1'']) (demo_fleet ''v1''))) ''b'' = fl_hosts (demo_fleet ''v1'') ''b''"
proof -
  obtain ts w' where "run_schedule [0, 0, 0] (map (advance_host (rollout_shared_new (demo_rollout [] []) demo_prior) [''a'' \<mapsto> demo_release ''v2''])
     [host_entry_new ''a'' ''10.0.0.1'']) (demo_fleet ''v1'') = (ts, w')" by fastforce
  with batch_spares_the_rest [where live = "\<lambda>w. w" and host = "''b''" and act = Map.empty, OF _ _ _ this] show ?thesis
    by (simp add: demo_rollout_lawful rollout_shared_new_def host_entry_new_def)
qed

section \<open>A host that cannot be restored\<close>

abbreviation lost_rollout :: "fleet_live rollout_shared" where
  "lost_rollout \<equiv> rollout_shared_new (demo_rollout [''b''] [''b'']) demo_prior"

lemmas demo_runs = demo_rollout_def rollout_shared_new_def and_then_def map_err_def map_ok_def on_world_def modify_run_def get_run_def
  join_step_def join_all_def Let_def no_database_def

lemma lost_preflight: "mh_run_preflight env (\<lambda>_. []) lost_rollout (rt, w) = (Inr (), rt, w)"
  by (simp add: mh_run_preflight_def mh_inspect_def mh_run_policy_gate_def mh_forward_compat_lint_def demo_runs inspection_default_def
      admit_def gate_default_def evaluate_def baseline_verdict_def probe_host_def await_def errs_def map_filter_simps)

lemma lost_fetch: "mh_run_fetch (\<lambda>_. []) lost_rollout (rt, w) =
    (Inr (), rt\<lparr>ro_staged := [''a'' \<mapsto> demo_release ''v2'', ''b'' \<mapsto> demo_release ''v2'']\<rparr>, w)"
  by (simp add: mh_run_fetch_def stage_host_def demo_runs await_def host_entry_new_def)

lemma lost_migrate: "mh_run_migrate lost_rollout (rt, w) =
    (Inr (), rt\<lparr>ro_previous := fl_revision w, ro_new := Some ''v2''\<rparr>, w\<lparr>fl_revision := Some ''v2''\<rparr>)"
  by (simp add: mh_run_migrate_def demo_runs migration_outcome_default_def)

lemma lost_undo_migrate: "ro_previous rt = Some r \<Longrightarrow> mh_undo_migrate lost_rollout (rt, w) = (Inr (), rt, w\<lparr>fl_revision := Some r\<rparr>)"
  by (simp add: mh_undo_migrate_def demo_runs)

lemma lost_batches: "plan_strategy (mhd_plan (demo_rollout sick lost)) = Rolling 1" "chunks (Suc 0) [x, y] = [[x], [y]]"
  by (simp_all add: demo_rollout_def chunks_rec)

text \<open>Where host \<open>h\<close> is left by a full advance, and by one that stops at the health check.\<close>

definition put :: "string \<Rightarrow> lb_membership \<Rightarrow> host_id \<Rightarrow> fleet_live \<Rightarrow> fleet_live" where
  "put v m h w = upd_host h (\<lambda>o1. o1\<lparr>hl_release := Some (demo_release v), hl_member := m\<rparr>) w"

abbreviation parked :: lb_membership where
  "parked \<equiv> \<lparr>lb_state_of = Draining, lb_weight = None\<rparr>"

lemma lost_rollout_a: "ro_staged rt ''a'' = Some (demo_release ''v2'') \<Longrightarrow>
   run_rollout (\<lambda>_. []) lost_rollout [host_entry_new ''a'' ''10.0.0.1''] (rt, w) =
    (Inr (), rt\<lparr>ro_progress := (ro_progress rt)(''a'' \<mapsto> \<lparr>drained = Some (hl_member (fl_hosts w ''a'')), activated = True, reattached = True\<rparr>)\<rparr>,
     put ''v2'' (hl_member (fl_hosts w ''a'')) ''a'' w)"
  by (cases "fl_hosts w ''a''") (simp add: run_rollout_def advance_host_def demo_runs await_try_def await_def host_entry_new_def errs_def
      map_filter_simps merge_progress_def progress_default_def put_def upd_host_def)

lemma lost_restore_a: "ro_progress rt ''a'' = Some \<lparr>drained = Some m, activated = True, reattached = True\<rparr> \<Longrightarrow>
   restore_batch (\<lambda>_. []) lost_rollout [host_entry_new ''a'' ''10.0.0.1''] (rt, w) = (Inr (), rt, put ''v1'' m ''a'' w)"
  by (simp add: restore_batch_def restore_host_def demo_runs await_try_def await_def host_entry_new_def errs_def map_filter_simps
      put_def upd_host_def demo_prior_def)

lemma releases_differ: "demo_release ''v2'' \<noteq> demo_release ''v1''"
  by (simp add: demo_release_def)

lemma lost_rollout_b: "ro_staged rt ''b'' = Some (demo_release ''v2'') \<Longrightarrow> ro_unrecoverable rt = None \<Longrightarrow>
   \<exists>e rt'. run_rollout (\<lambda>_. []) lost_rollout [host_entry_new ''b'' ''10.0.0.2''] (rt, w) = (Inl e, rt', put ''v2'' parked ''b'' w) \<and>
     ro_unrecoverable rt' \<noteq> None \<and> ro_previous rt' = ro_previous rt \<and> ro_progress rt' ''a'' = ro_progress rt ''a''"
  by (cases "fl_hosts w ''b''") (simp add: run_rollout_def advance_host_def restore_batch_def restore_host_def demo_runs await_try_def await_def host_entry_new_def errs_def map_filter_simps
      merge_progress_def progress_default_def put_def upd_host_def demo_prior_def result_of_def releases_differ)

lemma lost_spec:
  assumes "saga_spec pf ctx [] (mh_steps env (\<lambda>_. []) (demo_rollout [''b''] [''b'']) demo_prior) (rollout_runtime_default, demo_fleet ''v1'') =
    (out, ts, rt, w')"
  shows "(\<exists>n m. out = OutcomeRolledBack n m) \<and> ro_unrecoverable rt \<noteq> None \<and> fl_revision w' = Some ''v1'' \<and>
    fl_hosts w' ''b'' = \<lparr>hl_release = Some (demo_release ''v2''), hl_member = parked\<rparr>"
proof -
  let ?rt = "rollout_runtime_default\<lparr>ro_staged := [''a'' \<mapsto> demo_release ''v2'', ''b'' \<mapsto> demo_release ''v2''],
      ro_previous := Some ''v1'', ro_new := Some ''v2'',
      ro_progress := [''a'' \<mapsto> \<lparr>drained = Some \<lparr>lb_state_of = InPool, lb_weight = None\<rparr>, activated = True, reattached = True\<rparr>]\<rparr>"
  let ?w = "put ''v2'' \<lparr>lb_state_of = InPool, lb_weight = None\<rparr> ''a'' (demo_fleet ''v1''\<lparr>fl_revision := Some ''v2''\<rparr>)"
  obtain e rt' where b: "run_rollout (\<lambda>_. []) lost_rollout [host_entry_new ''b'' ''10.0.0.2''] (?rt, ?w) = (Inl e, rt', put ''v2'' parked ''b'' ?w)"
    "ro_unrecoverable rt' \<noteq> None" "ro_previous rt' = Some ''v1''" "ro_progress rt' ''a'' = ro_progress ?rt ''a''"
    using lost_rollout_b [of ?rt ?w] by (auto simp: rollout_runtime_default_def)
  show ?thesis
    using assms b
    by (simp add: saga_spec_def mh_steps_def Let_def lost_batches rollout_step_def mh_step_def lost_preflight lost_fetch lost_migrate
        lost_rollout_a back_spec_def lost_restore_a lost_undo_migrate rollout_runtime_default_def demo_fleet_def)
      (auto simp: put_def)
qed

text \<open>
  A host that cannot be restored does not stop the rollback. Host \<open>b\<close> runs the new release, fails
  its health check and can no longer activate the old one; the run reports a partial rollback, but
  the batches before it and the migration are undone all the same: \<open>b\<close> is left with the new release
  on the old schema. The state store meanwhile records the deploy as rolled back.
\<close>

theorem unrecoverable_host_on_old_schema:
  "\<exists>m s' w' ds. mh_run demo_mh_clock Inl (\<lambda>_. []) demo_mh_codec (memory_store (\<lambda>_. 0)) (demo_rollout [''b''] [''b''])
      (demo_mh_store, demo_fleet ''v1'') = (Inr (OutcomePartialRollback m), s', w') \<and>
    hl_release (fl_hosts w' ''b'') = Some (demo_release ''v2'') \<and> fl_revision w' = Some ''v1'' \<and>
    mem_current_state (\<lambda>_. 0) (key_new ''app'' ''prod'') s' = (Inr (Some ds), s') \<and> ds_state ds = RolledBack"
proof -
  let ?d = "demo_rollout [''b''] [''b'']" and ?a = "slug (\<lambda>_. 0) (key_new ''app'' ''prod'')"
  obtain out rt s' w' ts v where run: "mh_run demo_mh_clock Inl (\<lambda>_. []) demo_mh_codec (memory_store (\<lambda>_. 0)) ?d (demo_mh_store, demo_fleet ''v1'') =
      (Inr (finalize rt out), s', w')"
    and spec: "saga_spec demo_mh_clock \<lparr>sc_key = mh_key ?d\<rparr> [] (mh_steps Inl (\<lambda>_. []) ?d demo_prior) (rollout_runtime_default, demo_fleet ''v1'') = (out, ts, rt, w')"
    and adv: "advanced (slug (\<lambda>_. 0) (mh_key ?d)) (chain Idle ts) ts (memory_view demo_mh_store) v"
    and led: "if finalize rt out = OutcomeCommitted
      then \<exists>j. to_value demo_mh_codec (mh_committed_record rt) = Inr j \<and> mh_ledger demo_mh_codec (Some j) = Inr (mh_committed_record rt) \<and>
        memory_view s' = set_snapshot (slug (\<lambda>_. 0) (mh_key ?d)) j v
      else memory_view s' = v"
    by (rule mem.mh_run_spec [where s = demo_mh_store and h = "\<lambda>_. 0" and d = ?d and c = demo_mh_codec and prior = demo_prior
          and pf = demo_mh_clock and env = Inl and sched = "\<lambda>_. []" and w = "demo_fleet ''v1''"]) (simp_all add: memory_view_def)
  note l = lost_spec [OF spec]
  then obtain m where fin: "finalize rt out = OutcomePartialRollback m" by (auto simp: finalize_def)
  have last: "ts \<noteq> []" "last ts = RolledBack" using saga_spec_last [OF spec] l by auto
  have "map ds_state (sv_states (memory_view s') ?a) = map ds_state (sv_states (memory_view demo_mh_store) ?a) @ ts"
    using led fin advanced_frame(5) [OF adv] by simp
  with last have "sv_states (memory_view s') ?a \<noteq> []" "last (map ds_state (sv_states (memory_view s') ?a)) = RolledBack" by auto
  then obtain ds where "last_opt (sv_states (memory_view s') ?a) = Some ds" "ds_state ds = RolledBack" by (auto simp: last_opt_def last_map)
  then have "mem_current_state (\<lambda>_. 0) (key_new ''app'' ''prod'') s' = (Inr (Some ds), s')" "ds_state ds = RolledBack"
    by (auto simp: mem_current_state_def memory_view_def last_opt_def split: option.splits)
  with run l fin show ?thesis by auto
qed

end
