(* ===== verification/Db_Commands.thy ===== *)
theory Db_Commands
  imports Prelude
begin

text \<open>
  Connections and the command lines of the database tools (\<open>fraisier-db/src/lib.rs\<close>, the quoting of
  \<open>refresh.rs\<close> and \<open>tviews.rs\<close>). A command is a program, its arguments and the environment it sets.
  Parsing a DSN is the \<open>url\<close> package's and not modelled; a \<open>PgConn\<close> is given by its parts. What is shown:
  no secret reaches an argument, and no name escapes the quotes it is put in.
\<close>

section \<open>Connections\<close>

datatype db_error =
    DbParse string
  | DbUnsupportedScheme string
  | DbMissingDatabase
  | DbInvalidDatabaseName string
  | DbSpawn string string

text \<open>The messages; the ellipsis and the dash are three UTF-8 bytes each.\<close>

fun show_db_error :: "db_error \<Rightarrow> string" where
  "show_db_error (DbParse e) = ''could not parse the database DSN: '' @ e"
| "show_db_error (DbUnsupportedScheme s) =
     ''database lifecycle ops require a postgres:// DSN, but the configured one uses '' @ [CHR 0x27] @ s @ ''://'' @ [CHR 0x27]"
| "show_db_error DbMissingDatabase =
     ''the database DSN does not name a database (expected postgres://'' @ map char_of [226, 128, 166 :: nat] @ ''/<dbname>)''"
| "show_db_error (DbInvalidDatabaseName name) =
     [CHR 0x27] @ name @ [CHR 0x27] @ '' is not a valid database name (expected 1'' @ map char_of [226, 128, 147 :: nat] @
     ''63 chars of [A-Za-z0-9_], starting with a letter or underscore)''"
| "show_db_error (DbSpawn program source) = ''could not run `'' @ program @ ''` (is it installed and on PATH?): '' @ source"

record pg_conn =
  pg_host :: "string option"
  pg_port :: "nat option"
  pg_user :: "string option"
  pg_password :: "string option"
  pg_database :: string
  pg_sslmode :: "string option"

definition put_var :: "string \<Rightarrow> string option \<Rightarrow> (string \<times> string) list" where
  "put_var key value = (case value of Some v \<Rightarrow> [(key, v)] | None \<Rightarrow> [])"

definition pg_env :: "pg_conn \<Rightarrow> (string \<times> string) list" where
  "pg_env c =
     put_var ''PGHOST'' (pg_host c) @ put_var ''PGPORT'' (map_option show_nat (pg_port c)) @
     put_var ''PGUSER'' (pg_user c) @ put_var ''PGPASSWORD'' (pg_password c) @
     [(''PGDATABASE'', pg_database c)] @ put_var ''PGSSLMODE'' (pg_sslmode c)"

definition with_database :: "pg_conn \<Rightarrow> string \<Rightarrow> pg_conn" where
  "with_database c db = c\<lparr>pg_database := db\<rparr>"

definition redacted :: "pg_conn \<Rightarrow> string" where
  "redacted c =
     ''postgres://'' @ (case pg_user c of Some u \<Rightarrow> u @ ''@'' | None \<Rightarrow> []) @
     (case pg_host c of Some h \<Rightarrow> h | None \<Rightarrow> []) @
     (case pg_port c of Some p \<Rightarrow> '':'' @ show_nat p | None \<Rightarrow> []) @
     ''/'' @ pg_database c @ (case pg_sslmode c of Some m \<Rightarrow> ''?sslmode='' @ m | None \<Rightarrow> [])"

section \<open>Commands\<close>

record command =
  cmd_program :: string
  cmd_args :: "string list"
  cmd_env :: "(string \<times> string) list"

text \<open>\<open>str::replace\<close> of one character by a string.\<close>

definition replace_char :: "char \<Rightarrow> string \<Rightarrow> string \<Rightarrow> string" where
  "replace_char c r s = concat (map (\<lambda>x. if x = c then r else [x]) s)"

definition backslash :: char where "backslash = CHR 0x5C"
definition squote :: char where "squote = CHR 0x27"

definition conninfo_dbname :: "string \<Rightarrow> string" where
  "conninfo_dbname name =
     ''dbname='' @ [squote] @ replace_char squote [backslash, squote] (replace_char backslash [backslash, backslash] name) @ [squote]"

definition backup_command :: "pg_conn \<Rightarrow> string \<Rightarrow> command" where
  "backup_command conn out =
     \<lparr>cmd_program = ''pg_dump'', cmd_args = [''-Fc'', ''-w'', ''-f'', out], cmd_env = pg_env conn\<rparr>"

definition restore_command :: "pg_conn \<Rightarrow> string \<Rightarrow> bool \<Rightarrow> command" where
  "restore_command conn archive clean =
     \<lparr>cmd_program = ''pg_restore'',
      cmd_args = [''-w'', ''-d'', conninfo_dbname (pg_database conn)] @ (if clean then [''--clean'', ''--if-exists''] else []) @ [archive],
      cmd_env = pg_env conn\<rparr>"

definition psql_command :: "pg_conn \<Rightarrow> string \<Rightarrow> command" where
  "psql_command conn sql =
     \<lparr>cmd_program = ''psql'', cmd_args = [''-w'', ''-X'', ''-v'', ''ON_ERROR_STOP=1'', ''-c'', sql], cmd_env = pg_env conn\<rparr>"

definition ascii_alpha :: "char \<Rightarrow> bool" where
  "ascii_alpha c = (let n = of_char c :: nat in (65 \<le> n \<and> n \<le> 90) \<or> (97 \<le> n \<and> n \<le> 122))"

definition name_char :: "char \<Rightarrow> bool" where
  "name_char c \<longleftrightarrow> ascii_alnum c \<or> c = CHR ''_''"

definition validate_db_name :: "string \<Rightarrow> db_error + unit" where
  "validate_db_name name =
     (let head_ok = (case name of [] \<Rightarrow> False | c # _ \<Rightarrow> ascii_alpha c \<or> c = CHR ''_'');
          rest_ok = list_all name_char (tl name)
      in if head_ok \<and> rest_ok \<and> length name \<le> 63 then Inr () else Inl (DbInvalidDatabaseName name))"

definition quoted :: "string \<Rightarrow> string" where
  "quoted name = [dquote] @ name @ [dquote]"

definition create_database_command :: "pg_conn \<Rightarrow> string \<Rightarrow> db_error + command" where
  "create_database_command maintenance new_db =
     and_if_ok (validate_db_name new_db) (\<lambda>_. Inr (psql_command maintenance (''CREATE DATABASE '' @ quoted new_db)))"

definition create_database_owned_command :: "pg_conn \<Rightarrow> string \<Rightarrow> string \<Rightarrow> db_error + command" where
  "create_database_owned_command maintenance new_db owner =
     and_if_ok (validate_db_name new_db) (\<lambda>_. Inr (psql_command maintenance
       (''CREATE DATABASE '' @ quoted new_db @ '' OWNER '' @ quoted (replace_char dquote [dquote, dquote] owner))))"

definition drop_database_command :: "pg_conn \<Rightarrow> string \<Rightarrow> db_error + command" where
  "drop_database_command maintenance db =
     and_if_ok (validate_db_name db) (\<lambda>_. Inr (psql_command maintenance (''DROP DATABASE IF EXISTS '' @ quoted db @ '' WITH (FORCE)'')))"

record run_outcome =
  out_code :: "int option"
  out_stdout :: string
  out_stderr :: string

definition succeeded :: "run_outcome \<Rightarrow> bool" where
  "succeeded o' \<longleftrightarrow> out_code o' = Some 0"

section \<open>Quoting elsewhere in the crate\<close>

text \<open>\<open>ident\<close> of \<open>tviews.rs\<close> and \<open>literal\<close> of \<open>refresh.rs\<close>.\<close>

definition ident :: "string \<Rightarrow> string" where
  "ident name = quoted (replace_char dquote [dquote, dquote] name)"

definition literal :: "string \<Rightarrow> string" where
  "literal v = [squote] @ replace_char squote [squote, squote] v @ [squote]"

definition list_command :: "string \<Rightarrow> command" where
  "list_command archive = \<lparr>cmd_program = ''pg_restore'', cmd_args = [''--list'', archive], cmd_env = []\<rparr>"

definition restore_list_command :: "pg_conn \<Rightarrow> string \<Rightarrow> string \<Rightarrow> string option \<Rightarrow> bool \<Rightarrow> command" where
  "restore_list_command conn archive list role data_only =
     \<lparr>cmd_program = ''pg_restore'',
      cmd_args = [''-w'', ''-d'', conninfo_dbname (pg_database conn), ''--no-owner'', ''--no-acl'', ''--exit-on-error''] @
        (case role of Some r \<Rightarrow> [''--role='' @ r] | None \<Rightarrow> []) @ (if data_only then [''--data-only''] else []) @ [''-L'', list, archive],
      cmd_env = pg_env conn\<rparr>"

section \<open>Secrets stay out of the arguments\<close>

text \<open>
  The password never reaches a command line. Every command built for a connection has the same
  program and the same arguments whatever the password is; the password is in the environment alone,
  under \<open>PGPASSWORD\<close>, and the printable form of the connection does not depend on it either.
\<close>

theorem arguments_independent_of_password:
  "cmd_args (backup_command (c\<lparr>pg_password := p\<rparr>) out) = cmd_args (backup_command c out) \<and>
   cmd_args (restore_command (c\<lparr>pg_password := p\<rparr>) archive clean) = cmd_args (restore_command c archive clean) \<and>
   cmd_args (restore_list_command (c\<lparr>pg_password := p\<rparr>) archive list role data_only) = cmd_args (restore_list_command c archive list role data_only) \<and>
   cmd_args (psql_command (c\<lparr>pg_password := p\<rparr>) sql) = cmd_args (psql_command c sql) \<and>
   map_sum id cmd_args (create_database_owned_command (c\<lparr>pg_password := p\<rparr>) db owner) = map_sum id cmd_args (create_database_owned_command c db owner) \<and>
   map_sum id cmd_args (drop_database_command (c\<lparr>pg_password := p\<rparr>) db) = map_sum id cmd_args (drop_database_command c db) \<and>
   redacted (with_database (c\<lparr>pg_password := p\<rparr>) db) = redacted (with_database c db) \<and>
   filter (\<lambda>(key, value). key \<noteq> ''PGPASSWORD'') (cmd_env (backup_command (c\<lparr>pg_password := p\<rparr>) out)) =
     filter (\<lambda>(key, value). key \<noteq> ''PGPASSWORD'') (cmd_env (backup_command c out))"
  by (simp add: backup_command_def restore_command_def restore_list_command_def psql_command_def create_database_owned_command_def
      drop_database_command_def redacted_def with_database_def pg_env_def put_var_def and_if_ok_def split: option.split sum.split)

section \<open>Quotes hold\<close>

text \<open>
  How the readers take quoted values. A libpq conninfo value in single quotes: a backslash takes the next
  character as it is. A quoted SQL token (an identifier or a literal): two quotes are one quote, a single
  one ends it. Each reader returns the value and what follows the closing quote.
\<close>

fun read_conninfo :: "string \<Rightarrow> (string \<times> string) option" where
  "read_conninfo [] = None"
| "read_conninfo (c # s) =
     (if c = squote then Some ([], s)
      else if c = backslash then (case s of [] \<Rightarrow> None | d # s' \<Rightarrow> map_option (\<lambda>(v, r). (d # v, r)) (read_conninfo s'))
      else map_option (\<lambda>(v, r). (c # v, r)) (read_conninfo s))"

fun read_quoted :: "char \<Rightarrow> string \<Rightarrow> (string \<times> string) option" where
  "read_quoted q [] = None"
| "read_quoted q [c] = (if c = q then Some ([], []) else None)"
| "read_quoted q (c # d # s) =
     (if c = q then if d = q then map_option (\<lambda>(v, r). (q # v, r)) (read_quoted q s) else Some ([], d # s)
      else map_option (\<lambda>(v, r). (c # v, r)) (read_quoted q (d # s)))"

lemma replace_char_simps [simp]:
  "replace_char c r [] = []" "replace_char c r (x # s) = (if x = c then r else [x]) @ replace_char c r s"
  by (simp_all add: replace_char_def)

lemma read_conninfo_escaped:
  "read_conninfo (replace_char squote [backslash, squote] (replace_char backslash [backslash, backslash] name) @ squote # rest) = Some (name, rest)"
  by (induction name) (auto simp: squote_def backslash_def)

lemma read_quoted_doubled:
  assumes "\<And>s. rest \<noteq> q # s"
  shows "read_quoted q (replace_char q [q, q] name @ q # rest) = Some (name, rest)"
proof (induction name)
  case Nil
  show ?case using assms by (cases rest) auto
next
  case (Cons x name)
  obtain y t where t: "replace_char q [q, q] name @ q # rest = y # t" by (metis append_Cons append_Nil neq_Nil_conv snoc_eq_iff_butlast append_is_Nil_conv list.distinct(1))
  show ?case
  proof (cases "x = q")
    case True
    with Cons show ?thesis by simp
  next
    case False
    with Cons t show ?thesis by simp
  qed
qed

lemma replace_char_id: "c \<notin> set s \<Longrightarrow> replace_char c r s = s"
  by (induction s) auto

lemma read_quoted_plain: "q \<notin> set name \<Longrightarrow> (\<And>s. rest \<noteq> q # s) \<Longrightarrow> read_quoted q (name @ q # rest) = Some (name, rest)"
  using read_quoted_doubled [of rest q name] by (simp add: replace_char_id)

lemma valid_name_unquoted:
  assumes "validate_db_name name = Inr u"
  shows "dquote \<notin> set name" and "name \<noteq> []"
proof -
  have "\<not> name_char dquote" "\<not> (ascii_alpha dquote \<or> dquote = CHR ''_'')"
    by (simp_all add: name_char_def ascii_alnum_def ascii_alpha_def dquote_def)
  with assms show "dquote \<notin> set name" "name \<noteq> []"
    by (auto simp: validate_db_name_def Let_def list_all_iff split: if_splits list.splits)
qed

text \<open>
  No name escapes its quotes. Read the way libpq and PostgreSQL read them, a database name in a
  connection string, an identifier and a literal in a statement come back as they went in, whatever
  characters they hold; and the statements that create and drop a database name exactly the database
  and the owner they were built for, with nothing else between their fixed words.
\<close>

theorem quoting_is_exact:
  "conninfo_dbname name = ''dbname='' @ squote # tail \<Longrightarrow> read_conninfo tail = Some (name, []) \<and>
   (\<exists>s. ident name = dquote # s \<and> read_quoted dquote (s @ '' TO '') = Some (name, '' TO '')) \<and>
   (\<exists>s. literal name = squote # s \<and> read_quoted squote s = Some (name, [])) \<and>
   (\<forall>cmd. create_database_owned_command conn db name = Inr cmd \<longrightarrow>
     (\<exists>s r. last (cmd_args cmd) = ''CREATE DATABASE '' @ dquote # s \<and> read_quoted dquote s = Some (db, '' OWNER '' @ dquote # r) \<and>
       read_quoted dquote r = Some (name, []))) \<and>
   (\<forall>cmd. drop_database_command conn db = Inr cmd \<longrightarrow>
     (\<exists>s. last (cmd_args cmd) = ''DROP DATABASE IF EXISTS '' @ dquote # s \<and> read_quoted dquote s = Some (db, '' WITH (FORCE)'')))"
proof (intro conjI allI impI)
  assume "conninfo_dbname name = ''dbname='' @ squote # tail"
  then show "read_conninfo tail = Some (name, [])"
    using read_conninfo_escaped [of name "[]"] by (auto simp: conninfo_dbname_def)
next
  show "\<exists>s. ident name = dquote # s \<and> read_quoted dquote (s @ '' TO '') = Some (name, '' TO '')"
    using read_quoted_doubled [of "'' TO ''" dquote name] by (simp add: ident_def quoted_def dquote_def)
  show "\<exists>s. literal name = squote # s \<and> read_quoted squote s = Some (name, [])"
    using read_quoted_doubled [of "[]" squote name] by (simp add: literal_def)
  fix cmd assume "create_database_owned_command conn db name = Inr cmd"
  then have cmd: "last (cmd_args cmd) = ''CREATE DATABASE '' @ dquote # db @ dquote # '' OWNER '' @ dquote #
      replace_char dquote [dquote, dquote] name @ [dquote]" and "dquote \<notin> set db"
    using valid_name_unquoted(1) [of db] by (auto simp: create_database_owned_command_def and_if_ok_def psql_command_def quoted_def split: sum.splits)
  with read_quoted_plain [of dquote db "'' OWNER '' @ dquote # replace_char dquote [dquote, dquote] name @ [dquote]"]
    read_quoted_doubled [of "[]" dquote name]
  show "\<exists>s r. last (cmd_args cmd) = ''CREATE DATABASE '' @ dquote # s \<and> read_quoted dquote s = Some (db, '' OWNER '' @ dquote # r) \<and>
       read_quoted dquote r = Some (name, [])" by (auto simp: dquote_def)
next
  fix cmd assume "drop_database_command conn db = Inr cmd"
  then have "last (cmd_args cmd) = ''DROP DATABASE IF EXISTS '' @ dquote # db @ dquote # '' WITH (FORCE)''" and "dquote \<notin> set db"
    using valid_name_unquoted(1) [of db] by (auto simp: drop_database_command_def and_if_ok_def psql_command_def quoted_def split: sum.splits)
  with read_quoted_plain [of dquote db "'' WITH (FORCE)''"]
  show "\<exists>s. last (cmd_args cmd) = ''DROP DATABASE IF EXISTS '' @ dquote # s \<and> read_quoted dquote s = Some (db, '' WITH (FORCE)'')"
    by (auto simp: dquote_def)
qed

theorem quoting_is_exact_witness:
  "\<exists>tail. conninfo_dbname [squote, backslash] = ''dbname='' @ squote # tail \<and> read_conninfo tail = Some ([squote, backslash], [])"
  using quoting_is_exact [of "[squote, backslash]"] by (simp add: conninfo_dbname_def)

end
