(* ===== verification/Db_Restore.thy ===== *)
theory Db_Restore
  imports Db_Commands Rust_Strings
begin

text \<open>
  The one restore primitive (\<open>fraisier-db/src/restore.rs\<close>, the archive precheck of \<open>tviews.rs\<close>): the
  identity a restore runs as, the checks before anything is created or dropped, restoring in place and
  into a throwaway, and the teardown guard. The \<open>RestoreServer\<close> trait is a record of operations on an
  arbitrary world; the environment, the DSN parser, the process id and the clock are parameters.
\<close>

section \<open>Identities\<close>

definition throwaway_marker :: string where
  "throwaway_marker = ''_fraisier_rh_''"

definition copy_headroom_bytes :: nat where
  "copy_headroom_bytes = 2000000000"

datatype trigger = Operator | Webhook

record admin =
  ad_env :: string
  ad_conn :: pg_conn

record restore_identity =
  ri_app :: pg_conn
  ri_admin :: "admin option"
  ri_withheld :: "string option"

definition restore_identity_new :: "pg_conn \<Rightarrow> admin option \<Rightarrow> trigger \<Rightarrow> restore_identity" where
  "restore_identity_new app adm trig =
     (case (adm, trig) of
        (Some a, Webhook) \<Rightarrow> \<lparr>ri_app = app, ri_admin = None, ri_withheld = Some (ad_env a)\<rparr>
      | (a, _) \<Rightarrow> \<lparr>ri_app = app, ri_admin = a, ri_withheld = None\<rparr>)"

definition identity_from_env :: "(string \<rightharpoonup> string) \<Rightarrow> (string \<Rightarrow> db_error + pg_conn) \<Rightarrow>
    pg_conn \<Rightarrow> string option \<Rightarrow> trigger \<Rightarrow> string + restore_identity" where
  "identity_from_env vars parse_dsn app admin_env trig =
     (case admin_env of
        None \<Rightarrow> Inr (restore_identity_new app None trig)
      | Some env \<Rightarrow>
          if trig = Webhook then Inr \<lparr>ri_app = app, ri_admin = None, ri_withheld = Some env\<rparr>
          else (case vars env of
              None \<Rightarrow> Inl (''the configured admin_url_env '' @ [squote] @ env @ [squote] @ '' is not set'')
            | Some dsn \<Rightarrow> (case parse_dsn dsn of
                  Inl error \<Rightarrow> Inl (''invalid admin DSN in '' @ env @ '': '' @ show_db_error error)
                | Inr conn \<Rightarrow> Inr (restore_identity_new app (Some \<lparr>ad_env = env, ad_conn = conn\<rparr>) trig))))"

definition uses_admin :: "restore_identity \<Rightarrow> bool" where
  "uses_admin i \<longleftrightarrow> ri_admin i \<noteq> None"

definition restorer :: "restore_identity \<Rightarrow> string \<Rightarrow> pg_conn" where
  "restorer i db = with_database (case ri_admin i of Some a \<Rightarrow> ad_conn a | None \<Rightarrow> ri_app i) db"

definition identity_admin_env :: "restore_identity \<Rightarrow> string option" where
  "identity_admin_env i = or_else (map_option ad_env (ri_admin i)) (ri_withheld i)"

section \<open>The server\<close>

text \<open>Who a connection is, and one rebuilt TVIEW (\<open>tviews.rs\<close>).\<close>

record db_identity =
  di_user :: string
  di_superuser :: bool
  di_recovery :: bool
  di_system_identifier :: string

record rebuilt =
  rb_entity :: string
  rb_rows :: int

text \<open>The trait, and the removal of the process's own temporary file.\<close>

record 'w restore_server =
  rs_list :: "string \<Rightarrow> ('w, string, string) eff"
  rs_identity :: "pg_conn \<Rightarrow> ('w, string, db_identity) eff"
  rs_current_user :: "pg_conn \<Rightarrow> ('w, string, string) eff"
  rs_dump :: "pg_conn \<Rightarrow> string \<Rightarrow> ('w, string, unit) eff"
  rs_create :: "pg_conn \<Rightarrow> string \<Rightarrow> string option \<Rightarrow> ('w, string, unit) eff"
  rs_restore :: "pg_conn \<Rightarrow> string \<Rightarrow> bool \<Rightarrow> ('w, string, string) eff"
  rs_drop :: "pg_conn \<Rightarrow> string \<Rightarrow> ('w, string, unit) eff"
  rs_rebuild :: "pg_conn \<Rightarrow> bool \<Rightarrow> ('w, string, rebuilt list) eff"
  rs_still_empty :: "pg_conn \<Rightarrow> ('w, string, string list) eff"
  rs_remove_file :: "string \<Rightarrow> ('w, string, unit) eff"

record tview_rebuild =
  tr_rebuilt :: "rebuilt list"
  tr_still_empty :: "string list"

record restored =
  re_warnings :: string
  re_tviews :: "(string + tview_rebuild) option"

record throwaway =
  tw_name :: string
  tw_app :: pg_conn
  tw_tviews :: "tview_rebuild option"

datatype seed = SeedArchive string | FreshDump

datatype restore_error = Refused string | Failed string

section \<open>Before anything is dropped\<close>

definition get_range :: "nat \<Rightarrow> nat \<Rightarrow> 'a list \<Rightarrow> 'a list option" where
  "get_range i j xs = (if i \<le> j \<and> j \<le> length xs then Some (take (j - i) (drop i xs)) else None)"

definition archive_creates_pg_tviews :: "string \<Rightarrow> bool" where
  "archive_creates_pg_tviews listing \<longleftrightarrow>
     list_ex (\<lambda>line. get_range 3 6 (split_whitespace line) = Some [''EXTENSION'', ''-'', ''pg_tviews'']) (lines listing)"

definition restore_precheck :: "string \<Rightarrow> db_identity \<Rightarrow> string option \<Rightarrow> string option \<Rightarrow> string + unit" where
  "restore_precheck listing who rebuild_problem admin_env =
     (if \<not> archive_creates_pg_tviews listing then Inr ()
      else if \<not> di_superuser who
      then Inl (''this archive creates the pg_tviews extension, which only a superuser can restore, and role '' @
        [squote] @ di_user who @ [squote] @ '' is not one: a restore would load the tables and leave the database without '' @
        ''pg_tviews. Nothing was changed. To restore it, '' @
        (case admin_env of
           None \<Rightarrow> ''set [database].admin_url_env to a superuser DSN (peer auth over the Unix socket)''
         | Some env \<Rightarrow> ''set '' @ env @ '' ([database].admin_url_env) to a superuser DSN''))
      else (case rebuild_problem of
          Some problem \<Rightarrow> Inl (''the post-restore TVIEW rebuild would fail, so nothing was changed: '' @ problem)
        | None \<Rightarrow> Inr ()))"

definition list_archive :: "('w, 'x) restore_server_scheme \<Rightarrow> string \<Rightarrow> ('w, restore_error, string) eff" where
  "list_archive server archive =
     map_err (\<lambda>error. Refused (''pg_restore --list cannot read the archive: '' @ error)) (rs_list server archive)"

definition precheck_listing :: "('w, 'x) restore_server_scheme \<Rightarrow> restore_identity \<Rightarrow> pg_conn \<Rightarrow> string \<Rightarrow>
    ('w, restore_error, bool) eff" where
  "precheck_listing server i conn listing =
     (if \<not> archive_creates_pg_tviews listing then ok False
      else and_then (map_err Refused (rs_identity server conn)) (\<lambda>who.
        case (if di_superuser who then None else ri_withheld i) of
          Some env \<Rightarrow> fail (Refused (
            ''this archive creates the pg_tviews extension, which only a superuser can restore, and a run started by '' @
            ''the webhook never uses the admin identity ('' @ env @ '', [database].admin_url_env). Nothing was changed. '' @
            ''Run this deploy from the CLI or its timer instead''))
        | None \<Rightarrow>
            and_then (map_err Refused (from_result (restore_precheck listing who None (identity_admin_env i)))) (\<lambda>_. ok True)))"

definition precheck :: "('w, 'x) restore_server_scheme \<Rightarrow> restore_identity \<Rightarrow> pg_conn \<Rightarrow> string \<Rightarrow> ('w, restore_error, bool) eff" where
  "precheck server i conn archive =
     and_then (list_archive server archive) (\<lambda>listing. precheck_listing server i conn listing)"

section \<open>Restoring\<close>

definition rebuild_tviews :: "('w, 'x) restore_server_scheme \<Rightarrow> pg_conn \<Rightarrow> ('w, string, tview_rebuild) eff" where
  "rebuild_tviews server conn =
     and_then (rs_rebuild server conn True) (\<lambda>rebuilt.
     and_then (map_err (\<lambda>error. ''could not check the TVIEWs after the rebuild: '' @ error) (rs_still_empty server conn)) (\<lambda>still.
     ok \<lparr>tr_rebuilt = rebuilt, tr_still_empty = still\<rparr>))"

definition restore_in_place :: "('w, 'x) restore_server_scheme \<Rightarrow> restore_identity \<Rightarrow> string \<Rightarrow> ('w, restore_error, restored) eff" where
  "restore_in_place server i archive =
     (let conn = restorer i (pg_database (ri_app i)) in
      and_then (precheck server i conn archive) (\<lambda>creates_tviews.
      and_then (map_err Failed (rs_restore server conn archive True)) (\<lambda>warnings.
      if creates_tviews
      then and_then (result_of (rebuild_tviews server conn)) (\<lambda>r. ok \<lparr>re_warnings = warnings, re_tviews = Some r\<rparr>)
      else ok \<lparr>re_warnings = warnings, re_tviews = None\<rparr>)))"

text \<open>The guard both the restore and the drill put before dropping a database.\<close>

definition teardown_guard :: "string \<Rightarrow> string \<Rightarrow> string + unit" where
  "teardown_guard name live =
     (if \<not> contains throwaway_marker name
      then Inl (''its name does not carry the throwaway marker '' @ [squote] @ throwaway_marker @ [squote])
      else if live = name then Inl ''it is the live database''
      else Inr ())"

definition drop_throwaway :: "('w, 'x) restore_server_scheme \<Rightarrow> restore_identity \<Rightarrow> string \<Rightarrow> string \<Rightarrow> ('w, string, unit) eff" where
  "drop_throwaway server i name live =
     and_then (map_err (\<lambda>reason. ''refusing to drop '' @ [squote] @ name @ [squote] @ '': '' @ reason) (from_result (teardown_guard name live))) (\<lambda>_.
     map_err (\<lambda>error. ''DROP DATABASE '' @ name @ '' failed: '' @ error) (rs_drop server (restorer i ''postgres'') name))"

definition throwaway_name :: "nat \<Rightarrow> nat \<Rightarrow> string \<Rightarrow> string" where
  "throwaway_name pid nanos base =
     (let cleaned = take 24 (filter name_char base);
          head = (case cleaned of c # _ \<Rightarrow> if ascii_alpha c then cleaned else ''db'' @ cleaned | [] \<Rightarrow> ''db'' @ cleaned)
      in take 63 (head @ throwaway_marker @ show_nat pid @ ''_'' @ show_hex nanos))"

definition fill_copy :: "('w, 'x) restore_server_scheme \<Rightarrow> pg_conn \<Rightarrow> string \<Rightarrow> bool \<Rightarrow> ('w, string, tview_rebuild option) eff" where
  "fill_copy server conn archive rebuild =
     and_then (map_err (\<lambda>error. ''pg_restore into the throwaway DB failed: '' @ error) (rs_restore server conn archive False)) (\<lambda>_.
     if \<not> rebuild then ok None
     else and_then (map_err (\<lambda>error. ''the post-restore TVIEW rebuild failed: '' @ error) (rebuild_tviews server conn)) (\<lambda>r.
       if tr_still_empty r = [] then ok (Some r)
       else fail (''after the post-restore TVIEW rebuild, these TVIEWs are still empty over a populated view: '' @
         join '', '' (tr_still_empty r))))"

definition fill_throwaway :: "('w, 'x) restore_server_scheme \<Rightarrow> restore_identity \<Rightarrow> string \<Rightarrow> string \<Rightarrow> bool \<Rightarrow>
    ('w, restore_error, throwaway) eff" where
  "fill_throwaway server i name archive rebuild =
     (let live = ri_app i in
      and_then (precheck server i (restorer i (pg_database live)) archive) (\<lambda>creates_tviews.
      and_then (if uses_admin i
          then map_ok Some (map_err (\<lambda>error. Refused (''could not read the app role: '' @ error)) (rs_current_user server live))
          else ok None) (\<lambda>owner.
      and_then (map_err (\<lambda>error. Refused (''CREATE DATABASE failed: '' @ error)) (rs_create server (restorer i ''postgres'') name owner)) (\<lambda>_.
      and_then (result_of (fill_copy server (restorer i name) archive (rebuild \<and> creates_tviews))) (\<lambda>filled.
      case filled of
        Inr tviews \<Rightarrow> ok \<lparr>tw_name = name, tw_app = with_database live name, tw_tviews = tviews\<rparr>
      | Inl error \<Rightarrow>
          and_then (result_of (drop_throwaway server i name (pg_database live))) (\<lambda>_. fail (Failed error)))))))"

text \<open>The name is read off the clock when the throwaway is made, the temporary path when the dump is.\<close>

definition restore_throwaway :: "('w, 'x) restore_server_scheme \<Rightarrow> restore_identity \<Rightarrow> string \<Rightarrow> string \<Rightarrow> seed \<Rightarrow> bool \<Rightarrow>
    ('w, restore_error, throwaway) eff" where
  "restore_throwaway server i name tmp seed rebuild =
     (case seed of
        SeedArchive archive \<Rightarrow> fill_throwaway server i name archive rebuild
      | FreshDump \<Rightarrow>
          and_then (result_of (rs_dump server (ri_app i) tmp)) (\<lambda>r. case r of
            Inl error \<Rightarrow> and_then (result_of (rs_remove_file server tmp)) (\<lambda>_. fail (Refused (''pg_dump of the live DB failed: '' @ error)))
          | Inr _ \<Rightarrow> and_then (result_of (fill_throwaway server i name tmp rebuild)) (\<lambda>filled.
              and_then (result_of (rs_remove_file server tmp)) (\<lambda>_. from_result filled))))"

definition check_room :: "64 word \<Rightarrow> 64 word \<Rightarrow> string \<Rightarrow> string + unit" where
  "check_room live_bytes free_bytes dir =
     (let needed = min (unat live_bytes + copy_headroom_bytes) (2 ^ 64 - 1) in
      if unat free_bytes < needed
      then Inl (dir @ '' has '' @ show_nat (unat free_bytes div 1000000000) @ '' GB free; a restored copy needs about '' @
        show_nat ((needed + 999999999) div 1000000000) @ '' GB (the live database'' @ [squote] @ ''s size plus 2 GB)'')
      else Inr ())"

definition room_for_copy :: "(string \<Rightarrow> string + 64 word) \<Rightarrow> 64 word \<Rightarrow> string \<Rightarrow> string + unit" where
  "room_for_copy available live_bytes dir =
     (case available dir of
        Inl error \<Rightarrow> Inl (''could not measure free space in '' @ dir @ '': '' @ error)
      | Inr free \<Rightarrow> check_room live_bytes free dir)"

section \<open>The throwaway's name\<close>

lemma show_digits: "list_all name_char (show_nat n)" "list_all name_char (show_hex n)"
proof -
  have "name_char (digit_char k)" if "k < 10" for k
    using that by (simp add: name_char_def ascii_alnum_def digit_char_def Let_def)
  then show "list_all name_char (show_nat n)"
  proof (induction n rule: show_nat.induct)
    case (1 n)
    then show ?case by (cases "n < 10") (simp_all add: show_nat.simps [of n])
  qed
  have "name_char (hex_char k)" if "k < 16" for k
    using that by (simp add: name_char_def ascii_alnum_def hex_char_def Let_def)
  then show "list_all name_char (show_hex n)"
  proof (induction n rule: show_hex.induct)
    case (1 n)
    then show ?case by (cases "n < 16") (simp_all add: show_hex.simps [of n])
  qed
qed

lemma throwaway_name_shape:
  obtains c head tail where "throwaway_name pid nanos base = (c # head) @ throwaway_marker @ tail" and "ascii_alpha c"
    and "list_all name_char (head @ throwaway_marker @ tail)" and "length (throwaway_name pid nanos base) \<le> 63"
proof -
  define cleaned where "cleaned = take 24 (filter name_char base)"
  define head where "head = (case cleaned of c # _ \<Rightarrow> if ascii_alpha c then cleaned else ''db'' @ cleaned | [] \<Rightarrow> ''db'' @ cleaned)"
  define rest where "rest = show_nat pid @ ''_'' @ show_hex nanos"
  have alpha: "ascii_alpha (CHR ''d'')" "name_char (CHR ''b'')" "name_char (CHR ''_'')"
    by (simp_all add: ascii_alpha_def name_char_def ascii_alnum_def)
  have "list_all name_char cleaned" "length cleaned \<le> 24" by (auto simp: cleaned_def list_all_iff dest: in_set_takeD)
  then have "\<exists>c t. head = c # t \<and> ascii_alpha c \<and> list_all name_char t \<and> length head \<le> 26"
    using alpha by (cases cleaned) (auto simp: head_def)
  then obtain c t where ct: "head = c # t" "ascii_alpha c" "list_all name_char t" "length head \<le> 26" by blast
  have marker: "length throwaway_marker = 13" "list_all name_char throwaway_marker"
    by (simp_all add: throwaway_marker_def name_char_def ascii_alnum_def)
  have "throwaway_name pid nanos base = take 63 (head @ throwaway_marker @ rest)"
    unfolding throwaway_name_def head_def rest_def cleaned_def Let_def by (rule refl)
  also have "\<dots> = head @ throwaway_marker @ take (50 - length head) rest"
    using ct(4) marker(1) by (simp add: diff_diff_left add.commute)
  finally have name: "throwaway_name pid nanos base = (c # t) @ throwaway_marker @ take (50 - length head) rest" by (simp add: ct(1))
  have "list_all name_char rest" using show_digits alpha(3) by (simp add: rest_def)
  then have "list_all name_char (take (50 - length head) rest)" by (auto simp: list_all_iff dest: in_set_takeD)
  moreover have "length (throwaway_name pid nanos base) \<le> 63" by (simp add: throwaway_name_def Let_def del: take_append)
  ultimately show ?thesis using ct(2,3) marker(2) by (intro that [OF name]) (simp_all del: take_append)
qed

lemma throwaway_name_ok:
  "validate_db_name (throwaway_name pid nanos base) = Inr ()"
  "live \<noteq> throwaway_name pid nanos base \<Longrightarrow> teardown_guard (throwaway_name pid nanos base) live = Inr ()"
proof -
  obtain c head tail where n: "throwaway_name pid nanos base = (c # head) @ throwaway_marker @ tail" "ascii_alpha c"
    "list_all name_char (head @ throwaway_marker @ tail)" "length (throwaway_name pid nanos base) \<le> 63"
    by (rule throwaway_name_shape)
  then show "validate_db_name (throwaway_name pid nanos base) = Inr ()"
    by (simp add: validate_db_name_def Let_def)
  have "contains throwaway_marker (throwaway_name pid nanos base)" unfolding contains_iff n(1) by blast
  then show "live \<noteq> throwaway_name pid nanos base \<Longrightarrow> teardown_guard (throwaway_name pid nanos base) live = Inr ()"
    by (simp add: teardown_guard_def)
qed

section \<open>Every other database is spared\<close>

text \<open>
  What the code relies on: an operation on one database does not change another. The observation is of
  the database named \<open>other\<close>; reading and dumping change nothing.
\<close>

definition spares :: "('w, 'x) restore_server_scheme \<Rightarrow> string \<Rightarrow> ('w \<Rightarrow> 'o) \<Rightarrow> bool" where
  "spares server other obs \<longleftrightarrow>
     (\<forall>a. keeps obs (rs_list server a)) \<and> (\<forall>c. keeps obs (rs_identity server c)) \<and> (\<forall>c. keeps obs (rs_current_user server c)) \<and>
     (\<forall>c p. keeps obs (rs_dump server c p)) \<and> (\<forall>p. keeps obs (rs_remove_file server p)) \<and>
     (\<forall>m n ow. n \<noteq> other \<longrightarrow> keeps obs (rs_create server m n ow)) \<and> (\<forall>m n. n \<noteq> other \<longrightarrow> keeps obs (rs_drop server m n)) \<and>
     (\<forall>c a b. pg_database c \<noteq> other \<longrightarrow> keeps obs (rs_restore server c a b)) \<and>
     (\<forall>c b. pg_database c \<noteq> other \<longrightarrow> keeps obs (rs_rebuild server c b)) \<and>
     (\<forall>c. pg_database c \<noteq> other \<longrightarrow> keeps obs (rs_still_empty server c))"

lemma pg_database_restorer [simp]: "pg_database (restorer i db) = db"
  by (simp add: restorer_def with_database_def)

lemma keeps_precheck:
  assumes "\<And>a. keeps obs (rs_list server a)" and "\<And>c. keeps obs (rs_identity server c)"
  shows "keeps obs (list_archive server archive)" and "keeps obs (precheck_listing server i conn listing)"
    and "keeps obs (precheck server i conn archive)"
  unfolding precheck_def list_archive_def precheck_listing_def by (intro keeps_intros assms)+

lemma keeps_fill_throwaway:
  assumes "spares server other obs" and "name \<noteq> other"
  shows "keeps obs (fill_throwaway server i name archive rebuild)"
proof -
  note s = assms(1) [unfolded spares_def]
  have pre: "keeps obs (precheck server i c a)" for c a using s by (intro keeps_precheck) blast+
  have drop: "keeps obs (drop_throwaway server i name (pg_database (ri_app i)))"
    unfolding drop_throwaway_def using s assms(2) by (intro keeps_intros) blast+
  have fill: "keeps obs (fill_copy server (restorer i name) archive b)" for b
    unfolding fill_copy_def rebuild_tviews_def using s assms(2) by (intro keeps_intros) simp_all
  show ?thesis
    unfolding fill_throwaway_def Let_def using s assms(2) by (intro keeps_intros pre drop fill) blast+
qed

lemma keeps_restore_throwaway:
  assumes "spares server other obs" and "name \<noteq> other"
  shows "keeps obs (restore_throwaway server i name tmp seed rebuild)"
  unfolding restore_throwaway_def using assms(1) [unfolded spares_def]
  by (cases seed) (simp; intro keeps_intros keeps_fill_throwaway [OF assms]; blast)+

text \<open>
  The databases on the server, and the names whose drop has failed: creating adds a database and dropping
  removes it when they succeed; a drop that fails is noted, and the database may still be there; and nothing
  else changes which there are.
\<close>

definition tracks :: "('w, 'x) restore_server_scheme \<Rightarrow> ('w \<Rightarrow> string set) \<Rightarrow> ('w \<Rightarrow> string set) \<Rightarrow> bool" where
  "tracks server dbs undropped \<longleftrightarrow>
     (let kept = (\<lambda>w. (dbs w, undropped w)) in
     (\<forall>a. keeps kept (rs_list server a)) \<and> (\<forall>c. keeps kept (rs_identity server c)) \<and> (\<forall>c. keeps kept (rs_current_user server c)) \<and>
     (\<forall>c p. keeps kept (rs_dump server c p)) \<and> (\<forall>p. keeps kept (rs_remove_file server p)) \<and>
     (\<forall>c a b. keeps kept (rs_restore server c a b)) \<and> (\<forall>c b. keeps kept (rs_rebuild server c b)) \<and>
     (\<forall>c. keeps kept (rs_still_empty server c))) \<and>
     (\<forall>m n ow w r w'. rs_create server m n ow w = (r, w') \<longrightarrow>
        dbs w' = (if is_ok r then insert n (dbs w) else dbs w) \<and> undropped w' = undropped w) \<and>
     (\<forall>m n w r w'. rs_drop server m n w = (r, w') \<longrightarrow>
        (if is_ok r then dbs w' = dbs w - {n} \<and> undropped w' = undropped w
         else dbs w' \<in> {dbs w, dbs w - {n}} \<and> undropped w' = insert n (undropped w)))"

text \<open>What an attempt leaves: the databases there were, or the copy too and only because dropping it failed.\<close>

definition cleaned_up :: "('w \<Rightarrow> string set) \<Rightarrow> ('w \<Rightarrow> string set) \<Rightarrow> string \<Rightarrow> 'w \<Rightarrow> 'w \<Rightarrow> bool" where
  "cleaned_up dbs undropped name w w' \<longleftrightarrow>
     dbs w' = dbs w \<or> dbs w' = insert name (dbs w) \<and> undropped w' = insert name (undropped w)"

definition copy_owner :: "('w, 'x) restore_server_scheme \<Rightarrow> restore_identity \<Rightarrow> ('w, restore_error, string option) eff" where
  "copy_owner server i = (if uses_admin i
     then map_ok Some (map_err (\<lambda>error. Refused (''could not read the app role: '' @ error)) (rs_current_user server (ri_app i)))
     else ok None)"

lemma fill_throwaway_run:
  "fill_throwaway server i name archive rebuild w =
     (case precheck server i (restorer i (pg_database (ri_app i))) archive w of (Inl e, w1) \<Rightarrow> (Inl e, w1) | (Inr creates, w1) \<Rightarrow>
     (case copy_owner server i w1 of (Inl e, w2) \<Rightarrow> (Inl e, w2) | (Inr owner, w2) \<Rightarrow>
     (case rs_create server (restorer i ''postgres'') name owner w2 of
        (Inl e, w3) \<Rightarrow> (Inl (Refused (''CREATE DATABASE failed: '' @ e)), w3) | (Inr u, w3) \<Rightarrow>
     (case fill_copy server (restorer i name) archive (rebuild \<and> creates) w3 of
        (Inr tviews, w4) \<Rightarrow> (Inr \<lparr>tw_name = name, tw_app = with_database (ri_app i) name, tw_tviews = tviews\<rparr>, w4)
      | (Inl e, w4) \<Rightarrow> (Inl (Failed e), snd (drop_throwaway server i name (pg_database (ri_app i)) w4))))))"
  unfolding fill_throwaway_def Let_def copy_owner_def [symmetric]
  by (simp add: and_then_def map_err_def result_of_run split: prod.splits sum.splits)

lemma drop_throwaway_dbs:
  assumes "tracks server dbs undropped" and "teardown_guard name live = Inr ()" and "drop_throwaway server i name live w = (r, w')"
  shows "if is_ok r then dbs w' = dbs w - {name} \<and> undropped w' = undropped w
    else dbs w' \<in> {dbs w, dbs w - {name}} \<and> undropped w' = insert name (undropped w)"
proof -
  obtain q w1 where run: "rs_drop server (restorer i ''postgres'') name w = (q, w1)" by fastforce
  then have "if is_ok q then dbs w1 = dbs w - {name} \<and> undropped w1 = undropped w
    else dbs w1 \<in> {dbs w, dbs w - {name}} \<and> undropped w1 = insert name (undropped w)"
    using assms(1) unfolding tracks_def by blast
  with run assms(2,3) show ?thesis by (cases q) (auto simp: drop_throwaway_def and_then_def map_err_def)
qed

lemma tracksD:
  assumes "tracks server dbs undropped"
  shows "keeps (\<lambda>w. (dbs w, undropped w)) (rs_list server a)" "keeps (\<lambda>w. (dbs w, undropped w)) (rs_identity server c)"
    "keeps (\<lambda>w. (dbs w, undropped w)) (rs_current_user server c)" "keeps (\<lambda>w. (dbs w, undropped w)) (rs_dump server c p)"
    "keeps (\<lambda>w. (dbs w, undropped w)) (rs_remove_file server p)" "keeps (\<lambda>w. (dbs w, undropped w)) (rs_restore server c a b)"
    "keeps (\<lambda>w. (dbs w, undropped w)) (rs_rebuild server c b)" "keeps (\<lambda>w. (dbs w, undropped w)) (rs_still_empty server c)"
  using assms unfolding tracks_def Let_def by simp_all

lemma fill_throwaway_dbs:
  assumes "tracks server dbs undropped" and "teardown_guard name (pg_database (ri_app i)) = Inr ()" and "name \<notin> dbs w"
    and "fill_throwaway server i name archive rebuild w = (r, w')"
  shows "case r of Inl e \<Rightarrow> cleaned_up dbs undropped name w w'
    | Inr t \<Rightarrow> dbs w' = insert name (dbs w) \<and> undropped w' = undropped w \<and> tw_name t = name \<and> tw_app t = with_database (ri_app i) name"
proof -
  let ?kept = "\<lambda>w. (dbs w, undropped w)"
  note t = tracksD [OF assms(1)]
  have kept: "keeps ?kept (precheck server i (restorer i (pg_database (ri_app i))) archive)" "keeps ?kept (copy_owner server i)"
    "keeps ?kept (fill_copy server (restorer i name) archive b)" for b
    unfolding copy_owner_def fill_copy_def rebuild_tviews_def by (intro keeps_precheck keeps_intros t)+
  have create: "?kept w2 = ((if is_ok q then insert name (dbs w1) else dbs w1), undropped w1)"
    if "rs_create server (restorer i ''postgres'') name ow w1 = (q, w2)" for ow w1 q w2
    using assms(1) that unfolding tracks_def by blast
  have drop: "cleaned_up dbs undropped name w1 (snd (drop_throwaway server i name (pg_database (ri_app i)) w2))"
    if "dbs w2 = insert name (dbs w1)" "undropped w2 = undropped w1" "dbs w1 = dbs w" for w1 w2
  proof -
    obtain q w3 where q: "drop_throwaway server i name (pg_database (ri_app i)) w2 = (q, w3)" by fastforce
    from drop_throwaway_dbs [OF assms(1,2) q] that assms(3) q show ?thesis by (auto simp: cleaned_up_def split: if_splits)
  qed
  obtain q1 w1 where p1: "precheck server i (restorer i (pg_database (ri_app i))) archive w = (q1, w1)" by fastforce
  obtain q2 w2 where p2: "copy_owner server i w1 = (q2, w2)" by fastforce
  obtain q3 w3 where p3: "rs_create server (restorer i ''postgres'') name (case q2 of Inr ow \<Rightarrow> ow | Inl _ \<Rightarrow> None) w2 = (q3, w3)" by fastforce
  obtain q4 w4 where p4: "fill_copy server (restorer i name) archive (rebuild \<and> (case q1 of Inr b \<Rightarrow> b | Inl _ \<Rightarrow> False)) w3 = (q4, w4)" by fastforce
  note eqs = keepsD [OF kept(1) p1] keepsD [OF kept(2) p2] create [OF p3] keepsD [OF kept(3) p4]
  have d: "cleaned_up dbs undropped name w (snd (drop_throwaway server i name (pg_database (ri_app i)) w4))" if "is_ok q3"
    using eqs that by (intro drop) simp_all
  show ?thesis using assms(4) p1 p2 p3 p4 eqs d unfolding fill_throwaway_run
    by (cases q1; cases q2; cases q3; cases q4) (auto simp: cleaned_up_def)
qed

lemma restore_throwaway_dbs:
  assumes "tracks server dbs undropped" and "teardown_guard name (pg_database (ri_app i)) = Inr ()" and "name \<notin> dbs w"
    and "restore_throwaway server i name tmp seed rebuild w = (r, w')"
  shows "case r of Inl e \<Rightarrow> cleaned_up dbs undropped name w w'
    | Inr t \<Rightarrow> dbs w' = insert name (dbs w) \<and> undropped w' = undropped w \<and> tw_name t = name \<and> tw_app t = with_database (ri_app i) name"
proof (cases seed)
  case (SeedArchive archive)
  then have run: "fill_throwaway server i name archive rebuild w = (r, w')" using assms(4) by (simp add: restore_throwaway_def)
  from fill_throwaway_dbs [OF assms(1,2,3) run] show ?thesis by (auto split: sum.splits)
next
  case FreshDump
  note t = tracksD [OF assms(1)]
  obtain q1 w1 where p1: "rs_dump server (ri_app i) tmp w = (q1, w1)" by fastforce
  obtain q2 w2 where p2: "fill_throwaway server i name tmp rebuild w1 = (q2, w2)" by fastforce
  obtain q3 w3 where p3: "rs_remove_file server tmp w1 = (q3, w3)" by fastforce
  obtain q4 w4 where p4: "rs_remove_file server tmp w2 = (q4, w4)" by fastforce
  note eqs = keepsD [OF t(4) p1] keepsD [OF t(5) p3] keepsD [OF t(5) p4]
  have "case q2 of Inl e \<Rightarrow> cleaned_up dbs undropped name w1 w2
    | Inr t \<Rightarrow> dbs w2 = insert name (dbs w1) \<and> undropped w2 = undropped w1 \<and> tw_name t = name \<and> tw_app t = with_database (ri_app i) name"
    using fill_throwaway_dbs [OF assms(1,2) _ p2] assms(3) eqs(1) by simp
  with FreshDump assms(4) p1 p2 p3 p4 eqs show ?thesis
    by (cases q1; cases q2) (auto simp: restore_throwaway_def and_then_def result_of_def cleaned_up_def)
qed

text \<open>
  C35: a throwaway copy never costs another database, and cleans up after itself as far as the server lets
  it. Whatever fails, each database other than the copy is as it was, the live one among them; if the copy is not returned, the
  databases on the server are those there were, or the copy is left behind because \<open>DROP DATABASE\<close> failed on it, which
  this attempt does not report; and if it is returned, it is the one new database, its name is a valid identifier that carries the
  marker, and the guard will let it be dropped.
\<close>

theorem throwaway_copy_confined:
  fixes i :: restore_identity and pid nanos :: nat
  defines "name \<equiv> throwaway_name pid nanos (pg_database (ri_app i))"
  assumes "spares server other obs" and "name \<noteq> other" and "tracks server dbs undropped"
    and "name \<noteq> pg_database (ri_app i)" and "name \<notin> dbs w" and "name \<notin> undropped w"
    and "restore_throwaway server i name tmp seed rebuild w = (r, w')"
  shows "obs w' = obs w \<and> (case r of
      Inl e \<Rightarrow> dbs w' = dbs w \<or> dbs w' = insert name (dbs w) \<and> name \<in> undropped w' - undropped w
    | Inr t \<Rightarrow> dbs w' = insert (tw_name t) (dbs w) \<and> tw_name t = name \<and> undropped w' = undropped w \<and> validate_db_name (tw_name t) = Inr () \<and>
        teardown_guard (tw_name t) (pg_database (ri_app i)) = Inr ())"
proof (rule conjI)
  show "obs w' = obs w" using keepsD [OF keeps_restore_throwaway [OF assms(2,3)] assms(8)] .
  have guard: "teardown_guard name (pg_database (ri_app i)) = Inr ()" and valid: "validate_db_name name = Inr ()"
    using throwaway_name_ok assms(5) by (simp_all add: name_def)
  from restore_throwaway_dbs [OF assms(4) guard assms(6,8)] guard valid assms(7)
  show "case r of Inl e \<Rightarrow> dbs w' = dbs w \<or> dbs w' = insert name (dbs w) \<and> name \<in> undropped w' - undropped w
    | Inr t \<Rightarrow> dbs w' = insert (tw_name t) (dbs w) \<and> tw_name t = name \<and> undropped w' = undropped w \<and> validate_db_name (tw_name t) = Inr () \<and>
        teardown_guard (tw_name t) (pg_database (ri_app i)) = Inr ()"
    by (auto simp: cleaned_up_def split: sum.splits)
qed

text \<open>
  A server for the examples: its world is the set of its databases and the set of those whose drop failed,
  restoring fails, and dropping fails for the databases in \<open>stuck\<close>.
\<close>

definition demo_server :: "string set \<Rightarrow> (string set \<times> string set) restore_server" where
  "demo_server stuck =
     \<lparr>rs_list = (\<lambda>a. ok []), rs_identity = (\<lambda>c. fail ''unused''), rs_current_user = (\<lambda>c. ok ''app''), rs_dump = (\<lambda>c p. ok ()),
      rs_create = (\<lambda>m n ow w. (Inr (), insert n (fst w), snd w)), rs_restore = (\<lambda>c a b. fail ''bad archive''),
      rs_drop = (\<lambda>m n w. if n \<in> stuck then (Inl ''in use'', fst w, insert n (snd w)) else (Inr (), fst w - {n}, snd w)),
      rs_rebuild = (\<lambda>c b. fail ''unused''), rs_still_empty = (\<lambda>c. ok []), rs_remove_file = (\<lambda>p. ok ())\<rparr>"

lemma demo_server_lawful: "spares (demo_server stuck) other (\<lambda>w. other \<in> fst w)" "tracks (demo_server stuck) fst snd"
  by (auto simp: spares_def tracks_def demo_server_def keeps_def split: if_splits)

definition demo_identity :: restore_identity where
  "demo_identity = \<lparr>ri_app = \<lparr>pg_host = None, pg_port = None, pg_user = None, pg_password = None, pg_database = ''app'', pg_sslmode = None\<rparr>,
     ri_admin = None, ri_withheld = None\<rparr>"

theorem throwaway_copy_confined_witness:
  "\<exists>r w'. restore_throwaway (demo_server {}) demo_identity (throwaway_name 7 9 ''app'') ''tmp'' FreshDump True ({''app''}, {}) = (r, w') \<and>
     (''app'' \<in> fst w') = (''app'' \<in> {''app''}) \<and>
     (case r of Inl e \<Rightarrow> fst w' = {''app''} \<or> throwaway_name 7 9 ''app'' \<in> snd w' | Inr t \<Rightarrow> True)"
proof -
  have db: "pg_database (ri_app demo_identity) = ''app''" by (simp add: demo_identity_def)
  have name: "throwaway_name 7 9 ''app'' \<noteq> ''app''" by code_simp
  obtain r w' where run: "restore_throwaway (demo_server {}) demo_identity (throwaway_name 7 9 ''app'') ''tmp'' FreshDump True ({''app''}, {}) = (r, w')"
    by (rule prod.exhaust)
  from throwaway_copy_confined [OF demo_server_lawful(1) [of "{}" "''app''"] _ demo_server_lawful(2) [of "{}"],
      of 7 9 demo_identity "({''app''}, {})" "''tmp''" FreshDump True r w', unfolded db] name run
  show ?thesis by (auto split: sum.splits)
qed

text \<open>
  The copy can be left behind unseen: when the restore fails and the drop of the cleanup fails too, the error is that of the
  restore, and the throwaway stays on the server.
\<close>

theorem failed_cleanup_leaves_copy:
  "let name = throwaway_name 7 9 ''app'' in
   restore_throwaway (demo_server {name}) demo_identity name ''tmp'' (SeedArchive ''a'') False ({''app''}, {}) =
     (Inl (Failed ''pg_restore into the throwaway DB failed: bad archive''), {''app'', name}, {name})"
proof -
  have guard: "teardown_guard (throwaway_name 7 9 ''app'') ''app'' = Inr ()" by (rule throwaway_name_ok(2)) code_simp
  have pre: "precheck (demo_server S) demo_identity c a w = (Inr False, w)" for S c a w
    by (simp add: precheck_def list_archive_def precheck_listing_def demo_server_def archive_creates_pg_tviews_def
        map_filter_simps lines.simps result_of_run and_then_def map_err_def Let_def demo_identity_def uses_admin_def)
  have owner: "copy_owner (demo_server S) demo_identity w = (Inr None, w)" for S w by (simp add: copy_owner_def demo_identity_def uses_admin_def)
  have calls: "rs_create (demo_server S) m n ow w = (Inr (), insert n (fst w), snd w)" "rs_restore (demo_server S) c a b = fail ''bad archive''"
    "rs_drop (demo_server S) m n w = (if n \<in> S then (Inl ''in use'', fst w, insert n (snd w)) else (Inr (), fst w - {n}, snd w))"
    "pg_database (ri_app demo_identity) = ''app''" for S m n ow w c a b
    by (simp_all add: demo_server_def demo_identity_def)
  show ?thesis unfolding Let_def restore_throwaway_def
    by (simp add: fill_throwaway_run pre owner calls guard fill_copy_def drop_throwaway_def and_then_def map_err_def insert_commute)
qed

text \<open>
  A webhook never reaches a superuser. The identity of a webhook-started restore does not depend on
  the environment or on the DSN it would name, and every connection it restores, creates or drops with
  is the app role's.
\<close>

theorem webhook_never_admin:
  "\<exists>i. identity_from_env vars parse_dsn app admin_env Webhook = Inr i \<and>
     identity_from_env vars' parse_dsn' app admin_env Webhook = Inr i \<and>
     \<not> uses_admin i \<and> restorer i db = with_database app db \<and> restorer (restore_identity_new app adm Webhook) db = with_database app db"
  by (cases admin_env; cases adm) (simp_all add: identity_from_env_def restore_identity_new_def uses_admin_def restorer_def)

end
