(* ===== verification/Db_Refresh.thy ===== *)
theory Db_Refresh
  imports Db_Restore
begin

text \<open>
  Replacing a database in place with another environment's archive (\<open>fraisier-db/src/refresh.rs\<close>): the
  refresh marker and its statements, the archive's table of contents split in two restore passes, the
  checks before the drop, and the refresh. The \<open>RefreshServer\<close> and \<open>MarkerServer\<close> traits extend the
  record of \<open>Db_Restore\<close>. Parsing the JSON the server prints is \<open>serde_json\<close>'s and not modelled.
\<close>

section \<open>The marker\<close>

definition marker_setting :: string where
  "marker_setting = ''fraisier.refresh_target''"

definition marker_value :: "string \<Rightarrow> string \<Rightarrow> string" where
  "marker_value fraise env = fraise @ ''/'' @ env"

definition marker_sql :: "string \<Rightarrow> db_error + string" where
  "marker_sql db =
     and_if_ok (validate_db_name db) (\<lambda>_.
       let pre = marker_setting @ ''='' in Inr (
         ''SELECT substr(c, '' @ show_nat (length pre + 1) @ '') FROM pg_catalog.pg_db_role_setting s '' @
         ''JOIN pg_catalog.pg_database d ON d.oid = s.setdatabase, unnest(s.setconfig) c '' @
         ''WHERE s.setrole = 0 AND d.datname = '' @ literal db @ '' AND starts_with(c, '' @ literal pre @ '')''))"

definition parse_marker :: "string \<Rightarrow> string option" where
  "parse_marker stdout = (let marker = trim stdout in if marker \<noteq> [] then Some marker else None)"

definition set_marker_sql :: "string \<Rightarrow> string \<Rightarrow> db_error + string" where
  "set_marker_sql db v =
     and_if_ok (validate_db_name db) (\<lambda>_. Inr (''ALTER DATABASE '' @ quoted db @ '' SET '' @ marker_setting @ '' = '' @ literal v))"

definition marker_privilege_sql :: string where
  "marker_privilege_sql =
     ''SELECT json_build_object('' @ literal ''user'' @ '', current_user, '' @ literal ''set'' @ '', has_parameter_privilege('' @
     literal marker_setting @ '', '' @ literal ''SET'' @ ''))''"

definition connections_sql :: "string \<Rightarrow> db_error + string" where
  "connections_sql db =
     and_if_ok (validate_db_name db) (\<lambda>_. Inr (
       ''SELECT format('' @ literal ''%s (%s, pid %s)'' @ '', usename, COALESCE(NULLIF(application_name, '' @ literal [] @ ''), '' @
       literal ''no application name'' @ ''), pid) FROM pg_catalog.pg_stat_activity WHERE datname = '' @ literal db @
       '' AND pid <> pg_backend_pid() ORDER BY pid''))"

section \<open>The archive's table of contents\<close>

definition comment_line :: "string \<Rightarrow> bool" where
  "comment_line line \<longleftrightarrow> (case line of c # _ \<Rightarrow> c = CHR '';'' | [] \<Rightarrow> False)"

definition toc_entry :: "string \<Rightarrow> string list \<Rightarrow> string option" where
  "toc_entry line kind =
     (if comment_line line then None
      else let tokens = split_whitespace line; e = 3 + length kind in
        if get_range 3 e tokens = Some kind then (if e < length tokens then Some (tokens ! e) else None) else None)"

definition archive_extensions :: "string \<Rightarrow> string list" where
  "archive_extensions listing = List.map_filter (\<lambda>line. toc_entry line [''EXTENSION'', ''-'']) (lines listing)"

definition created_by :: "string list \<Rightarrow> string \<Rightarrow> bool" where
  "created_by extensions line \<longleftrightarrow>
     (let created = (\<lambda>name. case name of Some n \<Rightarrow> n \<in> set extensions | None \<Rightarrow> False) in
      created (toc_entry line [''EXTENSION'', ''-'']) \<or> created (toc_entry line [''COMMENT'', ''-'', ''EXTENSION'']))"

definition unlines :: "string list \<Rightarrow> string" where
  "unlines ls = concat (map (\<lambda>l. l @ [newline]) ls)"

definition without_extensions :: "string \<Rightarrow> string list \<Rightarrow> string" where
  "without_extensions listing extensions = unlines (filter (\<lambda>line. \<not> created_by extensions line) (lines listing))"

record restore_lists =
  rl_app :: string
  rl_extension_data :: string
  rl_made_schemas :: "string list"

definition entry_tokens :: "string \<Rightarrow> string list" where
  "entry_tokens line = (if comment_line line then [] else drop 3 (split_whitespace line))"

definition table_entries :: "string \<Rightarrow> (string \<times> string) list" where
  "table_entries listing =
     map (\<lambda>t. (t ! 1, t ! 2)) (filter (\<lambda>t. 3 \<le> length t \<and> t ! 0 = ''TABLE'' \<and> t ! 1 \<noteq> ''DATA'') (map entry_tokens (lines listing)))"

text \<open>The schema an entry creates, when the target has it already, and whether an entry is about such a schema.\<close>

definition made_schema_name :: "string list \<Rightarrow> string list \<Rightarrow> string option" where
  "made_schema_name existing t =
     (case t of a # b # name # _ \<Rightarrow> if a = ''SCHEMA'' \<and> b = ''-'' \<and> name \<in> set existing then Some name else None | _ \<Rightarrow> None)"

definition made_schema :: "string list \<Rightarrow> string list \<Rightarrow> bool" where
  "made_schema existing t \<longleftrightarrow>
     made_schema_name existing t \<noteq> None \<or>
     (case t of a # b # c # name # _ \<Rightarrow> (a = ''ACL'' \<or> a = ''COMMENT'') \<and> b = ''-'' \<and> c = ''SCHEMA'' \<and> name \<in> set existing | _ \<Rightarrow> False)"

definition extension_rows :: "(string \<times> string) list \<Rightarrow> string list \<Rightarrow> bool" where
  "extension_rows tables t \<longleftrightarrow>
     (case t of a # b # schema # name # _ \<Rightarrow> a = ''TABLE'' \<and> b = ''DATA'' \<and> (schema, name) \<notin> set tables | _ \<Rightarrow> False)"

fun split_loop :: "(string \<times> string) list \<Rightarrow> string list \<Rightarrow> string list \<Rightarrow> restore_lists \<Rightarrow> restore_lists" where
  "split_loop tables existing [] ls = ls"
| "split_loop tables existing (line # rest) ls =
     (let t = entry_tokens line;
          ls = (case made_schema_name existing t of
              Some name \<Rightarrow> ls\<lparr>rl_made_schemas := rl_made_schemas ls @ [name]\<rparr>
            | None \<Rightarrow> ls)
      in split_loop tables existing rest
        (if extension_rows tables t then ls\<lparr>rl_extension_data := rl_extension_data ls @ line @ [newline]\<rparr>
         else if \<not> made_schema existing t then ls\<lparr>rl_app := rl_app ls @ line @ [newline]\<rparr>
         else ls))"

definition split_listing :: "string \<Rightarrow> string list \<Rightarrow> string list \<Rightarrow> restore_lists" where
  "split_listing listing extensions existing =
     split_loop (table_entries listing) existing (lines (without_extensions listing extensions))
       \<lparr>rl_app = [], rl_extension_data = [], rl_made_schemas = []\<rparr>"

section \<open>The server\<close>

datatype schema_privilege = Usage | Create

fun privilege_keyword :: "schema_privilege \<Rightarrow> string" where
  "privilege_keyword Usage = ''USAGE''"
| "privilege_keyword Create = ''CREATE''"

record 'w refresh_server = "'w restore_server" +
  rf_marker :: "pg_conn \<Rightarrow> ('w, string, string option) eff"
  rf_marker_privilege :: "pg_conn \<Rightarrow> ('w, string, string option) eff"
  rf_set_marker :: "pg_conn \<Rightarrow> string \<Rightarrow> ('w, string, unit) eff"
  rf_connections :: "pg_conn \<Rightarrow> string \<Rightarrow> ('w, string, string list) eff"
  rf_extensions_problem :: "pg_conn \<Rightarrow> string list \<Rightarrow> ('w, string, string option) eff"
  rf_create_extensions :: "pg_conn \<Rightarrow> string list \<Rightarrow> ('w, string, unit) eff"
  rf_schemas :: "pg_conn \<Rightarrow> ('w, string, string list) eff"
  rf_schema_privilege :: "pg_conn \<Rightarrow> schema_privilege \<Rightarrow> string \<Rightarrow> string \<Rightarrow> bool \<Rightarrow> ('w, string, unit) eff"
  rf_restore_list :: "pg_conn \<Rightarrow> string \<Rightarrow> string \<Rightarrow> string option \<Rightarrow> bool \<Rightarrow> ('w, string, string) eff"

record refreshed =
  rd_warnings :: string
  rd_extensions :: "string list"
  rd_tviews :: "tview_rebuild option"

section \<open>The refresh\<close>

definition marked_and_idle :: "'w refresh_server \<Rightarrow> pg_conn \<Rightarrow> pg_conn \<Rightarrow> string \<Rightarrow> ('w, string, unit) eff" where
  "marked_and_idle server conn maintenance marker =
     (let target = pg_database conn in
      and_then (result_of (rf_marker server conn)) (\<lambda>r.
      case r of
        Inl error \<Rightarrow> fail (''could not read the refresh marker: '' @ error)
      | Inr None \<Rightarrow> fail (target @ '' carries no refresh marker; mark it once with `fraisier db mark-refresh-target` ('' @ marker @ '')'')
      | Inr (Some found) \<Rightarrow>
          if found \<noteq> marker
          then fail (target @ '' is the refresh target of '' @ [squote] @ found @ [squote] @ '', not '' @ [squote] @ marker @ [squote])
          else and_then (map_err (\<lambda>error. ''could not list the sessions on '' @ target @ '': '' @ error) (rf_connections server maintenance target)) (\<lambda>sessions.
            if sessions \<noteq> []
            then fail (''other sessions are connected to '' @ target @ '': '' @ join ''; '' sessions @
              ''. Stop them first (list their units in [refresh].units)'')
            else ok ())))"

definition reached_schemas :: "restore_lists \<Rightarrow> string option \<Rightarrow> string list" where
  "reached_schemas ls owner =
     (case owner of
        None \<Rightarrow> []
      | Some _ \<Rightarrow> filter (\<lambda>schema. list_ex (\<lambda>line. schema \<in> set (drop 3 (split_whitespace line))) (lines (rl_app ls))) (rl_made_schemas ls))"

fun grant_schemas :: "'w refresh_server \<Rightarrow> pg_conn \<Rightarrow> string \<Rightarrow> string list \<Rightarrow> ('w, string, unit) eff" where
  "grant_schemas server conn role [] = ok ()"
| "grant_schemas server conn role (schema # schemas) =
     (let grant = (\<lambda>p. map_err (\<lambda>error. ''GRANT '' @ privilege_keyword p @ '' ON SCHEMA '' @ schema @ '' failed: '' @ error)
            (rf_schema_privilege server conn p schema role False))
      in and_then (grant Usage) (\<lambda>_. and_then (grant Create) (\<lambda>_. grant_schemas server conn role schemas)))"

fun revoke_schemas :: "'w refresh_server \<Rightarrow> pg_conn \<Rightarrow> string \<Rightarrow> string list \<Rightarrow> string + unit \<Rightarrow> ('w, string, string + unit) eff" where
  "revoke_schemas server conn role [] revoked = ok revoked"
| "revoke_schemas server conn role (schema # schemas) revoked =
     and_then (result_of (rf_schema_privilege server conn Create schema role True)) (\<lambda>r.
     revoke_schemas server conn role schemas (case r of
         Inl error \<Rightarrow> Inl (''REVOKE CREATE ON SCHEMA '' @ schema @ '' FROM '' @ role @ '' failed, so the role keeps it: '' @ error)
       | Inr _ \<Rightarrow> revoked))"

definition run_restore_lists :: "'w refresh_server \<Rightarrow> pg_conn \<Rightarrow> string \<Rightarrow> restore_lists \<Rightarrow> string option \<Rightarrow> ('w, string, string) eff" where
  "run_restore_lists server conn archive ls owner =
     (let reached = reached_schemas ls owner in
      and_then (case owner of Some role \<Rightarrow> grant_schemas server conn role reached | None \<Rightarrow> ok ()) (\<lambda>_.
      and_then (result_of (map_err (\<lambda>error. ''pg_restore of the archive'' @ [squote] @ ''s objects failed: '' @ error)
        (rf_restore_list server conn archive (rl_app ls) owner False))) (\<lambda>objects.
      and_then (case owner of Some role \<Rightarrow> revoke_schemas server conn role reached (Inr ()) | None \<Rightarrow> ok (Inr ())) (\<lambda>revoked.
      and_then (from_result objects) (\<lambda>warnings.
      and_then (from_result revoked) (\<lambda>_.
      if rl_extension_data ls \<noteq> []
      then and_then (map_err (\<lambda>error. ''pg_restore of the extensions'' @ [squote] @ '' rows failed: '' @ error)
        (rf_restore_list server conn archive (rl_extension_data ls) None True)) (\<lambda>rows. ok (warnings @ rows))
      else ok warnings))))))"

definition refusal :: "string \<Rightarrow> restore_error" where
  "refusal reason = Refused (reason @ ''. Nothing was changed'')"

text \<open>Everything that can refuse, in the order of the source: the listing, its extensions and the owner of what is restored.\<close>

definition refresh_checks :: "'w refresh_server \<Rightarrow> restore_identity \<Rightarrow> string \<Rightarrow> string \<Rightarrow>
    ('w, restore_error, string \<times> bool \<times> string list \<times> string option) eff" where
  "refresh_checks server i archive marker =
     (let target = pg_database (ri_app i); conn = restorer i target; maintenance = restorer i ''postgres'' in
      and_then (list_archive server archive) (\<lambda>listing.
      and_then (precheck_listing server i conn listing) (\<lambda>creates_tviews.
      let extensions = archive_extensions listing in
      and_then (if extensions \<noteq> []
          then and_then (result_of (rf_extensions_problem server maintenance extensions)) (\<lambda>r. case r of
              Inr None \<Rightarrow> ok ()
            | Inr (Some problem) \<Rightarrow> fail (refusal problem)
            | Inl error \<Rightarrow> fail (refusal (''could not check the extensions: '' @ error)))
          else ok ()) (\<lambda>_.
      and_then (if rl_extension_data (split_listing listing extensions []) \<noteq> [] \<and> \<not> uses_admin i
          then fail (refusal (''the archive carries rows of tables an extension owns, which only a superuser may restore; '' @
            ''set [database].admin_url_env to a superuser DSN''))
          else ok ()) (\<lambda>_.
      and_then (if uses_admin i
          then map_ok Some (map_err (\<lambda>error. refusal (''could not read the app role: '' @ error)) (rs_current_user server (ri_app i)))
          else ok None) (\<lambda>owner.
      and_then (and_then (result_of (rf_marker_privilege server conn)) (\<lambda>r. case r of
              Inr None \<Rightarrow> ok ()
            | Inr (Some problem) \<Rightarrow> fail (refusal problem)
            | Inl error \<Rightarrow> fail (refusal (''could not check the marker privilege: '' @ error)))) (\<lambda>_.
      and_then (map_err refusal (marked_and_idle server conn maintenance marker)) (\<lambda>_.
      ok (listing, creates_tviews, extensions, owner)))))))))"

text \<open>And everything from the drop on.\<close>

definition replace_database :: "'w refresh_server \<Rightarrow> restore_identity \<Rightarrow> string \<Rightarrow> string \<Rightarrow>
    string \<times> bool \<times> string list \<times> string option \<Rightarrow> ('w, string, refreshed) eff" where
  "replace_database server i archive marker = (\<lambda>(listing, creates_tviews, extensions, owner).
     let target = pg_database (ri_app i); conn = restorer i target; maintenance = restorer i ''postgres'' in
     and_then (map_err (\<lambda>error. ''DROP DATABASE '' @ target @ '' failed: '' @ error) (rs_drop server maintenance target)) (\<lambda>_.
     and_then (map_err (\<lambda>error. ''CREATE DATABASE '' @ target @ '' failed: '' @ error) (rs_create server maintenance target owner)) (\<lambda>_.
     and_then (map_err (\<lambda>error. ''could not mark '' @ target @ '' again: '' @ error) (rf_set_marker server conn marker)) (\<lambda>_.
     and_then (if extensions \<noteq> []
         then map_err (\<lambda>error. ''CREATE EXTENSION failed: '' @ error) (rf_create_extensions server conn extensions) else ok ()) (\<lambda>_.
     and_then (map_err (\<lambda>error. ''could not list the schemas: '' @ error) (rf_schemas server conn)) (\<lambda>schemas.
     and_then (run_restore_lists server conn archive (split_listing listing extensions schemas) owner) (\<lambda>warnings.
     and_then (if creates_tviews
         then and_then (map_err (\<lambda>error. ''the post-restore TVIEW rebuild failed: '' @ error) (rebuild_tviews server conn)) (\<lambda>r.
           if tr_still_empty r \<noteq> []
           then fail (''after the post-restore TVIEW rebuild, these TVIEWs are still empty over a populated view: '' @ join '', '' (tr_still_empty r))
           else ok (Some r))
         else ok None) (\<lambda>tviews.
     ok \<lparr>rd_warnings = warnings, rd_extensions = extensions, rd_tviews = tviews\<rparr>))))))))"

definition refresh_in_place :: "'w refresh_server \<Rightarrow> restore_identity \<Rightarrow> string \<Rightarrow> string \<Rightarrow> ('w, restore_error, refreshed) eff" where
  "refresh_in_place server i archive marker =
     and_then (refresh_checks server i archive marker) (\<lambda>plan. map_err Failed (replace_database server i archive marker plan))"

section \<open>Nothing is dropped unchecked\<close>

text \<open>What the code relies on: the server calls of the checks only read.\<close>

definition reads_only :: "'w refresh_server \<Rightarrow> ('w \<Rightarrow> 'o) \<Rightarrow> bool" where
  "reads_only server obs \<longleftrightarrow>
     (\<forall>a. keeps obs (rs_list server a)) \<and> (\<forall>c. keeps obs (rs_identity server c)) \<and> (\<forall>c. keeps obs (rs_current_user server c)) \<and>
     (\<forall>c es. keeps obs (rf_extensions_problem server c es)) \<and> (\<forall>c. keeps obs (rf_marker_privilege server c)) \<and>
     (\<forall>c. keeps obs (rf_marker server c)) \<and> (\<forall>c db. keeps obs (rf_connections server c db))"

lemma keeps_marked_and_idle: "reads_only server obs \<Longrightarrow> keeps obs (marked_and_idle server conn maintenance marker)"
  unfolding marked_and_idle_def Let_def reads_only_def by (intro keeps_intros) simp_all

lemma keeps_refresh_checks:
  assumes "reads_only server obs"
  shows "keeps obs (refresh_checks server i archive marker)"
proof -
  note r = assms [unfolded reads_only_def]
  have pre: "keeps obs (list_archive server a)" "keeps obs (precheck_listing server i c l)" for a c l
    using r by (intro keeps_precheck; simp)+
  show ?thesis
    unfolding refresh_checks_def Let_def using r by (intro keeps_intros pre keeps_marked_and_idle [OF assms]) simp_all
qed

lemma marked_and_idle_ok:
  assumes "marked_and_idle server conn maintenance marker w = (Inr u, w2)"
  shows "\<exists>w1. rf_marker server conn w = (Inr (Some marker), w1) \<and> rf_connections server maintenance (pg_database conn) w1 = (Inr [], w2)"
proof -
  obtain q w1 where q: "rf_marker server conn w = (q, w1)" by fastforce
  show ?thesis using assms
    by (simp add: marked_and_idle_def Let_def and_then_eq_Inr result_of_run q split: sum.splits option.splits if_splits)
qed

definition is_refusal :: "restore_error \<Rightarrow> bool" where
  "is_refusal e \<longleftrightarrow> (\<exists>reason. e = Refused reason)"

lemma is_refusal_simps [simp]: "is_refusal (Refused reason)" "\<not> is_refusal (Failed reason)" "is_refusal (refusal reason)"
  by (simp_all add: is_refusal_def refusal_def)

lemma refresh_checks_refuse: "fails_in is_refusal (refresh_checks server i archive marker)"
  unfolding refresh_checks_def list_archive_def precheck_listing_def Let_def by (intro fails_intros) simp_all

lemma refresh_checks_pass:
  assumes "refresh_checks server i archive marker w = (Inr p, w2)"
  shows "\<exists>w0 u. marked_and_idle server (restorer i (pg_database (ri_app i))) (restorer i ''postgres'') marker w0 = (Inr u, w2)"
  using assms unfolding refresh_checks_def Let_def by (auto simp: and_then_eq_Inr)

text \<open>
  C9: a refresh drops nothing unchecked. If it refuses, nothing the checks could only read has changed;
  otherwise the two calls right before the drop read the marker of this very target, found it to be the
  expected one, and found no other session connected, and whatever fails from there on is not reported as
  a refusal.
\<close>

theorem refresh_guarded:
  fixes i :: restore_identity
  defines "target \<equiv> pg_database (ri_app i)"
  assumes "reads_only server obs" and "refresh_in_place server i archive marker w = (r, w')"
  shows "(\<exists>reason. r = Inl (Refused reason)) \<and> obs w' = obs w \<or>
    (\<nexists>reason. r = Inl (Refused reason)) \<and>
    (\<exists>w0 w1 w2 p. rf_marker server (restorer i target) w0 = (Inr (Some marker), w1) \<and>
       rf_connections server (restorer i ''postgres'') target w1 = (Inr [], w2) \<and> obs w2 = obs w \<and>
       map_err Failed (replace_database server i archive marker p) w2 = (r, w'))"
proof (cases "refresh_checks server i archive marker w")
  case (Pair q w2)
  have kept: "obs w2 = obs w" by (rule keepsD [OF keeps_refresh_checks [OF assms(2)] Pair])
  show ?thesis
  proof (cases q)
    case (Inl e)
    with Pair assms(3) have "r = Inl e" "w' = w2" by (simp_all add: refresh_in_place_def)
    with kept fails_inD [OF refresh_checks_refuse Pair [unfolded Inl]] show ?thesis by (simp add: is_refusal_def)
  next
    case (Inr p)
    with Pair assms(3) have run: "map_err Failed (replace_database server i archive marker p) w2 = (r, w')"
      by (simp add: refresh_in_place_def)
    then have "\<nexists>reason. r = Inl (Refused reason)" by (auto simp: map_err_def split: prod.splits sum.splits)
    moreover from refresh_checks_pass [OF Pair [unfolded Inr]] obtain w0 u where
      "marked_and_idle server (restorer i target) (restorer i ''postgres'') marker w0 = (Inr u, w2)" by (auto simp: target_def)
    from marked_and_idle_ok [OF this] obtain w1 where
      "rf_marker server (restorer i target) w0 = (Inr (Some marker), w1)"
      "rf_connections server (restorer i ''postgres'') target w1 = (Inr [], w2)" by auto
    ultimately show ?thesis using run kept by blast
  qed
qed

text \<open>
  A server for the examples. Its world is the set of schemas the app role may create objects in, and the
  schemas on which a \<open>GRANT CREATE\<close> fails; there is nothing to restore.
\<close>

definition demo_refresh :: "string \<Rightarrow> string list \<Rightarrow> string list \<Rightarrow> (string set) refresh_server" where
  "demo_refresh found sessions failing =
     \<lparr>rs_list = (\<lambda>a. ok []), rs_identity = (\<lambda>c. fail ''unused''), rs_current_user = (\<lambda>c. ok ''app''), rs_dump = (\<lambda>c p. ok ()),
      rs_create = (\<lambda>m n ow. ok ()), rs_restore = (\<lambda>c a b. fail ''unused''), rs_drop = (\<lambda>m n. fail ''busy''),
      rs_rebuild = (\<lambda>c b. fail ''unused''), rs_still_empty = (\<lambda>c. ok []), rs_remove_file = (\<lambda>p. ok ()),
      rf_marker = (\<lambda>c. ok (Some found)), rf_marker_privilege = (\<lambda>c. ok None), rf_set_marker = (\<lambda>c m. ok ()),
      rf_connections = (\<lambda>c db. ok sessions), rf_extensions_problem = (\<lambda>c es. ok None), rf_create_extensions = (\<lambda>c es. ok ()),
      rf_schemas = (\<lambda>c. ok []),
      rf_schema_privilege = (\<lambda>c p schema role revoke w.
        if p = Usage then (Inr (), w) else if revoke then (Inr (), w - {schema})
        else if schema \<in> set failing then (Inl ''permission denied'', w) else (Inr (), insert schema w)),
      rf_restore_list = (\<lambda>c a l role d. ok [])\<rparr>"

lemma demo_refresh_reads_only: "reads_only (demo_refresh found sessions failing) id"
  by (simp add: reads_only_def demo_refresh_def keeps_def)

theorem refresh_guarded_witness:
  "\<exists>reason w'. refresh_in_place (demo_refresh ''shop/staging'' [''bob''] []) demo_identity ''a.pgdump'' ''shop/staging'' {} = (Inl (Refused reason), w') \<and>
     w' = {}"
proof -
  have "lines [] = []" by (simp add: lines.simps)
  then have "\<exists>reason w'. refresh_in_place (demo_refresh ''shop/staging'' [''bob''] []) demo_identity ''a.pgdump'' ''shop/staging'' {} = (Inl (Refused reason), w')"
    by (simp add: refresh_in_place_def refresh_checks_def list_archive_def precheck_listing_def archive_creates_pg_tviews_def demo_refresh_def
        archive_extensions_def split_listing_def without_extensions_def unlines_def uses_admin_def demo_identity_def marked_and_idle_def
        map_filter_simps result_of_run and_then_def map_err_def refusal_def Let_def)
  then obtain reason w' where run: "refresh_in_place (demo_refresh ''shop/staging'' [''bob''] []) demo_identity ''a.pgdump'' ''shop/staging'' {} =
    (Inl (Refused reason), w')" by blast
  from refresh_guarded [OF demo_refresh_reads_only this] have "w' = {}" by simp
  with run show ?thesis by blast
qed

section \<open>Every entry is restored once\<close>

lemma lines_chars: "l \<in> set (lines s) \<Longrightarrow> newline \<notin> set l \<and> set l \<subseteq> set s"
proof (induction s rule: lines.induct)
  case (1 s)
  define h where "h = takeWhile (\<lambda>c. c \<noteq> newline) s"
  define r where "r = dropWhile (\<lambda>c. c \<noteq> newline) s"
  have h: "newline \<notin> set h" "set h \<subseteq> set s" by (auto simp: h_def dest: set_takeWhileD)
  have "set (tl r) \<subseteq> set r" by (cases r) auto
  then have r: "set (tl r) \<subseteq> set s" by (auto simp: r_def dest: set_dropWhileD)
  from "1.prems" have "s \<noteq> []" by (auto simp: lines.simps)
  then consider "l = h" | "l = butlast h" | "r \<noteq> []" "l \<in> set (lines (tl r))"
    using "1.prems" by (subst (asm) lines.simps) (auto simp: h_def [symmetric] r_def [symmetric] Let_def split: if_splits)
  then show ?case
  proof cases
    case 3
    with "1.IH" [OF \<open>s \<noteq> []\<close> h_def r_def] r show ?thesis by blast
  qed (use h in_set_butlastD in fastforce)+
qed

lemma lines_unlines:
  "(\<And>l. l \<in> set ls \<Longrightarrow> newline \<notin> set l \<and> CHR 0x0D \<notin> set l) \<Longrightarrow> lines (unlines ls) = ls"
proof (induction ls)
  case Nil
  show ?case by (simp add: unlines_def lines.simps)
next
  case (Cons l ls)
  then have "lines (l @ newline # unlines ls) = l # lines (unlines ls)" by (intro lines_Cons) simp_all
  with Cons show ?case by (simp add: unlines_def)
qed

text \<open>What becomes of a line: the admin restored it already, or it belongs to one of the two passes.\<close>

definition already_there :: "string list \<Rightarrow> string list \<Rightarrow> string \<Rightarrow> bool" where
  "already_there extensions existing l \<longleftrightarrow> created_by extensions l \<or> made_schema existing (entry_tokens l)"

definition extension_line :: "string \<Rightarrow> string \<Rightarrow> bool" where
  "extension_line listing l = extension_rows (table_entries listing) (entry_tokens l)"

lemma extension_rows_not_schema: "extension_rows tables t \<Longrightarrow> \<not> made_schema existing t"
  by (auto simp: extension_rows_def made_schema_def made_schema_name_def split: list.splits)

lemma split_loop_filter:
  "split_loop tables existing ls r =
     r\<lparr>rl_app := rl_app r @ unlines (filter (\<lambda>l. \<not> extension_rows tables (entry_tokens l) \<and> \<not> made_schema existing (entry_tokens l)) ls),
       rl_extension_data := rl_extension_data r @ unlines (filter (\<lambda>l. extension_rows tables (entry_tokens l)) ls),
       rl_made_schemas := rl_made_schemas r @ List.map_filter (\<lambda>l. made_schema_name existing (entry_tokens l)) ls\<rparr>"
  by (induction ls arbitrary: r) (auto simp: Let_def unlines_def map_filter_simps split: option.splits)

text \<open>
  The two restore passes of a refresh cover the archive. For a listing without carriage returns the
  lists of the two passes hold, in the archive's order, exactly the listing's lines that the admin has not
  already put in place, each in one of the two lists: rows of a table without an entry of its own go to
  the second pass, everything else to the first.
\<close>

theorem split_listing_covers:
  assumes "CHR 0x0D \<notin> set listing" and "split_listing listing extensions existing = ls"
  shows "lines (rl_app ls) = filter (\<lambda>l. \<not> already_there extensions existing l \<and> \<not> extension_line listing l) (lines listing) \<and>
    lines (rl_extension_data ls) = filter (\<lambda>l. \<not> already_there extensions existing l \<and> extension_line listing l) (lines listing)"
proof -
  have clean: "newline \<notin> set l \<and> CHR 0x0D \<notin> set l" if "l \<in> set (filter P (lines listing))" for l P
    using that lines_chars [of l listing] assms(1) by auto
  have again: "lines (unlines (filter P (lines listing))) = filter P (lines listing)" for P by (rule lines_unlines) (rule clean)
  then have "lines (without_extensions listing extensions) = filter (\<lambda>l. \<not> created_by extensions l) (lines listing)"
    by (simp add: without_extensions_def)
  with assms(2) have "rl_app ls = unlines (filter (\<lambda>l. \<not> already_there extensions existing l \<and> \<not> extension_line listing l) (lines listing))"
    "rl_extension_data ls = unlines (filter (\<lambda>l. \<not> already_there extensions existing l \<and> extension_line listing l) (lines listing))"
    by (auto simp: split_listing_def split_loop_filter already_there_def extension_line_def extension_rows_not_schema intro!: filter_cong arg_cong [of _ _ unlines])
  then show ?thesis by (simp add: again)
qed

theorem split_listing_covers_witness:
  "lines (rl_app (split_listing ''1; 2 3 TABLE public t app'' [] [])) = [''1; 2 3 TABLE public t app'']"
proof -
  have lines: "lines ''1; 2 3 TABLE public t app'' = [''1; 2 3 TABLE public t app'']" by code_simp
  have entry: "already_there [] [] ''1; 2 3 TABLE public t app'' = False" "extension_line ''1; 2 3 TABLE public t app'' ''1; 2 3 TABLE public t app'' = False"
    by code_simp+
  show ?thesis using split_listing_covers [of "''1; 2 3 TABLE public t app''" "[]" "[]", OF _ refl] by (simp add: lines entry)
qed

section \<open>What the app role may create\<close>

text \<open>
  What the code relies on: a successful \<open>GRANT\<close> or \<open>REVOKE CREATE\<close> adds or removes the schema from those the
  role may create objects in, and no other call changes them.
\<close>

definition tracks_create :: "'w refresh_server \<Rightarrow> string \<Rightarrow> ('w \<Rightarrow> string set) \<Rightarrow> bool" where
  "tracks_create server role creates \<longleftrightarrow>
     (\<forall>c a l ow d. keeps creates (rf_restore_list server c a l ow d)) \<and>
     (\<forall>c schema revoke. keeps creates (rf_schema_privilege server c Usage schema role revoke)) \<and>
     (\<forall>c schema revoke w r w'. rf_schema_privilege server c Create schema role revoke w = (r, w') \<longrightarrow>
        creates w' = (if \<not> is_ok r then creates w else if revoke then creates w - {schema} else insert schema (creates w)))"

lemma grant_schemas_creates:
  assumes "tracks_create server role creates"
  shows "grant_schemas server conn role schemas w = (Inr u, w') \<Longrightarrow> creates w' = creates w \<union> set schemas"
proof (induction schemas arbitrary: w)
  case (Cons schema schemas)
  from Cons.prems obtain w1 w2 where p: "rf_schema_privilege server conn Usage schema role False w = (Inr (), w1)"
    "rf_schema_privilege server conn Create schema role False w1 = (Inr (), w2)" "grant_schemas server conn role schemas w2 = (Inr u, w')"
    by (auto simp: and_then_eq_Inr Let_def)
  have "creates w1 = creates w" "creates w2 = insert schema (creates w1)"
    using assms p(1,2) keepsD [of creates "rf_schema_privilege server conn Usage schema role False", OF _ p(1)]
    by (auto simp: tracks_create_def)
  with Cons.IH [OF p(3)] show ?case by auto
qed simp

lemma grant_schemas_ok:
  "(\<forall>p schema revoke w. is_ok (fst (rf_schema_privilege server conn p schema role revoke w))) \<Longrightarrow>
     grant_schemas server conn role schemas w = (g, w') \<Longrightarrow> is_ok g"
proof (induction schemas arbitrary: w)
  case (Cons schema schemas)
  obtain r1 w1 where p1: "rf_schema_privilege server conn Usage schema role False w = (r1, w1)" by fastforce
  obtain r2 w2 where p2: "rf_schema_privilege server conn Create schema role False w1 = (r2, w2)" by fastforce
  have "is_ok r1" "is_ok r2" using Cons.prems(1) p1 p2 by (metis fst_conv)+
  with Cons p1 p2 show ?case by (auto simp: is_ok_iff Let_def and_then_def map_err_def)
qed auto

lemma revoke_schemas_ok: "\<exists>q w'. revoke_schemas server conn role schemas revoked w = (Inr q, w')"
  by (induction schemas arbitrary: revoked w) (auto simp: and_then_def result_of_run)

lemma revoke_schemas_creates:
  assumes "tracks_create server role creates"
    and "revoke_schemas server conn role schemas revoked w = (Inr q, w')"
  shows "(is_ok q \<longrightarrow> is_ok revoked) \<and>
    (is_ok q \<or> (\<forall>schema w. is_ok (fst (rf_schema_privilege server conn Create schema role True w))) \<longrightarrow>
       creates w' = creates w - set schemas)"
  using assms(2)
proof (induction schemas arbitrary: revoked w)
  case (Cons schema schemas)
  obtain r w1 where p: "rf_schema_privilege server conn Create schema role True w = (r, w1)" by fastforce
  have c: "creates w1 = (if is_ok r then creates w - {schema} else creates w)" using assms(1) p by (auto simp: tracks_create_def)
  have "(\<forall>schema w. is_ok (fst (rf_schema_privilege server conn Create schema role True w))) \<Longrightarrow> is_ok r"
    using p by (metis fst_conv)
  moreover from Cons.prems p have "revoke_schemas server conn role schemas
    (case r of Inl e \<Rightarrow> Inl (''REVOKE CREATE ON SCHEMA '' @ schema @ '' FROM '' @ role @ '' failed, so the role keeps it: '' @ e) | Inr _ \<Rightarrow> revoked) w1 = (Inr q, w')"
    by (simp add: and_then_def result_of_run)
  note Cons.IH [OF this]
  ultimately show ?case using c by (cases r) (auto simp del: append_Cons append.simps)
qed simp

lemma run_restore_lists_run:
  "run_restore_lists server conn archive ls (Some role) w =
     (case grant_schemas server conn role (reached_schemas ls (Some role)) w of (Inl e, w1) \<Rightarrow> (Inl e, w1) | (Inr u, w1) \<Rightarrow>
     (case rf_restore_list server conn archive (rl_app ls) (Some role) False w1 of (objects, w2) \<Rightarrow>
     (case revoke_schemas server conn role (reached_schemas ls (Some role)) (Inr ()) w2 of (Inl e, w3) \<Rightarrow> (Inl e, w3) | (Inr revoked, w3) \<Rightarrow>
     (case objects of Inl e \<Rightarrow> (Inl (''pg_restore of the archive'' @ [squote] @ ''s objects failed: '' @ e), w3) | Inr warnings \<Rightarrow>
     (case revoked of Inl e \<Rightarrow> (Inl e, w3) | Inr v \<Rightarrow>
     (if rl_extension_data ls \<noteq> []
      then and_then (map_err (\<lambda>error. ''pg_restore of the extensions'' @ [squote] @ '' rows failed: '' @ error)
        (rf_restore_list server conn archive (rl_extension_data ls) None True)) (\<lambda>rows. ok (warnings @ rows)) w3
      else (Inr warnings, w3)))))))"
  unfolding run_restore_lists_def Let_def
  by (simp add: and_then_def map_err_def result_of_run split: prod.splits sum.splits)

text \<open>
  After a refresh the app role may create nothing it could not create before. A successful restore
  ends with \<open>CREATE\<close> revoked on every schema it was granted on, and so does a failing one, whatever the
  first pass did, as long as the server refuses no \<open>GRANT\<close> or \<open>REVOKE\<close>.
\<close>

theorem refresh_revokes_create:
  assumes "tracks_create server role creates" and "run_restore_lists server conn archive ls (Some role) w = (r, w')"
    and "is_ok r \<or> (\<forall>p schema revoke w. is_ok (fst (rf_schema_privilege server conn p schema role revoke w)))"
  shows "creates w' = creates w - set (reached_schemas ls (Some role))"
proof -
  let ?schemas = "reached_schemas ls (Some role)"
  obtain g w1 where g: "grant_schemas server conn role ?schemas w = (g, w1)" by fastforce
  obtain objects w2 where o: "rf_restore_list server conn archive (rl_app ls) (Some role) False w1 = (objects, w2)" by fastforce
  obtain q w3 where q: "revoke_schemas server conn role ?schemas (Inr ()) w2 = (Inr q, w3)" using revoke_schemas_ok by metis
  have "is_ok g" using assms(3)
  proof
    assume "is_ok r"
    then show ?thesis using assms(2) g unfolding run_restore_lists_run by (auto split: sum.splits)
  next
    assume "\<forall>p schema revoke w. is_ok (fst (rf_schema_privilege server conn p schema role revoke w))"
    from grant_schemas_ok [OF this g] show ?thesis .
  qed
  then have c1: "creates w1 = creates w \<union> set ?schemas" using grant_schemas_creates [OF assms(1)] g by (auto simp: is_ok_iff)
  have kept: "keeps creates (rf_restore_list server c a l ow d)" for c a l ow d using assms(1) by (simp add: tracks_create_def)
  have "is_ok q \<or> (\<forall>schema w. is_ok (fst (rf_schema_privilege server conn Create schema role True w)))"
    using assms(2,3) \<open>is_ok g\<close> g o q unfolding run_restore_lists_run by (auto split: sum.splits simp: is_ok_iff)
  then have c3: "creates w3 = creates w2 - set ?schemas" using revoke_schemas_creates [OF assms(1) q] by blast
  have "creates w' = creates w3"
    using assms(2) \<open>is_ok g\<close> g o q keepsD [OF kept] unfolding run_restore_lists_run
    by (auto split: sum.splits if_splits simp: is_ok_iff and_then_def map_err_def split: prod.splits)
  with c1 c3 keepsD [OF kept o] show ?thesis by auto
qed

definition demo_lists :: restore_lists where
  "demo_lists = \<lparr>rl_app = unlines [''1; 2 3 TABLE a t app'', ''2; 2 3 TABLE b u app''], rl_extension_data = [], rl_made_schemas = [''a'', ''b'', ''c'']\<rparr>"

lemma demo_reached: "reached_schemas demo_lists (Some ''app'') = [''a'', ''b'']"
  by code_simp

lemma demo_tracks_create: "tracks_create (demo_refresh found sessions failing) role id"
  by (auto simp: tracks_create_def demo_refresh_def keeps_def)

theorem refresh_revokes_create_witness:
  "\<exists>r w'. run_restore_lists (demo_refresh [] [] []) (ri_app demo_identity) ''a.pgdump'' demo_lists (Some ''app'') {''b'', ''d''} = (r, w') \<and> w' = {''d''}"
proof -
  obtain r w' where run: "run_restore_lists (demo_refresh [] [] []) (ri_app demo_identity) ''a.pgdump'' demo_lists (Some ''app'') {''b'', ''d''} = (r, w')"
    by fastforce
  have "\<forall>p schema revoke w. is_ok (fst (rf_schema_privilege (demo_refresh [] [] []) (ri_app demo_identity) p schema ''app'' revoke w))"
    by (simp add: demo_refresh_def)
  from refresh_revokes_create [OF demo_tracks_create run] this have "w' = {''b'', ''d''} - set (reached_schemas demo_lists (Some ''app''))" by simp
  with run show ?thesis by (simp add: demo_reached)
qed

text \<open>
  The exception: when a later \<open>GRANT\<close> fails, the function returns before the loop that revokes, and the app
  role keeps \<open>CREATE\<close> on the schemas before it.
\<close>

theorem failed_grant_keeps_create:
  "\<exists>e. run_restore_lists (demo_refresh [] [] [''b'']) (ri_app demo_identity) ''a.pgdump'' demo_lists (Some ''app'') {} = (Inl e, {''a''})"
  by (simp add: run_restore_lists_run demo_reached) (simp add: demo_refresh_def and_then_def map_err_def Let_def)

end
