(* ===== verification/Decimal.thy ===== *)
theory Decimal
  imports Prelude
begin

text \<open>
  Decimal numbers in strings: parsing, zero-padded rendering and the byte order of strings, with the
  facts that fixed-width decimals parse back and sort as the numbers do. Shared by the theories that
  read or print numbers; nothing here models a file of the repository by itself.
\<close>

text \<open>And decimal parsing of an unsigned integer without a sign.\<close>

definition is_digit :: "char \<Rightarrow> bool" where
  "is_digit c = (let n = of_char c :: nat in 48 \<le> n \<and> n \<le> 57)"

lemma is_digit_code [code]: "is_digit c = (let n = of_char c :: int in 48 \<le> n \<and> n \<le> 57)"
proof -
  have "(of_char c :: int) = int (of_char c)" by (simp add: of_nat_of_char)
  then show ?thesis unfolding is_digit_def Let_def by simp
qed

definition digit_value :: "char \<Rightarrow> nat" where
  "digit_value c = of_char c - 48"

definition dec_value :: "string \<Rightarrow> nat" where
  "dec_value = foldl (\<lambda>n c. 10 * n + digit_value c) 0"

definition parse_dec :: "string \<Rightarrow> nat option" where
  "parse_dec s = (if s \<noteq> [] \<and> list_all is_digit s then Some (dec_value s) else None)"

text \<open>\<open>{n:0w}\<close>: decimal rendering padded with zeros on the left.\<close>

definition pad :: "nat \<Rightarrow> nat \<Rightarrow> string" where
  "pad w n = (let s = show_nat n in replicate (w - length s) (CHR ''0'') @ s)"

text \<open>The order of strings (\<open>Ord for str\<close>): by bytes, a proper prefix first.\<close>

fun str_less :: "string \<Rightarrow> string \<Rightarrow> bool" where
  "str_less [] ys = (ys \<noteq> [])"
| "str_less (x # xs) [] = False"
| "str_less (x # xs) (y # ys) = ((of_char x :: nat) < of_char y \<or> x = y \<and> str_less xs ys)"

lemma digit_char [simp]: "n < 10 \<Longrightarrow> is_digit (digit_char n)" "n < 10 \<Longrightarrow> digit_value (digit_char n) = n"
  by (simp_all add: is_digit_def digit_char_def digit_value_def)

lemma digit_value_less: "is_digit c \<Longrightarrow> digit_value c < 10"
  by (auto simp: is_digit_def digit_value_def Let_def)

lemma dec_value_snoc [simp]: "dec_value [] = 0" "dec_value (s @ [c]) = 10 * dec_value s + digit_value c"
  by (simp_all add: dec_value_def)

lemma dec_value_Cons: "dec_value (c # s) = digit_value c * 10 ^ length s + dec_value s"
proof (induction s rule: rev_induct)
  case (snoc x s)
  have "dec_value (c # s @ [x]) = 10 * dec_value (c # s) + digit_value x" using dec_value_snoc(2) [of "c # s" x] by simp
  with snoc show ?case by simp
qed (simp add: dec_value_def)

lemma dec_value_less: "list_all is_digit s \<Longrightarrow> dec_value s < 10 ^ length s"
proof (induction s)
  case (Cons c s)
  then have "digit_value c * 10 ^ length s \<le> 9 * 10 ^ length s"
    using digit_value_less [of c] by (intro mult_right_mono) simp_all
  moreover have "dec_value s < 10 ^ length s" using Cons by simp
  moreover have "dec_value (c # s) = digit_value c * 10 ^ length s + dec_value s" by (rule dec_value_Cons)
  ultimately show ?case unfolding length_Cons power_Suc by linarith
qed simp

lemma dec_value_zeros: "dec_value (replicate k (CHR ''0'') @ s) = dec_value s"
  by (induction k) (simp_all add: dec_value_Cons digit_value_def)

lemma show_nat_dec: "list_all is_digit (show_nat n) \<and> show_nat n \<noteq> [] \<and> dec_value (show_nat n) = n"
proof (induction n rule: show_nat.induct)
  case (1 n)
  show ?case
  proof (cases "n < 10")
    case True
    then show ?thesis by (simp add: show_nat.simps [of n] dec_value_Cons)
  next
    case False
    with 1 show ?thesis by (simp add: show_nat.simps [of n])
  qed
qed

lemma parse_show_nat [simp]: "parse_dec (show_nat n) = Some n"
  by (simp add: parse_dec_def show_nat_dec)

lemma show_nat_length: "n < 10 ^ Suc w \<Longrightarrow> length (show_nat n) \<le> Suc w"
proof (induction w arbitrary: n)
  case (Suc w)
  then show ?case by (cases "n < 10") (simp_all add: show_nat.simps [of n])
qed (simp add: show_nat.simps)

lemma pad_digits [simp]: "list_all is_digit (pad w n)" "dec_value (pad w n) = n" "pad w n \<noteq> []"
proof -
  have "list_all is_digit (replicate k (CHR ''0''))" for k by (simp add: list_all_iff is_digit_def)
  then show "list_all is_digit (pad w n)" "dec_value (pad w n) = n" "pad w n \<noteq> []"
    by (simp_all add: pad_def Let_def show_nat_dec dec_value_zeros)
qed

lemma pad_length: "n < 10 ^ w \<Longrightarrow> 0 < w \<Longrightarrow> length (pad w n) = w"
  using show_nat_length [of n "w - 1"] by (simp add: pad_def Let_def)

lemma parse_pad [simp]: "parse_dec (pad w n) = Some n"
  by (simp add: parse_dec_def)

lemma digit_inj: "is_digit x \<Longrightarrow> is_digit y \<Longrightarrow> digit_value x = digit_value y \<Longrightarrow> x = y"
  using eq_diff_iff [of 48 "of_char x :: nat" "of_char y"] by (simp add: is_digit_def digit_value_def Let_def)

lemma str_less_digits:
  assumes "length xs = length ys" and "list_all is_digit xs" and "list_all is_digit ys"
  shows "str_less xs ys \<longleftrightarrow> dec_value xs < dec_value ys"
  using assms
proof (induction xs ys rule: list_induct2)
  case (Cons x xs y ys)
  have less: "dec_value xs < 10 ^ length ys" "dec_value ys < 10 ^ length ys"
    using Cons.prems dec_value_less [of xs] dec_value_less [of ys] by (simp_all add: Cons.hyps)
  have lt: "digit_value a * 10 ^ length ys + u < digit_value b * 10 ^ length ys + v"
    if "digit_value a < digit_value b" "u < 10 ^ length ys" for a b u v
  proof -
    have "Suc (digit_value a) * 10 ^ length ys \<le> digit_value b * 10 ^ length ys" using that(1) by (intro mult_right_mono) simp_all
    with that(2) show ?thesis by simp
  qed
  have ord: "(of_char x :: nat) < of_char y \<longleftrightarrow> digit_value x < digit_value y"
    using Cons.prems by (auto simp: is_digit_def digit_value_def Let_def)
  consider "digit_value x < digit_value y" | "x = y" | "digit_value y < digit_value x"
    using Cons.prems digit_inj [of x y] by (auto intro: linorder_neqE_nat)
  then show ?case
  proof cases
    case 1
    with lt [OF 1 less(1)] ord show ?thesis by (simp add: dec_value_Cons Cons.hyps)
  next
    case 2
    with Cons show ?thesis by (simp add: dec_value_Cons)
  next
    case 3
    with lt [OF 3 less(2), of "dec_value xs"] ord show ?thesis by (auto simp: dec_value_Cons Cons.hyps)
  qed
qed simp

lemma str_less_append:
  "length xs = length xs' \<Longrightarrow> str_less (xs @ ys) (xs' @ ys') \<longleftrightarrow> str_less xs xs' \<or> xs = xs' \<and> str_less ys ys'"
  by (induction xs xs' rule: list_induct2) auto

text \<open>
  \<open>str::parse::<u64>\<close>: an optional plus sign and decimal digits, in range.
\<close>

definition parse_u64 :: "string \<Rightarrow> 64 word option" where
  "parse_u64 s =
     (case parse_dec (case s of c # t \<Rightarrow> if c = CHR ''+'' then t else s | [] \<Rightarrow> s) of
        Some n \<Rightarrow> if n < 2 ^ 64 then Some (of_nat n) else None
      | None \<Rightarrow> None)"

lemma parse_u64_code [code]:
  "parse_u64 s =
     (case parse_dec (case s of c # t \<Rightarrow> if c = CHR ''+'' then t else s | [] \<Rightarrow> s) of
        Some n \<Rightarrow> if int n < 0x10000000000000000 then Some (of_nat n) else None
      | None \<Rightarrow> None)"
proof -
  have "int n < 0x10000000000000000 \<longleftrightarrow> n < 2 ^ 64" for n
    using of_nat_less_iff [where 'a = int, of n "2 ^ 64"] by simp
  then show ?thesis unfolding parse_u64_def by (simp only:)
qed

lemma parse_show_u64 [simp]: "parse_u64 (show_nat (unat n)) = Some n"
proof -
  obtain c t where s: "show_nat (unat n) = c # t" using show_nat_dec [of "unat n"] by (cases "show_nat (unat n)") auto
  then have "is_digit c" using show_nat_dec [of "unat n"] by simp
  then have "c \<noteq> CHR ''+''" by (auto simp: is_digit_def)
  with s have "parse_u64 (show_nat (unat n)) = (case parse_dec (show_nat (unat n)) of Some k \<Rightarrow> if k < 2 ^ 64 then Some (of_nat k) else None | None \<Rightarrow> None)"
    by (simp add: parse_u64_def)
  also have "\<dots> = Some n" using unsigned_less [of n] by simp
  finally show ?thesis .
qed

lemma parse_u64_chars:
  assumes "parse_u64 s = Some n"
  shows "\<exists>p t. s = p @ t \<and> p \<in> {[], ''+''} \<and> t \<noteq> [] \<and> list_all is_digit t \<and> unat n = dec_value t"
proof -
  let ?t = "case s of c # t \<Rightarrow> if c = CHR ''+'' then t else s | [] \<Rightarrow> s"
  from assms have t: "parse_dec ?t = Some (unat n)" by (auto simp: parse_u64_def unsigned_of_nat take_bit_nat_eq_self split: option.splits if_splits)
  then have "?t \<noteq> [] \<and> list_all is_digit ?t \<and> unat n = dec_value ?t" by (auto simp: parse_dec_def split: if_splits)
  moreover have "\<exists>p\<in>{[], ''+''}. s = p @ ?t" by (auto split: list.splits)
  ultimately show ?thesis by blast
qed

end
