(* ===== verification/Utc_Stamp.thy ===== *)
theory Utc_Stamp
  imports Decimal
begin

text \<open>
  The timestamps of backup archives (\<open>fraisier-db/src/archive.rs\<close>): the calendar arithmetic, the
  fixed-width rendering \<open>yyyymmddThhmmssZ\<close>, its parser, and the instant a stamp names. The
  arithmetic is on \<open>int\<close>: the largest time a \<open>SystemTime\<close> holds is far from the 64-bit bounds here.
\<close>

section \<open>The calendar\<close>

definition is_leap :: "nat \<Rightarrow> bool" where
  "is_leap y \<longleftrightarrow> y mod 4 = 0 \<and> (y mod 100 \<noteq> 0 \<or> y mod 400 = 0)"

definition days_in_month :: "nat \<Rightarrow> nat \<Rightarrow> nat" where
  "days_in_month y m = (if m = 2 then if is_leap y then 29 else 28 else if m \<in> {4, 6, 9, 11} then 30 else 31)"

definition year_of_era :: "int \<Rightarrow> int" where
  "year_of_era day_of_era =
     (day_of_era - day_of_era div 1460 + day_of_era div 36524 - day_of_era div 146096) div 365"

definition civil_from_days :: "int \<Rightarrow> int \<times> nat \<times> nat" where
  "civil_from_days days =
     (let z = days + 719468; era = z div 146097; day_of_era = z mod 146097;
          yoe = year_of_era day_of_era;
          day_of_year = day_of_era - (365 * yoe + yoe div 4 - yoe div 100);
          shifted_month = (5 * day_of_year + 2) div 153;
          day = day_of_year - (153 * shifted_month + 2) div 5 + 1;
          month = (if shifted_month < 10 then shifted_month + 3 else shifted_month - 9);
          year = yoe + era * 400 + (if month \<le> 2 then 1 else 0)
      in (year, nat month, nat day))"

text \<open>
  \<open>u32::try_from\<close> of the month and the day falls back to 1 in the source; \<open>nat\<close> falls back to 0.
  Neither happens: the month and the day are in range (\<open>civil_valid\<close> below).
\<close>

definition days_from_civil :: "int \<Rightarrow> int \<Rightarrow> int \<Rightarrow> int" where
  "days_from_civil year month day =
     (let year = (if month \<le> 2 then year - 1 else year); era = year div 400; yoe = year mod 400;
          shifted_month = (if month > 2 then month - 3 else month + 9);
          day_of_year = (153 * shifted_month + 2) div 5 + day - 1;
          day_of_era = yoe * 365 + yoe div 4 - yoe div 100 + day_of_year
      in era * 146097 + day_of_era - 719468)"

subsection \<open>Eras\<close>

lemma int_div_eqI: "(b::int) * q \<le> a \<Longrightarrow> a < b * q + b \<Longrightarrow> a div b = q"
  by (rule int_div_pos_eq [of _ _ _ "a - b * q"]) simp_all

text \<open>
  A day of an era as century \<open>a\<close>, four-year cycle \<open>b\<close>, year \<open>k\<close> of the cycle and day \<open>d\<close> of a year that
  starts in March: only the last year of a cycle has a 366th day, and only if the cycle is not the last
  of its century or the century is the last of the era.
\<close>

definition era_day :: "int \<Rightarrow> int \<Rightarrow> int \<Rightarrow> int \<Rightarrow> bool" where
  "era_day a b k d \<longleftrightarrow> 0 \<le> a \<and> a \<le> 3 \<and> 0 \<le> b \<and> b \<le> 24 \<and> 0 \<le> k \<and> k \<le> 3 \<and> 0 \<le> d \<and> d \<le> 365 \<and>
     (d = 365 \<longrightarrow> k = 3 \<and> (b = 24 \<longrightarrow> a = 3))"

lemma era_day_exists:
  assumes "0 \<le> e" and "e < (146097::int)"
  obtains a b k d where "era_day a b k d" and "e = 36524 * a + 1461 * b + 365 * k + d"
proof (cases "e = 146096")
  case True
  then show ?thesis by (intro that [of 3 24 3 365]) (simp_all add: era_day_def)
next
  case False
  define a b where "a = e div 36524" and "b = e mod 36524 div 1461"
  define s where "s = e mod 36524 mod 1461"
  have e: "e = 36524 * a + (1461 * b + s)" by (simp add: a_def b_def s_def)
  have a: "0 \<le> a" "a \<le> 3" using assms False by (simp_all add: a_def)
  have r: "0 \<le> e mod 36524" "e mod 36524 < 36524" by simp_all
  then have b: "0 \<le> b" "b \<le> 24" by (simp_all add: b_def)
  have s: "0 \<le> s" "s < 1461" "1461 * b + s < 36524" using r(2) by (simp_all add: s_def b_def)
  show ?thesis
  proof (cases "s = 1460")
    case True
    with e a b s show ?thesis by (intro that [of a b 3 365]) (auto simp: era_day_def)
  next
    case False
    have "s = 365 * (s div 365) + s mod 365" by simp
    moreover have "0 \<le> s div 365" "s div 365 \<le> 3" "0 \<le> s mod 365" using s False by simp_all
    moreover have "s mod 365 \<le> 364" using pos_mod_bound [of 365 s] by simp
    ultimately show ?thesis using e a b
      by (intro that [of a b "s div 365" "s mod 365"]) (auto simp only: era_day_def)
  qed
qed

lemma year_of_era_eq:
  assumes "era_day a b k d"
  shows "year_of_era (36524 * a + 1461 * b + 365 * k + d) = 100 * a + 4 * b + k"
proof -
  let ?e = "36524 * a + 1461 * b + 365 * k + d"
  note day = assms [unfolded era_day_def]
  define s :: int where "s = (if 24 * a + b + 365 * k + d \<ge> 1460 then 1 else 0)"
  define m :: int where "m = (if ?e = 146096 then 1 else 0)"
  have q: "?e div 1460 = 25 * a + b + s" using day by (intro int_div_eqI) (auto simp: s_def)
  have m: "?e div 146096 = m" using day by (intro int_div_eqI) (auto simp: m_def)
  have c: "?e div 36524 = a + m" using day by (intro int_div_eqI) (auto simp: m_def)
  have "year_of_era ?e = (36500 * a + 1460 * b + 365 * k + d - s) div 365"
    unfolding year_of_era_def q m c by (simp add: algebra_simps)
  also have "\<dots> = 100 * a + 4 * b + k" using day by (intro int_div_eqI) (auto simp: s_def)
  finally show ?thesis .
qed

lemma era_year_div:
  assumes "era_day a b k d"
  shows "(100 * a + 4 * b + k) div 4 = 25 * a + b" "(100 * a + 4 * b + k) div 100 = a"
    "(400 * era + (100 * a + 4 * b + k)) div 400 = era" "(400 * era + (100 * a + 4 * b + k)) mod 400 = 100 * a + 4 * b + k"
proof -
  note day = assms [unfolded era_day_def]
  show "(100 * a + 4 * b + k) div 4 = 25 * a + b" "(100 * a + 4 * b + k) div 100 = a"
    "(400 * era + (100 * a + 4 * b + k)) div 400 = era"
    using day by (intro int_div_eqI; simp)+
  show "(400 * era + (100 * a + 4 * b + k)) mod 400 = 100 * a + 4 * b + k"
    using day by (simp add: mod_pos_pos_trivial)
qed

lemma era_year_inj:
  assumes "era_day a b k d" and "era_day a' b' k' d'" and eq: "400 * era + (100 * a + 4 * b + k) = 400 * era' + (100 * a' + 4 * b' + k')"
  shows "era = era' \<and> a = a' \<and> b = b' \<and> k = k'"
proof -
  note div = era_year_div [OF assms(1)] era_year_div [OF assms(2)]
  have "era = era'" using eq div(3) [of era] div(7) [of era'] by simp
  moreover have yoe: "100 * a + 4 * b + k = 100 * a' + 4 * b' + k'" using eq div(4) [of era] div(8) [of era'] by simp
  moreover have "a = a'" using yoe div(2) div(6) by simp
  moreover from this have "b = b'" using yoe div(1) div(5) by simp
  ultimately show ?thesis by simp
qed

subsection \<open>Months\<close>

text \<open>The month and the day of a day of a year that starts in March.\<close>

definition month_day :: "int \<Rightarrow> int \<times> int" where
  "month_day d =
     (let s = (5 * d + 2) div 153 in (if s < 10 then s + 3 else s - 9, d - (153 * s + 2) div 5 + 1))"

text \<open>And back: the first day of a month in such a year.\<close>

definition month_start :: "int \<Rightarrow> int" where
  "month_start m = (153 * (if m > 2 then m - 3 else m + 9) + 2) div 5"

definition month_day_ok :: "int \<Rightarrow> bool" where
  "month_day_ok d \<longleftrightarrow> (case month_day d of (m, j) \<Rightarrow> 1 \<le> m \<and> m \<le> 12 \<and> 1 \<le> j \<and>
     j \<le> (if m = 2 then 29 else if m \<in> {4, 6, 9, 11} then 30 else 31) \<and>
     (m = 2 \<and> j = 29 \<longleftrightarrow> d = 365) \<and> (m \<le> 2 \<longleftrightarrow> d \<ge> 306) \<and> month_start m + j - 1 = d)"

lemma month_day_ok: "0 \<le> d \<Longrightarrow> d \<le> 365 \<Longrightarrow> month_day_ok d"
proof -
  have "list_all month_day_ok (map int [0..<366])" by code_simp
  moreover assume "0 \<le> d" "d \<le> 365"
  then have "d = int (nat d)" "nat d < 366" by simp_all
  ultimately show ?thesis by (metis atLeastLessThan_iff imageI image_set le0 list_all_iff set_upt)
qed

lemma in_int_range: "int i \<le> m \<Longrightarrow> m < int n \<Longrightarrow> m \<in> int ` {i..<n}"
  by (rule image_eqI [of _ _ "nat m"]) auto

definition month_start_ok :: "int \<Rightarrow> int \<Rightarrow> bool" where
  "month_start_ok m j \<longleftrightarrow> month_day (month_start m + j - 1) = (m, j) \<and> 0 \<le> month_start m \<and> month_start m + j - 1 \<le> 365"

lemma month_start_ok:
  assumes "1 \<le> m" and "m \<le> 12" and "1 \<le> j" and "j \<le> (if m = 2 then 29 else if m \<in> {4, 6, 9, 11} then 30 else 31)"
  shows "month_start_ok m j"
proof -
  have "list_all (\<lambda>m. list_all (month_start_ok m) (map int [1..<(if m = 2 then 30 else if m \<in> {4, 6, 9, 11} then 31 else 32)]))
      (map int [1..<13])"
    by code_simp
  then have "\<forall>m\<in>int ` {1..<13}. \<forall>j\<in>int ` {1..<(if m = 2 then 30 else if m \<in> {4, 6, 9, 11} then 31 else 32)}. month_start_ok m j"
    unfolding list_all_iff by (simp only: set_map set_upt)
  moreover have "m \<in> int ` {1..<13}" using assms(1,2) by (intro in_int_range) simp_all
  moreover have "j \<in> int ` {1..<(if m = 2 then 30 else if m \<in> {4, 6, 9, 11} then 31 else 32)}"
    using assms(3,4) by (intro in_int_range) (simp_all split: if_splits)
  ultimately show ?thesis by blast
qed

subsection \<open>Dates\<close>

lemma civil_alt:
  "civil_from_days days =
     (let z = days + 719468; yoe = year_of_era (z mod 146097)
      in case month_day (z mod 146097 - (365 * yoe + yoe div 4 - yoe div 100)) of
        (m, j) \<Rightarrow> (yoe + z div 146097 * 400 + (if m \<le> 2 then 1 else 0), nat m, nat j))"
  unfolding civil_from_days_def month_day_def Let_def prod.case by (rule refl)

lemma civil_run:
  assumes "era_day a b k d" and "month_day d = (m, j)"
  shows "civil_from_days (146097 * era + (36524 * a + 1461 * b + 365 * k + d) - 719468) =
    (400 * era + (100 * a + 4 * b + k) + (if m \<le> 2 then 1 else 0), nat m, nat j)"
proof -
  let ?e = "36524 * a + 1461 * b + 365 * k + d"
  have e: "0 \<le> ?e" "?e < 146097" using assms(1) by (auto simp: era_day_def)
  then have z: "(146097 * era + ?e) div 146097 = era" "(146097 * era + ?e) mod 146097 = ?e"
    by (simp_all add: int_div_eqI mod_pos_pos_trivial)
  have d: "?e - (365 * (100 * a + 4 * b + k) + (25 * a + b) - a) = d" by simp
  show ?thesis
    unfolding civil_alt Let_def diff_add_cancel z year_of_era_eq [OF assms(1)] era_year_div [OF assms(1)] d assms(2)
    by simp
qed

lemma days_run:
  assumes "era_day a b k d"
  shows "days_from_civil (400 * era + (100 * a + 4 * b + k) + (if m \<le> 2 then 1 else 0)) m j =
    146097 * era + (36524 * a + 1461 * b + 365 * k + (month_start m + j - 1)) - 719468"
proof -
  have y: "(if m \<le> 2 then 400 * era + (100 * a + 4 * b + k) + (if m \<le> 2 then 1 else 0) - 1
      else 400 * era + (100 * a + 4 * b + k) + (if m \<le> 2 then 1 else 0)) = 400 * era + (100 * a + 4 * b + k)"
    by simp
  show ?thesis
    unfolding days_from_civil_def Let_def y era_year_div [OF assms] by (simp add: month_start_def)
qed

lemma era_exists:
  obtains era a b k d where "era_day a b k d" and "days = 146097 * era + (36524 * a + 1461 * b + 365 * k + d) - 719468"
proof -
  have "days = 146097 * ((days + 719468) div 146097) + (days + 719468) mod 146097 - 719468" by simp
  with era_day_exists [of "(days + 719468) mod 146097"] that show ?thesis by (metis pos_mod_bound pos_mod_sign zero_less_numeral)
qed

lemma days_civil: "civil_from_days days = (y, m, j) \<Longrightarrow> days_from_civil y (int m) (int j) = days"
proof -
  obtain era a b k d where day: "era_day a b k d" and days: "days = 146097 * era + (36524 * a + 1461 * b + 365 * k + d) - 719468"
    by (rule era_exists)
  obtain m' j' where md: "month_day d = (m', j')" by fastforce
  have "month_day_ok d" using day by (auto simp: era_day_def intro: month_day_ok)
  then have ok: "1 \<le> m'" "1 \<le> j'" "month_start m' + j' - 1 = d" by (simp_all add: month_day_ok_def md)
  assume "civil_from_days days = (y, m, j)"
  then have "y = 400 * era + (100 * a + 4 * b + k) + (if m' \<le> 2 then 1 else 0)" "int m = m'" "int j = j'"
    using civil_run [OF day md] ok by (auto simp: days)
  then show ?thesis using days_run [OF day, of era m' j'] ok(3) days by simp
qed

definition valid_date :: "nat \<Rightarrow> nat \<Rightarrow> nat \<Rightarrow> bool" where
  "valid_date y m d \<longleftrightarrow> 1 \<le> m \<and> m \<le> 12 \<and> 1 \<le> d \<and> d \<le> days_in_month y m"

lemma leap_shape: "(P \<longleftrightarrow> K) \<Longrightarrow> (K \<Longrightarrow> Q \<longleftrightarrow> B) \<Longrightarrow> (K \<Longrightarrow> B \<Longrightarrow> R \<longleftrightarrow> A) \<Longrightarrow> P \<and> (\<not> Q \<or> R) \<longleftrightarrow> K \<and> (B \<longrightarrow> A)"
  by blast

lemma leap_iff:
  assumes "era_day a b k d" and "int y = 400 * era + (100 * a + 4 * b + k) + 1"
  shows "is_leap y \<longleftrightarrow> k = 3 \<and> (b = 24 \<longrightarrow> a = 3)"
proof -
  have "y mod n = 0 \<longleftrightarrow> (400 * era + (100 * a + 4 * b + k) + 1) mod int n = 0" for n
    unfolding assms(2) [symmetric] zmod_int [symmetric] by simp
  from this [of 4] this [of 100] this [of 400] have "is_leap y \<longleftrightarrow> (400 * era + (100 * a + 4 * b + k) + 1) mod 4 = 0 \<and>
     ((400 * era + (100 * a + 4 * b + k) + 1) mod 100 \<noteq> 0 \<or> (400 * era + (100 * a + 4 * b + k) + 1) mod 400 = 0)"
    unfolding is_leap_def of_nat_numeral by (simp only:)
  also have "\<dots> \<longleftrightarrow> k = 3 \<and> (b = 24 \<longrightarrow> a = 3)"
  proof -
    note day = assms(1) [unfolded era_day_def]
    have "400 * era + (100 * a + 4 * b + k) + 1 = k + 1 + 4 * (100 * era + 25 * a + b)" by simp
    then have "(400 * era + (100 * a + 4 * b + k) + 1) mod 4 = (k + 1) mod 4" by (metis mod_mult_self2)
    moreover have "k = 0 \<or> k = 1 \<or> k = 2 \<or> k = 3" using day by auto
    ultimately have "(400 * era + (100 * a + 4 * b + k) + 1) mod 4 = 0 \<longleftrightarrow> k = 3" by auto
    moreover have "(400 * era + (100 * a + 4 * b + k) + 1) mod 100 = 0 \<longleftrightarrow> b = 24" if "k = 3"
    proof -
      have "400 * era + (100 * a + 4 * b + k) + 1 = 4 * (b + 1) + 100 * (4 * era + a)" using that by simp
      then have "(400 * era + (100 * a + 4 * b + k) + 1) mod 100 = 4 * (b + 1) mod 100" by (metis mod_mult_self2)
      then show ?thesis using day by (cases "b = 24") (simp_all add: mod_pos_pos_trivial)
    qed
    moreover have "(400 * era + (100 * a + 4 * b + k) + 1) mod 400 = 0 \<longleftrightarrow> a = 3" if "k = 3" "b = 24"
    proof -
      have "400 * era + (100 * a + 4 * b + k) + 1 = 100 * (a + 1) + 400 * era" using that by simp
      then have "(400 * era + (100 * a + 4 * b + k) + 1) mod 400 = 100 * (a + 1) mod 400" by (metis mod_mult_self2)
      then show ?thesis using day by (cases "a = 3") (simp_all add: mod_pos_pos_trivial)
    qed
    ultimately show ?thesis by (rule leap_shape)
  qed
  finally show ?thesis .
qed

lemma civil_valid:
  assumes "civil_from_days days = (y, m, j)" and "0 \<le> y"
  shows "valid_date (nat y) m j"
proof -
  obtain era a b k d where day: "era_day a b k d" and days: "days = 146097 * era + (36524 * a + 1461 * b + 365 * k + d) - 719468"
    by (rule era_exists)
  obtain m' j' where md: "month_day d = (m', j')" by fastforce
  have "month_day_ok d" using day by (auto simp: era_day_def intro: month_day_ok)
  then have ok: "1 \<le> m'" "m' \<le> 12" "1 \<le> j'" "j' \<le> (if m' = 2 then 29 else if m' \<in> {4, 6, 9, 11} then 30 else 31)"
    "m' = 2 \<and> j' = 29 \<longleftrightarrow> d = 365" by (simp_all add: month_day_ok_def md)
  have eqs: "y = 400 * era + (100 * a + 4 * b + k) + (if m' \<le> 2 then 1 else 0)" "int m = m'" "int j = j'"
    using civil_run [OF day md] ok assms(1) by (auto simp: days)
  have "is_leap (nat y)" if "m = 2" "j = 29"
    using leap_iff [OF day, of "nat y" era] that eqs ok(5) day assms(2) by (auto simp: era_day_def)
  then have "j \<le> 28" if "m = 2" "\<not> is_leap (nat y)" using that eqs ok(4) by (cases "j = 29") auto
  then show ?thesis using ok(1-4) eqs(2,3) unfolding valid_date_def days_in_month_def
    by (auto split: if_splits)
qed

lemma civil_year_nonneg:
  assumes "civil_from_days days = (y, m, j)" and "0 \<le> days"
  shows "0 \<le> y"
proof -
  obtain era a b k d where day: "era_day a b k d" and days: "days = 146097 * era + (36524 * a + 1461 * b + 365 * k + d) - 719468"
    by (rule era_exists)
  have "y \<ge> 400 * era" using civil_run [OF day, of "fst (month_day d)" "snd (month_day d)" era] assms(1) day
    by (auto simp: days era_day_def split: if_splits)
  moreover have "0 \<le> era" using days day assms(2) by (auto simp: era_day_def)
  ultimately show ?thesis by simp
qed

lemma split_year:
  obtains era a b k where "(y::int) = 400 * era + (100 * a + 4 * b + k)" and "era_day a b k 0"
proof -
  define r s k where "r = y mod 400" and "s = r mod 100" and "k = s mod 4"
  have "0 \<le> r" "r < 400" "0 \<le> s" "s < 100" "0 \<le> k" "k < 4" by (simp_all add: r_def s_def k_def)
  then have "era_day (r div 100) (s div 4) k 0" unfolding era_day_def by (intro conjI) simp_all
  moreover have "y = 400 * (y div 400) + (100 * (r div 100) + 4 * (s div 4) + k)" by (simp add: r_def s_def k_def)
  ultimately show ?thesis using that by blast
qed

lemma date_era:
  assumes "valid_date y m j"
  obtains era a b k where "int y = 400 * era + (100 * a + 4 * b + k) + (if int m \<le> 2 then 1 else 0)"
    and "era_day a b k (month_start (int m) + int j - 1)" and "month_day (month_start (int m) + int j - 1) = (int m, int j)"
proof -
  let ?d = "month_start (int m) + int j - 1" and ?y = "int y - (if int m \<le> 2 then 1 else 0)"
  have mj: "1 \<le> int m" "int m \<le> 12" "1 \<le> int j" "int j \<le> (if int m = 2 then 29 else if int m \<in> {4, 6, 9, 11} then 30 else 31)"
    using assms by (auto simp: valid_date_def days_in_month_def split: if_splits)
  note ms = month_start_ok [OF mj, unfolded month_start_ok_def]
  obtain era a b k where y: "?y = 400 * era + (100 * a + 4 * b + k)" and day0: "era_day a b k 0"
    by (rule split_year)
  note abk = day0 [unfolded era_day_def]
  from leap_iff [OF day0, of y era] y have leap: "int m \<le> 2 \<Longrightarrow> is_leap y \<longleftrightarrow> k = 3 \<and> (b = 24 \<longrightarrow> a = 3)" by simp
  have "month_day_ok ?d" using ms mj(3) by (intro month_day_ok) auto
  then have "?d = 365 \<Longrightarrow> int m = 2 \<and> int j = 29" using ms by (auto simp: month_day_ok_def)
  then have "?d = 365 \<Longrightarrow> is_leap y \<and> int m \<le> 2" using assms by (auto simp: valid_date_def days_in_month_def split: if_splits)
  then have day: "era_day a b k ?d" using abk ms mj(3) leap unfolding era_day_def by auto
  have "int y = 400 * era + (100 * a + 4 * b + k) + (if int m \<le> 2 then 1 else 0)" using y by simp
  then show ?thesis using day ms by (intro that) simp_all
qed

lemma civil_days:
  assumes "valid_date y m j"
  shows "civil_from_days (days_from_civil (int y) (int m) (int j)) = (int y, m, j)"
proof -
  obtain era a b k where y: "int y = 400 * era + (100 * a + 4 * b + k) + (if int m \<le> 2 then 1 else 0)"
    and day: "era_day a b k (month_start (int m) + int j - 1)" and md: "month_day (month_start (int m) + int j - 1) = (int m, int j)"
    using date_era [OF assms] .
  show ?thesis using days_run [OF day, of era "int m" "int j"] civil_run [OF day md, of era] y by simp
qed

subsection \<open>The order of dates\<close>

lemma era_less:
  assumes "era_day a b k d" and "era_day a' b' k' d'" and "400 * era + (100 * a + 4 * b + k) < 400 * era' + (100 * a' + 4 * b' + k')"
  shows "146097 * era + (36524 * a + 1461 * b + 365 * k + d) < 146097 * era' + (36524 * a' + 1461 * b' + 365 * k' + d')"
proof -
  note days = assms(1,2) [unfolded era_day_def]
  have leap: "36524 * a + 1461 * b + 365 * k + d < 146097" "a < 3 \<longrightarrow> 1461 * b + 365 * k + d < 36524"
    "365 * k + d < 1461" "k < 3 \<longrightarrow> d < 365"
    using days by auto
  consider "era < era'" | "era = era'" "a < a'" | "era = era'" "a = a'" "b < b'" | "era = era'" "a = a'" "b = b'" "k < k'"
    using assms(3) days by linarith
  then show ?thesis using days leap by cases linarith+
qed

lemma month_starts: "list_all (\<lambda>m. list_all (\<lambda>m'. m < m' \<and> (2 < m \<or> m' \<le> 2) \<longrightarrow>
    month_start m + (if m = 2 then 29 else if m \<in> {4, 6, 9, 11} then 30 else 31) \<le> month_start m') (map int [1..<13])) (map int [1..<13])"
  by code_simp

lemma date_less:
  assumes "valid_date y m j" and "valid_date y' m' j'" and "y < y' \<or> y = y' \<and> (m < m' \<or> m = m' \<and> j < j')"
  shows "days_from_civil (int y) (int m) (int j) < days_from_civil (int y') (int m') (int j')"
proof -
  let ?d = "month_start (int m) + int j - 1" and ?d' = "month_start (int m') + int j' - 1"
  obtain era a b k where y: "int y = 400 * era + (100 * a + 4 * b + k) + (if int m \<le> 2 then 1 else 0)"
    and day: "era_day a b k ?d" and md: "month_day ?d = (int m, int j)"
    using date_era [OF assms(1)] .
  obtain era' a' b' k' where y': "int y' = 400 * era' + (100 * a' + 4 * b' + k') + (if int m' \<le> 2 then 1 else 0)"
    and day': "era_day a' b' k' ?d'" and md': "month_day ?d' = (int m', int j')"
    using date_era [OF assms(2)] .
  have later: "int m \<le> 2 \<longleftrightarrow> ?d \<ge> 306" "int m' \<le> 2 \<longleftrightarrow> ?d' \<ge> 306"
    using month_day_ok [of ?d] month_day_ok [of ?d'] day day' by (auto simp: era_day_def month_day_ok_def md md')
  have less: "?d < ?d'" if "m < m'" "2 < int m \<or> int m' \<le> 2"
  proof -
    have "int m \<in> int ` {1..<13}" "int m' \<in> int ` {1..<13}" using assms(1,2) by (auto simp: valid_date_def)
    then have "month_start (int m) + (if int m = 2 then 29 else if int m \<in> {4, 6, 9, 11} then 30 else 31) \<le> month_start (int m')"
      using month_starts that unfolding list_all_iff set_map set_upt by auto
    then show ?thesis using assms(1,2) by (auto simp: valid_date_def days_in_month_def split: if_splits)
  qed
  define c c' where "c = 400 * era + (100 * a + 4 * b + k)" and "c' = 400 * era' + (100 * a' + 4 * b' + k')"
  define d d' where "d = ?d" and "d' = ?d'"
  have "m = m' \<Longrightarrow> j < j' \<Longrightarrow> ?d < ?d'" by simp
  with less y y' later have "int y = c + (if int m \<le> 2 then 1 else 0)" "int y' = c' + (if int m' \<le> 2 then 1 else 0)"
    "m < m' \<Longrightarrow> 2 < int m \<or> int m' \<le> 2 \<Longrightarrow> d < d'" "m = m' \<Longrightarrow> j < j' \<Longrightarrow> d < d'" "int m \<le> 2 \<longleftrightarrow> d \<ge> 306" "int m' \<le> 2 \<longleftrightarrow> d' \<ge> 306"
    by (simp_all only: c_def c'_def d_def d'_def)
  then have "c < c' \<or> c = c' \<and> d < d'" using assms(3) by (cases "int m \<le> 2"; cases "int m' \<le> 2") auto
  then consider "400 * era + (100 * a + 4 * b + k) < 400 * era' + (100 * a' + 4 * b' + k')"
    | "400 * era + (100 * a + 4 * b + k) = 400 * era' + (100 * a' + 4 * b' + k')" "?d < ?d'"
    unfolding c_def c'_def d_def d'_def by blast
  then show ?thesis
  proof cases
    case 1
    then show ?thesis using era_less [OF day day'] days_run [OF day, of era "int m" "int j"]
      days_run [OF day', of era' "int m'" "int j'"] y y' by simp
  next
    case 2
    then have "era = era' \<and> a = a' \<and> b = b' \<and> k = k'" using era_year_inj [OF day day'] by blast
    then show ?thesis using 2(2) days_run [OF day, of era "int m" "int j"]
      days_run [OF day', of era' "int m'" "int j'"] y y' by simp
  qed
qed

section \<open>Stamps\<close>

text \<open>A stamp is its text; a \<open>SystemTime\<close> is the nanoseconds since the epoch, negative before it.\<close>

type_synonym utc_stamp = string
type_synonym system_time = int

definition whole_seconds :: "system_time \<Rightarrow> nat" where
  "whole_seconds time = nat time div 1000000000"

definition from_system_time :: "system_time \<Rightarrow> utc_stamp" where
  "from_system_time time =
     (let seconds = whole_seconds time; of_day = seconds mod 86400
      in case civil_from_days (int (seconds div 86400)) of (year, month, day) \<Rightarrow>
        pad 4 (nat year) @ pad 2 month @ pad 2 day @ ''T'' @
        pad 2 (of_day div 3600) @ pad 2 (of_day mod 3600 div 60) @ pad 2 (of_day mod 60) @ ''Z'')"

text \<open>
  What a call that may panic does. Slicing a string panics unless both ends are character boundaries.
\<close>

datatype 'a returned = Panics | Returns 'a

definition char_boundary :: "string \<Rightarrow> nat \<Rightarrow> bool" where
  "char_boundary s i \<longleftrightarrow> i = length s \<or> i < length s \<and> \<not> continuation (s ! i)"

definition slice :: "string \<Rightarrow> nat \<Rightarrow> nat \<Rightarrow> string returned" where
  "slice s i j = (if char_boundary s i \<and> char_boundary s j then Returns (take (j - i) (drop i s)) else Panics)"

text \<open>
  The closure \<open>number\<close> of \<open>parse\<close>, and its calls with \<open>?\<close> from left to right. A number of at most four
  digits always fits the \<open>u32\<close> it is parsed into.
\<close>

definition stamp_number :: "string \<Rightarrow> nat \<times> nat \<Rightarrow> nat option returned" where
  "stamp_number text = (\<lambda>(i, j). case slice text i j of Panics \<Rightarrow> Panics
     | Returns digits \<Rightarrow> Returns (if list_all is_digit digits then parse_dec digits else None))"

fun stamp_numbers :: "string \<Rightarrow> (nat \<times> nat) list \<Rightarrow> nat list option returned" where
  "stamp_numbers text [] = Returns (Some [])"
| "stamp_numbers text (r # rs) =
     (case stamp_number text r of
        Panics \<Rightarrow> Panics
      | Returns None \<Rightarrow> Returns None
      | Returns (Some n) \<Rightarrow>
          (case stamp_numbers text rs of Returns (Some ns) \<Rightarrow> Returns (Some (n # ns)) | r' \<Rightarrow> r'))"

definition stamp_ranges :: "(nat \<times> nat) list" where
  "stamp_ranges = [(0, 4), (4, 6), (6, 8), (9, 11), (11, 13), (13, 15)]"

definition real_instant :: "nat list \<Rightarrow> bool" where
  "real_instant ns = (case ns of [year, month, day, hour, minute, second] \<Rightarrow>
       1 \<le> month \<and> month \<le> 12 \<and> 1 \<le> day \<and> day \<le> days_in_month year month \<and> hour < 24 \<and> minute < 60 \<and> second < 60
     | _ \<Rightarrow> False)"

definition parse_stamp :: "string \<Rightarrow> utc_stamp option returned" where
  "parse_stamp text =
     (if length text \<noteq> 16 \<or> text ! 8 \<noteq> CHR ''T'' \<or> text ! 15 \<noteq> CHR ''Z'' then Returns None
      else (case stamp_numbers text stamp_ranges of
          Panics \<Rightarrow> Panics
        | Returns None \<Rightarrow> Returns None
        | Returns (Some ns) \<Rightarrow> Returns (if real_instant ns then Some text else None)))"

text \<open>
  \<open>to_system_time\<close>, \<open>number\<close> falling back to 0 (a stamp never holds a sign, so \<open>i64\<close> parses what
  \<open>parse_dec\<close> does).
\<close>

definition field :: "utc_stamp \<Rightarrow> nat \<Rightarrow> nat \<Rightarrow> int" where
  "field s i j = (case parse_dec (take (j - i) (drop i s)) of Some n \<Rightarrow> int n | None \<Rightarrow> 0)"

definition to_system_time :: "utc_stamp \<Rightarrow> system_time" where
  "to_system_time s =
     (let days = days_from_civil (field s 0 4) (field s 4 6) (field s 6 8);
          seconds = days * 86400 + field s 9 11 * 3600 + field s 11 13 * 60 + field s 13 15
      in if seconds < 0 then 0 else seconds * 1000000000)"

section \<open>Stamps read back\<close>

text \<open>The first second of the year 10000, from which on the year takes five digits.\<close>

definition stamp_limit :: nat where
  "stamp_limit = 253402300800"

text \<open>The fields of the stamp of a time.\<close>

lemma clock_fields:
  "int n = int (n div 86400) * 86400 + int (n mod 86400 div 3600 * 3600 + n mod 86400 mod 3600 div 60 * 60 + n mod 86400 mod 60)"
proof -
  have "n mod 86400 mod 60 = n mod 86400 mod 3600 mod 60" by (simp add: mod_mod_cancel)
  then have n: "n = n div 86400 * 86400 + (n mod 86400 div 3600 * 3600 + n mod 86400 mod 3600 div 60 * 60 + n mod 86400 mod 60)"
    by (simp only: add.assoc div_mult_mod_eq)
  show ?thesis by (subst n) (simp only: of_nat_add of_nat_mult of_nat_numeral)
qed

lemma stamp_fields:
  assumes "whole_seconds time < stamp_limit"
  obtains y m d h mi s where "from_system_time time = pad 4 y @ pad 2 m @ pad 2 d @ ''T'' @ pad 2 h @ pad 2 mi @ pad 2 s @ ''Z''"
    and "valid_date y m d" and "y < 10000" and "h < 24" and "mi < 60" and "s < 60"
    and "int (whole_seconds time) = days_from_civil (int y) (int m) (int d) * 86400 + int (h * 3600 + mi * 60 + s)"
proof -
  define n where "n = whole_seconds time"
  obtain y m d where civil: "civil_from_days (int (n div 86400)) = (y, m, d)" by (cases "civil_from_days (int (n div 86400))")
  note days = days_civil [OF civil]
  have first: "days_from_civil (int 10000) (int 1) (int 1) = 2932897" by (simp add: days_from_civil_def)
  have valid: "valid_date 10000 1 1" by (simp add: valid_date_def days_in_month_def)
  have "0 \<le> y" using civil_year_nonneg [OF civil] by simp
  then have date: "valid_date (nat y) m d" using civil_valid [OF civil] by simp
  have "nat y < 10000"
  proof (rule ccontr)
    assume "\<not> nat y < 10000"
    then consider "nat y = 10000" "m = 1" "d = 1" | "10000 < nat y \<or> 10000 = nat y \<and> (1 < m \<or> 1 = m \<and> 1 < d)"
      using date by (fastforce simp: valid_date_def)
    then have "days_from_civil (int 10000) (int 1) (int 1) \<le> days_from_civil (int (nat y)) (int m) (int d)"
    proof cases
      case 2
      then show ?thesis using date_less [OF valid date] by simp
    qed simp
    with days \<open>0 \<le> y\<close> have "2932897 \<le> n div 86400" unfolding first by simp
    with assms show False by (simp add: n_def stamp_limit_def)
  qed
  moreover have "int n = int (n div 86400) * 86400 + int (n mod 86400 div 3600 * 3600 + n mod 86400 mod 3600 div 60 * 60 + n mod 86400 mod 60)"
    by (rule clock_fields)
  moreover have "from_system_time time = pad 4 (nat y) @ pad 2 m @ pad 2 d @ ''T'' @ pad 2 (n mod 86400 div 3600) @
      pad 2 (n mod 86400 mod 3600 div 60) @ pad 2 (n mod 86400 mod 60) @ ''Z''"
    using civil by (simp add: from_system_time_def Let_def n_def)
  moreover have "n mod 86400 div 3600 < 24" "n mod 86400 mod 3600 div 60 < 60" "n mod 86400 mod 60 < 60"
    by (simp_all add: less_mult_imp_div_less)
  moreover have "int (n div 86400) = days_from_civil (int (nat y)) (int m) (int d)" using days \<open>0 \<le> y\<close> by simp
  ultimately show ?thesis using that date unfolding n_def by metis
qed

text \<open>Cutting a stamp at the field boundaries.\<close>

lemma stamp_cuts:
  assumes "y < 10000" and "m < 100" and "d < 100" and "h < 100" and "mi < 100" and "s < 100"
    and "text = pad 4 y @ pad 2 m @ pad 2 d @ ''T'' @ pad 2 h @ pad 2 mi @ pad 2 s @ ''Z''"
  shows "length text = 16" and "text ! 8 = CHR ''T''" and "text ! 15 = CHR ''Z''"
    and "take 4 (drop 0 text) = pad 4 y" and "take 2 (drop 4 text) = pad 2 m" and "take 2 (drop 6 text) = pad 2 d"
    and "take 2 (drop 9 text) = pad 2 h" and "take 2 (drop 11 text) = pad 2 mi" and "take 2 (drop 13 text) = pad 2 s"
    and "\<And>i. char_boundary text i \<longleftrightarrow> i \<le> 16"
proof -
  have len: "length (pad 4 y) = 4" "length (pad 2 m) = 2" "length (pad 2 d) = 2" "length (pad 2 h) = 2"
    "length (pad 2 mi) = 2" "length (pad 2 s) = 2"
    using assms(1-6) by (simp_all add: pad_length)
  then show "length text = 16" "text ! 8 = CHR ''T''" "text ! 15 = CHR ''Z''" "take 4 (drop 0 text) = pad 4 y"
    "take 2 (drop 4 text) = pad 2 m" "take 2 (drop 6 text) = pad 2 d" "take 2 (drop 9 text) = pad 2 h"
    "take 2 (drop 11 text) = pad 2 mi" "take 2 (drop 13 text) = pad 2 s"
    by (simp_all add: assms(7) nth_append)
  have "\<not> continuation c" if "c \<in> set text" for c
  proof -
    have "is_digit c \<Longrightarrow> \<not> continuation c" by (auto simp: is_digit_def continuation_def Let_def)
    moreover have "c \<in> set (pad w n) \<Longrightarrow> is_digit c" for w n using pad_digits(1) [of w n] by (simp add: list_all_iff)
    moreover have "\<not> continuation (CHR ''T'')" "\<not> continuation (CHR ''Z'')" by (simp_all add: continuation_def)
    ultimately show ?thesis using that by (auto simp: assms(7))
  qed
  with \<open>length text = 16\<close> show "char_boundary text i \<longleftrightarrow> i \<le> 16" for i by (auto simp: char_boundary_def)
qed

lemma parse_fields:
  assumes "valid_date y m d" and "y < 10000" and "h < 24" and "mi < 60" and "s < 60"
    and "text = pad 4 y @ pad 2 m @ pad 2 d @ ''T'' @ pad 2 h @ pad 2 mi @ pad 2 s @ ''Z''"
  shows "parse_stamp text = Returns (Some text)"
    and "days_from_civil (int y) (int m) (int d) \<ge> 0 \<Longrightarrow>
      to_system_time text = (days_from_civil (int y) (int m) (int d) * 86400 + int (h * 3600 + mi * 60 + s)) * 1000000000"
proof -
  have md: "m < 100" "d < 100" using assms(1) by (auto simp: valid_date_def days_in_month_def split: if_splits)
  note cuts = stamp_cuts [OF assms(2) md _ _ _ assms(6)]
  have num: "stamp_number text (i, j) = Returns (Some n)" if "take (j - i) (drop i text) = pad w n" "j \<le> 16" "i \<le> j" for i j w n
    using that cuts(10) assms(3-5) by (simp add: stamp_number_def slice_def)
  have "real_instant [y, m, d, h, mi, s]" using assms(1,3-5) by (simp add: real_instant_def valid_date_def)
  moreover have "stamp_numbers text stamp_ranges = Returns (Some [y, m, d, h, mi, s])"
    using cuts(4-9) assms(3-5) by (simp add: stamp_ranges_def num)
  ultimately show "parse_stamp text = Returns (Some text)" using cuts(1-3) assms(3-5) by (simp add: parse_stamp_def)
  assume "days_from_civil (int y) (int m) (int d) \<ge> 0"
  then show "to_system_time text = (days_from_civil (int y) (int m) (int d) * 86400 + int (h * 3600 + mi * 60 + s)) * 1000000000"
    using cuts(4-9) assms(3-5) by (simp add: to_system_time_def field_def Let_def)
qed

lemma stamp_parses:
  assumes "whole_seconds time < stamp_limit"
  shows "parse_stamp (from_system_time time) = Returns (Some (from_system_time time))"
proof -
  obtain y m d h mi s where str: "from_system_time time = pad 4 y @ pad 2 m @ pad 2 d @ ''T'' @ pad 2 h @ pad 2 mi @ pad 2 s @ ''Z''"
    and fs: "valid_date y m d" "y < 10000" "h < 24" "mi < 60" "s < 60"
    by (rule stamp_fields [OF assms])
  show ?thesis by (rule parse_fields(1) [OF fs str])
qed

text \<open>
  C34: a stamp names the instant it was made from. For every time before the year 10000 (and for one
  before the epoch, which is taken as the epoch), the rendered stamp parses, and the instant it names is
  that time truncated to the second. This rests on the calendar arithmetic being the exact inverse of
  itself on every day.
\<close>

theorem stamp_roundtrip:
  assumes "whole_seconds time < stamp_limit"
  shows "parse_stamp (from_system_time time) = Returns (Some (from_system_time time)) \<and>
    to_system_time (from_system_time time) = int (whole_seconds time) * 1000000000"
proof -
  obtain y m d h mi s where str: "from_system_time time = pad 4 y @ pad 2 m @ pad 2 d @ ''T'' @ pad 2 h @ pad 2 mi @ pad 2 s @ ''Z''"
    and fs: "valid_date y m d" "y < 10000" "h < 24" "mi < 60" "s < 60"
    and n: "int (whole_seconds time) = days_from_civil (int y) (int m) (int d) * 86400 + int (h * 3600 + mi * 60 + s)"
    by (rule stamp_fields [OF assms])
  have "h * 3600 + mi * 60 + s < 86400" using fs by linarith
  then have "days_from_civil (int y) (int m) (int d) \<ge> 0" using n by linarith
  with parse_fields [OF fs str] n show ?thesis by simp
qed

theorem stamp_roundtrip_witness:
  "whole_seconds 1709164799500000000 < stamp_limit \<and>
    to_system_time (from_system_time 1709164799500000000) = 1709164799000000000"
  using stamp_roundtrip [of 1709164799500000000] by (simp add: whole_seconds_def stamp_limit_def)

text \<open>
  The byte order of stamps is the order of the instants, to the second, before the year 10000:
  sorting names sorts archives by age.
\<close>

lemma stamp_order:
  assumes "whole_seconds t < stamp_limit" and "whole_seconds u < stamp_limit"
  shows "str_less (from_system_time t) (from_system_time u) \<longleftrightarrow> whole_seconds t < whole_seconds u"
proof -
  obtain y m d h mi s where t: "from_system_time t = pad 4 y @ pad 2 m @ pad 2 d @ ''T'' @ pad 2 h @ pad 2 mi @ pad 2 s @ ''Z''"
    and ft: "valid_date y m d" "y < 10000" "h < 24" "mi < 60" "s < 60"
    and nt: "int (whole_seconds t) = days_from_civil (int y) (int m) (int d) * 86400 + int (h * 3600 + mi * 60 + s)"
    by (rule stamp_fields [OF assms(1)])
  obtain y' m' d' h' mi' s' where u: "from_system_time u = pad 4 y' @ pad 2 m' @ pad 2 d' @ ''T'' @ pad 2 h' @ pad 2 mi' @ pad 2 s' @ ''Z''"
    and fu: "valid_date y' m' d'" "y' < 10000" "h' < 24" "mi' < 60" "s' < 60"
    and nu: "int (whole_seconds u) = days_from_civil (int y') (int m') (int d') * 86400 + int (h' * 3600 + mi' * 60 + s')"
    by (rule stamp_fields [OF assms(2)])
  have md: "m < 100" "d < 100" "m' < 100" "d' < 100"
    using ft(1) fu(1) by (auto simp: valid_date_def days_in_month_def split: if_splits)
  have pads: "str_less (pad w i @ p) (pad w j @ q) \<longleftrightarrow> i < j \<or> i = j \<and> str_less p q" if "i < 10 ^ w" "j < 10 ^ w" "0 < w" for w i j p q
  proof -
    have "length (pad w i) = length (pad w j)" using that by (simp add: pad_length)
    moreover have "pad w i = pad w j \<longleftrightarrow> i = j" by (metis pad_digits(2))
    ultimately show ?thesis by (simp add: str_less_append str_less_digits)
  qed
  define D D' where "D = days_from_civil (int y) (int m) (int d)" and "D' = days_from_civil (int y') (int m') (int d')"
  have "str_less (from_system_time t) (from_system_time u) \<longleftrightarrow>
      y < y' \<or> y = y' \<and> (m < m' \<or> m = m' \<and> (d < d' \<or> d = d' \<and> (h < h' \<or> h = h' \<and> (mi < mi' \<or> mi = mi' \<and> s < s'))))"
    unfolding t u using ft(2-5) fu(2-5) md by (simp add: pads)
  also have "\<dots> \<longleftrightarrow> D < D' \<or> D = D' \<and> (h < h' \<or> h = h' \<and> (mi < mi' \<or> mi = mi' \<and> s < s'))"
  proof -
    note lt = date_less [OF ft(1) fu(1), folded D_def D'_def] date_less [OF fu(1) ft(1), folded D_def D'_def]
    have eq: "y = y' \<and> m = m' \<and> d = d' \<Longrightarrow> D = D'" by (simp add: D_def D'_def)
    consider "y < y' \<or> y = y' \<and> (m < m' \<or> m = m' \<and> d < d')" | "y = y' \<and> m = m' \<and> d = d'" | "y' < y \<or> y' = y \<and> (m' < m \<or> m' = m \<and> d' < d)"
      by linarith
    then show ?thesis using lt eq by cases auto
  qed
  also have "\<dots> \<longleftrightarrow> D * 86400 + int (h * 3600 + mi * 60 + s) < D' * 86400 + int (h' * 3600 + mi' * 60 + s')"
  proof -
    have "h < h' \<or> h = h' \<and> (mi < mi' \<or> mi = mi' \<and> s < s') \<longleftrightarrow> h * 3600 + mi * 60 + s < h' * 3600 + mi' * 60 + s'"
      using ft(3-5) fu(3-5) by linarith
    moreover have "h * 3600 + mi * 60 + s < 86400" "h' * 3600 + mi' * 60 + s' < 86400" using ft(3-5) fu(3-5) by linarith+
    ultimately show ?thesis by linarith
  qed
  finally show ?thesis unfolding D_def D'_def nt [symmetric] nu [symmetric] by simp
qed

text \<open>
  Parsing a foreign file name can panic. A 16-byte text with its \<open>T\<close> and \<open>Z\<close> in place whose year
  field ends inside a two-byte character (here e-acute, the bytes C3 A9) is not rejected: slicing it
  panics. The names of a backup directory are parsed this way, archives or not.
\<close>

theorem foreign_name_panics:
  "parse_stamp (''202'' @ [char_of (0xC3::nat), char_of (0xA9::nat)] @ ''601T120000Z'') = Panics"
  by code_simp

end
