(* ===== verification/Db_Retention.thy ===== *)
theory Db_Retention
  imports Utc_Stamp Rust_Strings "HOL-Library.Multiset"
begin

text \<open>
  Which backup archives a retention policy removes (\<open>fraisier-db/src/retention.rs\<close>): the policy, the
  plan with its floor, age rule and ceiling, the file-name glob, the corpus of a directory and the
  removal. Verifying an archive (\<open>pg_restore --list\<close>) is a parameter, a stateful call that returns a
  verdict; here the state is often the list of the paths verified so far.
\<close>

section \<open>Policies and plans\<close>

type_synonym path = string

text \<open>A \<open>Duration\<close> and a \<open>SystemTime\<close> are nanoseconds; \<open>checked_sub\<close> fails below the earliest time.\<close>

definition earliest_time :: system_time where
  "earliest_time = - (2 ^ 63) * 1000000000"

definition checked_sub :: "system_time \<Rightarrow> nat \<Rightarrow> system_time option" where
  "checked_sub t d = (if t - int d < earliest_time then None else Some (t - int d))"

record retention_policy =
  retention :: "nat option"
  keep_minimum :: nat
  keep_last :: "nat option"

datatype policy_error = KeepLastZero | KeepLastBelowMinimum nat nat

definition retention_policy_new :: "nat option \<Rightarrow> nat \<Rightarrow> nat option \<Rightarrow> policy_error + retention_policy" where
  "retention_policy_new r floor ceiling =
     (case ceiling of
        Some c \<Rightarrow>
          if c = 0 then Inl KeepLastZero
          else if c < floor then Inl (KeepLastBelowMinimum c floor)
          else Inr \<lparr>retention = r, keep_minimum = floor, keep_last = ceiling\<rparr>
      | None \<Rightarrow> Inr \<lparr>retention = r, keep_minimum = floor, keep_last = ceiling\<rparr>)"

record candidate =
  cd_path :: path
  taken_at :: system_time

datatype verdict = Valid | Invalid string | Unverifiable string

record retention_plan =
  rp_remove :: "path list"
  rp_keep :: "path list"
  rp_exempt :: "path list"
  rp_invalid :: "(path \<times> string) list"
  rp_unverifiable :: "(path \<times> string) list"
  rp_removed_by_ceiling :: "path list"

definition plan_default :: retention_plan where
  "plan_default = \<lparr>rp_remove = [], rp_keep = [], rp_exempt = [], rp_invalid = [], rp_unverifiable = [],
     rp_removed_by_ceiling = []\<rparr>"

definition floor_is_load_bearing :: "retention_plan \<Rightarrow> bool" where
  "floor_is_load_bearing p \<longleftrightarrow> rp_exempt p \<noteq> [] \<and> rp_keep p = []"

type_synonym 'w verifier = "path \<Rightarrow> 'w \<Rightarrow> verdict \<times> 'w"

text \<open>The end of the loop body: the archive is removed, by the ceiling alone when it was not old.\<close>

definition push_removed :: "bool \<Rightarrow> path \<Rightarrow> retention_plan \<Rightarrow> retention_plan" where
  "push_removed within path p =
     (let p = (if within then p\<lparr>rp_removed_by_ceiling := rp_removed_by_ceiling p @ [path]\<rparr> else p)
      in p\<lparr>rp_remove := rp_remove p @ [path]\<rparr>)"

text \<open>One turn of the loop, on the slots spent and the plan so far.\<close>

definition plan_step :: "retention_policy \<Rightarrow> system_time option \<Rightarrow> 'w verifier \<Rightarrow> candidate \<Rightarrow>
    nat \<times> retention_plan \<times> 'w \<Rightarrow> nat \<times> retention_plan \<times> 'w" where
  "plan_step policy cutoff verify c = (\<lambda>(slots, p, w).
     let beyond_ceiling = (case keep_last policy of Some k \<Rightarrow> k \<le> slots | None \<Rightarrow> False);
         within_retention = (case cutoff of Some t \<Rightarrow> t \<le> taken_at c | None \<Rightarrow> True);
         path = cd_path c
     in if within_retention \<and> \<not> beyond_ceiling
        then (Suc slots, p\<lparr>rp_keep := rp_keep p @ [path]\<rparr>, w)
        else if \<not> beyond_ceiling \<and> slots < keep_minimum policy
        then (case verify path w of
            (Invalid reason, w') \<Rightarrow> (slots, push_removed within_retention path (p\<lparr>rp_invalid := rp_invalid p @ [(path, reason)]\<rparr>), w')
          | (Valid, w') \<Rightarrow> (Suc slots, p\<lparr>rp_exempt := rp_exempt p @ [path]\<rparr>, w')
          | (Unverifiable reason, w') \<Rightarrow>
              (Suc slots, p\<lparr>rp_unverifiable := rp_unverifiable p @ [(path, reason)], rp_exempt := rp_exempt p @ [path]\<rparr>, w'))
        else (slots, push_removed within_retention path p, w))"

fun plan_loop :: "retention_policy \<Rightarrow> system_time option \<Rightarrow> 'w verifier \<Rightarrow> candidate list \<Rightarrow>
    nat \<times> retention_plan \<times> 'w \<Rightarrow> nat \<times> retention_plan \<times> 'w" where
  "plan_loop policy cutoff verify [] st = st"
| "plan_loop policy cutoff verify (c # cs) st = plan_loop policy cutoff verify cs (plan_step policy cutoff verify c st)"

text \<open>\<open>sort_by_key\<close> is stable, and so is \<open>sort_key\<close>.\<close>

definition newest_first :: "candidate list \<Rightarrow> candidate list" where
  "newest_first = sort_key (\<lambda>c. - taken_at c)"

definition plan_cutoff :: "retention_policy \<Rightarrow> system_time \<Rightarrow> system_time option" where
  "plan_cutoff policy time = Option.bind (retention policy) (checked_sub time)"

definition plan :: "candidate list \<Rightarrow> retention_policy \<Rightarrow> system_time \<Rightarrow> 'w verifier \<Rightarrow> 'w \<Rightarrow> retention_plan \<times> 'w" where
  "plan candidates policy time verify w =
     snd (plan_loop policy (plan_cutoff policy time) verify (newest_first candidates) (0, plan_default, w))"

section \<open>Globs\<close>

definition star :: char where "star = CHR ''*''"
definition any_char :: char where "any_char = CHR ''?''"

text \<open>
  The loop of \<open>matches\<close>: indices into the pattern and the name, and where the last star was with how much
  it has swallowed. It is a \<open>while\<close> loop that goes back, so that it ends is a theorem: here \<open>None\<close> is a
  loop that does not.
\<close>

partial_function (option) matches_loop :: "string \<Rightarrow> string \<Rightarrow> nat \<Rightarrow> nat \<Rightarrow> (nat \<times> nat) option \<Rightarrow> bool option" where
  "matches_loop pattern name p n s =
     (if n < length name
      then if p < length pattern \<and> pattern ! p = star then matches_loop pattern name (p + 1) n (Some (p, n))
        else if p < length pattern \<and> (pattern ! p = any_char \<or> pattern ! p = name ! n)
        then matches_loop pattern name (p + 1) (n + 1) s
        else (case s of
            Some (star_p, star_n) \<Rightarrow> matches_loop pattern name (star_p + 1) (star_n + 1) (Some (star_p, star_n + 1))
          | None \<Rightarrow> Some False)
      else Some (list_all (\<lambda>c. c = star) (drop p pattern)))"

declare matches_loop.simps [code]

definition matches :: "string \<Rightarrow> string \<Rightarrow> bool option" where
  "matches pattern name = matches_loop pattern name 0 0 None"

section \<open>The corpus of a directory\<close>

text \<open>
  One entry of a directory: its name, what it is (a symlink carries what \<open>canonicalize\<close> finds, the path
  of its target by components, and whether that is a regular file), and its modification time or the
  error reading it. Names that are not UTF-8 are skipped by the source and do not occur here.
\<close>

datatype entry_kind = Regular | Directory | Symlink "string list option" bool

record dir_entry =
  de_name :: string
  de_kind :: entry_kind
  de_modified :: "string + system_time"

record corpus_found =
  co_candidates :: "candidate list"
  co_outside :: "path list"

definition stamp_in_name :: "string \<Rightarrow> utc_stamp option returned" where
  "stamp_in_name name =
     (case rsplit_once (CHR ''.'') name of
        None \<Rightarrow> Returns None
      | Some (stem, _) \<Rightarrow> (case rsplit_once (CHR ''-'') stem of None \<Rightarrow> Returns None | Some (_, stamp) \<Rightarrow> parse_stamp stamp))"

text \<open>
  Whether an entry is dated and taken as a candidate, reported as outside, or passed over. The root is
  the canonical path of the directory.
\<close>

datatype entry_class = Taken | Outside | Passed

definition classify :: "string list \<Rightarrow> string \<Rightarrow> dir_entry \<Rightarrow> entry_class" where
  "classify root pattern e =
     (if (\<exists>s. de_name e = CHR ''.'' # s) \<or> matches pattern (de_name e) \<noteq> Some True then Passed
      else (case de_kind e of
          Symlink (Some target) is_file \<Rightarrow> if \<not> prefix root target then Outside else if \<not> is_file then Passed else Taken
        | Symlink None _ \<Rightarrow> Outside
        | Regular \<Rightarrow> Taken
        | Directory \<Rightarrow> Passed))"

fun corpus_loop :: "string list \<Rightarrow> string \<Rightarrow> dir_entry list \<Rightarrow> corpus_found \<Rightarrow> (string + corpus_found) returned" where
  "corpus_loop root pattern [] found = Returns (Inr found)"
| "corpus_loop root pattern (e # es) found =
     (case classify root pattern e of
        Passed \<Rightarrow> corpus_loop root pattern es found
      | Outside \<Rightarrow> corpus_loop root pattern es (found\<lparr>co_outside := co_outside found @ [de_name e]\<rparr>)
      | Taken \<Rightarrow>
          (let push = (\<lambda>time. corpus_loop root pattern es
               (found\<lparr>co_candidates := co_candidates found @ [\<lparr>cd_path = de_name e, taken_at = time\<rparr>]\<rparr>))
           in case stamp_in_name (de_name e) of
                Panics \<Rightarrow> Panics
              | Returns (Some stamp) \<Rightarrow> push (to_system_time stamp)
              | Returns None \<Rightarrow> (case de_modified e of Inl error \<Rightarrow> Returns (Inl error) | Inr time \<Rightarrow> push time)))"

definition corpus :: "string list \<Rightarrow> string \<Rightarrow> dir_entry list \<Rightarrow> (string + corpus_found) returned" where
  "corpus root pattern entries = corpus_loop root pattern entries \<lparr>co_candidates = [], co_outside = []\<rparr>"

section \<open>Removal\<close>

text \<open>
  What \<open>canonicalize\<close> and \<open>remove_file\<close> do to an entry of the directory. Removing a symlink removes the
  link; a directory is not removed. The directory's path and its canonical path are given by components.
\<close>

definition lookup_entry :: "string \<Rightarrow> dir_entry list \<Rightarrow> dir_entry option" where
  "lookup_entry name entries = find (\<lambda>e. de_name e = name) entries"

definition canonicalize :: "string list \<Rightarrow> string \<Rightarrow> dir_entry list \<Rightarrow> string + string list" where
  "canonicalize root name entries =
     (case lookup_entry name entries of
        None \<Rightarrow> Inl ''No such file or directory''
      | Some e \<Rightarrow> (case de_kind e of
            Symlink (Some target) _ \<Rightarrow> Inr target
          | Symlink None _ \<Rightarrow> Inl ''No such file or directory''
          | _ \<Rightarrow> Inr (root @ [name])))"

definition remove_file :: "string \<Rightarrow> dir_entry list \<Rightarrow> (string + unit) \<times> dir_entry list" where
  "remove_file name entries =
     (case lookup_entry name entries of
        None \<Rightarrow> (Inl ''No such file or directory'', entries)
      | Some e \<Rightarrow> if de_kind e = Directory then (Inl ''Is a directory'', entries)
          else (Inr (), filter (\<lambda>e. de_name e \<noteq> name) entries))"

definition display :: "string list \<Rightarrow> string" where
  "display cs = concat (map (\<lambda>c. ''/'' @ c) cs)"

definition remove_one :: "string list \<Rightarrow> string list \<Rightarrow> string list \<Rightarrow> dir_entry list \<Rightarrow> (string + unit) \<times> dir_entry list" where
  "remove_one dir root archive entries =
     (if archive \<noteq> [] \<and> butlast archive = dir
      then (case canonicalize root (last archive) entries of
          Inl error \<Rightarrow> (Inl error, entries)
        | Inr target \<Rightarrow>
            if prefix root target then remove_file (last archive) entries
            else (Inl (''it resolves to '' @ display target @ '', outside '' @ display dir), entries))
      else (Inl (''it is not directly in '' @ display dir), entries))"

text \<open>The root is the result of resolving the directory: an error there leaves everything in place.\<close>

fun remove_loop :: "string list \<Rightarrow> string list \<Rightarrow> string list list \<Rightarrow> dir_entry list \<Rightarrow> (string list \<times> string) list \<times> dir_entry list" where
  "remove_loop dir root [] entries = ([], entries)"
| "remove_loop dir root (archive # archives) entries =
     (case remove_one dir root archive entries of
        (Inl error, entries') \<Rightarrow> (case remove_loop dir root archives entries' of (left, es) \<Rightarrow> ((archive, error) # left, es))
      | (Inr _, entries') \<Rightarrow> remove_loop dir root archives entries')"

definition remove_archives :: "string list \<Rightarrow> string + string list \<Rightarrow> string list list \<Rightarrow> dir_entry list \<Rightarrow>
    (string list \<times> string) list \<times> dir_entry list" where
  "remove_archives dir resolved archives entries =
     (case resolved of
        Inl error \<Rightarrow> (map (\<lambda>a. (a, error)) archives, entries)
      | Inr root \<Rightarrow> remove_loop dir root archives entries)"

section \<open>Globs match\<close>

text \<open>What a glob means: a star is any run of characters, a question mark any one, the rest literal.\<close>

fun glob :: "string \<Rightarrow> string \<Rightarrow> bool" where
  "glob [] n = (n = [])"
| "glob (x # p) n =
     (if x = star then (case n of [] \<Rightarrow> glob p [] | c # n' \<Rightarrow> glob p n \<or> glob (x # p) n')
      else (case n of [] \<Rightarrow> False | c # n' \<Rightarrow> (x = any_char \<or> x = c) \<and> glob p n'))"

lemma ex_shift: "m \<le> l \<Longrightarrow> (\<exists>k\<le>l - m. P (k + m)) \<longleftrightarrow> (\<exists>k\<ge>m. k \<le> l \<and> P (k::nat))"
proof
  assume "m \<le> l" and "\<exists>k\<le>l - m. P (k + m)"
  then obtain k where "k \<le> l - m" "P (k + m)" by blast
  then show "\<exists>k\<ge>m. k \<le> l \<and> P k" using \<open>m \<le> l\<close> by (intro exI [of _ "k + m"]) simp
next
  assume "\<exists>k\<ge>m. k \<le> l \<and> P k"
  then obtain k where "m \<le> k" "k \<le> l" "P k" by blast
  then show "\<exists>k\<le>l - m. P (k + m)" by (intro exI [of _ "k - m"]) simp
qed

lemma ex_greater_Suc: "(\<exists>k>n. P k) \<longleftrightarrow> P (Suc n) \<or> (\<exists>k>Suc n. P k)"
  by (metis Suc_lessD Suc_lessI lessI)

lemma glob_star: "glob (star # p) n \<longleftrightarrow> (\<exists>k\<le>length n. glob p (drop k n))"
proof (induction n)
  case (Cons c n)
  have "(\<exists>k\<le>length (c # n). glob p (drop k (c # n))) \<longleftrightarrow> glob p (c # n) \<or> (\<exists>k\<le>length n. glob p (drop k n))"
    by (metis Suc_le_mono bot_nat_0.extremum drop0 drop_Suc_Cons length_Cons not0_implies_Suc)
  with Cons show ?case by simp
qed simp

lemma glob_stars: "glob p [] \<longleftrightarrow> list_all (\<lambda>c. c = star) p"
  by (induction p) simp_all

lemma glob_literals:
  "star \<notin> set q \<Longrightarrow> glob (q @ p) n \<Longrightarrow> length q \<le> length n \<and> glob p (drop (length q) n)"
  by (induction q arbitrary: n) (auto split: list.splits if_splits)

text \<open>
  The state of the loop: the pattern between the last star and here holds no star and has the length of
  the name between there and here.
\<close>

definition loop_ok :: "string \<Rightarrow> string \<Rightarrow> nat \<Rightarrow> nat \<Rightarrow> (nat \<times> nat) option \<Rightarrow> bool" where
  "loop_ok pattern name p n s \<longleftrightarrow> p \<le> length pattern \<and> n \<le> length name \<and>
     (case s of None \<Rightarrow> True | Some (sp, sn) \<Rightarrow>
        \<exists>q. drop (Suc sp) pattern = q @ drop p pattern \<and> star \<notin> set q \<and> n = sn + length q \<and> p = Suc sp + length q)"

text \<open>What the loop still has to find: a match from here, or one with a longer run for the last star.\<close>

definition still :: "string \<Rightarrow> string \<Rightarrow> nat \<Rightarrow> nat \<Rightarrow> (nat \<times> nat) option \<Rightarrow> bool" where
  "still pattern name p n s \<longleftrightarrow> glob (drop p pattern) (drop n name) \<or>
     (case s of None \<Rightarrow> False | Some (sp, sn) \<Rightarrow>
        \<exists>k>sn. k \<le> length name \<and> glob (drop (Suc sp) pattern) (drop k name))"

lemma longer_run:
  assumes "loop_ok pattern name p n (Some (sp, sn))" and "k > sn" and "k \<le> length name"
    and "glob (drop (Suc sp) pattern) (drop k name)"
  obtains k' where "k' > n" and "k' \<le> length name" and "glob (drop p pattern) (drop k' name)"
proof -
  obtain q where q: "drop (Suc sp) pattern = q @ drop p pattern" "star \<notin> set q" "n = sn + length q"
    using assms(1) by (auto simp: loop_ok_def)
  from glob_literals [OF q(2) assms(4) [unfolded q(1)]]
  have "length q \<le> length name - k" "glob (drop p pattern) (drop (length q + k) name)" by simp_all
  with q(3) assms(2,3) show ?thesis by (intro that [of "length q + k"]) simp_all
qed

text \<open>The loop ends: a new star is further in the pattern, going back costs the star a character.\<close>

definition loop_rank :: "string \<Rightarrow> string \<Rightarrow> (nat \<times> nat \<times> (nat \<times> nat) option) rel" where
  "loop_rank pattern name = measures
     [\<lambda>(p, n, s). case s of None \<Rightarrow> Suc (length pattern) | Some (sp, sn) \<Rightarrow> length pattern - sp,
      \<lambda>(p, n, s). case s of None \<Rightarrow> 0 | Some (sp, sn) \<Rightarrow> length name - sn,
      \<lambda>(p, n, s). length name - n]"

lemma wf_loop_rank: "wf (loop_rank pattern name)"
  by (simp add: loop_rank_def)

lemma loop_star:
  assumes "loop_ok pattern name p n s" and "n < length name" and "p < length pattern" and "pattern ! p = star"
  shows "loop_ok pattern name (p + 1) n (Some (p, n))" and "((p + 1, n, Some (p, n)), (p, n, s)) \<in> loop_rank pattern name"
    and "still pattern name (p + 1) n (Some (p, n)) = still pattern name p n s"
proof -
  show "loop_ok pattern name (p + 1) n (Some (p, n))" using assms by (simp add: loop_ok_def)
  show "((p + 1, n, Some (p, n)), (p, n, s)) \<in> loop_rank pattern name"
    using assms by (auto simp: loop_rank_def loop_ok_def split: option.splits)
  have cons: "drop p pattern = star # drop (Suc p) pattern" using Cons_nth_drop_Suc [OF assms(3)] assms(4) by simp
  have here: "glob (drop p pattern) (drop m name) \<longleftrightarrow> (\<exists>k\<ge>m. k \<le> length name \<and> glob (drop (Suc p) pattern) (drop k name))"
    if "m \<le> length name" for m
  proof -
    have "glob (drop p pattern) (drop m name) \<longleftrightarrow> (\<exists>k\<le>length name - m. glob (drop (Suc p) pattern) (drop (k + m) name))"
      unfolding cons glob_star by simp
    also have "\<dots> \<longleftrightarrow> (\<exists>k\<ge>m. k \<le> length name \<and> glob (drop (Suc p) pattern) (drop k name))"
      using that by (rule ex_shift)
    finally show ?thesis .
  qed
  have "still pattern name p n s \<longleftrightarrow> glob (drop p pattern) (drop n name)"
  proof (cases s)
    case (Some ss)
    obtain sp sn where ss: "ss = (sp, sn)" by fastforce
    have "glob (drop p pattern) (drop n name)"
      if k: "k > sn" "k \<le> length name" "glob (drop (Suc sp) pattern) (drop k name)" for k
    proof -
      obtain k' where "k' > n" "k' \<le> length name" "glob (drop p pattern) (drop k' name)"
        using longer_run [OF assms(1) [unfolded Some ss] k] .
      then show ?thesis using here [of k'] here [of n] assms(2) by (metis less_imp_le_nat order.trans)
    qed
    then show ?thesis by (auto simp: still_def Some ss)
  qed (simp add: still_def)
  also have "\<dots> \<longleftrightarrow> still pattern name (p + 1) n (Some (p, n))"
    using here [of n] assms(2) by (auto simp: still_def le_less)
  finally show "still pattern name (p + 1) n (Some (p, n)) = still pattern name p n s" ..
qed

lemma loop_match:
  assumes "loop_ok pattern name p n s" and "n < length name" and "p < length pattern" and "pattern ! p \<noteq> star"
    and "pattern ! p = any_char \<or> pattern ! p = name ! n"
  shows "loop_ok pattern name (p + 1) (n + 1) s" and "((p + 1, n + 1, s), (p, n, s)) \<in> loop_rank pattern name"
    and "still pattern name (p + 1) (n + 1) s = still pattern name p n s"
proof -
  have cons: "drop p pattern = pattern ! p # drop (Suc p) pattern" "drop n name = name ! n # drop (Suc n) name"
    using assms(2,3) by (simp_all add: Cons_nth_drop_Suc)
  show "loop_ok pattern name (p + 1) (n + 1) s"
  proof (cases s)
    case (Some ss)
    obtain sp sn where ss: "ss = (sp, sn)" by fastforce
    obtain q where q: "drop (Suc sp) pattern = q @ drop p pattern" "star \<notin> set q" "n = sn + length q" "p = Suc sp + length q"
      using assms(1) by (auto simp: loop_ok_def Some ss)
    have "drop (Suc sp) pattern = (q @ [pattern ! p]) @ drop (Suc p) pattern" using q(1) cons(1) by simp
    moreover have "star \<notin> set (q @ [pattern ! p])" using q(2) assms(4) by auto
    ultimately show ?thesis using assms(2,3) q(3,4) unfolding loop_ok_def Some ss
      by (auto intro!: exI [of _ "q @ [pattern ! p]"])
  qed (use assms in \<open>simp add: loop_ok_def\<close>)
  show "((p + 1, n + 1, s), (p, n, s)) \<in> loop_rank pattern name"
    using assms(2) by (auto simp: loop_rank_def split: option.splits)
  show "still pattern name (p + 1) (n + 1) s = still pattern name p n s"
    using assms(4,5) by (simp add: still_def cons)
qed

lemma loop_retry:
  assumes "loop_ok pattern name p n (Some (sp, sn))" and "n < length name"
  shows "loop_ok pattern name (sp + 1) (sn + 1) (Some (sp, sn + 1))"
    and "((sp + 1, sn + 1, Some (sp, sn + 1)), (p, n, Some (sp, sn))) \<in> loop_rank pattern name"
    and "still pattern name (sp + 1) (sn + 1) (Some (sp, sn + 1)) \<longleftrightarrow>
      (\<exists>k>sn. k \<le> length name \<and> glob (drop (Suc sp) pattern) (drop k name))"
proof -
  show "loop_ok pattern name (sp + 1) (sn + 1) (Some (sp, sn + 1))" using assms by (auto simp: loop_ok_def)
  show "((sp + 1, sn + 1, Some (sp, sn + 1)), (p, n, Some (sp, sn))) \<in> loop_rank pattern name"
    using assms by (auto simp: loop_rank_def loop_ok_def)
  have "sn < length name" using assms by (auto simp: loop_ok_def)
  then show "still pattern name (sp + 1) (sn + 1) (Some (sp, sn + 1)) \<longleftrightarrow>
      (\<exists>k>sn. k \<le> length name \<and> glob (drop (Suc sp) pattern) (drop k name))"
    unfolding still_def by (subst (2) ex_greater_Suc) (auto intro: Suc_leI)
qed

lemma matches_loop_total:
  "loop_ok pattern name p n s \<Longrightarrow> matches_loop pattern name p n s = Some (still pattern name p n s)"
proof (induction "(p, n, s)" arbitrary: p n s rule: wf_induct_rule [OF wf_loop_rank [of pattern name]])
  case 1
  note ok = 1(2) and IH = 1(1)
  consider (over) "\<not> n < length name" | (star) "n < length name" "p < length pattern" "pattern ! p = star"
    | (match) "n < length name" "p < length pattern" "pattern ! p \<noteq> star" "pattern ! p = any_char \<or> pattern ! p = name ! n"
    | (retry) "n < length name" "\<not> (p < length pattern \<and> pattern ! p = star)"
        "\<not> (p < length pattern \<and> (pattern ! p = any_char \<or> pattern ! p = name ! n))"
    by blast
  then show ?case
  proof cases
    case over
    have none: "\<not> (\<exists>k>sn. k \<le> length name \<and> glob (drop (Suc sp) pattern) (drop k name))" if "s = Some (sp, sn)" for sp sn
      using longer_run [OF ok [unfolded that]] over by (metis less_le_trans)
    from over ok have "drop n name = []" by (simp add: loop_ok_def)
    with over none show ?thesis
      by (subst matches_loop.simps) (auto simp: still_def glob_stars split: option.splits)
  next
    case star
    note l = loop_star [OF ok star]
    show ?thesis using IH [OF l(2,1)] l(3) star by (subst matches_loop.simps) simp
  next
    case match
    note l = loop_match [OF ok match]
    show ?thesis using IH [OF l(2,1)] l(3) match by (subst matches_loop.simps) simp
  next
    case retry
    have "\<not> glob (drop p pattern) (drop n name)"
    proof (cases "p < length pattern")
      case True
      then have "drop p pattern = pattern ! p # drop (Suc p) pattern" "drop n name = name ! n # drop (Suc n) name"
        using retry(1) by (simp_all add: Cons_nth_drop_Suc)
      then show ?thesis using retry True by simp
    qed (use retry(1) in simp)
    then show ?thesis
    proof (cases s)
      case (Some ss)
      obtain sp sn where ss: "ss = (sp, sn)" by fastforce
      note l = loop_retry [OF ok [unfolded Some ss] retry(1)]
      have "matches_loop pattern name (sp + 1) (sn + 1) (Some (sp, sn + 1)) = Some (still pattern name (sp + 1) (sn + 1) (Some (sp, sn + 1)))"
        by (rule IH [OF l(2) [folded ss, folded Some] l(1)])
      then show ?thesis using l(3) retry \<open>\<not> glob (drop p pattern) (drop n name)\<close> Some ss
        by (subst matches_loop.simps) (simp add: still_def, blast)
    qed (use retry in \<open>subst matches_loop.simps, auto simp: still_def\<close>)
  qed
qed

text \<open>
  C33: the glob matcher ends on every pattern and name, and its answer is the meaning of the glob. The
  loop only remembers the last star; that forgetting the earlier ones loses no match is what the
  invariant \<open>loop_ok\<close> carries.
\<close>

theorem matches_is_glob: "matches pattern name = Some (glob pattern name)"
  using matches_loop_total [of pattern name 0 0 None] by (simp add: matches_def loop_ok_def still_def)

section \<open>What a plan keeps\<close>

text \<open>A verifier whose verdicts depend on the path alone, and that logs the paths it is asked for.\<close>

definition logged :: "(path \<Rightarrow> verdict) \<Rightarrow> path list verifier" where
  "logged v p w = (v p, w @ [p])"

fun rejected :: "verdict \<Rightarrow> bool" where
  "rejected (Invalid _) = True"
| "rejected _ = False"

text \<open>The rules of a turn of the loop, and the archives that survive.\<close>

definition old :: "system_time option \<Rightarrow> candidate \<Rightarrow> bool" where
  "old cutoff c \<longleftrightarrow> (case cutoff of Some t \<Rightarrow> taken_at c < t | None \<Rightarrow> False)"

definition full :: "retention_policy \<Rightarrow> nat \<Rightarrow> bool" where
  "full policy slots \<longleftrightarrow> (case keep_last policy of Some k \<Rightarrow> k \<le> slots | None \<Rightarrow> False)"

definition contested :: "retention_policy \<Rightarrow> system_time option \<Rightarrow> nat \<Rightarrow> candidate \<Rightarrow> bool" where
  "contested policy cutoff slots c \<longleftrightarrow> old cutoff c \<and> \<not> full policy slots \<and> slots < keep_minimum policy"

definition survives :: "retention_policy \<Rightarrow> system_time option \<Rightarrow> (path \<Rightarrow> verdict) \<Rightarrow> nat \<Rightarrow> candidate \<Rightarrow> bool" where
  "survives policy cutoff v slots c \<longleftrightarrow>
     \<not> full policy slots \<and> (old cutoff c \<longrightarrow> slots < keep_minimum policy \<and> \<not> rejected (v (cd_path c)))"

fun survivors :: "retention_policy \<Rightarrow> system_time option \<Rightarrow> (path \<Rightarrow> verdict) \<Rightarrow> nat \<Rightarrow> candidate list \<Rightarrow> candidate list" where
  "survivors policy cutoff v slots [] = []"
| "survivors policy cutoff v slots (c # cs) =
     (if survives policy cutoff v slots c then c # survivors policy cutoff v (Suc slots) cs
      else survivors policy cutoff v slots cs)"

lemma plan_step_run:
  "plan_step policy cutoff (logged v) c (slots, p, w) = (slots', p', w') \<Longrightarrow>
     slots' = (if survives policy cutoff v slots c then Suc slots else slots) \<and>
     mset (rp_keep p' @ rp_exempt p') = mset (rp_keep p @ rp_exempt p) + (if survives policy cutoff v slots c then {#cd_path c#} else {#}) \<and>
     mset (rp_remove p') = mset (rp_remove p) + (if survives policy cutoff v slots c then {#} else {#cd_path c#}) \<and>
     w' = (if contested policy cutoff slots c then w @ [cd_path c] else w)"
  by (cases "v (cd_path c)"; cases cutoff; cases "keep_last policy")
    (auto simp: plan_step_def survives_def full_def old_def contested_def logged_def push_removed_def Let_def not_le not_less
      split: if_splits)

lemma plan_loop_run:
  assumes "plan_loop policy cutoff (logged v) cs (slots, p, w) = (slots', p', w')"
  shows "slots' = slots + length (survivors policy cutoff v slots cs) \<and>
    mset (rp_keep p' @ rp_exempt p') = mset (rp_keep p @ rp_exempt p) + mset (map cd_path (survivors policy cutoff v slots cs)) \<and>
    mset (rp_remove p' @ rp_keep p' @ rp_exempt p') = mset (rp_remove p @ rp_keep p @ rp_exempt p) + mset (map cd_path cs) \<and>
    (\<forall>x\<in>set w'. x \<in> set w \<or> (\<exists>c\<in>set cs. cd_path c = x \<and> old cutoff c)) \<and> (keep_minimum policy = 0 \<longrightarrow> w' = w)"
  using assms
proof (induction cs arbitrary: slots p w)
  case (Cons c cs)
  obtain s1 p1 w1 where step: "plan_step policy cutoff (logged v) c (slots, p, w) = (s1, p1, w1)"
    by (metis prod_cases3)
  note s = plan_step_run [OF step]
  from Cons.prems step have "plan_loop policy cutoff (logged v) cs (s1, p1, w1) = (slots', p', w')" by simp
  from Cons.IH [OF this] s show ?case by (auto simp: contested_def split: if_splits)
qed simp

lemma survivors_subset: "set (survivors policy cutoff v slots cs) \<subseteq> set cs"
  by (induction policy cutoff v slots cs rule: survivors.induct) auto

lemma survivors_full: "keep_last policy = Some k \<Longrightarrow> slots \<le> k \<Longrightarrow> slots + length (survivors policy cutoff v slots cs) \<le> k"
  by (induction policy cutoff v slots cs rule: survivors.induct) (auto simp: survives_def full_def)

definition policy_ok :: "retention_policy \<Rightarrow> bool" where
  "policy_ok policy \<longleftrightarrow> (case keep_last policy of Some k \<Rightarrow> 0 < k \<and> keep_minimum policy \<le> k | None \<Rightarrow> True)"

lemma policy_new_ok: "retention_policy_new r f k = Inr policy \<Longrightarrow> policy_ok policy"
  by (auto simp: retention_policy_new_def policy_ok_def split: option.splits if_splits)

lemma survivors_floor:
  assumes "policy_ok policy"
  shows "min (keep_minimum policy) (slots + length (filter (\<lambda>c. \<not> rejected (v (cd_path c))) cs)) \<le>
    slots + length (survivors policy cutoff v slots cs)"
  using assms
proof (induction policy cutoff v slots cs rule: survivors.induct)
  case (2 policy cutoff v slots c cs)
  have "survives policy cutoff v slots c" if "\<not> rejected (v (cd_path c))" "slots < keep_minimum policy"
    using that 2(3) by (auto simp: survives_def full_def policy_ok_def split: option.splits)
  with 2 show ?case by (cases "survives policy cutoff v slots c") (auto simp: min_def split: if_splits)
qed simp

lemma survives_mono:
  assumes "policy_ok policy" and "slots \<le> slots'" and "survives policy cutoff (\<lambda>_. Valid) slots' c"
  shows "survives policy cutoff v slots c \<or> rejected (v (cd_path c)) \<and> old cutoff c"
  using assms by (auto simp: survives_def full_def split: option.splits)

lemma slots_mono:
  assumes "policy_ok policy" and "slots \<le> slots'" and "survives policy cutoff v slots c"
    and "\<not> survives policy cutoff (\<lambda>_. Valid) slots' c"
  shows "Suc slots \<le> slots'"
  using assms by (auto simp: survives_def full_def policy_ok_def split: option.splits)

lemma survivors_blind:
  assumes "policy_ok policy" and "slots \<le> slots'" and "c \<in> set (survivors policy cutoff (\<lambda>_. Valid) slots' cs)"
  shows "c \<in> set (survivors policy cutoff v slots cs) \<or> rejected (v (cd_path c)) \<and> old cutoff c"
  using assms(2,3)
proof (induction cs arbitrary: slots slots')
  case (Cons d cs)
  let ?v = "survives policy cutoff v slots d" and ?b = "survives policy cutoff (\<lambda>_. Valid) slots' d"
  have "(if ?v then Suc slots else slots) \<le> (if ?b then Suc slots' else slots')"
    using slots_mono [OF assms(1) Cons.prems(1), of cutoff v d] Cons.prems(1) by auto
  from Cons.IH [OF this] Cons.prems(2) survives_mono [OF assms(1) Cons.prems(1), of cutoff d v]
  show ?case by (auto split: if_splits)
qed simp

lemma plan_run:
  assumes "plan cs policy time (logged v) [] = (p, w)"
  shows "mset (rp_keep p @ rp_exempt p) = mset (map cd_path (survivors policy (plan_cutoff policy time) v 0 (newest_first cs)))"
    and "mset (rp_remove p @ rp_keep p @ rp_exempt p) = mset (map cd_path cs)"
    and "\<And>x. x \<in> set w \<Longrightarrow> \<exists>c\<in>set cs. cd_path c = x \<and> old (plan_cutoff policy time) c"
    and "keep_minimum policy = 0 \<Longrightarrow> w = []"
proof -
  obtain slots where "plan_loop policy (plan_cutoff policy time) (logged v) (newest_first cs) (0, plan_default, []) = (slots, p, w)"
    using assms by (cases "plan_loop policy (plan_cutoff policy time) (logged v) (newest_first cs) (0, plan_default, [])") (simp add: plan_def)
  from plan_loop_run [OF this] show
    "mset (rp_keep p @ rp_exempt p) = mset (map cd_path (survivors policy (plan_cutoff policy time) v 0 (newest_first cs)))"
    "mset (rp_remove p @ rp_keep p @ rp_exempt p) = mset (map cd_path cs)"
    "\<And>x. x \<in> set w \<Longrightarrow> \<exists>c\<in>set cs. cd_path c = x \<and> old (plan_cutoff policy time) c"
    "keep_minimum policy = 0 \<Longrightarrow> w = []"
    by (auto simp: plan_default_def newest_first_def mset_map [symmetric] simp del: mset_map)
       (simp_all add: mset_map)
qed

lemma plan_members:
  assumes "plan cs policy time (logged v) [] = (p, w)" and "distinct (map cd_path cs)" and "c \<in> set cs"
  shows "cd_path c \<in> set (rp_keep p) \<union> set (rp_exempt p) \<longleftrightarrow> c \<in> set (survivors policy (plan_cutoff policy time) v 0 (newest_first cs))"
    and "cd_path c \<in> set (rp_remove p) \<longleftrightarrow> cd_path c \<notin> set (rp_keep p) \<union> set (rp_exempt p)"
proof -
  let ?s = "survivors policy (plan_cutoff policy time) v 0 (newest_first cs)"
  have sub: "set ?s \<subseteq> set cs" using survivors_subset [of policy _ v 0 "newest_first cs"] by (simp add: newest_first_def)
  have "set (rp_keep p @ rp_exempt p) = set (map cd_path ?s)" using plan_run(1) [OF assms(1)] by (metis set_mset_mset)
  then have "cd_path c \<in> set (rp_keep p) \<union> set (rp_exempt p) \<longleftrightarrow> cd_path c \<in> cd_path ` set ?s" by simp
  also have "\<dots> \<longleftrightarrow> c \<in> set ?s" using sub assms(2,3) by (auto simp: distinct_map dest: inj_onD)
  finally show "cd_path c \<in> set (rp_keep p) \<union> set (rp_exempt p) \<longleftrightarrow> c \<in> set ?s" .
  have "distinct (rp_remove p @ rp_keep p @ rp_exempt p)" "set (rp_remove p @ rp_keep p @ rp_exempt p) = cd_path ` set cs"
    using plan_run(2) [OF assms(1)] assms(2) by (metis mset_eq_imp_distinct_iff, metis set_map set_mset_mset)
  then show "cd_path c \<in> set (rp_remove p) \<longleftrightarrow> cd_path c \<notin> set (rp_keep p) \<union> set (rp_exempt p)"
    using assms(3) by auto
qed

lemma survivors_newest_valid:
  assumes "policy_ok policy" and "\<forall>c \<in> set cs. \<not> old cutoff c \<longrightarrow> \<not> rejected (v (cd_path c))"
  shows "mset (take (keep_minimum policy - slots) (filter (\<lambda>c. \<not> rejected (v (cd_path c))) cs)) \<subseteq># mset (survivors policy cutoff v slots cs)"
  using assms
proof (induction policy cutoff v slots cs rule: survivors.induct)
  case (2 policy cutoff v slots c cs)
  show ?case
  proof (cases "rejected (v (cd_path c)) \<or> keep_minimum policy \<le> slots")
    case True
    with 2(4) have "\<not> survives policy cutoff v slots c \<or> keep_minimum policy \<le> slots" by (auto simp: survives_def)
    with True 2 show ?thesis by auto
  next
    case False
    then have "survives policy cutoff v slots c"
      using 2(3) by (auto simp: survives_def full_def policy_ok_def split: option.splits)
    moreover have "keep_minimum policy - slots = Suc (keep_minimum policy - Suc slots)" using False by linarith
    ultimately show ?thesis using False 2 by simp
  qed
qed simp

lemma plan_exempt_valid:
  assumes "plan cs policy time (logged v) [] = (p, w)" and "x \<in> set (rp_exempt p)"
  shows "\<not> rejected (v x)"
proof -
  have step: "\<forall>x \<in> set (rp_exempt p'). \<not> rejected (v x)"
    if "plan_step policy cutoff (logged v) c (slots, p, w) = (slots', p', w')" "\<forall>x \<in> set (rp_exempt p). \<not> rejected (v x)"
    for cutoff c slots p w slots' p' w'
    using that by (cases "v (cd_path c)") (auto simp: plan_step_def logged_def push_removed_def Let_def split: if_splits)
  have "\<forall>x \<in> set (rp_exempt p'). \<not> rejected (v x)"
    if "plan_loop policy cutoff (logged v) cs (slots, p, w) = (slots', p', w')" "\<forall>x \<in> set (rp_exempt p). \<not> rejected (v x)"
    for cutoff cs slots p w slots' p' w'
    using that
  proof (induction cs arbitrary: slots p w)
    case (Cons c cs)
    obtain s1 p1 w1 where s: "plan_step policy cutoff (logged v) c (slots, p, w) = (s1, p1, w1)" by (rule prod_cases3)
    with Cons show ?case using step [OF s] by simp
  qed simp
  moreover obtain slots where "plan_loop policy (plan_cutoff policy time) (logged v) (newest_first cs) (0, plan_default, []) = (slots, p, w)"
    using assms(1) by (cases "plan_loop policy (plan_cutoff policy time) (logged v) (newest_first cs) (0, plan_default, [])") (simp add: plan_def)
  ultimately show ?thesis using assms(2) by (fastforce simp: plan_default_def)
qed

text \<open>
  C15: a plan stays between its floor and its ceiling. For a policy the constructor accepts, every archive
  is in exactly one of \<open>remove\<close>, \<open>keep\<close> and \<open>exempt\<close>; at most \<open>keep_last\<close> survive, and at least as many as the smaller of \<open>keep_minimum\<close>
  and the number of archives \<open>pg_restore\<close> does not reject; none that the floor exempts is rejected. The number bounds the survivors, not the
  readable ones among them: an archive inside the age rule is kept unread and spends a slot of the floor. When none of those is
  corrupt, the newest \<open>keep_minimum\<close> archives that are not rejected all survive.
\<close>

theorem plan_between_floor_and_ceiling:
  assumes "retention_policy_new r f k = Inr policy" and "plan cs policy time (logged v) [] = (p, w)"
  shows "mset (rp_remove p) + mset (rp_keep p) + mset (rp_exempt p) = mset (map cd_path cs) \<and>
    min f (length (filter (\<lambda>c. \<not> rejected (v (cd_path c))) cs)) \<le> length (rp_keep p) + length (rp_exempt p) \<and>
    (\<forall>l. k = Some l \<longrightarrow> length (rp_keep p) + length (rp_exempt p) \<le> l) \<and>
    (\<forall>x \<in> set (rp_exempt p). \<not> rejected (v x)) \<and>
    ((\<forall>c \<in> set cs. \<not> old (plan_cutoff policy time) c \<longrightarrow> \<not> rejected (v (cd_path c))) \<longrightarrow>
      mset (map cd_path (take f (filter (\<lambda>c. \<not> rejected (v (cd_path c))) (newest_first cs)))) \<subseteq># mset (rp_keep p) + mset (rp_exempt p))"
proof -
  let ?s = "survivors policy (plan_cutoff policy time) v 0 (newest_first cs)"
  have policy: "keep_minimum policy = f" "keep_last policy = k"
    using assms(1) by (auto simp: retention_policy_new_def split: option.splits if_splits)
  note kept = plan_run(1) [OF assms(2)]
  have len: "length (rp_keep p) + length (rp_exempt p) = length ?s" using arg_cong [OF kept, of size] by simp
  have "size (filter_mset (\<lambda>c. \<not> rejected (v (cd_path c))) (mset (newest_first cs))) = size (filter_mset (\<lambda>c. \<not> rejected (v (cd_path c))) (mset cs))"
    by (simp add: newest_first_def)
  then have "length (filter (\<lambda>c. \<not> rejected (v (cd_path c))) (newest_first cs)) = length (filter (\<lambda>c. \<not> rejected (v (cd_path c))) cs)"
    unfolding mset_filter [symmetric] size_mset .
  then have "min f (length (filter (\<lambda>c. \<not> rejected (v (cd_path c))) cs)) \<le> length ?s"
    using survivors_floor [OF policy_new_ok [OF assms(1)], of 0 v "newest_first cs" "plan_cutoff policy time"] policy(1) by simp
  moreover have "length ?s \<le> l" if "k = Some l" for l
    using survivors_full [of policy l 0 "plan_cutoff policy time" v "newest_first cs"] policy(2) that by simp
  moreover have "mset (map cd_path (take f (filter (\<lambda>c. \<not> rejected (v (cd_path c))) (newest_first cs)))) \<subseteq># mset (rp_keep p @ rp_exempt p)"
    if "\<forall>c \<in> set cs. \<not> old (plan_cutoff policy time) c \<longrightarrow> \<not> rejected (v (cd_path c))"
  proof -
    have "\<forall>c \<in> set (newest_first cs). \<not> old (plan_cutoff policy time) c \<longrightarrow> \<not> rejected (v (cd_path c))" using that by (simp add: newest_first_def)
    from survivors_newest_valid [OF policy_new_ok [OF assms(1)] this, of 0] show ?thesis
      unfolding kept mset_map policy(1) by (simp add: image_mset_subseteq_mono)
  qed
  ultimately show ?thesis using plan_run(2) [OF assms(2)] plan_exempt_valid [OF assms(2)] len by (simp add: add.assoc)
qed

definition demo_corpus :: "candidate list" where
  "demo_corpus = [\<lparr>cd_path = ''old'', taken_at = 1\<rparr>, \<lparr>cd_path = ''new'', taken_at = 9\<rparr>]"

theorem plan_between_floor_and_ceiling_witness:
  "\<exists>policy p w. retention_policy_new (Some 3) 1 (Some 1) = Inr policy \<and>
    plan demo_corpus policy 20 (logged (\<lambda>_. Valid)) [] = (p, w) \<and> length (rp_keep p) + length (rp_exempt p) = 1"
proof -
  obtain policy where policy: "retention_policy_new (Some 3) 1 (Some 1) = Inr policy" by (simp add: retention_policy_new_def)
  obtain p w where p: "plan demo_corpus policy 20 (logged (\<lambda>_. Valid)) [] = (p, w)" by fastforce
  from plan_between_floor_and_ceiling [OF policy p] policy p show ?thesis by (auto simp: demo_corpus_def)
qed

text \<open>
  Reading archives back never costs a readable one. Compared with a floor that takes every file as
  valid, no archive that \<open>pg_restore\<close> does not reject is removed that the blind floor would have kept; an
  archive removed that the blind floor would have kept is both rejected and past the cutoff; and only
  archives past the cutoff are ever verified, none under a floor of zero.
\<close>

theorem floor_improves_blind_floor:
  assumes "retention_policy_new r f k = Inr policy" and "distinct (map cd_path cs)" and "c \<in> set cs"
    and "plan cs policy time (logged v) [] = (p, w)" and "plan cs policy time (logged (\<lambda>_. Valid)) [] = (blind, w')"
  shows "(cd_path c \<in> set (rp_remove p) \<longrightarrow> cd_path c \<in> set (rp_remove blind) \<or>
      rejected (v (cd_path c)) \<and> old (plan_cutoff policy time) c) \<and>
    (cd_path c \<in> set w \<longrightarrow> old (plan_cutoff policy time) c \<and> 0 < f)"
proof
  note m = plan_members [OF assms(4,2,3)] and b = plan_members [OF assms(5,2,3)]
  show "cd_path c \<in> set (rp_remove p) \<longrightarrow> cd_path c \<in> set (rp_remove blind) \<or> rejected (v (cd_path c)) \<and> old (plan_cutoff policy time) c"
    using survivors_blind [OF policy_new_ok [OF assms(1)] order.refl, of c "plan_cutoff policy time" 0 "newest_first cs" v] m b by blast
  have "keep_minimum policy = f" using assms(1) by (auto simp: retention_policy_new_def split: option.splits if_splits)
  then show "cd_path c \<in> set w \<longrightarrow> old (plan_cutoff policy time) c \<and> 0 < f"
    using plan_run(3,4) [OF assms(4)] assms(2,3) by (fastforce simp: distinct_map dest: inj_onD)
qed

theorem floor_improves_blind_floor_witness:
  "\<exists>policy p w. retention_policy_new (Some 3) 1 None = Inr policy \<and>
    plan demo_corpus policy 20 (logged (\<lambda>x. if x = ''new'' then Invalid ''bad magic'' else Valid)) [] = (p, w) \<and>
    rp_remove p = [''new''] \<and> rp_exempt p = [''old''] \<and> old (plan_cutoff policy 20) \<lparr>cd_path = ''new'', taken_at = 9\<rparr>"
proof -
  let ?v = "\<lambda>x. if x = ''new'' then Invalid ''bad magic'' else Valid"
  obtain policy where policy: "retention_policy_new (Some 3) 1 None = Inr policy" by (simp add: retention_policy_new_def)
  obtain p w where p: "plan demo_corpus policy 20 (logged ?v) [] = (p, w)" by fastforce
  obtain b w' where b: "plan demo_corpus policy 20 (logged (\<lambda>_. Valid)) [] = (b, w')" by fastforce
  have d: "distinct (map cd_path demo_corpus)" "\<lparr>cd_path = ''new'', taken_at = 9\<rparr> \<in> set demo_corpus" by (simp_all add: demo_corpus_def)
  have run: "rp_remove p = [''new'']" "rp_exempt p = [''old'']" "rp_remove b = [''old'']"
    using p b policy by (auto simp: retention_policy_new_def plan_def demo_corpus_def newest_first_def plan_cutoff_def checked_sub_def
      earliest_time_def plan_step_def logged_def push_removed_def plan_default_def Let_def)
  from floor_improves_blind_floor [OF policy d p b] run policy p show ?thesis by auto
qed

text \<open>
  An unreadable archive inside the age rule still spends a floor slot. The young archive is kept
  without being read, its slot fills a floor of one, and the only readable archive is removed, although
  the floor is said to count valid archives.
\<close>

theorem young_corrupt_archive_spends_floor:
  "fst (plan demo_corpus \<lparr>retention = Some 15, keep_minimum = 1, keep_last = None\<rparr> 20
      (logged (\<lambda>x. if x = ''new'' then Invalid ''bad magic'' else Valid)) []) =
    plan_default\<lparr>rp_keep := [''new''], rp_remove := [''old'']\<rparr>"
  by (simp add: plan_def demo_corpus_def newest_first_def plan_cutoff_def checked_sub_def
      earliest_time_def plan_step_def logged_def push_removed_def plan_default_def Let_def)

section \<open>Pruning stays in the directory\<close>

lemma corpus_loop_candidates:
  "corpus_loop root pattern es found = Returns (Inr found') \<Longrightarrow> c \<in> set (co_candidates found') \<Longrightarrow>
     c \<in> set (co_candidates found) \<or> (\<exists>e\<in>set es. de_name e = cd_path c \<and> classify root pattern e = Taken)"
proof (induction es arbitrary: found)
  case (Cons e es)
  show ?case
  proof (cases "classify root pattern e")
    case Taken
    obtain time where "corpus_loop root pattern es
        (found\<lparr>co_candidates := co_candidates found @ [\<lparr>cd_path = de_name e, taken_at = time\<rparr>]\<rparr>) = Returns (Inr found')"
      using Cons.prems(1) Taken by (auto simp: Let_def split: returned.splits option.splits sum.splits)
    from Cons.IH [OF this Cons.prems(2)] Taken show ?thesis by auto
  next
    case Outside
    then show ?thesis using Cons.IH [OF _ Cons.prems(2), of "found\<lparr>co_outside := co_outside found @ [de_name e]\<rparr>"] Cons.prems(1) by auto
  next
    case Passed
    then show ?thesis using Cons.IH [OF _ Cons.prems(2), of found] Cons.prems(1) by auto
  qed
qed simp

lemma classify_Taken:
  assumes "classify root pattern e = Taken"
  shows "glob pattern (de_name e) \<and> (\<nexists>s. de_name e = CHR ''.'' # s) \<and>
    (de_kind e = Regular \<or> (\<exists>target. de_kind e = Symlink (Some target) True \<and> prefix root target))"
proof -
  have "matches pattern (de_name e) = Some (glob pattern (de_name e))"
    using matches_loop_total [of pattern "de_name e" 0 0 None] by (simp add: matches_def loop_ok_def still_def)
  with assms show ?thesis
    by (auto simp: classify_def split: if_splits entry_kind.splits option.splits)
qed

lemma remove_one_frame:
  "remove_one dir root archive entries = (r, entries') \<Longrightarrow>
     set entries' \<subseteq> set entries \<and> (\<forall>e\<in>set entries - set entries'. archive = dir @ [de_name e])"
  by (auto simp: remove_one_def remove_file_def split: if_splits sum.splits option.splits)

lemma remove_loop_frame:
  "remove_loop dir root archives entries = (left, entries') \<Longrightarrow>
     set entries' \<subseteq> set entries \<and> (\<forall>e\<in>set entries - set entries'. dir @ [de_name e] \<in> set archives)"
proof (induction archives arbitrary: entries left)
  case (Cons a as)
  obtain r e1 where one: "remove_one dir root a entries = (r, e1)" by fastforce
  obtain l1 where "remove_loop dir root as e1 = (l1, entries')"
    using Cons.prems one by (cases r) (auto split: prod.splits)
  from Cons.IH [OF this] remove_one_frame [OF one] show ?case by auto
qed simp

text \<open>
  Pruning touches nothing but archives of its own corpus. If the corpus of a directory is planned and the
  planned removals are carried out, every entry that is gone matched the glob, was not hidden, and was a
  regular file or a symlink to one inside the directory; every other entry is still there.
\<close>

lemma prune_frame:
  assumes "distinct (map de_name entries)" and "corpus root pattern entries = Returns (Inr found)"
    and "plan (co_candidates found) policy time (logged v) [] = (p, w)"
    and "remove_archives dir (Inr root) (map (\<lambda>x. dir @ [x]) (rp_remove p)) entries = (left, entries')"
  shows "set entries' \<subseteq> set entries \<and> (\<forall>e\<in>set entries - set entries'.
    glob pattern (de_name e) \<and> (\<nexists>s. de_name e = CHR ''.'' # s) \<and>
    (de_kind e = Regular \<or> (\<exists>target. de_kind e = Symlink (Some target) True \<and> prefix root target)))"
proof -
  note fr = remove_loop_frame [OF assms(4) [unfolded remove_archives_def sum.case]]
  have "classify root pattern e = Taken" if e: "e \<in> set entries - set entries'" for e
  proof -
    have "de_name e \<in> set (rp_remove p)" using fr e by auto
    then have "de_name e \<in> set_mset (mset (map cd_path (co_candidates found)))"
      unfolding plan_run(2) [OF assms(3), symmetric] by simp
    then obtain c where c: "c \<in> set (co_candidates found)" "cd_path c = de_name e" by auto
    from corpus_loop_candidates [OF assms(2) [unfolded corpus_def] c(1)]
    obtain e' where "e' \<in> set entries" "de_name e' = de_name e" "classify root pattern e' = Taken" using c(2) by auto
    then show ?thesis using assms(1) e by (auto simp: distinct_map dest: inj_onD)
  qed
  with classify_Taken fr show ?thesis by blast
qed

lemma remove_loop_distinct:
  "remove_loop dir root as entries = (left, entries') \<Longrightarrow> distinct (map de_name entries) \<Longrightarrow> distinct (map de_name entries')"
proof (induction as arbitrary: entries left)
  case (Cons a as)
  obtain r e1 where one: "remove_one dir root a entries = (r, e1)" by fastforce
  have "distinct (map de_name e1)"
    using one Cons.prems(2)
    by (auto simp: remove_one_def remove_file_def distinct_map_filter split: if_splits sum.splits option.splits)
  moreover obtain l1 where "remove_loop dir root as e1 = (l1, entries')"
    using Cons.prems one by (cases r) (auto split: prod.splits)
  ultimately show ?case using Cons.IH by blast
qed simp

lemma glob_suffix:
  assumes "star \<notin> set q" and "any_char \<notin> set q" and "glob (p @ q) n"
  shows "suffix q n"
  using assms(3)
proof (induction p arbitrary: n)
  case Nil
  have "glob q n \<Longrightarrow> q = n" using assms(1,2) by (induction q arbitrary: n) (auto split: list.splits)
  with Nil show ?case by simp
next
  case (Cons x p)
  show ?case
  proof (cases "x = star")
    case True
    with Cons.prems obtain k where "glob (p @ q) (drop k n)" unfolding append_Cons by (auto simp only: glob_star)
    then show ?thesis using Cons.IH suffix_drop suffix_order.trans by blast
  next
    case False
    with Cons.prems obtain c m where "n = c # m" "glob (p @ q) m" by (auto split: list.splits)
    then show ?thesis using Cons.IH by (simp add: suffix_Cons)
  qed
qed

end
