(* ===== verification/Db_Archive.thy ===== *)
theory Db_Archive
  imports Db_Retention Db_Commands Files
begin

text \<open>
  Timestamped backup archives in a directory (\<open>fraisier-db/src/archive.rs\<close>): their names, finding the
  latest one, and writing a new one through a partial file. The directory is the one of \<open>Files\<close>, any
  call on which may fail; running \<open>pg_dump\<close> and \<open>pg_restore\<close> is a parameter. Every entry is a regular
  file here, and reading the directory is one call.
\<close>

section \<open>Names\<close>

definition archive_extension :: string where
  "archive_extension = ''.pgdump''"

definition archive_file_name :: "string \<Rightarrow> string \<Rightarrow> utc_stamp \<Rightarrow> string" where
  "archive_file_name fraise env stamp = fraise @ ''-'' @ env @ ''-'' @ stamp @ archive_extension"

definition parse_archive_file_name :: "string \<Rightarrow> string \<Rightarrow> string \<Rightarrow> utc_stamp option returned" where
  "parse_archive_file_name fraise env file_name =
     (case Option.bind (strip_prefix fraise file_name) (\<lambda>s. Option.bind (strip_prefix ''-'' s) (\<lambda>s.
        Option.bind (strip_prefix env s) (\<lambda>s. Option.bind (strip_prefix ''-'' s) (strip_suffix archive_extension)))) of
        None \<Rightarrow> Returns None
      | Some stamp \<Rightarrow> parse_stamp stamp)"

record archive =
  ar_path :: path
  ar_stamp :: utc_stamp

section \<open>Listing\<close>

definition fs_list :: "(dir, string, string list) eff" where
  "fs_list = syscall (\<lambda>s. (map fst (dir_files s), s))"

fun collect_archives :: "string \<Rightarrow> string \<Rightarrow> string list \<Rightarrow> archive list returned" where
  "collect_archives fraise env [] = Returns []"
| "collect_archives fraise env (name # names) =
     (case parse_archive_file_name fraise env name of
        Panics \<Rightarrow> Panics
      | Returns found \<Rightarrow> (case collect_archives fraise env names of
            Panics \<Rightarrow> Panics
          | Returns as \<Rightarrow> Returns (case found of Some stamp \<Rightarrow> \<lparr>ar_path = name, ar_stamp = stamp\<rparr> # as | None \<Rightarrow> as)))"

text \<open>\<open>sort_by\<close> on the stamps: stable, so an equal stamp stays behind.\<close>

fun insert_archive :: "archive \<Rightarrow> archive list \<Rightarrow> archive list" where
  "insert_archive a [] = [a]"
| "insert_archive a (b # bs) = (if str_less (ar_stamp a) (ar_stamp b) then a # b # bs else b # insert_archive a bs)"

definition sort_archives :: "archive list \<Rightarrow> archive list" where
  "sort_archives as = fold insert_archive as []"

definition list_archives :: "string \<Rightarrow> string \<Rightarrow> (dir, string, archive list returned) eff" where
  "list_archives fraise env =
     map_ok (\<lambda>names. case collect_archives fraise env names of Panics \<Rightarrow> Panics | Returns as \<Rightarrow> Returns (sort_archives as)) fs_list"

definition latest_archive :: "string \<Rightarrow> string \<Rightarrow> (dir, string, archive option returned) eff" where
  "latest_archive fraise env =
     map_ok (\<lambda>r. case r of Panics \<Rightarrow> Panics | Returns as \<Rightarrow> Returns (last_opt as)) (list_archives fraise env)"

section \<open>Writing\<close>

record archive_tools =
  at_pg_dump :: string
  at_pg_restore :: string

definition archive_tools_default :: archive_tools where
  "archive_tools_default = \<lparr>at_pg_dump = ''pg_dump'', at_pg_restore = ''pg_restore''\<rparr>"

record written_archive =
  wa_archive :: archive
  wa_bytes :: nat
  wa_warnings :: "string list"

text \<open>The errors of \<open>write_archive\<close>, and a panic of it.\<close>

datatype archive_error =
    ArExists path
  | ArInProgress path
  | ArDumpFailed string
  | ArUnreadable string
  | ArShrunk nat nat path
  | ArSpawn db_error
  | ArIo string path string
  | ArPanic

type_synonym executor = "command \<Rightarrow> (dir, db_error, run_outcome) eff"

text \<open>
  \<open>Partial\<close>: claiming the file, its length, and putting it in place. The error of \<open>persist\<close> carries
  whether the file was renamed, which is what \<open>Drop\<close> looks at.
\<close>

definition claim :: "path \<Rightarrow> (dir, archive_error, unit) eff" where
  "claim path =
     and_then (map_err (ArIo ''creating'' path) (syscall (\<lambda>s.
       case contents s path of Some _ \<Rightarrow> (False, s) | None \<Rightarrow> (True, put_file path [] s))))
     (\<lambda>created. if created then ok () else fail (ArInProgress path))"

definition file_len :: "path \<Rightarrow> (dir, archive_error, nat) eff" where
  "file_len path =
     and_then (map_err (ArIo ''reading the size of'' path) (fs_read path))
     (\<lambda>content. case content of Some c \<Rightarrow> ok (length c) | None \<Rightarrow> fail (ArIo ''reading the size of'' path ''No such file or directory''))"

definition fs_flush :: "(dir, string, unit) eff" where
  "fs_flush = syscall (\<lambda>s. ((), s))"

definition persist :: "path \<Rightarrow> path \<Rightarrow> (dir, bool \<times> archive_error, unit) eff" where
  "persist partial target =
     and_then (map_err (\<lambda>e. (False, ArIo ''flushing'' partial e)) (and_then fs_flush (\<lambda>_. fs_flush))) (\<lambda>_.
     and_then (map_err (\<lambda>e. (False, ArIo ''renaming into place'' target e)) (fs_rename partial target)) (\<lambda>_.
     map_err (\<lambda>e. (True, ArIo ''flushing'' ''.'' e)) (and_then fs_flush (\<lambda>_. fs_flush))))"

text \<open>\<open>Drop for Partial\<close>: the file goes unless it was renamed, and an error removing it is ignored.\<close>

definition drop_partial :: "path \<Rightarrow> dir \<Rightarrow> dir" where
  "drop_partial partial s = snd (syscall (\<lambda>s. ((), del_file partial s)) s)"

definition closing :: "path \<Rightarrow> (dir, bool \<times> archive_error, 'a) eff \<Rightarrow> (dir, archive_error, 'a) eff" where
  "closing partial m s =
     (case m s of
        (Inr a, s') \<Rightarrow> (Inr a, s')
      | (Inl (persisted, e), s') \<Rightarrow> (Inl e, if persisted then s' else drop_partial partial s'))"

definition verify_archive :: "executor \<Rightarrow> string \<Rightarrow> path \<Rightarrow> (dir, 'e, verdict) eff" where
  "verify_archive exec pg_restore archive =
     and_then (fs_exists archive) (\<lambda>there.
     if \<not> there then ok (Unverifiable (archive @ '' is not there to check''))
     else and_then (result_of (exec \<lparr>cmd_program = pg_restore, cmd_args = [''--list'', archive], cmd_env = []\<rparr>)) (\<lambda>r. ok (case r of
         Inr o' \<Rightarrow>
           if succeeded o' then Valid
           else if contains ''unsupported version'' (out_stderr o')
           then Unverifiable (pg_restore @ '' is older than the pg_dump that wrote this archive: '' @ trim (out_stderr o'))
           else Invalid (trim (out_stderr o'))
       | Inl error \<Rightarrow> Unverifiable (show_db_error error))))"

text \<open>
  Between the claim and the rename: the checks, whose errors all leave the file to \<open>Drop\<close>. A length is a
  \<open>u64\<close>, so the saturating product in the source compares as the exact one here.
\<close>

definition check_size :: "nat \<Rightarrow> archive option \<Rightarrow> (dir, archive_error, unit) eff" where
  "check_size bytes previous =
     (case previous of
        None \<Rightarrow> ok ()
      | Some p \<Rightarrow> and_then (file_len (ar_path p)) (\<lambda>previous_bytes.
          if bytes * 2 < previous_bytes then fail (ArShrunk bytes previous_bytes (ar_path p)) else ok ()))"

definition dump_and_check :: "executor \<Rightarrow> pg_conn \<Rightarrow> string \<Rightarrow> string \<Rightarrow> archive_tools \<Rightarrow> path \<Rightarrow> path \<Rightarrow>
    (dir, archive_error, nat \<times> string list) eff" where
  "dump_and_check exec conn fraise env tools target partial =
     and_then (fs_exists target) (\<lambda>there.
     if there then fail (ArExists target)
     else and_then (map_err (ArIo ''listing'' ''.'') (latest_archive fraise env)) (\<lambda>r. case r of
         Panics \<Rightarrow> fail ArPanic
       | Returns previous \<Rightarrow>
     and_then (map_err ArSpawn (exec \<lparr>cmd_program = at_pg_dump tools, cmd_args = [''-Fc'', ''-w'', ''-f'', partial], cmd_env = pg_env conn\<rparr>)) (\<lambda>o'.
     if \<not> succeeded o' then fail (ArDumpFailed (trim (out_stderr o')))
     else and_then (verify_archive exec (at_pg_restore tools) partial) (\<lambda>v. case v of
         Invalid stderr \<Rightarrow> fail (ArUnreadable stderr)
       | _ \<Rightarrow>
     and_then (file_len partial) (\<lambda>bytes.
     and_then (check_size bytes previous) (\<lambda>_.
     ok (bytes, case v of Unverifiable reason \<Rightarrow> [''the archive was not verified with `pg_restore --list`: '' @ reason] | _ \<Rightarrow> [])))))))"

definition partial_name :: "string \<Rightarrow> string" where
  "partial_name name = ''.'' @ name @ ''.partial''"

definition write_archive :: "executor \<Rightarrow> pg_conn \<Rightarrow> string \<Rightarrow> string \<Rightarrow> utc_stamp \<Rightarrow> archive_tools \<Rightarrow>
    (dir, archive_error, written_archive) eff" where
  "write_archive exec conn fraise env stamp tools =
     (let target = archive_file_name fraise env stamp; partial = partial_name target in
      and_then (claim partial) (\<lambda>_.
      closing partial (
        and_then (map_err (Pair False) (dump_and_check exec conn fraise env tools target partial)) (\<lambda>(bytes, warnings).
        and_then (persist partial target) (\<lambda>_.
        ok \<lparr>wa_archive = \<lparr>ar_path = target, ar_stamp = stamp\<rparr>, wa_bytes = bytes, wa_warnings = warnings\<rparr>)))))"

section \<open>What the tools may touch\<close>

text \<open>
  The documented behaviour of the two tools: \<open>pg_dump -f\<close> writes the file it is given, \<open>pg_restore --list\<close>
  none, and neither decides whether later calls of this process fail.
\<close>

definition tools_confined :: "executor \<Rightarrow> bool" where
  "tools_confined exec \<longleftrightarrow>
     (\<forall>prog out env s r s'. exec \<lparr>cmd_program = prog, cmd_args = [''-Fc'', ''-w'', ''-f'', out], cmd_env = env\<rparr> s = (r, s') \<longrightarrow>
        dir_faults s' = dir_faults s \<and> (\<forall>n. n \<noteq> out \<longrightarrow> contents s' n = contents s n)) \<and>
     (\<forall>prog out env s r s'. exec \<lparr>cmd_program = prog, cmd_args = [''--list'', out], cmd_env = env\<rparr> s = (r, s') \<longrightarrow>
        dir_faults s' = dir_faults s \<and> contents s' = contents s)"

text \<open>The files outside a set of names, which a call leaves alone.\<close>

definition others :: "string set \<Rightarrow> dir \<Rightarrow> string \<rightharpoonup> string" where
  "others N s = contents s |` (- N)"

lemma contents_faults [simp]: "contents (dir_faults_update f s) = contents s"
  by (simp add: contents_def fun_eq_iff)

lemma others_faults [simp]: "others N (dir_faults_update f s) = others N s"
  by (simp add: others_def)

lemma others_simps [simp]:
  "n \<in> N \<Longrightarrow> others N (put_file n t s) = others N s" "n \<in> N \<Longrightarrow> others N (del_file n s) = others N s"
  by (auto simp: others_def restrict_map_def fun_eq_iff)

lemma keeps_syscall: "(\<And>s. obs (snd (f s)) = obs s) \<Longrightarrow> (\<And>s p. obs (s\<lparr>dir_faults := p\<rparr>) = obs s) \<Longrightarrow> keeps obs (syscall f)"
  by (auto simp: keeps_def syscall_def split: list.splits option.splits prod.splits) (metis snd_conv)+

lemma keeps_others [keeps_intros]:
  "keeps (others N) (fs_read n)" "keeps (others N) (fs_exists n)" "keeps (others N) fs_list" "keeps (others N) fs_flush"
  "a \<in> N \<Longrightarrow> b \<in> N \<Longrightarrow> keeps (others N) (fs_rename a b)" "a \<in> N \<Longrightarrow> keeps (others N) (claim a)"
proof -
  show read: "keeps (others N) (fs_read n)" for n unfolding fs_read_def by (rule keeps_syscall) simp_all
  show "keeps (others N) (fs_exists n)" unfolding fs_exists_def by (intro keeps_intros read)
  show "keeps (others N) fs_list" "keeps (others N) fs_flush"
    unfolding fs_list_def fs_flush_def by (rule keeps_syscall; simp)+
  show "keeps (others N) (fs_rename a b)" if "a \<in> N" "b \<in> N"
    unfolding fs_rename_def using that by (intro keeps_intros keeps_syscall) (auto split: option.splits)
  show "keeps (others N) (claim a)" if "a \<in> N"
    unfolding claim_def using that by (intro keeps_intros keeps_syscall) (auto split: option.splits)
qed

lemma keeps_exec [keeps_intros]:
  assumes "tools_confined exec"
  shows "out \<in> N \<Longrightarrow> keeps (others N) (exec \<lparr>cmd_program = prog, cmd_args = [''-Fc'', ''-w'', ''-f'', out], cmd_env = env\<rparr>)"
    and "keeps (others N) (exec \<lparr>cmd_program = prog, cmd_args = [''--list'', a], cmd_env = env\<rparr>)"
  using assms by (auto intro!: keepsI simp: tools_confined_def others_def restrict_map_def fun_eq_iff) metis+

lemma keeps_file_len [keeps_intros]: "keeps (others N) (file_len n)"
  unfolding file_len_def by (intro keeps_intros)

lemma keeps_check_size [keeps_intros]: "keeps (others N) (check_size b p)"
  unfolding check_size_def by (intro keeps_intros)

lemma keeps_latest [keeps_intros]: "keeps (others N) (latest_archive f e)"
  unfolding latest_archive_def list_archives_def by (intro keeps_intros)

lemma keeps_verify [keeps_intros]: "tools_confined exec \<Longrightarrow> keeps (others N) (verify_archive exec p a)"
  unfolding verify_archive_def by (intro keeps_intros)

lemma keeps_returned [keeps_intros]:
  "(x = Panics \<Longrightarrow> keeps obs m) \<Longrightarrow> (\<And>a. x = Returns a \<Longrightarrow> keeps obs (f a)) \<Longrightarrow> keeps obs (case x of Panics \<Rightarrow> m | Returns a \<Rightarrow> f a)"
  by (cases x) simp_all

lemma keeps_verdict [keeps_intros]:
  "(x = Valid \<Longrightarrow> keeps obs m) \<Longrightarrow> (\<And>a. x = Invalid a \<Longrightarrow> keeps obs (f a)) \<Longrightarrow> (\<And>a. x = Unverifiable a \<Longrightarrow> keeps obs (g a)) \<Longrightarrow>
     keeps obs (case x of Valid \<Rightarrow> m | Invalid a \<Rightarrow> f a | Unverifiable a \<Rightarrow> g a)"
  by (cases x) simp_all

lemma keeps_dump_and_check:
  assumes "tools_confined exec" and "partial \<in> N"
  shows "keeps (others N) (dump_and_check exec conn f e tools target partial)"
  unfolding dump_and_check_def by (intro keeps_intros assms)

lemma keeps_closing:
  assumes "keeps (others N) m" and "partial \<in> N"
  shows "keeps (others N) (closing partial m)"
proof (rule keepsI)
  fix s r s' assume run: "closing partial m s = (r, s')"
  have "others N (drop_partial partial s1) = others N s1" for s1
    using assms(2) keeps_syscall [of "others N" "\<lambda>s. ((), del_file partial s)"] by (simp add: drop_partial_def keeps_def)
  with run keepsD [OF assms(1), of s] show "others N s' = others N s"
    by (auto simp: closing_def split: prod.splits sum.splits if_splits)
qed

lemma keeps_write_archive:
  assumes "tools_confined exec" and "archive_file_name f e stamp \<in> N" and "partial_name (archive_file_name f e stamp) \<in> N"
  shows "keeps (others N) (write_archive exec conn f e stamp tools)"
proof -
  have "keeps (others N) (persist (partial_name (archive_file_name f e stamp)) (archive_file_name f e stamp))"
    unfolding persist_def using assms by (intro keeps_intros)
  then show ?thesis
    unfolding write_archive_def Let_def case_prod_unfold
    by (intro keeps_intros keeps_closing keeps_dump_and_check assms) simp_all
qed

section \<open>A run without faults\<close>

lemma fault_free_calls:
  assumes "dir_faults s = []"
  shows "fs_read n s = (Inr (contents s n), s)" "fs_exists n s = (Inr (contents s n \<noteq> None), s)" "fs_flush s = (Inr (), s)"
    "fs_list s = (Inr (map fst (dir_files s)), s)" "drop_partial n s = del_file n s"
    "fs_rename a b s = (case contents s a of Some c \<Rightarrow> (Inr (), put_file b c (del_file a s)) | None \<Rightarrow> (Inl ''No such file or directory'', s))"
    "claim n s = (case contents s n of Some _ \<Rightarrow> (Inl (ArInProgress n), s) | None \<Rightarrow> (Inr (), put_file n [] s))"
    "file_len n s = ((case contents s n of Some c \<Rightarrow> Inr (length c) | None \<Rightarrow> Inl (ArIo ''reading the size of'' n ''No such file or directory'')), s)"
proof -
  show read: "fs_read n s = (Inr (contents s n), s)" "fs_flush s = (Inr (), s)" "fs_list s = (Inr (map fst (dir_files s)), s)"
    "drop_partial n s = del_file n s"
    using assms by (simp_all add: fs_read_def fs_flush_def fs_list_def drop_partial_def syscall_ok)
  show "fs_exists n s = (Inr (contents s n \<noteq> None), s)"
    by (auto simp: fs_exists_def result_of_def and_then_def read split: option.split)
  show "fs_rename a b s = (case contents s a of Some c \<Rightarrow> (Inr (), put_file b c (del_file a s)) | None \<Rightarrow> (Inl ''No such file or directory'', s))"
    "claim n s = (case contents s n of Some _ \<Rightarrow> (Inl (ArInProgress n), s) | None \<Rightarrow> (Inr (), put_file n [] s))"
    "file_len n s = ((case contents s n of Some c \<Rightarrow> Inr (length c) | None \<Rightarrow> Inl (ArIo ''reading the size of'' n ''No such file or directory'')), s)"
    using assms by (auto simp: fs_rename_def claim_def file_len_def syscall_ok and_then_def map_err_def read split: option.split)
qed

lemma latest_archive_ok:
  assumes "dir_faults s = []"
  shows "latest_archive f e s = (Inr (case collect_archives f e (map fst (dir_files s)) of
      Panics \<Rightarrow> Panics | Returns as \<Rightarrow> Returns (last_opt (sort_archives as))), s)"
  by (auto simp: latest_archive_def list_archives_def map_ok_def and_then_def fault_free_calls [OF assms] split: returned.splits)

lemma verify_ok:
  assumes "tools_confined exec" and "dir_faults s = []" and "verify_archive exec p a s = (r, s')"
  shows "is_ok r \<and> dir_faults s' = [] \<and> contents s' = contents s"
proof -
  obtain q s1 where ex: "exec \<lparr>cmd_program = p, cmd_args = [''--list'', a], cmd_env = []\<rparr> s = (q, s1)" by fastforce
  moreover from this have "dir_faults s1 = dir_faults s" "contents s1 = contents s" using assms(1) by (auto simp: tools_confined_def)
  ultimately show ?thesis using assms(2,3)
    by (auto simp: verify_archive_def and_then_def fault_free_calls [OF assms(2)] result_of_def split: if_splits)
qed

lemma check_size_ok: "dir_faults s = [] \<Longrightarrow> check_size b p s = (r, s') \<Longrightarrow> s' = s"
  by (auto simp: check_size_def and_then_def fault_free_calls split: option.splits if_splits sum.splits)

lemma dump_and_check_ok:
  assumes "tools_confined exec" and "dir_faults s = []" and "dump_and_check exec conn f e tools target partial s = (r, s')"
  shows "dir_faults s' = [] \<and> (\<forall>n. n \<noteq> partial \<longrightarrow> contents s' n = contents s n) \<and>
    (\<forall>bytes ws. r = Inr (bytes, ws) \<longrightarrow> contents s target = None \<and> (\<exists>c. contents s' partial = Some c \<and> length c = bytes))"
proof (cases "contents s target")
  case (Some c)
  with assms(2,3) show ?thesis by (auto simp: dump_and_check_def and_then_def fault_free_calls)
next
  case None
  let ?cmd = "\<lparr>cmd_program = at_pg_dump tools, cmd_args = [''-Fc'', ''-w'', ''-f'', partial], cmd_env = pg_env conn\<rparr>"
  have rest: "others {partial} s' = others {partial} s"
    using keepsD [OF keeps_dump_and_check [OF assms(1)] assms(3)] by simp
  obtain q s1 where ex: "exec ?cmd s = (q, s1)" by fastforce
  then have s1: "dir_faults s1 = []" using assms(1,2) by (auto simp: tools_confined_def)
  obtain v s2 where ve: "verify_archive exec (at_pg_restore tools) partial s1 = (Inr v :: archive_error + verdict, s2)" "dir_faults s2 = []"
  proof -
    obtain r1 :: "archive_error + verdict" and s2 where "verify_archive exec (at_pg_restore tools) partial s1 = (r1, s2)" by fastforce
    with verify_ok [OF assms(1) s1 this] that show ?thesis by (auto simp: is_ok_iff)
  qed
  have "dir_faults s' = [] \<and> (\<forall>bytes ws. r = Inr (bytes, ws) \<longrightarrow> (\<exists>c. contents s' partial = Some c \<and> length c = bytes))"
    using assms(2,3) None ex s1 ve
    by (auto simp: dump_and_check_def and_then_def fault_free_calls latest_archive_ok map_err_def
        split: prod.splits sum.splits if_splits returned.splits verdict.splits option.splits dest!: check_size_ok [OF ve(2)])
  moreover have "contents s' n = contents s n" if "n \<noteq> partial" for n
    using fun_cong [OF rest, of n] that by (simp add: others_def)
  ultimately show ?thesis using None by blast
qed

lemma partial_neq: "partial_name n \<noteq> n"
proof
  assume "partial_name n = n"
  from arg_cong [OF this, of length] show False by (simp add: partial_name_def)
qed

section \<open>What was checked\<close>

text \<open>
  The checks an archive has passed, whatever calls failed: from the directory with the empty partial file, the previous archive was
  looked up; then \<open>pg_dump\<close> exited with success having written the content; then \<open>pg_restore --list\<close> accepted that
  content, or it could not tell and the result warns; and the content has at least half the size of the
  previous archive.
\<close>

definition checked_dump :: "executor \<Rightarrow> pg_conn \<Rightarrow> string \<Rightarrow> string \<Rightarrow> archive_tools \<Rightarrow> path \<Rightarrow> (string \<rightharpoonup> string) \<Rightarrow> string \<Rightarrow> string list \<Rightarrow> bool" where
  "checked_dump exec conn f e tools partial m c ws \<longleftrightarrow>
     (\<exists>s0 previous s1 o1 s2 v s3.
        contents s0 = m(partial \<mapsto> []) \<and> latest_archive f e s0 = (Inr (Returns previous), s1) \<and>
        exec \<lparr>cmd_program = at_pg_dump tools, cmd_args = [''-Fc'', ''-w'', ''-f'', partial], cmd_env = pg_env conn\<rparr> s1 = (Inr o1, s2) \<and>
        succeeded o1 \<and> contents s2 partial = Some c \<and>
        verify_archive exec (at_pg_restore tools) partial s2 = (Inr v :: archive_error + verdict, s3) \<and>
        (case v of
           Valid \<Rightarrow> ws = [] \<and> (\<exists>s o2. contents s = contents s2 \<and> succeeded o2 \<and>
             exec \<lparr>cmd_program = at_pg_restore tools, cmd_args = [''--list'', partial], cmd_env = []\<rparr> s = (Inr o2, s3))
         | Unverifiable reason \<Rightarrow> ws \<noteq> []
         | Invalid _ \<Rightarrow> False) \<and>
        (\<forall>p. previous = Some p \<longrightarrow> (\<exists>prev. contents s2 (ar_path p) = Some prev \<and> length prev \<le> 2 * length c)))"

lemma others_empty: "others {} s = contents s"
  by (simp add: others_def restrict_map_def)

lemma keeps_contents: "keeps (others {}) m \<Longrightarrow> m s = (r, s') \<Longrightarrow> contents s' = contents s"
  using keepsD [of "others {}" m s r s'] by (simp only: others_empty)

lemma file_len_Inr:
  assumes "file_len n s = (Inr k, s')"
  shows "\<exists>c. contents s n = Some c \<and> k = length c"
  using assms by (auto simp: file_len_def fs_read_def syscall_def and_then_def map_err_def split: list.splits option.splits)

lemma check_size_Inr:
  assumes "check_size bytes previous s = (Inr (), s')" and "previous = Some p"
  shows "\<exists>prev. contents s (ar_path p) = Some prev \<and> length prev \<le> 2 * bytes"
  using assms by (auto simp: check_size_def and_then_eq_Inr dest!: file_len_Inr split: if_splits)

lemma verify_Valid:
  assumes "verify_archive exec p a s = (Inr Valid :: 'e + verdict, s')"
  shows "\<exists>s1 o'. contents s1 = contents s \<and> succeeded o' \<and> exec \<lparr>cmd_program = p, cmd_args = [''--list'', a], cmd_env = []\<rparr> s1 = (Inr o', s')"
proof -
  obtain there s1 where e: "fs_exists a s = (Inr there :: 'e + bool, s1)" "contents s1 = contents s" using fs_exists_peek by metis
  obtain q s2 where x: "exec \<lparr>cmd_program = p, cmd_args = [''--list'', a], cmd_env = []\<rparr> s1 = (q, s2)" by fastforce
  from assms e x show ?thesis
    by (cases q) (auto simp: verify_archive_def and_then_def result_of_run split: if_splits)
qed

lemma dump_and_check_checked:
  assumes "tools_confined exec" and "contents s = m(partial \<mapsto> [])"
    and "dump_and_check exec conn f e tools target partial s = (Inr (bytes, ws), s')"
  shows "\<exists>c. contents s' partial = Some c \<and> length c = bytes \<and> checked_dump exec conn f e tools partial m c ws"
proof -
  let ?dump = "\<lparr>cmd_program = at_pg_dump tools, cmd_args = [''-Fc'', ''-w'', ''-f'', partial], cmd_env = pg_env conn\<rparr>"
  obtain there s0 where x: "fs_exists target s = (Inr there :: archive_error + bool, s0)" "contents s0 = contents s" using fs_exists_peek by metis
  obtain ql s1 where l: "latest_archive f e s0 = (ql, s1)" by fastforce
  obtain qd s2 where d: "exec ?dump s1 = (qd, s2)" by fastforce
  obtain qv :: "archive_error + verdict" and s3 where v: "verify_archive exec (at_pg_restore tools) partial s2 = (qv, s3)" by fastforce
  obtain qn s4 where n: "file_len partial s3 = (qn, s4)" by fastforce
  have "\<exists>previous o1 v'. ql = Inr (Returns previous) \<and> qd = Inr o1 \<and> succeeded o1 \<and> qv = Inr v' \<and> (\<nexists>m. v' = Invalid m) \<and> qn = Inr bytes \<and>
      check_size bytes previous s4 = (Inr (), s') \<and>
      ws = (case v' of Unverifiable reason \<Rightarrow> [''the archive was not verified with `pg_restore --list`: '' @ reason] | _ \<Rightarrow> [])"
    using assms(3) x(1) l d v n
    by (cases ql; cases qd; cases qv; cases qn)
      (auto simp: dump_and_check_def and_then_def map_err_def split: if_splits returned.splits verdict.splits prod.splits sum.splits)
  then obtain previous o1 v' where q: "ql = Inr (Returns previous)" "qd = Inr o1" "succeeded o1" "qv = Inr v'" "\<nexists>m. v' = Invalid m" "qn = Inr bytes"
    and z: "check_size bytes previous s4 = (Inr (), s')"
    and ws: "ws = (case v' of Unverifiable reason \<Rightarrow> [''the archive was not verified with `pg_restore --list`: '' @ reason] | _ \<Rightarrow> [])"
    by blast
  note l = l [unfolded q] and d = d [unfolded q] and v = v [unfolded q] and n = n [unfolded q]
  have c3: "contents s3 = contents s2" by (rule keeps_contents [OF keeps_verify [OF assms(1)] v])
  have c4: "contents s4 = contents s3" by (rule keeps_contents [OF keeps_file_len n])
  have c5: "contents s' = contents s4" by (rule keeps_contents [OF keeps_check_size z])
  obtain c where c: "contents s3 partial = Some c" "bytes = length c" using file_len_Inr [OF n] by blast
  have size: "\<forall>p. previous = Some p \<longrightarrow> (\<exists>prev. contents s2 (ar_path p) = Some prev \<and> length prev \<le> 2 * length c)"
    using check_size_Inr [OF z] c3 c4 c(2) by auto
  have verdict: "case v' of
      Valid \<Rightarrow> ws = [] \<and> (\<exists>s o2. contents s = contents s2 \<and> succeeded o2 \<and>
        exec \<lparr>cmd_program = at_pg_restore tools, cmd_args = [''--list'', partial], cmd_env = []\<rparr> s = (Inr o2, s3))
    | Unverifiable reason \<Rightarrow> ws \<noteq> [] | Invalid _ \<Rightarrow> False"
    using v ws q(5) verify_Valid by (cases v') auto
  have "checked_dump exec conn f e tools partial m c ws" unfolding checked_dump_def
    by (intro exI conjI) (fact x(2) [unfolded assms(2)] l d q(3) c(1) [unfolded c3] v verdict size)+
  with c c4 c5 show ?thesis by auto
qed

lemma persist_run:
  assumes "persist partial target s = (r, s')" and "contents s partial = Some c" and "partial \<noteq> target"
  shows "case r of
      Inr _ \<Rightarrow> contents s' target = Some c
    | Inl (renamed, _) \<Rightarrow> contents s' target = (if renamed then Some c else contents s target)"
proof -
  have flush: "contents s2 = contents s1" if "fs_flush s1 = (q, s2)" for q s1 s2
    by (rule keeps_contents [OF keeps_others(4) that])
  have rename: "contents s2 target = (if is_ok q then contents s1 partial else contents s1 target)"
    if "fs_rename partial target s1 = (q, s2)" "contents s1 partial = Some c" for q s1 s2
    using that assms(3) by (auto simp: fs_rename_def syscall_def and_then_def split: list.splits option.splits)
  show ?thesis using assms(1,2) unfolding persist_def
    by (auto simp: and_then_def map_err_def split: prod.splits sum.splits dest!: flush dest: rename)
qed

lemma drop_partial_contents: "n \<noteq> partial \<Longrightarrow> contents (drop_partial partial s) n = contents s n"
  by (auto simp: drop_partial_def syscall_def split: list.splits option.splits)

lemma claim_run: "claim n s = (r, s') \<Longrightarrow> contents s' = (if is_ok r then (contents s)(n \<mapsto> []) else contents s)"
  by (auto simp: claim_def syscall_def and_then_def map_err_def split: list.splits option.splits)

lemma write_archive_checked:
  assumes "tools_confined exec" and "write_archive exec conn f e stamp tools s = (r, s')"
  defines "t \<equiv> archive_file_name f e stamp"
  shows "contents s' t = contents s t \<and> \<not> is_ok r \<or>
    (\<exists>c ws. contents s' t = Some c \<and> checked_dump exec conn f e tools (partial_name t) (contents s) c ws \<and>
       (\<forall>w. r = Inr w \<longrightarrow> length c = wa_bytes w \<and> ws = wa_warnings w))"
proof -
  let ?p = "partial_name t"
  obtain q1 s1 where c: "claim ?p s = (q1, s1)" by fastforce
  obtain q2 s2 where d: "dump_and_check exec conn f e tools t ?p s1 = (q2, s2)" by fastforce
  obtain q3 s3 where p: "persist ?p t s2 = (q3, s3)" by fastforce
  note c1 = claim_run [OF c]
  have "others {?p} s2 = others {?p} s1" using keepsD [OF keeps_dump_and_check [OF assms(1)] d] by simp
  from fun_cong [OF this, of t] have c2: "contents s2 t = contents s1 t" using partial_neq [of t] by (auto simp: others_def)
  have run: "(r, s') = (case q1 of Inl err \<Rightarrow> (Inl err, s1) | Inr _ \<Rightarrow> (case q2 of Inl err \<Rightarrow> (Inl err, drop_partial ?p s2)
      | Inr (bytes, ws) \<Rightarrow> (case q3 of
            Inl (renamed, err) \<Rightarrow> (Inl err, if renamed then s3 else drop_partial ?p s3)
          | Inr _ \<Rightarrow> (Inr \<lparr>wa_archive = \<lparr>ar_path = t, ar_stamp = stamp\<rparr>, wa_bytes = bytes, wa_warnings = ws\<rparr>, s3))))"
    using assms(2) c d p unfolding write_archive_def t_def [symmetric]
    by (auto simp: Let_def and_then_def closing_def map_err_def split: sum.splits prod.splits)
  show ?thesis
  proof (cases "\<exists>u bytes ws. q1 = Inr u \<and> q2 = Inr (bytes, ws)")
    case False
    with run c1 c2 partial_neq [of t] show ?thesis
      by (auto simp: drop_partial_contents [OF partial_neq [symmetric]] split: sum.splits prod.splits)
  next
    case True
    then obtain u bytes ws where q: "q1 = Inr u" "q2 = Inr (bytes, ws)" by blast
    from c1 q have "contents s1 = (contents s)(?p \<mapsto> [])" by simp
    from dump_and_check_checked [OF assms(1) this d [unfolded q(2)]] obtain c where
      k: "contents s2 ?p = Some c" "length c = bytes" "checked_dump exec conn f e tools ?p (contents s) c ws" by blast
    from persist_run [OF p k(1) partial_neq] run q k c1 c2 partial_neq [of t] show ?thesis
      by (auto simp: drop_partial_contents [OF partial_neq [symmetric]] split: sum.splits prod.splits if_splits)
  qed
qed

lemma write_archive_spares_others:
  assumes "tools_confined exec" and "write_archive exec conn f e stamp tools s = (r, s')"
    and "n \<noteq> archive_file_name f e stamp" and "contents s n = Some c"
  shows "contents s' n = Some c"
proof (cases "n = partial_name (archive_file_name f e stamp)")
  case True
  then have "contents s' = contents s"
    using assms by (auto simp: write_archive_def Let_def and_then_def claim_def map_err_def syscall_def
        split: list.splits option.splits)
  then show ?thesis using assms(4) by simp
next
  case False
  let ?N = "{archive_file_name f e stamp, partial_name (archive_file_name f e stamp)}"
  have "others ?N s' = others ?N s" using keepsD [OF keeps_write_archive [OF assms(1)] assms(2)] by simp
  from fun_cong [OF this, of n] assms(3,4) False show ?thesis by (simp add: others_def)
qed

lemma write_archive_fault_free:
  assumes "tools_confined exec" and "write_archive exec conn f e stamp tools s = (r, s')" and free: "dir_faults s = []"
  shows "case r of
      Inl err \<Rightarrow> contents s' = contents s
    | Inr w \<Rightarrow> contents s (archive_file_name f e stamp) = None \<and>
        (\<exists>c. contents s' = (contents s)(archive_file_name f e stamp \<mapsto> c) \<and> length c = wa_bytes w)"
proof -
  let ?t = "archive_file_name f e stamp"
  let ?p = "partial_name ?t"
  show ?thesis
  proof (cases "contents s ?p")
    case (Some c)
    with assms(2) free show ?thesis by (auto simp: write_archive_def Let_def and_then_def fault_free_calls)
  next
    case None
    let ?s1 = "put_file ?p [] s"
    obtain q s2 where dc: "dump_and_check exec conn f e tools ?t ?p ?s1 = (q, s2)" by fastforce
    from dump_and_check_ok [OF assms(1) _ dc] free
    have s2: "dir_faults s2 = []" "\<And>n. n \<noteq> ?p \<Longrightarrow> contents s2 n = contents s n"
      "\<And>bytes ws. q = Inr (bytes, ws) \<Longrightarrow> contents s ?t = None \<and> (\<exists>c. contents s2 ?p = Some c \<and> length c = bytes)"
      using partial_neq [of ?t] by auto
    have gone: "(contents s2)(?p := None) = contents s" using s2(2) None by (auto simp: fun_eq_iff)
    show ?thesis
    proof (cases q)
      case (Inl err)
      with assms(2) free None dc s2(1) gone show ?thesis
        by (auto simp: write_archive_def Let_def and_then_def fault_free_calls closing_def map_err_def)
    next
      case (Inr bw)
      obtain bytes ws where bw: "bw = (bytes, ws)" by fastforce
      then obtain c where c: "contents s2 ?p = Some c" "length c = bytes" "contents s ?t = None" using s2(3) Inr by blast
      have "persist ?p ?t s2 = (Inr (), put_file ?t c (del_file ?p s2))"
        using c(1) s2(1) by (simp add: persist_def and_then_def map_err_def fault_free_calls)
      with assms(2) free None dc Inr bw have "r = Inr \<lparr>wa_archive = \<lparr>ar_path = ?t, ar_stamp = stamp\<rparr>, wa_bytes = bytes, wa_warnings = ws\<rparr>"
        "s' = put_file ?t c (del_file ?p s2)"
        by (auto simp: write_archive_def Let_def and_then_def fault_free_calls closing_def map_err_def)
      with c gone show ?thesis by auto
    qed
  qed
qed


text \<open>Tools for the examples: the dump writes its file, the listing reads it back.\<close>

definition demo_exec :: executor where
  "demo_exec cmd s =
     (case cmd_args cmd of
        [a, b, c, out] \<Rightarrow> (Inr \<lparr>out_code = Some 0, out_stdout = [], out_stderr = []\<rparr>, put_file out ''dump'' s)
      | _ \<Rightarrow> (Inr \<lparr>out_code = Some 0, out_stdout = [], out_stderr = []\<rparr>, s))"

lemma demo_exec_confined: "tools_confined demo_exec"
  by (auto simp: tools_confined_def demo_exec_def)

definition demo_conn :: pg_conn where
  "demo_conn = \<lparr>pg_host = None, pg_port = None, pg_user = None, pg_password = None, pg_database = ''app'', pg_sslmode = None\<rparr>"

definition demo_dir :: "string option list \<Rightarrow> dir" where
  "demo_dir faults = \<lparr>dir_files = [(''app-prod-20240101T000000Z.pgdump'', ''prev'')], dir_flocks = {}, dir_faults = faults\<rparr>"

definition demo_write :: "string option list \<Rightarrow> (archive_error + written_archive) \<times> dir" where
  "demo_write faults = write_archive demo_exec demo_conn ''app'' ''prod'' ''20240228T235959Z'' archive_tools_default (demo_dir faults)"


text \<open>
  An error can come with the archive in place. When flushing the directory fails after the rename,
  \<open>write_archive\<close> returns an error although the archive is under its final name: an error does not mean
  that there is no new archive.
\<close>

theorem flush_error_leaves_archive:
  "fst (demo_write [None, None, None, None, None, None, None, None, None, None, Some ''EIO'']) = Inl (ArIo ''flushing'' ''.'' ''EIO'') \<and>
   contents (snd (demo_write [None, None, None, None, None, None, None, None, None, None, Some ''EIO'']))
     (archive_file_name ''app'' ''prod'' ''20240228T235959Z'') = Some ''dump''"
  by code_simp

section \<open>The latest archive\<close>

lemma str_less_irrefl: "\<not> str_less x x"
  by (induction x) auto

lemma insert_archive_set: "set (insert_archive a as) = insert a (set as)"
  by (induction as) auto

lemma str_less_trans: "\<not> str_less y x \<Longrightarrow> \<not> str_less z y \<Longrightarrow> \<not> str_less z x"
proof (induction x z arbitrary: y rule: str_less.induct)
  case (3 x xs z zs)
  then show ?case by (cases y) (auto simp: not_less)
qed (auto elim: str_less.elims)

lemma str_less_Nil [simp]: "\<not> str_less x []"
  by (cases x) simp_all

lemma str_less_asym: "str_less x y \<Longrightarrow> \<not> str_less y x"
  by (induction x y rule: str_less.induct) auto

abbreviation stamps_sorted :: "archive list \<Rightarrow> bool" where
  "stamps_sorted \<equiv> sorted_wrt (\<lambda>a b. \<not> str_less (ar_stamp b) (ar_stamp a))"

lemma insert_archive_sorted: "stamps_sorted as \<Longrightarrow> stamps_sorted (insert_archive a as)"
proof (induction as)
  case (Cons b bs)
  then show ?case
    by (auto simp: insert_archive_set dest: str_less_asym) (meson str_less_asym str_less_trans)
qed simp

lemma sort_archives_ok: "stamps_sorted (sort_archives as) \<and> set (sort_archives as) = set as"
proof -
  have "stamps_sorted bs \<Longrightarrow> stamps_sorted (fold insert_archive as bs) \<and> set (fold insert_archive as bs) = set as \<union> set bs" for bs
    by (induction as arbitrary: bs) (auto simp: insert_archive_sorted insert_archive_set)
  from this [of "[]"] show ?thesis by (simp add: sort_archives_def)
qed

lemma last_opt_sorted:
  assumes "last_opt (sort_archives as) = Some a"
  shows "a \<in> set as" and "b \<in> set as \<Longrightarrow> \<not> str_less (ar_stamp a) (ar_stamp b)"
proof -
  from assms obtain bs where bs: "sort_archives as = bs @ [a]"
    by (metis append_butlast_last_id last_opt_def option.distinct(1) option.inject)
  then show "a \<in> set as" using sort_archives_ok [of as] by auto
  show "b \<in> set as \<Longrightarrow> \<not> str_less (ar_stamp a) (ar_stamp b)"
    using sort_archives_ok [of as] unfolding bs sorted_wrt_append
    by (metis Un_iff in_set_conv_decomp list.set_intros(1) set_ConsD set_append str_less_irrefl empty_iff empty_set)
qed

lemma collect_archives_ok:
  "collect_archives f e names = Returns as \<Longrightarrow>
     a \<in> set as \<longleftrightarrow> ar_path a \<in> set names \<and> parse_archive_file_name f e (ar_path a) = Returns (Some (ar_stamp a))"
proof (induction names arbitrary: as)
  case (Cons n names)
  then show ?case by (cases a) (auto split: returned.splits option.splits)
qed simp

lemma parse_own_name: "parse_archive_file_name f e (archive_file_name f e stamp) = parse_stamp stamp"
proof -
  have "strip_suffix archive_extension (stamp @ archive_extension) = Some stamp" by simp
  then show ?thesis
    unfolding parse_archive_file_name_def archive_file_name_def by (simp del: append_Cons)
qed

text \<open>
  The latest archive is the newest backup. If the archives of a deployable in the directory carry
  stamps of times before the year 10000, \<open>latest_archive\<close> returns one of them, and no archive written under
  this deployable's name at any time is newer, to the second.
\<close>

theorem latest_archive_is_newest:
  assumes "latest_archive f e s = (Inr (Returns (Some a)), s')"
    and "\<forall>n st. parse_archive_file_name f e n = Returns (Some st) \<and> contents s n \<noteq> None \<longrightarrow>
      (\<exists>t. st = from_system_time t \<and> whole_seconds t < stamp_limit)"
    and "contents s (archive_file_name f e (from_system_time t)) \<noteq> None" and "whole_seconds t < stamp_limit"
  shows "contents s (ar_path a) \<noteq> None \<and> parse_archive_file_name f e (ar_path a) = Returns (Some (ar_stamp a)) \<and>
    (\<exists>t'. ar_stamp a = from_system_time t' \<and> whole_seconds t \<le> whole_seconds t')"
proof -
  have names: "n \<in> set (map fst (dir_files s)) \<longleftrightarrow> contents s n \<noteq> None" for n
    by (simp add: contents_def map_of_eq_None_iff)
  obtain as where as: "collect_archives f e (map fst (dir_files s)) = Returns as" "last_opt (sort_archives as) = Some a"
    using assms(1) by (auto simp: latest_archive_def list_archives_def map_ok_def and_then_def fs_list_def syscall_def
        split: list.splits option.splits returned.splits sum.splits prod.splits)
  note a = collect_archives_ok [OF as(1)] and l = last_opt_sorted [OF as(2)]
  have found: "contents s (ar_path a) \<noteq> None" "parse_archive_file_name f e (ar_path a) = Returns (Some (ar_stamp a))"
    using a [of a] l(1) names by auto
  then obtain t' where t': "ar_stamp a = from_system_time t'" "whole_seconds t' < stamp_limit" using assms(2) by blast
  let ?b = "\<lparr>ar_path = archive_file_name f e (from_system_time t), ar_stamp = from_system_time t\<rparr>"
  have "?b \<in> set as" using a [of ?b] assms(3) names by (simp add: parse_own_name stamp_parses [OF assms(4)])
  with l(2) [of ?b] t' stamp_order [OF t'(2) assms(4)] have "whole_seconds t \<le> whole_seconds t'" by simp
  with found t'(1) show ?thesis by blast
qed

definition demo_archives :: dir where
  "demo_archives = \<lparr>dir_files = [(archive_file_name ''app'' ''prod'' (from_system_time 0), ''dump'')], dir_flocks = {}, dir_faults = []\<rparr>"

theorem latest_archive_is_newest_witness:
  "\<exists>a. latest_archive ''app'' ''prod'' demo_archives = (Inr (Returns (Some a)), demo_archives) \<and>
    (\<exists>t'. ar_stamp a = from_system_time t' \<and> whole_seconds 0 \<le> whole_seconds t')"
proof -
  let ?n = "archive_file_name ''app'' ''prod'' (from_system_time 0)"
  have small: "whole_seconds 0 < stamp_limit" by (simp add: whole_seconds_def stamp_limit_def)
  have own: "parse_archive_file_name ''app'' ''prod'' ?n = Returns (Some (from_system_time 0))"
    by (simp add: parse_own_name stamp_parses [OF small])
  have there: "contents demo_archives n = (if n = ?n then Some ''dump'' else None)" for n by (simp add: demo_archives_def contents_def)
  have run: "latest_archive ''app'' ''prod'' demo_archives =
      (Inr (Returns (Some \<lparr>ar_path = ?n, ar_stamp = from_system_time 0\<rparr>)), demo_archives)"
    by (simp add: latest_archive_ok demo_archives_def own sort_archives_def last_opt_def)
  have stamps: "\<forall>n st. parse_archive_file_name ''app'' ''prod'' n = Returns (Some st) \<and> contents demo_archives n \<noteq> None \<longrightarrow>
      (\<exists>t. st = from_system_time t \<and> whole_seconds t < stamp_limit)"
    using own small there by (auto split: if_splits)
  have "contents demo_archives (archive_file_name ''app'' ''prod'' (from_system_time 0)) \<noteq> None" using there by simp
  from latest_archive_is_newest [OF run stamps this small] run show ?thesis by blast
qed

text \<open>
  The archives of two deployables can be each other's. \<open>api-eu\<close> in \<open>prod\<close> and \<open>api\<close> in \<open>eu-prod\<close> name their
  archives alike, so in a shared directory the latest archive of one is an archive of the other: the
  name is not an exact key of the deployable.
\<close>

theorem archive_names_collide:
  "archive_file_name ''api-eu'' ''prod'' stamp = archive_file_name ''api'' ''eu-prod'' stamp \<and>
   fst (latest_archive ''api'' ''eu-prod''
     \<lparr>dir_files = [(archive_file_name ''api-eu'' ''prod'' ''20240228T235959Z'', ''dump'')], dir_flocks = {}, dir_faults = []\<rparr>) =
     Inr (Returns (Some \<lparr>ar_path = archive_file_name ''api-eu'' ''prod'' ''20240228T235959Z'', ar_stamp = ''20240228T235959Z''\<rparr>))"
proof
  show "archive_file_name ''api-eu'' ''prod'' stamp = archive_file_name ''api'' ''eu-prod'' stamp"
    by (simp add: archive_file_name_def)
qed code_simp

end
