(* ===== verification/Refresh_Run.thy ===== *)
theory Refresh_Run
  imports Db_Refresh Db_Archive Adapter_Axes
begin

text \<open>
  \<open>fraisier db refresh\<close> under the deploy lock (\<open>fraisier-cli/src/refresh.rs\<close> and \<open>refresh/\<close>: \<open>run.rs\<close>, \<open>units.rs\<close>,
  \<open>flag.rs\<close>, with the sanitize step of \<open>fraisier-db/src/sanitize.rs\<close>): the units of the environment are
  stopped, the database is replaced by \<open>refresh_in_place\<close>, migrated, counted and sanitized, the outbound flag
  is written, and the units that ran are started and proven to carry the flag. The systemd manager, the
  calls on the flag's file and the processes are parameters.
\<close>

section \<open>Units\<close>

record 'w units =
  un_is_active :: "string \<Rightarrow> ('w, string, bool) eff"
  un_stop :: "string \<Rightarrow> ('w, string, unit) eff"
  un_start :: "string \<Rightarrow> ('w, string, unit) eff"
  un_environment_files :: "string \<Rightarrow> ('w, string, string list) eff"
  un_triggers :: "string \<Rightarrow> ('w, string, string list) eff"
  un_main_pid :: "string \<Rightarrow> ('w, string, nat) eff"
  un_environ :: "nat \<Rightarrow> ('w, string, string) eff"

definition is_timer :: "string \<Rightarrow> bool" where
  "is_timer u = (case rsplit_once (CHR ''.'') u of Some (_, kind) \<Rightarrow> kind = ''timer'' | None \<Rightarrow> False)"

definition units_to_stop :: "string list \<Rightarrow> string \<Rightarrow> string list" where
  "units_to_stop extra service = filter is_timer extra @ filter (\<lambda>u. \<not> is_timer u) extra @ [service]"

definition environ_sets :: "string \<Rightarrow> string \<Rightarrow> bool" where
  "environ_sets environ name = (name @ ''=1'' \<in> set (split_on (\<lambda>c. c = CHR 0x00) environ))"

section \<open>The outbound flag\<close>

definition flag_path :: "string \<Rightarrow> string \<Rightarrow> string \<Rightarrow> string" where
  "flag_path etc f e = etc @ ''/'' @ f @ ''/'' @ e @ ''.refreshed.env''"

fun units_run_by :: "'w units \<Rightarrow> string list \<Rightarrow> string list \<Rightarrow> ('w, string, string list) eff" where
  "units_run_by units [] checked = ok checked"
| "units_run_by units (name # names) checked =
     and_then (if is_timer name then un_triggers units name else ok [name]) (\<lambda>run.
     units_run_by units names (fold (\<lambda>u c. if u \<in> set c then c else c @ [u]) run checked))"

fun units_missing :: "'w units \<Rightarrow> string \<Rightarrow> string list \<Rightarrow> string list \<Rightarrow> ('w, string, string list) eff" where
  "units_missing units flag [] missing = ok missing"
| "units_missing units flag (u # us) missing =
     and_then (un_environment_files units u) (\<lambda>files.
     units_missing units flag us (if flag \<in> set files then missing else missing @ [u]))"

definition loaded_by_every_unit :: "'w units \<Rightarrow> string list \<Rightarrow> string \<Rightarrow> ('w, string, unit) eff" where
  "loaded_by_every_unit units names flag =
     and_then (units_run_by units names []) (\<lambda>checked.
     and_then (units_missing units flag checked []) (\<lambda>missing.
     if missing = [] then ok ()
     else fail (join '', '' missing @ '' '' @ (if length missing = 1 then ''does'' else ''do'') @
       '' not load the outbound flag file, so after a refresh '' @ (if length missing = 1 then ''it'' else ''they'') @
       '' would start with its integrations on. Add `EnvironmentFile=-'' @ flag @
       ''` to each (`fraisier scaffold` generates it for the [service] unit and a drop-in for each of [refresh].units), then `systemctl daemon-reload`'')))"

text \<open>The calls on the flag's directory, each of which may fail.\<close>

record 'w flag_fs =
  fl_remove :: "string \<Rightarrow> ('w, string, unit) eff"
  fl_create_new :: "string \<Rightarrow> ('w, string, unit) eff"
  fl_write_line :: "string \<Rightarrow> string \<Rightarrow> ('w, string, unit) eff"
  fl_sync :: "string \<Rightarrow> ('w, string, unit) eff"
  fl_chgrp :: "string \<Rightarrow> nat \<Rightarrow> ('w, string, unit) eff"
  fl_chmod :: "string \<Rightarrow> ('w, string, unit) eff"
  fl_rename :: "string \<Rightarrow> string \<Rightarrow> ('w, string, unit) eff"

text \<open>\<open>with_file_name\<close>: the last component is replaced.\<close>

definition flag_partial :: "string \<Rightarrow> string" where
  "flag_partial flag =
     (case rsplit_once (CHR ''/'') flag of
        Some (dir, name) \<Rightarrow> dir @ ''/.'' @ name @ ''.partial''
      | None \<Rightarrow> ''.'' @ flag @ ''.partial'')"

definition write_flag :: "'w flag_fs \<Rightarrow> string \<Rightarrow> string \<Rightarrow> nat \<Rightarrow> ('w, string, unit) eff" where
  "write_flag fs flag var gid =
     (let partial = flag_partial flag in
      and_then (result_of (
        and_then (result_of (fl_remove fs partial)) (\<lambda>_.
        and_then (fl_create_new fs partial) (\<lambda>_.
        and_then (fl_write_line fs partial (var @ ''=1'')) (\<lambda>_.
        and_then (fl_sync fs partial) (\<lambda>_.
        and_then (fl_chgrp fs partial gid) (\<lambda>_.
        and_then (fl_chmod fs partial) (\<lambda>_.
        fl_rename fs partial flag)))))))) (\<lambda>written.
      case written of
        Inr _ \<Rightarrow> ok ()
      | Inl error \<Rightarrow> and_then (result_of (fl_remove fs partial)) (\<lambda>_.
          fail (''could not write the outbound flag '' @ flag @ '': '' @ error))))"

fun prove_units :: "'w units \<Rightarrow> string list \<Rightarrow> string \<Rightarrow> (string \<times> nat) list \<Rightarrow> ('w, string, (string \<times> nat) list) eff" where
  "prove_units units [] var proof' = ok proof'"
| "prove_units units (u # us) var proof' =
     and_then (un_main_pid units u) (\<lambda>pid.
     if pid = 0 then fail (u @ '' has no running main process, so its outbound flag cannot be proven'')
     else and_then (map_err (\<lambda>error. error @ '': the outbound flag of '' @ u @ '' cannot be proven. Run the refresh as root (or as '' @ u @
         [squote] @ ''s user)'') (un_environ units pid)) (\<lambda>environ.
       if \<not> environ_sets environ var then fail (u @ '' (pid '' @ show_nat pid @ '') started without '' @ var @ ''=1 in its environment'')
       else prove_units units us var (proof' @ [(u, pid)])))"

definition prove :: "'w units \<Rightarrow> string list \<Rightarrow> string \<Rightarrow> ('w, string, (string \<times> nat) list) eff" where
  "prove units started var = prove_units units (filter (\<lambda>u. \<not> is_timer u) started) var []"

section \<open>The sanitize step\<close>

fun show_oct :: "nat \<Rightarrow> string" where
  "show_oct n = (if n < 8 then [digit_char n] else show_oct (n div 8) @ [digit_char (n mod 8)])"

declare show_oct.simps [simp del]

definition group_or_world_writable :: "32 word \<Rightarrow> bool" where
  "group_or_world_writable mode \<longleftrightarrow> bit mode 4 \<or> bit mode 1"

definition ownership_problem :: "32 word \<Rightarrow> 32 word \<Rightarrow> 32 word \<Rightarrow> string option" where
  "ownership_problem uid mode operator_uid =
     (if group_or_world_writable mode
      then Some (''it is group- or world-writable (mode '' @ show_oct (unat (take_bit 12 mode)) @ '')'')
      else if uid \<noteq> 0 \<and> uid \<noteq> operator_uid
      then Some (''it is owned by uid '' @ show_nat (unat uid) @ '', neither root nor the operator (uid '' @ show_nat (unat operator_uid) @ '')'')
      else None)"

record sanitized =
  sz_path :: string
  sz_kind :: string
  sz_sha256 :: string

text \<open>The step's file and the process that runs it: owner and mode, bytes, the hash, a run with the bytes on standard input or none, and the rendering of an exit status.\<close>

record 'w step_host =
  sh_metadata :: "string \<Rightarrow> ('w, string, 32 word \<times> 32 word) eff"
  sh_read :: "string \<Rightarrow> ('w, string, string) eff"
  sh_sha256_hex :: "string \<Rightarrow> string"
  sh_run :: "command \<Rightarrow> string option \<Rightarrow> ('w, string, run_outcome) eff"
  sh_path :: "string option"
  sh_status :: "run_outcome \<Rightarrow> string"

definition sanitize_check :: "'w step_host \<Rightarrow> string \<Rightarrow> 32 word \<Rightarrow> ('w, string, unit) eff" where
  "sanitize_check h path operator_uid =
     and_then (map_err (\<lambda>error. ''cannot read '' @ path @ '': '' @ error) (sh_metadata h path)) (\<lambda>(uid, mode).
     case ownership_problem uid mode operator_uid of
       None \<Rightarrow> ok ()
     | Some problem \<Rightarrow> fail (''refusing to run '' @ path @ '': '' @ problem))"

definition scrubbed :: "'w step_host \<Rightarrow> string \<Rightarrow> pg_conn \<Rightarrow> string list \<Rightarrow> command" where
  "scrubbed h program conn args =
     \<lparr>cmd_program = program, cmd_args = args,
      cmd_env = (case sh_path h of Some p \<Rightarrow> [(''PATH'', p)] | None \<Rightarrow> []) @ pg_env conn\<rparr>"

definition lower :: "char \<Rightarrow> char" where
  "lower c = (let n = of_char c :: nat in if 65 \<le> n \<and> n \<le> 90 then char_of (n + 32) else c)"

text \<open>\<open>Path::extension\<close> of the file name: what follows the last dot, unless that dot starts the name.\<close>

definition is_sql :: "string \<Rightarrow> bool" where
  "is_sql path =
     (let name = (case rsplit_once (CHR ''/'') path of Some (_, n) \<Rightarrow> n | None \<Rightarrow> path) in
      case rsplit_once (CHR ''.'') name of Some (stem, ext) \<Rightarrow> stem \<noteq> [] \<and> map lower ext = ''sql'' | None \<Rightarrow> False)"

definition sanitize_run :: "'w step_host \<Rightarrow> string \<Rightarrow> pg_conn \<Rightarrow> 32 word \<Rightarrow> ('w, string, sanitized) eff" where
  "sanitize_run h path conn operator_uid =
     and_then (sanitize_check h path operator_uid) (\<lambda>_.
     and_then (map_err (\<lambda>error. ''cannot read '' @ path @ '': '' @ error) (sh_read h path)) (\<lambda>bytes.
     let sql = is_sql path;
         cmd = (if sql then scrubbed h ''psql'' conn [''-X'', ''-q'', ''-v'', ''ON_ERROR_STOP=1'', ''-1'', ''-f'', ''-''] else scrubbed h path conn [])
     in and_then (sh_run h cmd (if sql then Some bytes else None)) (\<lambda>out.
       if \<not> succeeded out then fail (path @ '' failed ('' @ sh_status h out @ ''): '' @ trim (out_stderr out))
       else ok \<lparr>sz_path = path, sz_kind = (if sql then ''sql'' else ''executable''), sz_sha256 = sh_sha256_hex h bytes\<rparr>)))"

section \<open>The steps under the lock\<close>

datatype sanitize_step = Script string | Skipped string

record refresh_plan =
  pl_archive :: path
  pl_identity :: restore_identity
  pl_marker :: string
  pl_units :: "string list"
  pl_sanitize :: sanitize_step
  pl_flag :: path
  pl_flag_var :: string
  pl_flag_gid :: nat

record refresh_done =
  dn_applied :: "string list"
  dn_tables :: "64 word"
  dn_tviews :: "tview_rebuild option"
  dn_sanitized :: "sanitized option"
  dn_proof :: "(string \<times> nat) list"
  dn_warnings :: "string list"

record failure =
  fl_step :: string
  fl_message :: string
  fl_restarted :: bool

definition failure_at :: "string \<Rightarrow> string \<Rightarrow> failure" where
  "failure_at step message = \<lparr>fl_step = step, fl_message = message, fl_restarted = False\<rparr>"

text \<open>
  What the steps call: the server (with its table count), the units, the flag's directory, the sanitize
  step's host, the migration with its ledger write, and how often the drain polls before its deadline.
\<close>

record 'w machinery =
  mc_server :: "'w refresh_server"
  mc_table_count :: "pg_conn \<Rightarrow> ('w, string, 64 word) eff"
  mc_units :: "'w units"
  mc_flag_fs :: "'w flag_fs"
  mc_step :: "'w step_host"
  mc_operator_uid :: "32 word"
  mc_migration :: "string + 'w migration_adapter \<times> adapter_ctx"
  mc_record_revision :: "revision option \<Rightarrow> ('w, string, unit) eff"
  mc_polls :: "'w \<Rightarrow> nat"
  mc_min_tables :: "64 word option"

fun start_each :: "'w units \<Rightarrow> string list \<Rightarrow> string list \<Rightarrow> ('w, 'e, string list) eff" where
  "start_each units [] problems = ok problems"
| "start_each units (u # us) problems =
     and_then (result_of (un_start units u)) (\<lambda>r. start_each units us (case r of Inl e \<Rightarrow> problems @ [e] | Inr _ \<Rightarrow> problems))"

definition restart :: "'w units \<Rightarrow> string list \<Rightarrow> failure \<Rightarrow> ('w, failure, 'a) eff" where
  "restart units before f =
     and_then (start_each units (rev before) []) (\<lambda>problems.
     fail (if problems = [] then f\<lparr>fl_restarted := True\<rparr>
       else f\<lparr>fl_message := fl_message f @ ''; and starting the units again failed: '' @ join ''; '' problems\<rparr>))"

fun stop_loop :: "'w units \<Rightarrow> string list \<Rightarrow> string list \<Rightarrow> ('w, failure, string list) eff" where
  "stop_loop units [] before = ok before"
| "stop_loop units (u # us) before =
     and_then (result_of (un_is_active units u)) (\<lambda>r. case r of
       Inl error \<Rightarrow> restart units before (failure_at ''stop'' error)
     | Inr up_now \<Rightarrow>
         let before' = (if up_now then before @ [u] else before) in
         and_then (result_of (un_stop units u)) (\<lambda>s. case s of
           Inl error \<Rightarrow> restart units before' (failure_at ''stop'' error)
         | Inr _ \<Rightarrow> stop_loop units us before'))"

definition stop_all :: "'w units \<Rightarrow> string list \<Rightarrow> ('w, failure, string list) eff" where
  "stop_all units names = stop_loop units names []"

fun stop_again :: "'w units \<Rightarrow> string list \<Rightarrow> failure \<Rightarrow> ('w, failure, 'a) eff" where
  "stop_again units [] f = fail f"
| "stop_again units (u # us) f =
     and_then (result_of (un_stop units u)) (\<lambda>r. stop_again units us (case r of
         Inl error \<Rightarrow> f\<lparr>fl_message := fl_message f @ ''; and stopping '' @ u @ '' again failed: '' @ error\<rparr>
       | Inr _ \<Rightarrow> f))"

fun start_all :: "'w units \<Rightarrow> string list \<Rightarrow> ('w, string, unit) eff" where
  "start_all units [] = ok ()"
| "start_all units (u # us) = and_then (un_start units u) (\<lambda>_. start_all units us)"

definition start_flagged :: "'w machinery \<Rightarrow> refresh_plan \<Rightarrow> string list \<Rightarrow> ('w, failure, (string \<times> nat) list) eff" where
  "start_flagged m rplan before =
     and_then (map_err (failure_at ''outbound flag'') (write_flag (mc_flag_fs m) (pl_flag rplan) (pl_flag_var rplan) (pl_flag_gid rplan))) (\<lambda>_.
     and_then (result_of (start_all (mc_units m) (rev before))) (\<lambda>r. case r of
       Inl error \<Rightarrow> stop_again (mc_units m) (pl_units rplan) (failure_at ''start'' error)
     | Inr _ \<Rightarrow> and_then (result_of (prove (mc_units m) before (pl_flag_var rplan))) (\<lambda>p. case p of
         Inr found \<Rightarrow> ok found
       | Inl error \<Rightarrow> stop_again (mc_units m) (pl_units rplan) (failure_at ''outbound flag'' error))))"

fun drain_loop :: "'w refresh_server \<Rightarrow> pg_conn \<Rightarrow> string \<Rightarrow> nat \<Rightarrow> ('w, 'e, unit) eff" where
  "drain_loop server maintenance target 0 = and_then (result_of (rf_connections server maintenance target)) (\<lambda>_. ok ())"
| "drain_loop server maintenance target (Suc n) =
     and_then (result_of (rf_connections server maintenance target)) (\<lambda>r. case r of
       Inr sessions \<Rightarrow> if sessions \<noteq> [] then drain_loop server maintenance target n else ok ()
     | Inl _ \<Rightarrow> ok ())"

definition drain_sessions :: "'w machinery \<Rightarrow> restore_identity \<Rightarrow> ('w, 'e, unit) eff" where
  "drain_sessions m i w = drain_loop (mc_server m) (restorer i ''postgres'') (pg_database (ri_app i)) (mc_polls m w) w"

definition refresh_migrate :: "'w machinery \<Rightarrow> ('w, string, string list) eff" where
  "refresh_migrate m =
     and_then (from_result (mc_migration m)) (\<lambda>(adapter, ctx).
     and_then (map_err (\<lambda>e. ''applying migrations: '' @ show_adapter_error e) (up adapter ctx None)) (\<lambda>outcome.
     and_then (result_of (current_revision adapter ctx)) (\<lambda>current.
     and_then (mc_record_revision m (case current of Inr r \<Rightarrow> r | Inl _ \<Rightarrow> None)) (\<lambda>_.
     ok (mo_applied outcome)))))"

text \<open>From the restored database to a migrated, counted and sanitized one.\<close>

definition migrate_and_sanitize :: "'w machinery \<Rightarrow> refresh_plan \<Rightarrow> ('w, failure, string list \<times> 64 word \<times> sanitized option) eff" where
  "migrate_and_sanitize m rplan =
     and_then (map_err (failure_at ''migrate'') (refresh_migrate m)) (\<lambda>applied.
     and_then (map_err (\<lambda>error. failure_at ''tables'' (''could not count the tables: '' @ error)) (mc_table_count m (ri_app (pl_identity rplan)))) (\<lambda>tables.
     let min_tables = (case mc_min_tables m of Some n \<Rightarrow> n | None \<Rightarrow> 0) in
     if tables < min_tables
     then fail (failure_at ''tables'' (''the refreshed database holds '' @ show_nat (unat tables) @ '' table(s), fewer than min_tables = '' @ show_nat (unat min_tables)))
     else and_then (case pl_sanitize rplan of
         Script path \<Rightarrow> map_ok Some (map_err (failure_at ''sanitize'') (sanitize_run (mc_step m) path (ri_app (pl_identity rplan)) (mc_operator_uid m)))
       | Skipped _ \<Rightarrow> ok None) (\<lambda>sanitized.
     ok (applied, tables, sanitized))))"

definition run_locked :: "'w machinery \<Rightarrow> refresh_plan \<Rightarrow> ('w, failure, refresh_done) eff" where
  "run_locked m rplan =
     and_then (stop_all (mc_units m) (pl_units rplan)) (\<lambda>before.
     and_then (drain_sessions m (pl_identity rplan)) (\<lambda>_.
     and_then (result_of (refresh_in_place (mc_server m) (pl_identity rplan) (pl_archive rplan) (pl_marker rplan))) (\<lambda>r. case r of
       Inl (Refused message) \<Rightarrow> restart (mc_units m) before (failure_at ''refresh'' message)
     | Inl (restore_error.Failed message) \<Rightarrow> fail (failure_at ''restore'' message)
     | Inr refreshed \<Rightarrow>
         and_then (migrate_and_sanitize m rplan) (\<lambda>(applied, tables, sanitized).
         and_then (start_flagged m rplan before) (\<lambda>found.
         ok \<lparr>dn_applied = applied, dn_tables = tables, dn_tviews = rd_tviews refreshed, dn_sanitized = sanitized, dn_proof = found,
             dn_warnings = (if trim (rd_warnings refreshed) \<noteq> [] then [''pg_restore warned: '' @ trim (rd_warnings refreshed)] else [])\<rparr>)))))"

section \<open>What the steps leave alone\<close>

definition server_keeps :: "'w refresh_server \<Rightarrow> ('w \<Rightarrow> 'o) \<Rightarrow> bool" where
  "server_keeps server obs \<longleftrightarrow> reads_only server obs \<and>
     (\<forall>m n ow. keeps obs (rs_create server m n ow)) \<and> (\<forall>m n. keeps obs (rs_drop server m n)) \<and>
     (\<forall>c b. keeps obs (rs_rebuild server c b)) \<and> (\<forall>c. keeps obs (rs_still_empty server c)) \<and>
     (\<forall>c v. keeps obs (rf_set_marker server c v)) \<and> (\<forall>c es. keeps obs (rf_create_extensions server c es)) \<and>
     (\<forall>c. keeps obs (rf_schemas server c)) \<and> (\<forall>c p s r b. keeps obs (rf_schema_privilege server c p s r b)) \<and>
     (\<forall>c a l r d. keeps obs (rf_restore_list server c a l r d))"

lemma keeps_privileges:
  assumes "\<And>p s b. keeps obs (rf_schema_privilege server conn p s role b)"
  shows "keeps obs (grant_schemas server conn role schemas)" and "keeps obs (revoke_schemas server conn role schemas revoked)"
  by (induction schemas arbitrary: revoked) (auto intro!: keeps_intros assms simp: Let_def)

lemma keeps_refresh_in_place:
  assumes "server_keeps server obs"
  shows "keeps obs (refresh_in_place server i archive marker)"
proof -
  note s = assms [unfolded server_keeps_def]
  have lists: "keeps obs (run_restore_lists server c a ls ow)" for c a ls ow
    unfolding run_restore_lists_def Let_def using s by (intro keeps_intros keeps_privileges) simp_all
  have "keeps obs (replace_database server i archive marker p)" for p
    unfolding replace_database_def rebuild_tviews_def Let_def using s by (cases p) (auto intro!: keeps_intros lists)
  then show ?thesis
    unfolding refresh_in_place_def using s by (intro keeps_intros keeps_refresh_checks) simp_all
qed

lemma refused_keeps:
  assumes "reads_only server obs" and "refresh_in_place server i archive marker w = (Inl (Refused reason), w')"
  shows "obs w' = obs w"
proof -
  obtain q w1 where q: "refresh_checks server i archive marker w = (q, w1)" by fastforce
  then have "obs w1 = obs w" by (rule keepsD [OF keeps_refresh_checks [OF assms(1)]])
  moreover have "w' = w1" using assms(2) q by (cases q) (auto simp: refresh_in_place_def map_err_eq_Inl)
  ultimately show ?thesis by simp
qed

lemma keeps_drain_loop: "(\<And>c db. keeps obs (rf_connections server c db)) \<Longrightarrow> keeps obs (drain_loop server mt t n)"
  by (induction n) (auto intro!: keeps_intros)

lemma keeps_drain:
  assumes "\<And>c db. keeps obs (rf_connections (mc_server m) c db)"
  shows "keeps obs (drain_sessions m i)"
  unfolding keeps_def drain_sessions_def using keeps_drain_loop [OF assms, unfolded keeps_def] by (intro allI) (rule spec)

definition flag_keeps :: "'w flag_fs \<Rightarrow> ('w \<Rightarrow> 'o) \<Rightarrow> bool" where
  "flag_keeps fs obs \<longleftrightarrow> (\<forall>p. keeps obs (fl_remove fs p)) \<and> (\<forall>p. keeps obs (fl_create_new fs p)) \<and> (\<forall>p l. keeps obs (fl_write_line fs p l)) \<and>
     (\<forall>p. keeps obs (fl_sync fs p)) \<and> (\<forall>p g. keeps obs (fl_chgrp fs p g)) \<and> (\<forall>p. keeps obs (fl_chmod fs p)) \<and> (\<forall>p q. keeps obs (fl_rename fs p q))"

lemma keeps_write_flag: "flag_keeps fs obs \<Longrightarrow> keeps obs (write_flag fs flag var gid)"
  unfolding write_flag_def Let_def flag_keeps_def by (intro keeps_intros) simp_all

lemma keeps_prove:
  assumes "\<And>u. keeps obs (un_main_pid units u)" and "\<And>p. keeps obs (un_environ units p)"
  shows "keeps obs (prove units us var)"
proof -
  have "keeps obs (prove_units units vs var p)" for vs p
    by (induction vs arbitrary: p) (auto intro!: keeps_intros assms)
  then show ?thesis by (simp add: prove_def)
qed

lemma prove_units_names:
  "prove_units units us var found w = (Inr found', w') \<Longrightarrow> map fst found' = map fst found @ us"
  by (induction us arbitrary: found w) (auto simp: and_then_eq_Inr split: if_splits)

text \<open>
  The proof a success carries, from the world in which it began to the one in which it ended: for each service a
  running main process whose environment, read then, sets the flag.
\<close>

fun flag_proven :: "'w units \<Rightarrow> string \<Rightarrow> (string \<times> nat) list \<Rightarrow> 'w \<Rightarrow> 'w \<Rightarrow> bool" where
  "flag_proven units var [] w w' \<longleftrightarrow> w' = w"
| "flag_proven units var ((u, pid) # found) w w' \<longleftrightarrow>
     (\<exists>w1 w2 environ. un_main_pid units u w = (Inr pid, w1) \<and> pid \<noteq> 0 \<and> un_environ units pid w1 = (Inr environ, w2) \<and>
        environ_sets environ var \<and> flag_proven units var found w2 w')"

lemma prove_units_proven:
  "prove_units units us var found w = (Inr found', w') \<Longrightarrow> \<exists>new. found' = found @ new \<and> map fst new = us \<and> flag_proven units var new w w'"
proof (induction us arbitrary: found w)
  case (Cons u us)
  from Cons.prems obtain pid w1 environ w2 where run: "un_main_pid units u w = (Inr pid, w1)" "pid \<noteq> 0"
      "un_environ units pid w1 = (Inr environ, w2)" "environ_sets environ var" "prove_units units us var (found @ [(u, pid)]) w2 = (Inr found', w')"
    by (auto simp: and_then_eq_Inr map_err_eq_Inr split: if_splits)
  from Cons.IH [OF run(5)] obtain new where "found' = (found @ [(u, pid)]) @ new" "map fst new = us" "flag_proven units var new w2 w'" by blast
  with run show ?case by (intro exI [of _ "(u, pid) # new"]) auto
qed simp

section \<open>The units\<close>

text \<open>
  What the code relies on: \<open>is-active\<close> tells whether a unit runs, a start or stop that succeeds changes
  that one unit, one that fails changes none, and nothing else in a refresh starts or stops a unit.
\<close>

definition tracks_units :: "'w machinery \<Rightarrow> ('w \<Rightarrow> string set) \<Rightarrow> bool" where
  "tracks_units m act \<longleftrightarrow>
     (\<forall>u w r w'. un_is_active (mc_units m) u w = (r, w') \<longrightarrow> act w' = act w \<and> (\<forall>b. r = Inr b \<longrightarrow> b = (u \<in> act w))) \<and>
     (\<forall>u w r w'. un_stop (mc_units m) u w = (r, w') \<longrightarrow> act w' = (if is_ok r then act w - {u} else act w)) \<and>
     (\<forall>u w r w'. un_start (mc_units m) u w = (r, w') \<longrightarrow> act w' = (if is_ok r then insert u (act w) else act w)) \<and>
     (\<forall>u. keeps act (un_main_pid (mc_units m) u)) \<and> (\<forall>p. keeps act (un_environ (mc_units m) p)) \<and>
     server_keeps (mc_server m) act \<and> flag_keeps (mc_flag_fs m) act \<and> (\<forall>c. keeps act (mc_table_count m c)) \<and>
     keeps act (refresh_migrate m) \<and> (\<forall>p c u. keeps act (sanitize_run (mc_step m) p c u))"

lemma tracks_unitsD:
  assumes "tracks_units m act"
  shows "un_is_active (mc_units m) u w = (r, w') \<Longrightarrow> act w' = act w \<and> (\<forall>b. r = Inr b \<longrightarrow> b = (u \<in> act w))"
    "un_stop (mc_units m) u w = (s, w') \<Longrightarrow> act w' = (if is_ok s then act w - {u} else act w)"
    "un_start (mc_units m) u w = (s, w') \<Longrightarrow> act w' = (if is_ok s then insert u (act w) else act w)"
proof -
  note t = assms [unfolded tracks_units_def]
  show "un_is_active (mc_units m) u w = (r, w') \<Longrightarrow> act w' = act w \<and> (\<forall>b. r = Inr b \<longrightarrow> b = (u \<in> act w))"
    using t [THEN conjunct1] by blast
  show "un_stop (mc_units m) u w = (s, w') \<Longrightarrow> act w' = (if is_ok s then act w - {u} else act w)"
    using t [THEN conjunct2, THEN conjunct1, THEN spec, THEN spec, THEN spec, THEN spec, THEN mp] .
  show "un_start (mc_units m) u w = (s, w') \<Longrightarrow> act w' = (if is_ok s then insert u (act w) else act w)"
    using t [THEN conjunct2, THEN conjunct2, THEN conjunct1, THEN spec, THEN spec, THEN spec, THEN spec, THEN mp] .
qed

lemma start_each_act:
  assumes "tracks_units m act"
  shows "start_each (mc_units m) us problems w = (q, w') \<Longrightarrow> \<exists>p. q = Inr p \<and> act w \<subseteq> act w' \<and> act w' \<subseteq> act w \<union> set us \<and> (p = [] \<longrightarrow> problems = [] \<and> act w' = act w \<union> set us)"
proof (induction us arbitrary: problems w)
  case (Cons u us)
  obtain r w1 where r: "un_start (mc_units m) u w = (r, w1)" by fastforce
  with Cons.prems have "start_each (mc_units m) us (case r of Inl e \<Rightarrow> problems @ [e] | Inr _ \<Rightarrow> problems) w1 = (q, w')"
    by (simp add: and_then_def result_of_def)
  from Cons.IH [OF this] tracks_unitsD(3) [OF assms r] show ?case by (cases r) auto
qed auto

lemma restart_act:
  assumes "tracks_units m act" and "\<not> fl_restarted f" and "restart (mc_units m) before f w = (q, w')"
  shows "\<exists>f'. q = Inl f' \<and> fl_step f' = fl_step f \<and> act w \<subseteq> act w' \<and> act w' \<subseteq> act w \<union> set before \<and> (fl_restarted f' \<longrightarrow> act w' = act w \<union> set before)"
proof -
  obtain p :: "failure + string list" and w1 where p: "start_each (mc_units m) (rev before) [] w = (p, w1)" by fastforce
  from start_each_act [OF assms(1) p] p assms(2,3) show ?thesis
    by (cases p) (auto simp: restart_def)
qed

lemma stop_loop_act:
  assumes "tracks_units m act"
  shows "stop_loop (mc_units m) us before w = (r, w') \<Longrightarrow> (case r of
      Inr before' \<Rightarrow> act w' = act w - set us \<and> set before' = set before \<union> (act w \<inter> set us)
    | Inl f \<Rightarrow> fl_step f = ''stop'' \<and> act w - set us \<subseteq> act w' \<and> act w' \<subseteq> act w \<union> set before \<and> (fl_restarted f \<longrightarrow> act w' = act w \<union> set before))"
proof (induction us arbitrary: before w)
  case (Cons u us)
  obtain q w1 where q: "un_is_active (mc_units m) u w = (q, w1)" by fastforce
  note a1 = tracks_unitsD(1) [OF assms q]
  show ?case
  proof (cases q)
    case (Inl e)
    with Cons.prems q have "restart (mc_units m) before (failure_at ''stop'' e) w1 = (r, w')" by (simp add: and_then_def result_of_def)
    from restart_act [OF assms _ this] a1 show ?thesis by (auto simp: failure_at_def)
  next
    case b: (Inr b)
    let ?before = "if b then before @ [u] else before"
    obtain s w2 where s: "un_stop (mc_units m) u w1 = (s, w2)" by fastforce
    note a2 = tracks_unitsD(2) [OF assms s]
    show ?thesis
    proof (cases s)
      case (Inl e)
      with Cons.prems q b s have "restart (mc_units m) ?before (failure_at ''stop'' e) w2 = (r, w')"
        by (simp add: and_then_def result_of_def Let_def)
      from restart_act [OF assms _ this] a1 a2 b Inl show ?thesis by (auto simp: failure_at_def split: if_splits)
    next
      case (Inr v)
      with Cons.prems q b s have "stop_loop (mc_units m) us ?before w2 = (r, w')"
        by (simp add: and_then_def result_of_def Let_def)
      from Cons.IH [OF this] a1 a2 b Inr show ?thesis by (auto split: sum.splits if_splits)
    qed
  qed
qed auto

text \<open>A failure that names \<open>u\<close> as a unit it could not stop again, with the error of that stop.\<close>

definition reported_stuck :: "'w units \<Rightarrow> failure \<Rightarrow> string \<Rightarrow> bool" where
  "reported_stuck units f u \<longleftrightarrow>
     (\<exists>error w w'. un_stop units u w = (Inl error, w') \<and> sublist (''; and stopping '' @ u @ '' again failed: '' @ error) (fl_message f))"

lemma stop_again_message: "stop_again units us f w = (Inl f' :: failure + 'b, w') \<Longrightarrow> prefix (fl_message f) (fl_message f')"
proof (induction us arbitrary: f w)
  case (Cons u us)
  obtain r w1 where r: "un_stop units u w = (r, w1)" by fastforce
  with Cons.prems have "stop_again units us (case r of
      Inl error \<Rightarrow> f\<lparr>fl_message := fl_message f @ ''; and stopping '' @ u @ '' again failed: '' @ error\<rparr> | Inr _ \<Rightarrow> f) w1 = (Inl f' :: failure + 'b, w')"
    by (simp add: and_then_def result_of_def)
  from Cons.IH [OF this] show ?case by (cases r) (auto dest: append_prefixD)
qed simp

lemma stop_again_act:
  assumes "tracks_units m act"
  shows "stop_again (mc_units m) us f w = (q, w') \<Longrightarrow>
    \<exists>f'. q = Inl f' \<and> fl_step f' = fl_step f \<and> fl_restarted f' = fl_restarted f \<and>
      act w - set us \<subseteq> act w' \<and> act w' \<subseteq> act w \<and> (\<forall>u \<in> act w' \<inter> set us. reported_stuck (mc_units m) f' u)"
proof (induction us arbitrary: f w)
  case (Cons u us)
  obtain r w1 where r: "un_stop (mc_units m) u w = (r, w1)" by fastforce
  note a = tracks_unitsD(2) [OF assms r]
  from Cons.prems r have run: "stop_again (mc_units m) us (case r of
      Inl error \<Rightarrow> f\<lparr>fl_message := fl_message f @ ''; and stopping '' @ u @ '' again failed: '' @ error\<rparr> | Inr _ \<Rightarrow> f) w1 = (q, w')"
    by (simp add: and_then_def result_of_def)
  from Cons.IH [OF run] obtain f' where ih: "q = Inl f'" "fl_step f' = fl_step f" "fl_restarted f' = fl_restarted f"
      "act w1 - set us \<subseteq> act w'" "act w' \<subseteq> act w1" "\<forall>u \<in> act w' \<inter> set us. reported_stuck (mc_units m) f' u"
    by (cases r) auto
  have bad: "reported_stuck (mc_units m) f' u" if stuck: "r = Inl error" for error
    using stop_again_message [OF run [unfolded ih(1)]] r stuck
    unfolding reported_stuck_def by (auto simp: prefix_def sublist_def)
  have "act w - set (u # us) \<subseteq> act w'" "act w' \<subseteq> act w" using ih a by (auto split: if_splits)
  moreover have "reported_stuck (mc_units m) f' v" if "v \<in> act w'" "v \<in> set (u # us)" for v
    using ih a bad that by (cases r) auto
  ultimately show ?case using ih by blast
qed auto

lemma start_all_act:
  assumes "tracks_units m act"
  shows "start_all (mc_units m) us w = (q, w') \<Longrightarrow> act w \<subseteq> act w' \<and> act w' \<subseteq> act w \<union> set us \<and> (is_ok q \<longrightarrow> act w' = act w \<union> set us)"
proof (induction us arbitrary: w)
  case (Cons u us)
  obtain r w1 where r: "un_start (mc_units m) u w = (r, w1)" by fastforce
  note a = tracks_unitsD(3) [OF assms r]
  show ?case
  proof (cases r)
    case (Inl e)
    with Cons.prems r a show ?thesis by auto
  next
    case (Inr v)
    with Cons.prems r have "start_all (mc_units m) us w1 = (q, w')" by simp
    from Cons.IH [OF this] a Inr show ?thesis by auto
  qed
qed auto

lemma start_flagged_act:
  assumes "tracks_units m act" and "start_flagged m rplan before w = (q, w')"
    and "set before \<subseteq> set (pl_units rplan)" and "act w \<inter> set (pl_units rplan) = {}"
  shows "case q of
      Inr found \<Rightarrow> act w' = act w \<union> set before \<and> map fst found = filter (\<lambda>u. \<not> is_timer u) before \<and>
        (\<exists>w1. act w1 = act w' \<and> flag_proven (mc_units m) (pl_flag_var rplan) found w1 w')
    | Inl f \<Rightarrow> \<not> fl_restarted f \<and> fl_step f \<in> {''start'', ''outbound flag''} \<and> act w \<subseteq> act w' \<and> act w' \<subseteq> act w \<union> set before \<and>
        (\<forall>u \<in> act w' \<inter> set (pl_units rplan). reported_stuck (mc_units m) f u)"
proof -
  note t = assms(1) [unfolded tracks_units_def]
  let ?again = "\<lambda>step e. stop_again (mc_units m) (pl_units rplan) (failure_at step e) :: ('a, failure, (string \<times> nat) list) eff"
  have again: "\<exists>f. q = Inl f \<and> fl_step f = step \<and> \<not> fl_restarted f \<and> act w \<subseteq> act w' \<and> act w' \<subseteq> act w \<union> set before \<and>
      (\<forall>u \<in> act w' \<inter> set (pl_units rplan). reported_stuck (mc_units m) f u)"
    if run: "?again step e w2 = (q, w')" and sub: "act w \<subseteq> act w2" "act w2 \<subseteq> act w \<union> set before" for step e w2
  proof -
    have "act w2 - set (pl_units rplan) = act w" using sub assms(3,4) by blast
    with stop_again_act [OF assms(1) run] sub show ?thesis by (auto simp: failure_at_def)
  qed
  obtain r1 w1 where r1: "write_flag (mc_flag_fs m) (pl_flag rplan) (pl_flag_var rplan) (pl_flag_gid rplan) w = (r1, w1)" by fastforce
  have e1: "act w1 = act w" by (rule keepsD [OF keeps_write_flag r1]) (use t in blast)
  obtain r2 w2 where r2: "start_all (mc_units m) (rev before) w1 = (r2, w2)" by fastforce
  note a2 = start_all_act [OF assms(1) r2]
  obtain r3 w3 where r3: "prove (mc_units m) before (pl_flag_var rplan) w2 = (r3, w3)" by fastforce
  have e3: "act w3 = act w2" by (rule keepsD [OF keeps_prove r3]) (use t in blast)+
  show ?thesis
  proof (cases r1)
    case (Inl e)
    with assms(2,4) r1 e1 show ?thesis by (auto simp: start_flagged_def and_then_def map_err_def failure_at_def)
  next
    case v1: (Inr u1)
    show ?thesis
    proof (cases r2)
      case (Inl e)
      with assms(2) r1 v1 r2 have "?again ''start'' e w2 = (q, w')" by (simp add: start_flagged_def and_then_def map_err_def result_of_def)
      from again [OF this] a2 e1 show ?thesis by auto
    next
      case v2: (Inr u2)
      show ?thesis
      proof (cases r3)
        case (Inl e)
        with assms(2) r1 v1 r2 v2 r3 have "?again ''outbound flag'' e w3 = (q, w')" by (simp add: start_flagged_def and_then_def map_err_def result_of_def)
        from again [OF this] a2 e1 e3 show ?thesis by auto
      next
        case (Inr found)
        with assms(2) r1 v1 r2 v2 r3 have "q = Inr found" "w' = w3" by (simp_all add: start_flagged_def and_then_def map_err_def result_of_def)
        moreover have "map fst found = filter (\<lambda>u. \<not> is_timer u) before \<and> flag_proven (mc_units m) (pl_flag_var rplan) found w2 w3"
          using prove_units_proven [OF r3 [unfolded prove_def Inr]] by simp
        ultimately show ?thesis using a2 v2 e1 e3 by auto
      qed
    qed
  qed
qed

text \<open>What a refusal must leave alone: the database, which the units' own operations and the drain only read.\<close>

definition spares_data :: "'w machinery \<Rightarrow> ('w \<Rightarrow> 'o) \<Rightarrow> bool" where
  "spares_data m obs \<longleftrightarrow> reads_only (mc_server m) obs \<and>
     (\<forall>u. keeps obs (un_is_active (mc_units m) u)) \<and> (\<forall>u. keeps obs (un_stop (mc_units m) u)) \<and> (\<forall>u. keeps obs (un_start (mc_units m) u))"

lemma keeps_start_each: "(\<And>u. keeps obs (un_start units u)) \<Longrightarrow> keeps obs (start_each units us problems)"
  by (induction us arbitrary: problems) (auto intro!: keeps_intros)

lemma keeps_restart: "(\<And>u. keeps obs (un_start units u)) \<Longrightarrow> keeps obs (restart units before f)"
  unfolding restart_def by (intro keeps_intros keeps_start_each)

lemma keeps_stop_loop: "spares_data m obs \<Longrightarrow> keeps obs (stop_loop (mc_units m) us before)"
proof (induction us arbitrary: before)
  case (Cons u us)
  then have "\<And>u. keeps obs (un_start (mc_units m) u)" "keeps obs (un_is_active (mc_units m) u)" "keeps obs (un_stop (mc_units m) u)"
    by (simp_all add: spares_data_def)
  with Cons show ?case unfolding stop_loop.simps Let_def by (intro keeps_intros keeps_restart) simp_all
qed (simp add: keeps_ok)

text \<open>Everything between the drop and the start: the steps after which a failure leaves the units stopped.\<close>

definition after_drop :: "string set" where
  "after_drop = {''restore'', ''migrate'', ''tables'', ''sanitize''}"

lemma migrate_and_sanitize_act:
  assumes "tracks_units m act" and "migrate_and_sanitize m rplan w = (q, w')"
  shows "act w' = act w" and "q = Inl f \<Longrightarrow> \<not> fl_restarted f \<and> fl_step f \<in> after_drop"
proof -
  note t = assms(1) [unfolded tracks_units_def]
  have "keeps act (migrate_and_sanitize m rplan)"
    unfolding migrate_and_sanitize_def Let_def using t by (cases "pl_sanitize rplan") (auto intro!: keeps_intros)
  then show "act w' = act w" using assms(2) by (rule keepsD)
  have "fails_in (\<lambda>f. \<not> fl_restarted f \<and> fl_step f \<in> after_drop) (migrate_and_sanitize m rplan)"
    unfolding migrate_and_sanitize_def Let_def
    by (cases "pl_sanitize rplan") (auto intro!: fails_intros simp: failure_at_def after_drop_def)
  then show "\<not> fl_restarted f \<and> fl_step f \<in> after_drop" if "q = Inl f" using assms(2) that by (auto dest: fails_inD)
qed

lemma drain_loop_ok: "\<exists>w'. drain_loop server mt t n w = (Inr (), w')"
  by (induction n arbitrary: w) (auto simp: and_then_def result_of_run split: sum.splits)

text \<open>
  C8: a refresh never runs an environment on half-replaced data. A refresh that succeeds ends with exactly
  the units running that ran before, and each service among them is proven: its main process runs and the environment of that process,
  read after the start, sets the outbound flag. A failure starts no unit that did not run and touches no unit outside the environment. One while stopping, or a refusal, leaves the database as it
  was, and reports the units as restarted only if exactly the units that ran before run again; where a start fails then, some
  stay down. A failure after the drop and before the start leaves every unit of the environment
  stopped; and when the start or the proof fails, every unit of the environment that still runs is named in the reported failure as one whose
  second stop failed, with the error of that stop.
\<close>

theorem refresh_units_safe:
  assumes "tracks_units m act" and "spares_data m obs" and "run_locked m rplan w = (r, w')"
  shows "case r of
      Inr d \<Rightarrow> act w' = act w \<and> set (map fst (dn_proof d)) = {u \<in> act w \<inter> set (pl_units rplan). \<not> is_timer u} \<and>
        (\<exists>w1. act w1 = act w \<and> flag_proven (mc_units m) (pl_flag_var rplan) (dn_proof d) w1 w')
    | Inl f \<Rightarrow> fl_step f \<in> {''stop'', ''refresh''} \<union> after_drop \<union> {''start'', ''outbound flag''} \<and>
        act w - set (pl_units rplan) \<subseteq> act w' \<and> act w' \<subseteq> act w \<and>
        (fl_step f \<in> {''stop'', ''refresh''} \<longrightarrow> obs w' = obs w) \<and>
        (fl_restarted f \<longrightarrow> fl_step f \<in> {''stop'', ''refresh''} \<and> act w' = act w) \<and>
        (fl_step f \<in> after_drop \<longrightarrow> act w' = act w - set (pl_units rplan)) \<and>
        (fl_step f \<in> {''start'', ''outbound flag''} \<longrightarrow>
          (\<forall>u \<in> act w' \<inter> set (pl_units rplan). reported_stuck (mc_units m) f u))"
proof -
  note t = assms(1) [unfolded tracks_units_def]
  note d = assms(2) [unfolded spares_data_def reads_only_def]
  obtain q1 w1 where c1: "stop_all (mc_units m) (pl_units rplan) w = (q1, w1)" by fastforce
  note a1 = stop_loop_act [OF assms(1) c1 [unfolded stop_all_def]]
  have o1: "obs w1 = obs w" by (rule keepsD [OF keeps_stop_loop [OF assms(2)] c1 [unfolded stop_all_def]])
  obtain q2 :: "failure + unit" and w2 where c2: "drain_sessions m (pl_identity rplan) w1 = (q2, w2)" by fastforce
  have e2: "act w2 = act w1" "obs w2 = obs w1"
    using keepsD [OF keeps_drain c2, of act] keepsD [OF keeps_drain c2, of obs] t d by (simp_all add: server_keeps_def reads_only_def)
  obtain q3 w3 where c3: "refresh_in_place (mc_server m) (pl_identity rplan) (pl_archive rplan) (pl_marker rplan) w2 = (q3, w3)" by fastforce
  have e3: "act w3 = act w2" by (rule keepsD [OF keeps_refresh_in_place c3]) (use t in blast)
  show ?thesis
  proof (cases q1)
    case (Inl f)
    with assms(3) c1 a1 o1 show ?thesis by (auto simp: run_locked_def after_drop_def)
  next
    case v1: (Inr before)
    then have b: "act w1 = act w - set (pl_units rplan)" "set before = act w \<inter> set (pl_units rplan)" using a1 by simp_all
    have v2: "q2 = Inr ()" using c2 drain_loop_ok by (metis drain_sessions_def fst_conv)
    show ?thesis
    proof (cases q3)
      case (Inl e)
      show ?thesis
      proof (cases e)
        case (Refused msg)
        with assms(3) c1 v1 c2 v2 c3 Inl have rs: "restart (mc_units m) before (failure_at ''refresh'' msg) w3 = (r, w')"
          by (simp add: run_locked_def and_then_def result_of_def)
        have "obs w3 = obs w2" by (rule refused_keeps [OF _ c3 [unfolded Inl Refused]]) (use assms(2) in \<open>simp add: spares_data_def\<close>)
        moreover have "obs w' = obs w3" by (rule keepsD [OF keeps_restart rs]) (use d in blast)
        ultimately show ?thesis using restart_act [OF assms(1) _ rs] b e2 e3 o1 by (auto simp: failure_at_def after_drop_def)
      next
        case (Failed msg)
        with assms(3) c1 v1 c2 v2 c3 Inl b e2 e3 show ?thesis
          by (auto simp: run_locked_def and_then_def result_of_def failure_at_def after_drop_def)
      qed
    next
      case v3: (Inr refreshed)
      obtain q4 w4 where c4: "migrate_and_sanitize m rplan w3 = (q4, w4)" by fastforce
      note a4 = migrate_and_sanitize_act [OF assms(1) c4]
      obtain q5 w5 where c5: "start_flagged m rplan before w4 = (q5, w5)" by fastforce
      have "set before \<subseteq> set (pl_units rplan)" "act w4 \<inter> set (pl_units rplan) = {}" using b e2 e3 a4(1) by auto
      note a5 = start_flagged_act [OF assms(1) c5 this]
      have run: "(r, w') = (case q4 of Inl f \<Rightarrow> (Inl f, w4) | Inr x \<Rightarrow> (case q5 of Inl f \<Rightarrow> (Inl f, w5) | Inr found \<Rightarrow> (r, w5)))"
        "\<And>x found. q4 = Inr x \<Longrightarrow> q5 = Inr found \<Longrightarrow> \<exists>dn. r = Inr dn \<and> dn_proof dn = found"
        using assms(3) c1 v1 c2 v2 c3 v3 c4 c5
        by (auto simp: run_locked_def and_then_def result_of_def split: sum.splits prod.splits)
      show ?thesis
      proof (cases q4)
        case (Inl f)
        with run a4 b e2 e3 show ?thesis by (auto simp: after_drop_def)
      next
        case x: (Inr x)
        show ?thesis
        proof (cases q5)
          case (Inl f)
          with x run a4(1) a5 b e2 e3 show ?thesis by (auto simp: after_drop_def)
        next
          case (Inr found)
          from run(2) [OF x Inr] obtain dn where dn: "r = Inr dn" "dn_proof dn = found" by blast
          from a5 Inr have "act w5 = act w4 \<union> set before" "set (map fst found) = {u \<in> set before. \<not> is_timer u}"
            "\<exists>w1. act w1 = act w5 \<and> flag_proven (mc_units m) (pl_flag_var rplan) found w1 w5" by auto
          with dn run(1) x Inr a4(1) b e2 e3 show ?thesis by auto
        qed
      qed
    qed
  qed
qed

text \<open>A machine for the examples: its world is the set of running units, and the drop of the database fails.\<close>

definition demo_machinery :: "(string set) machinery" where
  "demo_machinery =
     \<lparr>mc_server = (demo_refresh ''shop/staging'' [] [])\<lparr>rf_schema_privilege := (\<lambda>c p schema role revoke. ok ())\<rparr>,
      mc_table_count = (\<lambda>c. ok 3),
      mc_units = \<lparr>un_is_active = (\<lambda>u w. (Inr (u \<in> w), w)), un_stop = (\<lambda>u w. (Inr (), w - {u})), un_start = (\<lambda>u w. (Inr (), insert u w)),
        un_environment_files = (\<lambda>u. ok []), un_triggers = (\<lambda>u. ok []), un_main_pid = (\<lambda>u. ok 7), un_environ = (\<lambda>p. ok [])\<rparr>,
      mc_flag_fs = \<lparr>fl_remove = (\<lambda>p. ok ()), fl_create_new = (\<lambda>p. ok ()), fl_write_line = (\<lambda>p l. ok ()), fl_sync = (\<lambda>p. ok ()),
        fl_chgrp = (\<lambda>p g. ok ()), fl_chmod = (\<lambda>p. ok ()), fl_rename = (\<lambda>p q. ok ())\<rparr>,
      mc_step = \<lparr>sh_metadata = (\<lambda>p. ok (0, 0)), sh_read = (\<lambda>p. ok []), sh_sha256_hex = id,
        sh_run = (\<lambda>c i. ok \<lparr>out_code = Some 0, out_stdout = [], out_stderr = []\<rparr>), sh_path = None, sh_status = (\<lambda>r. [])\<rparr>,
      mc_operator_uid = 0, mc_migration = Inl ''no adapter'', mc_record_revision = (\<lambda>r. ok ()), mc_polls = (\<lambda>w. 2), mc_min_tables = None\<rparr>"

definition demo_refresh_plan :: refresh_plan where
  "demo_refresh_plan =
     \<lparr>pl_archive = ''a.pgdump'', pl_identity = demo_identity, pl_marker = ''shop/staging'', pl_units = [''job.timer'', ''shop''],
      pl_sanitize = Skipped ''synthetic data'', pl_flag = ''/etc/shop/staging.refreshed.env'', pl_flag_var = ''REFRESHED'', pl_flag_gid = 7\<rparr>"

lemma demo_machinery_lawful: "tracks_units demo_machinery id" "spares_data demo_machinery (\<lambda>w. ())"
proof -
  have "keeps id (sanitize_run (mc_step demo_machinery) p c u)" for p c u
    by (auto simp: demo_machinery_def sanitize_run_def sanitize_check_def Let_def intro!: keeps_intros)
  moreover have "server_keeps (mc_server demo_machinery) id" "flag_keeps (mc_flag_fs demo_machinery) id" "keeps id (refresh_migrate demo_machinery)"
    by (simp_all add: demo_machinery_def demo_refresh_def server_keeps_def reads_only_def flag_keeps_def refresh_migrate_def keeps_def and_then_def)
  ultimately show "tracks_units demo_machinery id"
    unfolding tracks_units_def by (simp add: demo_machinery_def keeps_ok)
  show "spares_data demo_machinery (\<lambda>w. ())" by (simp add: spares_data_def reads_only_def keeps_def)
qed

theorem refresh_units_safe_witness:
  "\<exists>f w'. run_locked demo_machinery demo_refresh_plan {''shop'', ''other''} = (Inl f, w') \<and> fl_step f = ''restore'' \<and> w' = {''other''}"
proof -
  have l: "lines [] = []" by (simp add: lines.simps)
  have "\<exists>f w'. run_locked demo_machinery demo_refresh_plan {''shop'', ''other''} = (Inl f, w') \<and> fl_step f = ''restore''"
    by (simp add: run_locked_def stop_all_def drain_sessions_def numeral_2_eq_2 demo_machinery_def demo_refresh_plan_def demo_refresh_def refresh_in_place_def
        refresh_checks_def replace_database_def list_archive_def precheck_listing_def archive_creates_pg_tviews_def archive_extensions_def split_listing_def
        without_extensions_def unlines_def uses_admin_def demo_identity_def marked_and_idle_def map_filter_simps l failure_at_def
        result_of_run and_then_def map_err_def Let_def)
  then obtain f w' where run: "run_locked demo_machinery demo_refresh_plan {''shop'', ''other''} = (Inl f, w')" and f: "fl_step f = ''restore''" by blast
  from refresh_units_safe [OF demo_machinery_lawful run] f have "w' = {''shop'', ''other''} - set (pl_units demo_refresh_plan)"
    by (simp add: after_drop_def)
  then have "w' = {''other''}" by (auto simp: demo_refresh_plan_def)
  with run f show ?thesis by blast
qed

end
