(* ===== verification/Drill.thy ===== *)
theory Drill
  imports Preflight Db_Restore Decimal
begin

text \<open>
  The restore drill (\<open>fraisier-core/src/drill.rs\<close>) and the Postgres-backed databases behind the drill and
  the restore rehearsal (\<open>fraisier-cli/src/pg_rehearsal.rs\<close>), which compose the throwaway restores of
  \<open>Db_Restore\<close> with the flows of \<open>fraisier-core\<close>. What the flows need of a database is the locale
  \<open>throwaway_host\<close>; the Postgres-backed one provides it.
\<close>

section \<open>The drill\<close>

record tview_rebuilt =
  tv_entity :: string
  tv_rows :: int

record restored_copy =
  rc_db :: throwaway_db
  rc_tviews_rebuilt :: "tview_rebuilt list option"

record 'w drill_db = "'w rehearsal_db" +
  dd_restore_copy :: "string \<Rightarrow> string \<Rightarrow> ('w, string, restored_copy) eff"
  dd_live_database :: "string \<Rightarrow> string + string"
  dd_table_count :: "throwaway_db \<Rightarrow> ('w, string, 64 word) eff"

record drill_report =
  dr_throwaway :: string
  dr_applied :: "revision list"
  dr_tables :: "64 word"
  dr_tviews_rebuilt :: "tview_rebuilt list option"
  dr_teardown_warning :: "string option"

datatype drill_error =
    DrillSecret adapter_error
  | DrillLiveDatabase string
  | DrillRestore string
  | DrillMigrate adapter_error
  | DrillTableCount string
  | TooFewTables "64 word" "64 word"
  | UnsafeTeardown string string

definition drill_guard :: "string \<Rightarrow> string \<Rightarrow> string + unit" where
  "drill_guard throwaway live =
     (if \<not> contains throwaway_marker throwaway
      then Inl (''its name does not carry the throwaway marker '' @ [squote] @ throwaway_marker @ [squote])
      else if throwaway = live then Inl ''it is the live database''
      else Inr ())"

text \<open>The block \<open>checked\<close>: the migrations on the copy and the table count.\<close>

definition drill_checks :: "'w drill_db \<Rightarrow> 'w migration_adapter \<Rightarrow> adapter_ctx \<Rightarrow> throwaway_db \<Rightarrow> 64 word option \<Rightarrow>
    ('w, drill_error, revision list \<times> 64 word) eff" where
  "drill_checks db migration copy t min_tables =
     and_then (map_err DrillMigrate (up migration copy None)) (\<lambda>migrated.
     and_then (map_err DrillTableCount (dd_table_count db t)) (\<lambda>tables.
     case min_tables of
       Some required \<Rightarrow> if tables < required then fail (TooFewTables tables required) else ok (mo_applied migrated, tables)
     | None \<Rightarrow> ok (mo_applied migrated, tables)))"

definition run_restore_drill :: "process_env \<Rightarrow> 'w drill_db \<Rightarrow> 'w migration_adapter \<Rightarrow> adapter_ctx \<Rightarrow> string \<Rightarrow> 64 word option \<Rightarrow>
    ('w, drill_error, drill_report) eff" where
  "run_restore_drill env db migration ctx archive min_tables =
     and_then (map_err DrillSecret (from_result (secret env ctx database_url_secret))) (\<lambda>live_dsn.
     and_then (map_err DrillLiveDatabase (from_result (dd_live_database db live_dsn))) (\<lambda>live.
     and_then (map_err DrillRestore (dd_restore_copy db live_dsn archive)) (\<lambda>restored.
     let t = rc_db restored in
     case drill_guard (td_name t) live of
       Inl reason \<Rightarrow> fail (UnsafeTeardown (td_name t) reason)
     | Inr _ \<Rightarrow>
         let copy = with_resolved_secret database_url_secret (td_dsn t) ctx in
         and_then (result_of (drill_checks db migration copy t min_tables)) (\<lambda>checked.
         and_then (result_of (rdb_teardown db t)) (\<lambda>dropped.
         and_then (from_result checked) (\<lambda>(applied, tables).
         ok \<lparr>dr_throwaway = td_name t, dr_applied = applied, dr_tables = tables,
             dr_tviews_rebuilt = rc_tviews_rebuilt restored, dr_teardown_warning = result_err dropped\<rparr>))))))"

section \<open>The Postgres-backed databases\<close>

record pg_rehearsal_db =
  pr_admin_url_env :: "string option"
  pr_trigger :: trigger

text \<open>
  What the code calls outside the sources: the DSN parser and printer (the \<open>url\<close> crate), the server
  operations and processes, the environment, free disk space and the name and path read off the clock.
\<close>

record 'w pg_host =
  ph_parse :: "string \<Rightarrow> db_error + pg_conn"
  ph_dsn :: "pg_conn \<Rightarrow> string"
  ph_server :: "'w restore_server"
  ph_run :: "command \<Rightarrow> ('w, db_error, run_outcome) eff"
  ph_vars :: "string \<rightharpoonup> string"
  ph_available :: "string \<Rightarrow> string + 64 word"
  ph_temp_dir :: string
  ph_pid :: nat
  ph_nanos :: nat
  ph_temp_archive :: string

definition pr_identity :: "'w pg_host \<Rightarrow> pg_rehearsal_db \<Rightarrow> pg_conn \<Rightarrow> string + restore_identity" where
  "pr_identity h self app = identity_from_env (ph_vars h) (ph_parse h) app (pr_admin_url_env self) (pr_trigger self)"

fun show_restore_error :: "restore_error \<Rightarrow> string" where
  "show_restore_error (Refused s) = s"
| "show_restore_error (Failed s) = s"

definition parse_live :: "'w pg_host \<Rightarrow> string \<Rightarrow> string + pg_conn" where
  "parse_live h live_dsn = (case ph_parse h live_dsn of Inl e \<Rightarrow> Inl (''invalid database DSN: '' @ show_db_error e) | Inr c \<Rightarrow> Inr c)"

definition pr_fill :: "'w pg_host \<Rightarrow> pg_rehearsal_db \<Rightarrow> string \<Rightarrow> seed \<Rightarrow> bool \<Rightarrow> ('w, string, throwaway) eff" where
  "pr_fill h self live_dsn seed rebuild =
     and_then (from_result (parse_live h live_dsn)) (\<lambda>live.
     and_then (from_result (pr_identity h self live)) (\<lambda>i.
     map_err show_restore_error (restore_throwaway (ph_server h) i
       (throwaway_name (ph_pid h) (ph_nanos h) (pg_database (ri_app i))) (ph_temp_archive h) seed rebuild)))"

definition pr_live_database :: "'w pg_host \<Rightarrow> string \<Rightarrow> string + string" where
  "pr_live_database h live_dsn = and_if_ok (parse_live h live_dsn) (\<lambda>live. Inr (pg_database live))"

text \<open>Run a statement and read its single value.\<close>

definition scalar :: "'w pg_host \<Rightarrow> pg_conn \<Rightarrow> string \<Rightarrow> ('w, string, string) eff" where
  "scalar h conn sql =
     (let query = psql_command conn sql in
      and_then (map_err show_db_error (ph_run h (query\<lparr>cmd_args := cmd_args query @ [''-tA'']\<rparr>))) (\<lambda>outcome.
      if succeeded outcome then ok (trim (out_stdout outcome)) else fail (trim (out_stderr outcome))))"

definition live_bytes :: "'w pg_host \<Rightarrow> string \<Rightarrow> ('w, string, 64 word) eff" where
  "live_bytes h live_dsn =
     and_then (from_result (parse_live h live_dsn)) (\<lambda>live.
     and_then (scalar h live ''SELECT pg_database_size(current_database())'') (\<lambda>s.
     from_result (ok_or (parse_u64 s) (''the database size was not a number: '' @ debug_str s))))"

definition pr_provision :: "'w pg_host \<Rightarrow> pg_rehearsal_db \<Rightarrow> string \<Rightarrow> backup_source \<Rightarrow> ('w, rehearsal_error, throwaway_db) eff" where
  "pr_provision h self live_dsn backup =
     and_then (if backup = backup_source.FreshDump
         then and_then (map_err (\<lambda>e. RehearsalProvision (''could not size the live database: '' @ e)) (live_bytes h live_dsn)) (\<lambda>bytes.
           map_err RehearsalProvision (from_result (room_for_copy (ph_available h) bytes (ph_temp_dir h))))
         else ok ()) (\<lambda>_.
     let seed = (case backup of Archive path \<Rightarrow> SeedArchive path | backup_source.FreshDump \<Rightarrow> seed.FreshDump) in
     and_then (map_err RehearsalProvision (pr_fill h self live_dsn seed False)) (\<lambda>copy.
     and_then (map_err RehearsalProvision (from_result (pr_live_database h live_dsn))) (\<lambda>live.
     ok \<lparr>td_dsn = ph_dsn h (tw_app copy), td_name = tw_name copy, td_live = live\<rparr>)))"

definition pr_teardown :: "'w pg_host \<Rightarrow> pg_rehearsal_db \<Rightarrow> throwaway_db \<Rightarrow> ('w, string, unit) eff" where
  "pr_teardown h self t =
     and_then (map_err show_db_error (from_result (ph_parse h (td_dsn t)))) (\<lambda>throwaway.
     and_then (from_result (pr_identity h self throwaway)) (\<lambda>i.
     drop_throwaway (ph_server h) i (td_name t) (td_live t)))"

definition pr_restore_copy :: "'w pg_host \<Rightarrow> pg_rehearsal_db \<Rightarrow> string \<Rightarrow> string \<Rightarrow> ('w, string, restored_copy) eff" where
  "pr_restore_copy h self live_dsn archive =
     and_then (pr_fill h self live_dsn (SeedArchive archive) True) (\<lambda>copy.
     and_then (from_result (pr_live_database h live_dsn)) (\<lambda>live.
     ok \<lparr>rc_db = \<lparr>td_dsn = ph_dsn h (tw_app copy), td_name = tw_name copy, td_live = live\<rparr>,
         rc_tviews_rebuilt = map_option (\<lambda>r. map (\<lambda>b. \<lparr>tv_entity = rb_entity b, tv_rows = rb_rows b\<rparr>) (tr_rebuilt r)) (tw_tviews copy)\<rparr>))"

definition pr_table_count :: "'w pg_host \<Rightarrow> throwaway_db \<Rightarrow> ('w, string, 64 word) eff" where
  "pr_table_count h t =
     and_then (map_err show_db_error (from_result (ph_parse h (td_dsn t)))) (\<lambda>throwaway.
     and_then (scalar h throwaway (''SELECT count(*) FROM pg_catalog.pg_tables WHERE schemaname NOT IN ('' @
       [squote] @ ''pg_catalog'' @ [squote] @ '', '' @ [squote] @ ''information_schema'' @ [squote] @ '')'')) (\<lambda>count.
     from_result (ok_or (parse_u64 count) (''the table count was not a number: '' @ debug_str count))))"

definition pg_drill_db :: "'w pg_host \<Rightarrow> pg_rehearsal_db \<Rightarrow> 'w drill_db" where
  "pg_drill_db h self =
     \<lparr>rdb_provision = pr_provision h self, rdb_teardown = pr_teardown h self, dd_restore_copy = pr_restore_copy h self,
      dd_live_database = pr_live_database h, dd_table_count = pr_table_count h\<rparr>"

section \<open>What the flows need of a database\<close>

text \<open>What the flows need of a migration: on the copy's DSN it leaves the observed database and the set of databases alone.\<close>

definition migrates_copy :: "process_env \<Rightarrow> 'w migration_adapter \<Rightarrow> string \<Rightarrow> ('w \<Rightarrow> 'o) \<Rightarrow> ('w \<Rightarrow> string set) \<Rightarrow> ('w \<Rightarrow> string set) \<Rightarrow> bool" where
  "migrates_copy env migration dsn obs dbs undropped \<longleftrightarrow> (\<forall>c. secret env c database_url_secret = Inr dsn \<longrightarrow>
     keeps obs (up migration c None) \<and> keeps (\<lambda>w. (dbs w, undropped w)) (up migration c None))"

text \<open>
  A server that hosts throwaway copies: \<open>obs\<close> observes a database other than the copy, \<open>dbs\<close> the databases there
  are and \<open>undropped\<close> those whose drop failed. Restoring into a fresh name yields the one handle \<open>copy\<close> or leaves no database
  behind unless its drop failed, the handle's name passes the guard, and tearing the copy down removes it and nothing else, or
  fails, which says that its drop failed.
\<close>

locale throwaway_host =
  fixes db :: "'w drill_db" and live_dsn :: string and copy :: throwaway_db
    and obs :: "'w \<Rightarrow> 'o" and dbs :: "'w \<Rightarrow> string set" and undropped :: "'w \<Rightarrow> string set"
  assumes live_database: "dd_live_database db live_dsn = Inr (td_live copy)"
    and marked: "drill_guard (td_name copy) (td_live copy) = Inr ()"
    and restore_copy: "td_name copy \<notin> dbs w \<Longrightarrow> dd_restore_copy db live_dsn archive w = (r, w') \<Longrightarrow>
      obs w' = obs w \<and> (case r of Inl _ \<Rightarrow> cleaned_up dbs undropped (td_name copy) w w'
        | Inr c \<Rightarrow> rc_db c = copy \<and> dbs w' = insert (td_name copy) (dbs w) \<and> undropped w' = undropped w)"
    and provision: "td_name copy \<notin> dbs w \<Longrightarrow> rdb_provision db live_dsn backup w = (q, w') \<Longrightarrow>
      obs w' = obs w \<and> (case q of Inl _ \<Rightarrow> cleaned_up dbs undropped (td_name copy) w w'
        | Inr c \<Rightarrow> c = copy \<and> dbs w' = insert (td_name copy) (dbs w) \<and> undropped w' = undropped w)"
    and teardown: "rdb_teardown db copy w = (t, w') \<Longrightarrow> obs w' = obs w \<and>
      (if is_ok t then dbs w' = dbs w - {td_name copy} \<and> undropped w' = undropped w
       else dbs w' \<in> {dbs w, dbs w - {td_name copy}} \<and> undropped w' = insert (td_name copy) (undropped w))"
    and table_count: "keeps obs (dd_table_count db copy)" "keeps (\<lambda>w. (dbs w, undropped w)) (dd_table_count db copy)"
begin

lemma copy_secret: "secret env (with_resolved_secret database_url_secret (td_dsn copy) ctx) database_url_secret = Inr (td_dsn copy)"
  by (simp add: secret_def with_resolved_secret_def)

lemma checks_kept:
  assumes "migrates_copy env migration (td_dsn copy) obs dbs undropped"
  shows "keeps obs (drill_checks db migration (with_resolved_secret database_url_secret (td_dsn copy) ctx) copy m)"
    and "keeps (\<lambda>w. (dbs w, undropped w)) (drill_checks db migration (with_resolved_secret database_url_secret (td_dsn copy) ctx) copy m)"
  using assms copy_secret table_count unfolding drill_checks_def migrates_copy_def by (auto intro!: keeps_intros)

lemma torn_down:
  assumes "rdb_teardown db copy w2 = (t, w3)" and "td_name copy \<notin> dbs w"
    and "dbs w2 = insert (td_name copy) (dbs w)" and "undropped w2 = undropped w"
  shows "cleaned_up dbs undropped (td_name copy) w w3" and "is_ok t \<Longrightarrow> dbs w3 = dbs w"
  using teardown [OF assms(1)] assms(2-4) by (auto simp: cleaned_up_def split: if_splits)

lemma drill_cleans_up:
  assumes "migrates_copy env migration (td_dsn copy) obs dbs undropped" and "secret env ctx database_url_secret = Inr live_dsn" and "td_name copy \<notin> dbs w"
    and "run_restore_drill env db migration ctx archive min_tables w = (r, w')"
  shows "obs w' = obs w \<and> cleaned_up dbs undropped (td_name copy) w w' \<and>
    (\<forall>rep. r = Inr rep \<and> dr_teardown_warning rep = None \<longrightarrow> dbs w' = dbs w)"
proof -
  obtain q w1 where q: "dd_restore_copy db live_dsn archive w = (q, w1)" by fastforce
  note c1 = restore_copy [OF assms(3) q]
  show ?thesis
  proof (cases q)
    case (Inl e)
    with assms(2,4) live_database q c1 show ?thesis by (auto simp: run_restore_drill_def and_then_def map_err_def)
  next
    case (Inr c)
    let ?ctx = "with_resolved_secret database_url_secret (td_dsn copy) ctx"
    obtain checked w2 where w2: "drill_checks db migration ?ctx copy min_tables w1 = (checked, w2)" by fastforce
    obtain dropped w3 where w3: "rdb_teardown db copy w2 = (dropped, w3)" by fastforce
    from assms(2,4) live_database marked q Inr c1 w2 w3 have "w' = w3"
      "\<forall>rep. r = Inr rep \<longrightarrow> dr_teardown_warning rep = result_err dropped"
      by (cases checked; auto simp: run_restore_drill_def and_then_def map_err_def Let_def result_of_run)+
    moreover have "obs w3 = obs w" using c1 Inr keepsD [OF checks_kept(1) [OF assms(1)] w2] teardown [OF w3] by simp
    moreover have "dbs w2 = insert (td_name copy) (dbs w)" "undropped w2 = undropped w"
      using c1 Inr keepsD [OF checks_kept(2) [OF assms(1)] w2] by simp_all
    ultimately show ?thesis using torn_down [OF w3 assms(3)] by (auto simp: result_err_def is_ok_iff split: sum.splits)
  qed
qed

lemma rehearsal_cleans_up:
  assumes "migrates_copy env migration (td_dsn copy) obs dbs undropped" and "secret env ctx database_url_secret = Inr live_dsn" and "td_name copy \<notin> dbs w"
    and "run_restore_rehearsal env (rehearsal_db.truncate db) migration ctx backup w = (r, w')"
  shows "obs w' = obs w \<and> cleaned_up dbs undropped (td_name copy) w w' \<and>
    (\<forall>rep. r = Inr rep \<and> rr_teardown_warning rep = None \<longrightarrow> dbs w' = dbs w)"
proof -
  obtain q w1 where q: "rdb_provision db live_dsn backup w = (q, w1)" by fastforce
  note c1 = provision [OF assms(3) q]
  have trunc: "rdb_provision (rehearsal_db.truncate db) = rdb_provision db" "rdb_teardown (rehearsal_db.truncate db) = rdb_teardown db"
    by (simp_all add: rehearsal_db.defs)
  show ?thesis
  proof (cases q)
    case (Inl e)
    with assms(2,4) q c1 show ?thesis by (auto simp: run_restore_rehearsal_def Preflight.provision_def trunc and_then_def)
  next
    case (Inr c)
    have kept: "keeps obs (rehearse_on migration ctx copy)" "keeps (\<lambda>w. (dbs w, undropped w)) (rehearse_on migration ctx copy)"
      using assms(1) copy_secret unfolding rehearse_on_def on_throwaway_def migrates_copy_def by (auto intro!: keeps_intros)
    obtain m w2 where w2: "rehearse_on migration ctx copy w1 = (m, w2)" by fastforce
    obtain dropped w3 where w3: "rdb_teardown db copy w2 = (dropped, w3)" by fastforce
    from assms(2,4) q Inr c1 w2 w3 have "w' = w3" "\<forall>rep. r = Inr rep \<longrightarrow> rr_teardown_warning rep = result_err dropped"
      by (cases m; auto simp: run_restore_rehearsal_def Preflight.provision_def trunc and_then_def result_of_run)+
    moreover have "obs w3 = obs w" using c1 Inr keepsD [OF kept(1) w2] teardown [OF w3] by simp
    moreover have "dbs w2 = insert (td_name copy) (dbs w)" "undropped w2 = undropped w" using c1 Inr keepsD [OF kept(2) w2] by simp_all
    ultimately show ?thesis using torn_down [OF w3 assms(3)] by (auto simp: result_err_def is_ok_iff split: sum.splits)
  qed
qed

end

section \<open>The Postgres-backed databases host throwaways\<close>

lemma drill_guard_eq: "drill_guard name live = teardown_guard name live"
  by (auto simp: drill_guard_def teardown_guard_def)

text \<open>The handle of the copy of the database \<open>conn\<close> connects to.\<close>

definition pg_copy :: "'w pg_host \<Rightarrow> pg_conn \<Rightarrow> throwaway_db" where
  "pg_copy h conn =
     (let name = throwaway_name (ph_pid h) (ph_nanos h) (pg_database conn) in
      \<lparr>td_dsn = ph_dsn h (with_database conn name), td_name = name, td_live = pg_database conn\<rparr>)"

text \<open>
  What the code relies on outside the sources: the live DSN parses, the copy's printed DSN parses back, the admin
  identity resolves, the server's operations touch only the databases they name, a \<open>SELECT\<close> changes
  nothing, and the clock gives a name other than the live database's and the observed database's. A drop may fail.
\<close>

definition pg_host_ok :: "'w pg_host \<Rightarrow> pg_rehearsal_db \<Rightarrow> string \<Rightarrow> pg_conn \<Rightarrow> string \<Rightarrow> ('w \<Rightarrow> 'o) \<Rightarrow> ('w \<Rightarrow> string set) \<Rightarrow> ('w \<Rightarrow> string set) \<Rightarrow> bool" where
  "pg_host_ok h self live_dsn conn other obs dbs undropped \<longleftrightarrow>
     ph_parse h live_dsn = Inr conn \<and> ph_parse h (td_dsn (pg_copy h conn)) = Inr (with_database conn (td_name (pg_copy h conn))) \<and> is_ok (pr_identity h self conn) \<and>
     spares (ph_server h) other obs \<and> tracks (ph_server h) dbs undropped \<and>
     (\<forall>c sql. prefix ''SELECT'' sql \<longrightarrow> keeps obs (scalar h c sql) \<and> keeps (\<lambda>w. (dbs w, undropped w)) (scalar h c sql)) \<and>
     td_name (pg_copy h conn) \<noteq> pg_database conn \<and> td_name (pg_copy h conn) \<noteq> other"

lemma identity_from_env_app:
  "identity_from_env vars parse app env trig = Inr i \<Longrightarrow> ri_app i = app"
  "is_ok (identity_from_env vars parse app env trig) = is_ok (identity_from_env vars parse app' env trig)"
  by (auto simp: identity_from_env_def restore_identity_new_def split: option.splits trigger.splits if_splits sum.splits)

lemma pr_fill_contract:
  assumes "pg_host_ok h self live_dsn conn other obs dbs undropped" and "td_name (pg_copy h conn) \<notin> dbs w"
    and "pr_fill h self live_dsn seed rebuild w = (r, w')"
  shows "obs w' = obs w \<and> (case r of Inl _ \<Rightarrow> cleaned_up dbs undropped (td_name (pg_copy h conn)) w w'
    | Inr t \<Rightarrow> dbs w' = insert (td_name (pg_copy h conn)) (dbs w) \<and> undropped w' = undropped w \<and> tw_name t = td_name (pg_copy h conn) \<and>
        tw_app t = with_database conn (td_name (pg_copy h conn)))"
proof -
  let ?name = "throwaway_name (ph_pid h) (ph_nanos h) (pg_database conn)"
  note ok = assms(1) [unfolded pg_host_ok_def]
  have name: "td_name (pg_copy h conn) = ?name" by (simp add: pg_copy_def Let_def)
  from ok obtain i where i: "pr_identity h self conn = Inr i" by (auto simp: is_ok_iff)
  then have app: "ri_app i = conn" using identity_from_env_app(1) by (auto simp: pr_identity_def)
  obtain q w1 where q: "restore_throwaway (ph_server h) i ?name (ph_temp_archive h) seed rebuild w = (q, w1)" by fastforce
  have run: "w' = w1" "r = (case q of Inl e \<Rightarrow> Inl (show_restore_error e) | Inr t \<Rightarrow> Inr t)"
    using assms(3) ok i app q by (auto simp: pr_fill_def parse_live_def map_err_def split: sum.splits)
  have guard: "teardown_guard ?name (pg_database (ri_app i)) = Inr ()" using ok throwaway_name_ok(2) name app by metis
  have "obs w1 = obs w" using keepsD [OF keeps_restore_throwaway [of "ph_server h" other obs ?name] q] ok name by simp
  with restore_throwaway_dbs [OF _ guard _ q, of dbs undropped] ok assms(2) name app run show ?thesis by (auto split: sum.splits)
qed

lemma pg_hosts:
  assumes "pg_host_ok h self live_dsn conn other obs dbs undropped"
  shows "throwaway_host (pg_drill_db h self) live_dsn (pg_copy h conn) obs dbs undropped"
proof
  note ok = assms [unfolded pg_host_ok_def]
  have live: "pr_live_database h live_dsn = Inr (pg_database conn)"
    using ok by (simp add: pr_live_database_def parse_live_def and_if_ok_def)
  have copy: "td_live (pg_copy h conn) = pg_database conn" "td_dsn (pg_copy h conn) = ph_dsn h (with_database conn (td_name (pg_copy h conn)))"
    by (simp_all add: pg_copy_def Let_def)
  have handle: "\<lparr>td_dsn = ph_dsn h (with_database conn (td_name (pg_copy h conn))), td_name = td_name (pg_copy h conn), td_live = pg_database conn\<rparr> = pg_copy h conn"
    by (simp add: pg_copy_def Let_def)
  show "dd_live_database (pg_drill_db h self) live_dsn = Inr (td_live (pg_copy h conn))"
    using live copy by (simp add: pg_drill_db_def)
  show guard: "drill_guard (td_name (pg_copy h conn)) (td_live (pg_copy h conn)) = Inr ()"
    unfolding drill_guard_eq copy using ok throwaway_name_ok(2) by (metis (no_types, lifting) pg_copy_def throwaway_db.select_convs(2))
  show "obs w' = obs w \<and> (case r of Inl _ \<Rightarrow> cleaned_up dbs undropped (td_name (pg_copy h conn)) w w'
      | Inr c \<Rightarrow> rc_db c = pg_copy h conn \<and> dbs w' = insert (td_name (pg_copy h conn)) (dbs w) \<and> undropped w' = undropped w)"
    if "td_name (pg_copy h conn) \<notin> dbs w" "dd_restore_copy (pg_drill_db h self) live_dsn archive w = (r, w')" for w w' r archive
  proof -
    obtain q w1 where q: "pr_fill h self live_dsn (SeedArchive archive) True w = (q, w1)" by fastforce
    from pr_fill_contract [OF assms that(1) q] that(2) q live handle show ?thesis
      by (cases q) (auto simp: pg_drill_db_def pr_restore_copy_def)
  qed
  show "obs w' = obs w \<and> (case r of Inl _ \<Rightarrow> cleaned_up dbs undropped (td_name (pg_copy h conn)) w w'
      | Inr c \<Rightarrow> c = pg_copy h conn \<and> dbs w' = insert (td_name (pg_copy h conn)) (dbs w) \<and> undropped w' = undropped w)"
    if "td_name (pg_copy h conn) \<notin> dbs w" "rdb_provision (pg_drill_db h self) live_dsn backup w = (r, w')" for w w' r backup
  proof -
    let ?size = "if backup = backup_source.FreshDump
      then and_then (map_err (\<lambda>e. RehearsalProvision (''could not size the live database: '' @ e)) (live_bytes h live_dsn)) (\<lambda>bytes.
        map_err RehearsalProvision (from_result (room_for_copy (ph_available h) bytes (ph_temp_dir h)))) else ok ()"
    have kept: "keeps obs ?size" "keeps (\<lambda>w. (dbs w, undropped w)) ?size" using ok by (auto simp: live_bytes_def intro!: keeps_intros)
    obtain g w0 where g: "?size w = (g, w0)" by fastforce
    let ?seed = "case backup of Archive path \<Rightarrow> SeedArchive path | backup_source.FreshDump \<Rightarrow> seed.FreshDump"
    obtain q w1 where q: "pr_fill h self live_dsn ?seed False w0 = (q, w1)" by fastforce
    from keepsD [OF kept(1) g] keepsD [OF kept(2) g] have w0: "obs w0 = obs w" "dbs w0 = dbs w" "undropped w0 = undropped w" by simp_all
    with that(1) have "td_name (pg_copy h conn) \<notin> dbs w0" by simp
    from pr_fill_contract [OF assms this q] that(2) g q w0 live handle show ?thesis
      by (cases g; cases q) (simp_all add: pg_drill_db_def pr_provision_def Let_def and_then_def map_err_def, auto simp: cleaned_up_def)
  qed
  show "obs w' = obs w \<and> (if is_ok t then dbs w' = dbs w - {td_name (pg_copy h conn)} \<and> undropped w' = undropped w
      else dbs w' \<in> {dbs w, dbs w - {td_name (pg_copy h conn)}} \<and> undropped w' = insert (td_name (pg_copy h conn)) (undropped w))"
    if "rdb_teardown (pg_drill_db h self) (pg_copy h conn) w = (t, w')" for w w' t
  proof -
    let ?conn = "with_database conn (td_name (pg_copy h conn))"
    have "is_ok (pr_identity h self ?conn)" using ok identity_from_env_app(2) unfolding pr_identity_def by blast
    then obtain i where "pr_identity h self ?conn = Inr i" by (auto simp: is_ok_iff)
    with that ok copy have drop: "drop_throwaway (ph_server h) i (td_name (pg_copy h conn)) (pg_database conn) w = (t, w')"
      by (simp add: pg_drill_db_def pr_teardown_def)
    have "keeps obs (drop_throwaway (ph_server h) i (td_name (pg_copy h conn)) (pg_database conn))"
      unfolding drop_throwaway_def using ok by (auto simp: spares_def intro!: keeps_intros)
    from keepsD [OF this drop] drop_throwaway_dbs [OF _ guard [unfolded drill_guard_eq copy(1)] drop, of dbs undropped] ok show ?thesis by blast
  qed
  show "keeps obs (dd_table_count (pg_drill_db h self) (pg_copy h conn))" "keeps (\<lambda>w. (dbs w, undropped w)) (dd_table_count (pg_drill_db h self) (pg_copy h conn))"
    using ok by (auto simp: pg_drill_db_def pr_table_count_def intro!: keeps_intros)
qed

text \<open>
  C11: drills and rehearsals clean up. Over a Postgres server whose operations touch only the
  databases they name and whose drops may fail, a restore drill and a restore rehearsal, whatever fails in them, leave each
  database other than the copy as it was, the live one among them, and the databases on the server are those there were, unless
  dropping the throwaway failed in this run. A success without a teardown warning has left no throwaway behind.
\<close>

theorem drill_and_rehearsal_clean_up:
  assumes "pg_host_ok h self live_dsn conn other obs dbs undropped" and "migrates_copy env migration (td_dsn (pg_copy h conn)) obs dbs undropped"
    and "secret env ctx database_url_secret = Inr live_dsn" and "td_name (pg_copy h conn) \<notin> dbs w" and "td_name (pg_copy h conn) \<notin> undropped w"
    and "run_restore_drill env (pg_drill_db h self) migration ctx archive min_tables w = (r, w1)"
    and "run_restore_rehearsal env (rehearsal_db.truncate (pg_drill_db h self)) migration ctx backup w = (q, w2)"
  shows "obs w1 = obs w \<and> obs w2 = obs w \<and>
    (dbs w1 = dbs w \<or> dbs w1 = insert (td_name (pg_copy h conn)) (dbs w) \<and> td_name (pg_copy h conn) \<in> undropped w1 - undropped w) \<and>
    (dbs w2 = dbs w \<or> dbs w2 = insert (td_name (pg_copy h conn)) (dbs w) \<and> td_name (pg_copy h conn) \<in> undropped w2 - undropped w) \<and>
    (\<forall>rep. r = Inr rep \<and> dr_teardown_warning rep = None \<longrightarrow> dbs w1 = dbs w) \<and>
    (\<forall>rep. q = Inr rep \<and> rr_teardown_warning rep = None \<longrightarrow> dbs w2 = dbs w)"
proof -
  note host = pg_hosts [OF assms(1)]
  from throwaway_host.drill_cleans_up [OF host assms(2-4,6)] throwaway_host.rehearsal_cleans_up [OF host assms(2-4,7)] assms(5)
  show ?thesis by (auto simp: cleaned_up_def)
qed

definition demo_host :: "string set \<Rightarrow> (string set \<times> string set) pg_host" where
  "demo_host stuck =
     \<lparr>ph_parse = (\<lambda>s. Inr (if s = ''live'' then ri_app demo_identity else with_database (ri_app demo_identity) (throwaway_name 7 9 ''app''))),
      ph_dsn = (\<lambda>c. ''copy''), ph_server = (demo_server stuck)\<lparr>rs_restore := (\<lambda>c a b. ok [])\<rparr>,
      ph_run = (\<lambda>c. ok \<lparr>out_code = Some 0, out_stdout = ''3'', out_stderr = []\<rparr>), ph_vars = (\<lambda>_. None),
      ph_available = (\<lambda>d. Inr 0), ph_temp_dir = ''/tmp'', ph_pid = 7, ph_nanos = 9, ph_temp_archive = ''/tmp/a''\<rparr>"

definition demo_self :: pg_rehearsal_db where
  "demo_self = \<lparr>pr_admin_url_env = None, pr_trigger = Operator\<rparr>"

lemma demo_scalar_keeps: "keeps obs (scalar (demo_host stuck) c sql)"
  by (auto simp: scalar_def demo_host_def Let_def intro!: keeps_intros)

lemma demo_host_ok: "pg_host_ok (demo_host stuck) demo_self ''live'' (ri_app demo_identity) ''app'' (\<lambda>w. ''app'' \<in> fst w) fst snd"
proof -
  have name: "throwaway_name 7 9 ''app'' \<noteq> ''app''" by code_simp
  have db: "pg_database (ri_app demo_identity) = ''app''" by (simp add: demo_identity_def)
  have server: "spares (ph_server (demo_host stuck)) ''app'' (\<lambda>w. ''app'' \<in> fst w)" "tracks (ph_server (demo_host stuck)) fst snd"
    by (auto simp: demo_host_def demo_server_def spares_def tracks_def keeps_def split: if_splits)
  have copy: "td_name (pg_copy (demo_host stuck) (ri_app demo_identity)) = throwaway_name 7 9 ''app''" "td_dsn (pg_copy (demo_host stuck) (ri_app demo_identity)) = ''copy''"
    by (simp_all add: pg_copy_def demo_host_def db Let_def)
  have "is_ok (pr_identity (demo_host stuck) demo_self (ri_app demo_identity))" by (simp add: pr_identity_def identity_from_env_def demo_self_def)
  moreover have "ph_parse (demo_host stuck) ''live'' = Inr (ri_app demo_identity)"
    "ph_parse (demo_host stuck) ''copy'' = Inr (with_database (ri_app demo_identity) (throwaway_name 7 9 ''app''))" by (simp_all add: demo_host_def)
  ultimately show ?thesis unfolding pg_host_ok_def copy db using name server by (simp add: demo_scalar_keeps)
qed

interpretation demo_drill: throwaway_host "pg_drill_db (demo_host stuck) demo_self" "''live''" "pg_copy (demo_host stuck) (ri_app demo_identity)"
  "\<lambda>w. ''app'' \<in> fst w" fst snd for stuck
  by (rule pg_hosts [OF demo_host_ok])

abbreviation demo_drill_ctx :: adapter_ctx where
  "demo_drill_ctx \<equiv> with_resolved_secret ''DATABASE_URL'' ''live'' (ctx_new ''app'' ''prod'')"

theorem drill_and_rehearsal_clean_up_witness:
  "fst (snd (run_restore_drill Inl (pg_drill_db (demo_host {}) demo_self) (no_database ''1'') demo_drill_ctx ''a.pgdump'' (Some 5) ({''app''}, {}))) = {''app''} \<or>
   throwaway_name 7 9 ''app'' \<in> snd (snd (run_restore_drill Inl (pg_drill_db (demo_host {}) demo_self) (no_database ''1'') demo_drill_ctx ''a.pgdump'' (Some 5) ({''app''}, {})))"
proof -
  let ?copy = "pg_copy (demo_host {}) (ri_app demo_identity)"
  have m: "migrates_copy Inl (no_database ''1'') (td_dsn ?copy) (\<lambda>w. ''app'' \<in> fst w) fst snd"
    by (simp add: migrates_copy_def no_database_def keeps_ok)
  have c: "secret Inl demo_drill_ctx database_url_secret = Inr ''live''"
    by (simp add: secret_def with_resolved_secret_def database_url_secret_def)
  have name: "td_name ?copy = throwaway_name 7 9 ''app''" by (simp add: pg_copy_def demo_host_def demo_identity_def Let_def)
  have "throwaway_name 7 9 ''app'' \<noteq> ''app''" by code_simp
  then have fresh: "td_name ?copy \<notin> fst ({''app''}, {})" "td_name ?copy \<notin> snd ({''app''}, {})" by (simp_all add: name)
  obtain r w1 where d: "run_restore_drill Inl (pg_drill_db (demo_host {}) demo_self) (no_database ''1'') demo_drill_ctx ''a.pgdump'' (Some 5) ({''app''}, {}) = (r, w1)"
    by (rule prod.exhaust)
  obtain q w2 where e: "run_restore_rehearsal Inl (rehearsal_db.truncate (pg_drill_db (demo_host {}) demo_self)) (no_database ''1'') demo_drill_ctx backup_source.FreshDump ({''app''}, {}) = (q, w2)"
    by (rule prod.exhaust)
  from drill_and_rehearsal_clean_up [OF demo_host_ok m c fresh d e] d show ?thesis by (auto simp: name)
qed

end
