(* ===== verification/Self_Upgrade.thy ===== *)
theory Self_Upgrade
  imports Redact "HOL-Library.AList"
begin

text \<open>
  The self-upgrade controller (\<open>fraisier-self-upgrade\<close>: \<open>apply.rs\<close>, \<open>swap.rs\<close>, \<open>source.rs\<close>, with the symlink
  swap of \<open>fraisier-adapter-support/src/staging.rs\<close> and the retries of its \<open>lib.rs\<close>): fetch and verify, stage,
  swap the \<open>current\<close> link, restart, poll the health, and revert once. The directory of binaries is
  modelled call by call, any call of which may fail; the supervised unit, the HTTP client and the hash
  are parameters.
\<close>

section \<open>The directory of binaries\<close>

text \<open>A binary has its bytes, its modification time and its executable bit; a link has its target's basename.\<close>

datatype bin_entry = BinFile string int bool | BinLink string

record bin_dir =
  bin_entries :: "(string \<times> bin_entry) list"
  bin_now :: int
  bin_faults :: "string option list"

definition bin_call :: "(bin_dir \<Rightarrow> ('e + 'a) \<times> bin_dir) \<Rightarrow> (string \<Rightarrow> 'e) \<Rightarrow> (bin_dir, 'e, 'a) eff" where
  "bin_call f err s =
     (case bin_faults s of
        Some m # plan \<Rightarrow> (Inl (err m), s\<lparr>bin_faults := plan\<rparr>)
      | None # plan \<Rightarrow> f (s\<lparr>bin_faults := plan\<rparr>)
      | [] \<Rightarrow> f s)"

definition entry :: "bin_dir \<Rightarrow> string \<Rightarrow> bin_entry option" where
  "entry s name = map_of (bin_entries s) name"

definition put_entry :: "string \<Rightarrow> bin_entry \<Rightarrow> bin_dir \<Rightarrow> bin_dir" where
  "put_entry name e s = s\<lparr>bin_entries := AList.update name e (bin_entries s)\<rparr>"

definition del_entry :: "string \<Rightarrow> bin_dir \<Rightarrow> bin_dir" where
  "del_entry name s = s\<lparr>bin_entries := AList.delete name (bin_entries s)\<rparr>"

text \<open>Writing follows a link; a new file is not executable, an existing one keeps its mode.\<close>

definition resolve_link :: "bin_dir \<Rightarrow> string \<Rightarrow> string" where
  "resolve_link s name = (case entry s name of Some (BinLink t) \<Rightarrow> t | _ \<Rightarrow> name)"

definition put_bytes :: "string \<Rightarrow> string \<Rightarrow> bin_dir \<Rightarrow> (string + unit) \<times> bin_dir" where
  "put_bytes name bytes s =
     (let n = resolve_link s name in
      case entry s n of
        Some (BinLink _) \<Rightarrow> (Inl ''Too many levels of symbolic links'', s)
      | Some (BinFile _ _ x) \<Rightarrow> (Inr (), put_entry n (BinFile bytes (bin_now s) x) s)
      | None \<Rightarrow> (Inr (), put_entry n (BinFile bytes (bin_now s) False) s))"

definition bin_write :: "string \<Rightarrow> string \<Rightarrow> (bin_dir, string, unit) eff" where
  "bin_write name bytes = and_then (bin_call (put_bytes name []) id) (\<lambda>_. bin_call (put_bytes name bytes) id)"

definition bin_chmod :: "string \<Rightarrow> (bin_dir, string, unit) eff" where
  "bin_chmod name = bin_call (\<lambda>s. let n = resolve_link s name in case entry s n of
       Some (BinFile b t _) \<Rightarrow> (Inr (), put_entry n (BinFile b t True) s)
     | _ \<Rightarrow> (Inl ''No such file or directory'', s)) id"

definition bin_remove :: "string \<Rightarrow> (bin_dir, string, unit) eff" where
  "bin_remove name = bin_call (\<lambda>s. case entry s name of
       None \<Rightarrow> (Inl ''No such file or directory'', s) | Some _ \<Rightarrow> (Inr (), del_entry name s)) id"

definition bin_symlink :: "string \<Rightarrow> string \<Rightarrow> (bin_dir, string, unit) eff" where
  "bin_symlink target name = bin_call (\<lambda>s. case entry s name of
       Some _ \<Rightarrow> (Inl ''File exists'', s) | None \<Rightarrow> (Inr (), put_entry name (BinLink target) s)) id"

definition bin_rename :: "string \<Rightarrow> string \<Rightarrow> (bin_dir, string, unit) eff" where
  "bin_rename a b = bin_call (\<lambda>s. case entry s a of
       None \<Rightarrow> (Inl ''No such file or directory'', s) | Some e \<Rightarrow> (Inr (), put_entry b e (del_entry a s))) id"

section \<open>The layout\<close>

datatype upgrade_error = Fetch string | UpIo string | ChecksumMismatch string string

fun show_upgrade_error :: "upgrade_error \<Rightarrow> string" where
  "show_upgrade_error (Fetch message) = ''fetch failed: '' @ message"
| "show_upgrade_error (UpIo message) = ''io error: '' @ message"
| "show_upgrade_error (ChecksumMismatch expected actual) = ''checksum mismatch: expected '' @ expected @ '', got '' @ actual"

record layout =
  bin_path :: string
  pid :: nat

definition current_name :: string where "current_name = ''current''"

definition tmp_name :: "nat \<Rightarrow> string" where
  "tmp_name p = current_name @ ''.fraisier-tmp-'' @ show_nat p"

definition staged_path :: "layout \<Rightarrow> string \<Rightarrow> string" where
  "staged_path l n = bin_path l @ ''/'' @ n"

text \<open>\<open>read_active_link\<close>: \<open>NotFound\<close> is no link; reading a file that is not a link is an error.\<close>

definition layout_active :: "(bin_dir, upgrade_error, string option) eff" where
  "layout_active = bin_call (\<lambda>s. case entry s current_name of
       None \<Rightarrow> (Inr None, s)
     | Some (BinLink t) \<Rightarrow> (Inr (Some t), s)
     | Some (BinFile _ _ _) \<Rightarrow> (Inl (UpIo ''failed to read active link: Invalid argument (os error 22)''), s))
     (\<lambda>m. UpIo (''failed to read active link: '' @ m))"

definition create_bin_dir :: "(bin_dir, string, unit) eff" where
  "create_bin_dir = bin_call (\<lambda>s. (Inr (), s)) id"

definition stage :: "layout \<Rightarrow> string \<Rightarrow> string \<Rightarrow> (bin_dir, upgrade_error, string) eff" where
  "stage l n bytes =
     and_then (map_err (\<lambda>e. UpIo (''creating '' @ bin_path l @ '': '' @ e)) create_bin_dir) (\<lambda>_.
     and_then (map_err (\<lambda>e. UpIo (''writing '' @ staged_path l n @ '': '' @ e)) (bin_write n bytes)) (\<lambda>_.
     and_then (map_err (\<lambda>e. UpIo (''chmod +x '' @ staged_path l n @ '': '' @ e)) (bin_chmod n)) (\<lambda>_.
     ok (staged_path l n))))"

definition activate_symlink :: "layout \<Rightarrow> string \<Rightarrow> (bin_dir, string, unit) eff" where
  "activate_symlink l n =
     (let tmp = tmp_name (pid l) in
      and_then (result_of (bin_remove tmp)) (\<lambda>_.
      and_then (map_err (\<lambda>cause. ''failed to create symlink: '' @ cause) (bin_symlink n tmp)) (\<lambda>_.
      and_then (result_of (bin_rename tmp current_name)) (\<lambda>r. case r of
        Inr _ \<Rightarrow> ok ()
      | Inl cause \<Rightarrow> and_then (result_of (bin_remove tmp)) (\<lambda>_. fail (''failed to swap active symlink: '' @ cause))))))"

definition layout_activate :: "layout \<Rightarrow> string \<Rightarrow> (bin_dir, upgrade_error, unit) eff" where
  "layout_activate l n = map_err UpIo (activate_symlink l n)"

text \<open>The binaries \<open>prune\<close> looks at, with their times, and the loop that removes them.\<close>

definition swap_name :: "string \<Rightarrow> bool" where
  "swap_name name \<longleftrightarrow> name = current_name \<or> prefix (current_name @ ''.fraisier-tmp-'') name"

fun read_staged :: "layout \<Rightarrow> (string \<times> bin_entry) list \<Rightarrow> (string \<times> int) list \<Rightarrow> (bin_dir, upgrade_error, (string \<times> int) list) eff" where
  "read_staged l [] staged = ok staged"
| "read_staged l ((name, e) # es) staged =
     and_then (bin_call (\<lambda>s. (Inr (), s)) (\<lambda>m. UpIo (''reading dir entry: '' @ m))) (\<lambda>_.
     if swap_name name then read_staged l es staged
     else and_then (bin_call (\<lambda>s. (Inr (), s)) (\<lambda>m. UpIo (''stat '' @ staged_path l name @ '': '' @ m))) (\<lambda>_.
       case e of BinLink _ \<Rightarrow> read_staged l es staged | BinFile _ t _ \<Rightarrow> read_staged l es (staged @ [(name, t)])))"

fun prune_loop :: "layout \<Rightarrow> string option \<Rightarrow> nat \<Rightarrow> nat \<Rightarrow> (string \<times> int) list \<Rightarrow> string list \<Rightarrow> (bin_dir, upgrade_error, string list) eff" where
  "prune_loop l act keep index [] removed = ok removed"
| "prune_loop l act keep index ((name, t) # rest) removed =
     (if index < keep \<or> act = Some name then prune_loop l act keep (Suc index) rest removed
      else and_then (map_err (\<lambda>e. UpIo (''removing '' @ staged_path l name @ '': '' @ e)) (bin_remove name)) (\<lambda>_.
        prune_loop l act keep (Suc index) rest (removed @ [staged_path l name])))"

definition prune :: "layout \<Rightarrow> nat \<Rightarrow> (bin_dir, upgrade_error, string list) eff" where
  "prune l keep =
     and_then layout_active (\<lambda>act.
     and_then (bin_call (\<lambda>s. (Inr (bin_entries s), s)) (\<lambda>m. UpIo (''reading '' @ bin_path l @ '': '' @ m))) (\<lambda>es.
     and_then (read_staged l es []) (\<lambda>staged.
     prune_loop l act keep 0 (sort_key (\<lambda>e. - snd e) staged) [])))"

section \<open>Fetching\<close>

datatype upgrade_source = SourceUrl string "string option" "string option" | SourcePath string "string option"

record verified =
  vf_bytes :: string
  vf_digest :: string
  vf_verified :: bool

text \<open>The world outside: the local files, the HTTP client (a transport error, or a status and a body), and the hash.\<close>

record http_response =
  hr_success :: bool
  hr_status :: string
  hr_body :: "string + string"

record 'w fetch_env =
  fe_read :: "string \<Rightarrow> ('w, string, string) eff"
  fe_client :: "string + unit"
  fe_get :: "string \<Rightarrow> ('w, string, http_response) eff"
  fe_sha256 :: "string \<Rightarrow> string"
  fe_utf8_lossy :: "string \<Rightarrow> string"
  fe_alnum :: "string \<Rightarrow> bool"

text \<open>\<open>retry_on_err\<close>: at least one attempt, the first success or the last error.\<close>

fun retry_on_err :: "nat \<Rightarrow> ('w, 'e, 'a) eff \<Rightarrow> ('w, 'e, 'a) eff" where
  "retry_on_err 0 op = op"
| "retry_on_err (Suc 0) op = op"
| "retry_on_err (Suc (Suc n)) op =
     and_then (result_of op) (\<lambda>r. case r of Inr a \<Rightarrow> ok a | Inl _ \<Rightarrow> retry_on_err (Suc n) op)"

definition download :: "'w fetch_env \<Rightarrow> string \<Rightarrow> ('w, upgrade_error, string) eff" where
  "download env url =
     map_err (\<lambda>cause. Fetch (credentials (fe_alnum env) cause)) (retry_on_err 3 (
       and_then (fe_get env url) (\<lambda>response.
       if \<not> hr_success response then fail (''HTTP '' @ hr_status response @ '' fetching '' @ url)
       else from_result (hr_body response))))"

definition hex_byte :: "char \<Rightarrow> string" where
  "hex_byte c = (let n = of_char c :: nat in [hex_char (n div 16), hex_char (n mod 16)])"

definition hex :: "string \<Rightarrow> string" where
  "hex bytes = concat (map hex_byte bytes)"

definition fetch_bytes :: "'w fetch_env \<Rightarrow> upgrade_source \<Rightarrow> ('w, upgrade_error, string \<times> string option) eff" where
  "fetch_bytes env src =
     (case src of
        SourcePath path sha256 \<Rightarrow>
          and_then (map_err (\<lambda>cause. UpIo (''reading '' @ path @ '': '' @ cause)) (fe_read env path)) (\<lambda>bytes. ok (bytes, sha256))
      | SourceUrl url sha256 checksum_url \<Rightarrow>
          and_then (map_err (\<lambda>cause. Fetch (''building HTTP client: '' @ cause)) (from_result (fe_client env))) (\<lambda>_.
          and_then (download env url) (\<lambda>bytes.
          case (sha256, checksum_url) of
            (Some given, _) \<Rightarrow> ok (bytes, Some given)
          | (None, Some u) \<Rightarrow> and_then (download env u) (\<lambda>raw.
              ok (bytes, case split_whitespace (fe_utf8_lossy env raw) of [] \<Rightarrow> None | t # _ \<Rightarrow> Some t))
          | (None, None) \<Rightarrow> ok (bytes, None))))"

definition fetch :: "'w fetch_env \<Rightarrow> upgrade_source \<Rightarrow> ('w, upgrade_error, verified) eff" where
  "fetch env src =
     and_then (fetch_bytes env src) (\<lambda>(bytes, expected).
     let digest = hex (fe_sha256 env bytes) in
     case expected of
       Some e \<Rightarrow> (let e' = map ascii_lower (trim e) in
         if e' \<noteq> digest then fail (ChecksumMismatch e' digest)
         else ok \<lparr>vf_bytes = bytes, vf_digest = digest, vf_verified = True\<rparr>)
     | None \<Rightarrow> ok \<lparr>vf_bytes = bytes, vf_digest = digest, vf_verified = False\<rparr>)"

section \<open>The controller\<close>

type_synonym 'u upgrade_world = "bin_dir \<times> 'u"

record failure_payload =
  fp_event :: string
  fp_failed :: "string option"
  fp_restored :: "string option"
  fp_reason :: string

text \<open>The supervisor, the health probe and the notifier; \<open>polls\<close> is how often the timeout lets the loop poll after a restart.\<close>

record 'u upgrade_host =
  uh_fetch :: "'u upgrade_world fetch_env"
  uh_restart :: "('u upgrade_world, string, unit) eff"
  uh_is_active :: "'u upgrade_world \<Rightarrow> bool \<times> 'u upgrade_world"
  uh_healthy :: "'u upgrade_world \<Rightarrow> bool \<times> 'u upgrade_world"
  uh_notify :: "failure_payload \<Rightarrow> 'u upgrade_world \<Rightarrow> 'u upgrade_world"
  uh_polls :: "'u upgrade_world \<Rightarrow> nat"

record upgrade_plan =
  up_source :: upgrade_source
  up_layout :: layout
  up_version :: "string option"
  up_keep :: nat
  up_systemd_available :: bool

datatype apply_outcome =
    Committed string nat
  | Reverted string string string
  | ManualIntervention string
  | AbortedBeforeSwap string

definition resolve_id :: "string option \<Rightarrow> string \<Rightarrow> string" where
  "resolve_id version digest = (case version of Some v \<Rightarrow> v | None \<Rightarrow> ''sha-'' @ take (min 16 (length digest)) digest)"

fun poll_loop :: "'u upgrade_host \<Rightarrow> nat \<Rightarrow> 'u upgrade_world \<Rightarrow> bool \<times> 'u upgrade_world" where
  "poll_loop h 0 w = (False, w)"
| "poll_loop h (Suc n) w =
     (case uh_is_active h w of
        (False, w1) \<Rightarrow> poll_loop h n w1
      | (True, w1) \<Rightarrow> (case uh_healthy h w1 of (True, w2) \<Rightarrow> (True, w2) | (False, w2) \<Rightarrow> poll_loop h n w2))"

definition bring_up :: "'u upgrade_host \<Rightarrow> 'u upgrade_world \<Rightarrow> bool \<times> 'u upgrade_world" where
  "bring_up h w = (case uh_restart h w of (Inl _, w1) \<Rightarrow> (False, w1) | (Inr _, w1) \<Rightarrow> poll_loop h (uh_polls h w1) w1)"

definition notify_failure :: "'u upgrade_host \<Rightarrow> string \<Rightarrow> string option \<Rightarrow> string option \<Rightarrow> string \<Rightarrow> 'u upgrade_world \<Rightarrow> 'u upgrade_world" where
  "notify_failure h event failed restored reason =
     uh_notify h \<lparr>fp_event = event, fp_failed = failed, fp_restored = restored, fp_reason = reason\<rparr>"

definition tick :: string where "tick = [CHR 0x27]"

definition revert :: "upgrade_plan \<Rightarrow> 'u upgrade_host \<Rightarrow> string \<Rightarrow> string option \<Rightarrow> 'u upgrade_world \<Rightarrow> apply_outcome \<times> 'u upgrade_world" where
  "revert plan h failed prior w =
     (case prior of
        None \<Rightarrow>
          let reason = ''new binary '' @ tick @ failed @ tick @ '' failed health-check and there is no kept-old binary to revert to''
          in (ManualIntervention reason, notify_failure h ''self-upgrade-manual-intervention'' (Some failed) None reason w)
      | Some old \<Rightarrow>
          (case on_fst (layout_activate (up_layout plan) old) w of
             (Inl e, w1) \<Rightarrow>
               let reason = ''new binary '' @ tick @ failed @ tick @ '' failed health-check and the revert to '' @ tick @ old @ tick @
                 '' could not repoint the symlink: '' @ show_upgrade_error e
               in (ManualIntervention reason, notify_failure h ''self-upgrade-manual-intervention'' (Some failed) None reason w1)
           | (Inr _, w1) \<Rightarrow>
               (case bring_up h w1 of
                  (True, w2) \<Rightarrow>
                    let reason = ''new binary '' @ tick @ failed @ tick @ '' failed health-check; reverted to '' @ tick @ old @ tick
                    in (Reverted failed old reason, notify_failure h ''self-upgrade-reverted'' (Some failed) (Some old) reason w2)
                | (False, w2) \<Rightarrow>
                    let reason = ''new binary '' @ tick @ failed @ tick @ '' failed health-check AND the revert target '' @ tick @ old @ tick @
                      '' is also unhealthy: manual intervention required''
                    in (ManualIntervention reason,
                        notify_failure h ''self-upgrade-manual-intervention'' (Some failed) (Some old) reason w2))))"

text \<open>Everything up to the swap; an error aborts. Then the commit or the revert.\<close>

definition swap_in :: "upgrade_plan \<Rightarrow> 'u upgrade_host \<Rightarrow> ('u upgrade_world, string, string \<times> string option) eff" where
  "swap_in plan h =
     and_then (if \<not> up_systemd_available plan
         then fail (''not a systemd-managed deployment: `self-upgrade apply` needs systemd to perform the coordinated restart and auto-revert'')
         else ok ()) (\<lambda>_.
     and_then (map_err show_upgrade_error (fetch (uh_fetch h) (up_source plan))) (\<lambda>verified.
     let i = resolve_id (up_version plan) (vf_digest verified) in
     and_then (map_err show_upgrade_error (on_fst layout_active)) (\<lambda>prior.
     and_then (map_err show_upgrade_error (on_fst (stage (up_layout plan) i (vf_bytes verified)))) (\<lambda>_.
     and_then (map_err show_upgrade_error (on_fst (layout_activate (up_layout plan) i))) (\<lambda>_.
     ok (i, prior))))))"

definition apply_upgrade :: "upgrade_plan \<Rightarrow> 'u upgrade_host \<Rightarrow> 'u upgrade_world \<Rightarrow> apply_outcome \<times> 'u upgrade_world" where
  "apply_upgrade plan h w =
     (case swap_in plan h w of
        (Inl reason, w1) \<Rightarrow> (AbortedBeforeSwap reason, w1)
      | (Inr (i, prior), w1) \<Rightarrow>
          (case bring_up h w1 of
             (True, w2) \<Rightarrow>
               (case on_fst (prune (up_layout plan) (up_keep plan)) w2 of
                  (Inl _, w3) \<Rightarrow> (Committed i 0, w3)
                | (Inr removed, w3) \<Rightarrow> (Committed i (length removed), w3))
           | (False, w2) \<Rightarrow> revert plan h i prior w2))"

section \<open>What the calls do to the directory\<close>

text \<open>The entries but those of some names, and a name that is no link.\<close>

definition entries_but :: "string set \<Rightarrow> bin_dir \<Rightarrow> string \<Rightarrow> bin_entry option" where
  "entries_but X s = (\<lambda>n. if n \<in> X then None else entry s n)"

lemma entries_but_iff: "entries_but X a = entries_but X b \<longleftrightarrow> (\<forall>n. n \<notin> X \<longrightarrow> entry a n = entry b n)"
  by (auto simp: entries_but_def fun_eq_iff)

lemma entries_but_name:
  "entries_but {i, t, c} a = entries_but {i, t, c} b \<Longrightarrow> entry a c = entry b c \<Longrightarrow> entries_but {i, t} a = entries_but {i, t} b"
  unfolding entries_but_iff by blast

definition no_link :: "bin_dir \<Rightarrow> string \<Rightarrow> bool" where
  "no_link s n \<longleftrightarrow> (\<forall>t. entry s n \<noteq> Some (BinLink t))"

lemma entry_simps [simp]:
  "entry (put_entry n e s) = (entry s)(n \<mapsto> e)" "entry (del_entry n s) = (entry s)(n := None)"
  "entry (s\<lparr>bin_faults := p\<rparr>) = entry s"
  by (simp_all add: entry_def put_entry_def del_entry_def update_conv' delete_conv' fun_eq_iff)

lemma bin_call_cases:
  assumes "bin_call f err s = (r, s')"
  obtains m p where "r = Inl (err m)" "s' = s\<lparr>bin_faults := p\<rparr>" | p where "f (s\<lparr>bin_faults := p\<rparr>) = (r, s')"
proof (cases "bin_faults s")
  case Nil
  then have "s\<lparr>bin_faults := []\<rparr> = s" by simp
  with Nil assms that(2) [of "[]"] show ?thesis by (simp add: bin_call_def)
next
  case (Cons x xs)
  with assms that show ?thesis by (cases x) (auto simp: bin_call_def)
qed

lemma current_tmp: "current_name \<noteq> tmp_name p" "swap_name current_name" "swap_name (tmp_name p)"
  by (auto simp: current_name_def tmp_name_def swap_name_def)

lemma bin_write_entries:
  assumes "bin_write n bytes s = (r, s')" and "no_link s n"
  shows "entries_but {n} s' = entries_but {n} s \<and> no_link s' n \<and> (is_ok r \<longrightarrow> (\<exists>t x. entry s' n = Some (BinFile bytes t x)))"
proof -
  have put: "entries_but {n} b' = entries_but {n} b \<and> no_link b' n \<and> (is_ok q \<longrightarrow> (\<exists>t x. entry b' n = Some (BinFile c t x)))"
    if "bin_call (put_bytes n c) id b = (q, b')" "no_link b n" for b b' c and q :: "string + unit"
    using that(1)
  proof (cases rule: bin_call_cases)
    case (2 p)
    with that(2) show ?thesis
      by (auto simp: put_bytes_def resolve_link_def no_link_def entries_but_def Let_def split: option.splits bin_entry.splits)
  qed (use that(2) in \<open>auto simp: entries_but_def no_link_def\<close>)
  obtain q1 s1 where w1: "bin_call (put_bytes n []) id s = (q1, s1)" by fastforce
  from put [OF this assms(2)] have 1: "entries_but {n} s1 = entries_but {n} s" "no_link s1 n" by simp_all
  obtain q2 s2 where w2: "bin_call (put_bytes n bytes) id s1 = (q2, s2)" by fastforce
  from put [OF this 1(2)] 1 assms(1) w1 w2 put [OF w1 assms(2)] show ?thesis
    by (cases q1) (auto simp: bin_write_def)
qed

lemma bin_chmod_entries:
  assumes "bin_chmod n s = (r, s')" and "no_link s n"
  shows "entries_but {n} s' = entries_but {n} s \<and>
    (is_ok r \<longrightarrow> (\<forall>bytes t x. entry s n = Some (BinFile bytes t x) \<longrightarrow> entry s' n = Some (BinFile bytes t True)))"
  using assms(1) unfolding bin_chmod_def
proof (cases rule: bin_call_cases)
  case (2 p)
  with assms(2) show ?thesis
    by (auto simp: resolve_link_def no_link_def entries_but_def Let_def split: option.splits bin_entry.splits)
qed (auto simp: entries_but_def fun_eq_iff)

lemma stage_entries:
  assumes "stage l n bytes s = (r, s')" and "no_link s n"
  shows "entries_but {n} s' = entries_but {n} s \<and> (is_ok r \<longrightarrow> (\<exists>t. entry s' n = Some (BinFile bytes t True)))"
proof -
  obtain q1 s1 where c1: "create_bin_dir s = (q1, s1)" by fastforce
  then have e1: "entry s1 = entry s" unfolding create_bin_dir_def by (cases rule: bin_call_cases) auto
  obtain q2 s2 where c2: "bin_write n bytes s1 = (q2, s2)" by fastforce
  obtain q3 s3 where c3: "bin_chmod n s2 = (q3, s3)" by fastforce
  have "no_link s1 n" using assms(2) e1 by (simp add: no_link_def)
  note w = bin_write_entries [OF c2 this]
  note x = bin_chmod_entries [OF c3]
  have "entries_but {n} s1 = entries_but {n} s" using e1 by (auto simp: entries_but_def)
  with assms(1) c1 c2 c3 w x show ?thesis
    by (cases q1; cases q2; cases q3) (auto simp: stage_def and_then_def map_err_def)
qed

lemma activate_entries:
  assumes "layout_activate l n s = (r, s')"
  shows "entries_but {tmp_name (pid l), current_name} s' = entries_but {tmp_name (pid l), current_name} s \<and>
    entry s' current_name = (if is_ok r then Some (BinLink n) else entry s current_name)"
proof -
  let ?t = "tmp_name (pid l)"
  define same where "same = (\<lambda>a b :: bin_dir. \<forall>m. m \<noteq> ?t \<longrightarrow> entry a m = entry b m)"
  have remove: "same b' b" if "bin_remove ?t b = (q, b')" for b b' and q :: "string + unit"
    using that unfolding bin_remove_def by (cases rule: bin_call_cases) (auto simp: same_def split: option.splits)
  have link: "same b' b \<and> (is_ok q \<longrightarrow> entry b' ?t = Some (BinLink n))" if "bin_symlink n ?t b = (q, b')" for b b' and q :: "string + unit"
    using that unfolding bin_symlink_def by (cases rule: bin_call_cases) (auto simp: same_def split: option.splits)
  have rename: "if is_ok q then entry b' = (entry b)(?t := None, current_name := entry b ?t) else entry b' = entry b"
    if "bin_rename ?t current_name b = (q, b')" for b b' and q :: "string + unit"
    using that unfolding bin_rename_def by (cases rule: bin_call_cases) (auto split: option.splits)
  obtain q1 s1 where c1: "bin_remove ?t s = (q1, s1)" by fastforce
  obtain q2 s2 where c2: "bin_symlink n ?t s1 = (q2, s2)" by fastforce
  obtain q3 s3 where c3: "bin_rename ?t current_name s2 = (q3, s3)" by fastforce
  obtain q4 s4 where c4: "bin_remove ?t s3 = (q4, s4)" by fastforce
  have run: "(r, s') = (case q2 of Inl _ \<Rightarrow> (r, s2) | Inr _ \<Rightarrow> (case q3 of Inl _ \<Rightarrow> (r, s4) | Inr _ \<Rightarrow> (r, s3)))"
    "is_ok r \<longleftrightarrow> is_ok q2 \<and> is_ok q3"
    using assms c1 c2 c3 c4
    by (auto simp: layout_activate_def activate_symlink_def Let_def and_then_def map_err_def result_of_run split: sum.splits)
  show ?thesis using run remove [OF c1] link [OF c2] rename [OF c3] remove [OF c4] current_tmp(1) [of "pid l"]
    by (cases q2; cases q3) (auto simp: same_def entries_but_def fun_eq_iff)
qed

lemma active_entries:
  assumes "layout_active s = (r, s')"
  shows "entry s' = entry s \<and> (\<forall>x. r = Inr x \<longrightarrow> entry s current_name = map_option BinLink x)"
  using assms unfolding layout_active_def by (cases rule: bin_call_cases) (auto split: option.splits bin_entry.splits)

lemma read_staged_entries:
  "read_staged l es staged s = (r, s') \<Longrightarrow>
     entry s' = entry s \<and> (\<forall>out. r = Inr out \<longrightarrow> (\<forall>x\<in>set out. x \<in> set staged \<or> \<not> swap_name (fst x)))"
proof (induction l es staged arbitrary: s rule: read_staged.induct)
  case (2 l name e es staged)
  have look: "entry b' = entry b" if "bin_call (\<lambda>s. (Inr (), s)) err b = (q, b')" for err b b' and q :: "upgrade_error + unit"
    using that by (cases rule: bin_call_cases) auto
  let ?read = "bin_call (\<lambda>s. (Inr (), s)) (\<lambda>m. UpIo (''reading dir entry: '' @ m))"
  let ?stat = "bin_call (\<lambda>s. (Inr (), s)) (\<lambda>m. UpIo (''stat '' @ staged_path l name @ '': '' @ m))"
  obtain q1 s1 where c1: "?read s = (q1, s1)" by fastforce
  obtain q2 s2 where c2: "?stat s1 = (q2, s2)" by fastforce
  note keep = look [OF c1] look [OF c2]
  show ?case
  proof (cases q1)
    case (Inl _)
    with 2(4) c1 keep show ?thesis by auto
  next
    case q1: (Inr u)
    show ?thesis
    proof (cases "swap_name name")
      case True
      with 2(4) c1 q1 have "read_staged l es staged s1 = (r, s')" by simp
      from 2(1) [OF True this] keep show ?thesis by simp
    next
      case False
      show ?thesis
      proof (cases q2)
        case (Inl _)
        with 2(4) c1 c2 q1 False keep show ?thesis by auto
      next
        case (Inr v)
        show ?thesis
        proof (cases e)
          case (BinFile b t x)
          with 2(4) c1 c2 q1 Inr False have "read_staged l es (staged @ [(name, t)]) s2 = (r, s')" by simp
          from 2(2) [OF False BinFile this] keep False show ?thesis by fastforce
        next
          case (BinLink t)
          with 2(4) c1 c2 q1 Inr False have "read_staged l es staged s2 = (r, s')" by simp
          from 2(3) [OF False BinLink this] keep show ?thesis by simp
        qed
      qed
    qed
  qed
qed auto

lemma prune_loop_entries:
  assumes "prune_loop l act keep index staged removed s = (r, s')" and "\<forall>x\<in>set staged. \<not> swap_name (fst x)"
    and "swap_name n \<or> act = Some n"
  shows "entry s' n = entry s n"
  using assms
proof (induction l act keep index staged removed arbitrary: s rule: prune_loop.induct)
  case (2 l act keep index name t rest removed)
  show ?case
  proof (cases "index < keep \<or> act = Some name")
    case True
    with 2(1) [OF True] 2(3,4,5) show ?thesis by simp
  next
    case False
    then have "n \<noteq> name" using 2(4,5) by auto
    obtain q s1 where c: "bin_remove name s = (q, s1)" by fastforce
    have e: "entry s1 n = entry s n"
      using c \<open>n \<noteq> name\<close> unfolding bin_remove_def by (cases rule: bin_call_cases) (auto split: option.splits)
    show ?thesis
    proof (cases q)
      case (Inl _)
      with 2(3) False c e show ?thesis by (auto simp: and_then_def map_err_def)
    next
      case (Inr u)
      with 2(3) False c have "prune_loop l act keep (Suc index) rest (removed @ [staged_path l name]) s1 = (r, s')"
        by (simp add: and_then_def map_err_def)
      from 2(2) [OF False this] 2(4,5) e show ?thesis by simp
    qed
  qed
qed simp

lemma prune_entries:
  assumes "prune l keep s = (r, s')" and "entry s current_name = Some (BinLink n)"
  shows "entry s' current_name = entry s current_name \<and> entry s' n = entry s n"
proof -
  obtain q1 s1 where c1: "layout_active s = (q1, s1)" by fastforce
  note e1 = active_entries [OF this]
  let ?read = "bin_call (\<lambda>s. (Inr (bin_entries s), s)) (\<lambda>m. UpIo (''reading '' @ bin_path l @ '': '' @ m))"
  obtain q2 s2 where c2: "?read s1 = (q2, s2)" by fastforce
  then have e2: "entry s2 = entry s1" by (cases rule: bin_call_cases) auto
  show ?thesis
  proof (cases q1)
    case (Inl _)
    with assms(1) c1 e1 show ?thesis by (simp add: prune_def)
  next
    case q1: (Inr act)
    with e1 assms(2) have act: "act = Some n" by (cases act) auto
    show ?thesis
    proof (cases q2)
      case (Inl _)
      with assms(1) c1 q1 c2 e1 e2 show ?thesis by (simp add: prune_def)
    next
      case q2: (Inr es)
      obtain q3 s3 where c3: "read_staged l es [] s2 = (q3, s3)" by fastforce
      note e3 = read_staged_entries [OF this]
      show ?thesis
      proof (cases q3)
        case (Inl _)
        with assms(1) c1 q1 c2 q2 c3 e1 e2 e3 show ?thesis by (simp add: prune_def)
      next
        case (Inr staged)
        with assms(1) c1 q1 c2 q2 c3 have run: "prune_loop l act keep 0 (sort_key (\<lambda>e. - snd e) staged) [] s3 = (r, s')" by (simp add: prune_def)
        have names: "\<forall>x\<in>set (sort_key (\<lambda>e. - snd e) staged). \<not> swap_name (fst x)" using e3 Inr by auto
        from prune_loop_entries [OF run names, of current_name] prune_loop_entries [OF run names, of n] e1 e2 e3 act current_tmp(2)
        show ?thesis by simp
      qed
    qed
  qed
qed

section \<open>The outcome of an upgrade\<close>

text \<open>What the code relies on: fetching, the supervisor, the probe and the notifier leave the binaries alone.\<close>

abbreviation bins :: "'u upgrade_world \<Rightarrow> string \<Rightarrow> bin_entry option" where
  "bins w \<equiv> entry (fst w)"

definition keeps_bins :: "'u upgrade_host \<Rightarrow> bool" where
  "keeps_bins h \<longleftrightarrow>
     (\<forall>p. keeps bins (fe_read (uh_fetch h) p)) \<and> (\<forall>u. keeps bins (fe_get (uh_fetch h) u)) \<and> keeps bins (uh_restart h) \<and>
     (\<forall>w. bins (snd (uh_is_active h w)) = bins w) \<and> (\<forall>w. bins (snd (uh_healthy h w)) = bins w) \<and>
     (\<forall>p w. bins (uh_notify h p w) = bins w)"

lemma keeps_binsD:
  "keeps_bins h \<Longrightarrow> keeps bins (fe_read (uh_fetch h) p)" "keeps_bins h \<Longrightarrow> keeps bins (fe_get (uh_fetch h) u)"
  "keeps_bins h \<Longrightarrow> keeps bins (uh_restart h)" "keeps_bins h \<Longrightarrow> bins (snd (uh_is_active h w)) = bins w"
  "keeps_bins h \<Longrightarrow> bins (snd (uh_healthy h w)) = bins w" "keeps_bins h \<Longrightarrow> bins (uh_notify h f w) = bins w"
  unfolding keeps_bins_def by blast+

lemma keeps_retry: "keeps obs op \<Longrightarrow> keeps obs (retry_on_err n op)"
  by (induction n op rule: retry_on_err.induct) (auto intro!: keeps_intros)

lemma keeps_fetch:
  assumes "\<And>p. keeps obs (fe_read env p)" and "\<And>u. keeps obs (fe_get env u)"
  shows "keeps obs (fetch env src)"
proof -
  have "keeps obs (download env u)" for u
    unfolding download_def by (intro keeps_intros keeps_retry assms)
  then have "keeps obs (fetch_bytes env src)"
    unfolding fetch_bytes_def by (auto split: upgrade_source.split option.split intro!: keeps_intros assms)
  then show ?thesis
    unfolding fetch_def Let_def by (auto split: option.split intro!: keeps_intros)
qed

lemma poll_loop_healthy:
  "poll_loop h n w = (True, w') \<Longrightarrow> \<exists>w1 w2. uh_is_active h w1 = (True, w2) \<and> uh_healthy h w2 = (True, w')"
  by (induction h n w rule: poll_loop.induct) (auto split: prod.splits bool.splits)

lemma poll_loop_keeps:
  assumes "\<And>w. obs (snd (uh_is_active h w)) = obs w" and "\<And>w. obs (snd (uh_healthy h w)) = obs w"
  shows "obs (snd (poll_loop h n w)) = obs w"
proof (induction n arbitrary: w)
  case (Suc n)
  with assms(1) [of w] assms(2) [of "snd (uh_is_active h w)"] show ?case
    by (auto split: prod.splits bool.splits)
qed simp

lemma bring_up_healthy:
  assumes "bring_up h w = (True, w')"
  shows "\<exists>w1 w2. uh_is_active h w1 = (True, w2) \<and> uh_healthy h w2 = (True, w')"
proof -
  obtain q w1 where q: "uh_restart h w = (q, w1)" by (rule prod.exhaust)
  with assms have "poll_loop h (uh_polls h w1) w1 = (True, w')" by (cases q) (simp_all add: bring_up_def)
  then show ?thesis by (rule poll_loop_healthy)
qed

lemma bring_up_bins: "keeps_bins h \<Longrightarrow> bring_up h w = (r, w') \<Longrightarrow> bins w' = bins w"
proof -
  assume k: "keeps_bins h" and run: "bring_up h w = (r, w')"
  obtain q w1 where q: "uh_restart h w = (q, w1)" by (rule prod.exhaust)
  then have "bins w1 = bins w" by (rule keepsD [OF keeps_binsD(3) [OF k]])
  moreover have "bins (snd (poll_loop h n w1)) = bins w1" for n by (rule poll_loop_keeps) (rule keeps_binsD [OF k])+
  moreover have "w' = (case q of Inl _ \<Rightarrow> w1 | Inr _ \<Rightarrow> snd (poll_loop h (uh_polls h w1) w1))"
    using run q by (cases q) (auto simp: bring_up_def)
  ultimately show ?thesis by (cases q) simp_all
qed

text \<open>An id that is neither one of the names of the swap, nor a link, nor the active binary.\<close>

definition fresh_id :: "bin_dir \<Rightarrow> string \<Rightarrow> bool" where
  "fresh_id b i \<longleftrightarrow> \<not> swap_name i \<and> no_link b i \<and> entry b current_name \<noteq> Some (BinLink i)"

lemma swap_in_bins:
  assumes "keeps_bins h" and "fetch (uh_fetch h) (up_source plan) w = (Inr v, w0)"
    and "i = resolve_id (up_version plan) (vf_digest v)" and "fresh_id (fst w) i"
    and "swap_in plan h w = (r, w')"
  shows "entries_but {i, tmp_name (pid (up_layout plan)), current_name} (fst w') = entries_but {i, tmp_name (pid (up_layout plan)), current_name} (fst w) \<and>
    (case r of
       Inl _ \<Rightarrow> bins w' current_name = bins w current_name
     | Inr (j, prior) \<Rightarrow> j = i \<and> bins w current_name = map_option BinLink prior \<and> bins w' current_name = Some (BinLink i) \<and>
         (\<exists>t. bins w' i = Some (BinFile (vf_bytes v) t True)))"
proof -
  let ?l = "up_layout plan" and ?X = "{i, tmp_name (pid (up_layout plan)), current_name}"
  have "keeps bins (fetch (uh_fetch h) (up_source plan))" by (rule keeps_fetch) (rule keeps_binsD [OF assms(1)])+
  from keepsD [OF this assms(2)] have e0: "bins w0 = bins w" .
  obtain b u where w0: "w0 = (b, u)" by (rule prod.exhaust)
  obtain q1 b1 where c1: "layout_active b = (q1, b1)" by fastforce
  note e1 = active_entries [OF this]
  obtain q2 b2 where c2: "stage ?l i (vf_bytes v) b1 = (q2, b2)" by fastforce
  have "no_link b1 i" using assms(4) e0 e1 w0 by (simp add: fresh_id_def no_link_def)
  note e2 = stage_entries [OF c2 this]
  obtain q3 b3 where c3: "layout_activate ?l i b2 = (q3, b3)" by fastforce
  note e3 = activate_entries [OF c3]
  have i: "i \<noteq> current_name" "i \<noteq> tmp_name (pid ?l)" using assms(4) current_tmp by (auto simp: fresh_id_def)
  have s1: "entry b1 = bins w" using e0 e1 w0 by simp
  have s2: "entry b2 n = entry b1 n" if "n \<noteq> i" for n using e2 that by (simp add: entries_but_iff)
  have s3: "entry b3 n = entry b2 n" if "n \<noteq> tmp_name (pid ?l)" "n \<noteq> current_name" for n
    using e3 that by (simp add: entries_but_iff)
  have run: "on_fst layout_active w0 = (q1, b1, u)" "on_fst (stage ?l i (vf_bytes v)) (b1, u) = (q2, b2, u)"
    "on_fst (layout_activate ?l i) (b2, u) = (q3, b3, u)" using w0 c1 c2 c3 by simp_all
  show ?thesis
  proof (cases "up_systemd_available plan")
    case False
    with assms(5) show ?thesis by (auto simp: swap_in_def)
  next
    case True
    show ?thesis
      using assms(2,5) True run s1 s2 s3 e1 e2 e3 e0 i unfolding swap_in_def assms(3) [symmetric]
      by (cases q1; cases q2; cases q3)
        (auto simp: and_then_def map_err_def Let_def assms(3) [symmetric] entries_but_iff)
  qed
qed

definition seen_healthy :: "'u upgrade_host \<Rightarrow> string \<Rightarrow> 'u upgrade_world \<Rightarrow> bool" where
  "seen_healthy h i w \<longleftrightarrow> (\<exists>w1 w2. uh_is_active h w1 = (True, w2) \<and> uh_healthy h w2 = (True, w)) \<and> bins w current_name = Some (BinLink i)"

text \<open>The world a revert ends in: the notifier was called after the unit was seen healthy on the binary.\<close>

definition notified_healthy :: "'u upgrade_host \<Rightarrow> string \<Rightarrow> 'u upgrade_world \<Rightarrow> bool" where
  "notified_healthy h i w \<longleftrightarrow> (\<exists>w2 p. seen_healthy h i w2 \<and> w = uh_notify h p w2)"

text \<open>
  What a fetch that succeeds has checked: the bytes are those of the source, the digest is theirs, and a
  checksum the operator gave, or else the first word of the checksum file of this fetch, is that digest. With neither, the
  bytes are not checked and the result says so.
\<close>

definition fetch_checked :: "'w fetch_env \<Rightarrow> upgrade_source \<Rightarrow> 'w \<Rightarrow> verified \<Rightarrow> 'w \<Rightarrow> bool" where
  "fetch_checked env src w v w0 \<longleftrightarrow>
     (let matches = (\<lambda>e. vf_verified v \<and> map ascii_lower (trim e) = hex (fe_sha256 env (vf_bytes v))) in
     vf_digest v = hex (fe_sha256 env (vf_bytes v)) \<and>
     (case src of
        SourcePath p given \<Rightarrow> fe_read env p w = (Inr (vf_bytes v), w0) \<and> (case given of Some e \<Rightarrow> matches e | None \<Rightarrow> \<not> vf_verified v)
      | SourceUrl u (Some e) _ \<Rightarrow> download env u w = (Inr (vf_bytes v), w0) \<and> matches e
      | SourceUrl u None None \<Rightarrow> download env u w = (Inr (vf_bytes v), w0) \<and> \<not> vf_verified v
      | SourceUrl u None (Some c) \<Rightarrow> \<exists>w1 raw. download env u w = (Inr (vf_bytes v), w1) \<and> download env c w1 = (Inr raw, w0) \<and>
          (case split_whitespace (fe_utf8_lossy env raw) of [] \<Rightarrow> \<not> vf_verified v | e # _ \<Rightarrow> matches e)))"

lemma fetch_ok_checked:
  assumes "fetch env src w = (Inr v, w0)"
  shows "fetch_checked env src w v w0"
proof -
  from assms obtain bytes expected where b: "fetch_bytes env src w = (Inr (bytes, expected), w0)"
    and v: "v = \<lparr>vf_bytes = bytes, vf_digest = hex (fe_sha256 env bytes), vf_verified = (expected \<noteq> None)\<rparr>"
    and e: "\<forall>e. expected = Some e \<longrightarrow> map ascii_lower (trim e) = hex (fe_sha256 env bytes)"
    by (auto simp: fetch_def and_then_def Let_def split: prod.splits sum.splits option.splits if_splits)
  from b show ?thesis unfolding fetch_bytes_def fetch_checked_def Let_def v
    by (auto simp: and_then_def map_err_def e split: upgrade_source.splits option.splits prod.splits sum.splits list.splits)
qed

lemma revert_bins:
  assumes "keeps_bins h" and "revert plan h failed prior w = (o', w')"
  shows "entries_but {tmp_name (pid (up_layout plan)), current_name} (fst w') = entries_but {tmp_name (pid (up_layout plan)), current_name} (fst w) \<and>
    (case o' of
       Reverted f old _ \<Rightarrow> f = failed \<and> prior = Some old \<and> bins w' current_name = Some (BinLink old) \<and>
         notified_healthy h old w'
     | ManualIntervention _ \<Rightarrow> bins w' current_name = bins w current_name \<or> prior \<noteq> None \<and> bins w' current_name = map_option BinLink prior
     | _ \<Rightarrow> False)"
proof (cases prior)
  case None
  with assms show ?thesis by (auto simp: revert_def notify_failure_def Let_def keeps_binsD(6) entries_but_iff)
next
  case (Some old)
  obtain b u where w: "w = (b, u)" by (rule prod.exhaust)
  obtain q b1 where c: "layout_activate (up_layout plan) old b = (q, b1)" by fastforce
  note e = activate_entries [OF this]
  obtain up w2 where u: "bring_up h (b1, u) = (up, w2)" by (rule prod.exhaust)
  from bring_up_bins [OF assms(1) u] have k: "bins w2 = entry b1" by simp
  show ?thesis
  proof (cases "is_ok q \<and> up")
    case True
    have "on_fst (layout_activate (up_layout plan) old) w = (Inr (), b1, u)" "bring_up h (b1, u) = (True, w2)"
      using c u w True by (auto simp: is_ok_iff)
    then have "\<exists>reason p. revert plan h failed prior w = (Reverted failed old reason, uh_notify h p w2)"
      unfolding revert_def notify_failure_def Let_def Some by (simp only: option.case sum.case prod.case bool.case) (intro exI, rule refl)
    then obtain reason p where "o' = Reverted failed old reason" "w' = uh_notify h p w2" using assms(2) by auto
    moreover have "seen_healthy h old w2"
      using bring_up_healthy [of h "(b1, u)" w2] u True e k unfolding seen_healthy_def by simp
    ultimately have "notified_healthy h old w'" unfolding notified_healthy_def by blast
    with \<open>o' = Reverted failed old reason\<close> \<open>w' = uh_notify h p w2\<close> show ?thesis using Some True e k w by (auto simp: keeps_binsD(6) [OF assms(1)] entries_but_iff)
  next
    case False
    with assms Some c u e k w show ?thesis
      by (cases q; cases up) (auto simp: revert_def on_fst_def notify_failure_def Let_def keeps_binsD(6) entries_but_iff)
  qed
qed

text \<open>
  C7: a self-upgrade commits, reverts, or stops for the operator. For a fetched binary under a fresh id: its
  bytes are those of the source and a checksum that was given, or published at the checksum URL, is theirs. A
  commit means that \<open>current\<close> points at the id, that its file holds exactly these bytes, executable, and that the
  unit was last seen active and healthy with \<open>current\<close> at the new binary; a revert that \<open>current\<close> points again at the binary it pointed at
  and the unit was seen healthy on it; an abort that \<open>current\<close> is as it was. When the run asks for manual intervention,
  \<open>current\<close> points at the new binary or is as it was. And whatever the outcome short of a commit,
  no binary but the new one has changed.
\<close>

theorem upgrade_commits_or_keeps_old:
  fixes w :: "bin_dir \<times> 'u"
  assumes "keeps_bins h" and "fetch (uh_fetch h) (up_source plan) w = (Inr v, w0)"
    and "i = resolve_id (up_version plan) (vf_digest v)" and "fresh_id (fst w) i"
    and "apply_upgrade plan h w = (o', w')"
  shows "fetch_checked (uh_fetch h) (up_source plan) w v w0 \<and> (case o' of
      Committed j n \<Rightarrow> j = i \<and> bins w' current_name = Some (BinLink i) \<and> (\<exists>t. bins w' i = Some (BinFile (vf_bytes v) t True)) \<and>
        (\<exists>w2. seen_healthy h i w2 \<and> snd w' = snd w2)
    | Reverted f old reason \<Rightarrow> f = i \<and> bins w current_name = Some (BinLink old) \<and> bins w' current_name = Some (BinLink old) \<and>
        notified_healthy h old w' \<and>
        entries_but {i, tmp_name (pid (up_layout plan))} (fst w') = entries_but {i, tmp_name (pid (up_layout plan))} (fst w)
    | ManualIntervention reason \<Rightarrow> (bins w' current_name = Some (BinLink i) \<or> bins w' current_name = bins w current_name) \<and>
        entries_but {i, tmp_name (pid (up_layout plan)), current_name} (fst w') = entries_but {i, tmp_name (pid (up_layout plan)), current_name} (fst w)
    | AbortedBeforeSwap reason \<Rightarrow>
        entries_but {i, tmp_name (pid (up_layout plan))} (fst w') = entries_but {i, tmp_name (pid (up_layout plan))} (fst w))"
proof -
  note checked = fetch_ok_checked [OF assms(2)]
  obtain r w1 where s: "swap_in plan h w = (r, w1)" by (rule prod.exhaust)
  note b1 = swap_in_bins [OF assms(1-4) s]
  show ?thesis
  proof (cases r)
    case (Inl e)
    with s assms(5) b1 checked show ?thesis by (auto simp: apply_upgrade_def entries_but_iff)
  next
    case (Inr jp)
    obtain prior where r: "r = Inr (i, prior)" using b1 Inr by (cases jp) auto
    obtain up w2 where u: "bring_up h w1 = (up, w2)" by (rule prod.exhaust)
    note k = bring_up_bins [OF assms(1) u]
    show ?thesis
    proof (cases up)
      case True
      obtain b c where w2: "w2 = (b, c)" by (rule prod.exhaust)
      obtain q b3 where p: "prune (up_layout plan) (up_keep plan) b = (q, b3)" by fastforce
      from b1 r k w2 have cur: "entry b current_name = Some (BinLink i)" by simp
      from u True have u': "bring_up h w1 = (True, w2)" by simp
      from assms(5) s r u' w2 p have "w' = (b3, c)" "o' = Committed i (case q of Inl _ \<Rightarrow> 0 | Inr removed \<Rightarrow> length removed)"
        by (cases q; simp add: apply_upgrade_def on_fst_def)+
      moreover have "seen_healthy h i w2" using bring_up_healthy [OF u'] w2 cur unfolding seen_healthy_def by simp
      then have "\<exists>w2. seen_healthy h i w2 \<and> c = snd w2" using w2 by (metis snd_conv)
      ultimately show ?thesis using checked prune_entries [OF p cur] b1 r k w2 cur by simp
    next
      case False
      with assms(5) s r u have rv: "revert plan h i prior w2 = (o', w')" by (simp add: apply_upgrade_def)
      note rb = revert_bins [OF assms(1) rv]
      from b1 r have prior: "bins w current_name = map_option BinLink prior" "bins w1 current_name = Some (BinLink i)" by simp_all
      have kept: "entries_but {i, tmp_name (pid (up_layout plan)), current_name} (fst w') = entries_but {i, tmp_name (pid (up_layout plan)), current_name} (fst w)"
        using conjunct1 [OF rb] conjunct1 [OF b1] k by (simp add: entries_but_iff)
      have "case o' of Reverted f old _ \<Rightarrow> f = i \<and> bins w current_name = Some (BinLink old) \<and> bins w' current_name = Some (BinLink old) \<and>
           notified_healthy h old w'
         | ManualIntervention _ \<Rightarrow> bins w' current_name = Some (BinLink i) \<or> bins w' current_name = bins w current_name
         | _ \<Rightarrow> False"
        using conjunct2 [OF rb] prior k by (cases o') auto
      with checked kept entries_but_name [OF kept] show ?thesis by (cases o') simp_all
    qed
  qed
qed

text \<open>
  A host for the examples: it counts its restarts, polls once and is healthy while \<open>current\<close> points at the
  binary \<open>good\<close>; the binary to install is on the local disk.
\<close>

definition demo_upgrade :: "string \<Rightarrow> nat upgrade_host" where
  "demo_upgrade good =
     \<lparr>uh_fetch = \<lparr>fe_read = (\<lambda>p. ok ''new''), fe_client = Inr (), fe_get = (\<lambda>u. fail ''unused''), fe_sha256 = (\<lambda>b. ''01''),
        fe_utf8_lossy = id, fe_alnum = (\<lambda>c. True)\<rparr>,
      uh_restart = (\<lambda>(b, n). (Inr (), b, Suc n)), uh_is_active = (\<lambda>w. (True, w)),
      uh_healthy = (\<lambda>w. (entry (fst w) current_name = Some (BinLink good), w)), uh_notify = (\<lambda>p w. w), uh_polls = (\<lambda>w. 1)\<rparr>"

definition demo_bins :: "string option list \<Rightarrow> bin_dir" where
  "demo_bins faults = \<lparr>bin_entries = [(''1.0'', BinFile ''old'' 1 True), (''current'', BinLink ''1.0'')], bin_now = 5, bin_faults = faults\<rparr>"

definition demo_plan :: "string \<Rightarrow> upgrade_plan" where
  "demo_plan v = \<lparr>up_source = SourcePath ''/tmp/new'' None, up_layout = \<lparr>bin_path = ''/opt/bin'', pid = 7\<rparr>, up_version = Some v, up_keep = 2, up_systemd_available = True\<rparr>"

lemma demo_upgrade_bins: "keeps_bins (demo_upgrade good)"
  by (auto simp: keeps_bins_def demo_upgrade_def keeps_def)

theorem upgrade_commits_or_keeps_old_witness:
  "\<exists>reason w'. apply_upgrade (demo_plan ''2.0'') (demo_upgrade ''1.0'') (demo_bins [], 0) = (Reverted ''2.0'' ''1.0'' reason, w') \<and>
     entry (fst w') current_name = Some (BinLink ''1.0'')"
proof -
  let ?w = "(demo_bins [], 0) :: bin_dir \<times> nat"
  obtain o' w' where run: "apply_upgrade (demo_plan ''2.0'') (demo_upgrade ''1.0'') ?w = (o', w')" by (rule prod.exhaust)
  have "case fst (apply_upgrade (demo_plan ''2.0'') (demo_upgrade ''1.0'') ?w) of Reverted f old reason \<Rightarrow> f = ''2.0'' \<and> old = ''1.0'' | _ \<Rightarrow> False" by code_simp
  then obtain reason where o': "o' = Reverted ''2.0'' ''1.0'' reason" using run by (auto split: apply_outcome.splits)
  let ?v = "\<lparr>vf_bytes = ''new'', vf_digest = hex ''01'', vf_verified = False\<rparr>"
  have fetch: "fetch (uh_fetch (demo_upgrade ''1.0'')) (up_source (demo_plan ''2.0'')) ?w = (Inr ?v, ?w)"
    by (simp add: fetch_def fetch_bytes_def demo_upgrade_def demo_plan_def and_then_def map_err_def)
  have id: "''2.0'' = resolve_id (up_version (demo_plan ''2.0'')) (vf_digest ?v)" by (simp add: resolve_id_def demo_plan_def)
  have "fresh_id (fst ?w) ''2.0''"
    by (simp add: fresh_id_def swap_name_def current_name_def no_link_def entry_def demo_bins_def)
  from upgrade_commits_or_keeps_old [OF demo_upgrade_bins fetch id this run] run show ?thesis by (simp add: o')
qed

text \<open>Restarts: what counts them, and what does not.\<close>

definition counts_restarts :: "('u \<Rightarrow> nat) \<Rightarrow> 'u upgrade_host \<Rightarrow> bool" where
  "counts_restarts count h \<longleftrightarrow>
     (\<forall>p. keeps (count \<circ> snd) (fe_read (uh_fetch h) p)) \<and> (\<forall>u. keeps (count \<circ> snd) (fe_get (uh_fetch h) u)) \<and>
     (\<forall>w. count (snd (snd (uh_restart h w))) = Suc (count (snd w))) \<and>
     (\<forall>w. count (snd (snd (uh_is_active h w))) = count (snd w)) \<and> (\<forall>w. count (snd (snd (uh_healthy h w))) = count (snd w)) \<and>
     (\<forall>p w. count (snd (uh_notify h p w)) = count (snd w))"

lemma counts_restartsD:
  assumes "counts_restarts count h"
  shows "keeps (count \<circ> snd) (fetch (uh_fetch h) src)" "bring_up h w = (up, w') \<Longrightarrow> count (snd w') = Suc (count (snd w))"
    "count (snd (uh_notify h p w)) = count (snd w)"
proof -
  note c = assms [unfolded counts_restarts_def]
  show "keeps (count \<circ> snd) (fetch (uh_fetch h) src)" using c by (intro keeps_fetch) blast+
  show "count (snd (uh_notify h p w)) = count (snd w)" using c by blast
  have r: "count (snd (snd (uh_restart h w))) = Suc (count (snd w))" using c by blast
  have p: "(count \<circ> snd) (snd (poll_loop h n w1)) = (count \<circ> snd) w1" for n w1 using c by (intro poll_loop_keeps) (simp_all only: comp_apply)
  obtain q w1 where q: "uh_restart h w = (q, w1)" by (rule prod.exhaust)
  assume "bring_up h w = (up, w')"
  then have "w' = (case q of Inl _ \<Rightarrow> w1 | Inr _ \<Rightarrow> snd (poll_loop h (uh_polls h w1) w1))"
    using q by (cases q) (auto simp: bring_up_def)
  with q r p show "count (snd w') = Suc (count (snd w))" by (cases q) simp_all
qed

text \<open>
  There is no restart loop. An abort restarts nothing, a commit restarts once, a revert twice, and a
  run that gives up restarts at most twice.
\<close>

theorem at_most_two_restarts:
  fixes w :: "bin_dir \<times> 'u"
  assumes "counts_restarts count h" and "apply_upgrade plan h w = (o', w')"
  shows "count (snd w) \<le> count (snd w') \<and> count (snd w') \<le> count (snd w) + (case o' of
      AbortedBeforeSwap _ \<Rightarrow> 0 | Committed _ _ \<Rightarrow> 1 | Reverted _ _ _ \<Rightarrow> 2 | ManualIntervention _ \<Rightarrow> 2)"
proof -
  note c = counts_restartsD [OF assms(1)]
  have fst_keeps: "keeps (count \<circ> snd) (on_fst m :: ('u upgrade_world, 'e, 'a) eff)" for m :: "(bin_dir, 'e, 'a) eff"
    by (auto simp: keeps_def on_fst_def split: prod.splits)
  have sk: "keeps (count \<circ> snd) (swap_in plan h)"
    unfolding swap_in_def Let_def by (intro keeps_intros fst_keeps c(1))
  have swap: "count (snd w2) = count (snd w1)" if "swap_in plan h w1 = (r, w2)" for r w1 w2
    using keepsD [OF sk that] by simp
  have on_fst: "count (snd w2) = count (snd w1)" if "on_fst m w1 = (r, w2)" for m :: "(bin_dir, upgrade_error, 'a) eff" and r w1 w2
    using keepsD [OF fst_keeps that] by simp
  show ?thesis using assms(2) unfolding apply_upgrade_def revert_def notify_failure_def Let_def
    by (auto split: prod.splits sum.splits bool.splits option.splits dest!: swap c(2) on_fst simp: c(3))
qed

lemma demo_upgrade_counts: "counts_restarts id (demo_upgrade good)"
  by (auto simp: counts_restarts_def demo_upgrade_def keeps_def)

theorem at_most_two_restarts_witness:
  "snd (snd (apply_upgrade (demo_plan ''2.0'') (demo_upgrade ''1.0'') (demo_bins [], 0))) \<le> 2"
proof -
  obtain o' w' where run: "apply_upgrade (demo_plan ''2.0'') (demo_upgrade ''1.0'') (demo_bins [], 0) = (o', w')" by (rule prod.exhaust)
  from at_most_two_restarts [OF demo_upgrade_counts run] run show ?thesis by (cases o') auto
qed

text \<open>
  The limit of the guarantee: the id is not checked against the active binary. Installing a new build under
  the version that is active writes into the running binary's file, and when the disk is full the run is
  reported as aborted before the swap while the active binary has been truncated.
\<close>

theorem same_version_destroys_active:
  "\<exists>reason. apply_upgrade (demo_plan ''1.0'') (demo_upgrade ''1.0'') (demo_bins [None, None, None, Some ''No space left on device''], 0) =
     (AbortedBeforeSwap reason, demo_bins []\<lparr>bin_entries := [(''1.0'', BinFile [] 5 True), (''current'', BinLink ''1.0'')]\<rparr>, 0)"
proof -
  let ?w = "(demo_bins [None, None, None, Some ''No space left on device''], 0)"
  have "case fst (apply_upgrade (demo_plan ''1.0'') (demo_upgrade ''1.0'') ?w) of AbortedBeforeSwap _ \<Rightarrow> True | _ \<Rightarrow> False"
    and "snd (apply_upgrade (demo_plan ''1.0'') (demo_upgrade ''1.0'') ?w) =
      (demo_bins []\<lparr>bin_entries := [(''1.0'', BinFile [] 5 True), (''current'', BinLink ''1.0'')]\<rparr>, 0)"
    by code_simp+
  then show ?thesis by (cases "apply_upgrade (demo_plan ''1.0'') (demo_upgrade ''1.0'') ?w") (auto split: apply_outcome.splits)
qed

end
