(* ===== verification/Webhook_Sign.thy ===== *)
theory Webhook_Sign
  imports Rust_Strings Decimal
begin

text \<open>
  The signed-request scheme of the webhook (\<open>fraisier-webhook/src/sign.rs\<close>): an HMAC over
  \<open>"<timestamp>.<body>"\<close> with a replay window. The keyed hash and the hexadecimal codec are third-party
  code and a parameter; the window is computed on 64-bit words as the code computes it.
\<close>

section \<open>The scheme\<close>

definition timestamp_header :: string where
  "timestamp_header = ''x-fraisier-timestamp''"

definition signature_header :: string where
  "signature_header = ''x-fraisier-signature''"

datatype rejection = MissingTimestamp | BadTimestamp | Stale (skew: "64 word") | MissingSignature | BadSignatureFormat | Mismatch

text \<open>\<open>Display\<close> of a signed 64-bit integer.\<close>

definition show_i64 :: "64 word \<Rightarrow> string" where
  "show_i64 w = (if sint w < 0 then ''-'' @ show_nat (nat (- sint w)) else show_nat (nat (sint w)))"

fun show_rejection :: "rejection \<Rightarrow> string" where
  "show_rejection MissingTimestamp = ''missing '' @ timestamp_header @ '' header''"
| "show_rejection BadTimestamp = ''malformed '' @ timestamp_header @ '' header''"
| "show_rejection (Stale s) = ''timestamp outside the replay window (skew '' @ show_i64 s @ ''s)''"
| "show_rejection MissingSignature = ''missing '' @ signature_header @ '' header''"
| "show_rejection BadSignatureFormat = ''malformed '' @ signature_header @ '' (want sha256=<hex>)''"
| "show_rejection Mismatch = ''signature mismatch''"

text \<open>HMAC-SHA256 of a key and a message, and the \<open>hex\<close> crate.\<close>

record hook_crypto =
  hc_hmac :: "string \<Rightarrow> string \<Rightarrow> string"
  hc_encode :: "string \<Rightarrow> string"
  hc_decode :: "string \<Rightarrow> string option"

text \<open>The message authenticated: the timestamp as written, a dot, the body; three updates of one hash.\<close>

definition tag :: "hook_crypto \<Rightarrow> string \<Rightarrow> string \<Rightarrow> string \<Rightarrow> string" where
  "tag cr secret timestamp body = hc_hmac cr secret (timestamp @ ''.'' @ body)"

definition sign :: "hook_crypto \<Rightarrow> string \<Rightarrow> 64 word \<Rightarrow> string \<Rightarrow> string" where
  "sign cr secret timestamp body = ''sha256='' @ hc_encode cr (tag cr secret (show_nat (unat timestamp)) body)"

text \<open>\<open>i64::try_from(n).unwrap_or(i64::MAX)\<close>, and \<open>unsigned_abs\<close>, which has no overflow.\<close>

definition saturating_i64 :: "64 word \<Rightarrow> 64 word" where
  "saturating_i64 n = (if n \<le> 0x7FFFFFFFFFFFFFFF then n else 0x7FFFFFFFFFFFFFFF)"

definition unsigned_abs :: "64 word \<Rightarrow> 64 word" where
  "unsigned_abs w = (if sint w < 0 then - w else w)"

definition verify ::
  "hook_crypto \<Rightarrow> string \<Rightarrow> string \<Rightarrow> string option \<Rightarrow> string option \<Rightarrow> 64 word \<Rightarrow> 64 word \<Rightarrow> rejection + unit" where
  "verify cr secret body timestamp signature now tolerance_secs =
     (case timestamp of None \<Rightarrow> Inl MissingTimestamp
      | Some header \<Rightarrow>
          let timestamp = trim header in
          case parse_u64 timestamp of None \<Rightarrow> Inl BadTimestamp
          | Some parsed \<Rightarrow>
              let skew = saturating_i64 now - saturating_i64 parsed in
              if unsigned_abs skew > tolerance_secs then Inl (Stale skew)
              else case signature of None \<Rightarrow> Inl MissingSignature
                | Some header \<Rightarrow>
                    case strip_prefix ''sha256='' (trim header) of None \<Rightarrow> Inl BadSignatureFormat
                    | Some provided_hex \<Rightarrow>
                        case hc_decode cr provided_hex of None \<Rightarrow> Inl BadSignatureFormat
                        | Some provided \<Rightarrow>
                            if provided = tag cr secret timestamp body then Inr () else Inl Mismatch)"

section \<open>The window\<close>

text \<open>The distance in time the code tolerates, on unbounded integers: both clocks stop at the largest \<open>i64\<close>.\<close>

definition clock :: "64 word \<Rightarrow> int" where
  "clock n = min (uint n) (2 ^ 63 - 1)"

lemma clock_bounds: "0 \<le> clock n" "clock n < 2 ^ 63"
  by (auto simp: clock_def)

lemma sint_saturating: "sint (saturating_i64 n) = clock n" "uint (saturating_i64 n) = clock n"
proof -
  have bound: "uint (saturating_i64 n) = clock n"
    by (auto simp: saturating_i64_def clock_def word_le_def)
  with clock_bounds [of n] show "sint (saturating_i64 n) = clock n" "uint (saturating_i64 n) = clock n"
    by (simp_all add: sint_uint signed_take_bit_int_eq_self)
qed

text \<open>The subtraction of two clocks cannot overflow.\<close>

lemma sint_skew: "sint (saturating_i64 a - saturating_i64 b) = clock a - clock b"
proof -
  have "- (2 ^ 63) \<le> clock a - clock b" "clock a - clock b < 2 ^ 63"
    using clock_bounds [of a] clock_bounds [of b] by linarith+
  moreover have eq: "saturating_i64 a - saturating_i64 b = word_of_int (clock a - clock b)"
    by (simp flip: sint_saturating(2))
  ultimately show ?thesis unfolding eq by (simp add: signed_of_int signed_take_bit_int_eq_self del: of_int_diff)
qed

lemma uint_abs: "sint w \<noteq> - (2 ^ 63) \<Longrightarrow> uint (unsigned_abs w) = \<bar>sint w\<bar>"
proof -
  assume w: "sint w \<noteq> - (2 ^ 63)"
  have "- (2 ^ 63) \<le> sint w" "sint w < 2 ^ 63" using sint_greater_eq [of w] sint_less [of w] by simp_all
  with w have r: "0 \<le> \<bar>sint w\<bar>" "\<bar>sint w\<bar> < 2 ^ 64" by auto
  have "unsigned_abs w = word_of_int \<bar>sint w\<bar>" by (simp add: unsigned_abs_def)
  with r show ?thesis by (simp add: unsigned_of_int take_bit_int_eq_self)
qed

lemma window_exact:
  "unsigned_abs (saturating_i64 now - saturating_i64 n) \<le> tol \<longleftrightarrow> \<bar>clock now - clock n\<bar> \<le> uint tol"
proof -
  have "clock now - clock n \<noteq> - (2 ^ 63)" using clock_bounds [of now] clock_bounds [of n] by linarith
  then show ?thesis by (simp add: word_le_def uint_abs sint_skew)
qed

section \<open>What a signature certifies\<close>

text \<open>
  A request is accepted exactly when its timestamp is a number within the window of the server's clock and
  its signature is the hash of the timestamp as written, a dot and the body.
\<close>

definition certified :: "hook_crypto \<Rightarrow> string \<Rightarrow> string \<Rightarrow> string option \<Rightarrow> string option \<Rightarrow> 64 word \<Rightarrow> 64 word \<Rightarrow> bool" where
  "certified cr secret body timestamp signature now tol \<longleftrightarrow>
     (\<exists>t n g. timestamp = Some t \<and> parse_u64 (trim t) = Some n \<and> \<bar>clock now - clock n\<bar> \<le> uint tol \<and>
        signature = Some g \<and> (\<exists>x. strip_prefix ''sha256='' (trim g) = Some x \<and> hc_decode cr x = Some (tag cr secret (trim t) body)))"

lemma verify_certified:
  "verify cr secret body timestamp signature now tol = Inr () \<longleftrightarrow> certified cr secret body timestamp signature now tol"
proof -
  have "\<not> unsigned_abs (saturating_i64 now - saturating_i64 n) > tol \<longleftrightarrow> \<bar>clock now - clock n\<bar> \<le> uint tol" for n
    by (simp add: window_exact linorder_not_less)
  then show ?thesis
    by (auto simp: verify_def certified_def Let_def split: option.splits)
qed

text \<open>What the code relies on of the \<open>hex\<close> crate: what it prints is visible ASCII and reads back.\<close>

definition hex_codec :: "hook_crypto \<Rightarrow> bool" where
  "hex_codec cr \<longleftrightarrow> (\<forall>b. hc_decode cr (hc_encode cr b) = Some b \<and> list_all graphic (hc_encode cr b))"

lemma trim_sign: "hex_codec cr \<Longrightarrow> trim (sign cr secret n body) = sign cr secret n body"
  by (rule trim_graphic) (simp add: sign_def hex_codec_def graphic_def)

lemma digit_graphic: "list_all is_digit s \<Longrightarrow> list_all graphic s"
  by (auto simp: list_all_iff is_digit_def graphic_def Let_def)

lemma trim_show_nat: "trim (show_nat n) = show_nat n"
  using show_nat_dec by (blast intro: trim_graphic digit_graphic)

lemma sign_certified:
  assumes "hex_codec cr"
  shows "certified cr secret body (Some (show_nat (unat n))) (Some (sign cr secret n body)) now tol \<longleftrightarrow> \<bar>clock now - clock n\<bar> \<le> uint tol"
proof -
  have "strip_prefix ''sha256='' (trim (sign cr secret n body)) = Some (hc_encode cr (tag cr secret (show_nat (unat n)) body))"
    unfolding trim_sign [OF assms] unfolding sign_def by (rule strip_simps)
  with assms show ?thesis by (simp add: certified_def trim_show_nat hex_codec_def)
qed

lemma dot_free: "parse_u64 s = Some n \<Longrightarrow> CHR ''.'' \<notin> set s"
  by (drule parse_u64_chars) (fastforce simp: list_all_iff is_digit_def Let_def)

lemma dot_split:
  assumes "a @ CHR ''.'' # b = c @ CHR ''.'' # d" and "CHR ''.'' \<notin> set a" and "CHR ''.'' \<notin> set c"
  shows "a = c \<and> b = d"
  using assms by (induction a arbitrary: c) (auto simp: Cons_eq_append_conv append_eq_Cons_conv)

text \<open>
  C20: the request scheme. What \<open>sign\<close> produces for the current time is accepted, and so it is as long as the
  two clocks differ by at most the tolerance, and never outside it: the 64-bit arithmetic of the skew is exact
  up to the saturation of both clocks. And a signature binds the request: one signature accepted with two
  timestamps or two bodies under the same secret is a collision of the keyed hash, whatever white space the
  headers carry.
\<close>

theorem signature_binds_request:
  assumes "hex_codec cr"
  shows "(verify cr secret body (Some (show_nat (unat n))) (Some (sign cr secret n body)) now tol = Inr () \<longleftrightarrow>
      \<bar>clock now - clock n\<bar> \<le> uint tol) \<and>
    (verify cr secret body1 (Some t1) (Some g) now1 tol = Inr () \<and> verify cr secret body2 (Some t2) (Some g) now2 tol = Inr () \<longrightarrow>
      trim t1 = trim t2 \<and> body1 = body2 \<or>
      (\<exists>m1 m2. m1 \<noteq> m2 \<and> hc_hmac cr secret m1 = hc_hmac cr secret m2))"
proof (intro conjI impI)
  show "verify cr secret body (Some (show_nat (unat n))) (Some (sign cr secret n body)) now tol = Inr () \<longleftrightarrow>
      \<bar>clock now - clock n\<bar> \<le> uint tol"
    by (simp only: verify_certified sign_certified [OF assms])
next
  assume "verify cr secret body1 (Some t1) (Some g) now1 tol = Inr () \<and> verify cr secret body2 (Some t2) (Some g) now2 tol = Inr ()"
  then obtain n1 n2 where n: "parse_u64 (trim t1) = Some n1" "parse_u64 (trim t2) = Some n2"
    and eq: "tag cr secret (trim t1) body1 = tag cr secret (trim t2) body2"
    by (auto simp: verify_certified certified_def)
  show "trim t1 = trim t2 \<and> body1 = body2 \<or> (\<exists>m1 m2. m1 \<noteq> m2 \<and> hc_hmac cr secret m1 = hc_hmac cr secret m2)"
  proof (cases "trim t1 @ ''.'' @ body1 = trim t2 @ ''.'' @ body2")
    case True
    then show ?thesis using dot_split [OF _ dot_free [OF n(1)] dot_free [OF n(2)]] by simp
  next
    case False
    with eq show ?thesis unfolding tag_def by blast
  qed
qed

text \<open>A concrete codec: a byte as its eight bits.\<close>

definition demo_bit :: "bool \<Rightarrow> char" where
  "demo_bit b = (if b then CHR ''1'' else CHR ''0'')"

fun demo_decode :: "string \<Rightarrow> string option" where
  "demo_decode [] = Some []"
| "demo_decode (a # b # c # d # e # f # g # h # s) =
     map_option ((#) (Char (a = CHR ''1'') (b = CHR ''1'') (c = CHR ''1'') (d = CHR ''1'') (e = CHR ''1'') (f = CHR ''1'') (g = CHR ''1'') (h = CHR ''1'')))
       (demo_decode s)"
| "demo_decode s = None"

definition demo_encode :: "string \<Rightarrow> string" where
  "demo_encode s = concat (map (\<lambda>c. case c of Char a b d e f g h i \<Rightarrow> map demo_bit [a, b, d, e, f, g, h, i]) s)"

definition demo_crypto :: hook_crypto where
  "demo_crypto = \<lparr>hc_hmac = (\<lambda>k m. k @ take 2 m), hc_encode = demo_encode, hc_decode = demo_decode\<rparr>"

lemma demo_hex: "hex_codec demo_crypto"
proof -
  have bit: "(demo_bit x = CHR ''1'') = x" "graphic (demo_bit x)" for x by (simp_all add: demo_bit_def graphic_def)
  have "demo_decode (demo_encode s) = Some s \<and> list_all graphic (demo_encode s)" for s
  proof (induction s)
    case (Cons c s)
    then show ?case by (cases c) (simp add: demo_encode_def bit)
  qed (simp add: demo_encode_def)
  then show ?thesis by (simp add: hex_codec_def demo_crypto_def)
qed

theorem signature_binds_request_witness:
  "hex_codec demo_crypto \<and>
   verify demo_crypto ''key'' ''body'' (Some (show_nat (unat (100 :: 64 word)))) (Some (sign demo_crypto ''key'' 100 ''body'')) 130 60 = Inr () \<and>
   verify demo_crypto ''key'' ''body'' (Some (show_nat (unat (100 :: 64 word)))) (Some (sign demo_crypto ''key'' 100 ''body'')) 30 60 \<noteq> Inr ()"
  using demo_hex signature_binds_request [OF demo_hex, of "''key''" "''body''" 100 130 60]
    signature_binds_request [OF demo_hex, of "''key''" "''body''" 100 30 60]
  by (simp add: clock_def)

end
