(* ===== verification/Webhook.thy ===== *)
theory Webhook
  imports Webhook_Sign Files
begin

text \<open>
  The webhook receiver (\<open>fraisier-webhook/src/server.rs\<close>) and the drain before a restart (\<open>drain.rs\<close>). A
  connection is the sequence of reads its peer makes possible and the bytes written back; the world is the
  state directory, which holds the drain flag, beside whatever the deploy handler acts on.
\<close>

section \<open>Reading\<close>

text \<open>
  What the socket yields: bytes, an error, or nothing before the deadline; after the sequence the peer has
  closed. One read takes at most the 1024 bytes of the buffer.
\<close>

datatype read_event = Data string | ReadError string | Stall

datatype read_error = Expired | Malformed string

fun read_chunk :: "(read_event list, read_error, string) eff" where
  "read_chunk [] = (Inr [], [])"
| "read_chunk (Data d # evs) =
     (if int (length d) \<le> 1024 then (Inr d, evs) else (Inr (take 1024 d), Data (drop 1024 d) # evs))"
| "read_chunk (ReadError e # evs) = (Inl (Malformed (''read error: '' @ e)), evs)"
| "read_chunk (Stall # evs) = (Inl Expired, evs)"

definition max_header_bytes :: int where
  "max_header_bytes = 16 * 1024"

definition crlf :: string where
  "crlf = [CHR 0x0D, CHR 0x0A]"

definition blank_line :: string where
  "blank_line = crlf @ crlf"

definition find_bytes :: "string \<Rightarrow> string \<Rightarrow> nat option" where
  "find_bytes haystack needle = find_str needle haystack"

fun event_weight :: "read_event \<Rightarrow> nat" where
  "event_weight (Data d) = Suc (length d)"
| "event_weight _ = 1"

definition weight :: "read_event list \<Rightarrow> nat" where
  "weight evs = sum_list (map event_weight evs)"

lemma read_chunk_less: "read_chunk evs = (Inr c, evs') \<Longrightarrow> c \<noteq> [] \<Longrightarrow> weight evs' < weight evs"
  by (cases evs rule: read_chunk.cases) (auto simp: weight_def split: if_splits)

function read_head :: "string \<Rightarrow> (read_event list, read_error, nat \<times> string) eff" where
  "read_head buf evs =
     (case find_bytes buf blank_line of
        Some pos \<Rightarrow> (Inr (pos, buf), evs)
      | None \<Rightarrow>
          if max_header_bytes < int (length buf) then (Inl (Malformed ''request headers too large''), evs)
          else (case read_chunk evs of
              (Inl e, evs') \<Rightarrow> (Inl e, evs')
            | (Inr chunk, evs') \<Rightarrow>
                if chunk = [] then (Inl (Malformed ''connection closed before the headers completed''), evs')
                else read_head (buf @ chunk) evs'))"
  by pat_completeness auto
termination
  by (relation "measure (weight \<circ> snd)") (simp_all add: read_chunk_less [OF sym])

declare read_head.simps [simp del]

function read_body :: "nat \<Rightarrow> string \<Rightarrow> (read_event list, read_error, string) eff" where
  "read_body content_length body evs =
     (if content_length \<le> length body then (Inr (take content_length body), evs)
      else (case read_chunk evs of
          (Inl e, evs') \<Rightarrow> (Inl e, evs')
        | (Inr chunk, evs') \<Rightarrow>
            if chunk = [] then (Inr (take content_length body), evs')
            else read_body content_length (body @ take (min (content_length - length body) (length chunk)) chunk) evs'))"
  by pat_completeness auto
termination
  by (relation "measure (weight \<circ> snd \<circ> snd)") (simp_all add: read_chunk_less [OF sym])

declare read_body.simps [simp del]

section \<open>The request\<close>

record request =
  rq_method :: string
  rq_path :: string
  rq_headers :: "(string \<times> string) list"
  rq_body :: string

definition header_line :: "string \<Rightarrow> (string \<times> string) option" where
  "header_line line = map_option (\<lambda>(key, value). (map ascii_lower (trim key), trim value)) (split_once (CHR '':'') line)"

definition parse_head :: "string \<Rightarrow> string + string \<times> string \<times> (string \<times> string) list" where
  "parse_head head =
     (if \<not> utf8_valid head then Inl ''non-UTF-8 headers''
      else case split_str crlf head of
          [] \<Rightarrow> Inl ''empty request''
        | request_line # rest \<Rightarrow>
            (case split_whitespace request_line of
               [] \<Rightarrow> Inl ''missing request method''
             | method # parts \<Rightarrow>
                 Inr (method, (case parts of path # _ \<Rightarrow> path | [] \<Rightarrow> ''/''), List.map_filter header_line rest)))"

definition content_length :: "(string \<times> string) list \<Rightarrow> 64 word" where
  "content_length headers =
     (case find (\<lambda>(key, _). key = ''content-length'') headers of
        Some (_, value) \<Rightarrow> (case parse_u64 value of Some n \<Rightarrow> n | None \<Rightarrow> 0)
      | None \<Rightarrow> 0)"

definition read_request :: "64 word \<Rightarrow> (read_event list, read_error, request) eff" where
  "read_request max_body =
     and_then (read_head []) (\<lambda>(header_end, buf).
     and_then (map_err Malformed (from_result (parse_head (take header_end buf)))) (\<lambda>(method, path, headers).
     let n = content_length headers in
     if n > max_body
     then fail (Malformed (''request body too large ('' @ show_nat (unat n) @ '' > '' @ show_nat (unat max_body) @ '' bytes)''))
     else map_ok (\<lambda>body. \<lparr>rq_method = method, rq_path = path, rq_headers = headers, rq_body = body\<rparr>)
       (read_body (unat n) (drop (header_end + 4) buf))))"

definition header :: "request \<Rightarrow> string \<Rightarrow> string option" where
  "header request name = map_option snd (find (\<lambda>(key, _). eq_ignore_ascii_case key name) (rq_headers request))"

section \<open>Answering\<close>

text \<open>A write may fail after some of its bytes; \<open>None\<close> in the plan is a write that succeeds.\<close>

record conn =
  cn_in :: "read_event list"
  cn_out :: string
  cn_faults :: "(nat \<times> string) option list"

definition write_all :: "string \<Rightarrow> (conn, string, unit) eff" where
  "write_all bytes c =
     (case cn_faults c of
        Some (n, e) # plan \<Rightarrow> (Inl e, c\<lparr>cn_out := cn_out c @ take n bytes, cn_faults := plan\<rparr>)
      | None # plan \<Rightarrow> (Inr (), c\<lparr>cn_out := cn_out c @ bytes, cn_faults := plan\<rparr>)
      | [] \<Rightarrow> (Inr (), c\<lparr>cn_out := cn_out c @ bytes\<rparr>))"

definition respond :: "nat \<Rightarrow> string \<Rightarrow> string \<Rightarrow> (conn, string, unit) eff" where
  "respond code reason body =
     (let payload = body @ [newline];
          head = ''HTTP/1.1 '' @ show_nat code @ '' '' @ reason @ crlf @ ''Content-Type: text/plain'' @ crlf @
            ''Content-Length: '' @ show_nat (length payload) @ crlf @ ''Connection: close'' @ blank_line
      in and_then (write_all head) (\<lambda>_. and_then (write_all payload) (\<lambda>_. write_all [])))"

record drain_state =
  dn_flag_path :: "string option"
  dn_retry_after_s :: "64 word"
  dn_refused :: "string list"

text \<open>\<open>Drain::is_draining\<close>; \<open>Path::exists\<close> is false when the call fails.\<close>

definition is_draining :: "drain_state \<Rightarrow> (dir \<times> 'x, 'e, bool) eff" where
  "is_draining d = (case dn_flag_path d of None \<Rightarrow> ok False | Some p \<Rightarrow> on_fst (fs_exists p))"

definition refusal_body :: "drain_state \<Rightarrow> string" where
  "refusal_body d =
     ''{'' @ [dquote] @ ''status'' @ [dquote] @ '':'' @ [dquote] @ ''draining'' @ [dquote] @ '','' @ [dquote] @ ''retry_after_s'' @ [dquote] @
     '':'' @ show_nat (unat (dn_retry_after_s d)) @ '','' @ [dquote] @ ''refused'' @ [dquote] @ '':['' @
     join '','' (map debug_str (dn_refused d)) @ '']}''"

definition respond_draining :: "drain_state \<Rightarrow> (conn, string, unit) eff" where
  "respond_draining d =
     (let payload = refusal_body d @ [newline];
          head = ''HTTP/1.1 503 Service Unavailable'' @ crlf @ ''Content-Type: application/json'' @ crlf @
            ''Retry-After: '' @ show_nat (unat (dn_retry_after_s d)) @ crlf @
            ''Content-Length: '' @ show_nat (length payload) @ crlf @ ''Connection: close'' @ blank_line
      in and_then (write_all head) (\<lambda>_. and_then (write_all payload) (\<lambda>_. write_all [])))"

section \<open>Serving\<close>

record server_config =
  sv_secret :: string
  sv_tolerance_secs :: "64 word"
  sv_max_body_bytes :: "64 word"
  sv_drain :: drain_state

datatype served = ServedOk | Health | Rejected rejection | BadRequest string | HandlerError string | Draining

text \<open>The deploy a verified body triggers; it may act on the state directory and on the rest of the world.\<close>

type_synonym 'x handler = "string \<Rightarrow> (dir \<times> 'x, string, string) eff"

definition serve_connection ::
  "hook_crypto \<Rightarrow> server_config \<Rightarrow> 'x handler \<Rightarrow> 64 word \<Rightarrow> conn \<times> dir \<times> 'x \<Rightarrow> served \<times> conn \<times> dir \<times> 'x" where
  "serve_connection cr config handle now = (\<lambda>(c0, w).
     case read_request (sv_max_body_bytes config) (cn_in c0) of
       (Inl error, evs) \<Rightarrow>
         (case error of
            Malformed message \<Rightarrow> (BadRequest message, snd (respond 400 ''Bad Request'' message (c0\<lparr>cn_in := evs\<rparr>)), w)
          | Expired \<Rightarrow>
              let message = ''request read timed out''
              in (BadRequest message, snd (respond 408 ''Request Timeout'' message (c0\<lparr>cn_in := evs\<rparr>)), w))
     | (Inr request, evs) \<Rightarrow>
         let c = c0\<lparr>cn_in := evs\<rparr> in
         if eq_ignore_ascii_case (rq_method request) ''GET'' \<and> rq_path request = ''/healthz''
         then (Health, snd (respond 200 ''OK'' ''ok'' c), w)
         else if \<not> eq_ignore_ascii_case (rq_method request) ''POST''
         then (BadRequest (''method '' @ rq_method request @ '' not allowed''), snd (respond 405 ''Method Not Allowed'' ''POST required'' c), w)
         else
           (case verify cr (sv_secret config) (rq_body request) (header request timestamp_header) (header request signature_header)
               now (sv_tolerance_secs config) of
              Inl rejection \<Rightarrow> (Rejected rejection, snd (respond 401 ''Unauthorized'' (show_rejection rejection) c), w)
            | Inr _ \<Rightarrow>
                (case is_draining (sv_drain config) w of
                   (draining, w1) \<Rightarrow>
                     if draining = (Inr True :: unit + bool) then (Draining, snd (respond_draining (sv_drain config) c), w1)
                     else
                       (case handle (rq_body request) w1 of
                          (Inr note, w2) \<Rightarrow> (ServedOk, snd (respond 200 ''OK'' note c), w2)
                        | (Inl message, w2) \<Rightarrow> (HandlerError message, snd (respond 500 ''Internal Server Error'' message c), w2)))))"

text \<open>Where the socket comes from: an inherited one that can be adopted, else one bound to the address.\<close>

datatype listen_source = SocketActivated | Bound string

fun show_listen_source :: "listen_source \<Rightarrow> string" where
  "show_listen_source SocketActivated = ''socket activation (systemd)''"
| "show_listen_source (Bound addr) = addr"

record ('l, 'w) sockets =
  so_inherited :: "'l option"
  so_adopt :: "'l \<Rightarrow> ('w, string, 'l) eff"
  so_bind :: "string \<Rightarrow> ('w, string, 'l) eff"

definition acquire :: "('l, 'w) sockets \<Rightarrow> string \<Rightarrow> ('w, string, 'l \<times> listen_source) eff" where
  "acquire so addr =
     (case so_inherited so of
        Some listener \<Rightarrow> map_ok (\<lambda>l. (l, SocketActivated)) (so_adopt so listener)
      | None \<Rightarrow> map_ok (\<lambda>l. (l, Bound addr)) (so_bind so addr))"

text \<open>The accept loop: the events in the order the \<open>select!\<close> takes them; \<open>None\<close> while the loop waits.\<close>

datatype accept_event = Accepted conn "64 word" | AcceptFailed string | Sigterm

fun serve :: "hook_crypto \<Rightarrow> server_config \<Rightarrow> 'x handler \<Rightarrow> accept_event list \<Rightarrow> dir \<times> 'x \<Rightarrow> (string + unit) option \<times> dir \<times> 'x" where
  "serve cr config handle [] w = (None, w)"
| "serve cr config handle (Accepted c now # evs) w =
     serve cr config handle evs (snd (snd (serve_connection cr config handle now (c, w))))"
| "serve cr config handle (AcceptFailed e # evs) w = (Some (Inl e), w)"
| "serve cr config handle (Sigterm # evs) w = (Some (Inr ()), w)"

section \<open>Draining before a restart\<close>

record drain_tuning =
  dt_timeout :: nat
  dt_poll :: nat
  dt_settle :: nat

text \<open>\<open>DrainTuning::default\<close>, in seconds.\<close>

definition drain_tuning_default :: drain_tuning where
  "drain_tuning_default = \<lparr>dt_timeout = 10 * 60, dt_poll = 1, dt_settle = 2\<rparr>"

datatype drain_outcome = Drained | TimedOut (held: "string list")

text \<open>
  What the coordinator uses of its surroundings: the probe for held locks, the clock, and sleeping, during
  which the server and its deploys go on.
\<close>

record 'x drain_host =
  dh_in_flight :: "dir \<times> 'x \<Rightarrow> string list \<times> dir \<times> 'x"
  dh_time :: "dir \<times> 'x \<Rightarrow> nat"
  dh_sleep :: "nat \<Rightarrow> dir \<times> 'x \<Rightarrow> dir \<times> 'x"

definition remove_flag :: "string \<Rightarrow> dir \<times> 'x \<Rightarrow> dir \<times> 'x" where
  "remove_flag flag w = snd (on_fst (syscall (\<lambda>s. ((), del_file flag s))) w)"

partial_function (option) drain_poll ::
  "'x drain_host \<Rightarrow> string \<Rightarrow> drain_tuning \<Rightarrow> nat \<Rightarrow> dir \<times> 'x \<Rightarrow> (drain_outcome \<times> dir \<times> 'x) option" where
  "drain_poll h flag tuning start w =
     (case dh_in_flight h w of
        (locks, w1) \<Rightarrow>
          if locks = [] then Some (Drained, w1)
          else if dt_timeout tuning \<le> dh_time h w1 - start then Some (TimedOut locks, remove_flag flag w1)
          else drain_poll h flag tuning start (dh_sleep h (dt_poll tuning) w1))"

definition drain_in_flight ::
  "'x drain_host \<Rightarrow> string \<Rightarrow> drain_tuning \<Rightarrow> dir \<times> 'x \<Rightarrow> ((string + drain_outcome) \<times> dir \<times> 'x) option" where
  "drain_in_flight h flag tuning w =
     (case on_fst (fs_write flag (''draining'' @ [newline])) w of
        (Inl e, w1) \<Rightarrow> Some (Inl e, w1)
      | (Inr _, w1) \<Rightarrow>
          let w2 = dh_sleep h (dt_settle tuning) w1
          in map_option (\<lambda>(o', w'). (Inr o', w')) (drain_poll h flag tuning (dh_time h w2) w2))"

section \<open>Any segmentation reads the same\<close>

text \<open>The reference: the request in the whole byte sequence.\<close>

definition parse_bytes :: "64 word \<Rightarrow> string \<Rightarrow> read_error + request" where
  "parse_bytes max_body bytes =
     (case find_bytes bytes blank_line of
        None \<Rightarrow> Inl (Malformed ''connection closed before the headers completed'')
      | Some p \<Rightarrow>
          (case parse_head (take p bytes) of
             Inl m \<Rightarrow> Inl (Malformed m)
           | Inr (method, path, headers) \<Rightarrow>
               let n = content_length headers in
               if n > max_body
               then Inl (Malformed (''request body too large ('' @ show_nat (unat n) @ '' > '' @ show_nat (unat max_body) @ '' bytes)''))
               else Inr \<lparr>rq_method = method, rq_path = path, rq_headers = headers, rq_body = take (unat n) (drop (p + 4) bytes)\<rparr>))"

fun event_bytes :: "read_event \<Rightarrow> string" where
  "event_bytes (Data d) = d"
| "event_bytes _ = []"

definition bytes_of :: "read_event list \<Rightarrow> string" where
  "bytes_of evs = concat (map event_bytes evs)"

definition data_only :: "read_event list \<Rightarrow> bool" where
  "data_only evs = list_all (\<lambda>e. event_bytes e \<noteq> []) evs"

lemma find_suffix_iff:
  "find_suffix P xs = Some i \<longleftrightarrow> i \<le> length xs \<and> P (drop i xs) \<and> (\<forall>j < i. \<not> P (drop j xs))"
proof
  assume "find_suffix P xs = Some i"
  then show "i \<le> length xs \<and> P (drop i xs) \<and> (\<forall>j < i. \<not> P (drop j xs))"
    using find_suffix_less find_suffix_first by blast
next
  assume i: "i \<le> length xs \<and> P (drop i xs) \<and> (\<forall>j < i. \<not> P (drop j xs))"
  have "\<not> P (drop k (take i xs) @ drop i xs)" if "k < length (take i xs)" for k
  proof -
    have "drop k (take i xs) @ drop i xs = drop k xs" using that i
      by (metis append_take_drop_id drop_append diff_is_0_eq less_imp_le_nat drop_0)
    with i that show ?thesis by auto
  qed
  then have "find_suffix P (take i xs @ drop i xs) = Some (length (take i xs))" using i by (intro find_suffix_append) auto
  with i show "find_suffix P xs = Some i" by simp
qed

lemma prefix_take: "prefix p s \<longleftrightarrow> take (length p) s = p"
  by (metis append_eq_conv_conj prefix_def take_is_prefix)

lemma find_bytes_append:
  assumes "find_bytes a pat = Some i"
  shows "find_bytes (a @ b) pat = Some i"
proof -
  have bound: "i + length pat \<le> length a" using assms find_str_bound unfolding find_bytes_def by blast
  have "\<not> prefix pat (drop j (a @ b))" if j: "j < i" for j
  proof
    assume "prefix pat (drop j (a @ b))"
    then have "take (length pat) (drop j a) = pat" using j bound by (simp add: prefix_take)
    then have "prefix pat (drop j a)" by (simp add: prefix_take)
    with assms j show False by (auto simp: find_bytes_def find_str_def find_suffix_iff)
  qed
  with assms show ?thesis by (auto simp: find_bytes_def find_str_def find_suffix_iff)
qed

lemma read_chunk_data:
  assumes "data_only evs" and "bytes_of evs \<noteq> []"
  obtains c evs' where "read_chunk evs = (Inr c, evs')" "c \<noteq> []" "data_only evs'" "bytes_of evs = c @ bytes_of evs'"
proof -
  from assms obtain d rest where evs: "evs = Data d # rest" "d \<noteq> []" "data_only rest"
    by (cases evs rule: read_chunk.cases) (auto simp: data_only_def bytes_of_def)
  show ?thesis
  proof (cases "int (length d) \<le> 1024")
    case True
    with evs that show ?thesis by (auto simp: bytes_of_def)
  next
    case False
    then have "take 1024 d \<noteq> []" "drop 1024 d \<noteq> []" by auto
    with False evs that [of "take 1024 d" "Data (drop 1024 d) # rest"] show ?thesis
      by (simp add: bytes_of_def data_only_def)
  qed
qed

lemma no_data: "data_only evs \<Longrightarrow> bytes_of evs = [] \<Longrightarrow> evs = []"
  by (cases evs) (auto simp: data_only_def bytes_of_def)

lemma read_head_bytes:
  assumes "data_only evs" and "find_bytes (buf @ bytes_of evs) blank_line = Some p" and "int (p + 4) \<le> max_header_bytes + 1"
  shows "\<exists>buf' evs'. read_head buf evs = (Inr (p, buf'), evs') \<and> data_only evs' \<and>
    buf' @ bytes_of evs' = buf @ bytes_of evs \<and> p + 4 \<le> length buf'"
  using assms
proof (induction buf evs rule: read_head.induct)
  case (1 buf evs)
  have four: "length blank_line = 4" by (simp add: blank_line_def crlf_def)
  show ?case
  proof (cases "find_bytes buf blank_line")
    case (Some q)
    from find_bytes_append [OF this] 1(3) have "q = p" by simp
    with Some 1(2) find_str_bound [of blank_line buf q] show ?thesis
      by (subst read_head.simps) (auto simp: find_bytes_def four)
  next
    case None
    have "length buf < p + 4"
    proof (rule ccontr)
      assume "\<not> length buf < p + 4"
      moreover have "prefix blank_line (drop p (buf @ bytes_of evs))" using 1(3) by (simp add: find_bytes_def find_str_def find_suffix_iff)
      ultimately have "prefix blank_line (drop p buf)" by (simp add: prefix_take four)
      then have "contains blank_line buf" unfolding contains_def find_str_def find_suffix_None
        using \<open>\<not> length buf < p + 4\<close> by (metis add_leD1 linorder_not_less option.discI)
      with None show False by (simp add: contains_def find_bytes_def)
    qed
    then have small: "\<not> max_header_bytes < int (length buf)" using 1(4) by linarith
    have "bytes_of evs \<noteq> []" using None 1(3) by auto
    then obtain c evs' where c: "read_chunk evs = (Inr c, evs')" "c \<noteq> []" "data_only evs'" "bytes_of evs = c @ bytes_of evs'"
      using read_chunk_data [OF 1(2)] by blast
    have "read_head buf evs = read_head (buf @ c) evs'" using None small c by (subst read_head.simps) simp
    with 1(1) [OF None small c(1) [symmetric] refl c(2,3)] 1(3,4) c(4) show ?thesis by simp
  qed
qed

lemma read_body_bytes:
  assumes "data_only evs"
  shows "fst (read_body n body evs) = Inr (take n (body @ bytes_of evs))"
  using assms
proof (induction n body evs rule: read_body.induct)
  case (1 n body evs)
  show ?case
  proof (cases "n \<le> length body")
    case True
    then show ?thesis by (subst read_body.simps) simp
  next
    case False
    show ?thesis
    proof (cases "bytes_of evs = []")
      case True
      with False no_data [OF 1(2) True] show ?thesis by (subst read_body.simps) simp
    next
      case nonempty: False
      then obtain c evs' where c: "read_chunk evs = (Inr c, evs')" "c \<noteq> []" "data_only evs'" "bytes_of evs = c @ bytes_of evs'"
        using read_chunk_data [OF 1(2)] by blast
      let ?k = "min (n - length body) (length c)"
      have "read_body n body evs = read_body n (body @ take ?k c) evs'" using False c by (subst read_body.simps) simp
      moreover have "take n ((body @ take ?k c) @ bytes_of evs') = take n (body @ bytes_of evs)"
        using False c(4) by (cases "n - length body \<le> length c") (simp_all add: min_def)
      ultimately show ?thesis using 1(1) [OF False c(1) [symmetric] refl c(2,3)] by simp
    qed
  qed
qed

lemma read_request_bytes:
  assumes evs: "data_only evs" and find: "find_bytes (bytes_of evs) blank_line = Some p" and small: "int (p + 4) \<le> max_header_bytes + 1"
  shows "fst (read_request max_body evs) = parse_bytes max_body (bytes_of evs)"
proof -
  from read_head_bytes [of evs "[]" p] assms obtain buf evs' where head: "read_head [] evs = (Inr (p, buf), evs')"
    and evs': "data_only evs'" and buf: "buf @ bytes_of evs' = bytes_of evs" "p + 4 \<le> length buf" by auto
  have t: "take p (bytes_of evs) = take p buf" "drop (p + 4) (bytes_of evs) = drop (p + 4) buf @ bytes_of evs'"
    using buf(2) by (simp_all flip: buf(1))
  have "fst (read_body n (drop (p + 4) buf) evs') = Inr (take n (drop (p + 4) (bytes_of evs)))" for n
    unfolding read_body_bytes [OF evs'] t(2) ..
  moreover define e where "e n = snd (read_body n (drop (p + 4) buf) evs')" for n
  ultimately have body: "read_body n (drop (p + 4) buf) evs' = (Inr (take n (drop (p + 4) (bytes_of evs))), e n)" for n
    by (simp add: prod_eq_iff)
  show ?thesis
    by (simp add: read_request_def parse_bytes_def find head and_then_def map_err_def map_ok_def Let_def body t(1) split: sum.split)
qed

section \<open>Only authentic requests reach the handler\<close>

lemma is_draining_peek:
  "\<exists>b w1. is_draining d w = (Inr b :: 'e + bool, w1) \<and> contents (fst w1) = contents (fst w) \<and> snd w1 = snd w"
proof (cases "dn_flag_path d")
  case None
  then show ?thesis by (intro exI [of _ False]) (simp add: is_draining_def)
next
  case (Some p)
  obtain b s' where "fs_exists p (fst w) = (Inr b :: 'e + bool, s')" "contents s' = contents (fst w)" using fs_exists_peek by blast
  with Some show ?thesis by (cases w) (auto simp: is_draining_def)
qed

lemma read_body_length: "read_body n body evs = (Inr body', evs') \<Longrightarrow> length body' \<le> n"
proof (induction n body evs rule: read_body.induct)
  case (1 n body evs)
  from 1(2) show ?case
    by (subst (asm) read_body.simps) (auto split: if_splits prod.splits sum.splits dest: 1(1))
qed

lemma read_request_bounded:
  assumes "read_request max_body evs = (Inr request, evs')"
  shows "length (rq_body request) \<le> unat (content_length (rq_headers request))" and "content_length (rq_headers request) \<le> max_body"
  using assms by (auto simp: read_request_def and_then_eq_Inr map_ok_eq_Inr Let_def dest: read_body_length split: if_splits)

text \<open>
  C18: what a connection can do. Whatever bytes arrive in whatever pieces, and whatever fails, a connection
  either leaves the world alone (the server has at most looked for the drain flag), or the handler has run,
  exactly once, on the body of a POST request that carries a signature of that body and a timestamp
  within the tolerance, made with the server's secret, while no drain flag was seen; the outcome reports
  whether the handler succeeded. The body is what was received: at most the declared length, which is at most the limit, and less of it
  when the peer closed early, which the server takes as the end of the body.
\<close>

theorem only_authentic_requests_deploy:
  assumes "serve_connection cr config handle now (c, w) = (s, c', w')"
  shows "(contents (fst w') = contents (fst w) \<and> snd w' = snd w \<and> s \<noteq> ServedOk \<and> (\<forall>m. s \<noteq> HandlerError m)) \<or>
    (\<exists>request evs w1 r. read_request (sv_max_body_bytes config) (cn_in c) = (Inr request, evs) \<and>
       length (rq_body request) \<le> unat (content_length (rq_headers request)) \<and> content_length (rq_headers request) \<le> sv_max_body_bytes config \<and>
       eq_ignore_ascii_case (rq_method request) ''POST'' \<and>
       certified cr (sv_secret config) (rq_body request) (header request timestamp_header) (header request signature_header)
         now (sv_tolerance_secs config) \<and>
       is_draining (sv_drain config) w = (Inr False :: unit + bool, w1) \<and> contents (fst w1) = contents (fst w) \<and> snd w1 = snd w \<and>
       handle (rq_body request) w1 = (r, w') \<and> s = (case r of Inr _ \<Rightarrow> ServedOk | Inl m \<Rightarrow> HandlerError m))"
proof -
  obtain r evs where read: "read_request (sv_max_body_bytes config) (cn_in c) = (r, evs)" by fastforce
  obtain b w1 where dr: "is_draining (sv_drain config) w = (Inr b :: unit + bool, w1)"
    and w1: "contents (fst w1) = contents (fst w)" "snd w1 = snd w"
    using is_draining_peek by blast
  show ?thesis
  proof (cases r)
    case (Inl e)
    with assms read show ?thesis by (auto simp: serve_connection_def Let_def split: read_error.splits)
  next
    case (Inr request)
    obtain r2 w2 where h: "handle (rq_body request) w1 = (r2, w2)" by (rule prod.exhaust)
    show ?thesis
      using assms Inr read dr w1 h read_request_bounded [OF read [unfolded Inr]]
      by (auto simp: serve_connection_def Let_def verify_certified split: if_splits sum.splits unit.splits)
  qed
qed

text \<open>
  C36: how a request is cut into segments does not matter. When the headers end within the limit, reading
  any sequence of non-empty segments gives the request that stands in the concatenated bytes, so two
  connections that carry the same bytes are served alike and act alike.
\<close>

theorem segmentation_irrelevant:
  assumes "data_only (cn_in c1)" and "data_only (cn_in c2)" and "bytes_of (cn_in c1) = bytes_of (cn_in c2)"
    and "find_bytes (bytes_of (cn_in c1)) blank_line = Some p" and "int (p + 4) \<le> max_header_bytes + 1"
  shows "fst (read_request max_body (cn_in c1)) = parse_bytes max_body (bytes_of (cn_in c1)) \<and>
    fst (serve_connection cr config handle now (c1, w)) = fst (serve_connection cr config handle now (c2, w)) \<and>
    snd (snd (serve_connection cr config handle now (c1, w))) = snd (snd (serve_connection cr config handle now (c2, w)))"
proof -
  have read: "fst (read_request m (cn_in c)) = parse_bytes m (bytes_of (cn_in c1))" if "c \<in> {c1, c2}" for m c
    using that assms read_request_bytes [of "cn_in c" p m] by auto
  define r where "r = parse_bytes (sv_max_body_bytes config) (bytes_of (cn_in c1))"
  define e where "e c = snd (read_request (sv_max_body_bytes config) (cn_in c))" for c :: conn
  have eqs: "read_request (sv_max_body_bytes config) (cn_in c1) = (r, e c1)" "read_request (sv_max_body_bytes config) (cn_in c2) = (r, e c2)"
    by (simp_all add: r_def e_def read prod_eq_iff)
  have "fst (serve_connection cr config handle now (c1, w)) = fst (serve_connection cr config handle now (c2, w)) \<and>
    snd (snd (serve_connection cr config handle now (c1, w))) = snd (snd (serve_connection cr config handle now (c2, w)))"
    by (simp add: serve_connection_def eqs Let_def split: sum.split prod.split read_error.split)
  with read show ?thesis by simp
qed

section \<open>A drained server starts nothing\<close>

text \<open>
  What the coordinator relies on: sleeping takes at least the time asked for, the clock does not go back,
  and nothing else touches the flag or makes the file system fail.
\<close>

definition lawful_clock :: "'x drain_host \<Rightarrow> bool" where
  "lawful_clock h \<longleftrightarrow> (\<forall>d w. dh_time h w + d \<le> dh_time h (dh_sleep h d w)) \<and> (\<forall>w. dh_time h w \<le> dh_time h (snd (dh_in_flight h w)))"

definition flag_up :: "string \<Rightarrow> dir \<times> 'x \<Rightarrow> bool" where
  "flag_up flag w \<longleftrightarrow> contents (fst w) flag \<noteq> None \<and> dir_faults (fst w) = []"

definition undisturbed :: "'x drain_host \<Rightarrow> string \<Rightarrow> bool" where
  "undisturbed h flag \<longleftrightarrow> (\<forall>w. flag_up flag w \<longrightarrow> flag_up flag (snd (dh_in_flight h w)) \<and> (\<forall>d. flag_up flag (dh_sleep h d w)))"

lemma undisturbedD:
  assumes "undisturbed h flag" and "flag_up flag w"
  shows "flag_up flag (snd (dh_in_flight h w))" "flag_up flag (dh_sleep h d w)"
  using assms unfolding undisturbed_def by blast+

lemma lawful_clockD:
  assumes "lawful_clock h"
  shows "dh_time h w + d \<le> dh_time h (dh_sleep h d w)" "dh_time h w \<le> dh_time h (snd (dh_in_flight h w))"
  using assms unfolding lawful_clock_def by blast+

definition drain_ends :: "'x drain_host \<Rightarrow> string \<Rightarrow> drain_outcome \<Rightarrow> dir \<times> 'x \<Rightarrow> bool" where
  "drain_ends h flag o' w' \<longleftrightarrow>
     (case o' of
        Drained \<Rightarrow> flag_up flag w' \<and> (\<exists>w0. dh_in_flight h w0 = ([], w'))
      | TimedOut locks \<Rightarrow> locks \<noteq> [] \<and> contents (fst w') flag = None)"

lemma remove_flag_down: "dir_faults (fst w) = [] \<Longrightarrow> contents (fst (remove_flag flag w)) flag = None"
  by (cases w) (simp add: remove_flag_def on_fst_def syscall_ok)

lemma drain_loop_ends:
  assumes clock: "lawful_clock h" and quiet: "undisturbed h flag" and poll: "0 < dt_poll tuning"
  shows "flag_up flag w \<Longrightarrow> \<exists>o' w'. drain_poll h flag tuning start w = Some (o', w') \<and> drain_ends h flag o' w'"
proof (induction "start + dt_timeout tuning - dh_time h w" arbitrary: w rule: less_induct)
  case less
  obtain locks w1 where probe: "dh_in_flight h w = (locks, w1)" by (rule prod.exhaust)
  have up: "flag_up flag w1" "flag_up flag (dh_sleep h d w1)" for d
    using undisturbedD [OF quiet] less(2) probe by (metis snd_conv)+
  have time: "dh_time h w \<le> dh_time h w1" "dh_time h w1 + dt_poll tuning \<le> dh_time h (dh_sleep h (dt_poll tuning) w1)"
    using lawful_clockD [OF clock] probe by (metis snd_conv)+
  show ?case
  proof (cases "locks = [] \<or> dt_timeout tuning \<le> dh_time h w1 - start")
    case True
    have "drain_poll h flag tuning start w = Some (if locks = [] then (Drained, w1) else (TimedOut locks, remove_flag flag w1))"
      using True probe by (subst drain_poll.simps) auto
    moreover have "drain_ends h flag Drained w1" if "locks = []"
      using probe up(1) that unfolding drain_ends_def drain_outcome.case by blast
    moreover have "drain_ends h flag (TimedOut locks) (remove_flag flag w1)" if "locks \<noteq> []"
      using up(1) that by (simp add: drain_ends_def remove_flag_down flag_up_def)
    ultimately show ?thesis by (cases "locks = []") (metis (full_types))+
  next
    case False
    then have "start + dt_timeout tuning - dh_time h (dh_sleep h (dt_poll tuning) w1) < start + dt_timeout tuning - dh_time h w"
      using time poll by linarith
    from less(1) [OF this up(2)] False probe show ?thesis by (subst drain_poll.simps) simp
  qed
qed

lemma draining_refuses:
  assumes "flag_up flag w" and "dn_flag_path (sv_drain config) = Some flag"
  shows "snd (serve cr config handle accepts w) = w"
proof -
  obtain s x where w: "w = (s, x)" by (rule prod.exhaust)
  have "healthy_dir (contents s) (dir_flocks s) s" using assms(1) w by (simp add: flag_up_def healthy_dir_def)
  from fs_exists_ok [OF this, of flag] assms w have "is_draining (sv_drain config) w = (Inr True :: unit + bool, w)"
    by (simp add: is_draining_def flag_up_def)
  then have "snd (snd (serve_connection cr config handle now (c, w))) = w" for c now
    by (auto simp: serve_connection_def Let_def split: sum.split prod.split read_error.split)
  then show ?thesis
  proof (induction accepts)
    case (Cons a accepts)
    then show ?case by (cases a) simp_all
  qed simp
qed

text \<open>
  C22: a drain ends, and a drained server starts nothing. When sleeping takes its time the coordinator
  returns. It reports \<open>Drained\<close> only after a probe that found no lock held, with the flag up, and from then on
  no connection reaches the deploy handler, in whatever number and order they come; or it reports a timeout
  with the locks still held, and the flag is down again.
\<close>

theorem drain_quiesces:
  assumes "lawful_clock h" and "undisturbed h flag" and "0 < dt_poll tuning" and "dir_faults (fst w) = []"
    and "dn_flag_path (sv_drain config) = Some flag"
  shows "\<exists>o' w'. drain_in_flight h flag tuning w = Some (Inr o', w') \<and>
    (case o' of
       Drained \<Rightarrow> (\<exists>w0. dh_in_flight h w0 = ([], w')) \<and> (\<forall>accepts. snd (serve cr config handle accepts w') = w')
     | TimedOut locks \<Rightarrow> locks \<noteq> [] \<and> contents (fst w') flag = None)"
proof -
  obtain s x where w: "w = (s, x)" by (rule prod.exhaust)
  obtain w1 where raised: "on_fst (fs_write flag (''draining'' @ [newline])) w = (Inr (), w1)" and up: "flag_up flag w1"
    using assms(4) by (auto simp: w fs_write_def syscall_ok and_then_def flag_up_def)
  define w2 where "w2 = dh_sleep h (dt_settle tuning) w1"
  have "flag_up flag w2" using undisturbedD(2) [OF assms(2) up] by (simp add: w2_def)
  from drain_loop_ends [OF assms(1,2,3) this, of "dh_time h w2"] obtain o' w'
    where run: "drain_poll h flag tuning (dh_time h w2) w2 = Some (o', w')" and final: "drain_ends h flag o' w'" by blast
  from run raised have "drain_in_flight h flag tuning w = Some (Inr o', w')"
    by (simp add: drain_in_flight_def w2_def)
  moreover have "snd (serve cr config handle accepts w') = w'" if "flag_up flag w'" for accepts
    by (rule draining_refuses [OF that assms(5)])
  ultimately show ?thesis using final
    by (auto simp: drain_ends_def split: drain_outcome.splits)
qed

section \<open>A concrete server\<close>

definition demo_bytes :: string where
  "demo_bytes = ''POST /deploy HTTP/1.1'' @ crlf @ ''X-Fraisier-Timestamp: 100'' @ crlf @
     ''X-Fraisier-Signature: '' @ sign demo_crypto ''k'' 100 ''hi'' @ crlf @ ''Content-Length: 2'' @ blank_line @ ''hi''"

definition demo_peer :: "string list \<Rightarrow> conn" where
  "demo_peer segments = \<lparr>cn_in = map Data segments, cn_out = [], cn_faults = []\<rparr>"

definition demo_config :: server_config where
  "demo_config = \<lparr>sv_secret = ''k'', sv_tolerance_secs = 60, sv_max_body_bytes = 4096,
     sv_drain = \<lparr>dn_flag_path = Some ''.draining'', dn_retry_after_s = 60, dn_refused = [''checkout'']\<rparr>\<rparr>"

definition demo_handle :: "string list handler" where
  "demo_handle body = (\<lambda>(s, log). (Inr ''deploy committed'', s, log @ [body]))"

definition demo_dir0 :: dir where
  "demo_dir0 = \<lparr>dir_files = [], dir_flocks = {}, dir_faults = []\<rparr>"

definition demo_serve :: "64 word \<Rightarrow> string list \<Rightarrow> served \<times> conn \<times> dir \<times> string list" where
  "demo_serve now segments = serve_connection demo_crypto demo_config demo_handle now (demo_peer segments, demo_dir0, [])"

theorem only_authentic_requests_deploy_witness:
  "\<exists>s c' d x. demo_serve 130 [demo_bytes] = (s, c', d, x) \<and> s = ServedOk \<and>
     (\<exists>request evs. read_request 4096 (cn_in (demo_peer [demo_bytes])) = (Inr request, evs) \<and>
        certified demo_crypto ''k'' (rq_body request) (header request timestamp_header) (header request signature_header) 130 60)"
proof -
  obtain s c' d x where run: "demo_serve 130 [demo_bytes] = (s, c', d, x)" by (metis prod.collapse)
  have "fst (demo_serve 130 [demo_bytes]) = ServedOk" by code_simp
  with run have s: "s = ServedOk" by simp
  with only_authentic_requests_deploy [OF run [unfolded demo_serve_def]]
  have "\<exists>request evs. read_request 4096 (cn_in (demo_peer [demo_bytes])) = (Inr request, evs) \<and>
        certified demo_crypto ''k'' (rq_body request) (header request timestamp_header) (header request signature_header) 130 60"
    unfolding demo_config_def server_config.simps by blast
  with run s show ?thesis by blast
qed

text \<open>
  A request that ends before its declared length is served. The peer declares two thousand bytes, sends two, signs those two and
  closes: the handler runs on them, although the body is documented as delimited by \<open>Content-Length\<close>.
\<close>

definition demo_cut :: string where
  "demo_cut = ''POST /deploy HTTP/1.1'' @ crlf @ ''X-Fraisier-Timestamp: 100'' @ crlf @
     ''X-Fraisier-Signature: '' @ sign demo_crypto ''k'' 100 ''hi'' @ crlf @ ''Content-Length: 2000'' @ blank_line @ ''hi''"

theorem short_body_is_served:
  "fst (demo_serve 130 [demo_cut]) = ServedOk \<and> snd (snd (snd (demo_serve 130 [demo_cut]))) = [''hi'']"
  by code_simp

theorem segmentation_irrelevant_witness:
  "fst (demo_serve 130 [demo_bytes]) = fst (demo_serve 130 [take 9 demo_bytes, drop 9 demo_bytes])"
proof -
  have "data_only (cn_in (demo_peer [demo_bytes]))" "data_only (cn_in (demo_peer [take 9 demo_bytes, drop 9 demo_bytes]))" by code_simp+
  moreover have "bytes_of (cn_in (demo_peer [demo_bytes])) = bytes_of (cn_in (demo_peer [take 9 demo_bytes, drop 9 demo_bytes]))"
    by (simp add: demo_peer_def bytes_of_def)
  moreover have "find_bytes (bytes_of (cn_in (demo_peer [demo_bytes]))) blank_line = Some (length demo_bytes - 6)" by code_simp
  moreover have "int (length demo_bytes - 6 + 4) \<le> max_header_bytes + 1" by code_simp
  ultimately show ?thesis unfolding demo_serve_def by (blast dest: segmentation_irrelevant)
qed

definition demo_drain :: "nat drain_host" where
  "demo_drain = \<lparr>dh_in_flight = (\<lambda>(s, n). (if n < 3 then [''app''] else [], s, n)), dh_time = snd, dh_sleep = (\<lambda>d (s, n). (s, n + d))\<rparr>"

theorem drain_quiesces_witness:
  "\<exists>o' w'. drain_in_flight demo_drain ''.draining'' drain_tuning_default (demo_dir0, 0) = Some (Inr o', w') \<and>
    (case o' of
       Drained \<Rightarrow> (\<exists>w0. dh_in_flight demo_drain w0 = ([], w')) \<and>
         (\<forall>accepts. snd (serve demo_crypto demo_config (\<lambda>_. fail []) accepts w') = w')
     | TimedOut locks \<Rightarrow> locks \<noteq> [] \<and> contents (fst w') ''.draining'' = None)"
  by (rule drain_quiesces)
    (simp_all add: lawful_clock_def undisturbed_def flag_up_def demo_drain_def drain_tuning_default_def demo_dir0_def demo_config_def)

end
