(* ===== verification/Config_Schema.thy ===== *)
theory Config_Schema
  imports Policy Multi_Host Rust_Strings Decimal
begin

text \<open>
  The configuration of a deploy (\<open>fraisier-config/src/schema.rs\<close>): one record per section of the file, the
  accessors that resolve a section into the vocabulary of the flows, the token providers
  (\<open>fraisier-core/src/token_provider.rs\<close>) and the calendar vocabulary (\<open>calendar.rs\<close>). Reading the file is
  the TOML parser's and left out; a configuration here is the value it yields, with every section and
  almost every field optional. Maps with string keys are association lists.
\<close>

section \<open>Paths\<close>

text \<open>\<open>std::path\<close> on Unix: components, with empty pieces and inner dots dropped.\<close>

datatype component = RootDir | CurDir | ParentDir | Normal string

definition piece :: "string \<Rightarrow> component option" where
  "piece s = (if s = [] \<or> s = ''.'' then None else Some (if s = ''..'' then ParentDir else Normal s))"

definition is_absolute :: "string \<Rightarrow> bool" where
  "is_absolute p = prefix ''/'' p"

definition components :: "string \<Rightarrow> component list" where
  "components p =
     (let parts = split_on (\<lambda>c. c = CHR ''/'') p in
      (if is_absolute p then [RootDir] else if hd parts = ''.'' then [CurDir] else []) @ List.map_filter piece parts)"

definition path_starts_with :: "string \<Rightarrow> string \<Rightarrow> bool" where
  "path_starts_with dir base = prefix (components base) (components dir)"

definition file_name :: "string \<Rightarrow> string option" where
  "file_name p = (case last_opt (components p) of Some (Normal s) \<Rightarrow> Some s | _ \<Rightarrow> None)"

section \<open>Token providers\<close>

record token_injection =
  ti_header :: string
  ti_format :: string
  ti_timeout_ms :: "64 word option"

datatype token_provider =
    Exec (exec_command: "string list") token_injection
  | Oauth2ClientCredentials (cc_token_url: string) (cc_client_id: string) (cc_client_secret_env: string)
      (cc_audience: "string option") (cc_scope: "string option") token_injection
  | Oauth2RefreshToken (rt_token_url: string) (rt_client_id: string) (rt_refresh_token_env: string) token_injection

datatype token_provider_error = BadFormat string | EmptyCommand | HeaderCollision string

fun show_token_provider_error :: "token_provider_error \<Rightarrow> string" where
  "show_token_provider_error (BadFormat f) =
     ''token_provider.format must contain exactly the placeholder `{token}` and no other (got '' @ debug_str f @
     ''); e.g. '' @ [dquote] @ ''Bearer {token}'' @ [dquote]"
| "show_token_provider_error EmptyCommand = ''token_provider.command must be a non-empty argv''"
| "show_token_provider_error (HeaderCollision h) =
     ''token_provider injects header '' @ debug_str h @
     '', which is also set in [health].headers (case-insensitive collision); remove one''"

fun injection :: "token_provider \<Rightarrow> token_injection" where
  "injection (Exec _ i) = i"
| "injection (Oauth2ClientCredentials _ _ _ _ _ i) = i"
| "injection (Oauth2RefreshToken _ _ _ i) = i"

definition provider_header :: "token_provider \<Rightarrow> string" where
  "provider_header p = ti_header (injection p)"

definition provider_format :: "token_provider \<Rightarrow> string" where
  "provider_format p = ti_format (injection p)"

text \<open>\<open>str::replace\<close> with a non-empty pattern: the pieces between the occurrences, joined with the replacement.\<close>

definition replace_str :: "string \<Rightarrow> string \<Rightarrow> string \<Rightarrow> string" where
  "replace_str pat by s = join by (split_str pat s)"

definition apply_format :: "token_provider \<Rightarrow> string \<Rightarrow> string" where
  "apply_format p token = replace_str ''{token}'' token (provider_format p)"

definition validate_format :: "string \<Rightarrow> token_provider_error + unit" where
  "validate_format f =
     (if count_list f (CHR ''{'') = 1 \<and> count_list f (CHR ''}'') = 1 \<and> contains ''{token}'' f then Inr ()
      else Inl (BadFormat f))"

definition validate_provider :: "token_provider \<Rightarrow> token_provider_error + unit" where
  "validate_provider p = (case p of Exec [] _ \<Rightarrow> Inl EmptyCommand | _ \<Rightarrow> validate_format (provider_format p))"

definition validate_against_headers :: "token_provider \<Rightarrow> string list \<Rightarrow> token_provider_error + unit" where
  "validate_against_headers p keys =
     (if \<exists>k\<in>set keys. map ascii_lower k = map ascii_lower (provider_header p) then Inl (HeaderCollision (provider_header p))
      else Inr ())"

definition client_secret_logical :: string where
  "client_secret_logical = ''HEALTH_TOKEN_CLIENT_SECRET''"

definition refresh_token_logical :: string where
  "refresh_token_logical = ''HEALTH_TOKEN_REFRESH_TOKEN''"

section \<open>Calendar\<close>

definition quoted_word :: "string \<Rightarrow> string" where
  "quoted_word s = [CHR 0x27] @ s @ [CHR 0x27]"

text \<open>\<open>str::parse::<u8>\<close>.\<close>

definition parse_u8 :: "string \<Rightarrow> nat option" where
  "parse_u8 s =
     (case parse_dec (case s of c # t \<Rightarrow> if c = CHR ''+'' then t else s | [] \<Rightarrow> s) of
        Some n \<Rightarrow> if n < 256 then Some n else None
      | None \<Rightarrow> None)"

definition expect_arity :: "string list \<Rightarrow> nat \<Rightarrow> string \<Rightarrow> string + unit" where
  "expect_arity tokens n shape = (if length tokens = n then Inr () else Inl (''calendar spec must read `'' @ shape @ ''`''))"

definition parse_hh_mm :: "string \<Rightarrow> string + nat \<times> nat" where
  "parse_hh_mm t =
     (case split_once (CHR '':'') t of
        None \<Rightarrow> Inl (quoted_word t @ '' is not a HH:MM time'')
      | Some (hh, mm) \<Rightarrow>
          and_if_ok (ok_or (parse_u8 hh) (quoted_word hh @ '' is not a valid hour'')) (\<lambda>hour.
          and_if_ok (ok_or (parse_u8 mm) (quoted_word mm @ '' is not a valid minute'')) (\<lambda>minute.
          if hour > 23 then Inl (''hour '' @ show_nat hour @ '' is out of range (00-23)'')
          else if minute > 59 then Inl (''minute '' @ show_nat minute @ '' is out of range (00-59)'')
          else Inr (hour, minute))))"

definition parse_dow :: "string \<Rightarrow> string + string" where
  "parse_dow t =
     (let d = map ascii_lower t in
      if d = ''mon'' \<or> d = ''monday'' then Inr ''Mon''
      else if d = ''tue'' \<or> d = ''tuesday'' then Inr ''Tue''
      else if d = ''wed'' \<or> d = ''wednesday'' then Inr ''Wed''
      else if d = ''thu'' \<or> d = ''thursday'' then Inr ''Thu''
      else if d = ''fri'' \<or> d = ''friday'' then Inr ''Fri''
      else if d = ''sat'' \<or> d = ''saturday'' then Inr ''Sat''
      else if d = ''sun'' \<or> d = ''sunday'' then Inr ''Sun''
      else Inl (quoted_word t @ '' is not a day of week (Mon..Sun)''))"

definition parse_dom :: "string \<Rightarrow> string + nat" where
  "parse_dom t =
     and_if_ok (ok_or (parse_u8 t) (quoted_word t @ '' is not a day of month'')) (\<lambda>day.
     if 1 \<le> day \<and> day \<le> 31 then Inr day
     else Inl (''day-of-month '' @ show_nat day @ '' is out of range (1-31)''))"

definition clock_text :: "nat \<times> nat \<Rightarrow> string" where
  "clock_text t = pad 2 (fst t) @ '':'' @ pad 2 (snd t) @ '':00''"

definition to_on_calendar :: "string \<Rightarrow> string + string" where
  "to_on_calendar spec =
     (let tokens = split_whitespace spec in
      case tokens of
        [] \<Rightarrow> Inl ''empty calendar spec''
      | first # _ \<Rightarrow>
          let cadence = map ascii_lower first in
          if cadence = ''hourly'' then
            and_if_ok (expect_arity tokens 1 ''hourly'') (\<lambda>_. Inr ''*-*-* *:00:00'')
          else if cadence = ''daily'' then
            and_if_ok (expect_arity tokens 2 ''daily HH:MM'') (\<lambda>_.
            and_if_ok (parse_hh_mm (tokens ! 1)) (\<lambda>t. Inr (''*-*-* '' @ clock_text t)))
          else if cadence = ''weekly'' then
            and_if_ok (expect_arity tokens 3 ''weekly DOW HH:MM'') (\<lambda>_.
            and_if_ok (parse_dow (tokens ! 1)) (\<lambda>dow.
            and_if_ok (parse_hh_mm (tokens ! 2)) (\<lambda>t. Inr (dow @ '' *-*-* '' @ clock_text t))))
          else if cadence = ''monthly'' then
            and_if_ok (expect_arity tokens 3 ''monthly DD HH:MM'') (\<lambda>_.
            and_if_ok (parse_dom (tokens ! 1)) (\<lambda>day.
            and_if_ok (parse_hh_mm (tokens ! 2)) (\<lambda>t. Inr (''*-*-'' @ pad 2 day @ '' '' @ clock_text t))))
          else Inl (''unknown calendar cadence '' @ quoted_word cadence @ '' (expected: hourly, daily, weekly, monthly)''))"

section \<open>Sections\<close>

datatype preflight_mode = Live | RestoreRehearsal | Off

record deploy_section =
  dp_name :: "string option"
  dp_environment :: "string option"
  dp_strategy :: "string option"
  dp_production :: "bool option"

record host_spec =
  hp_name :: "string option"
  hp_address :: "string option"

record hosts_section =
  hs_strategy :: "string option"
  hs_rolling_batch_size :: "64 word option"
  hs_inventory :: "host_spec list"

record check_section =
  ck_name :: "string option"
  ck_command :: "string option"
  ck_workdir :: "string option"

record policy_section =
  po_auto_apply :: "string list option"
  po_require_approval :: "string list option"
  po_unclassified :: "string option"
  po_approval_command :: "string option"
  po_approval_timeout_secs :: "64 word option"

record artifact_section =
  ac_source :: "string option"
  ac_release_url :: "string option"
  ac_checksum_url :: "string option"
  ac_checksum :: "string option"
  ac_repo :: "string option"
  ac_reference :: "string option"
  ac_path :: "string option"
  ac_active_path :: "string option"
  ac_staging_dir :: "string option"
  ac_adapter_bin :: "string option"

record migration_section =
  mi_adapter :: "string option"
  mi_database_url_env :: "string option"
  mi_migrations_path :: "string option"
  mi_forward_compatible_lint :: "bool option"
  mi_preflight_mode :: "preflight_mode option"
  mi_preflight_backup_path :: "string option"
  mi_settings :: "(string \<times> json) list"

record service_section =
  se_adapter :: "string option"
  se_unit :: "string option"
  se_name :: "string option"
  se_compose_service :: "string option"
  se_compose_file :: "string option"
  se_user :: "bool option"

record health_section =
  he_adapter :: "string option"
  he_url :: "string option"
  he_expected_status :: "16 word option"
  he_command :: "string option"
  he_timeout_ms :: "64 word option"
  he_headers :: "(string \<times> string) list"
  he_token_provider :: "token_provider option"
  he_require_capabilities :: "string list option"

record federation_section =
  fe_graphql_url :: "string option"

record ssh_section =
  ss_user :: "string option"
  ss_identity_path :: "string option"
  ss_port :: "16 word option"
  ss_options :: "string list"

record webhook_section =
  wh_secret_env :: "string option"
  wh_listen :: "string option"
  wh_tolerance_secs :: "64 word option"
  wh_max_body_bytes :: "64 word option"
  wh_read_timeout_secs :: "64 word option"
  wh_drain_timeout_s :: "64 word option"
  wh_drain_poll_s :: "64 word option"
  wh_drain_settle_s :: "64 word option"
  wh_retry_after_s :: "64 word option"

record sync_section =
  sy_remote :: "string option"
  sy_sync_dir :: "string option"

record schedule_section =
  sd_calendar :: "string option"
  sd_on_calendar_raw :: "string option"
  sd_command :: "string option"
  sd_config_path :: "string option"
  sd_allow_unattended_deploy :: "bool option"
  sd_notify :: "string option"

record notify_section =
  no_command :: "string option"

record database_requires =
  rq_postgres_major :: "32 word option"
  rq_pg_tviews :: "bool option"

record database_tviews =
  tv_on_empty :: "string option"

record database_section =
  da_requires :: "database_requires option"
  da_admin_url_env :: "string option"
  da_tviews :: "database_tviews option"

record retain_entry =
  re_dir :: "string option"
  re_schedule :: "string option"
  re_retention_days :: "32 word option"
  re_keep_minimum :: "32 word option"
  re_keep_last :: "32 word option"
  re_pattern :: "string option"
  re_min_free_gb :: "64 word option"
  re_name :: "string option"

record backup_section =
  ba_dir :: "string option"
  ba_retain :: "retain_entry list"

record drill_section =
  dl_max_age_hours :: "32 word option"
  dl_min_tables :: "64 word option"
  dl_data_dir :: "string option"
  dl_schedule :: "string option"

record refresh_section =
  fr_source_dir :: "string option"
  fr_source_environment :: "string option"
  fr_max_age_hours :: "32 word option"
  fr_min_tables :: "64 word option"
  fr_data_dir :: "string option"
  fr_sanitize :: "string option"
  fr_sanitize_reason :: "string option"
  fr_outbound_flag :: "string option"
  fr_units :: "string list"
  fr_schedule :: "string option"

record metrics_section =
  me_textfile_dir :: "string option"

record lb_section =
  ls_adapter :: "string option"
  ls_config_path :: "string option"
  ls_upstream :: "string option"
  ls_include_dir :: "string option"

record blue_green_section =
  gs_blue :: "string option"
  gs_green :: "string option"
  gs_green_unit :: "string option"
  gs_green_health_url :: "string option"
  gs_green_active_path :: "string option"
  gs_green_staging_dir :: "string option"
  gs_blue_servers :: "string list"
  gs_green_servers :: "string list"
  gs_hold_secs :: "64 word option"
  gs_green_pool :: "32 word option"
  gs_connection_margin :: "32 word option"

text \<open>The \<open>[specql]\<close> preset has been expanded into the other sections when a configuration is used.\<close>

record deploy_config =
  cf_deploy :: "deploy_section option"
  cf_hosts :: "hosts_section option"
  cf_artifact :: "artifact_section option"
  cf_migration :: "migration_section option"
  cf_service :: "service_section option"
  cf_health :: "health_section option"
  cf_federation :: "federation_section option"
  cf_lb :: "lb_section option"
  cf_ssh :: "ssh_section option"
  cf_webhook :: "webhook_section option"
  cf_schedule :: "schedule_section option"
  cf_notify :: "notify_section option"
  cf_database :: "database_section option"
  cf_backup :: "backup_section option"
  cf_drill :: "drill_section option"
  cf_refresh :: "refresh_section option"
  cf_metrics :: "metrics_section option"
  cf_sync :: "sync_section option"
  cf_blue_green :: "blue_green_section option"
  cf_checks :: "check_section list"
  cf_policy :: "policy_section option"

section \<open>Accessors\<close>

text \<open>\<open>is_set\<close> of \<open>validate.rs\<close>: present and not blank.\<close>

definition is_set :: "string option \<Rightarrow> bool" where
  "is_set field = (case field of Some s \<Rightarrow> \<not> blank s | None \<Rightarrow> False)"

definition unwrap_or :: "'a option \<Rightarrow> 'a \<Rightarrow> 'a" where
  "unwrap_or x d = (case x of Some a \<Rightarrow> a | None \<Rightarrow> d)"

definition unclassified_actions :: "string list" where
  "unclassified_actions = [''deny'', ''require_approval'']"

definition strategy_all_at_once :: "string list" where
  "strategy_all_at_once = [''all-at-once'', ''all_at_once'']"

definition strategy_rolling :: string where
  "strategy_rolling = ''rolling''"

definition listed :: "string list option \<Rightarrow> risk_tier list \<Rightarrow> risk_tier list" where
  "listed names fallback =
     (case names of
        None \<Rightarrow> fallback
      | Some ns \<Rightarrow> List.map_filter (\<lambda>n. case tier_from_str n of Inr t \<Rightarrow> Some t | Inl _ \<Rightarrow> None) ns)"

text \<open>Collecting pairs into a \<open>BTreeMap\<close>: the last pair of a key counts.\<close>

definition collect_map :: "('k \<times> 'v) list \<Rightarrow> 'k \<rightharpoonup> 'v" where
  "collect_map ps = map_of (rev ps)"

definition policy_resolve :: "policy_section \<Rightarrow> policy" where
  "policy_resolve p =
     (let actions = collect_map (map (\<lambda>t. (t, AutoApply)) (listed (po_auto_apply p) default_auto_apply) @
            map (\<lambda>t. (t, RequireApproval)) (listed (po_require_approval p) default_require_approval));
          unclassified = (if po_unclassified p = Some (unclassified_actions ! 1) then UnclRequireApproval else UnclDeny)
      in with_approval_hook (is_set (po_approval_command p)) (policy_new actions unclassified))"

definition effective_preflight_mode :: "migration_section \<Rightarrow> preflight_mode" where
  "effective_preflight_mode m =
     (case mi_preflight_mode m of
        Some mode \<Rightarrow> mode
      | None \<Rightarrow> (case mi_forward_compatible_lint m of Some False \<Rightarrow> Off | _ \<Rightarrow> Live))"

definition retain_keep_minimum :: "retain_entry \<Rightarrow> 32 word" where
  "retain_keep_minimum e = unwrap_or (re_keep_minimum e) 3"

definition default_pattern :: string where
  "default_pattern = ''*.pgdump''"

definition retain_pattern :: "retain_entry \<Rightarrow> string" where
  "retain_pattern e = unwrap_or (re_pattern e) default_pattern"

definition retain_name :: "retain_entry \<Rightarrow> string option" where
  "retain_name e = or_else (re_name e) (Option.bind (re_dir e) file_name)"

definition drill_max_age_hours :: "drill_section \<Rightarrow> 32 word" where
  "drill_max_age_hours d = unwrap_or (dl_max_age_hours d) 48"

definition refresh_max_age_hours :: "refresh_section \<Rightarrow> 32 word" where
  "refresh_max_age_hours r = unwrap_or (fr_max_age_hours r) 48"

definition refresh_outbound_flag :: "refresh_section \<Rightarrow> string" where
  "refresh_outbound_flag r = unwrap_or (fr_outbound_flag r) ''FRAISIER_REFRESHED''"

definition sanitize_none :: string where
  "sanitize_none = ''none''"

datatype sanitize_choice = Script string | Skipped string

definition refresh_sanitize :: "refresh_section \<Rightarrow> sanitize_choice option" where
  "refresh_sanitize r =
     (case fr_sanitize r of
        None \<Rightarrow> None
      | Some s \<Rightarrow>
          if s = sanitize_none
          then (case fr_sanitize_reason r of Some reason \<Rightarrow> if blank reason then None else Some (Skipped reason) | None \<Rightarrow> None)
          else Some (Script s))"

definition config_rollout_strategy :: "deploy_config \<Rightarrow> rollout_strategy option" where
  "config_rollout_strategy cfg =
     map_option (\<lambda>hosts.
       case hs_strategy hosts of
         Some s \<Rightarrow> if s \<in> set strategy_all_at_once then AllAtOnce else Rolling (unat (unwrap_or (hs_rolling_batch_size hosts) 1))
       | None \<Rightarrow> Rolling (unat (unwrap_or (hs_rolling_batch_size hosts) 1))) (cf_hosts cfg)"

definition config_host_inventory :: "deploy_config \<Rightarrow> host_inventory option" where
  "config_host_inventory cfg =
     map_option (\<lambda>hosts.
       foldl (\<lambda>inventory spec. with_host (host_entry_new (unwrap_or (hp_name spec) []) (unwrap_or (hp_address spec) [])) inventory)
         inventory_new (hs_inventory hosts)) (cf_hosts cfg)"

definition migration_env_secrets :: "deploy_config \<Rightarrow> string \<rightharpoonup> string" where
  "migration_env_secrets cfg =
     (case Option.bind (cf_migration cfg) mi_database_url_env of
        Some source \<Rightarrow> [''DATABASE_URL'' \<mapsto> source]
      | None \<Rightarrow> Map.empty)"

definition migration_adapter_ctx :: "deploy_config \<Rightarrow> adapter_ctx" where
  "migration_adapter_ctx cfg =
     (let ctx = ctx_new (unwrap_or (Option.bind (cf_deploy cfg) dp_name) []) (unwrap_or (Option.bind (cf_deploy cfg) dp_environment) []);
          ctx = (case cf_migration cfg of
            Some m \<Rightarrow> ctx\<lparr>ctx_migrations_path := mi_migrations_path m, ctx_settings := map_of (mi_settings m)\<rparr>
          | None \<Rightarrow> ctx)
      in ctx\<lparr>ctx_env_secrets := migration_env_secrets cfg\<rparr>)"

definition health_expected_status :: "deploy_config \<Rightarrow> 16 word" where
  "health_expected_status cfg = unwrap_or (Option.bind (cf_health cfg) he_expected_status) 200"

lemma unwrap_or_simps [simp]: "unwrap_or (Some a) d = a" "unwrap_or None d = d"
  by (simp_all add: unwrap_or_def)

lemma is_set_unwrap: "is_set x \<Longrightarrow> x = Some (unwrap_or x d) \<and> \<not> blank (unwrap_or x d)"
  by (cases x) (simp_all add: is_set_def unwrap_or_def)

end
