(* ===== verification/Config_Validate.thy ===== *)
theory Config_Validate
  imports Config_Schema
begin

text \<open>
  The validation pass over a configuration (\<open>fraisier-config/src/validate.rs\<close>). A validator appends issues to
  the report, so it is the list of the issues it appends; the passes concatenate the validators in the order
  of the code. The theorems say what a configuration without an error satisfies.
\<close>

section \<open>Reports\<close>

record validation_issue =
  vi_severity :: severity
  vi_path :: string
  vi_message :: string

type_synonym report = "validation_issue list"

definition issue_error :: "string \<Rightarrow> string \<Rightarrow> report" where
  "issue_error p m = [\<lparr>vi_severity = SevError, vi_path = p, vi_message = m\<rparr>]"

definition issue_warn :: "string \<Rightarrow> string \<Rightarrow> report" where
  "issue_warn p m = [\<lparr>vi_severity = SevWarning, vi_path = p, vi_message = m\<rparr>]"

definition report_ok :: "report \<Rightarrow> bool" where
  "report_ok r = (\<not> list_ex (\<lambda>i. vi_severity i = SevError) r)"

definition report_errors :: "report \<Rightarrow> report" where
  "report_errors = filter (\<lambda>i. vi_severity i = SevError)"

definition report_warnings :: "report \<Rightarrow> report" where
  "report_warnings = filter (\<lambda>i. vi_severity i \<noteq> SevError)"

fun severity_tag :: "severity \<Rightarrow> string" where
  "severity_tag SevError = ''error''"
| "severity_tag SevWarning = ''warning''"
| "severity_tag SevInfo = ''info''"

definition show_report :: "report \<Rightarrow> string" where
  "show_report r = concat (map (\<lambda>i. ''  ['' @ severity_tag (vi_severity i) @ ''] '' @ vi_path i @ '': '' @ vi_message i @ [newline]) r)"

definition report_if :: "bool \<Rightarrow> report \<Rightarrow> report" where
  "report_if b r = (if b then r else [])"

definition dquoted :: "string \<Rightarrow> string" where
  "dquoted s = [dquote] @ s @ [dquote]"

abbreviation with_section :: "'a option \<Rightarrow> report \<Rightarrow> ('a \<Rightarrow> report) \<Rightarrow> report" where
  "with_section x absent f \<equiv> (case x of None \<Rightarrow> absent | Some a \<Rightarrow> f a)"

section \<open>Words and paths a unit may carry\<close>

definition is_plain :: "char \<Rightarrow> bool" where
  "is_plain c = (ascii_alnum c \<or> c \<in> set ''/._-'')"

definition is_plain_dir :: "string \<Rightarrow> bool" where
  "is_plain_dir dir = (list_all is_plain dir \<and> ParentDir \<notin> set (components dir))"

definition is_unit_word :: "string \<Rightarrow> bool" where
  "is_unit_word word = (word \<noteq> [] \<and> \<not> prefix ''-'' word \<and> list_all (\<lambda>c. ascii_alnum c \<or> c \<in> set ''_.-'') word)"

definition is_upper :: "char \<Rightarrow> bool" where
  "is_upper c = (let n = of_char c :: nat in 65 \<le> n \<and> n \<le> 90)"

definition is_env_name :: "string \<Rightarrow> bool" where
  "is_env_name name =
     ((case name of c # _ \<Rightarrow> \<not> is_digit c | [] \<Rightarrow> False) \<and> list_all (\<lambda>c. is_upper c \<or> is_digit c \<or> c = CHR ''_'') name)"

section \<open>The sections of a deploy\<close>

definition validate_deploy :: "deploy_config \<Rightarrow> report" where
  "validate_deploy cfg =
     with_section (cf_deploy cfg) (issue_error ''deploy'' ''missing required [deploy] section'') (\<lambda>deploy.
       report_if (\<not> is_set (dp_name deploy))
         (issue_error ''deploy.name'' (''[deploy].name is required and must be non-empty '' @
            ''(the [specql] preset supplies it from its `name` field)'')) @
       report_if (\<not> is_set (dp_environment deploy))
         (issue_error ''deploy.environment'' ''[deploy].environment is required and must be non-empty''))"

definition validate_release_source :: "string \<Rightarrow> artifact_section \<Rightarrow> report" where
  "validate_release_source source artifact =
     report_if (\<not> is_set (ac_release_url artifact))
       (issue_error ''artifact.release_url'' (''the '' @ source @ '' source requires release_url'')) @
     report_if (\<not> is_set (ac_checksum_url artifact) \<and> \<not> is_set (ac_checksum artifact))
       (issue_error ''artifact.checksum_url'' (''the '' @ source @ '' source requires checksum_url (or an inline checksum) '' @
          ''so the download can be sha256-verified before it is staged''))"

definition validate_artifact :: "deploy_config \<Rightarrow> report" where
  "validate_artifact cfg =
     with_section (cf_artifact cfg) (issue_error ''artifact'' ''missing required [artifact] section'') (\<lambda>artifact.
       (case ac_source artifact of
          None \<Rightarrow> issue_error ''artifact.source'' ''[artifact].source is required (one of: release, pull, git, local)''
        | Some source \<Rightarrow>
            if source \<in> {''release'', ''pull'', ''release-ipc''} then validate_release_source source artifact
            else if source = ''git'' then report_if (\<not> is_set (ac_repo artifact)) (issue_error ''artifact.repo'' ''the git source requires repo'')
            else if source = ''local'' then report_if (ac_path artifact = None) (issue_error ''artifact.path'' ''the local source requires path'')
            else issue_error ''artifact.source'' (''unknown artifact source '' @ quoted_word source @
              '' (expected one of: release, pull, release-ipc, git, local)'')) @
       report_if (ac_source artifact \<in> {Some ''release'', Some ''local'', Some ''release-ipc''} \<and> ac_active_path artifact = None)
         (issue_warn ''artifact.active_path'' (''no active_path set; activation will fail at deploy time '' @
            ''(it is the symlink swapped to the newly-staged artifact)'')))"

definition validate_migration :: "deploy_config \<Rightarrow> report" where
  "validate_migration cfg =
     with_section (cf_migration cfg) (issue_error ''migration'' ''missing required [migration] section'') (\<lambda>migration.
       let adapter = mi_adapter migration in
       report_if (\<not> is_set adapter) (issue_error ''migration.adapter'' ''[migration].adapter is required'') @
       report_if (adapter = Some ''confiture'' \<and> \<not> is_set (mi_database_url_env migration))
         (issue_error ''migration.database_url_env'' (''the confiture adapter requires database_url_env '' @
            ''(the name of the env var holding the database DSN)'')) @
       report_if (adapter = Some ''none'')
         (report_if (is_set (mi_database_url_env migration))
            (issue_error ''migration.database_url_env'' (''adapter = '' @ dquoted ''none'' @ '' declares no database; remove database_url_env'')) @
          report_if (mi_settings migration \<noteq> [])
            (issue_error ''migration.settings'' (''adapter = '' @ dquoted ''none'' @ '' takes no settings; remove [migration.settings]''))) @
       report_if (mi_forward_compatible_lint migration = Some True \<and> adapter = Some ''command'')
         (issue_warn ''migration.forward_compatible_lint'' (''the command adapter does not implement preflight; '' @
            ''forward_compatible_lint will be skipped'')) @
       report_if (effective_preflight_mode migration = RestoreRehearsal \<and> adapter \<noteq> Some ''confiture'')
         (issue_error ''migration.preflight_mode'' (''preflight_mode = '' @ dquoted ''restore_rehearsal'' @
            '' requires the confiture adapter (it rehearses a real Postgres restore + migrate on a throwaway database)'')) @
       report_if (effective_preflight_mode migration = RestoreRehearsal \<and> cf_hosts cfg \<noteq> None)
         (issue_warn ''migration.preflight_mode'' (''preflight_mode = '' @ dquoted ''restore_rehearsal'' @
            '' runs only on a single-host deploy; with [hosts], the multi-host rollout lints live instead (pass --host to '' @
            ''rehearse against one host)'')))"

definition validate_service :: "deploy_config \<Rightarrow> report" where
  "validate_service cfg =
     with_section (cf_service cfg) (issue_error ''service'' ''missing required [service] section'') (\<lambda>service.
       report_if (\<not> is_set (se_adapter service)) (issue_error ''service.adapter'' ''[service].adapter is required'') @
       report_if (se_adapter service = Some ''systemd'' \<and> \<not> is_set (se_unit service))
         (issue_error ''service.unit'' ''the systemd adapter requires unit (the .service unit name)'') @
       report_if (se_adapter service = Some ''rc'' \<and> \<not> is_set (se_name service))
         (issue_error ''service.name'' ''the rc adapter requires name (the rc.d service name)'') @
       report_if (se_adapter service = Some ''docker-compose'' \<and> \<not> is_set (se_compose_service service))
         (issue_error ''service.compose_service'' (''the docker-compose adapter requires compose_service '' @
            ''(the service within the Compose project)'')) @
       report_if (se_user service = Some True \<and> se_adapter service \<noteq> Some ''systemd'')
         (issue_warn ''service.user'' (''user = true only applies to the systemd adapter (systemctl --user); '' @
            ''it is ignored by this adapter'')))"

fun capability_names :: "string list \<Rightarrow> string set \<Rightarrow> report" where
  "capability_names [] seen = []"
| "capability_names (name # names) seen =
     (if blank name
      then issue_error ''health.require_capabilities'' ''require_capabilities contains a blank name'' @ capability_names names seen
      else report_if (name \<in> seen) (issue_error ''health.require_capabilities''
          (''require_capabilities lists '' @ quoted_word name @ '' more than once'')) @
        capability_names names (insert name seen))"

definition validate_require_capabilities :: "string option \<Rightarrow> string list \<Rightarrow> report" where
  "validate_require_capabilities adapter required =
     report_if (adapter \<noteq> Some ''http'')
       (issue_error ''health.require_capabilities'' ''require_capabilities applies only to the http adapter (it reads the /health body)'') @
     report_if (required = [])
       (issue_error ''health.require_capabilities'' ''require_capabilities is empty; list a capability or remove the key'') @
     capability_names required {}"

definition en_dash :: string where
  "en_dash = [CHR 0xE2, CHR 0x80, CHR 0x93]"

definition validate_token_provider :: "health_section \<Rightarrow> token_provider \<Rightarrow> report" where
  "validate_token_provider health provider =
     report_if (he_adapter health \<noteq> Some ''http'')
       (issue_error ''health.token_provider'' (''token_provider applies only to the http adapter (it injects a bearer '' @
          ''credential into the HTTP probe)'')) @
     (case validate_provider provider of Inl error \<Rightarrow> issue_error ''health.token_provider'' (show_token_provider_error error) | Inr _ \<Rightarrow> []) @
     (case validate_against_headers provider (map fst (he_headers health)) of
        Inl error \<Rightarrow> issue_error ''health.token_provider.header'' (show_token_provider_error error) | Inr _ \<Rightarrow> [])"

definition validate_health :: "deploy_config \<Rightarrow> report" where
  "validate_health cfg =
     with_section (cf_health cfg) (issue_error ''health'' ''missing required [health] section'') (\<lambda>health.
       report_if (\<not> is_set (he_adapter health)) (issue_error ''health.adapter'' ''[health].adapter is required'') @
       report_if (he_adapter health = Some ''http'' \<and> \<not> is_set (he_url health)) (issue_error ''health.url'' ''the http adapter requires url'') @
       report_if (he_adapter health = Some ''command'')
         (report_if (\<not> is_set (he_command health)) (issue_error ''health.command'' ''the command adapter requires command'') @
          report_if (is_set (he_url health)) (issue_error ''health.url'' ''url applies only to the http adapter, not the command adapter'') @
          report_if (he_expected_status health \<noteq> None)
            (issue_error ''health.expected_status'' ''expected_status applies only to the http adapter, not the command adapter'')) @
       with_section (he_expected_status health) [] (\<lambda>status.
         report_if (\<not> (100 \<le> status \<and> status \<le> 599))
           (issue_error ''health.expected_status'' (''expected_status '' @ show_nat (unat status) @ '' is not a valid HTTP status (100'' @ en_dash @ ''599)''))) @
       with_section (he_require_capabilities health) [] (validate_require_capabilities (he_adapter health)) @
       with_section (he_token_provider health) [] (validate_token_provider health))"

section \<open>Hosts\<close>

definition indexed :: "string \<Rightarrow> nat \<Rightarrow> string" where
  "indexed name i = name @ ''['' @ show_nat i @ '']''"

fun inventory_issues :: "nat \<Rightarrow> string set \<Rightarrow> host_spec list \<Rightarrow> report" where
  "inventory_issues i seen [] = []"
| "inventory_issues i seen (host # hosts) =
     report_if (\<not> is_set (hp_name host)) (issue_error (indexed ''hosts.inventory'' i @ ''.name'') ''each inventory host requires a name'') @
     report_if (\<not> is_set (hp_address host)) (issue_error (indexed ''hosts.inventory'' i @ ''.address'') ''each inventory host requires an address'') @
     with_section (hp_name host) [] (\<lambda>name. report_if (name \<in> seen)
       (issue_error ''hosts.inventory'' (''duplicate host name '' @ quoted_word name @ '' in the inventory''))) @
     inventory_issues (Suc i) (case hp_name host of Some name \<Rightarrow> insert name seen | None \<Rightarrow> seen) hosts"

definition validate_rolling :: "hosts_section \<Rightarrow> report" where
  "validate_rolling hosts =
     with_section (hs_rolling_batch_size hosts) [] (\<lambda>n.
       if n = 0 then issue_error ''hosts.rolling_batch_size'' ''rolling_batch_size must be at least 1''
       else report_if (hs_inventory hosts \<noteq> [] \<and> length (hs_inventory hosts) < unat n)
         (issue_warn ''hosts.rolling_batch_size'' (''rolling_batch_size '' @ show_nat (unat n) @ '' exceeds the '' @
            show_nat (length (hs_inventory hosts)) @ '' hosts in the inventory; the rollout behaves like all-at-once'')))"

definition warn_local_only_axes :: "deploy_config \<Rightarrow> report" where
  "warn_local_only_axes cfg =
     with_section (Option.bind (cf_artifact cfg) ac_source) [] (\<lambda>source.
       report_if (source \<in> {''release'', ''local'', ''git''})
         (issue_warn ''artifact.source'' (''multi-host: the '' @ quoted_word source @
            '' artifact adapter stages on the host running fraisier, not on each remote host '' @ em_dash @ '' use source = '' @
            dquoted ''pull'' @ '' (curl over SSH) or source = '' @ dquoted ''release-ipc'' @
            '' (the release adapter run on each host over SSH) to stage + activate per host''))) @
     report_if (Option.bind (cf_lb cfg) ls_adapter = Some ''nginx'')
       (issue_warn ''lb.adapter'' (''multi-host: the nginx adapter edits its config where fraisier runs, so the load '' @
          ''balancer must run on that host (a remote-LB topology is not yet wired)''))"

definition validate_hosts :: "deploy_config \<Rightarrow> report" where
  "validate_hosts cfg =
     with_section (cf_hosts cfg) [] (\<lambda>hosts.
       report_if (hs_inventory hosts = []) (issue_error ''hosts.inventory'' ''[hosts] is present but its inventory is empty'') @
       inventory_issues 0 {} (hs_inventory hosts) @
       (case hs_strategy hosts of
          None \<Rightarrow> validate_rolling hosts
        | Some s \<Rightarrow>
            if s = strategy_rolling then validate_rolling hosts
            else if s \<in> set strategy_all_at_once then []
            else issue_error ''hosts.strategy'' (''unknown strategy '' @ quoted_word s @ '' (expected: rolling, all-at-once)'')) @
       warn_local_only_axes cfg)"

definition validate_lb :: "deploy_config \<Rightarrow> report" where
  "validate_lb cfg =
     with_section (cf_lb cfg) [] (\<lambda>lb.
       report_if (\<not> is_set (ls_adapter lb)) (issue_error ''lb.adapter'' ''[lb].adapter is required'') @
       report_if (ls_adapter lb = Some ''nginx'')
         (report_if (ls_config_path lb = None \<and> ls_include_dir lb = None)
            (issue_error ''lb.config_path'' ''the nginx adapter requires config_path (rolling) or include_dir (blue-green)'') @
          report_if (\<not> is_set (ls_upstream lb)) (issue_error ''lb.upstream'' ''the nginx adapter requires upstream'')))"

section \<open>Webhook, ledger, schedule, notification\<close>

definition validate_webhook :: "deploy_config \<Rightarrow> report" where
  "validate_webhook cfg =
     with_section (cf_webhook cfg) [] (\<lambda>webhook.
       report_if (\<not> is_set (wh_secret_env webhook))
         (issue_error ''webhook.secret_env'' (''the [webhook] server requires secret_env '' @
            ''(the name of the env var holding the shared HMAC secret)'')))"

definition validate_sync :: "deploy_config \<Rightarrow> report" where
  "validate_sync cfg =
     with_section (cf_sync cfg) [] (\<lambda>sync.
       report_if (\<not> is_set (sy_remote sync))
         (issue_error ''sync.remote'' ''the [sync] ledger requires remote (the git remote it is shared through)''))"

definition calendar_issue :: "string \<Rightarrow> string \<Rightarrow> report" where
  "calendar_issue p spec = (case to_on_calendar spec of Inl message \<Rightarrow> issue_error p message | Inr _ \<Rightarrow> [])"

definition schedule_commands :: "string list" where
  "schedule_commands = [''deploy'', ''backup'']"

definition calendar_surface :: "schedule_section \<Rightarrow> report" where
  "calendar_surface schedule =
     (let has_calendar = is_set (sd_calendar schedule); has_raw = is_set (sd_on_calendar_raw schedule) in
      if \<not> has_calendar \<and> \<not> has_raw then
        issue_error ''schedule.calendar'' (''the [schedule] timer requires `calendar` (e.g. '' @ dquoted ''daily 03:00'' @
          '') or the systemd-coupled escape hatch `on_calendar_raw`'')
      else if has_calendar \<and> has_raw then
        issue_error ''schedule.calendar'' ''set either `calendar` or `on_calendar_raw`, not both''
      else with_section (sd_calendar schedule) [] (calendar_issue ''schedule.calendar''))"

definition validate_schedule :: "deploy_config \<Rightarrow> report" where
  "validate_schedule cfg =
     with_section (cf_schedule cfg) [] (\<lambda>schedule.
       calendar_surface schedule @
       (case sd_command schedule of
          None \<Rightarrow> issue_error ''schedule.command'' (''set `command` explicitly ('' @ dquoted ''deploy'' @ '' or '' @ dquoted ''backup'' @
            '') '' @ em_dash @ '' there is no default'')
        | Some command \<Rightarrow>
            if command \<notin> set schedule_commands then
              issue_error ''schedule.command'' (''unknown schedule command '' @ quoted_word command @ '' (expected: deploy, backup)'')
            else report_if (command = ''deploy'')
              (report_if (sd_allow_unattended_deploy schedule \<noteq> Some True)
                 (issue_error ''schedule.allow_unattended_deploy'' (''an unattended scheduled deploy requires allow_unattended_deploy = true '' @
                    ''(it removes the operator-is-watching protection by construction)'')) @
               report_if (\<not> is_set (Option.bind (cf_notify cfg) no_command))
                 (issue_error ''notify.command'' (''an unattended scheduled deploy requires a failure sink: '' @ ''set [notify].command'')))) @
       report_if (sd_notify schedule \<noteq> None)
         (issue_error ''schedule.notify'' (''[schedule].notify moved to `[notify].command`, the one sink every '' @
            ''unattended run reports to'')))"

definition unattended_runs :: "deploy_config \<Rightarrow> string list" where
  "unattended_runs cfg =
     (if Option.bind (cf_schedule cfg) sd_command = Some ''backup'' then [''the scheduled backup''] else []) @
     (if (case cf_backup cfg of Some b \<Rightarrow> ba_retain b \<noteq> [] | None \<Rightarrow> False) then [''the prune''] else []) @
     (if Option.bind (cf_drill cfg) dl_schedule \<noteq> None then [''the drill''] else []) @
     (if Option.bind (cf_refresh cfg) fr_schedule \<noteq> None then [''the refresh''] else [])"

definition validate_notify :: "deploy_config \<Rightarrow> report" where
  "validate_notify cfg =
     (case cf_notify cfg of
        Some notify \<Rightarrow>
          report_if (\<not> is_set (no_command notify))
            (issue_error ''notify.command'' ''the [notify] section requires command (run via `sh -c` on each failure)'')
      | None \<Rightarrow>
          let unattended = unattended_runs cfg in
          report_if (unattended \<noteq> [])
            (issue_warn ''notify.command'' (join '', '' unattended @ '' run'' @ (if length unattended = 1 then ''s'' else []) @
               '' unattended with no [notify].command, so a failure only reaches the journal; set [notify].command to be told'')))"

section \<open>Database\<close>

definition validate_admin_identity :: "deploy_config \<Rightarrow> report" where
  "validate_admin_identity cfg =
     with_section (Option.bind (cf_database cfg) da_admin_url_env) [] (\<lambda>admin.
       if blank admin then
         issue_error ''database.admin_url_env'' (''admin_url_env names the env var holding the restore identity's DSN; '' @ ''it cannot be blank'')
       else report_if (Option.bind (cf_migration cfg) mi_database_url_env = Some admin)
         (issue_error ''database.admin_url_env'' (''admin_url_env is the migration DSN's env var ('' @ admin @
            ''); the restore identity must be a separate, superuser role, never the app's'')))"

definition on_empty_values :: "string list" where
  "on_empty_values = [''fail'', ''warn'']"

definition validate_tviews_gate :: "database_section \<Rightarrow> report" where
  "validate_tviews_gate database =
     with_section (da_tviews database) [] (\<lambda>tviews.
       report_if (Option.bind (da_requires database) rq_pg_tviews \<noteq> Some True)
         (issue_error ''database.tviews'' (''[database.tviews] tunes the empty-TVIEW gate, which only '' @
            ''[database.requires].pg_tviews = true declares'')) @
       with_section (tv_on_empty tviews) [] (\<lambda>value.
         report_if (value \<notin> set on_empty_values)
           (issue_error ''database.tviews.on_empty'' (''on_empty = '' @ quoted_word value @
              '' is not one of: fail, warn (the gate cannot be switched off while pg_tviews is declared)''))))"

definition validate_database :: "deploy_config \<Rightarrow> report" where
  "validate_database cfg =
     with_section (cf_database cfg) [] (\<lambda>database.
       validate_admin_identity cfg @
       validate_tviews_gate database @
       with_section (da_requires database) [] (\<lambda>requires.
         report_if (rq_postgres_major requires = None \<and> rq_pg_tviews requires \<noteq> Some True)
           (issue_error ''database.requires'' ''[database.requires] declares nothing: set postgres_major and/or pg_tviews = true'') @
         with_section (rq_postgres_major requires) [] (\<lambda>major.
           report_if (major < 10)
             (issue_error ''database.requires.postgres_major'' (''postgres_major = '' @ show_nat (unat major) @
                '' is not a PostgreSQL major version fraisier checks (10 or later)''))) @
         report_if (\<not> is_set (Option.bind (cf_migration cfg) mi_database_url_env))
           (issue_error ''migration.database_url_env'' (''[database.requires] is checked against the database, so it needs '' @
              ''[migration].database_url_env (the env var holding the DSN)''))))"

section \<open>Backup and drill\<close>

definition plain_path_rule :: string where
  "plain_path_rule = '' must be an absolute path of letters, digits, '' @ quoted_word ''/'' @ '', '' @ quoted_word ''.'' @ '', '' @
     quoted_word ''_'' @ '' and '' @ quoted_word ''-'' @ '' with no '' @ quoted_word ''..''"

definition validate_retain_dir :: "string option \<Rightarrow> string option \<Rightarrow> string \<Rightarrow> report" where
  "validate_retain_dir dir backup_dir at =
     (case dir of
        None \<Rightarrow> issue_error (at @ ''.dir'') ''a retain entry requires dir''
      | Some dir \<Rightarrow>
          if \<not> is_absolute dir \<or> \<not> is_plain_dir dir then
            issue_error (at @ ''.dir'') (''dir'' @ plain_path_rule @ '', not '' @ debug_str dir)
          else with_section backup_dir [] (\<lambda>base.
            report_if (\<not> path_starts_with dir base)
              (issue_error (at @ ''.dir'') (''dir must be [backup].dir ('' @ base @ '') or a directory below it, not '' @ debug_str dir @
                 '': a prune removes old files, so it may only reach the archives''))))"

definition archive_suffix :: string where
  "archive_suffix = dropWhile (\<lambda>c. c = CHR ''*'') default_pattern"

definition pattern_ok :: "string \<Rightarrow> bool" where
  "pattern_ok pattern =
     (pattern \<noteq> [] \<and> pattern \<noteq> ''.'' \<and> pattern \<noteq> ''..'' \<and>
      list_all (\<lambda>c. is_plain c \<and> c \<noteq> CHR ''/'' \<or> c = CHR ''*'' \<or> c = CHR ''?'') pattern)"

definition validate_retain_match :: "string \<Rightarrow> string \<Rightarrow> report" where
  "validate_retain_match pattern at =
     (if \<not> pattern_ok pattern then
        issue_error (at @ ''.match'') (''match must be a file-name glob within dir (letters, digits, '' @ quoted_word ''.'' @ '', '' @
          quoted_word ''_'' @ '', '' @ quoted_word ''-'' @ '', '' @ quoted_word ''*'' @ '', '' @ quoted_word ''?'' @ ''; no '' @
          quoted_word ''/'' @ ''), not '' @ debug_str pattern)
      else report_if (\<not> suffix archive_suffix pattern)
        (issue_error (at @ ''.match'') (''match must end in the archive suffix '' @ quoted_word archive_suffix @ '', not '' @ debug_str pattern @
           '': a prune removes every old file the glob selects'')))"

definition validate_retain_entry :: "retain_entry \<Rightarrow> string option \<Rightarrow> string \<Rightarrow> report" where
  "validate_retain_entry entry backup_dir at =
     validate_retain_dir (re_dir entry) backup_dir at @
     (case re_schedule entry of
        None \<Rightarrow> issue_error (at @ ''.schedule'') (''a retain entry requires schedule (for example '' @ dquoted ''daily 05:30'' @ '')'')
      | Some spec \<Rightarrow> calendar_issue (at @ ''.schedule'') spec) @
     (case re_retention_days entry of
        None \<Rightarrow> issue_error (at @ ''.retention_days'') ''a retain entry requires retention_days''
      | Some n \<Rightarrow> report_if (n = 0) (issue_error (at @ ''.retention_days'') ''retention_days must be at least 1'')) @
     with_section (re_keep_last entry) [] (\<lambda>keep_last.
       if keep_last = 0 then issue_error (at @ ''.keep_last'') ''keep_last must be at least 1: the newest archive is the restore point''
       else report_if (keep_last < retain_keep_minimum entry)
         (issue_error (at @ ''.keep_last'') (''keep_last = '' @ show_nat (unat keep_last) @ '' is below keep_minimum = '' @
            show_nat (unat (retain_keep_minimum entry)) @ '': a corpus cannot hold at least '' @ show_nat (unat (retain_keep_minimum entry)) @
            '' and at most '' @ show_nat (unat keep_last) @ '' archives''))) @
     validate_retain_match (retain_pattern entry) at @
     report_if (re_min_free_gb entry = Some 0)
       (issue_error (at @ ''.min_free_gb'') ''min_free_gb must be at least 1 (omit it for no threshold)'')"

fun retain_issues :: "string option \<Rightarrow> nat \<Rightarrow> (string \<times> nat) list \<Rightarrow> retain_entry list \<Rightarrow> report" where
  "retain_issues dir i names [] = []"
| "retain_issues dir i names (entry # entries) =
     (let at = indexed ''backup.retain'' i in
      validate_retain_entry entry dir at @
      (case retain_name entry of
         None \<Rightarrow>
           issue_error (at @ ''.name'') (''a retain entry needs a name for its systemd units: set `name` (its dir '' @
             ''has no last component to take one from)'') @
           retain_issues dir (Suc i) names entries
       | Some name \<Rightarrow>
           report_if (\<not> is_unit_word name)
             (issue_error (at @ ''.name'') (''retain entry name '' @ quoted_word name @ '' names its systemd units, so it may hold '' @
                ''only letters, digits, '' @ quoted_word ''_'' @ '', '' @ quoted_word ''.'' @ '' and '' @ quoted_word ''-'' @
                '', and not start with '' @ quoted_word ''-'')) @
           (case find (\<lambda>(seen, _). seen = name) names of
              Some (_, first) \<Rightarrow>
                issue_error (at @ ''.name'') (''retain entry name '' @ quoted_word name @ '' is already used by '' @
                  indexed ''backup.retain'' first @ ''; set a distinct `name` on one of them'') @
                retain_issues dir (Suc i) names entries
            | None \<Rightarrow> retain_issues dir (Suc i) (names @ [(name, i)]) entries)))"

definition backup_dir_issues :: "deploy_config \<Rightarrow> report" where
  "backup_dir_issues cfg =
     (case Option.bind (cf_backup cfg) ba_dir of
        Some d \<Rightarrow>
          if \<not> is_absolute d then
            issue_error ''backup.dir'' (''backup.dir must be an absolute path, not '' @ quoted_word d @
              '' (a scheduled unit runs from /, so a relative one moves with the working directory)'')
          else report_if (\<not> is_plain_dir d)
            (issue_error ''backup.dir'' (''backup.dir must be a path of letters, digits, '' @ quoted_word ''/'' @ '', '' @ quoted_word ''.'' @ '', '' @
               quoted_word ''_'' @ '' and '' @ quoted_word ''-'' @ '' with no '' @ quoted_word ''..'' @ '', not '' @ debug_str d @
               '': it is written into the scheduled units''))
      | None \<Rightarrow>
          if cf_backup cfg \<noteq> None then
            issue_error ''backup.dir'' (''the [backup] section requires dir: the directory archives are written to, '' @
              ''and the one every [[backup.retain]].dir must be within'')
          else report_if (Option.bind (cf_schedule cfg) sd_command = Some ''backup'')
            (issue_error ''backup.dir'' (''a scheduled backup requires [backup].dir: without it every run writes the '' @
               ''same file and fails from the second run on'')))"

definition validate_backup :: "deploy_config \<Rightarrow> report" where
  "validate_backup cfg =
     backup_dir_issues cfg @
     retain_issues (Option.bind (cf_backup cfg) ba_dir) 0 [] (case cf_backup cfg of Some b \<Rightarrow> ba_retain b | None \<Rightarrow> [])"

definition absolute_issue :: "string \<Rightarrow> string \<Rightarrow> string option \<Rightarrow> report" where
  "absolute_issue p name dir =
     with_section dir [] (\<lambda>d. report_if (\<not> is_absolute d)
       (issue_error p (name @ '' must be an absolute path, not '' @ quoted_word d)))"

definition validate_drill :: "deploy_config \<Rightarrow> report" where
  "validate_drill cfg =
     with_section (cf_drill cfg) [] (\<lambda>drill.
       report_if (Option.bind (cf_backup cfg) ba_dir = None)
         (issue_error ''drill'' (''a [drill] restores the newest archive in [backup].dir, so it requires '' @ ''[backup].dir'')) @
       with_section (dl_schedule drill) [] (calendar_issue ''drill.schedule'') @
       report_if (dl_max_age_hours drill = Some 0) (issue_error ''drill.max_age_hours'' ''max_age_hours must be at least 1'') @
       report_if (dl_min_tables drill = Some 0)
         (issue_error ''drill.min_tables'' ''min_tables must be at least 1 (omit it for no table check)'') @
       absolute_issue ''drill.data_dir'' ''data_dir'' (dl_data_dir drill))"

section \<open>Refresh and metrics\<close>

definition validate_sanitize :: "refresh_section \<Rightarrow> report" where
  "validate_sanitize refresh =
     (case fr_sanitize refresh of
        None \<Rightarrow>
          issue_error ''refresh.sanitize'' (''a [refresh] needs sanitize: the script or SQL file that strips personal data '' @
            ''and integration settings from the copy before the service starts. Set sanitize = '' @ dquoted ''none'' @
            '' with a sanitize_reason to skip it'')
      | Some s \<Rightarrow>
          if s = sanitize_none then
            report_if (\<not> is_set (fr_sanitize_reason refresh))
              (issue_error ''refresh.sanitize_reason'' (''sanitize = '' @ dquoted ''none'' @
                 '' needs a sanitize_reason: why this copy needs no cleanup (it is recorded in the refresh receipt)''))
          else
            report_if (\<not> is_absolute s \<or> \<not> is_plain_dir s)
              (issue_error ''refresh.sanitize'' (''sanitize must be '' @ dquoted ''none'' @ '' or an absolute path of letters, digits, '' @
                 quoted_word ''/'' @ '', '' @ quoted_word ''.'' @ '', '' @ quoted_word ''_'' @ '' and '' @ quoted_word ''-'' @ '' with no '' @
                 quoted_word ''..'' @ '', not '' @ debug_str s)) @
            report_if (fr_sanitize_reason refresh \<noteq> None)
              (issue_error ''refresh.sanitize_reason'' (''sanitize_reason applies only to sanitize = '' @ dquoted ''none'' @
                 ''; this config runs a sanitize step'')))"

definition unit_kind :: "string \<Rightarrow> string option" where
  "unit_kind unit = map_option snd (rsplit_once (CHR ''.'') unit)"

fun unit_issues :: "nat \<Rightarrow> string list \<Rightarrow> string list \<Rightarrow> report" where
  "unit_issues i before [] = []"
| "unit_issues i before (unit # units) =
     (if \<not> is_unit_word unit \<or> unit_kind unit \<notin> {Some ''service'', Some ''timer''} then
        issue_error (indexed ''refresh.units'' i) (''a refresh unit must be a .service or .timer name of letters, digits, '' @
          quoted_word ''_'' @ '', '' @ quoted_word ''.'' @ '' and '' @ quoted_word ''-'' @ '', not '' @ debug_str unit)
      else report_if (unit \<in> set before) (issue_error (indexed ''refresh.units'' i) (unit @ '' is listed twice''))) @
     unit_issues (Suc i) (before @ [unit]) units"

definition refresh_source_issues :: "deploy_config \<Rightarrow> refresh_section \<Rightarrow> report" where
  "refresh_source_issues cfg refresh =
     (case Option.bind (cf_deploy cfg) dp_production of
        Some False \<Rightarrow> []
      | Some True \<Rightarrow> issue_error ''deploy.production'' (''a production config cannot carry a [refresh] section: a refresh drops this '' @
          ''environment's database'')
      | None \<Rightarrow> issue_error ''deploy.production'' (''a config with a [refresh] section must declare [deploy] production = false: '' @
          ''a refresh drops this environment's database, and an undeclared one is never taken to be non-production'')) @
     (case fr_source_dir refresh of
        None \<Rightarrow> issue_error ''refresh.source_dir'' (''a [refresh] needs source_dir: the directory holding the source environment's '' @
          ''archives'')
      | Some _ \<Rightarrow> absolute_issue ''refresh.source_dir'' ''source_dir'' (fr_source_dir refresh)) @
     (case fr_source_environment refresh of
        None \<Rightarrow> issue_error ''refresh.source_environment'' ''a [refresh] needs source_environment: the environment whose archives it restores''
      | Some source \<Rightarrow>
          if \<not> is_unit_word source then
            issue_error ''refresh.source_environment'' (''source_environment '' @ quoted_word source @ '' is not a valid environment name'')
          else report_if (Some source = Option.bind (cf_deploy cfg) dp_environment)
            (issue_error ''refresh.source_environment'' (''source_environment is this config's own environment ('' @ quoted_word source @
               ''); a refresh replaces this environment's database with another environment's archive'')))"

definition validate_refresh :: "deploy_config \<Rightarrow> report" where
  "validate_refresh cfg =
     with_section (cf_refresh cfg) [] (\<lambda>refresh.
       refresh_source_issues cfg refresh @
       validate_sanitize refresh @
       unit_issues 0 [] (fr_units refresh) @
       report_if (\<not> is_env_name (refresh_outbound_flag refresh))
         (issue_error ''refresh.outbound_flag'' (''outbound_flag must be an environment variable name (A-Z, 0-9 and '' @ quoted_word ''_'' @
            '', not starting with a digit), not '' @ debug_str (refresh_outbound_flag refresh))) @
       with_section (fr_schedule refresh) [] (calendar_issue ''refresh.schedule'') @
       report_if (fr_max_age_hours refresh = Some 0) (issue_error ''refresh.max_age_hours'' ''max_age_hours must be at least 1'') @
       report_if (fr_min_tables refresh = Some 0)
         (issue_error ''refresh.min_tables'' ''min_tables must be at least 1 (omit it for no table check)'') @
       absolute_issue ''refresh.data_dir'' ''data_dir'' (fr_data_dir refresh))"

definition validate_metrics :: "deploy_config \<Rightarrow> report" where
  "validate_metrics cfg =
     with_section (cf_metrics cfg) [] (\<lambda>metrics.
       case me_textfile_dir metrics of
         None \<Rightarrow> issue_error ''metrics.textfile_dir'' (''a [metrics] section needs textfile_dir: the directory node_exporter's textfile '' @
           ''collector reads'')
       | Some _ \<Rightarrow> absolute_issue ''metrics.textfile_dir'' ''textfile_dir'' (me_textfile_dir metrics))"

section \<open>Blue-green, checks, policy\<close>

definition validate_blue_green :: "deploy_config \<Rightarrow> report" where
  "validate_blue_green cfg =
     (case Option.bind (cf_deploy cfg) dp_strategy of
        None \<Rightarrow> []
      | Some s \<Rightarrow>
          if s \<noteq> ''blue-green'' then
            issue_error ''deploy.strategy'' (''unknown deploy strategy '' @ quoted_word s @ '' (expected: blue-green)'')
          else with_section (cf_blue_green cfg)
            (issue_error ''blue_green'' (''[deploy].strategy = '' @ dquoted ''blue-green'' @ '' requires a [blue_green] section'')) (\<lambda>bg.
            report_if (\<not> is_set (gs_green_unit bg))
              (issue_error ''blue_green.green_unit'' ''blue-green requires green_unit (the green fleet's service unit)'') @
            report_if (\<not> is_set (gs_green_health_url bg))
              (issue_error ''blue_green.green_health_url'' ''blue-green requires green_health_url (green's pre-swap health gate)'') @
            report_if (gs_green_servers bg = [])
              (issue_error ''blue_green.green_servers'' ''blue-green requires green_servers (green's nginx upstream backends)'') @
            (if Option.bind (cf_lb cfg) ls_adapter = Some ''nginx'' then
               report_if (\<not> is_set (Option.bind (cf_lb cfg) ls_upstream)) (issue_error ''lb.upstream'' ''blue-green requires [lb].upstream'') @
               report_if (Option.bind (cf_lb cfg) ls_include_dir = None)
                 (issue_error ''lb.include_dir'' ''blue-green requires [lb].include_dir (the traffic-swap include dir)'')
             else issue_error ''lb.adapter'' (''blue-green requires an [lb] section with adapter = '' @ dquoted ''nginx'' @ '' (the traffic director)'')) @
            report_if (\<not> is_set (Option.bind (cf_migration cfg) mi_adapter))
              (issue_error ''migration.adapter'' ''blue-green requires a [migration] adapter for the window-safety gate'')))"

fun check_issues :: "nat \<Rightarrow> string set \<Rightarrow> check_section list \<Rightarrow> report" where
  "check_issues i seen [] = []"
| "check_issues i seen (c # cs) =
     report_if (\<not> is_set (ck_name c)) (issue_error (indexed ''checks'' i @ ''.name'') ''each check requires a non-empty name'') @
     report_if (\<not> is_set (ck_command c)) (issue_error (indexed ''checks'' i @ ''.command'') ''each check requires a non-empty command'') @
     with_section (ck_name c) [] (\<lambda>name. report_if (name \<in> seen) (issue_error ''checks'' (''duplicate check name '' @ quoted_word name))) @
     check_issues (Suc i) (case ck_name c of Some name \<Rightarrow> insert name seen | None \<Rightarrow> seen) cs"

definition validate_checks :: "deploy_config \<Rightarrow> report" where
  "validate_checks cfg = check_issues 0 {} (cf_checks cfg)"

text \<open>The tiers a list names, and an issue for each name that is none.\<close>

definition tier_issues :: "string list option \<Rightarrow> string \<Rightarrow> report" where
  "tier_issues names p =
     concat (map (\<lambda>name. case tier_from_str name of Inl e \<Rightarrow> issue_error p (show_unknown_tier e) | Inr _ \<Rightarrow> []) (unwrap_or names []))"

definition parsed_tiers :: "string list option \<Rightarrow> risk_tier set" where
  "parsed_tiers names = set (listed (Some (unwrap_or names [])) [])"

definition wants_approval :: "policy \<Rightarrow> bool" where
  "wants_approval p =
     (list_ex (\<lambda>t. pol_actions p t = Some RequireApproval) all_tiers \<or> pol_unclassified p = UnclRequireApproval)"

definition validate_policy :: "deploy_config \<Rightarrow> report" where
  "validate_policy cfg =
     with_section (cf_policy cfg) [] (\<lambda>policy.
       tier_issues (po_auto_apply policy) ''policy.auto_apply'' @
       tier_issues (po_require_approval policy) ''policy.require_approval'' @
       concat (map (\<lambda>tier. issue_error ''policy.auto_apply'' (''the tier '' @ quoted_word (tier_as_str tier) @
           '' is listed in both auto_apply and require_approval; a tier maps to exactly one action''))
         (filter (\<lambda>t. t \<in> parsed_tiers (po_auto_apply policy) \<inter> parsed_tiers (po_require_approval policy)) all_tiers)) @
       with_section (po_unclassified policy) [] (\<lambda>value.
         report_if (value \<notin> set unclassified_actions)
           (issue_error ''policy.unclassified'' (''unknown value '' @ quoted_word value @ '' (expected one of: '' @
              join '', '' unclassified_actions @ ''); a change nobody classified may never auto-apply''))) @
       report_if (map_option effective_preflight_mode (cf_migration cfg) = Some Off)
         (issue_warn ''policy'' (''[policy] is configured but [migration].preflight_mode is '' @ dquoted ''off'' @
            '' (or forward_compatible_lint = false), so nothing inspects the pending schema changes '' @
            ''and every deploy will be refused at the policy gate; turn preflight on, or remove [policy]'')) @
       report_if (po_approval_timeout_secs policy = Some 0)
         (issue_error ''policy.approval_timeout_secs'' (''an approval timeout of 0 would refuse every approval before the hook could answer; '' @
            ''omit the key or give it a positive number of seconds'')) @
       (let resolved = policy_resolve policy in
        report_if (wants_approval resolved \<and> \<not> has_approval_hook resolved)
          (issue_warn ''policy.approval_command'' (''the policy requires approval for at least one tier but no approval_command is '' @
             ''configured; those changes will be refused at the gate, not approved'')) @
        report_if (\<not> wants_approval resolved \<and> has_approval_hook resolved)
          (issue_warn ''policy.approval_command'' (''an approval_command is configured but no tier requires approval; the hook will '' @
             ''never run''))))"

section \<open>The passes\<close>

definition validate_config :: "deploy_config \<Rightarrow> report" where
  "validate_config cfg =
     concat (map (\<lambda>v. v cfg)
       [validate_deploy, validate_artifact, validate_migration, validate_service, validate_health, validate_hosts, validate_lb,
        validate_webhook, validate_schedule, validate_notify, validate_database, validate_backup, validate_drill, validate_refresh,
        validate_metrics, validate_sync, validate_blue_green, validate_checks, validate_policy])"

definition validate_db_ops :: "deploy_config \<Rightarrow> report" where
  "validate_db_ops cfg =
     concat (map (\<lambda>v. v cfg) [validate_deploy, validate_migration, validate_metrics, validate_database, validate_backup, validate_refresh])"

definition validate_backup_ops :: "deploy_config \<Rightarrow> report" where
  "validate_backup_ops cfg = concat (map (\<lambda>v. v cfg) [validate_deploy, validate_backup, validate_drill, validate_metrics])"

definition validate_checks_only :: "deploy_config \<Rightarrow> report" where
  "validate_checks_only cfg = validate_checks cfg"


section \<open>What an accepted configuration satisfies\<close>

named_theorems report_simps

lemma report_ok_simps [report_simps]:
  "report_ok []" "report_ok (r @ q) \<longleftrightarrow> report_ok r \<and> report_ok q" "\<not> report_ok (issue_error p m)" "report_ok (issue_warn p m)"
  "report_ok (report_if b r) \<longleftrightarrow> (b \<longrightarrow> report_ok r)"
  by (auto simp: report_ok_def issue_error_def issue_warn_def report_if_def)

lemma report_ok_concat [report_simps]: "report_ok (concat rs) \<longleftrightarrow> (\<forall>r\<in>set rs. report_ok r)"
  by (induction rs) (simp_all add: report_simps)

lemma accepted_deploy:
  assumes "report_ok (validate_deploy cfg)"
  obtains d n e where "cf_deploy cfg = Some d" and "dp_name d = Some n" and "\<not> blank n" and "dp_environment d = Some e" and "\<not> blank e"
  using assms by (auto simp: validate_deploy_def is_set_def report_simps split: option.splits)

text \<open>
  The passes over a list that refuse a repeated name: hosts, checks, retain entries and refresh units. Each
  walks the list with the names seen so far and goes on after an issue, so what it promises is that an
  accepted list has good elements with names, and no name twice.
\<close>

locale unique_scan =
  fixes scan :: "nat \<Rightarrow> 's \<Rightarrow> 'a list \<Rightarrow> report" and seen :: "'s \<Rightarrow> string set"
    and label :: "'a \<Rightarrow> string option" and good :: "'a \<Rightarrow> bool"
  assumes scan_Cons: "report_ok (scan i s (x # xs)) \<Longrightarrow>
    good x \<and> (\<exists>n s'. label x = Some n \<and> n \<notin> seen s \<and> seen s' = insert n (seen s) \<and> report_ok (scan (Suc i) s' xs))"
begin

lemma accepted_names:
  assumes "report_ok (scan i s xs)"
  shows "(\<forall>x\<in>set xs. good x \<and> label x \<noteq> None) \<and> distinct (map label xs) \<and> label ` set xs \<inter> Some ` seen s = {}"
  using assms
proof (induction xs arbitrary: i s)
  case (Cons x xs)
  from scan_Cons [OF Cons.prems] obtain n s' where x: "good x" "label x = Some n" "n \<notin> seen s" "seen s' = insert n (seen s)"
    and rest: "report_ok (scan (Suc i) s' xs)" by blast
  from Cons.IH [OF rest] x(4) have ih: "\<forall>x\<in>set xs. good x \<and> label x \<noteq> None" "distinct (map label xs)"
      "label ` set xs \<inter> insert (Some n) (Some ` seen s) = {}" by simp_all
  from ih(3) have "Some n \<notin> label ` set xs" "label ` set xs \<inter> Some ` seen s = {}" by blast+
  with ih(1,2) x(1-3) show ?case by auto
qed simp

lemma accepted:
  assumes "report_ok (scan i s xs)"
  shows "\<forall>x\<in>set xs. good x" and "distinct (map label xs)" and "x \<in> set xs \<Longrightarrow> \<exists>n. label x = Some n"
  using accepted_names [OF assms] by auto

end

definition host_ok :: "host_spec \<Rightarrow> bool" where
  "host_ok h \<longleftrightarrow> is_set (hp_name h) \<and> is_set (hp_address h)"

definition check_ok :: "check_section \<Rightarrow> bool" where
  "check_ok c \<longleftrightarrow> is_set (ck_name c) \<and> is_set (ck_command c)"

definition unit_ok :: "string \<Rightarrow> bool" where
  "unit_ok unit \<longleftrightarrow> is_unit_word unit \<and> unit_kind unit \<in> {Some ''service'', Some ''timer''}"

definition retain_ok :: "string option \<Rightarrow> retain_entry \<Rightarrow> bool" where
  "retain_ok dir e \<longleftrightarrow> (\<exists>at. report_ok (validate_retain_entry e dir at)) \<and> (\<exists>n. retain_name e = Some n \<and> is_unit_word n)"

interpretation host_scan: unique_scan inventory_issues id hp_name host_ok
proof
  fix i s x xs
  assume "report_ok (inventory_issues i s (x # xs))"
  then show "host_ok x \<and> (\<exists>n s'. hp_name x = Some n \<and> n \<notin> id s \<and> id s' = insert n (id s) \<and> report_ok (inventory_issues (Suc i) s' xs))"
    by (auto simp: report_simps host_ok_def is_set_def split: option.splits)
qed

interpretation check_scan: unique_scan check_issues id ck_name check_ok
proof
  fix i s x xs
  assume "report_ok (check_issues i s (x # xs))"
  then show "check_ok x \<and> (\<exists>n s'. ck_name x = Some n \<and> n \<notin> id s \<and> id s' = insert n (id s) \<and> report_ok (check_issues (Suc i) s' xs))"
    by (auto simp: report_simps check_ok_def is_set_def split: option.splits)
qed

interpretation unit_scan: unique_scan unit_issues set Some unit_ok
proof
  fix i s x xs
  assume "report_ok (unit_issues i s (x # xs))"
  then have "unit_ok x" "x \<notin> set s" "report_ok (unit_issues (Suc i) (s @ [x]) xs)"
    by (auto simp: report_simps unit_ok_def split: if_splits)
  then show "unit_ok x \<and> (\<exists>n s'. Some x = Some n \<and> n \<notin> set s \<and> set s' = insert n (set s) \<and> report_ok (unit_issues (Suc i) s' xs))"
    by (auto intro!: exI [of _ "s @ [x]"])
qed

interpretation retain_scan: unique_scan "retain_issues dir" "\<lambda>names. fst ` set names" retain_name "retain_ok dir" for dir
proof
  fix i s x xs
  assume ok: "report_ok (retain_issues dir i s (x # xs))"
  then obtain n where n: "retain_name x = Some n" "is_unit_word n" by (auto simp: Let_def report_simps split: option.splits)
  with ok have new: "find (\<lambda>(y, _). y = n) s = None" by (auto simp: Let_def report_simps split: option.splits)
  with ok n have "report_ok (retain_issues dir (Suc i) (s @ [(n, i)]) xs)" "retain_ok dir x"
    by (auto simp: Let_def report_simps retain_ok_def)
  moreover have "n \<notin> fst ` set s" using new by (auto simp: find_None_iff)
  ultimately show "retain_ok dir x \<and> (\<exists>m s'. retain_name x = Some m \<and> m \<notin> fst ` set s \<and> fst ` set s' = insert m (fst ` set s) \<and>
      report_ok (retain_issues dir (Suc i) s' xs))"
    using n by (auto intro!: exI [of _ "s @ [(n, i)]"])
qed

end
