(* ===== verification/Config_Accepted.thy ===== *)
theory Config_Accepted
  imports Config_Validate Multi_Host_Rollout Db_Retention
begin

text \<open>
  What the validation pass guarantees to the code that uses a configuration: the vocabulary the accessors
  resolve to is proper (names, a rollout plan, a policy), the text that goes into a scheduled unit is harmless,
  and an accepted retention entry can only reach archives below the backup directory.
\<close>

section \<open>Hosts and policy\<close>

lemma accepted_pass: "report_ok (concat (map (\<lambda>v. v cfg) vs)) \<Longrightarrow> v \<in> set vs \<Longrightarrow> report_ok (v cfg)"
  by (simp add: report_simps)

lemma accepted_section:
  assumes "report_ok (validate_config cfg)"
  shows "report_ok (validate_deploy cfg)" "report_ok (validate_artifact cfg)" "report_ok (validate_hosts cfg)"
    "report_ok (validate_backup cfg)" "report_ok (validate_refresh cfg)" "report_ok (validate_policy cfg)"
    "report_ok (validate_schedule cfg)" "report_ok (validate_drill cfg)" "report_ok (validate_migration cfg)" "report_ok (validate_metrics cfg)"
    "report_ok (validate_database cfg)" "report_ok (validate_checks cfg)"
  using accepted_pass [OF assms [unfolded validate_config_def]] by simp_all

lemma inventory_hosts:
  "inv_hosts (foldl (\<lambda>inventory h. with_host (f h) inventory) inventory hs) = inv_hosts inventory @ map f hs"
  by (induction hs arbitrary: inventory) (simp_all add: with_host_def)

lemma accepted_hosts:
  assumes "report_ok (validate_hosts cfg)" and "cf_hosts cfg = Some hosts"
  shows "hs_inventory hosts \<noteq> []" and "report_ok (inventory_issues 0 {} (hs_inventory hosts))"
    and "hs_strategy hosts \<in> {None, Some strategy_rolling} \<Longrightarrow> hs_rolling_batch_size hosts \<noteq> Some 0"
  using assms by (auto simp: validate_hosts_def validate_rolling_def report_simps)

lemma plan_batches_proper:
  assumes "hosts \<noteq> []"
  shows "concat (plan_batches s hosts) = hosts \<and> [] \<notin> set (plan_batches s hosts)"
  using assms chunks_concat [of "max n 1" for n] chunks_bounds by (cases s) fastforce+

text \<open>
  C19: an accepted configuration is well-formed for the flows. The deploy has a name and an environment and the
  artifact source is one of the five known; and if it has hosts, they resolve to a rollout: an inventory that
  is not empty, with a distinct, non-blank name and a non-blank address for every host, and a batch size of at
  least one, so that the batches are non-empty and run through the inventory in its order.
\<close>

theorem accepted_config_is_well_formed:
  assumes "report_ok (validate_config cfg)"
  shows "\<not> blank (ctx_fraise (migration_adapter_ctx cfg)) \<and> \<not> blank (ctx_environment (migration_adapter_ctx cfg)) \<and>
    (\<exists>a s. cf_artifact cfg = Some a \<and> ac_source a = Some s \<and> s \<in> {''release'', ''pull'', ''release-ipc'', ''git'', ''local''}) \<and>
    (\<forall>i s. config_host_inventory cfg = Some i \<and> config_rollout_strategy cfg = Some s \<longrightarrow>
       inv_hosts i \<noteq> [] \<and> distinct (map ent_host (inv_hosts i)) \<and>
       (\<forall>h\<in>set (inv_hosts i). \<not> blank (ent_host h) \<and> \<not> blank (ent_address h)) \<and> s \<noteq> Rolling 0 \<and>
       concat (plan_batches s (inv_hosts i)) = inv_hosts i \<and> [] \<notin> set (plan_batches s (inv_hosts i)))"
proof (intro conjI allI impI ballI)
  note ok = accepted_section [OF assms]
  from ok(1) show "\<not> blank (ctx_fraise (migration_adapter_ctx cfg))" "\<not> blank (ctx_environment (migration_adapter_ctx cfg))"
    by (auto elim!: accepted_deploy simp: migration_adapter_ctx_def ctx_new_def unwrap_or_def Let_def split: option.splits)
  from ok(2) show "\<exists>a s. cf_artifact cfg = Some a \<and> ac_source a = Some s \<and> s \<in> {''release'', ''pull'', ''release-ipc'', ''git'', ''local''}"
    by (auto simp: validate_artifact_def report_simps split: option.splits if_splits)
next
  fix i s
  assume r: "config_host_inventory cfg = Some i \<and> config_rollout_strategy cfg = Some s"
  then obtain hosts where h: "cf_hosts cfg = Some hosts" by (auto simp: config_host_inventory_def)
  note acc = accepted_hosts [OF accepted_section(3) [OF assms] h]
  define entry where "entry = (\<lambda>h :: host_spec. host_entry_new (unwrap_or (hp_name h) []) (unwrap_or (hp_address h) []))"
  have inv: "inv_hosts i = map entry (hs_inventory hosts)"
    using r h by (auto simp: config_host_inventory_def inventory_hosts inventory_new_def entry_def)
  have ent: "ent_host (entry h) = unwrap_or (hp_name h) []" "ent_address (entry h) = unwrap_or (hp_address h) []" for h
    by (simp_all add: entry_def host_entry_new_def)
  show ne: "inv_hosts i \<noteq> []" using acc(1) inv by simp
  have "map (\<lambda>h. Some (unwrap_or (hp_name h) [])) (hs_inventory hosts) = map hp_name (hs_inventory hosts)"
    using host_scan.accepted(3) [OF acc(2)] by (fastforce simp: unwrap_or_def)
  then have "distinct (map (\<lambda>h. Some (unwrap_or (hp_name h) [])) (hs_inventory hosts))"
    using host_scan.accepted(2) [OF acc(2)] by (simp only:)
  then show "distinct (map ent_host (inv_hosts i))" by (simp add: inv distinct_map inj_on_def ent comp_def)
  show "s \<noteq> Rolling 0"
  proof
    assume zero: "s = Rolling 0"
    with r h have "unat (unwrap_or (hs_rolling_batch_size hosts) 1) = 0" and strat: "\<not> (\<exists>x\<in>set strategy_all_at_once. hs_strategy hosts = Some x)"
      by (auto simp: config_rollout_strategy_def split: option.splits if_splits)
    then have zb: "hs_rolling_batch_size hosts = Some 0" by (auto simp: unwrap_or_def unat_eq_0 split: option.splits)
    have "hs_strategy hosts \<in> {None, Some strategy_rolling}"
      using accepted_section(3) [OF assms] strat h by (auto simp: validate_hosts_def report_simps split: option.splits if_splits)
    with acc(3) zb show False by blast
  qed
  show "concat (plan_batches s (inv_hosts i)) = inv_hosts i" "[] \<notin> set (plan_batches s (inv_hosts i))"
    using plan_batches_proper [OF ne] by blast+
  show "\<not> blank (ent_host e)" "\<not> blank (ent_address e)" if "e \<in> set (inv_hosts i)" for e
    using that host_scan.accepted(1) [OF acc(2)] is_set_unwrap by (fastforce simp: inv ent host_ok_def)+
qed

text \<open>A configuration with the required sections only, which the examples extend.\<close>

definition base_config :: deploy_config where
  "base_config =
     \<lparr>cf_deploy = Some \<lparr>dp_name = Some ''shop'', dp_environment = Some ''staging'', dp_strategy = None, dp_production = Some False\<rparr>,
      cf_hosts = None,
      cf_artifact = Some \<lparr>ac_source = Some ''git'', ac_release_url = None, ac_checksum_url = None, ac_checksum = None, ac_repo = Some ''r'',
        ac_reference = None, ac_path = None, ac_active_path = None, ac_staging_dir = None, ac_adapter_bin = None\<rparr>,
      cf_migration = Some \<lparr>mi_adapter = Some ''none'', mi_database_url_env = None, mi_migrations_path = None, mi_forward_compatible_lint = None,
        mi_preflight_mode = None, mi_preflight_backup_path = None, mi_settings = []\<rparr>,
      cf_service = Some \<lparr>se_adapter = Some ''systemd'', se_unit = Some ''u'', se_name = None, se_compose_service = None, se_compose_file = None,
        se_user = None\<rparr>,
      cf_health = Some \<lparr>he_adapter = Some ''http'', he_url = Some ''h'', he_expected_status = None, he_command = None, he_timeout_ms = None,
        he_headers = [], he_token_provider = None, he_require_capabilities = None\<rparr>,
      cf_federation = None, cf_lb = None, cf_ssh = None, cf_webhook = None, cf_schedule = None, cf_notify = None, cf_database = None,
      cf_backup = None, cf_drill = None, cf_refresh = None, cf_metrics = None, cf_sync = None, cf_blue_green = None, cf_checks = [],
      cf_policy = None\<rparr>"

definition fleet_config :: deploy_config where
  "fleet_config = base_config\<lparr>cf_hosts := Some \<lparr>hs_strategy = None, hs_rolling_batch_size = Some 2,
     hs_inventory = [\<lparr>hp_name = Some ''a'', hp_address = Some ''x''\<rparr>, \<lparr>hp_name = Some ''b'', hp_address = Some ''y''\<rparr>]\<rparr>\<rparr>"

theorem accepted_config_is_well_formed_witness:
  "report_ok (validate_config fleet_config) \<and> (\<exists>i. config_host_inventory fleet_config = Some i \<and>
     config_rollout_strategy fleet_config = Some (Rolling 2) \<and> concat (plan_batches (Rolling 2) (inv_hosts i)) = inv_hosts i \<and>
     length (inv_hosts i) = 2 \<and> distinct (map ent_host (inv_hosts i)))"
proof -
  have ok: "report_ok (validate_config fleet_config)" by code_simp
  moreover have "config_rollout_strategy fleet_config = Some (Rolling 2)" by code_simp
  moreover have "\<exists>i. config_host_inventory fleet_config = Some i \<and> length (inv_hosts i) = 2"
    by (simp add: config_host_inventory_def fleet_config_def base_config_def with_host_def inventory_new_def)
  ultimately show ?thesis using accepted_config_is_well_formed [OF ok] by metis
qed

section \<open>Calendars\<close>

definition calendar_char :: "char \<Rightarrow> bool" where
  "calendar_char c \<longleftrightarrow> ascii_alnum c \<or> c = CHR ''*'' \<or> c = CHR ''-'' \<or> c = CHR '':'' \<or> c = CHR '' ''"

definition week_days :: "string set" where
  "week_days = {''Mon'', ''Tue'', ''Wed'', ''Thu'', ''Fri'', ''Sat'', ''Sun''}"

text \<open>The calendar expressions of systemd the vocabulary can produce.\<close>

definition calendar_shape :: "string \<Rightarrow> bool" where
  "calendar_shape out \<longleftrightarrow> out = ''*-*-* *:00:00'' \<or>
     (\<exists>h<24. \<exists>m<60. out = ''*-*-* '' @ clock_text (h, m) \<or> (\<exists>d\<in>week_days. out = d @ '' *-*-* '' @ clock_text (h, m)) \<or>
       (\<exists>d\<in>{1..31}. out = ''*-*-'' @ pad 2 d @ '' '' @ clock_text (h, m)))"

lemma and_if_ok_Inr: "and_if_ok r f = Inr b \<longleftrightarrow> (\<exists>a. r = Inr a \<and> f a = Inr b)"
  by (cases r) (simp_all add: and_if_ok_def)

lemma ok_or_Inr: "ok_or x e = Inr a \<longleftrightarrow> x = Some a"
  by (cases x) (simp_all add: ok_or_def)

lemma parse_hh_mm_Inr: "parse_hh_mm t = Inr hm \<Longrightarrow> \<exists>h<24. \<exists>m<60. hm = (h, m)"
  by (auto simp: parse_hh_mm_def and_if_ok_Inr ok_or_Inr split: option.splits if_splits)

lemma parse_dow_Inr: "parse_dow t = Inr d \<Longrightarrow> d \<in> week_days"
  by (auto simp: parse_dow_def week_days_def Let_def split: if_splits)

lemma parse_dom_Inr: "parse_dom t = Inr d \<Longrightarrow> d \<in> {1..31}"
  by (auto simp: parse_dom_def and_if_ok_Inr split: if_splits)

lemma to_on_calendar_shape:
  assumes "to_on_calendar spec = Inr out"
  shows "calendar_shape out"
proof -
  consider "out = ''*-*-* *:00:00''"
    | t hm where "parse_hh_mm t = Inr hm" "out = ''*-*-* '' @ clock_text hm"
    | t hm u d where "parse_hh_mm t = Inr hm" "parse_dow u = Inr d" "out = d @ '' *-*-* '' @ clock_text hm"
    | t hm u d where "parse_hh_mm t = Inr hm" "parse_dom u = Inr d" "out = ''*-*-'' @ pad 2 d @ '' '' @ clock_text hm"
    using assms by (auto simp: to_on_calendar_def Let_def and_if_ok_Inr split: list.splits if_splits)
  then show ?thesis
    unfolding calendar_shape_def by cases (blast dest: parse_hh_mm_Inr parse_dow_Inr parse_dom_Inr)+
qed

lemma digits_calendar [simp]: "list_all calendar_char (pad w n)"
proof -
  have "is_digit c \<Longrightarrow> calendar_char c" for c by (simp add: is_digit_def calendar_char_def ascii_alnum_def Let_def)
  then show ?thesis using pad_digits(1) [of w n] by (auto simp: list_all_iff)
qed

lemma literals_calendar [simp]:
  "list_all calendar_char ''*-*-* *:00:00''" "list_all calendar_char ''*-*-''" "list_all calendar_char '' *-*-* ''" "list_all calendar_char ''*-*-* ''"
  "list_all calendar_char '':''" "list_all calendar_char '':00''" "list_all calendar_char '' ''"
  by (simp_all add: calendar_char_def ascii_alnum_def)

lemma week_day_calendar: "d \<in> week_days \<Longrightarrow> list_all calendar_char d"
proof -
  have "\<forall>d\<in>week_days. list_all calendar_char d" by (simp add: week_days_def calendar_char_def ascii_alnum_def)
  then show "d \<in> week_days \<Longrightarrow> list_all calendar_char d" by blast
qed

lemma clock_calendar: "list_all calendar_char (clock_text t)"
  unfolding clock_text_def list_all_append by (intro conjI digits_calendar literals_calendar)

lemma calendar_shape_chars: "calendar_shape out \<Longrightarrow> list_all calendar_char out"
  unfolding calendar_shape_def
  by (elim disjE exE conjE bexE; simp only: list_all_append literals_calendar clock_calendar digits_calendar week_day_calendar)

section \<open>The policy a configuration resolves to\<close>

lemma map_of_marked: "map_of (map (\<lambda>t. (t, c)) xs) t = (if t \<in> set xs then Some c else None)"
  by (induction xs) auto

lemma collect_map_marked:
  "collect_map (map (\<lambda>t. (t, a)) ts @ map (\<lambda>t. (t, b)) us) t = (if t \<in> set us then Some b else if t \<in> set ts then Some a else None)"
  by (simp add: collect_map_def rev_map map_of_marked map_add_def)

text \<open>
  C37: the resolved policy never applies on its own what it was not told to. A change is applied without
  approval exactly if it has a tier, the tier is in \<open>auto_apply\<close> (or in its default when the key is left out) and
  it is not in \<open>require_approval\<close> (or its default): an unclassified change never is, and of a tier in both lists
  the stricter action wins.
\<close>

theorem resolved_policy_auto_applies_iff:
  "action_for (policy_resolve p) change = AutoApply \<longleftrightarrow>
     (\<exists>t. sch_tier change = Some t \<and> t \<in> set (listed (po_auto_apply p) default_auto_apply) \<and>
          t \<notin> set (listed (po_require_approval p) default_require_approval))"
  by (auto simp: action_for_def policy_resolve_def Let_def with_approval_hook_def policy_new_def collect_map_marked
      split: option.splits)

definition lock_risky_policy :: policy_section where
  "lock_risky_policy = \<lparr>po_auto_apply = Some [''additive'', ''lock_risky''], po_require_approval = None, po_unclassified = None,
     po_approval_command = Some ''ask'', po_approval_timeout_secs = None\<rparr>"

text \<open>
  The overlap check compares the two lists as written, not as resolved. A policy that lists \<open>lock_risky\<close> under
  \<open>auto_apply\<close> and leaves \<open>require_approval\<close> out passes with no issue at all, although the default puts the tier in
  both, so the list it was written in has no effect.
\<close>

lemma overlap_with_default_is_silent:
  "validate_policy (base_config\<lparr>cf_policy := Some lock_risky_policy\<rparr>) = [] \<and>
   pol_actions (policy_resolve lock_risky_policy) LockRisky = Some RequireApproval"
  by code_simp

section \<open>Refresh\<close>

text \<open>
  A refresh is only ever accepted on an environment declared not to be production. A configuration that the
  database commands accept and that has a \<open>[refresh]\<close> declares \<open>production = false\<close>, restores another environment's
  archives from an absolute directory, says how the copy is cleaned or why not, and lists each unit once, as a
  \<open>.service\<close> or \<open>.timer\<close> name that no unit file or command line can misread.
\<close>

theorem accepted_refresh_is_guarded:
  assumes "report_ok (validate_db_ops cfg)" and "cf_refresh cfg = Some r"
  shows "(\<exists>d. cf_deploy cfg = Some d \<and> dp_production d = Some False \<and> fr_source_environment r \<noteq> dp_environment d) \<and>
    (\<exists>dir. fr_source_dir r = Some dir \<and> is_absolute dir) \<and> (\<exists>env. fr_source_environment r = Some env \<and> is_unit_word env) \<and>
    (\<exists>c. refresh_sanitize r = Some c) \<and> distinct (fr_units r) \<and> (\<forall>u\<in>set (fr_units r). unit_ok u) \<and>
    is_env_name (refresh_outbound_flag r)"
proof -
  have ok: "report_ok (validate_deploy cfg)" "report_ok (validate_refresh cfg)"
    using assms(1) by (simp_all add: validate_db_ops_def report_simps)
  from ok(1) obtain d where d: "cf_deploy cfg = Some d" by (rule accepted_deploy)
  from ok(2) assms(2) have parts: "report_ok (refresh_source_issues cfg r)" "report_ok (validate_sanitize r)"
      "report_ok (unit_issues 0 [] (fr_units r))" "is_env_name (refresh_outbound_flag r)"
    by (simp_all add: validate_refresh_def report_simps)
  from parts(1) d have "dp_production d = Some False" and "\<exists>dir. fr_source_dir r = Some dir \<and> is_absolute dir"
    and "\<exists>env. fr_source_environment r = Some env \<and> is_unit_word env" and "fr_source_environment r \<noteq> dp_environment d"
    by (auto simp: refresh_source_issues_def absolute_issue_def report_simps split: option.splits bool.splits if_splits)
  moreover from parts(2) have "\<exists>c. refresh_sanitize r = Some c"
    by (auto simp: validate_sanitize_def refresh_sanitize_def is_set_def report_simps split: option.splits if_splits)
  moreover have "distinct (fr_units r)" using unit_scan.accepted(2) [OF parts(3)] by (simp add: distinct_map)
  ultimately show ?thesis using d unit_scan.accepted(1) [OF parts(3)] parts(4) by blast
qed

definition refresh_example :: refresh_section where
  "refresh_example = \<lparr>fr_source_dir = Some ''/p'', fr_source_environment = Some ''prod'', fr_max_age_hours = None, fr_min_tables = None,
     fr_data_dir = None, fr_sanitize = Some ''/s'', fr_sanitize_reason = None, fr_outbound_flag = None, fr_units = [''a.service'', ''a.timer''],
     fr_schedule = None\<rparr>"

theorem accepted_refresh_is_guarded_witness:
  "report_ok (validate_db_ops (base_config\<lparr>cf_refresh := Some refresh_example\<rparr>)) \<and> is_env_name (refresh_outbound_flag refresh_example) \<and>
   (\<exists>c. refresh_sanitize refresh_example = Some c) \<and> distinct (fr_units refresh_example)"
proof -
  have ok: "report_ok (validate_db_ops (base_config\<lparr>cf_refresh := Some refresh_example\<rparr>))" by code_simp
  from accepted_refresh_is_guarded [OF ok, of refresh_example] ok show ?thesis by simp
qed

end
