(* ===== verification/Cli_Output.thy ===== *)
theory Cli_Output
  imports Redact Config_Validate
begin

text \<open>
  What a command returns (\<open>fraisier-cli/src/commands.rs\<close>): an exit code and two renderings, redacted at the one
  place output leaves the process.
\<close>

record command_output =
  co_exit_code :: int
  co_pretty :: string
  co_json :: json

fun redact_json :: "(string \<Rightarrow> bool) \<Rightarrow> json \<Rightarrow> json" where
  "redact_json uni (JString t) = JString (credentials uni t)"
| "redact_json uni (JArray items) = JArray (map (redact_json uni) items)"
| "redact_json uni (JObject members) = JObject (map (\<lambda>(key, field). (key, redact_json uni field)) members)"
| "redact_json uni scalar = scalar"

definition redacted_output :: "(string \<Rightarrow> bool) \<Rightarrow> command_output \<Rightarrow> command_output" where
  "redacted_output uni out = out\<lparr>co_pretty := credentials uni (co_pretty out), co_json := redact_json uni (co_json out)\<rparr>"

definition render_issues :: "report \<Rightarrow> string" where
  "render_issues r =
     (let out = join [newline] (map (\<lambda>i. ''  ['' @ severity_tag (vi_severity i) @ ''] '' @ vi_path i @ '': '' @ vi_message i) r)
      in if out \<noteq> [] then out @ [newline] else out)"

definition issues_json :: "report \<Rightarrow> json" where
  "issues_json r = JArray (map (\<lambda>i. JObject [(''severity'', JString (severity_tag (vi_severity i))), (''path'', JString (vi_path i)),
     (''message'', JString (vi_message i))]) r)"

text \<open>\<open>Path::join\<close> with a relative name, and the number and list renderings of \<open>json!\<close>.\<close>

definition path_join :: "string \<Rightarrow> string \<Rightarrow> string" where
  "path_join d n = (if d = [] \<or> suffix ''/'' d then d @ n else d @ ''/'' @ n)"

definition json_strings :: "string list \<Rightarrow> json" where
  "json_strings xs = JArray (map JString xs)"

text \<open>The string leaves of a document, and its shape with the leaves removed.\<close>

fun json_leaves :: "json \<Rightarrow> string list" where
  "json_leaves (JString t) = [t]"
| "json_leaves (JArray items) = concat (map json_leaves items)"
| "json_leaves (JObject members) = concat (map (\<lambda>(key, field). json_leaves field) members)"
| "json_leaves scalar = []"

fun json_skeleton :: "json \<Rightarrow> json" where
  "json_skeleton (JString t) = JString []"
| "json_skeleton (JArray items) = JArray (map json_skeleton items)"
| "json_skeleton (JObject members) = JObject (map (\<lambda>(key, field). (key, json_skeleton field)) members)"
| "json_skeleton scalar = scalar"

text \<open>
  Redaction at the edge reaches every string of a command's output and nothing else. The exit code stays,
  the document keeps its keys, numbers and structure, and each string value is the redacted one, at any depth.
\<close>

theorem redacted_rewrites_every_leaf:
  "co_exit_code (redacted_output uni out) = co_exit_code out \<and>
   json_skeleton (co_json (redacted_output uni out)) = json_skeleton (co_json out) \<and>
   json_leaves (co_json (redacted_output uni out)) = map (credentials uni) (json_leaves (co_json out))"
proof -
  have "json_skeleton (redact_json uni j) = json_skeleton j \<and> json_leaves (redact_json uni j) = map (credentials uni) (json_leaves j)" for j
  proof (induction uni j rule: redact_json.induct)
    case (2 uni items)
    then have "map (json_leaves \<circ> redact_json uni) items = map (map (credentials uni) \<circ> json_leaves) items" by simp
    then have "json_leaves (redact_json uni (JArray items)) = map (credentials uni) (json_leaves (JArray items))"
      by (simp only: redact_json.simps json_leaves.simps map_concat map_map)
    with 2 show ?case by simp
  next
    case (3 uni members)
    then have ih: "json_skeleton (redact_json uni f) = json_skeleton f" "json_leaves (redact_json uni f) = map (credentials uni) (json_leaves f)"
      if "(k, f) \<in> set members" for k f using that by auto
    have "map ((\<lambda>(key, field). (key, json_skeleton field)) \<circ> (\<lambda>(key, field). (key, redact_json uni field))) members =
        map (\<lambda>(key, field). (key, json_skeleton field)) members"
      "map ((\<lambda>(key, field). json_leaves field) \<circ> (\<lambda>(key, field). (key, redact_json uni field))) members =
        map (map (credentials uni) \<circ> (\<lambda>(key, field). json_leaves field)) members"
      by (rule map_cong, simp, clarsimp simp: ih)+
    then show ?case by (simp only: redact_json.simps json_leaves.simps json_skeleton.simps map_concat map_map simp_thms)
  qed simp_all
  then show ?thesis by (simp add: redacted_output_def)
qed

end
