(* ===== verification/Prune_Run.thy ===== *)
theory Prune_Run
  imports Config_Accepted Cli_Output State_Store
begin

text \<open>
  The command \<open>backup prune\<close> (\<open>fraisier-cli/src/commands.rs\<close>): the configuration is validated, the deploy lock is
  taken, and every retain entry is planned and, with \<open>apply\<close>, carried out. It composes the validation pass, the
  state store's lock and the retention planner. Reading an archive back (\<open>pg_restore --list\<close>) and measuring free
  space are parameters.
\<close>

section \<open>The world of a prune\<close>

text \<open>
  The backend's state and the directories: a directory, by the components of its path, is an error or its
  canonical path with its entries.
\<close>

type_synonym dirs = "component list \<Rightarrow> string + string list \<times> dir_entry list"

record 's prune_world =
  pw_store :: 's
  pw_dirs :: dirs

record entry_prune =
  ep_failed :: bool
  ep_pretty :: string
  ep_warnings :: "string list"
  ep_json :: json

record prune_run =
  pr_output :: command_output
  pr_warnings :: "string list"

datatype prune_error = NoDeploySection | OpeningStore string | TakingLock store_error | ReleasingLock store_error

section \<open>One entry\<close>

fun show_policy_error :: "policy_error \<Rightarrow> string" where
  "show_policy_error KeepLastZero = ''keep_last must be at least 1: the newest archive is the restore point a '' @
     ''failed migration rolls back to''"
| "show_policy_error (KeepLastBelowMinimum l m) = ''keep_last = '' @ show_nat l @ '' is below keep_minimum = '' @ show_nat m @
     '': a corpus cannot hold at least '' @ show_nat m @ '' and at most '' @ show_nat l @ '' archives. Raise keep_last or lower keep_minimum''"

text \<open>The names of a path's components, as the removal compares them.\<close>

definition dir_names :: "string \<Rightarrow> string list" where
  "dir_names d = List.map_filter (\<lambda>c. case c of Normal s \<Rightarrow> Some s | _ \<Rightarrow> None) (components d)"

definition gigabyte :: "64 word" where
  "gigabyte = 1000000000"

definition saturating_mul :: "64 word \<Rightarrow> 64 word \<Rightarrow> 64 word" where
  "saturating_mul a b = (if unat a * unat b < 2 ^ 64 then a * b else - 1)"

definition prune_warnings :: "(string \<Rightarrow> string + 64 word) \<Rightarrow> retain_entry \<Rightarrow> string \<Rightarrow> string \<Rightarrow> string list \<Rightarrow> retention_plan \<Rightarrow> string list" where
  "prune_warnings available_bytes entry name dir outside p =
     (case re_min_free_gb entry of
        None \<Rightarrow> []
      | Some min_free_gb \<Rightarrow>
          (case available_bytes dir of
             Inr free \<Rightarrow>
               if free < saturating_mul min_free_gb gigabyte
               then [dir @ '' has '' @ show_nat (unat (free div gigabyte)) @ '' GB free, below the min_free_gb = '' @ show_nat (unat min_free_gb) @
                 '' declared for '' @ name @ ''; retention bounds this corpus but cannot free a disk something else filled'']
               else []
           | Inl error \<Rightarrow>
               [''could not measure the free space on '' @ dir @ '' against the min_free_gb = '' @ show_nat (unat min_free_gb) @
                '' declared for '' @ name @ '': '' @ error])) @
     map (\<lambda>(archive, reason). path_join dir archive @ '' is not a readable archive and holds no keep_minimum slot: '' @ reason) (rp_invalid p) @
     map (\<lambda>(archive, reason). path_join dir archive @ '' could not be verified and holds a keep_minimum slot anyway: '' @ reason) (rp_unverifiable p) @
     (if floor_is_load_bearing p
      then [name @ '': every archive in '' @ dir @ '' is older than retention_days; only the keep_minimum '' @
        ''floor is keeping them, so backups have stopped arriving'']
      else []) @
     map (\<lambda>link. path_join dir link @ '' is a symlink resolving outside '' @ dir @ ''; it was left alone'') outside"

text \<open>\<open>Duration::from_hours(days * 24)\<close>, in nanoseconds.\<close>

definition retention_period :: "retain_entry \<Rightarrow> nat" where
  "retention_period entry = unat (unwrap_or (re_retention_days entry) 1) * 24 * 3600 * 1000000000"

definition entry_policy :: "retain_entry \<Rightarrow> policy_error + retention_policy" where
  "entry_policy entry =
     retention_policy_new (Some (retention_period entry)) (unat (retain_keep_minimum entry)) (map_option unat (re_keep_last entry))"

definition entry_failure :: "string \<Rightarrow> string \<Rightarrow> string \<Rightarrow> entry_prune" where
  "entry_failure name dir message =
     \<lparr>ep_failed = True, ep_pretty = name @ '': '' @ message @ [newline], ep_warnings = [],
      ep_json = JObject [(''name'', JString name), (''dir'', JString dir), (''error'', JString message)]\<rparr>"

definition entry_done :: "string \<Rightarrow> string \<Rightarrow> bool \<Rightarrow> retention_plan \<Rightarrow> string list \<Rightarrow> (string \<times> string) list \<Rightarrow> string list \<Rightarrow> entry_prune" where
  "entry_done name dir do_apply p outside left warnings =
     (let removed = filter (\<lambda>a. a \<notin> fst ` set left) (rp_remove p);
          verb = (if do_apply then ''removed'' else ''would remove'');
          at = path_join dir;
          reasons = (\<lambda>xs. JArray (map (\<lambda>(a, r). JObject [(''path'', JString (at a)), (''reason'', JString r)]) xs))
      in \<lparr>ep_failed = (left \<noteq> []),
          ep_pretty = name @ '' ('' @ dir @ ''): '' @ verb @ '' '' @ show_nat (length removed) @ '', kept '' @ show_nat (length (rp_keep p)) @
            '', kept by the floor '' @ show_nat (length (rp_exempt p)) @ [newline] @
            concat (map (\<lambda>a. ''  '' @ verb @ '' '' @ at a @ [newline]) removed) @
            concat (map (\<lambda>(a, e). ''  could not remove '' @ at a @ '': '' @ e @ [newline]) left),
          ep_warnings = warnings,
          ep_json = JObject [(''name'', JString name), (''dir'', JString dir), (''removed'', json_strings (map at removed)),
            (''kept'', json_strings (map at (rp_keep p))), (''exempted_by_minimum'', json_strings (map at (rp_exempt p))),
            (''removed_by_ceiling'', json_strings (map at (rp_removed_by_ceiling p))), (''invalid'', reasons (rp_invalid p)),
            (''unverifiable'', reasons (rp_unverifiable p)), (''outside'', json_strings (map at outside)),
            (''left'', JArray (map (\<lambda>(a, e). JObject [(''path'', JString (at a)), (''error'', JString e)]) left))]\<rparr>)"

definition prune_entry :: "(string \<Rightarrow> string + 64 word) \<Rightarrow> (string \<Rightarrow> verdict) \<Rightarrow> system_time \<Rightarrow> bool \<Rightarrow> retain_entry \<Rightarrow> dirs \<Rightarrow>
    (entry_prune \<times> dirs) returned" where
  "prune_entry available_bytes verify_archive time do_apply entry ds =
     (let name = unwrap_or (retain_name entry) []; dir = unwrap_or (re_dir entry) []; key = components dir;
          failure = (\<lambda>message. Returns (entry_failure name dir message, ds)) in
      case entry_policy entry of
        Inl error \<Rightarrow> failure (show_policy_error error)
      | Inr policy \<Rightarrow>
          (case ds key of
             Inl error \<Rightarrow> failure (''cannot read '' @ dir @ '': '' @ error)
           | Inr (root, entries) \<Rightarrow>
               (case corpus root (retain_pattern entry) entries of
                  Panics \<Rightarrow> Panics
                | Returns (Inl error) \<Rightarrow> failure (''cannot read '' @ dir @ '': '' @ error)
                | Returns (Inr found) \<Rightarrow>
                    let p = fst (plan (co_candidates found) policy time (logged (\<lambda>a. verify_archive (path_join dir a))) []);
                        warnings = prune_warnings available_bytes entry name dir (co_outside found) p;
                        (left, entries') = (if do_apply
                          then remove_archives (dir_names dir) (Inr root) (map (\<lambda>a. dir_names dir @ [a]) (rp_remove p)) entries
                          else ([], entries))
                    in Returns (entry_done name dir do_apply p (co_outside found) (map (\<lambda>(a, e). (last a, e)) left) warnings,
                         ds(key := Inr (root, entries'))))))"

section \<open>The command\<close>

fun prune_each :: "(retain_entry \<Rightarrow> dirs \<Rightarrow> (entry_prune \<times> dirs) returned) \<Rightarrow> retain_entry list \<Rightarrow> dirs \<Rightarrow> (entry_prune list \<times> dirs) returned" where
  "prune_each step [] ds = Returns ([], ds)"
| "prune_each step (entry # entries) ds =
     (case step entry ds of
        Panics \<Rightarrow> Panics
      | Returns (pruned, ds1) \<Rightarrow>
          (case prune_each step entries ds1 of
             Panics \<Rightarrow> Panics
           | Returns (rest, ds2) \<Rightarrow> Returns (pruned # rest, ds2)))"

definition refuse_prune :: "string \<Rightarrow> json \<Rightarrow> prune_run" where
  "refuse_prune pretty json = \<lparr>pr_output = \<lparr>co_exit_code = 1, co_pretty = pretty, co_json = json\<rparr>, pr_warnings = []\<rparr>"

definition chosen_entries :: "string option \<Rightarrow> retain_entry list \<Rightarrow> retain_entry list" where
  "chosen_entries wanted retain = (case wanted of None \<Rightarrow> retain | Some w \<Rightarrow> filter (\<lambda>e. retain_name e = Some w) retain)"

text \<open>What can be refused before the lock: an invalid configuration, one without a policy, an unknown name.\<close>

definition prune_precheck :: "string \<Rightarrow> deploy_config \<Rightarrow> string option \<Rightarrow> prune_run + retain_entry list" where
  "prune_precheck config_path cfg wanted =
     (let report = validate_backup_ops cfg; retain = (case cf_backup cfg of Some b \<Rightarrow> ba_retain b | None \<Rightarrow> []);
          known = List.map_filter retain_name retain in
      if \<not> report_ok report then
        Inl (refuse_prune (render_issues report @ ''refusing to prune with an invalid config'' @ [newline])
          (JObject [(''ok'', JBool False), (''issues'', issues_json report)]))
      else if retain = [] then
        Inl (refuse_prune (config_path @ '' declares no [[backup.retain]] policy, so there is nothing to prune'' @ [newline])
          (JObject [(''ok'', JBool False), (''error'', JString ''no retention policy'')]))
      else (case wanted of
          Some w \<Rightarrow>
            if chosen_entries wanted retain = [] then
              Inl (refuse_prune (''no retain entry is named '' @ quoted_word w @ '' (known: '' @ join '', '' known @ '')'' @ [newline])
                (JObject [(''ok'', JBool False), (''error'', JString ''unknown retain entry''), (''known'', json_strings known)]))
            else Inr (chosen_entries wanted retain)
        | None \<Rightarrow> Inr retain))"

definition prune_report :: "bool \<Rightarrow> entry_prune list \<Rightarrow> prune_run" where
  "prune_report do_apply pruned =
     (let failed = list_ex ep_failed pruned in
      \<lparr>pr_output = \<lparr>co_exit_code = (if failed then 1 else 0),
         co_pretty = concat (map ep_pretty pruned) @
           (if do_apply then [] else ''dry run: nothing was removed; pass --apply to remove these'' @ [newline]),
         co_json = JObject [(''ok'', JBool (\<not> failed)), (''applied'', JBool do_apply), (''entries'', JArray (map ep_json pruned))]\<rparr>,
       pr_warnings = concat (map ep_warnings pruned)\<rparr>)"

definition lock_refusal :: "fraise_key \<Rightarrow> prune_run" where
  "lock_refusal key =
     refuse_prune (''a deploy of '' @ show_key key @ '' holds the deploy lock; refusing to prune while it runs '' @
       ''(try again once it finishes)'' @ [newline]) (JObject [(''ok'', JBool False), (''error'', JString ''deploy lock held'')])"

text \<open>
  The steps on the directories, as a parameter: the run holds the lock around all of them. Opening the store
  may fail before anything else.
\<close>

definition backup_prune_with :: "('s, 'j) state_store \<Rightarrow> ('s, string, unit) eff \<Rightarrow> (string \<Rightarrow> string + 64 word) \<Rightarrow> (string \<Rightarrow> verdict) \<Rightarrow>
    system_time \<Rightarrow> string \<Rightarrow> deploy_config \<Rightarrow> string option \<Rightarrow> bool \<Rightarrow> 's prune_world \<Rightarrow>
    ((prune_error + prune_run) \<times> 's prune_world) returned" where
  "backup_prune_with store open_store available_bytes verify_archive time config_path cfg wanted do_apply w =
     (case prune_precheck config_path cfg wanted of
        Inl refusal \<Rightarrow> Returns (Inr refusal, w)
      | Inr entries \<Rightarrow>
          (case cf_deploy cfg of
             None \<Rightarrow> Returns (Inl NoDeploySection, w)
           | Some deploy \<Rightarrow>
               let key = key_new (unwrap_or (dp_name deploy) []) (unwrap_or (dp_environment deploy) []) in
               (case open_store (pw_store w) of
                  (Inl e, s) \<Rightarrow> Returns (Inl (OpeningStore e), w\<lparr>pw_store := s\<rparr>)
                | (Inr _, s) \<Rightarrow>
                    (case acquire_lock store key s of
                       (Inl (Locked _), s1) \<Rightarrow> Returns (Inr (lock_refusal key), w\<lparr>pw_store := s1\<rparr>)
                     | (Inl e, s1) \<Rightarrow> Returns (Inl (TakingLock e), w\<lparr>pw_store := s1\<rparr>)
                     | (Inr guard, s1) \<Rightarrow>
                         (case prune_each (prune_entry available_bytes verify_archive time do_apply) entries (pw_dirs w) of
                            Panics \<Rightarrow> Panics
                          | Returns (pruned, ds) \<Rightarrow>
                              (case release_lock store guard s1 of
                                 (Inl e, s2) \<Rightarrow> Returns (Inl (ReleasingLock e), w\<lparr>pw_store := s2, pw_dirs := ds\<rparr>)
                               | (Inr _, s2) \<Rightarrow> Returns (Inr (prune_report do_apply pruned), w\<lparr>pw_store := s2, pw_dirs := ds\<rparr>)))))))"

section \<open>Accepted entries\<close>

lemma entry_policy_ok:
  assumes "retain_ok dir e"
  shows "\<exists>policy. entry_policy e = Inr policy \<and> keep_minimum policy = unat (retain_keep_minimum e)"
proof -
  obtain at where "report_ok (validate_retain_entry e dir at)" using assms by (auto simp: retain_ok_def)
  then have "re_keep_last e \<noteq> Some 0" "\<And>l. re_keep_last e = Some l \<Longrightarrow> retain_keep_minimum e \<le> l"
    by (auto simp: validate_retain_entry_def report_simps split: option.splits if_splits)
  then show ?thesis
    by (cases "re_keep_last e") (auto simp: entry_policy_def retention_policy_new_def unat_eq_0 word_le_nat_alt)
qed

lemma archive_suffix_code: "archive_suffix = ''.pgdump''"
  by code_simp

lemma accepted_retain:
  assumes "retain_ok (Some base) e"
  obtains d where "re_dir e = Some d" and "is_absolute d" and "is_plain_dir d" and "path_starts_with d base"
    and "suffix archive_suffix (retain_pattern e)"
proof -
  obtain at where "report_ok (validate_retain_entry e (Some base) at)" using assms by (auto simp: retain_ok_def)
  then have dir: "report_ok (validate_retain_dir (re_dir e) (Some base) at)" and "report_ok (validate_retain_match (retain_pattern e) at)"
    by (simp_all add: validate_retain_entry_def report_simps)
  then have "suffix archive_suffix (retain_pattern e)" by (auto simp: validate_retain_match_def report_simps split: if_splits)
  with dir that show thesis by (auto simp: validate_retain_dir_def report_simps split: option.splits if_splits)
qed

lemma archive_glob:
  assumes "suffix archive_suffix pattern" and "glob pattern n"
  shows "suffix ''.pgdump'' n"
proof -
  obtain p where "pattern = p @ ''.pgdump''" using assms(1) by (auto simp: suffix_def archive_suffix_code)
  then show ?thesis using assms(2) glob_suffix [of "''.pgdump''" p n] by (simp add: star_def any_char_def)
qed

section \<open>What a prune can change\<close>

text \<open>
  Directories changed only below a base, and there only by removing archives that are not hidden and are files
  of the directory or links to ones inside it.
\<close>

definition archive_entry :: "string list \<Rightarrow> dir_entry \<Rightarrow> bool" where
  "archive_entry root e \<longleftrightarrow> suffix ''.pgdump'' (de_name e) \<and> (\<nexists>s. de_name e = CHR ''.'' # s) \<and>
     (de_kind e = Regular \<or> (\<exists>target. de_kind e = Symlink (Some target) True \<and> prefix root target))"

definition archives_removed :: "string + string list \<times> dir_entry list \<Rightarrow> string + string list \<times> dir_entry list \<Rightarrow> bool" where
  "archives_removed d d' \<longleftrightarrow> (\<exists>root es es'. d = Inr (root, es) \<and> d' = Inr (root, es') \<and> set es' \<subseteq> set es \<and>
     (\<forall>e\<in>set es - set es'. archive_entry root e))"

definition confined :: "component list \<Rightarrow> dirs \<Rightarrow> dirs \<Rightarrow> bool" where
  "confined base ds ds' \<longleftrightarrow> (\<forall>k. ds' k = ds k \<or> prefix base k \<and> ParentDir \<notin> set k \<and> archives_removed (ds k) (ds' k))"

definition distinct_names :: "dirs \<Rightarrow> bool" where
  "distinct_names ds \<longleftrightarrow> (\<forall>k root es. ds k = Inr (root, es) \<longrightarrow> distinct (map de_name es))"

lemma archives_removed_trans: "archives_removed a b \<Longrightarrow> archives_removed b c \<Longrightarrow> archives_removed a c"
  unfolding archives_removed_def by fastforce

lemma confined_refl: "confined base ds ds"
  by (simp add: confined_def)

lemma confined_trans: "confined base a b \<Longrightarrow> confined base b c \<Longrightarrow> confined base a c"
  unfolding confined_def by (metis archives_removed_trans)

lemma prune_entry_step:
  assumes "prune_entry available check_archive time do_apply e ds = Returns (r, ds')" and "ds' \<noteq> ds"
  obtains root es found policy p w left es' where "do_apply" and "ds (components (unwrap_or (re_dir e) [])) = Inr (root, es)"
    and "entry_policy e = Inr policy" and "corpus root (retain_pattern e) es = Returns (Inr found)"
    and "plan (co_candidates found) policy time (logged (\<lambda>a. check_archive (path_join (unwrap_or (re_dir e) []) a))) [] = (p, w)"
    and "remove_archives (dir_names (unwrap_or (re_dir e) [])) (Inr root)
      (map (\<lambda>a. dir_names (unwrap_or (re_dir e) []) @ [a]) (rp_remove p)) es = (left, es')"
    and "ds' = ds(components (unwrap_or (re_dir e) []) := Inr (root, es'))"
proof -
  from assms obtain policy root es found where run: "entry_policy e = Inr policy" "ds (components (unwrap_or (re_dir e) [])) = Inr (root, es)"
    "corpus root (retain_pattern e) es = Returns (Inr found)"
    by (auto simp: prune_entry_def Let_def split: sum.splits returned.splits prod.splits)
  obtain p w where p: "plan (co_candidates found) policy time (logged (\<lambda>a. check_archive (path_join (unwrap_or (re_dir e) []) a))) [] = (p, w)"
    by fastforce
  obtain left es' where rm: "remove_archives (dir_names (unwrap_or (re_dir e) [])) (Inr root)
      (map (\<lambda>a. dir_names (unwrap_or (re_dir e) []) @ [a]) (rp_remove p)) es = (left, es')" by fastforce
  have "do_apply \<and> ds' = ds(components (unwrap_or (re_dir e) []) := Inr (root, es'))"
    using assms run p rm by (cases do_apply) (auto simp: prune_entry_def Let_def fun_upd_idem)
  with that run p rm show thesis by blast
qed

lemma prune_entry_confined:
  assumes "prune_entry available verify_archive time do_apply e ds = Returns (r, ds')" and "retain_ok (Some base) e" and "distinct_names ds"
  shows "confined (components base) ds ds' \<and> distinct_names ds' \<and> (\<not> do_apply \<longrightarrow> ds' = ds)"
proof (cases "ds' = ds")
  case False
  from prune_entry_step [OF assms(1) False] obtain root es found policy p w left es' where
    step: "do_apply" "ds (components (unwrap_or (re_dir e) [])) = Inr (root, es)" "corpus root (retain_pattern e) es = Returns (Inr found)"
      "plan (co_candidates found) policy time (logged (\<lambda>a. verify_archive (path_join (unwrap_or (re_dir e) []) a))) [] = (p, w)"
      "remove_archives (dir_names (unwrap_or (re_dir e) [])) (Inr root)
        (map (\<lambda>a. dir_names (unwrap_or (re_dir e) []) @ [a]) (rp_remove p)) es = (left, es')"
      "ds' = ds(components (unwrap_or (re_dir e) []) := Inr (root, es'))" by metis
  from accepted_retain [OF assms(2)] obtain d where d: "re_dir e = Some d" "is_plain_dir d" "path_starts_with d base"
    and pattern: "suffix archive_suffix (retain_pattern e)" by metis
  have dir: "unwrap_or (re_dir e) [] = d" using d(1) by (simp add: unwrap_or_def)
  have names: "distinct (map de_name es)" using assms(3) step(2) unfolding distinct_names_def by blast
  note frame = prune_frame [OF names step(3-5)]
  then have gone: "\<forall>e\<in>set es - set es'. archive_entry root e"
    unfolding archive_entry_def using archive_glob [OF pattern] by blast
  have "distinct (map de_name es')"
    using remove_loop_distinct [OF step(5) [unfolded remove_archives_def sum.case] names] .
  then have "distinct_names ds'" using assms(3) step(6) by (auto simp: distinct_names_def)
  moreover have "confined (components base) ds ds'"
    using d step(2,6) frame gone
    by (auto simp: confined_def archives_removed_def path_starts_with_def is_plain_dir_def unwrap_or_def)
  ultimately show ?thesis using step(1) by blast
qed (use assms(3) confined_refl in simp)

lemma prune_each_confined:
  assumes "prune_each (prune_entry available verify_archive time do_apply) es ds = Returns (rs, ds')" and "distinct_names ds"
    and "\<forall>e\<in>set es. retain_ok (Some base) e"
  shows "confined (components base) ds ds' \<and> (\<not> do_apply \<longrightarrow> ds' = ds)"
  using assms
proof (induction es arbitrary: ds rs)
  case (Cons e es)
  then obtain r ds1 rs1 where one: "prune_entry available verify_archive time do_apply e ds = Returns (r, ds1)"
    and rest: "prune_each (prune_entry available verify_archive time do_apply) es ds1 = Returns (rs1, ds')"
    by (auto split: returned.splits prod.splits)
  have "retain_ok (Some base) e" using Cons.prems by simp
  from prune_entry_confined [OF one this Cons.prems(2)] Cons.IH [OF rest] Cons.prems(3) show ?case
    using confined_trans by auto
qed (simp add: confined_refl)

lemma prune_precheck_ok:
  assumes "prune_precheck config_path cfg wanted = Inr es"
  obtains b base where "cf_backup cfg = Some b" and "ba_dir b = Some base" and "is_absolute base" and "is_plain_dir base"
    and "\<forall>e\<in>set es. retain_ok (Some base) e"
proof -
  from assms have ok: "report_ok (validate_backup cfg)"
    by (auto simp: prune_precheck_def Let_def validate_backup_ops_def report_simps split: if_splits)
  from assms obtain b where b: "cf_backup cfg = Some b" and sub: "set es \<subseteq> set (ba_retain b)"
    by (auto simp: prune_precheck_def Let_def chosen_entries_def split: if_splits option.splits)
  from ok b obtain base where base: "ba_dir b = Some base" "is_absolute base" "is_plain_dir base"
    by (auto simp: validate_backup_def backup_dir_issues_def report_simps split: option.splits if_splits)
  have "report_ok (retain_issues (Some base) 0 [] (ba_retain b))" using ok b base(1) by (simp add: validate_backup_def report_simps)
  with that [OF b base] sub show thesis using retain_scan.accepted(1) by blast
qed

text \<open>
  C14: \<open>backup prune\<close> reaches nothing but archives below \<open>[backup].dir\<close>. Whatever the configuration says, a run that
  changed a directory was asked to apply, and held the deploy lock while it did; the directories it changed lie
  below \<open>[backup].dir\<close> by components and without \<open>..\<close>, and what is gone from one of them is a file whose name ends
  in \<open>.pgdump\<close> and is not hidden, or a link of such a name that resolves inside it.
\<close>

theorem prune_run_confined:
  assumes "distinct_names (pw_dirs w)"
    and "backup_prune_with store open_store available verify_archive time config_path cfg wanted do_apply w = Returns (r, w')"
    and "pw_dirs w' \<noteq> pw_dirs w"
  shows "do_apply \<and> (\<exists>b base d key guard s s'. cf_backup cfg = Some b \<and> ba_dir b = Some base \<and> is_absolute base \<and>
    confined (components base) (pw_dirs w) (pw_dirs w') \<and>
    cf_deploy cfg = Some d \<and> key = key_new (unwrap_or (dp_name d) []) (unwrap_or (dp_environment d) []) \<and>
    open_store (pw_store w) = (Inr (), s) \<and> acquire_lock store key s = (Inr guard, s') \<and> pw_store w' = snd (release_lock store guard s'))"
proof -
  from assms(2,3) obtain es d where pre: "prune_precheck config_path cfg wanted = Inr es" "cf_deploy cfg = Some d"
    by (auto simp: backup_prune_with_def split: sum.splits option.splits)
  define key where "key = key_new (unwrap_or (dp_name d) []) (unwrap_or (dp_environment d) [])"
  from assms(2,3) pre obtain guard s s' pruned ds where run: "open_store (pw_store w) = (Inr (), s)" "acquire_lock store key s = (Inr guard, s')"
      "prune_each (prune_entry available verify_archive time do_apply) es (pw_dirs w) = Returns (pruned, ds)"
      "pw_dirs w' = ds" "pw_store w' = snd (release_lock store guard s')"
    by (auto simp: backup_prune_with_def key_def Let_def split: sum.splits prod.splits store_error.splits returned.splits)
  from prune_precheck_ok [OF pre(1)] obtain b base where b: "cf_backup cfg = Some b" "ba_dir b = Some base" "is_absolute base"
    and entries: "\<forall>e\<in>set es. retain_ok (Some base) e" by metis
  from prune_each_confined [OF run(3) assms(1) entries] assms(3) run(4)
  have "confined (components base) (pw_dirs w) (pw_dirs w')" "do_apply" by auto
  with b pre(2) run(1,2,5) show ?thesis unfolding key_def by blast
qed

definition demo_retain :: retain_entry where
  "demo_retain = \<lparr>re_dir = Some ''/b'', re_schedule = Some ''hourly'', re_retention_days = Some 1, re_keep_minimum = Some 0, re_keep_last = None,
     re_pattern = None, re_min_free_gb = None, re_name = Some ''n''\<rparr>"

definition demo_prune_config :: deploy_config where
  "demo_prune_config = base_config\<lparr>cf_backup := Some \<lparr>ba_dir = Some ''/b'', ba_retain = [demo_retain]\<rparr>\<rparr>"

definition demo_dirs :: "dir_entry list \<Rightarrow> dirs" where
  "demo_dirs es = (\<lambda>k. if k = [RootDir, Normal ''b''] then Inr ([''b''], es) else Inl ''No such file or directory'')"

definition demo_archive :: dir_entry where
  "demo_archive = \<lparr>de_name = ''old.pgdump'', de_kind = Regular, de_modified = Inr 1\<rparr>"

lemma demo_prune_entry:
  "\<exists>r. prune_entry (\<lambda>_. Inl []) (\<lambda>_. Valid) 90000000000000 True demo_retain (demo_dirs [demo_archive]) = Returns (r, demo_dirs [])"
proof -
  have glob: "matches ''*.pgdump'' ''old.pgdump'' = Some True" by code_simp
  have stamp: "stamp_in_name ''old.pgdump'' = Returns None" by code_simp
  have comps: "components ''/b'' = [RootDir, Normal ''b'']" "dir_names ''/b'' = [''b'']" by code_simp+
  have pol: "entry_policy demo_retain = Inr \<lparr>retention = Some 86400000000000, keep_minimum = 0, keep_last = None\<rparr>"
    by (simp add: entry_policy_def demo_retain_def retention_period_def retention_policy_new_def retain_keep_minimum_def)
  have found: "corpus [''b''] (retain_pattern demo_retain) [demo_archive] = Returns (Inr \<lparr>co_candidates = [\<lparr>cd_path = ''old.pgdump'', taken_at = 1\<rparr>], co_outside = []\<rparr>)"
    by (simp add: corpus_def classify_def glob stamp Let_def demo_archive_def demo_retain_def retain_pattern_def default_pattern_def)
  have "rp_remove (fst (plan [\<lparr>cd_path = ''old.pgdump'', taken_at = 1\<rparr>] \<lparr>retention = Some 86400000000000, keep_minimum = 0, keep_last = None\<rparr>
      90000000000000 (logged v) [])) = [''old.pgdump'']" for v
    by (simp add: plan_def newest_first_def plan_cutoff_def checked_sub_def earliest_time_def plan_step_def logged_def
        push_removed_def plan_default_def Let_def)
  moreover have "remove_archives [''b''] (Inr [''b'']) [[''b'', ''old.pgdump'']] [demo_archive] = ([], [])"
    by (simp add: remove_archives_def remove_one_def canonicalize_def lookup_entry_def remove_file_def demo_archive_def)
  moreover have "re_dir demo_retain = Some ''/b''" by (simp add: demo_retain_def)
  ultimately show ?thesis by (simp add: prune_entry_def Let_def pol found comps demo_dirs_def fun_eq_iff)
qed

lemma demo_prune_precheck: "prune_precheck ''c'' demo_prune_config None = Inr [demo_retain]"
proof -
  have "report_ok (validate_backup_ops demo_prune_config)" by code_simp
  then show ?thesis by (simp add: prune_precheck_def Let_def) (simp add: demo_prune_config_def)
qed

theorem prune_run_confined_witness:
  "\<exists>r w'. backup_prune_with (memory_store (\<lambda>_. 0) :: (nat memory_inner, nat) state_store) (ok ()) (\<lambda>_. Inl []) (\<lambda>_. Valid) 90000000000000 ''c''
      demo_prune_config None True \<lparr>pw_store = memory_new, pw_dirs = demo_dirs [demo_archive]\<rparr> = Returns (r, w') \<and>
    pw_dirs w' = demo_dirs [] \<and> confined (components ''/b'') (demo_dirs [demo_archive]) (demo_dirs [])"
proof -
  let ?w = "\<lparr>pw_store = memory_new :: nat memory_inner, pw_dirs = demo_dirs [demo_archive]\<rparr>"
  let ?run = "backup_prune_with (memory_store (\<lambda>_. 0) :: (nat memory_inner, nat) state_store) (ok ()) (\<lambda>_. Inl []) (\<lambda>_. Valid) 90000000000000 ''c''
      demo_prune_config None True ?w"
  obtain e where e: "prune_each (prune_entry (\<lambda>_. Inl []) (\<lambda>_. Valid) 90000000000000 True) [demo_retain] (demo_dirs [demo_archive]) = Returns (e, demo_dirs [])"
    using demo_prune_entry by auto
  obtain d where d: "cf_deploy demo_prune_config = Some d" by (simp add: demo_prune_config_def base_config_def)
  have "\<exists>r w'. ?run = Returns (r, w') \<and> pw_dirs w' = demo_dirs []"
    unfolding backup_prune_with_def demo_prune_precheck d sum.case option.case prune_world.simps e ok_def
    by (simp add: memory_store_def Let_def mem_acquire_lock_def mem_release_lock_def memory_new_def)
  then obtain r w' where run: "?run = Returns (r, w')" "pw_dirs w' = demo_dirs []" by blast
  have names: "distinct_names (pw_dirs ?w)" by (auto simp: distinct_names_def demo_dirs_def split: if_splits)
  have "pw_dirs w' \<noteq> pw_dirs ?w"
  proof
    assume "pw_dirs w' = pw_dirs ?w"
    with run(2) have "demo_dirs [] [RootDir, Normal ''b''] = demo_dirs [demo_archive] [RootDir, Normal ''b'']" by simp
    then show False by (simp add: demo_dirs_def)
  qed
  from prune_run_confined [OF names run(1) this] run(2)
  have "confined (components ''/b'') (demo_dirs [demo_archive]) (demo_dirs [])" by (auto simp: demo_prune_config_def)
  with run show ?thesis by blast
qed

end
