(* ===== verification/Scaffold_Install.thy ===== *)
theory Scaffold_Install
  imports Scaffold "HOL-Library.AList" "HOL-Library.List_Lexorder"
begin

text \<open>
  Installing and pruning generated files (\<open>fraisier-scaffold/src/install.rs\<close>) and the commands that do it
  (\<open>scaffold-install\<close>, \<open>scheduled install\<close>, \<open>scheduled uninstall\<close> of \<open>fraisier-cli/src/commands.rs\<close>). A path is the list of its
  components; the file system is the files at their paths, and a plan of what happens to the next calls.
\<close>

section \<open>The file system\<close>

type_synonym fpath = "component list"

record tree =
  tr_files :: "(fpath \<times> string) list"
  tr_faults :: "string option list"

definition content_at :: "tree \<Rightarrow> fpath \<Rightarrow> string option" where
  "content_at t p = map_of (tr_files t) p"

definition tree_call :: "(tree \<Rightarrow> 'a \<times> tree) \<Rightarrow> (tree, string, 'a) eff" where
  "tree_call f t =
     (case tr_faults t of
        Some m # later \<Rightarrow> (Inl m, t\<lparr>tr_faults := later\<rparr>)
      | None # later \<Rightarrow> (case f (t\<lparr>tr_faults := later\<rparr>) of (a, t') \<Rightarrow> (Inr a, t'))
      | [] \<Rightarrow> (case f t of (a, t') \<Rightarrow> (Inr a, t')))"

definition put_at :: "fpath \<Rightarrow> string \<Rightarrow> tree \<Rightarrow> tree" where
  "put_at p c t = t\<lparr>tr_files := AList.update p c (tr_files t)\<rparr>"

definition remove_at :: "fpath \<Rightarrow> tree \<Rightarrow> tree" where
  "remove_at p t = t\<lparr>tr_files := AList.delete p (tr_files t)\<rparr>"

text \<open>
  \<open>fs::read\<close>, \<open>fs::write\<close> (which truncates first), \<open>fs::remove_file\<close>, \<open>fs::read_dir\<close> for the files directly in a directory (an
  absent directory and an empty one list the same), and \<open>create_dir_all\<close>, which can only fail: a directory is there as
  soon as a file is in it.
\<close>

definition tree_read :: "fpath \<Rightarrow> (tree, string, string) eff" where
  "tree_read p = and_then (tree_call (\<lambda>t. (content_at t p, t))) (\<lambda>c. case c of Some s \<Rightarrow> ok s | None \<Rightarrow> fail ''No such file or directory'')"

definition tree_write :: "fpath \<Rightarrow> string \<Rightarrow> (tree, string, unit) eff" where
  "tree_write p c = and_then (tree_call (\<lambda>t. ((), put_at p [] t))) (\<lambda>_. tree_call (\<lambda>t. ((), put_at p c t)))"

definition tree_remove :: "fpath \<Rightarrow> (tree, string, unit) eff" where
  "tree_remove p =
     and_then (tree_call (\<lambda>t. (content_at t p \<noteq> None, remove_at p t))) (\<lambda>found. if found then ok () else fail ''No such file or directory'')"

definition tree_mkdirs :: "fpath \<Rightarrow> (tree, string, unit) eff" where
  "tree_mkdirs p = tree_call (\<lambda>t. ((), t))"

definition tree_list :: "fpath \<Rightarrow> (tree, string, fpath list) eff" where
  "tree_list d = tree_call (\<lambda>t. (filter (\<lambda>p. p \<noteq> [] \<and> butlast p = d) (map fst (tr_files t)), t))"

section \<open>Installing\<close>

definition under_root :: "string \<Rightarrow> string \<Rightarrow> fpath" where
  "under_root root dest =
     components root @ (case components dest of RootDir # rest \<Rightarrow> rest | rest \<Rightarrow> filter (\<lambda>c. c \<noteq> CurDir) rest)"

definition dests :: "generated_file list \<Rightarrow> string \<Rightarrow> fpath list" where
  "dests files root = map (under_root root) (List.map_filter gf_install_dest files)"

definition install_targets :: "generated_file list \<Rightarrow> string \<Rightarrow> fpath list" where
  "install_targets files root = dests files root"

definition write_file :: "fpath \<Rightarrow> string \<Rightarrow> (tree, scaffold_error, unit) eff" where
  "write_file p c =
     and_then (if p = [] then ok () else map_err (WriteFailed (butlast p)) (tree_mkdirs (butlast p))) (\<lambda>_. map_err (WriteFailed p) (tree_write p c))"

fun write_tree :: "generated_file list \<Rightarrow> string \<Rightarrow> (tree, scaffold_error, fpath list) eff" where
  "write_tree [] out = ok []"
| "write_tree (f # fs) out =
     (let p = under_root out (gf_rel_path f) in
      and_then (write_file p (gf_contents f)) (\<lambda>_. and_then (write_tree fs out) (\<lambda>ps. ok (p # ps))))"

fun install :: "generated_file list \<Rightarrow> string \<Rightarrow> (tree, scaffold_error, fpath list) eff" where
  "install [] root = ok []"
| "install (f # fs) root =
     (case gf_install_dest f of
        None \<Rightarrow> install fs root
      | Some dest \<Rightarrow>
          let p = under_root root dest in
          and_then (write_file p (gf_contents f)) (\<lambda>_. and_then (install fs root) (\<lambda>ps. ok (p # ps))))"

definition is_fraisier_generated :: "fpath \<Rightarrow> (tree, scaffold_error, bool) eff" where
  "is_fraisier_generated p =
     and_then (result_of (tree_read p)) (\<lambda>r. ok (case r of Inr c \<Rightarrow> utf8_valid c \<and> contains marker c | Inl _ \<Rightarrow> False))"

fun filter_eff :: "('a \<Rightarrow> ('w, 'e, bool) eff) \<Rightarrow> 'a list \<Rightarrow> ('w, 'e, 'a list) eff" where
  "filter_eff p [] = ok []"
| "filter_eff p (x # xs) = and_then (p x) (\<lambda>b. and_then (filter_eff p xs) (\<lambda>ys. ok (if b then x # ys else ys)))"

text \<open>The order of paths is the order of their components; here any total order will do for \<open>sort\<close>.\<close>

fun component_key :: "component \<Rightarrow> nat list" where
  "component_key RootDir = [0]"
| "component_key CurDir = [1]"
| "component_key ParentDir = [2]"
| "component_key (Normal s) = 3 # map of_char s"

definition sort_paths :: "fpath list \<Rightarrow> fpath list" where
  "sort_paths = sort_key (map component_key)"

fun stale_in :: "fpath list \<Rightarrow> fpath list \<Rightarrow> (tree, scaffold_error, fpath list) eff" where
  "stale_in current [] = ok []"
| "stale_in current (d # ds) =
     and_then (map_err (ReadFailed d) (tree_list d)) (\<lambda>entries.
     and_then (filter_eff (\<lambda>p. if p \<in> set current then ok False else is_fraisier_generated p) entries) (\<lambda>found.
     and_then (stale_in current ds) (\<lambda>rest. ok (found @ rest))))"

definition prune_plan :: "generated_file list \<Rightarrow> string \<Rightarrow> (tree, scaffold_error, fpath list) eff" where
  "prune_plan files root =
     (let current = dests files root; dirs = remdups (sort_paths (map butlast (filter (\<lambda>p. p \<noteq> []) current)))
      in and_then (stale_in current dirs) (\<lambda>stale. ok (sort_paths stale)))"

datatype drift = Absent | Identical | Drifted

fun drift_label :: "drift \<Rightarrow> string" where
  "drift_label Absent = ''absent''"
| "drift_label Identical = ''identical''"
| "drift_label Drifted = ''drifted''"

fun classify_files :: "generated_file list \<Rightarrow> string \<Rightarrow> (tree, 'e, (fpath \<times> drift) list) eff" where
  "classify_files [] root = ok []"
| "classify_files (f # fs) root =
     (case gf_install_dest f of
        None \<Rightarrow> classify_files fs root
      | Some dest \<Rightarrow>
          let p = under_root root dest in
          and_then (result_of (tree_read p)) (\<lambda>r.
          and_then (classify_files fs root) (\<lambda>rest.
          ok ((p, case r of Inl _ \<Rightarrow> Absent | Inr existing \<Rightarrow> if existing = gf_contents f then Identical else Drifted) # rest))))"

definition systemd_dir :: string where
  "systemd_dir = ''/etc/systemd/system''"

definition list_installed :: "string \<Rightarrow> (tree, scaffold_error, fpath list) eff" where
  "list_installed root =
     (let d = under_root root systemd_dir in
      and_then (map_err (ReadFailed d) (tree_list d)) (\<lambda>entries.
      and_then (filter_eff is_fraisier_generated entries) (\<lambda>found. ok (sort_paths found))))"

fun uninstall :: "generated_file list \<Rightarrow> string \<Rightarrow> (tree, scaffold_error, fpath list) eff" where
  "uninstall [] root = ok []"
| "uninstall (f # fs) root =
     (case gf_install_dest f of
        None \<Rightarrow> uninstall fs root
      | Some dest \<Rightarrow>
          let p = under_root root dest in
          and_then (result_of (tree_read p)) (\<lambda>there.
          and_then (case there of Inl _ \<Rightarrow> ok False | Inr _ \<Rightarrow> is_fraisier_generated p) (\<lambda>ours.
          if ours
          then and_then (map_err (WriteFailed p) (tree_remove p)) (\<lambda>_. and_then (uninstall fs root) (\<lambda>ps. ok (p # ps)))
          else uninstall fs root)))"

fun prune_files :: "fpath list \<Rightarrow> (tree, scaffold_error, unit) eff" where
  "prune_files [] = ok ()"
| "prune_files (p # ps) = and_then (map_err (WriteFailed p) (tree_remove p)) (\<lambda>_. prune_files ps)"

section \<open>The commands\<close>

fun show_component :: "component \<Rightarrow> string" where
  "show_component RootDir = []"
| "show_component CurDir = ''.''"
| "show_component ParentDir = ''..''"
| "show_component (Normal s) = s"

definition show_path :: "fpath \<Rightarrow> string" where
  "show_path p = (if p = [RootDir] then ''/'' else join ''/'' (map show_component p))"

definition json_paths :: "fpath list \<Rightarrow> json" where
  "json_paths ps = json_strings (map show_path ps)"

text \<open>\<open>scaffold-install\<close>: the plan, or the installation followed by the prune.\<close>

definition scaffold_install :: "(string \<Rightarrow> string) \<Rightarrow> deploy_config \<Rightarrow> string \<Rightarrow> bool \<Rightarrow> bool \<Rightarrow> bool \<Rightarrow>
    (tree, scaffold_error, command_output) eff" where
  "scaffold_install upper cfg root do_prune do_apply dry_run =
     and_then (from_result (generate upper cfg)) (\<lambda>files.
     let targets = install_targets files root in
     and_then (if do_prune then prune_plan files root else ok []) (\<lambda>stale.
     if dry_run \<or> \<not> do_apply then
       ok \<lparr>co_exit_code = 0,
           co_pretty = ''install plan (dry run, root '' @ root @ ''):'' @ [newline] @ concat (map (\<lambda>p. ''  + '' @ show_path p @ [newline]) targets) @
             (if do_prune then ''prune plan:'' @ [newline] @ (if stale = [] then ''  (nothing stale)'' @ [newline] else []) @
               concat (map (\<lambda>p. ''  - '' @ show_path p @ [newline]) stale) else []) @
             (if dry_run then [] else ''pass --yes to apply'' @ [newline]),
           co_json = JObject [(''applied'', JBool False), (''install'', json_paths targets), (''prune'', json_paths stale)]\<rparr>
     else
       and_then (install files root) (\<lambda>installed.
       and_then (if do_prune then prune_files stale else ok ()) (\<lambda>_.
       ok \<lparr>co_exit_code = 0,
           co_pretty = ''installed '' @ show_nat (length installed) @ '' files (root '' @ root @ '')'' @ [newline] @
             (if do_prune then ''pruned '' @ show_nat (length stale) @ '' stale files'' @ [newline] else []),
           co_json = JObject [(''applied'', JBool True), (''installed'', json_paths installed), (''pruned'', json_paths stale)]\<rparr>))))"

text \<open>What the units of a configuration would refuse at each run, as far as the command looks.\<close>

definition scheduled_unit_reports :: "deploy_config \<Rightarrow> report list" where
  "scheduled_unit_reports cfg =
     (let command = Option.bind (cf_schedule cfg) sd_command; retains = (retain_of cfg \<noteq> []);
          drills = (Option.bind (cf_drill cfg) dl_schedule \<noteq> None) in
      (if command = Some ''deploy'' then [validate_config cfg] else if command = Some ''backup'' then [validate_db_ops cfg] else []) @
      (if retains \<or> drills then [validate_backup_ops cfg] else []) @ (if drills then [validate_db_ops cfg] else []))"

definition scheduled_sections :: "string list" where
  "scheduled_sections = [''schedule'', ''notify'', ''backup'', ''drill'']"

text \<open>The errors in the scheduling sections, and those of the unit reports that are not among the issues so far.\<close>

definition schedule_errors :: "deploy_config \<Rightarrow> report" where
  "schedule_errors cfg =
     (let own = filter (\<lambda>i. list_ex (\<lambda>s. prefix s (vi_path i)) scheduled_sections) (validate_config cfg) in
      filter (\<lambda>i. vi_severity i = SevError)
        (foldl (\<lambda>seen i. if i \<in> set seen then seen else seen @ [i]) own (concat (scheduled_unit_reports cfg))))"

definition refused_install :: "report \<Rightarrow> command_output" where
  "refused_install errors =
     \<lparr>co_exit_code = 1,
      co_pretty = ''refusing to install: invalid scheduling config'' @ [newline] @
        concat (map (\<lambda>i. ''  [error] '' @ vi_path i @ '': '' @ vi_message i @ [newline]) errors),
      co_json = JObject [(''applied'', JBool False), (''refused'', JBool True),
        (''errors'', JArray (map (\<lambda>i. JObject [(''path'', JString (vi_path i)), (''message'', JString (vi_message i))]) errors))]\<rparr>"

definition drifted_paths :: "(fpath \<times> drift) list \<Rightarrow> fpath list" where
  "drifted_paths ds = map fst (filter (\<lambda>(_, d). d = Drifted) ds)"

definition install_plan_output :: "string \<Rightarrow> bool \<Rightarrow> bool \<Rightarrow> (fpath \<times> drift) list \<Rightarrow> fpath list \<Rightarrow> command_output" where
  "install_plan_output root dry_run force ds stale =
     \<lparr>co_exit_code = 0,
      co_pretty = ''scheduled install plan (root '' @ root @ ''):'' @ [newline] @
        concat (map (\<lambda>(p, d). ''  ['' @ drift_label d @ ''] '' @ show_path p @ [newline]) ds) @
        concat (map (\<lambda>p. ''  [prune] '' @ show_path p @ [newline]) stale) @
        (if drifted_paths ds \<noteq> [] \<and> \<not> force then ''note: drifted units will be refused without --force'' @ [newline] else []) @
        (if dry_run then [] else ''pass --yes to apply'' @ [newline]) @
        ''then: systemctl daemon-reload && systemctl enable --now <timer>'' @ [newline],
      co_json = JObject [(''applied'', JBool False),
        (''drift'', JArray (map (\<lambda>(p, d). JObject [(''path'', JString (show_path p)), (''class'', JString (drift_label d))]) ds)),
        (''prune'', json_paths stale)]\<rparr>"

definition to_install :: "bool \<Rightarrow> generated_file list \<Rightarrow> (fpath \<times> drift) list \<Rightarrow> generated_file list" where
  "to_install force files ds =
     map fst (filter (\<lambda>(_, _, d). d = Absent \<or> d = Drifted \<and> force) (zip (filter (\<lambda>f. gf_install_dest f \<noteq> None) files) ds))"

definition scheduled_install :: "deploy_config \<Rightarrow> string \<Rightarrow> bool \<Rightarrow> bool \<Rightarrow> bool \<Rightarrow> bool \<Rightarrow> (tree, scaffold_error, command_output) eff" where
  "scheduled_install cfg root do_apply dry_run force do_prune =
     (if schedule_errors cfg \<noteq> [] then ok (refused_install (schedule_errors cfg))
      else
        and_then (from_result (generate_scheduled cfg)) (\<lambda>files.
        and_then (classify_files files root) (\<lambda>ds.
        and_then (if do_prune then prune_plan files root else ok []) (\<lambda>stale.
        if dry_run \<or> \<not> do_apply then ok (install_plan_output root dry_run force ds stale)
        else if drifted_paths ds \<noteq> [] \<and> \<not> force then
          ok \<lparr>co_exit_code = 1,
              co_pretty = ''refusing to install: drifted units (pass --force to overwrite)'' @ [newline] @
                concat (map (\<lambda>p. ''  [drifted] '' @ show_path p @ [newline]) (drifted_paths ds)),
              co_json = JObject [(''applied'', JBool False), (''drifted'', json_paths (drifted_paths ds))]\<rparr>
        else
          and_then (install (to_install force files ds) root) (\<lambda>installed.
          and_then (if do_prune then prune_files stale else ok ()) (\<lambda>_.
          let pruned = (if do_prune then stale else []) in
          ok \<lparr>co_exit_code = 0,
              co_pretty = ''installed '' @ show_nat (length installed) @ '' unit(s), pruned '' @ show_nat (length pruned) @ '' orphan(s) (root '' @ root @
                ''); '' @ show_nat (length ds - length installed) @ '' identical unit(s) unchanged'' @ [newline] @
                ''next: systemctl daemon-reload && systemctl enable --now <timer>'' @ [newline],
              co_json = JObject [(''applied'', JBool True), (''installed'', json_paths installed), (''pruned'', json_paths pruned)]\<rparr>))))))"

definition scheduled_list :: "string \<Rightarrow> (tree, scaffold_error, command_output) eff" where
  "scheduled_list root =
     and_then (list_installed root) (\<lambda>found.
     ok \<lparr>co_exit_code = 0,
         co_pretty = ''fraisier-installed units (root '' @ root @ ''):'' @ [newline] @ (if found = [] then ''  (none)'' @ [newline] else []) @
           concat (map (\<lambda>p. ''  '' @ show_path p @ [newline]) found),
         co_json = JObject [(''units'', json_paths found)]\<rparr>)"

definition scheduled_uninstall :: "deploy_config \<Rightarrow> string \<Rightarrow> bool \<Rightarrow> (tree, scaffold_error, command_output) eff" where
  "scheduled_uninstall cfg root do_apply =
     and_then (from_result (generate_scheduled cfg)) (\<lambda>files.
     let targets = install_targets files root in
     if \<not> do_apply then
       ok \<lparr>co_exit_code = 0,
           co_pretty = ''scheduled uninstall plan (root '' @ root @ ''):'' @ [newline] @ concat (map (\<lambda>p. ''  - '' @ show_path p @ [newline]) targets) @
             ''pass --yes to remove'' @ [newline],
           co_json = JObject [(''removed'', JBool False), (''plan'', json_paths targets)]\<rparr>
     else
       and_then (uninstall files root) (\<lambda>removed.
       ok \<lparr>co_exit_code = 0,
           co_pretty = ''removed '' @ show_nat (length removed) @ '' scheduled unit(s) (root '' @ root @ '')'' @ [newline] @
             ''then: systemctl daemon-reload'' @ [newline],
           co_json = JObject [(''removed'', JBool True), (''files'', json_paths removed)]\<rparr>))"

section \<open>A file system that answers\<close>

definition dest_of :: "string \<Rightarrow> generated_file \<Rightarrow> fpath" where
  "dest_of root f = under_root root (unwrap_or (gf_install_dest f) [])"

definition installables :: "generated_file list \<Rightarrow> generated_file list" where
  "installables = filter (\<lambda>f. gf_install_dest f \<noteq> None)"

definition drift_of :: "tree \<Rightarrow> string \<Rightarrow> generated_file \<Rightarrow> drift" where
  "drift_of t root f =
     (case content_at t (dest_of root f) of None \<Rightarrow> Absent | Some c \<Rightarrow> if c = gf_contents f then Identical else Drifted)"

definition written :: "string \<Rightarrow> generated_file list \<Rightarrow> fpath \<rightharpoonup> string" where
  "written root fs = map_of (rev (map (\<lambda>f. (dest_of root f, gf_contents f)) fs))"

named_theorems calm

lemma content_simps [simp]:
  "content_at (put_at p c t) = (content_at t)(p \<mapsto> c)" "content_at (remove_at p t) = (content_at t)(p := None)"
  "tr_faults (put_at p c t) = tr_faults t" "tr_faults (remove_at p t) = tr_faults t"
  by (simp_all add: content_at_def put_at_def remove_at_def update_conv' delete_conv' fun_eq_iff)

lemma tree_call_calm [calm]: "tr_faults t = [] \<Longrightarrow> tree_call f t = (case f t of (a, t') \<Rightarrow> (Inr a, t'))"
  by (simp add: tree_call_def)

lemma tree_read_calm [calm]:
  "tr_faults t = [] \<Longrightarrow> tree_read p t = (case content_at t p of Some c \<Rightarrow> (Inr c, t) | None \<Rightarrow> (Inl ''No such file or directory'', t))"
  by (simp add: tree_read_def calm and_then_def split: option.splits)

lemma tree_remove_calm:
  assumes "tr_faults t = []" and "content_at t p \<noteq> None"
  shows "tree_remove p t = (Inr (), remove_at p t)"
  using assms by (simp add: tree_remove_def calm and_then_def)

lemma write_file_calm:
  assumes "tr_faults t = []"
  obtains t' where "write_file p c t = (Inr (), t')" and "content_at t' = (content_at t)(p \<mapsto> c)" and "tr_faults t' = []"
  using assms that by (cases "p = []") (auto simp: write_file_def tree_write_def tree_mkdirs_def calm and_then_def map_err_def)

lemma is_generated_calm [calm]:
  "tr_faults t = [] \<Longrightarrow> is_fraisier_generated p t =
     (Inr (case content_at t p of Some c \<Rightarrow> utf8_valid c \<and> contains marker c | None \<Rightarrow> False), t)"
  by (simp add: is_fraisier_generated_def result_of_def calm and_then_def split: option.splits)

lemma installables_Cons [simp]:
  "installables [] = []" "installables (f # fs) = (if gf_install_dest f = None then installables fs else f # installables fs)"
  by (simp_all add: installables_def)

lemma classify_calm:
  assumes "tr_faults t = []"
  shows "classify_files fs root t = (Inr (map (\<lambda>f. (dest_of root f, drift_of t root f)) (installables fs)), t)"
proof (induction fs)
  case (Cons f fs)
  with assms show ?case
    by (cases "gf_install_dest f")
      (simp_all add: dest_of_def drift_of_def result_of_def calm and_then_def Let_def split: option.splits)
qed simp

lemma written_simps: "written root [] = Map.empty" "written root (f # fs) = [dest_of root f \<mapsto> gf_contents f] ++ written root fs"
  by (simp_all add: written_def)

lemma install_calm:
  assumes "tr_faults t = []"
  obtains t' where "install fs root t = (Inr (map (dest_of root) (installables fs)), t')" and "tr_faults t' = []"
    and "content_at t' = content_at t ++ written root (installables fs)"
proof -
  have "\<exists>t'. install fs root t = (Inr (map (dest_of root) (installables fs)), t') \<and> tr_faults t' = [] \<and>
      content_at t' = content_at t ++ written root (installables fs)"
    using assms
  proof (induction fs arbitrary: t)
    case Nil
    then show ?case by (simp add: written_simps)
  next
    case (Cons f fs)
    show ?case
    proof (cases "gf_install_dest f")
      case None
      with Cons show ?thesis by simp
    next
      case (Some d)
      then have d: "dest_of root f = under_root root d" by (simp add: dest_of_def)
      obtain t1 where t1: "write_file (dest_of root f) (gf_contents f) t = (Inr (), t1)" "tr_faults t1 = []"
          "content_at t1 = (content_at t)(dest_of root f \<mapsto> gf_contents f)"
        using write_file_calm [OF Cons.prems] by metis
      from Cons.IH [OF t1(2)] obtain t' where "install fs root t1 = (Inr (map (dest_of root) (installables fs)), t')" "tr_faults t' = []"
        "content_at t' = content_at t1 ++ written root (installables fs)" by blast
      with t1 Some show ?thesis by (simp add: and_then_def Let_def d written_simps)
    qed
  qed
  with that show thesis by blast
qed

lemma written_None: "p \<notin> dest_of root ` set fs \<Longrightarrow> written root fs p = None"
  by (auto simp: written_def map_of_eq_None_iff)

lemma written_Some:
  assumes "distinct (map (dest_of root) fs)" and "f \<in> set fs"
  shows "written root fs (dest_of root f) = Some (gf_contents f)"
proof -
  have "distinct (map fst (rev (map (\<lambda>f. (dest_of root f, gf_contents f)) fs)))" using assms(1) by (simp add: rev_map [symmetric] comp_def)
  then show ?thesis unfolding written_def using assms(2) by (intro map_of_is_SomeI) auto
qed

lemma to_install_calm:
  "to_install force files (map (\<lambda>f. (dest_of root f, drift_of t root f)) (installables files)) =
    filter (\<lambda>f. drift_of t root f = Absent \<or> drift_of t root f = Drifted \<and> force) (installables files)"
proof -
  have "map fst (filter (\<lambda>(_, _, d). P d) (zip fs (map (\<lambda>f. (a f, b f)) fs))) = filter (\<lambda>f. P (b f)) fs" for P fs and a :: "generated_file \<Rightarrow> fpath" and b
    by (induction fs) auto
  then show ?thesis unfolding to_install_def installables_def by (rule trans) simp
qed

section \<open>Installing fails closed\<close>

lemma drifted_calm:
  "drifted_paths (map (\<lambda>f. (dest_of root f, drift_of t root f)) fs) = [] \<longleftrightarrow> (\<forall>f\<in>set fs. drift_of t root f \<noteq> Drifted)"
  by (auto simp: drifted_paths_def filter_empty_conv)

text \<open>What an installing run writes: the absent files, and with force the drifted ones.\<close>

definition wanted :: "bool \<Rightarrow> tree \<Rightarrow> string \<Rightarrow> generated_file list \<Rightarrow> generated_file list" where
  "wanted force t root files = filter (\<lambda>f. drift_of t root f = Absent \<or> drift_of t root f = Drifted \<and> force) (installables files)"

lemma to_install_wanted: "to_install force files (map (\<lambda>f. (dest_of root f, drift_of t root f)) (installables files)) = wanted force t root files"
  by (simp add: to_install_calm wanted_def)

lemma installables_wanted [simp]: "installables (wanted force t root files) = wanted force t root files"
  by (simp add: wanted_def installables_def conj_commute)

lemma scheduled_install_calm:
  assumes "tr_faults t = []" and "scheduled_install cfg root do_apply dry_run force False t = (r, t')"
  shows "tr_faults t' = [] \<and> (t' = t \<or> (\<exists>files. generate_scheduled cfg = Inr files \<and> (force \<or> (\<forall>f\<in>set (installables files). drift_of t root f \<noteq> Drifted)) \<and>
      content_at t' = content_at t ++ written root (wanted force t root files)))"
    and "do_apply \<Longrightarrow> \<not> dry_run \<Longrightarrow> r = Inr out \<Longrightarrow> co_exit_code out = 0 \<Longrightarrow>
      \<exists>files. generate_scheduled cfg = Inr files \<and> (force \<or> (\<forall>f\<in>set (installables files). drift_of t root f \<noteq> Drifted)) \<and>
        content_at t' = content_at t ++ written root (wanted force t root files)"
proof -
  let ?ds = "\<lambda>files. map (\<lambda>f. (dest_of root f, drift_of t root f)) (installables files)"
  consider (refused) "t' = t" "r = Inr (refused_install (schedule_errors cfg))"
    | (failed) e where "t' = t" "r = Inl e"
    | (planned) out where "t' = t" "r = Inr out" "dry_run \<or> \<not> do_apply \<or> co_exit_code out = 1"
    | (applied) files where "generate_scheduled cfg = Inr files" "force \<or> drifted_paths (?ds files) = []"
        "\<exists>a. install (wanted force t root files) root t = (Inr a, t')"
  proof (cases "schedule_errors cfg = []")
    case False
    with assms(2) that(1) show thesis by (simp add: scheduled_install_def)
  next
    case True
    show thesis
    proof (cases "generate_scheduled cfg")
      case (Inl e)
      with True assms(2) show thesis by (intro that(2) [of e]) (simp_all add: scheduled_install_def from_result_def and_then_def)
    next
      case (Inr files)
      obtain t1 where t1: "install (wanted force t root files) root t = (Inr (map (dest_of root) (wanted force t root files)), t1)"
        using install_calm [OF assms(1), of "wanted force t root files" root] by auto
      note eval = scheduled_install_def and_then_def classify_calm [OF assms(1)] to_install_wanted
      show thesis
      proof (cases "dry_run \<or> \<not> do_apply \<or> drifted_paths (?ds files) \<noteq> [] \<and> \<not> force")
        case True
        with \<open>schedule_errors cfg = []\<close> Inr assms(2) show thesis
          by (intro that(3) [of "case r of Inr out \<Rightarrow> out"]) (auto simp: eval from_result_def split: if_splits)
      next
        case False
        with \<open>schedule_errors cfg = []\<close> Inr assms(2) show thesis
          using t1 by (intro that(4) [OF Inr]) (auto simp: eval from_result_def Let_def)
      qed
    qed
  qed
  note runs = this
  have done_run: "tr_faults t' = [] \<and> content_at t' = content_at t ++ written root (wanted force t root files)"
    if "install (wanted force t root files) root t = (Inr a, t')" for files a
    using install_calm [OF assms(1), of "wanted force t root files" root] that by auto
  from runs show "tr_faults t' = [] \<and> (t' = t \<or> (\<exists>files. generate_scheduled cfg = Inr files \<and> (force \<or> (\<forall>f\<in>set (installables files). drift_of t root f \<noteq> Drifted)) \<and>
      content_at t' = content_at t ++ written root (wanted force t root files)))"
    using assms(1) done_run drifted_calm by cases blast+
  assume "do_apply" "\<not> dry_run" "r = Inr out" "co_exit_code out = 0"
  with runs show "\<exists>files. generate_scheduled cfg = Inr files \<and> (force \<or> (\<forall>f\<in>set (installables files). drift_of t root f \<noteq> Drifted)) \<and>
        content_at t' = content_at t ++ written root (wanted force t root files)"
    using done_run drifted_calm by cases (auto simp: refused_install_def)
qed

text \<open>
  C21: \<open>scheduled install\<close> fails closed. On a file system whose calls succeed, a run without \<open>--force\<close> and \<open>--prune\<close> leaves every
  file that was there exactly as it was, whatever the configuration and whether it applies or plans.
\<close>

theorem scheduled_install_never_overwrites:
  assumes "tr_faults t = []" and "scheduled_install cfg root do_apply dry_run False False t = (r, t')" and "content_at t p = Some c"
  shows "content_at t' p = Some c"
proof -
  consider "t' = t" | files where "content_at t' = content_at t ++ written root (wanted False t root files)"
    using scheduled_install_calm(1) [OF assms(1,2)] by blast
  then show ?thesis
  proof cases
    case (2 files)
    have "p \<notin> dest_of root ` set (wanted False t root files)"
      using assms(3) by (auto simp: wanted_def drift_of_def split: option.splits if_splits)
    then show ?thesis using 2 assms(3) by (simp add: written_None map_add_def)
  qed (use assms(3) in simp)
qed

text \<open>
  C39: a successful installation is complete and stable. After an applied run that exits with 0, every unit of the
  configuration is at its place with its contents, and running it again, forced or not, changes no file.
\<close>

theorem scheduled_install_converges:
  assumes "tr_faults t = []" and "scheduled_install cfg root True False force False t = (Inr out, t')" and "co_exit_code out = 0"
    and "generate_scheduled cfg = Inr files" and "distinct (map (dest_of root) (installables files))"
    and "scheduled_install cfg root True False force' False t' = (r, t'')"
  shows "(\<forall>f\<in>set (installables files). content_at t' (dest_of root f) = Some (gf_contents f)) \<and> content_at t'' = content_at t'"
proof -
  from scheduled_install_calm(2) [OF assms(1,2) _ _ _ assms(3)] assms(4)
  have drift: "force \<or> (\<forall>f\<in>set (installables files). drift_of t root f \<noteq> Drifted)"
    and t': "content_at t' = content_at t ++ written root (wanted force t root files)" by auto
  have wdist: "distinct (map (dest_of root) (wanted force t root files))" using assms(5) unfolding wanted_def by (rule distinct_map_filter)
  have there: "content_at t' (dest_of root f) = Some (gf_contents f)" if f: "f \<in> set (installables files)" for f
  proof (cases "drift_of t root f = Identical")
    case True
    then have "content_at t (dest_of root f) = Some (gf_contents f)" by (simp add: drift_of_def split: option.splits if_splits)
    moreover have "dest_of root f \<notin> dest_of root ` set (wanted force t root files)"
    proof
      assume "dest_of root f \<in> dest_of root ` set (wanted force t root files)"
      then obtain g where g: "g \<in> set (wanted force t root files)" "dest_of root f = dest_of root g" by blast
      then have "g \<in> set (installables files)" "drift_of t root g \<noteq> Identical" by (auto simp: wanted_def)
      with f g(2) assms(5) True show False unfolding distinct_map by (metis inj_onD)
    qed
    ultimately show ?thesis using t' by (simp add: written_None map_add_def)
  next
    case False
    then have "f \<in> set (wanted force t root files)" using f drift by (cases "drift_of t root f") (auto simp: wanted_def)
    from written_Some [OF wdist this] t' show ?thesis by (simp add: map_add_def)
  qed
  then have "\<forall>f\<in>set (installables files). drift_of t' root f = Identical" by (simp add: drift_of_def)
  then have "wanted force' t' root files = []" by (simp add: wanted_def filter_empty_conv)
  moreover have "tr_faults t' = []" using scheduled_install_calm(1) [OF assms(1,2)] by blast
  ultimately have "content_at t'' = content_at t'"
    using scheduled_install_calm(1) [OF _ assms(6)] assms(4) by (auto simp: written_simps)
  with there show ?thesis by blast
qed

section \<open>Removing\<close>

definition ours :: "string option \<Rightarrow> bool" where
  "ours c \<longleftrightarrow> (case c of Some s \<Rightarrow> utf8_valid s \<and> contains marker s | None \<Rightarrow> False)"

lemma ours_None [simp]: "\<not> ours None"
  by (simp add: ours_def)

lemma with_header_marker: "contains marker (with_header b)"
  unfolding contains_iff with_header_def by blast

lemma uninstall_calm:
  assumes "tr_faults t = []"
  shows "\<exists>ps t'. uninstall fs root t = (Inr ps, t') \<and> tr_faults t' = [] \<and>
    content_at t' = (\<lambda>p. if p \<in> dest_of root ` set (installables fs) \<and> ours (content_at t p) then None else content_at t p)"
  using assms
proof (induction fs arbitrary: t)
  case (Cons f fs)
  show ?case
  proof (cases "gf_install_dest f")
    case None
    with Cons show ?thesis by simp
  next
    case (Some d)
    then have d: "dest_of root f = under_root root d" by (simp add: dest_of_def)
    show ?thesis
    proof (cases "ours (content_at t (dest_of root f))")
      case False
      with Cons.prems Some d have "uninstall (f # fs) root t = uninstall fs root t"
        by (auto simp: Let_def result_of_def calm and_then_def ours_def split: option.splits)
      with Cons.IH [OF Cons.prems] False Some show ?thesis by (fastforce simp: fun_eq_iff)
    next
      case True
      then have "content_at t (dest_of root f) \<noteq> None" by (auto simp: ours_def split: option.splits)
      with tree_remove_calm [OF Cons.prems this] True Cons.prems Some d
      have step: "uninstall (f # fs) root t = and_then (uninstall fs root) (\<lambda>ps. ok (dest_of root f # ps)) (remove_at (dest_of root f) t)"
        by (auto simp: Let_def result_of_def calm and_then_def map_err_def ours_def split: option.splits)
      have "tr_faults (remove_at (dest_of root f) t) = []" using Cons.prems by simp
      from Cons.IH [OF this] obtain ps t' where "uninstall fs root (remove_at (dest_of root f) t) = (Inr ps, t')" "tr_faults t' = []"
        "content_at t' = (\<lambda>p. if p \<in> dest_of root ` set (installables fs) \<and> ours (content_at (remove_at (dest_of root f) t) p) then None
          else content_at (remove_at (dest_of root f) t) p)" by blast
      with step True Some show ?thesis by (auto simp: and_then_def fun_eq_iff)
    qed
  qed
qed simp

text \<open>
  Uninstalling undoes installing and touches nothing else. If none of a configuration's units was there,
  \<open>scheduled uninstall\<close> after a successful \<open>scheduled install\<close> restores every file of the system; and at any time it removes
  only files at the places of these units that carry the marker.
\<close>

theorem uninstall_undoes_install:
  assumes "tr_faults t = []" and "generate_scheduled cfg = Inr files" and "distinct (map (dest_of root) (installables files))"
    and "\<forall>f\<in>set (installables files). content_at t (dest_of root f) = None \<and> utf8_valid (gf_contents f)"
    and "scheduled_install cfg root True False force False t = (Inr out, t')" and "co_exit_code out = 0"
    and "scheduled_uninstall cfg root True t' = (r, t'')"
  shows "content_at t'' = content_at t \<and> is_ok r \<and>
    (\<forall>t\<^sub>1 r\<^sub>1 t\<^sub>2 p c. tr_faults t\<^sub>1 = [] \<and> scheduled_uninstall cfg root True t\<^sub>1 = (r\<^sub>1, t\<^sub>2) \<and> content_at t\<^sub>1 p = Some c \<and> content_at t\<^sub>2 p \<noteq> Some c \<longrightarrow>
       p \<in> dest_of root ` set (installables files) \<and> contains marker c)"
proof (intro conjI allI impI)
  have run: "\<exists>ps. r\<^sub>1 = Inr ps \<and> content_at t\<^sub>2 = (\<lambda>p. if p \<in> dest_of root ` set (installables files) \<and> ours (content_at t\<^sub>1 p) then None else content_at t\<^sub>1 p)"
    if "tr_faults t\<^sub>1 = []" "scheduled_uninstall cfg root True t\<^sub>1 = (r\<^sub>1, t\<^sub>2)" for t\<^sub>1 r\<^sub>1 t\<^sub>2
    using that assms(2) uninstall_calm [OF that(1), of files root]
    by (auto simp: scheduled_uninstall_def from_result_def and_then_def Let_def)
  from scheduled_install_calm(2) [OF assms(1,5) _ _ _ assms(6)] assms(2)
  have t': "content_at t' = content_at t ++ written root (wanted force t root files)" by auto
  have all: "wanted force t root files = installables files"
    unfolding wanted_def using assms(4) by (auto simp: drift_of_def filter_id_conv)
  have calm': "tr_faults t' = []" using scheduled_install_calm(1) [OF assms(1,5)] by blast
  have here: "content_at t' p = (if p \<in> dest_of root ` set (installables files) then content_at t' p else content_at t p)" for p
    using t' all by (simp add: map_add_def written_None)
  have mine: "ours (content_at t' (dest_of root f))" if "f \<in> set (installables files)" for f
  proof -
    have "content_at t' (dest_of root f) = Some (gf_contents f)" using t' all written_Some [OF assms(3) that] by (simp add: map_add_def)
    moreover have "f \<in> set files" using that by (simp add: installables_def)
    then have "\<exists>u e b. f = unit_file u e b" using made_of_unit by (rule_tac generate_scheduled_made [OF assms(2)]) blast
    ultimately show ?thesis using assms(4) that with_header_marker by (auto simp: ours_def)
  qed
  obtain ps where uninstalled: "r = Inr ps"
    "content_at t'' = (\<lambda>p. if p \<in> dest_of root ` set (installables files) \<and> ours (content_at t' p) then None else content_at t' p)"
    using run [OF calm' assms(7)] by blast
  show "is_ok r" using uninstalled(1) by simp
  show "content_at t'' = content_at t"
  proof
    fix p
    show "content_at t'' p = content_at t p"
    proof (cases "p \<in> dest_of root ` set (installables files)")
      case True
      then show ?thesis using uninstalled(2) mine assms(4) by auto
    next
      case False
      then show ?thesis using uninstalled(2) here [of p] by simp
    qed
  qed
  fix t\<^sub>1 r\<^sub>1 t\<^sub>2 p c
  assume a: "tr_faults t\<^sub>1 = [] \<and> scheduled_uninstall cfg root True t\<^sub>1 = (r\<^sub>1, t\<^sub>2) \<and> content_at t\<^sub>1 p = Some c \<and> content_at t\<^sub>2 p \<noteq> Some c"
  with run [of t\<^sub>1 r\<^sub>1 t\<^sub>2] show "p \<in> dest_of root ` set (installables files)" "contains marker c" by (auto simp: ours_def split: if_splits)
qed

section \<open>Pruning\<close>

lemma filter_eff_calm:
  assumes "\<And>x. p x t = (Inr (q x), t)"
  shows "filter_eff p xs t = (Inr (filter q xs), t)"
  by (induction xs) (simp_all add: and_then_def assms)

lemma stale_in_calm:
  assumes "tr_faults t = []" and "stale_in current ds t = (r, t')"
  shows "t' = t \<and> (\<exists>ps. r = Inr ps \<and> (\<forall>d\<in>set ds. \<forall>p. p \<noteq> [] \<and> butlast p = d \<and> p \<notin> set current \<and> ours (content_at t p) \<longrightarrow> p \<in> set ps))"
  using assms(2)
proof (induction ds arbitrary: r t')
  case (Cons d ds)
  let ?q = "\<lambda>p. p \<notin> set current \<and> ours (content_at t p)"
  let ?found = "filter ?q (filter (\<lambda>p. p \<noteq> [] \<and> butlast p = d) (map fst (tr_files t)))"
  have "filter_eff (\<lambda>p. if p \<in> set current then ok False else is_fraisier_generated p) xs t = (Inr (filter ?q xs), t)" for xs
    by (rule filter_eff_calm) (simp add: calm assms(1) ours_def ok_def split: option.splits)
  moreover obtain r1 t1 where rest: "stale_in current ds t = (r1, t1)" by fastforce
  ultimately have "r = (case r1 of Inr ps \<Rightarrow> Inr (?found @ ps) | Inl e \<Rightarrow> Inl e)" "t' = t1"
    using Cons.prems by (auto simp: tree_list_def calm assms(1) and_then_def map_err_def split: sum.splits)
  moreover have "p \<in> set ?found" if "p \<noteq> []" "butlast p = d" "p \<notin> set current" "ours (content_at t p)" for p
  proof -
    from that(4) obtain c where "map_of (tr_files t) p = Some c" by (auto simp: ours_def content_at_def split: option.splits)
    then have "p \<in> fst ` set (tr_files t)" by (metis domI dom_map_of_conv_image_fst)
    with that show ?thesis by simp
  qed
  ultimately show ?case using Cons.IH [OF rest] by fastforce
qed simp

lemma prune_files_gone:
  assumes "tr_faults t = []" and "prune_files ps t = (Inr (), t')"
  shows "(\<forall>p\<in>set ps. content_at t' p = None) \<and> (\<forall>p. content_at t p = None \<longrightarrow> content_at t' p = None)"
  using assms
proof (induction ps arbitrary: t)
  case (Cons p ps)
  then have "content_at t p \<noteq> None" and "prune_files ps (remove_at p t) = (Inr (), t')"
    by (auto simp: tree_remove_def calm and_then_def map_err_def split: if_splits)
  with Cons.IH [of "remove_at p t"] Cons.prems(1) show ?case by auto
qed simp

text \<open>
  The prune of \<open>scheduled install --prune\<close> takes the files of every other deployable with it. Any file beside the units
  that carries the marker and is not one of this configuration's own is gone after a successful run: the units of
  another deployable on the host, and the application's own service that \<open>scaffold-install\<close> put there.
\<close>

lemma prune_takes_other_deployables:
  assumes "tr_faults t = []" and "scheduled_install cfg root True False force True t = (Inr out, t')" and "co_exit_code out = 0"
    and "generate_scheduled cfg = Inr files" and "f \<in> set (installables files)" and "dest_of root f \<noteq> []"
    and "p \<noteq> []" and "butlast p = butlast (dest_of root f)" and "p \<notin> set (dests files root)" and "ours (content_at t p)"
  shows "content_at t' p = None"
proof -
  let ?ds = "map (\<lambda>f. (dest_of root f, drift_of t root f)) (installables files)"
  have dest: "dest_of root f \<in> set (dests files root)"
    using assms(5) by (auto simp: dests_def dest_of_def installables_def List.map_filter_def image_iff intro!: bexI [of _ f])
  obtain r1 t1 where plan: "prune_plan files root t = (r1, t1)" by fastforce
  then have t1: "t1 = t" and stale: "\<exists>ps. r1 = Inr ps \<and> p \<in> set ps"
  proof -
    let ?dirs = "remdups (sort_paths (map butlast (filter (\<lambda>p. p \<noteq> []) (dests files root))))"
    obtain r2 t2 where st: "stale_in (dests files root) ?dirs t = (r2, t2)" by fastforce
    have "butlast p \<in> set ?dirs" using dest assms(6,8) by (auto simp: sort_paths_def)
    with stale_in_calm [OF assms(1) st] assms(7,9,10) st plan show "t1 = t" "\<exists>ps. r1 = Inr ps \<and> p \<in> set ps"
      by (auto simp: prune_plan_def and_then_def Let_def sort_paths_def)
  qed
  then obtain ps where ps: "prune_plan files root t = (Inr ps, t)" "p \<in> set ps" using plan by auto
  obtain t2 where t2: "install (wanted force t root files) root t = (Inr (map (dest_of root) (wanted force t root files)), t2)" "tr_faults t2 = []"
    using install_calm [OF assms(1), of "wanted force t root files" root] by auto
  from assms(2,3) have "prune_files ps t2 = (Inr (), t')"
    by (auto simp: scheduled_install_def and_then_def from_result_def assms(4) classify_calm [OF assms(1)] to_install_wanted ps(1) t2(1) Let_def
        refused_install_def split: if_splits sum.splits prod.splits)
  with prune_files_gone [OF t2(2)] ps(2) show ?thesis by blast
qed

section \<open>Reads that fail\<close>

text \<open>
  A destination that cannot be read counts as absent. If reading the first unit fails once, a file an operator
  edited there is overwritten without \<open>--force\<close>, and the run reports success.
\<close>

lemma unreadable_unit_is_overwritten:
  assumes "schedule_errors cfg = []" and "generate_scheduled cfg = Inr (f # fs)" and "gf_install_dest f = Some d"
    and "tr_faults t = [Some m]" and "content_at t (dest_of root f) = Some edited"
    and "\<forall>g\<in>set (installables fs). content_at t (dest_of root g) = None" and "distinct (map (dest_of root) (installables (f # fs)))"
  shows "\<exists>out t'. scheduled_install cfg root True False False False t = (Inr out, t') \<and> co_exit_code out = 0 \<and>
    content_at t' (dest_of root f) = Some (gf_contents f)"
proof -
  define s where "s = t\<lparr>tr_faults := []\<rparr>"
  have s: "tr_faults s = []" "content_at s = content_at t" by (simp_all add: s_def content_at_def fun_eq_iff)
  have d: "dest_of root f = under_root root d" using assms(3) by (simp add: dest_of_def)
  have read: "tree_read (dest_of root f) t = (Inl m, s)" using assms(4) by (simp add: tree_read_def tree_call_def and_then_def s_def)
  have absent: "\<forall>g\<in>set (installables fs). drift_of s root g = Absent" using assms(6) s(2) by (simp add: drift_of_def)
  let ?ds = "(dest_of root f, Absent) # map (\<lambda>g. (dest_of root g, drift_of s root g)) (installables fs)"
  have ds: "classify_files (f # fs) root t = (Inr ?ds :: scaffold_error + _, s)"
    using assms(3) read by (simp add: Let_def result_of_def and_then_def d classify_calm [OF s(1)])
  have sel: "map fst (filter (\<lambda>(_, _, e). e = Absent \<or> e = Drifted \<and> force) (zip fs (map (\<lambda>g. (dest_of root g, drift_of s root g)) fs))) = fs"
    if "\<forall>g\<in>set fs. drift_of s root g = Absent" for fs :: "generated_file list" and force
    using that by (induction fs) auto
  have inst: "to_install False (f # fs) ?ds = installables (f # fs)"
    using assms(3) sel [OF absent, of False] by (simp add: to_install_def installables_def)
  have none: "drifted_paths ?ds = []" using absent by (auto simp: drifted_paths_def filter_empty_conv)
  obtain t' where t': "install (installables (f # fs)) root s = (Inr (map (dest_of root) (installables (f # fs))), t')"
      "content_at t' = content_at s ++ written root (installables (f # fs))"
    using install_calm [OF s(1), of "installables (f # fs)" root] by (auto simp: installables_def)
  have "f \<in> set (installables (f # fs))" using assms(3) by simp
  from written_Some [OF assms(7) this] t'(2) have "content_at t' (dest_of root f) = Some (gf_contents f)" by (simp add: map_add_def)
  moreover have "\<exists>out. scheduled_install cfg root True False False False t = (Inr out, t') \<and> co_exit_code out = 0"
    unfolding scheduled_install_def assms(2) from_result_def and_then_def
    using assms(1) ds inst none t'(1) by (simp add: and_then_def Let_def del: installables_Cons)
  ultimately show ?thesis by blast
qed

text \<open>
  The gate in front of the installation does not look at \<open>[refresh]\<close>. A configuration that does not declare
  \<open>production = false\<close> may still install the timer of its scheduled refresh, which \<open>db refresh\<close> refuses at every run.
\<close>

definition undeclared_refresh :: deploy_config where
  "undeclared_refresh = base_config\<lparr>cf_deploy := map_option (\<lambda>d. d\<lparr>dp_production := None\<rparr>) (cf_deploy base_config),
     cf_refresh := Some (refresh_example\<lparr>fr_schedule := Some ''hourly''\<rparr>)\<rparr>"

lemma refresh_timer_not_gated:
  "schedule_errors undeclared_refresh = [] \<and> refresh_schedule undeclared_refresh = Some ''hourly'' \<and> \<not> report_ok (validate_db_ops undeclared_refresh)"
  by code_simp

section \<open>Examples\<close>

lemma scheduled_install_succeeds:
  assumes "tr_faults t = []" and "schedule_errors cfg = []" and "generate_scheduled cfg = Inr files"
    and "\<forall>f\<in>set (installables files). drift_of t root f \<noteq> Drifted"
  shows "\<exists>out t'. scheduled_install cfg root True False force False t = (Inr out, t') \<and> co_exit_code out = 0"
proof -
  obtain t' where "install (wanted force t root files) root t = (Inr (map (dest_of root) (wanted force t root files)), t')"
    using install_calm [OF assms(1), of "wanted force t root files" root] by auto
  then show ?thesis using assms drifted_calm [of root t "installables files"]
    by (simp add: scheduled_install_def and_then_def from_result_def classify_calm to_install_wanted Let_def)
qed

definition empty_tree :: tree where
  "empty_tree = \<lparr>tr_files = [], tr_faults = []\<rparr>"

lemma empty_tree_simps [simp]: "tr_faults empty_tree = []" "content_at empty_tree p = None" "drift_of empty_tree root f = Absent"
  by (simp_all add: empty_tree_def content_at_def drift_of_def)

lemma demo_no_errors: "schedule_errors demo_drill_config = []"
  by code_simp

lemma demo_dests: "map (dest_of ''/'') (installables [unit_file demo_units ''drill.service'' a, unit_file demo_units ''drill.timer'' b, unit_file demo_units ''alert@.service'' c]) =
  map (under_root ''/'') [''/etc/systemd/system/fraisier-shop-staging-drill.service'', ''/etc/systemd/system/fraisier-shop-staging-drill.timer'',
    ''/etc/systemd/system/fraisier-shop-staging-alert@.service'']"
  by (simp add: dest_of_def unit_name_def demo_units_def units_of_def)

lemma demo_distinct: "distinct (map (under_root ''/'') [''/etc/systemd/system/fraisier-shop-staging-drill.service'',
  ''/etc/systemd/system/fraisier-shop-staging-drill.timer'', ''/etc/systemd/system/fraisier-shop-staging-alert@.service''])"
  by code_simp

theorem scheduled_install_never_overwrites_witness:
  "\<exists>r t'. scheduled_install demo_drill_config ''/'' True False False False \<lparr>tr_files = [([RootDir, Normal ''x''], ''kept'')], tr_faults = []\<rparr> = (r, t') \<and>
     content_at t' [RootDir, Normal ''x''] = Some ''kept''"
proof -
  let ?t = "\<lparr>tr_files = [([RootDir, Normal ''x''], ''kept'')], tr_faults = []\<rparr>"
  obtain r t' where run: "scheduled_install demo_drill_config ''/'' True False False False ?t = (r, t')" by fastforce
  have "content_at t' [RootDir, Normal ''x''] = Some ''kept''"
    by (rule scheduled_install_never_overwrites [OF _ run]) (simp_all add: content_at_def)
  with run show ?thesis by blast
qed

theorem scheduled_install_converges_witness:
  "\<exists>out t' r t'' c. scheduled_install demo_drill_config ''/'' True False False False empty_tree = (Inr out, t') \<and> co_exit_code out = 0 \<and>
     scheduled_install demo_drill_config ''/'' True False True False t' = (r, t'') \<and> content_at t'' = content_at t' \<and>
     content_at t' (under_root ''/'' ''/etc/systemd/system/fraisier-shop-staging-drill.timer'') = Some c"
proof -
  obtain a b c where files: "generate_scheduled demo_drill_config =
      Inr [unit_file demo_units ''drill.service'' a, unit_file demo_units ''drill.timer'' b, unit_file demo_units ''alert@.service'' c]"
    using demo_drill_files by blast
  obtain out t' where run: "scheduled_install demo_drill_config ''/'' True False False False empty_tree = (Inr out, t')" "co_exit_code out = 0"
    using scheduled_install_succeeds [OF _ demo_no_errors files, of empty_tree "''/''" False] by auto
  obtain r t'' where again: "scheduled_install demo_drill_config ''/'' True False True False t' = (r, t'')" by fastforce
  have dist: "distinct (map (dest_of ''/'') (installables [unit_file demo_units ''drill.service'' a, unit_file demo_units ''drill.timer'' b, unit_file demo_units ''alert@.service'' c]))"
    unfolding demo_dests by (rule demo_distinct)
  have place: "dest_of ''/'' (unit_file demo_units ''drill.timer'' b) = under_root ''/'' ''/etc/systemd/system/fraisier-shop-staging-drill.timer''"
    by (simp add: dest_of_def unit_name_def demo_units_def units_of_def)
  have mem: "unit_file demo_units ''drill.timer'' b \<in> set (installables [unit_file demo_units ''drill.service'' a, unit_file demo_units ''drill.timer'' b,
      unit_file demo_units ''alert@.service'' c])" by (simp only: installables_Cons unit_file_simps option.distinct if_False list.set insert_iff simp_thms)
  note conv = scheduled_install_converges [OF empty_tree_simps(1) run files dist again]
  note found = conv [THEN conjunct1, rule_format, OF mem, unfolded place]
  show ?thesis by (intro exI conjI) (rule run, rule run(2), rule again, rule conv [THEN conjunct2], rule found)
qed


lemma ascii_valid: "list_all (byte_in 0 127) s \<Longrightarrow> utf8_valid s"
proof (induction s)
  case (Cons c s)
  then show ?case by (subst utf8_valid.simps) simp
qed (simp add: utf8_valid.simps)

lemma replace_str_all:
  assumes "list_all P by" and "list_all P s"
  shows "list_all P (replace_str pat by s)"
  using assms(2)
proof (induction s rule: length_induct)
  case (1 s)
  show ?case
  proof (cases "pat = []")
    case True
    then show ?thesis using "1.prems" by (simp add: replace_str_def split_str.simps)
  next
    case False
    have shorter: "list_all P (replace_str pat by (drop (length pat) s))" if "prefix pat s"
    proof -
      have "length (drop (length pat) s) < length s" using that False by (cases s; cases pat) auto
      moreover have "list_all P (drop (length pat) s)" using "1.prems" by (auto simp: list_all_iff dest: in_set_dropD)
      ultimately show ?thesis using "1.IH" by blast
    qed
    show ?thesis
    proof (cases s)
      case (Cons c t)
      then have "list_all P (replace_str pat by t)" using 1 by simp
      with Cons False shorter assms(1) "1.prems" show ?thesis by (subst replace_str_code) simp
    qed (use False shorter assms(1) in \<open>subst replace_str_code, simp\<close>)
  qed
qed

abbreviation ascii_text :: "string \<Rightarrow> bool" where
  "ascii_text \<equiv> list_all (byte_in 0 127)"

lemma fill_ascii:
  assumes "ascii_text (un_name u)" "ascii_text (un_environment u)" "ascii_text (un_config_path u)" "ascii_text (un_env_file u)"
    "ascii_text (un_ops_env_file u)" "ascii_text ops_env" "ascii_text template"
  shows "ascii_text (fill u template)"
  unfolding fill_def by (intro replace_str_all assms)

theorem uninstall_undoes_install_witness:
  "\<exists>out t' r t''. scheduled_install demo_drill_config ''/'' True False False False empty_tree = (Inr out, t') \<and> co_exit_code out = 0 \<and>
     scheduled_uninstall demo_drill_config ''/'' True t' = (r, t'') \<and> is_ok r \<and> content_at t'' = content_at empty_tree"
proof -
  define a b c where abc: "a = replace_str ''{failure}'' failure_record (fill demo_units drill_service)"
    "b = replace_str ''{on_calendar}'' ''*-*-* *:00:00'' (fill demo_units drill_timer)" "c = fill demo_units alert_service"
  let ?files = "[unit_file demo_units ''drill.service'' a, unit_file demo_units ''drill.timer'' b, unit_file demo_units ''alert@.service'' c]"
  have files: "generate_scheduled demo_drill_config = Inr ?files" unfolding abc by (rule demo_drill_files)
  have parts: "ascii_text (un_name demo_units)" "ascii_text (un_environment demo_units)" "ascii_text (un_config_path demo_units)"
      "ascii_text (un_env_file demo_units)" "ascii_text (un_ops_env_file demo_units)" "ascii_text ops_env"
    by code_simp+
  have tpl: "ascii_text drill_service" "ascii_text drill_timer" "ascii_text alert_service" "ascii_text failure_record" "ascii_text ''*-*-* *:00:00''"
      "ascii_text marker" by code_simp+
  have bodies: "ascii_text a" "ascii_text b" "ascii_text c" unfolding abc by (intro replace_str_all fill_ascii parts tpl)+
  have header: "utf8_valid (with_header x)" if "ascii_text x" for x
    using that tpl(6) by (intro ascii_valid) (simp add: with_header_def newline_def byte_in_def)
  have valid: "\<forall>f\<in>set (installables ?files). content_at empty_tree (dest_of ''/'' f) = None \<and> utf8_valid (gf_contents f)"
    using bodies [THEN header] by (simp add: installables_def)
  have dist: "distinct (map (dest_of ''/'') (installables ?files))" unfolding demo_dests by (rule demo_distinct)
  obtain out t' where run: "scheduled_install demo_drill_config ''/'' True False False False empty_tree = (Inr out, t')" "co_exit_code out = 0"
    using scheduled_install_succeeds [OF _ demo_no_errors files, of empty_tree "''/''" False] by auto
  obtain r t'' where un: "scheduled_uninstall demo_drill_config ''/'' True t' = (r, t'')" by fastforce
  note undone = uninstall_undoes_install [OF empty_tree_simps(1) files dist valid run un]
  show ?thesis by (intro exI conjI) (rule run, rule run(2), rule un, rule undone [THEN conjunct2, THEN conjunct1], rule undone [THEN conjunct1])
qed

end
