(* ===== verification/Subprocess.thy ===== *)
theory Subprocess
  imports Cli_Output Config_Accepted
begin

text \<open>
  Child processes: the variables no child may inherit (\<open>fraisier-core/src/child_env.rs\<close>), the shared runner of
  the shell-out adapters (\<open>fraisier-adapter-support/src/lib.rs\<close>) and the loading of a configuration
  (\<open>fraisier-cli/src/commands.rs\<close>), which decides what is withheld. Starting a program is a parameter: it gets
  the program, its arguments, its whole environment and its directory, and answers with what was captured.
\<close>

section \<open>The environment of a child\<close>

text \<open>
  fraisier's own environment, the process-wide set of withheld names, and the rest of the world. A child
  inherits the environment unless the caller removes from it.
\<close>

record 'w proc =
  pr_env :: "string \<rightharpoonup> string"
  pr_withheld :: "string set"
  pr_world :: 'w

record io_failure =
  if_text_busy :: bool
  if_text :: string

record captured =
  cp_code :: "int option"
  cp_stdout :: string
  cp_stderr :: string

type_synonym 'w spawn = "string \<Rightarrow> string list \<Rightarrow> (string \<rightharpoonup> string) \<Rightarrow> string option \<Rightarrow> ('w, io_failure, captured) eff"

definition withhold :: "string \<Rightarrow> 'w proc \<Rightarrow> 'w proc" where
  "withhold name p = p\<lparr>pr_withheld := insert name (pr_withheld p)\<rparr>"

definition scrub :: "'w proc \<Rightarrow> string \<rightharpoonup> string" where
  "scrub p = (\<lambda>name. if name \<in> pr_withheld p then None else pr_env p name)"

definition in_world :: "('w, 'e, 'a) eff \<Rightarrow> ('w proc, 'e, 'a) eff" where
  "in_world m p = (case m (pr_world p) of (r, w') \<Rightarrow> (r, p\<lparr>pr_world := w'\<rparr>))"

section \<open>The shared runner\<close>

definition captured_succeeded :: "captured \<Rightarrow> bool" where
  "captured_succeeded c \<longleftrightarrow> cp_code c = Some 0"

definition stderr_opt :: "captured \<Rightarrow> string option" where
  "stderr_opt c = (if trim (cp_stderr c) \<noteq> [] then Some (cp_stderr c) else None)"

definition tagged_error :: "adapter_error_kind \<Rightarrow> string \<Rightarrow> string \<Rightarrow> string \<Rightarrow> string option \<Rightarrow> adapter_error" where
  "tagged_error kind adapter operation message stderr =
     (adapter_error_new kind message)\<lparr>ae_adapter := Some adapter, ae_operation := Some operation, ae_stderr := stderr\<rparr>"

definition ETXTBSY_RETRIES :: nat where
  "ETXTBSY_RETRIES = 5"

text \<open>\<open>n\<close> tries that a busy text file repeats, then one whose result stands.\<close>

fun spawn_with_etxtbsy_retry :: "nat \<Rightarrow> ('w, io_failure, captured) eff \<Rightarrow> ('w, io_failure, captured) eff" where
  "spawn_with_etxtbsy_retry 0 command = command"
| "spawn_with_etxtbsy_retry (Suc n) command =
     and_then (result_of command) (\<lambda>r. case r of
       Inl cause \<Rightarrow> if if_text_busy cause then spawn_with_etxtbsy_retry n command else fail cause
     | Inr out \<Rightarrow> ok out)"

definition run_command :: "'w spawn \<Rightarrow> string \<Rightarrow> string list \<Rightarrow> (string \<times> string) list \<Rightarrow> string option \<Rightarrow> string \<Rightarrow> string \<Rightarrow>
    ('w proc, adapter_error, captured) eff" where
  "run_command spawn program args envs cwd adapter operation p =
     map_err (\<lambda>cause. tagged_error Execution adapter operation
         (''failed to spawn '' @ [CHR 0x27] @ program @ [CHR 0x27] @ '': '' @ if_text cause) None)
       (in_world (spawn_with_etxtbsy_retry ETXTBSY_RETRIES (spawn program args (scrub p ++ map_of (rev envs)) cwd))) p"

section \<open>Loading a configuration\<close>

datatype load_error = ReadingConfig string string | ParsingConfig string string

definition withhold_admin_env :: "deploy_config \<Rightarrow> 'w proc \<Rightarrow> 'w proc" where
  "withhold_admin_env cfg p =
     (case Option.bind (cf_database cfg) da_admin_url_env of Some name \<Rightarrow> withhold name p | None \<Rightarrow> p)"

text \<open>Reading a file and the TOML parser are parameters.\<close>

definition load :: "(string \<Rightarrow> ('w, string, string) eff) \<Rightarrow> (string \<Rightarrow> string + deploy_config) \<Rightarrow> string \<Rightarrow>
    ('w proc, load_error, deploy_config) eff" where
  "load read_to_string from_toml_str config_path =
     and_then (map_err (ReadingConfig config_path) (in_world (read_to_string config_path))) (\<lambda>toml.
     and_then (map_err (ParsingConfig config_path) (from_result (from_toml_str toml))) (\<lambda>cfg p.
     (Inr cfg, withhold_admin_env cfg p)))"

section \<open>What reaches a child\<close>

lemma in_world_keeps: "keeps (\<lambda>p. (pr_env p, pr_withheld p)) (in_world m)"
  by (auto simp: keeps_def in_world_def split: prod.split)

lemma in_world_run: "m (pr_world p) = (r, w') \<Longrightarrow> in_world m p = (r, p\<lparr>pr_world := w'\<rparr>)"
  by (simp add: in_world_def)

lemma load_withholds:
  assumes "load rd parse path p = (Inr cfg, p')" and "cf_database cfg = Some db" and "da_admin_url_env db = Some name"
  shows "name \<in> pr_withheld p' \<and> pr_withheld p \<subseteq> pr_withheld p' \<and> pr_env p' = pr_env p"
  using assms by (auto simp: load_def eff_cases in_world_def withhold_admin_env_def withhold_def split: prod.splits)

text \<open>A world that records the children started in it.\<close>

type_synonym child = "string \<times> string list \<times> (string \<rightharpoonup> string) \<times> string option"

definition watched :: "'w spawn \<Rightarrow> ('w \<times> child list) spawn" where
  "watched spawn program args env cwd =
     (\<lambda>(w, cs). case spawn program args env cwd w of (r, w') \<Rightarrow> (r, w', cs @ [(program, args, env, cwd)]))"

lemma retry_children:
  "\<exists>k. snd (snd (spawn_with_etxtbsy_retry n (watched spawn program args env cwd) (w, cs))) = cs @ replicate k (program, args, env, cwd)"
proof (induction n arbitrary: w cs)
  case 0
  show ?case by (rule exI [of _ 1]) (simp add: watched_def split: prod.split)
next
  case (Suc n)
  obtain r w' where r: "watched spawn program args env cwd (w, cs) = (r, w', cs @ [(program, args, env, cwd)])"
    by (cases "spawn program args env cwd w") (simp add: watched_def)
  show ?case
  proof (cases "\<exists>cause. r = Inl cause \<and> if_text_busy cause")
    case True
    then have "spawn_with_etxtbsy_retry (Suc n) (watched spawn program args env cwd) (w, cs) =
        spawn_with_etxtbsy_retry n (watched spawn program args env cwd) (w', cs @ [(program, args, env, cwd)])"
      using r by (auto simp: and_then_def result_of_def)
    moreover obtain k where "snd (snd (spawn_with_etxtbsy_retry n (watched spawn program args env cwd)
        (w', cs @ [(program, args, env, cwd)]))) = cs @ replicate (Suc k) (program, args, env, cwd)"
      using Suc.IH [of w' "cs @ [(program, args, env, cwd)]"] by auto
    ultimately show ?thesis by metis
  next
    case False
    then show ?thesis using r by (intro exI [of _ 1]) (auto simp: and_then_def result_of_def split: sum.split)
  qed
qed

text \<open>
  C25: Whatever a configuration declares as its superuser connection stays with fraisier: once the configuration is
  loaded, a child started by the shared runner, retries included, does not find that variable in its
  environment unless the caller passes it explicitly, and every other variable of fraisier reaches it unchanged.
\<close>

theorem admin_url_withheld:
  assumes "load rd parse path p = (Inr cfg, p')" and "cf_database cfg = Some db" and "da_admin_url_env db = Some name"
    and "run_command (watched spawn) program args envs cwd adapter operation (p'\<lparr>pr_world := (w, [])\<rparr>) = (r, q)"
    and "name \<notin> fst ` set envs"
  shows "\<forall>(prog, argv, env, dir)\<in>set (snd (pr_world q)). env name = None \<and>
      (\<forall>other. other \<notin> pr_withheld p' \<and> other \<notin> fst ` set envs \<longrightarrow> env other = pr_env p other)"
proof -
  let ?p = "p'\<lparr>pr_world := (w, [])\<rparr>"
  let ?env = "scrub ?p ++ map_of (rev envs)"
  have "snd (pr_world q) = snd (snd (spawn_with_etxtbsy_retry ETXTBSY_RETRIES (watched spawn program args ?env cwd) (w, [])))"
    using assms(4) by (auto simp: run_command_def in_world_def map_err_def split: prod.splits sum.splits)
  then have "\<forall>c\<in>set (snd (pr_world q)). c = (program, args, ?env, cwd)"
    using retry_children [of ETXTBSY_RETRIES spawn program args ?env cwd w "[]"] by auto
  moreover have "map_of (rev envs) name = None" using assms(5) by (simp add: map_of_eq_None_iff)
  then have "?env name = None" using load_withholds [OF assms(1-3)] by (simp add: scrub_def map_add_def)
  moreover have "?env other = pr_env p other" if "other \<notin> pr_withheld p'" "other \<notin> fst ` set envs" for other
  proof -
    have "map_of (rev envs) other = None" using that by (simp add: map_of_eq_None_iff)
    with that load_withholds [OF assms(1-3)] show ?thesis by (simp add: scrub_def map_add_def)
  qed
  ultimately show ?thesis by auto
qed

text \<open>A process with the superuser connection and an ordinary variable in its environment, and a program that is busy once.\<close>

definition busy_once :: "nat spawn" where
  "busy_once program args env cwd n =
     (if n = 0 then (Inl \<lparr>if_text_busy = True, if_text = ''Text file busy''\<rparr>, 1)
      else (Inr \<lparr>cp_code = Some 0, cp_stdout = [], cp_stderr = []\<rparr>, n))"

definition admin_config :: deploy_config where
  "admin_config = base_config\<lparr>cf_database := Some \<lparr>da_requires = None, da_admin_url_env = Some ''ADMIN_URL'', da_tviews = None\<rparr>\<rparr>"

theorem admin_url_withheld_witness:
  "\<exists>p' q. load (\<lambda>path. ok []) (\<lambda>toml. Inr admin_config) ''fraisier.toml''
        \<lparr>pr_env = [''ADMIN_URL'' \<mapsto> ''postgres://root'', ''HOME'' \<mapsto> ''/root''], pr_withheld = {}, pr_world = (0, [])\<rparr> = (Inr admin_config, p') \<and>
     run_command (watched busy_once) ''sh'' [''-c'', ''make''] [] None ''check'' ''lint'' (p'\<lparr>pr_world := (0, [])\<rparr>) =
       (Inr \<lparr>cp_code = Some 0, cp_stdout = [], cp_stderr = []\<rparr>, q) \<and>
     length (snd (pr_world q)) = 2 \<and>
     list_all (\<lambda>(prog, argv, env, dir). env ''ADMIN_URL'' = None \<and> env ''HOME'' = Some ''/root'') (snd (pr_world q))"
proof -
  let ?p = "\<lparr>pr_env = [''ADMIN_URL'' \<mapsto> ''postgres://root'', ''HOME'' \<mapsto> ''/root''], pr_withheld = {}, pr_world = (0, [])\<rparr> :: (nat \<times> child list) proc"
  obtain p' where l: "load (\<lambda>path. ok []) (\<lambda>toml. Inr admin_config) ''fraisier.toml'' ?p = (Inr admin_config, p')"
    and p': "p' = withhold ''ADMIN_URL'' ?p"
    by (simp add: load_def and_then_def in_world_def map_err_def withhold_admin_env_def admin_config_def base_config_def)
  obtain q where r: "run_command (watched busy_once) ''sh'' [''-c'', ''make''] [] None ''check'' ''lint'' (p'\<lparr>pr_world := (0, [])\<rparr>) =
       (Inr \<lparr>cp_code = Some 0, cp_stdout = [], cp_stderr = []\<rparr>, q)" and n: "length (snd (pr_world q)) = 2"
    by (simp add: run_command_def ETXTBSY_RETRIES_def eval_nat_numeral and_then_def result_of_def watched_def busy_once_def
        in_world_def map_err_def)
  have "list_all (\<lambda>(prog, argv, env, dir). env ''ADMIN_URL'' = None \<and> env ''HOME'' = Some ''/root'') (snd (pr_world q))"
    using admin_url_withheld [OF l _ _ r, of _ "''ADMIN_URL''"] p'
    by (auto simp: list_all_iff admin_config_def withhold_def)
  with l r n show ?thesis by blast
qed

end
