(* ===== verification/Checks.thy ===== *)
theory Checks
  imports Subprocess Multi_Host_Rollout
begin

text \<open>
  Project checks: the runner (\<open>fraisier-check\<close>) and the command \<open>check\<close> with its two reports
  (\<open>fraisier-cli/src/commands.rs\<close>). The checks of a batch run together, in any interleaving; a check is one
  \<open>sh -c\<close> in its directory. Starting a program, the clocks and the file system of the logs are parameters.
\<close>

section \<open>The runner\<close>

record check_item =
  chk_name :: string
  chk_command :: string
  chk_workdir :: "string option"

datatype check_status = ChkPassed | ChkFailed | ChkSpawnError

text \<open>Durations are in nanoseconds.\<close>

record check_outcome =
  cko_name :: string
  cko_status :: check_status
  cko_code :: "int option"
  cko_stdout :: string
  cko_stderr :: string
  cko_duration :: nat

record check_run_report =
  crr_outcomes :: "check_outcome list"
  crr_total_duration :: nat

definition cko_passed :: "check_outcome \<Rightarrow> bool" where
  "cko_passed o1 \<longleftrightarrow> cko_status o1 = ChkPassed"

definition crr_ok :: "check_run_report \<Rightarrow> bool" where
  "crr_ok r = list_all cko_passed (crr_outcomes r)"

definition failed_count :: "check_run_report \<Rightarrow> nat" where
  "failed_count r = length (filter (\<lambda>o1. \<not> cko_passed o1) (crr_outcomes r))"

definition failed_names :: "check_run_report \<Rightarrow> string list" where
  "failed_names r = map cko_name (filter (\<lambda>o1. \<not> cko_passed o1) (crr_outcomes r))"

record 'w check_host =
  ch_spawn :: "'w spawn"
  ch_instant :: "'w \<Rightarrow> nat"
  ch_unix_millis :: "'w \<Rightarrow> nat"
  ch_sched :: "'w proc \<Rightarrow> nat list"
  ch_parallelism :: "nat option"
  ch_exists :: "string \<Rightarrow> 'w \<Rightarrow> bool"
  ch_read :: "string \<Rightarrow> ('w, string, string) eff"
  ch_from_toml :: "string \<Rightarrow> string + deploy_config"
  ch_create_dir_all :: "string \<Rightarrow> ('w, string, unit) eff"
  ch_create_private :: "string \<Rightarrow> ('w, string, unit) eff"
  ch_write_all :: "string \<Rightarrow> string \<Rightarrow> ('w, string, unit) eff"

definition outcome_of :: "check_item \<Rightarrow> nat \<Rightarrow> adapter_error + captured \<Rightarrow> check_outcome" where
  "outcome_of c duration result =
     (case result of
        Inr captured \<Rightarrow>
          \<lparr>cko_name = chk_name c, cko_status = (if captured_succeeded captured then ChkPassed else ChkFailed),
           cko_code = cp_code captured, cko_stdout = cp_stdout captured, cko_stderr = cp_stderr captured, cko_duration = duration\<rparr>
      | Inl error \<Rightarrow>
          \<lparr>cko_name = chk_name c, cko_status = ChkSpawnError, cko_code = None, cko_stdout = [],
           cko_stderr = show_adapter_error error, cko_duration = duration\<rparr>)"

definition run_one :: "'w check_host \<Rightarrow> string \<Rightarrow> check_item \<Rightarrow> 'w proc \<Rightarrow> check_outcome \<times> 'w proc" where
  "run_one h base_dir c p =
     (case run_command (ch_spawn h) ''sh'' [''-c'', chk_command c] [] (Some (unwrap_or (chk_workdir c) base_dir)) ''check'' (chk_name c) p of
        (result, p') \<Rightarrow> (outcome_of c (ch_instant h (pr_world p') - ch_instant h (pr_world p)) result, p'))"

definition check_task :: "'w check_host \<Rightarrow> string \<Rightarrow> check_item \<Rightarrow> ('w proc, check_outcome) task" where
  "check_task h base_dir c = Call (\<lambda>p. map_prod Return id (run_one h base_dir c p))"

fun run_batches :: "'w check_host \<Rightarrow> string \<Rightarrow> check_item list list \<Rightarrow> check_outcome list \<Rightarrow> 'w proc \<Rightarrow> check_outcome list \<times> 'w proc" where
  "run_batches h base_dir [] outcomes p = (outcomes, p)"
| "run_batches h base_dir (batch # batches) outcomes p =
     (case join_all (ch_sched h p) (map (check_task h base_dir) batch) p of
        (os, p') \<Rightarrow> run_batches h base_dir batches (outcomes @ os) p')"

definition run_checks :: "'w check_host \<Rightarrow> check_item list \<Rightarrow> nat \<Rightarrow> string \<Rightarrow> 'w proc \<Rightarrow> check_run_report \<times> 'w proc" where
  "run_checks h checks jobs base_dir p =
     (case run_batches h base_dir (chunks (max jobs 1) checks) [] p of
        (outcomes, p') \<Rightarrow> (\<lparr>crr_outcomes = outcomes, crr_total_duration = ch_instant h (pr_world p') - ch_instant h (pr_world p)\<rparr>, p'))"

section \<open>The reports\<close>

definition duration_ms :: "nat \<Rightarrow> nat" where
  "duration_ms d = min (d div 1000000) (2 ^ 64 - 1)"

definition CHECK_OUTPUT_TAIL_LINES :: nat where
  "CHECK_OUTPUT_TAIL_LINES = 30"

definition writeln :: "string \<Rightarrow> string" where
  "writeln line = line @ [newline]"

definition render_failed_output :: "string list \<Rightarrow> nat \<Rightarrow> string option \<Rightarrow> string" where
  "render_failed_output ls window log_path =
     (let indented = (\<lambda>line. writeln (''      '' @ line)) in
      if length ls > window then
        (let hidden = show_nat (length ls - window) in
         (case log_path of
            Some path \<Rightarrow> writeln (''      ... '' @ hidden @ '' earlier line(s) hidden; full output: '' @ path)
          | None \<Rightarrow> writeln (''      ... '' @ hidden @ '' earlier line(s) hidden (full-log write failed)'')) @
         concat (map indented (drop (length ls - window) ls)))
      else concat (map indented ls))"

text \<open>Variables of fraisier's own environment.\<close>

definition check_log_dir :: "(string \<rightharpoonup> string) \<Rightarrow> string option" where
  "check_log_dir env =
     (let under_home = (case env ''HOME'' of
            None \<Rightarrow> None
          | Some home \<Rightarrow> if home = [] then None
              else Some (path_join (path_join (path_join (path_join home ''.local'') ''share'') ''fraisier'') ''logs''))
      in case env ''XDG_DATA_HOME'' of
           Some xdg \<Rightarrow> if is_absolute xdg then Some (path_join (path_join xdg ''fraisier'') ''logs'') else under_home
         | None \<Rightarrow> under_home)"

text \<open>Over the characters of the name: one outside ASCII is a whole sequence of bytes and becomes one dash.\<close>

fun slugify :: "string \<Rightarrow> string" where
  "slugify [] = []"
| "slugify (c # cs) =
     (if byte_in 128 191 c then slugify cs
      else (if ascii_alnum c \<or> c = CHR ''-'' \<or> c = CHR ''_'' then c else CHR ''-'') # slugify cs)"

definition check_log_body :: "string \<Rightarrow> string \<Rightarrow> string \<Rightarrow> string" where
  "check_log_body name stdout stderr =
     (let ended = (\<lambda>t. if suffix [newline] t then t else t @ [newline]) in
      ''check: '' @ name @ [newline, newline] @ ''=== stdout ==='' @ [newline] @ ended stdout @
      [newline] @ ''=== stderr ==='' @ [newline] @ ended stderr)"

definition write_check_log :: "'w check_host \<Rightarrow> string \<Rightarrow> string \<Rightarrow> string \<Rightarrow> string \<Rightarrow> 'w \<Rightarrow> string option \<times> 'w" where
  "write_check_log h dir name stdout stderr w =
     (case ch_create_dir_all h dir w of
        (Inl _, w1) \<Rightarrow> (None, w1)
      | (Inr _, w1) \<Rightarrow>
          let path = path_join dir (''ship-check-'' @ slugify name @ ''-'' @ show_nat (ch_unix_millis h w1) @ ''.log'') in
          (case and_then (ch_create_private h path) (\<lambda>_. ch_write_all h path (check_log_body name stdout stderr)) w1 of
             (Inl _, w2) \<Rightarrow> (None, w2)
           | (Inr _, w2) \<Rightarrow> (Some path, w2)))"

fun status_tag :: "check_status \<Rightarrow> string" where
  "status_tag ChkPassed = ''ok''" | "status_tag ChkFailed = ''FAIL''" | "status_tag ChkSpawnError = ''ERROR''"

definition render_outcome :: "'w check_host \<Rightarrow> string option \<Rightarrow> check_outcome \<Rightarrow> 'w \<Rightarrow> string \<times> 'w" where
  "render_outcome h log_dir o1 w =
     (let head_line = writeln (''  ['' @ status_tag (cko_status o1) @ ''] '' @ cko_name o1 @ '' ('' @ show_nat (duration_ms (cko_duration o1)) @ '' ms)'') in
      if cko_passed o1 then (head_line, w)
      else
        let ls = lines (cko_stdout o1) @ lines (cko_stderr o1);
            (log_path, w') = (case log_dir of
               Some dir \<Rightarrow> if length ls > CHECK_OUTPUT_TAIL_LINES then write_check_log h dir (cko_name o1) (cko_stdout o1) (cko_stderr o1) w else (None, w)
             | None \<Rightarrow> (None, w))
        in (head_line @ render_failed_output ls CHECK_OUTPUT_TAIL_LINES log_path, w'))"

fun render_outcomes :: "'w check_host \<Rightarrow> string option \<Rightarrow> check_outcome list \<Rightarrow> 'w \<Rightarrow> string \<times> 'w" where
  "render_outcomes h log_dir [] w = ([], w)"
| "render_outcomes h log_dir (o1 # os) w =
     (case render_outcome h log_dir o1 w of (t, w1) \<Rightarrow> case render_outcomes h log_dir os w1 of (t', w2) \<Rightarrow> (t @ t', w2))"

definition render_check_report :: "'w check_host \<Rightarrow> check_run_report \<Rightarrow> 'w proc \<Rightarrow> string \<times> 'w proc" where
  "render_check_report h r p =
     (case render_outcomes h (check_log_dir (pr_env p)) (crr_outcomes r) (pr_world p) of
        (t, w') \<Rightarrow>
          let total = length (crr_outcomes r); passed = total - failed_count r in
          (t @ writeln (show_nat passed @ ''/'' @ show_nat total @ '' checks passed''), p\<lparr>pr_world := w'\<rparr>))"

fun status_json :: "check_status \<Rightarrow> string" where
  "status_json ChkPassed = ''passed''" | "status_json ChkFailed = ''failed''" | "status_json ChkSpawnError = ''spawn_error''"

definition show_int :: "int \<Rightarrow> string" where
  "show_int i = (if i < 0 then ''-'' @ show_nat (nat (- i)) else show_nat (nat i))"

definition check_report_json :: "check_run_report \<Rightarrow> (string \<times> json) list" where
  "check_report_json r =
     [(''ok'', JBool (crr_ok r)), (''total_ms'', JNumber (show_nat (duration_ms (crr_total_duration r)))),
      (''checks'', JArray (map (\<lambda>o1. JObject [(''name'', JString (cko_name o1)), (''status'', JString (status_json (cko_status o1))),
         (''code'', case cko_code o1 of Some c \<Rightarrow> JNumber (show_int c) | None \<Rightarrow> JNull),
         (''duration_ms'', JNumber (show_nat (duration_ms (cko_duration o1)))),
         (''stdout'', JString (cko_stdout o1)), (''stderr'', JString (cko_stderr o1))]) (crr_outcomes r)))]"

section \<open>The command\<close>

text \<open>
  \<open>Path::parent\<close>: trailing slashes and trailing dot components do not count, then the text up to the last
  slash, without its trailing slashes; the root and the empty path have none.
\<close>

function path_trim_rev :: "string \<Rightarrow> string" where
  "path_trim_rev cs =
     (if length cs \<ge> 2 \<and> hd cs = CHR ''/'' \<or> prefix ''./'' cs then path_trim_rev (tl cs) else cs)"
  by pat_completeness auto
termination
  by (relation "measure length") (auto simp: prefix_def)

declare path_trim_rev.simps [simp del]

definition path_parent :: "string \<Rightarrow> string option" where
  "path_parent path =
     (let trimmed = path_trim_rev (rev path); rest = dropWhile (\<lambda>c. c \<noteq> CHR ''/'') trimmed in
      if trimmed = [] \<or> trimmed = ''/'' then None
      else if rest = [] then Some []
      else Some (rev (path_trim_rev rest)))"

definition build_checks :: "deploy_config \<Rightarrow> string \<Rightarrow> check_item list" where
  "build_checks config config_path =
     (let config_dir = (case path_parent config_path of Some dir \<Rightarrow> if dir \<noteq> [] then dir else ''.'' | None \<Rightarrow> ''.'') in
      map (\<lambda>c. \<lparr>chk_name = unwrap_or (ck_name c) [], chk_command = unwrap_or (ck_command c) [],
          chk_workdir = map_option (\<lambda>dir. if is_absolute dir then dir else path_join config_dir dir) (ck_workdir c)\<rparr>)
        (cf_checks config))"

definition resolve_jobs :: "nat option \<Rightarrow> nat \<Rightarrow> nat" where
  "resolve_jobs parallelism jobs = (if jobs = 0 then unwrap_or parallelism 1 else jobs)"

definition check_command :: "'w check_host \<Rightarrow> string \<Rightarrow> string \<Rightarrow> nat \<Rightarrow> ('w proc, load_error, command_output) eff" where
  "check_command h config_path base jobs =
     and_then (load (ch_read h) (ch_from_toml h) config_path) (\<lambda>config p.
       let report = validate_checks_only config in
       if \<not> report_ok report then
         (Inr \<lparr>co_exit_code = 1, co_pretty = render_issues report @ ''refusing to run invalid checks'' @ [newline],
           co_json = JObject [(''ok'', JBool False), (''issues'', issues_json report)]\<rparr>, p)
       else if cf_checks config = [] then
         (Inr \<lparr>co_exit_code = 0, co_pretty = ''no [[checks]] configured'' @ [newline],
           co_json = JObject [(''ok'', JBool True), (''checks'', JArray []), (''total_ms'', JNumber ''0'')]\<rparr>, p)
       else
         (case run_checks h (build_checks config config_path) (resolve_jobs (ch_parallelism h) jobs) base p of
            (run, p1) \<Rightarrow>
              (case render_check_report h run p1 of
                 (pretty, p2) \<Rightarrow> (Inr \<lparr>co_exit_code = (if crr_ok run then 0 else 1), co_pretty = pretty, co_json = JObject (check_report_json run)\<rparr>, p2))))"

section \<open>Every check is reported\<close>

text \<open>A task of one call among others: whatever the schedule, its result is that of the call in some world.\<close>

definition one_call :: "('w \<Rightarrow> 'a \<times> 'w) \<Rightarrow> ('w, 'a) task \<Rightarrow> bool" where
  "one_call f t \<longleftrightarrow> t = Call (\<lambda>w. map_prod Return id (f w)) \<or> (\<exists>w. t = Return (fst (f w)))"

lemma run_schedule_one_call:
  "list_all2 one_call fs ts \<Longrightarrow> list_all2 one_call fs (fst (run_schedule sched ts w))"
proof (induction sched arbitrary: ts w)
  case (Cons i sched)
  obtain ts1 w1 where p: "poll i ts w = (ts1, w1)" by fastforce
  have "list_all2 one_call fs ts1"
  proof (cases "i < length ts \<and> (\<exists>g. ts ! i = Call g)")
    case True
    then have i: "i < length ts" "i < length fs" using Cons.prems by (simp_all add: list_all2_lengthD)
    then have "one_call (fs ! i) (ts ! i)" using Cons.prems by (simp add: list_all2_nthD2)
    with True have "ts ! i = Call (\<lambda>w. map_prod Return id ((fs ! i) w))" by (auto simp: one_call_def)
    then have "ts1 = ts[i := Return (fst ((fs ! i) w))]"
      using p i by (cases "(fs ! i) w") (simp add: poll_def)
    moreover have "one_call (fs ! i) (Return (fst ((fs ! i) w)))" by (auto simp: one_call_def)
    ultimately show ?thesis using list_all2_update_cong [OF Cons.prems, of "fs ! i" _ i] by (metis list_update_id)
  next
    case False
    with p Cons.prems show ?thesis by (auto simp: poll_def split: task.splits)
  qed
  with Cons.IH p show ?case by simp
qed simp

lemma finish_all_one_call:
  "list_all2 one_call fs ts \<Longrightarrow> list_all2 (\<lambda>f a. \<exists>w. a = fst (f w)) fs (fst (finish_all ts w))"
proof (induction fs ts arbitrary: w rule: list_all2_induct)
  case (Cons f fs t ts)
  obtain a w1 where t: "finish t w = (a, w1)" by fastforce
  with Cons.hyps(1) have "\<exists>w. a = fst (f w)" by (cases "f w") (auto simp: one_call_def intro: exI [of _ w])
  with Cons.IH [of w1] t show ?case by (cases "finish_all ts w1") simp
qed simp

lemma join_all_one_call:
  assumes "join_all sched (map (\<lambda>f. Call (\<lambda>w. map_prod Return id (f w))) fs) w = (as, w')"
  shows "list_all2 (\<lambda>f a. \<exists>w. a = fst (f w)) fs as"
proof -
  let ?ts = "map (\<lambda>f. Call (\<lambda>w. map_prod Return id (f w))) fs"
  have "list_all2 one_call fs ?ts" by (simp add: list_all2_conv_all_nth one_call_def)
  then have "list_all2 one_call fs (fst (run_schedule sched ?ts w))" by (rule run_schedule_one_call)
  from finish_all_one_call [OF this] assms show ?thesis by (auto simp: join_all_def split: prod.splits) (metis fst_conv)
qed

lemma run_batches_reports:
  "run_batches h base bs done_outcomes p = (outcomes, p') \<Longrightarrow>
     \<exists>os. outcomes = done_outcomes @ os \<and> list_all2 (\<lambda>c o1. \<exists>q. o1 = fst (run_one h base c q)) (concat bs) os"
proof (induction bs arbitrary: done_outcomes p)
  case (Cons b bs)
  obtain os p1 where j: "join_all (ch_sched h p) (map (check_task h base) b) p = (os, p1)" by fastforce
  have "map (check_task h base) b = map (\<lambda>f. Call (\<lambda>w. map_prod Return id (f w))) (map (run_one h base) b)"
    by (simp add: check_task_def)
  from join_all_one_call [OF j [unfolded this]]
  have "list_all2 (\<lambda>c o1. \<exists>q. o1 = fst (run_one h base c q)) b os" by (simp add: list_all2_map1)
  moreover from Cons j obtain rest where "outcomes = done_outcomes @ os @ rest"
    "list_all2 (\<lambda>c o1. \<exists>q. o1 = fst (run_one h base c q)) (concat bs) rest" by fastforce
  ultimately show ?case by (auto intro: list_all2_appendI)
qed simp

lemma run_one_result:
  "cko_name (fst (run_one h base c q)) = chk_name c"
  "cko_passed (fst (run_one h base c q)) \<longleftrightarrow> cko_code (fst (run_one h base c q)) = Some 0"
  by (auto simp: run_one_def outcome_of_def cko_passed_def captured_succeeded_def split: prod.split sum.split)

lemma run_checks_outcomes:
  assumes "run_checks h checks jobs base p = (r, p')"
  shows "list_all2 (\<lambda>c o1. \<exists>q. o1 = fst (run_one h base c q)) checks (crr_outcomes r)"
proof -
  obtain outcomes where "run_batches h base (chunks (max jobs 1) checks) [] p = (outcomes, p')" and "crr_outcomes r = outcomes"
    using assms by (auto simp: run_checks_def split: prod.splits)
  from run_batches_reports [OF this(1)] this(2) show ?thesis by (simp add: chunks_concat)
qed

lemma run_reports:
  assumes "run_checks h checks jobs base p = (r, p')"
  shows "crr_ok r \<longleftrightarrow> list_all (\<lambda>o1. cko_code o1 = Some 0) (crr_outcomes r)"
  unfolding crr_ok_def using run_checks_outcomes [OF assms]
  by (induction rule: list_all2_induct) (auto simp: run_one_result)

text \<open>
  A run of the checks reports every check, in the order of the configuration, whatever the number of jobs and
  however the processes of a batch interleave, and a failing check stops none of the others: the outcome of a
  check is what its own command gave. The run is ok exactly when every command was started and exited with code 0.
\<close>

theorem checks_all_reported:
  assumes "run_checks h checks jobs base p = (r, p')"
  shows "list_all2 (\<lambda>c o1. \<exists>q. o1 = fst (run_one h base c q)) checks (crr_outcomes r) \<and>
    map cko_name (crr_outcomes r) = map chk_name checks \<and>
    (crr_ok r \<longleftrightarrow> list_all (\<lambda>o1. cko_code o1 = Some 0) (crr_outcomes r))"
proof -
  note all = run_checks_outcomes [OF assms]
  then have "map cko_name (crr_outcomes r) = map chk_name checks"
    by (induction rule: list_all2_induct) (auto simp: run_one_result)
  with all run_reports [OF assms] show ?thesis by blast
qed

text \<open>A host with two checks, of which the first fails; both run at once and the second one finishes first.\<close>

definition demo_checks :: deploy_config where
  "demo_checks = base_config\<lparr>cf_checks := [\<lparr>ck_name = Some ''lint'', ck_command = Some ''false'', ck_workdir = None\<rparr>,
     \<lparr>ck_name = Some ''test'', ck_command = Some ''true'', ck_workdir = Some ''app''\<rparr>]\<rparr>"

definition demo_shell :: "'w check_host" where
  "demo_shell =
     \<lparr>ch_spawn = (\<lambda>program args env cwd w. (Inr \<lparr>cp_code = Some (if args ! 1 = ''true'' then 0 else 1), cp_stdout = [], cp_stderr = []\<rparr>, w)),
      ch_instant = (\<lambda>w. 0), ch_unix_millis = (\<lambda>w. 0), ch_sched = (\<lambda>p. [1, 0]), ch_parallelism = Some 2,
      ch_exists = (\<lambda>path w. True), ch_read = (\<lambda>path. ok []), ch_from_toml = (\<lambda>toml. Inr demo_checks),
      ch_create_dir_all = (\<lambda>path. ok ()), ch_create_private = (\<lambda>path. ok ()), ch_write_all = (\<lambda>path content. ok ())\<rparr>"

definition demo_items :: "check_item list" where
  "demo_items = build_checks demo_checks ''conf/fraisier.toml''"

lemma demo_run:
  "map cko_code (crr_outcomes (fst (run_checks demo_shell demo_items 2 ''.'' \<lparr>pr_env = Map.empty, pr_withheld = {}, pr_world = ()\<rparr>))) = [Some 1, Some 0]"
  by code_simp

theorem checks_all_reported_witness:
  "\<exists>r p'. run_checks demo_shell demo_items 2 ''.'' \<lparr>pr_env = Map.empty, pr_withheld = {}, pr_world = ()\<rparr> = (r, p') \<and>
     map cko_code (crr_outcomes r) = [Some 1, Some 0] \<and> map cko_name (crr_outcomes r) = map chk_name demo_items \<and> \<not> crr_ok r"
proof -
  let ?p = "\<lparr>pr_env = Map.empty, pr_withheld = {}, pr_world = ()\<rparr>"
  obtain r p' where r: "run_checks demo_shell demo_items 2 ''.'' ?p = (r, p')" by fastforce
  with demo_run have codes: "map cko_code (crr_outcomes r) = [Some 1, Some 0]" by simp
  then have "\<not> list_all (\<lambda>o1. cko_code o1 = Some 0) (crr_outcomes r)" by (cases "crr_outcomes r") auto
  with checks_all_reported [OF r] have "map cko_name (crr_outcomes r) = map chk_name demo_items" "\<not> crr_ok r" by auto
  with r codes show ?thesis by (intro exI [of _ r] exI [of _ p'] conjI)
qed

end
