(* ===== verification/Ship.thy ===== *)
theory Ship
  imports Checks
begin

text \<open>
  The release workflow (\<open>fraisier-ship\<close>: \<open>version.rs\<close>, \<open>ship.rs\<close>) and the command \<open>ship\<close> with its check gate
  (\<open>fraisier-cli/src/commands.rs\<close>): find the project's version, bump it in place, commit exactly that file, push,
  and ask for a deploy. The TOML editor, the semantic-version parser and the \<open>git\<close> program are parameters; the
  deploy that follows is the argument \<open>deploy\<close> of the command.
\<close>

section \<open>Versions\<close>

datatype project_kind = Cargo | PyProject

fun version_file :: "project_kind \<Rightarrow> string" where
  "version_file Cargo = ''Cargo.toml''"
| "version_file PyProject = ''pyproject.toml''"

datatype bump_level = Major | Minor | Patch

record version_info =
  vi_kind :: project_kind
  vi_file :: string
  vi_version :: string

datatype ship_error =
    NoVersionFile string
  | NoVersionField string string
  | BadToml string string
  | BadSemver string string
  | ReadFailed string string
  | WriteFailed string string
  | DirtyWorkingTree string
  | GitFailed string string
  | VersionRace string string string

fun show_ship_error :: "ship_error \<Rightarrow> string" where
  "show_ship_error (NoVersionFile dir) = ''no version file in '' @ dir @ '' (looked for Cargo.toml, pyproject.toml)''"
| "show_ship_error (NoVersionField path detail) = path @ '': no version field found ('' @ detail @ '')''"
| "show_ship_error (BadToml path cause) = path @ '': invalid TOML: '' @ cause"
| "show_ship_error (BadSemver version cause) = debug_str version @ '' is not a valid semantic version: '' @ cause"
| "show_ship_error (ReadFailed path cause) = ''reading '' @ path @ '': '' @ cause"
| "show_ship_error (WriteFailed path cause) = ''writing '' @ path @ '': '' @ cause"
| "show_ship_error (DirtyWorkingTree dir) = ''the working tree at '' @ dir @ '' has uncommitted changes; commit or stash them before ship''"
| "show_ship_error (GitFailed operation detail) = ''git '' @ operation @ '' failed: '' @ detail"
| "show_ship_error (VersionRace observed on_origin branch) =
     ''version race on '' @ branch @ '': this run started from '' @ observed @ '' but origin/'' @ branch @ '' is now at '' @ on_origin @
     ''. The version bump was rolled back. Reconcile and retry:'' @ [newline] @ ''  git fetch origin '' @ branch @ [newline] @
     ''  git rebase origin/'' @ branch @ [newline] @ ''  fraisier ship <patch|minor|major>''"

text \<open>
  The libraries. A document has a root item; an item is indexed by key, may be a value and may be a string.
  \<open>tl_set path v d\<close> is \<open>d\<close> after the value at \<open>path\<close> became the string \<open>v\<close> with the decor it had.
\<close>

record ('d, 'i) toml_lib =
  tl_parse :: "string \<Rightarrow> string + 'd"
  tl_print :: "'d \<Rightarrow> string"
  tl_item :: "'d \<Rightarrow> 'i"
  tl_get :: "'i \<Rightarrow> string \<Rightarrow> 'i option"
  tl_is_value :: "'i \<Rightarrow> bool"
  tl_as_str :: "'i \<Rightarrow> string option"
  tl_set :: "string list \<Rightarrow> string \<Rightarrow> 'd \<Rightarrow> 'd"
  sv_parse :: "string \<Rightarrow> string + 64 word \<times> 64 word \<times> 64 word"
  sv_show :: "64 word \<times> 64 word \<times> 64 word \<Rightarrow> string"

text \<open>A component is a \<open>u64\<close> and its increment wraps, as in the release build.\<close>

fun bumped :: "bump_level \<Rightarrow> 64 word \<times> 64 word \<times> 64 word \<Rightarrow> 64 word \<times> 64 word \<times> 64 word" where
  "bumped Major (major, minor, patch) = (major + 1, 0, 0)"
| "bumped Minor (major, minor, patch) = (major, minor + 1, 0)"
| "bumped Patch (major, minor, patch) = (major, minor, patch + 1)"

definition next_version :: "('d, 'i) toml_lib \<Rightarrow> string \<Rightarrow> bump_level \<Rightarrow> ship_error + string" where
  "next_version lib current level =
     (case sv_parse lib current of Inl cause \<Rightarrow> Inl (BadSemver current cause) | Inr v \<Rightarrow> Inr (sv_show lib (bumped level v)))"

fun candidate_paths :: "project_kind \<Rightarrow> string list list" where
  "candidate_paths Cargo = [[''package'', ''version''], [''workspace'', ''package'', ''version'']]"
| "candidate_paths PyProject = [[''project'', ''version''], [''tool'', ''poetry'', ''version'']]"

definition describe_paths :: "project_kind \<Rightarrow> string" where
  "describe_paths kind = join '', '' (map (\<lambda>path. ''['' @ join ''.'' path @ '']'') (candidate_paths kind))"

fun navigate :: "('d, 'i) toml_lib \<Rightarrow> 'i \<Rightarrow> string list \<Rightarrow> 'i option" where
  "navigate lib item [] = Some item"
| "navigate lib item (key # rest) = Option.bind (tl_get lib item key) (\<lambda>i. navigate lib i rest)"

fun first_some :: "('a \<Rightarrow> 'b option) \<Rightarrow> 'a list \<Rightarrow> 'b option" where
  "first_some f [] = None"
| "first_some f (x # xs) = (case f x of Some y \<Rightarrow> Some y | None \<Rightarrow> first_some f xs)"

definition read_version :: "('d, 'i) toml_lib \<Rightarrow> 'd \<Rightarrow> project_kind \<Rightarrow> string option" where
  "read_version lib doc kind =
     first_some (\<lambda>path. Option.bind (navigate lib (tl_item lib doc) path) (tl_as_str lib)) (candidate_paths kind)"

definition version_in_toml :: "('d, 'i) toml_lib \<Rightarrow> string \<Rightarrow> project_kind \<Rightarrow> string option" where
  "version_in_toml lib content kind =
     (case tl_parse lib content of Inl _ \<Rightarrow> None | Inr doc \<Rightarrow> read_version lib doc kind)"

text \<open>The first candidate that is a value, of whatever type, becomes the new string; \<open>None\<close> when there is none.\<close>

definition set_version :: "('d, 'i) toml_lib \<Rightarrow> 'd \<Rightarrow> project_kind \<Rightarrow> string \<Rightarrow> 'd option" where
  "set_version lib doc kind new =
     first_some (\<lambda>path. case navigate lib (tl_item lib doc) path of
         Some item \<Rightarrow> if tl_is_value lib item then Some (tl_set lib path new doc) else None
       | None \<Rightarrow> None) (candidate_paths kind)"

section \<open>The project directory\<close>

record ('w, 'd, 'i) ship_host =
  pj_lib :: "('d, 'i) toml_lib"
  pj_exists :: "string \<Rightarrow> 'w \<Rightarrow> bool"
  pj_read :: "string \<Rightarrow> ('w, string, string) eff"
  pj_write :: "string \<Rightarrow> string \<Rightarrow> ('w, string, unit) eff"
  pj_spawn :: "'w spawn"

definition parse_toml :: "('w, 'd, 'i) ship_host \<Rightarrow> string \<Rightarrow> ('w proc, ship_error, 'd) eff" where
  "parse_toml h path =
     and_then (map_err (ReadFailed path) (in_world (pj_read h path))) (\<lambda>content.
     map_err (BadToml path) (from_result (tl_parse (pj_lib h) content)))"

fun locate_kinds :: "('w, 'd, 'i) ship_host \<Rightarrow> string \<Rightarrow> project_kind list \<Rightarrow> ('w proc, ship_error, version_info) eff" where
  "locate_kinds h dir [] = fail (NoVersionFile dir)"
| "locate_kinds h dir (kind # kinds) = (\<lambda>p.
     let path = path_join dir (version_file kind) in
     if \<not> pj_exists h path (pr_world p) then locate_kinds h dir kinds p
     else and_then (parse_toml h path) (\<lambda>doc.
       case read_version (pj_lib h) doc kind of
         None \<Rightarrow> fail (NoVersionField path (describe_paths kind))
       | Some version \<Rightarrow> ok \<lparr>vi_kind = kind, vi_file = path, vi_version = version\<rparr>) p)"

definition locate :: "('w, 'd, 'i) ship_host \<Rightarrow> string \<Rightarrow> ('w proc, ship_error, version_info) eff" where
  "locate h dir = locate_kinds h dir [Cargo, PyProject]"

definition bump :: "('w, 'd, 'i) ship_host \<Rightarrow> string \<Rightarrow> bump_level \<Rightarrow> ('w proc, ship_error, string \<times> string) eff" where
  "bump h dir level =
     and_then (locate h dir) (\<lambda>info.
     and_then (from_result (next_version (pj_lib h) (vi_version info) level)) (\<lambda>new.
     and_then (parse_toml h (vi_file info)) (\<lambda>doc.
     case set_version (pj_lib h) doc (vi_kind info) new of
       None \<Rightarrow> fail (NoVersionField (vi_file info) (describe_paths (vi_kind info)))
     | Some doc' \<Rightarrow>
         and_then (map_err (WriteFailed (vi_file info)) (in_world (pj_write h (vi_file info) (tl_print (pj_lib h) doc')))) (\<lambda>_.
         ok (vi_version info, new)))))"

definition version_show :: "('w, 'd, 'i) ship_host \<Rightarrow> string \<Rightarrow> ('w proc, ship_error, command_output) eff" where
  "version_show h dir =
     map_ok (\<lambda>info. \<lparr>co_exit_code = 0, co_pretty = vi_version info @ '' ('' @ vi_file info @ '')'' @ [newline],
       co_json = JObject [(''version'', JString (vi_version info)), (''path'', JString (vi_file info))]\<rparr>) (locate h dir)"

definition arrow :: string where
  "arrow = utf8_bytes [0xE2, 0x86, 0x92]"

definition version_bump :: "('w, 'd, 'i) ship_host \<Rightarrow> string \<Rightarrow> bump_level \<Rightarrow> ('w proc, ship_error, command_output) eff" where
  "version_bump h dir level =
     and_then (locate h dir) (\<lambda>info.
     and_then (bump h dir level) (\<lambda>(old, new).
     ok \<lparr>co_exit_code = 0, co_pretty = ''bumped '' @ old @ '' '' @ arrow @ '' '' @ new @ '' in '' @ vi_file info @ [newline],
       co_json = JObject [(''old'', JString old), (''new'', JString new), (''path'', JString (vi_file info))]\<rparr>))"

section \<open>The workflow\<close>

record ship_options =
  so_dry_run :: bool
  so_no_deploy :: bool
  so_push :: bool
  so_no_bump :: bool
  so_remote :: string
  so_message_template :: "string option"

definition ship_options_default :: ship_options where
  "ship_options_default =
     \<lparr>so_dry_run = False, so_no_deploy = False, so_push = True, so_no_bump = False, so_remote = ''origin'', so_message_template = None\<rparr>"

record ship_report =
  sr_old_version :: string
  sr_new_version :: string
  sr_message :: string
  sr_committed :: bool
  sr_pushed :: bool
  sr_deploy_requested :: bool
  sr_dry_run :: bool
  sr_race_detected :: bool

definition DEFAULT_MESSAGE :: string where
  "DEFAULT_MESSAGE = ''Release v{version}''"

definition render_message :: "ship_options \<Rightarrow> string \<Rightarrow> string" where
  "render_message opts new_version = replace_str ''{version}'' new_version (unwrap_or (so_message_template opts) DEFAULT_MESSAGE)"

text \<open>\<open>git\<close> is started with fraisier's whole environment.\<close>

definition git :: "('w, 'd, 'i) ship_host \<Rightarrow> string \<Rightarrow> string list \<Rightarrow> string \<Rightarrow> ('w proc, ship_error, string) eff" where
  "git h dir args operation p =
     and_then (map_err (\<lambda>error. GitFailed operation (''spawning git: '' @ if_text error))
         (in_world (pj_spawn h ''git'' args (pr_env p) (Some dir)))) (\<lambda>output.
       if \<not> captured_succeeded output then fail (GitFailed operation (trim (cp_stderr output))) else ok (cp_stdout output)) p"

definition git_clean :: "('w, 'd, 'i) ship_host \<Rightarrow> string \<Rightarrow> ('w proc, ship_error, bool) eff" where
  "git_clean h dir = map_ok (\<lambda>out. trim out = []) (git h dir [''status'', ''--porcelain''] ''status'')"

text \<open>
  The phrase is searched in the lower-cased text; no character outside ASCII has a lower case that
  occurs in it, so lowering ASCII decides it. A fetch that fails otherwise only adds a warning on standard error.
\<close>

definition no_remote_ref :: "string \<Rightarrow> bool" where
  "no_remote_ref detail = contains (''couldn'' @ [CHR 0x27] @ ''t find remote ref'') (map ascii_lower detail)"

definition detect_version_race :: "('w, 'd, 'i) ship_host \<Rightarrow> string \<Rightarrow> project_kind \<Rightarrow> string \<Rightarrow> string \<Rightarrow>
    ('w proc, ship_error, (string \<times> string) option) eff" where
  "detect_version_race h dir kind observed remote =
     and_then (git h dir [''rev-parse'', ''--abbrev-ref'', ''HEAD''] ''rev-parse'') (\<lambda>out.
     let branch = trim out in
     if branch = [] \<or> branch = ''HEAD'' then ok None
     else and_then (result_of (git h dir [''fetch'', ''--quiet'', remote, branch] ''fetch'')) (\<lambda>fetched. case fetched of
       Inl (GitFailed _ detail) \<Rightarrow> if no_remote_ref detail then ok None else ok None
     | Inl other \<Rightarrow> fail other
     | Inr _ \<Rightarrow>
         and_then (result_of (git h dir [''show'', remote @ ''/'' @ branch @ '':'' @ version_file kind] ''show'')) (\<lambda>shown. case shown of
           Inl _ \<Rightarrow> ok None
         | Inr content \<Rightarrow>
             (case version_in_toml (pj_lib h) content kind of
                None \<Rightarrow> ok None
              | Some on_origin \<Rightarrow> if on_origin = observed then ok None else ok (Some (on_origin, branch))))))"

definition commit_bump :: "('w, 'd, 'i) ship_host \<Rightarrow> string \<Rightarrow> bump_level \<Rightarrow> ship_options \<Rightarrow> version_info \<Rightarrow> string \<Rightarrow>
    ('w proc, ship_error, bool) eff" where
  "commit_bump h dir level opts info message =
     (let name = version_file (vi_kind info); commit = and_then (git h dir [''commit'', ''-m'', message] ''commit'') (\<lambda>_. ok True) in
      and_then (bump h dir level) (\<lambda>_.
      and_then (git h dir [''add'', name] ''add'') (\<lambda>_.
      if so_push opts then
        and_then (detect_version_race h dir (vi_kind info) (vi_version info) (so_remote opts)) (\<lambda>race. case race of
          Some (on_origin, branch) \<Rightarrow>
            and_then (git h dir [''checkout'', ''HEAD'', ''--'', name] ''checkout'') (\<lambda>_.
            fail (VersionRace (vi_version info) on_origin branch))
        | None \<Rightarrow> commit)
      else commit)))"

definition ship_release :: "('w, 'd, 'i) ship_host \<Rightarrow> string \<Rightarrow> bump_level \<Rightarrow> ship_options \<Rightarrow> version_info \<Rightarrow> ship_report \<Rightarrow>
    ('w proc, ship_error, ship_report) eff" where
  "ship_release h dir level opts info report =
     and_then (git_clean h dir) (\<lambda>clean.
     if \<not> clean then fail (DirtyWorkingTree dir)
     else and_then (if so_no_bump opts then ok False else commit_bump h dir level opts info (sr_message report)) (\<lambda>committed.
       and_then (if so_push opts then and_then (git h dir [''push'', so_remote opts, ''HEAD''] ''push'') (\<lambda>_. ok True) else ok False) (\<lambda>pushed.
       ok (report\<lparr>sr_committed := committed, sr_pushed := pushed\<rparr>))))"

definition ship :: "('w, 'd, 'i) ship_host \<Rightarrow> string \<Rightarrow> bump_level \<Rightarrow> ship_options \<Rightarrow> ('w proc, ship_error, ship_report) eff" where
  "ship h dir level opts =
     and_then (locate h dir) (\<lambda>info.
     and_then (if so_no_bump opts then ok (vi_version info) else from_result (next_version (pj_lib h) (vi_version info) level)) (\<lambda>target.
     let report = \<lparr>sr_old_version = vi_version info, sr_new_version = target, sr_message = render_message opts target, sr_committed = False,
           sr_pushed = False, sr_deploy_requested = \<not> so_no_deploy opts, sr_dry_run = False, sr_race_detected = False\<rparr> in
     if so_dry_run opts then ok (report\<lparr>sr_dry_run := True\<rparr>) else ship_release h dir level opts info report))"

section \<open>What a run did\<close>

text \<open>A host that records the files written and the \<open>git\<close> commands run; \<open>ship_changes\<close> leaves out the commands that only look.\<close>

datatype ship_call = Wrote string string | Ran "string list"

definition traced :: "('w, 'd, 'i) ship_host \<Rightarrow> ('w \<times> ship_call list, 'd, 'i) ship_host" where
  "traced h =
     \<lparr>pj_lib = pj_lib h,
      pj_exists = (\<lambda>path (w, cs). pj_exists h path w),
      pj_read = (\<lambda>path (w, cs). case pj_read h path w of (r, w') \<Rightarrow> (r, w', cs)),
      pj_write = (\<lambda>path content (w, cs). case pj_write h path content w of (r, w') \<Rightarrow> (r, w', cs @ [Wrote path content])),
      pj_spawn = (\<lambda>program args env cwd (w, cs). case pj_spawn h program args env cwd w of (r, w') \<Rightarrow> (r, w', cs @ [Ran args]))\<rparr>"

fun ship_changing :: "ship_call \<Rightarrow> bool" where
  "ship_changing (Wrote _ _) = True"
| "ship_changing (Ran args) = (case args of operation # _ \<Rightarrow> operation \<in> {''add'', ''checkout'', ''commit'', ''push''} | [] \<Rightarrow> False)"

definition ship_changes :: "('w \<times> ship_call list) proc \<Rightarrow> ship_call list" where
  "ship_changes p = filter ship_changing (snd (pr_world p))"

text \<open>The calls of a release up to its commit, those of one given up after a race, and the push.\<close>

definition push_calls :: "ship_options \<Rightarrow> ship_call list" where
  "push_calls opts = (if so_push opts then [Ran [''push'', so_remote opts, ''HEAD'']] else [])"

definition bump_calls :: "string \<Rightarrow> project_kind \<Rightarrow> string \<Rightarrow> string \<Rightarrow> ship_call list" where
  "bump_calls path kind content message =
     [Wrote path content, Ran [''add'', version_file kind], Ran [''commit'', ''-m'', message]]"

definition undone_calls :: "string \<Rightarrow> project_kind \<Rightarrow> string \<Rightarrow> ship_call list" where
  "undone_calls path kind content =
     [Wrote path content, Ran [''add'', version_file kind], Ran [''checkout'', ''HEAD'', ''--'', version_file kind]]"

lemma traced_lib [simp]: "pj_lib (traced h) = pj_lib h"
  by (simp add: traced_def)

lemma parse_toml_trace: "keeps ship_changes (parse_toml (traced h) path)"
  unfolding parse_toml_def
  by (intro keeps_intros) (auto simp: keeps_def in_world_def traced_def ship_changes_def split: prod.splits)

lemma locate_kinds_trace: "keeps ship_changes (locate_kinds (traced h) dir kinds)"
proof (induction kinds)
  case (Cons kind kinds)
  have "keeps ship_changes (and_then (parse_toml (traced h) path) (\<lambda>doc. case read_version (pj_lib (traced h)) doc kind of
      None \<Rightarrow> fail (NoVersionField path (describe_paths kind)) | Some version \<Rightarrow> ok \<lparr>vi_kind = kind, vi_file = path, vi_version = version\<rparr>))" for path
    by (intro keeps_intros parse_toml_trace)
  with Cons show ?case by (simp add: keeps_def Let_def)
qed (simp add: keeps_intros)

lemma locate_trace: "locate (traced h) dir p = (r, p') \<Longrightarrow> ship_changes p' = ship_changes p"
  unfolding locate_def by (rule keepsD [OF locate_kinds_trace])

lemma git_trace:
  "git (traced h) dir args operation p = (r, p') \<Longrightarrow> ship_changes p' = ship_changes p @ filter ship_changing [Ran args]"
  by (auto simp: git_def and_then_def in_world_def map_err_def traced_def ship_changes_def split: prod.splits sum.splits if_splits)

lemma git_looks:
  assumes "\<not> ship_changing (Ran args)"
  shows "keeps ship_changes (git (traced h) dir args operation)"
  by (rule keepsI) (use git_trace assms in fastforce)

text \<open>The errors that decide what a run left behind.\<close>

fun plain_error :: "ship_error \<Rightarrow> bool" where
  "plain_error (DirtyWorkingTree _) = False"
| "plain_error (VersionRace _ _ _) = False"
| "plain_error _ = True"

text \<open>\<open>fails_only P m\<close>: every error of \<open>m\<close> satisfies \<open>P\<close>.\<close>

definition fails_only :: "('e \<Rightarrow> bool) \<Rightarrow> ('w, 'e, 'a) eff \<Rightarrow> bool" where
  "fails_only P m \<longleftrightarrow> (\<forall>w e w'. m w = (Inl e, w') \<longrightarrow> P e)"

named_theorems fails_intros \<open>computations whose errors satisfy a predicate\<close>

lemma fails_basic [fails_intros]:
  "fails_only P (ok a)" "P e \<Longrightarrow> fails_only P (fail e)" "fails_only P (result_of m)"
  "(\<And>e. P (f e)) \<Longrightarrow> fails_only P (map_err f m)"
  by (auto simp: fails_only_def result_of_def map_err_eq_Inl split: prod.splits)

lemma fails_and_then [fails_intros]:
  "fails_only P m \<Longrightarrow> (\<And>a. fails_only P (f a)) \<Longrightarrow> fails_only P (and_then m f)"
  unfolding fails_only_def and_then_eq_Inl by blast

lemma fails_result:
  assumes "fails_only P m" and "\<And>a. fails_only P (f (Inr a))" and "\<And>e. P e \<Longrightarrow> fails_only P (f (Inl e))"
  shows "fails_only P (and_then (result_of m) f)"
  using assms unfolding fails_only_def and_then_def result_of_def
  by (clarsimp split: prod.splits) (metis sum.exhaust)

lemma fails_cases [fails_intros]:
  "(b \<Longrightarrow> fails_only P m) \<Longrightarrow> (\<not> b \<Longrightarrow> fails_only P n) \<Longrightarrow> fails_only P (if b then m else n)"
  "(x = None \<Longrightarrow> fails_only P m) \<Longrightarrow> (\<And>a. x = Some a \<Longrightarrow> fails_only P (k a)) \<Longrightarrow> fails_only P (case x of None \<Rightarrow> m | Some a \<Rightarrow> k a)"
  "(\<And>a. r = Inl a \<Longrightarrow> fails_only P (f a)) \<Longrightarrow> (\<And>a. r = Inr a \<Longrightarrow> fails_only P (g a)) \<Longrightarrow> fails_only P (case r of Inl a \<Rightarrow> f a | Inr a \<Rightarrow> g a)"
  by (simp_all split: option.split sum.split)

lemma fails_onlyD: "fails_only P m \<Longrightarrow> m w = (Inl e, w') \<Longrightarrow> P e"
  by (auto simp: fails_only_def)

lemma git_errors: "fails_only plain_error (git h dir args operation)"
  by (auto simp: fails_only_def git_def eff_cases split: if_splits)

lemma parse_toml_errors: "fails_only plain_error (parse_toml h path)"
  unfolding parse_toml_def by (intro fails_intros) simp_all

lemma locate_errors: "fails_only plain_error (locate h dir)"
proof -
  have "locate_kinds h dir kinds p = (Inl e, p') \<Longrightarrow> plain_error e" for kinds p e p'
    by (induction kinds arbitrary: p) (auto simp: Let_def eff_cases fails_onlyD [OF parse_toml_errors] split: if_splits option.splits)
  then show ?thesis unfolding fails_only_def locate_def by blast
qed

lemma next_version_errors: "next_version lib v level = Inl e \<Longrightarrow> plain_error e"
  by (auto simp: next_version_def split: sum.splits)

lemma bump_errors: "fails_only plain_error (bump h dir level)"
  unfolding bump_def
  by (intro fails_intros locate_errors parse_toml_errors) (auto simp: fails_only_def next_version_errors)

lemma race_check_errors: "fails_only plain_error (detect_version_race h dir kind observed remote)"
  unfolding detect_version_race_def Let_def
  by (intro fails_and_then fails_result git_errors fails_cases fails_basic)
    (auto intro!: fails_result git_errors fails_intros split: ship_error.split)

lemma write_trace: "in_world (pj_write (traced h) path content) p = (r, p') \<Longrightarrow> ship_changes p' = ship_changes p @ [Wrote path content]"
  by (auto simp: in_world_def traced_def ship_changes_def split: prod.splits)

text \<open>What a bump writes where: the document of the file it locates, with the next version set.\<close>

definition edits :: "('w, 'd, 'i) ship_host \<Rightarrow> string \<Rightarrow> bump_level \<Rightarrow> 'w proc \<Rightarrow> string \<Rightarrow> string \<Rightarrow> bool" where
  "edits h dir level p path content \<longleftrightarrow>
     (\<exists>info p1 new doc p2 doc'. locate h dir p = (Inr info, p1) \<and> path = vi_file info \<and>
        next_version (pj_lib h) (vi_version info) level = Inr new \<and> parse_toml h path p1 = (Inr doc, p2) \<and>
        set_version (pj_lib h) doc (vi_kind info) new = Some doc' \<and> content = tl_print (pj_lib h) doc')"

lemma bump_trace:
  assumes "bump (traced h) dir level p = (r, p')"
  shows "(\<exists>path content. ship_changes p' = ship_changes p @ [Wrote path content] \<and> edits (traced h) dir level p path content) \<or>
    ship_changes p' = ship_changes p \<and> (\<exists>e. r = Inl e)"
proof -
  obtain l p1 where l: "locate (traced h) dir p = (l, p1)" by fastforce
  note c1 = locate_trace [OF l]
  show ?thesis
  proof (cases "\<exists>info new doc doc' p2. l = Inr info \<and> next_version (pj_lib h) (vi_version info) level = Inr new \<and>
      parse_toml (traced h) (vi_file info) p1 = (Inr doc, p2) \<and> set_version (pj_lib h) doc (vi_kind info) new = Some doc'")
    case True
    then obtain info new doc doc' p2 where t: "l = Inr info" "next_version (pj_lib h) (vi_version info) level = Inr new"
      "parse_toml (traced h) (vi_file info) p1 = (Inr doc, p2)" "set_version (pj_lib h) doc (vi_kind info) new = Some doc'" by blast
    obtain wr p3 where w: "in_world (pj_write (traced h) (vi_file info) (tl_print (pj_lib h) doc')) p2 = (wr, p3)" by fastforce
    have "p' = p3" using assms l t w by (cases wr) (simp_all add: bump_def and_then_def map_err_def)
    moreover have "edits (traced h) dir level p (vi_file info) (tl_print (pj_lib h) doc')" using l t unfolding edits_def by auto
    ultimately show ?thesis using write_trace [OF w] keepsD [OF parse_toml_trace t(3)] c1 by auto
  next
    case False
    with assms l c1 show ?thesis
      by (auto simp: bump_def and_then_def split: prod.splits sum.splits option.splits)
        (metis keepsD parse_toml_trace)+
  qed
qed

lemma race_check_looks: "keeps ship_changes (detect_version_race (traced h) dir kind observed remote)"
  unfolding detect_version_race_def Let_def
  by (intro keeps_intros git_looks) (auto intro!: keeps_intros git_looks split: sum.split ship_error.split option.split)

text \<open>What an attempt to commit the bump left behind.\<close>

definition bump_left :: "ship_options \<Rightarrow> string \<Rightarrow> project_kind \<Rightarrow> string \<Rightarrow> string \<Rightarrow> ship_error + bool \<Rightarrow> ship_call list \<Rightarrow> bool" where
  "bump_left opts path kind content message r cs \<longleftrightarrow>
     (case r of
        Inr committed \<Rightarrow> committed \<and> cs = bump_calls path kind content message
      | Inl e \<Rightarrow> (prefix cs (bump_calls path kind content message) \<and> plain_error e) \<or>
          (so_push opts \<and> cs = undone_calls path kind content \<and> (plain_error e \<or> (\<exists>a b c. e = VersionRace a b c))))"

lemma bump_left_prefix:
  "prefix cs (bump_calls path kind content message) \<Longrightarrow> plain_error e \<Longrightarrow> bump_left opts path kind content message (Inl e) cs"
  by (simp add: bump_left_def)

lemma commit_trace:
  assumes "and_then (git (traced h) dir [''commit'', ''-m'', message] ''commit'') (\<lambda>_. ok True) p = (r, p')"
    and "ship_changes p = cs @ [Wrote path content, Ran [''add'', version_file kind]]"
  shows "\<exists>ds. ship_changes p' = cs @ ds \<and> bump_left opts path kind content message r ds"
proof -
  obtain g p1 where g: "git (traced h) dir [''commit'', ''-m'', message] ''commit'' p = (g, p1)" by fastforce
  have "ship_changes p1 = cs @ bump_calls path kind content message" using git_trace [OF g] assms(2) by (simp add: bump_calls_def)
  then show ?thesis using assms(1) g by (cases g) (auto simp: bump_left_def dest: fails_onlyD [OF git_errors])
qed

lemma commit_bump_trace:
  assumes "commit_bump (traced h) dir level opts info message p = (r, p')"
  shows "\<exists>path content ds. ship_changes p' = ship_changes p @ ds \<and> bump_left opts path (vi_kind info) content message r ds \<and>
    (ds \<noteq> [] \<longrightarrow> edits (traced h) dir level p path content)"
proof -
  let ?commit = "and_then (git (traced h) dir [''commit'', ''-m'', message] ''commit'') (\<lambda>_. ok True)"
  let ?name = "version_file (vi_kind info)"
  obtain b p1 where b: "bump (traced h) dir level p = (b, p1)" by fastforce
  show ?thesis
  proof (cases b)
    case (Inl e)
    with assms b have "r = Inl e" "p' = p1" by (simp_all add: commit_bump_def Let_def)
    moreover have "plain_error e" using fails_onlyD [OF bump_errors] b Inl by blast
    moreover obtain path content ds where "ship_changes p1 = ship_changes p @ ds" "prefix ds [Wrote path content]"
      "ds \<noteq> [] \<longrightarrow> edits (traced h) dir level p path content"
      using bump_trace [OF b] by (metis Nil_prefix append.right_neutral prefix_order.refl)
    moreover from this(2) have "prefix ds (bump_calls path (vi_kind info) content message)"
      by (auto simp: bump_calls_def prefix_Cons)
    ultimately show ?thesis by (blast intro: bump_left_prefix)
  next
    case (Inr b1)
    with bump_trace [OF b] obtain path content where c1: "ship_changes p1 = ship_changes p @ [Wrote path content]"
      and ed: "edits (traced h) dir level p path content" by auto
    obtain a p2 where a: "git (traced h) dir [''add'', ?name] ''add'' p1 = (a, p2)" by fastforce
    have c2: "ship_changes p2 = ship_changes p @ [Wrote path content, Ran [''add'', ?name]]" using git_trace [OF a] c1 by simp
    show ?thesis
    proof (cases a)
      case (Inl e)
      with assms b Inr a have "r = Inl e" "p' = p2" by (simp_all add: commit_bump_def Let_def)
      with c2 Inl a ed show ?thesis by (intro exI [of _ path] exI [of _ content]) (auto simp: bump_left_def bump_calls_def dest: fails_onlyD [OF git_errors])
    next
      case (Inr a1)
      note run = assms [unfolded commit_bump_def Let_def] and_then_Inr [of "bump (traced h) dir level"] b \<open>b = Inr b1\<close> a Inr
      show ?thesis
      proof (cases "so_push opts")
        case False
        with run have "?commit p2 = (r, p')" by simp
        from commit_trace [OF this c2] ed show ?thesis by blast
      next
        case True
        obtain d p3 where d: "detect_version_race (traced h) dir (vi_kind info) (vi_version info) (so_remote opts) p2 = (d, p3)" by fastforce
        have c3: "ship_changes p3 = ship_changes p @ [Wrote path content, Ran [''add'', ?name]]" using keepsD [OF race_check_looks d] c2 by simp
        consider e where "d = Inl e" | "d = Inr None" | o1 br where "d = Inr (Some (o1, br))"
          by (metis option.exhaust prod.exhaust sum.exhaust)
        then show ?thesis
        proof cases
          case 1
          with run True d have "r = Inl e" "p' = p3" by simp_all
          with c3 1 d ed show ?thesis
            by (intro exI [of _ path] exI [of _ content]) (auto simp: bump_left_def bump_calls_def dest: fails_onlyD [OF race_check_errors])
        next
          case 2
          with run True d have "?commit p3 = (r, p')" by simp
          from commit_trace [OF this c3] ed show ?thesis by blast
        next
          case 3
          obtain g p4 where g: "git (traced h) dir [''checkout'', ''HEAD'', ''--'', ?name] ''checkout'' p3 = (g, p4)" by fastforce
          have "ship_changes p4 = ship_changes p @ undone_calls path (vi_kind info) content" using git_trace [OF g] c3 by (simp add: undone_calls_def)
          with run True d 3 g ed show ?thesis
            by (cases g; intro exI [of _ path] exI [of _ content]) (auto simp: bump_left_def dest: fails_onlyD [OF git_errors])
        qed
      qed
    qed
  qed
qed

text \<open>What a run left behind, by its result.\<close>

definition all_calls :: "ship_options \<Rightarrow> string \<Rightarrow> project_kind \<Rightarrow> string \<Rightarrow> string \<Rightarrow> ship_call list" where
  "all_calls opts path kind content message =
     (if so_no_bump opts then [] else bump_calls path kind content message) @ push_calls opts"

fun ship_left :: "ship_options \<Rightarrow> string \<Rightarrow> project_kind \<Rightarrow> string \<Rightarrow> string \<Rightarrow> ship_error + ship_report \<Rightarrow> ship_call list \<Rightarrow> bool" where
  "ship_left opts path kind content message (Inr report) cs \<longleftrightarrow>
     sr_dry_run report = so_dry_run opts \<and> sr_message report = message \<and>
     sr_committed report = (\<not> so_dry_run opts \<and> \<not> so_no_bump opts) \<and> sr_pushed report = (\<not> so_dry_run opts \<and> so_push opts) \<and>
     cs = (if so_dry_run opts then [] else all_calls opts path kind content message)"
| "ship_left opts path kind content message (Inl (DirtyWorkingTree dir)) cs \<longleftrightarrow> cs = []"
| "ship_left opts path kind content message (Inl (VersionRace observed on_origin branch)) cs \<longleftrightarrow>
     so_push opts \<and> \<not> so_no_bump opts \<and> cs = undone_calls path kind content"
| "ship_left opts path kind content message (Inl e) cs \<longleftrightarrow>
     (so_dry_run opts \<longrightarrow> cs = []) \<and>
     (prefix cs (all_calls opts path kind content message) \<or> so_push opts \<and> \<not> so_no_bump opts \<and> cs = undone_calls path kind content)"

lemma ship_left_plain:
  assumes "plain_error e"
  shows "ship_left opts path kind content message (Inl e) cs \<longleftrightarrow>
     (so_dry_run opts \<longrightarrow> cs = []) \<and>
     (prefix cs (all_calls opts path kind content message) \<or> so_push opts \<and> \<not> so_no_bump opts \<and> cs = undone_calls path kind content)"
  using assms by (cases e) simp_all

lemma ship_left_nothing: "plain_error e \<Longrightarrow> ship_left opts path kind content message (Inl e) []"
  by (simp add: ship_left_plain)

lemma bump_left_ship:
  assumes "bump_left opts path kind content message (Inl e) cs" and "\<not> so_dry_run opts" and "\<not> so_no_bump opts"
  shows "ship_left opts path kind content message (Inl e) cs"
  using assms by (auto simp: bump_left_def ship_left_plain all_calls_def prefix_append)

lemma push_trace:
  assumes "and_then (if so_push opts then and_then (git (traced h) dir [''push'', so_remote opts, ''HEAD''] ''push'') (\<lambda>_. ok True) else ok False)
      (\<lambda>pushed. ok (report\<lparr>sr_committed := \<not> so_no_bump opts, sr_pushed := pushed\<rparr>)) p = (r, p')"
    and "ship_changes p = (if so_no_bump opts then [] else bump_calls path kind content (sr_message report))"
    and "\<not> so_dry_run opts" and "\<not> sr_dry_run report"
  shows "ship_left opts path kind content (sr_message report) r (ship_changes p')"
proof (cases "so_push opts")
  case True
  obtain g p1 where g: "git (traced h) dir [''push'', so_remote opts, ''HEAD''] ''push'' p = (g, p1)" by fastforce
  have "ship_changes p1 = all_calls opts path kind content (sr_message report)"
    using git_trace [OF g] assms(2) True by (simp add: all_calls_def push_calls_def)
  with assms g True show ?thesis by (cases g) (auto simp: ship_left_plain dest: fails_onlyD [OF git_errors])
next
  case False
  with assms show ?thesis by (auto simp: all_calls_def push_calls_def)
qed

text \<open>The answer of \<open>git status --porcelain\<close> a release starts from: it succeeded and was blank.\<close>

definition sees_clean :: "('w, 'd, 'i) ship_host \<Rightarrow> string \<Rightarrow> 'w proc \<Rightarrow> 'w proc \<Rightarrow> bool" where
  "sees_clean h dir p p' \<longleftrightarrow>
     (\<exists>out w'. pj_spawn h ''git'' [''status'', ''--porcelain''] (pr_env p) (Some dir) (pr_world p) = (Inr out, w') \<and>
        captured_succeeded out \<and> trim (cp_stdout out) = [] \<and> p' = p\<lparr>pr_world := w'\<rparr>)"

lemma git_status_clean:
  assumes "git h dir [''status'', ''--porcelain''] ''status'' p = (Inr out, p')"
  shows "sees_clean h dir p p' \<longleftrightarrow> trim out = []"
  using assms by (auto simp: git_def sees_clean_def eff_cases in_world_def split: prod.splits if_splits)

lemma ship_release_trace:
  assumes "ship_release (traced h) dir level opts info report p = (r, p')" and "ship_changes p = []"
    and "\<not> so_dry_run opts" and "\<not> sr_dry_run report"
  shows "\<exists>path content. ship_left opts path (vi_kind info) content (sr_message report) r (ship_changes p') \<and>
    (ship_changes p' \<noteq> [] \<or> (\<exists>rep. r = Inr rep) \<longrightarrow> (\<exists>p1. sees_clean (traced h) dir p p1 \<and> (so_no_bump opts \<or> edits (traced h) dir level p1 path content)))"
proof -
  let ?commit = "if so_no_bump opts then ok False else commit_bump (traced h) dir level opts info (sr_message report)"
  obtain s p1 where s: "git (traced h) dir [''status'', ''--porcelain''] ''status'' p = (s, p1)" by fastforce
  have c1: "ship_changes p1 = []" using git_trace [OF s] assms(2) by simp
  consider e where "s = Inl e" | out where "s = Inr out" "trim out \<noteq> []" | out where "s = Inr out" "trim out = []" by (cases s) auto
  then show ?thesis
  proof cases
    case 1
    then have "r = Inl e" "p' = p1" using assms(1) s by (simp_all add: ship_release_def git_clean_def map_ok_def and_then_assoc)
    with c1 s 1 show ?thesis by (auto simp: ship_left_nothing dest: fails_onlyD [OF git_errors])
  next
    case 2
    then have "r = Inl (DirtyWorkingTree dir)" "p' = p1" using assms(1) s by (simp_all add: ship_release_def git_clean_def map_ok_def and_then_assoc)
    with c1 show ?thesis by simp
  next
    case 3
    then have clean: "sees_clean (traced h) dir p p1" using git_status_clean s by blast
    obtain c p2 where c: "?commit p1 = (c, p2)" by fastforce
    have run: "(case c of Inl e \<Rightarrow> (Inl e, p2) | Inr committed \<Rightarrow>
        and_then (if so_push opts then and_then (git (traced h) dir [''push'', so_remote opts, ''HEAD''] ''push'') (\<lambda>_. ok True) else ok False)
          (\<lambda>pushed. ok (report\<lparr>sr_committed := committed, sr_pushed := pushed\<rparr>)) p2) = (r, p')"
      using assms(1) s 3 c by (cases c) (simp_all add: ship_release_def git_clean_def map_ok_def and_then_assoc del: and_then_ok_right)
    show ?thesis
    proof (cases "so_no_bump opts")
      case True
      with c run c1 have "c = Inr (\<not> so_no_bump opts)" "p2 = p1" by simp_all
      with run c1 True assms(3,4) clean push_trace [of opts h dir report p2 r p' _ "vi_kind info"] show ?thesis by auto
    next
      case False
      with c commit_bump_trace c1 obtain path content where
        b: "bump_left opts path (vi_kind info) content (sr_message report) c (ship_changes p2)"
        and ed: "ship_changes p2 \<noteq> [] \<longrightarrow> edits (traced h) dir level p1 path content" by fastforce
      show ?thesis
      proof (cases c)
        case (Inl e)
        with run b have "r = Inl e" "bump_left opts path (vi_kind info) content (sr_message report) (Inl e) (ship_changes p')" by auto
        moreover have "p' = p2" using run Inl by simp
        ultimately show ?thesis using False assms(3) bump_left_ship ed clean by blast
      next
        case (Inr committed)
        with b have "committed = (\<not> so_no_bump opts)" "ship_changes p2 = bump_calls path (vi_kind info) content (sr_message report)"
          using False by (simp_all add: bump_left_def)
        moreover from this have "edits (traced h) dir level p1 path content" using ed by (simp add: bump_calls_def)
        ultimately show ?thesis using run Inr False assms(3,4) clean push_trace [of opts h dir report p2 r p' path "vi_kind info" content]
          by (intro exI [of _ path] exI [of _ content]) auto
      qed
    qed
  qed
qed

section \<open>A bump is read back\<close>

text \<open>
  The editor's documented behaviour: a string is a value; setting the value at a path of a parsed document
  gives a document that prints and parses back, has the string there, and leaves the strings elsewhere. The
  file system's: reading changes nothing, and a written file reads back while the others stay.
\<close>

definition toml_laws :: "('d, 'i) toml_lib \<Rightarrow> bool" where
  "toml_laws lib \<longleftrightarrow>
     (\<forall>i s. tl_as_str lib i = Some s \<longrightarrow> tl_is_value lib i) \<and>
     (\<forall>v. newline \<notin> set (sv_show lib v)) \<and>
     (\<forall>text d path i v. tl_parse lib text = Inr d \<and> navigate lib (tl_item lib d) path = Some i \<and> tl_is_value lib i \<and> newline \<notin> set v \<longrightarrow>
        tl_parse lib (tl_print lib (tl_set lib path v d)) = Inr (tl_set lib path v d) \<and>
        Option.bind (navigate lib (tl_item lib (tl_set lib path v d)) path) (tl_as_str lib) = Some v \<and>
        (\<forall>other. \<not> prefix path other \<and> \<not> prefix other path \<longrightarrow>
           Option.bind (navigate lib (tl_item lib (tl_set lib path v d)) other) (tl_as_str lib) =
           Option.bind (navigate lib (tl_item lib d) other) (tl_as_str lib)))"

definition file_laws :: "('w, 'd, 'i) ship_host \<Rightarrow> bool" where
  "file_laws h \<longleftrightarrow>
     (\<forall>path w. snd (pj_read h path w) = w) \<and>
     (\<forall>path content w w'. pj_write h path content w = (Inr (), w') \<longrightarrow>
        pj_exists h path w' \<and> fst (pj_read h path w') = Inr content \<and>
        (\<forall>other. other \<noteq> path \<longrightarrow> pj_exists h other w' = pj_exists h other w \<and> fst (pj_read h other w') = fst (pj_read h other w)))"

lemma toml_laws_str: "toml_laws lib \<Longrightarrow> tl_as_str lib i = Some s \<Longrightarrow> tl_is_value lib i"
  unfolding toml_laws_def by blast

lemma toml_laws_show: "toml_laws lib \<Longrightarrow> newline \<notin> set (sv_show lib v)"
  unfolding toml_laws_def by blast

lemma next_version_shows: "next_version lib v level = Inr new \<Longrightarrow> new \<in> range (sv_show lib)"
  by (auto simp: next_version_def split: sum.splits)

lemma file_laws_read: "file_laws h \<Longrightarrow> snd (pj_read h path w) = w"
  unfolding file_laws_def by blast

lemma set_version_read:
  assumes laws: "toml_laws lib" and parsed: "tl_parse lib content = Inr doc"
    and set: "set_version lib doc kind new = Some doc'" and new: "newline \<notin> set new"
  shows "tl_parse lib (tl_print lib doc') = Inr doc' \<and> read_version lib doc' kind = Some new"
proof -
  let ?str = "\<lambda>d path. Option.bind (navigate lib (tl_item lib d) path) (tl_as_str lib)"
  obtain a b where ab: "candidate_paths kind = [a, b]" "\<not> prefix a b" "\<not> prefix b a" by (cases kind) auto
  have no_str: "?str doc path = None" if "\<nexists>i. navigate lib (tl_item lib doc) path = Some i \<and> tl_is_value lib i" for path
  proof (cases "navigate lib (tl_item lib doc) path")
    case (Some i)
    then show ?thesis using that toml_laws_str [OF laws, of i] by (cases "tl_as_str lib i") auto
  qed simp
  have at: "tl_parse lib (tl_print lib (tl_set lib path new doc)) = Inr (tl_set lib path new doc) \<and> ?str (tl_set lib path new doc) path = Some new \<and>
      (\<forall>other. \<not> prefix path other \<and> \<not> prefix other path \<longrightarrow> ?str (tl_set lib path new doc) other = ?str doc other)"
    if "navigate lib (tl_item lib doc) path = Some i" "tl_is_value lib i" for path i
    using laws parsed that new unfolding toml_laws_def by blast
  show ?thesis
  proof (cases "\<exists>i. navigate lib (tl_item lib doc) a = Some i \<and> tl_is_value lib i")
    case True
    then have "doc' = tl_set lib a new doc" using set by (auto simp: set_version_def ab)
    moreover obtain i where "navigate lib (tl_item lib doc) a = Some i" "tl_is_value lib i" using True by blast
    ultimately show ?thesis using at by (simp add: read_version_def ab)
  next
    case False
    then obtain i where i: "navigate lib (tl_item lib doc) b = Some i" "tl_is_value lib i" and "doc' = tl_set lib b new doc"
      using set by (auto simp: set_version_def ab split: option.splits if_splits)
    with at [OF i] no_str [OF False] ab show ?thesis by (auto simp: read_version_def)
  qed
qed

lemma in_world_read: "file_laws h \<Longrightarrow> in_world (pj_read h path) p = (fst (pj_read h path (pr_world p)), p)"
  using file_laws_read [of h path "pr_world p"] by (cases "pj_read h path (pr_world p)") (simp add: in_world_def)

lemma parse_toml_run:
  "file_laws h \<Longrightarrow> parse_toml h path p =
     (case fst (pj_read h path (pr_world p)) of Inl e \<Rightarrow> (Inl (ReadFailed path e), p)
      | Inr content \<Rightarrow> (case tl_parse (pj_lib h) content of Inl e \<Rightarrow> (Inl (BadToml path e), p) | Inr doc \<Rightarrow> (Inr doc, p)))"
  by (auto simp: parse_toml_def and_then_def map_err_def in_world_read split: sum.split)

lemma version_paths_differ: "path_join dir (version_file Cargo) \<noteq> path_join dir (version_file PyProject)"
  by (simp add: path_join_def)

text \<open>
  C40: A bump is what the project shows afterwards. When \<open>bump\<close> reports old and new, the old version is the one
  located before, the new one is its successor at the requested level, a second look finds the new one in the same
  file, and no other file changed.
\<close>

theorem bump_then_locate:
  assumes laws: "toml_laws (pj_lib h)" "file_laws h" and bump: "bump h dir level p = (Inr (old_version, new), p')"
  shows "\<exists>info. locate h dir p = (Inr info, p) \<and> vi_version info = old_version \<and> next_version (pj_lib h) old_version level = Inr new \<and>
     locate h dir p' = (Inr (info\<lparr>vi_version := new\<rparr>), p') \<and>
     (\<forall>other. other \<noteq> vi_file info \<longrightarrow> fst (pj_read h other (pr_world p')) = fst (pj_read h other (pr_world p)))"
proof -
  have stays: "p1 = p" if "locate h dir p = (Inr info, p1)" for info p1
    using that by (auto simp: locate_def Let_def parse_toml_run [OF laws(2)] and_then_def split: if_splits sum.splits option.splits)
  obtain info content doc doc' where l: "locate h dir p = (Inr info, p)" and older: "vi_version info = old_version"
    and nv: "next_version (pj_lib h) old_version level = Inr new" and rd: "fst (pj_read h (vi_file info) (pr_world p)) = Inr content"
    and doc: "tl_parse (pj_lib h) content = Inr doc" and set: "set_version (pj_lib h) doc (vi_kind info) new = Some doc'"
    and wr: "in_world (pj_write h (vi_file info) (tl_print (pj_lib h) doc')) p = (Inr (), p')"
    using bump stays by (auto simp: bump_def eff_cases parse_toml_run [OF laws(2)] split: option.splits sum.splits)
  have new: "newline \<notin> set new" using next_version_shows [OF nv] toml_laws_show [OF laws(1)] by blast
  note again = set_version_read [OF laws(1) doc set new]
  obtain w' where w: "pj_write h (vi_file info) (tl_print (pj_lib h) doc') (pr_world p) = (Inr (), w')" and p': "p' = p\<lparr>pr_world := w'\<rparr>"
    using wr by (auto simp: in_world_def split: prod.splits)
  have files: "pj_exists h (vi_file info) w' \<and> fst (pj_read h (vi_file info) w') = Inr (tl_print (pj_lib h) doc') \<and>
      (\<forall>other. other \<noteq> vi_file info \<longrightarrow> pj_exists h other w' = pj_exists h other (pr_world p) \<and> fst (pj_read h other w') = fst (pj_read h other (pr_world p)))"
    using laws(2) w unfolding file_laws_def by blast
  have "locate h dir p' = (Inr (info\<lparr>vi_version := new\<rparr>), p')"
    using l files again version_paths_differ [of dir]
    by (auto simp: locate_def Let_def parse_toml_run [OF laws(2)] and_then_def p' split: if_splits sum.splits option.splits)
  with l older nv files p' show ?thesis by auto
qed

section \<open>A release in order\<close>

text \<open>\<open>git status\<close> does not change the files of the project.\<close>

definition status_looks :: "('w, 'd, 'i) ship_host \<Rightarrow> bool" where
  "status_looks h \<longleftrightarrow> (\<forall>env cwd w r w'. pj_spawn h ''git'' [''status'', ''--porcelain''] env cwd w = (r, w') \<longrightarrow>
     (\<forall>path. pj_exists h path w' = pj_exists h path w \<and> fst (pj_read h path w') = fst (pj_read h path w)))"

text \<open>The text a release puts in which file, read off the files it found: the kind's version file, with the next version set.\<close>

definition released :: "('w, 'd, 'i) ship_host \<Rightarrow> string \<Rightarrow> bump_level \<Rightarrow> 'w \<Rightarrow> string \<Rightarrow> project_kind \<Rightarrow> string \<Rightarrow> string \<Rightarrow> bool" where
  "released h dir level w path kind content new \<longleftrightarrow>
     (kind = Cargo \<longleftrightarrow> pj_exists h (path_join dir (version_file Cargo)) w) \<and> path = path_join dir (version_file kind) \<and>
     (\<exists>body doc doc' current. fst (pj_read h path w) = Inr body \<and> tl_parse (pj_lib h) body = Inr doc \<and>
        read_version (pj_lib h) doc kind = Some current \<and> next_version (pj_lib h) current level = Inr new \<and>
        set_version (pj_lib h) doc kind new = Some doc' \<and> content = tl_print (pj_lib h) doc')"

lemma traced_files [simp]:
  "pj_exists (traced h) path w = pj_exists h path (fst w)" "fst (pj_read (traced h) path w) = fst (pj_read h path (fst w))"
  by (cases w; simp add: traced_def split: prod.split)+

lemma file_laws_traced:
  assumes "file_laws h"
  shows "file_laws (traced h)"
proof -
  have read: "snd (pj_read (traced h) path w) = w" for path w
    using file_laws_read [OF assms, of path "fst w"] by (cases w; cases "pj_read h path (fst w)") (simp add: traced_def)
  have wrote: "pj_write h path content (fst w) = (Inr (), fst w')" if "pj_write (traced h) path content w = (Inr (), w')" for path content w w'
    using that by (cases w) (auto simp: traced_def split: prod.splits)
  show ?thesis using read wrote assms unfolding file_laws_def traced_files by (intro conjI allI impI) (blast dest: wrote)+
qed

lemma locate_located:
  assumes "file_laws h" and "locate h dir p = (Inr info, p1)"
  shows "p1 = p \<and> vi_file info = path_join dir (version_file (vi_kind info)) \<and>
    (vi_kind info = Cargo \<longleftrightarrow> pj_exists h (path_join dir (version_file Cargo)) (pr_world p)) \<and>
    (\<exists>body doc. fst (pj_read h (vi_file info) (pr_world p)) = Inr body \<and> tl_parse (pj_lib h) body = Inr doc \<and>
       read_version (pj_lib h) doc (vi_kind info) = Some (vi_version info))"
  using assms(2) by (auto simp: locate_def Let_def parse_toml_run [OF assms(1)] and_then_def split: if_splits sum.splits option.splits)

lemma edits_released:
  assumes "file_laws h" and "status_looks h" and "sees_clean (traced h) dir p p2" and "edits (traced h) dir level p2 path content"
    and "locate (traced h) dir p = (Inr info, p)" and "next_version (pj_lib h) (vi_version info) level = Inr new"
  shows "released h dir level (fst (pr_world p)) path (vi_kind info) content new"
proof -
  note laws = file_laws_traced [OF assms(1)]
  have same: "pj_exists h q (fst (pr_world p2)) = pj_exists h q (fst (pr_world p))" "fst (pj_read h q (fst (pr_world p2))) = fst (pj_read h q (fst (pr_world p)))" for q
    using assms(2,3) unfolding status_looks_def sees_clean_def by (auto simp: traced_def split: prod.splits)
  note first = locate_located [OF laws assms(5), simplified]
  from assms(4) obtain info2 p3 n doc p4 doc' where e: "locate (traced h) dir p2 = (Inr info2, p3)" "path = vi_file info2"
    "next_version (pj_lib h) (vi_version info2) level = Inr n" "parse_toml (traced h) path p3 = (Inr doc, p4)"
    "set_version (pj_lib h) doc (vi_kind info2) n = Some doc'" "content = tl_print (pj_lib h) doc'"
    by (auto simp: edits_def)
  note second = locate_located [OF laws e(1), simplified]
  have kind: "vi_kind info2 = vi_kind info" using first second same(1) by (cases "vi_kind info"; cases "vi_kind info2") auto
  have doc: "\<exists>body. fst (pj_read h path (fst (pr_world p))) = Inr body \<and> tl_parse (pj_lib h) body = Inr doc"
    using e(4) second same(2) by (auto simp: parse_toml_run [OF laws] split: sum.splits)
  have "read_version (pj_lib h) doc (vi_kind info) = Some (vi_version info)" "vi_version info2 = vi_version info"
    using doc first second same(2) kind e(2) by auto
  with doc kind e(2,3,5,6) first second assms(6) show ?thesis unfolding released_def by auto
qed


section \<open>The command\<close>

record ship_args =
  sg_dir :: string
  sg_level :: bump_level
  sg_no_bump :: bool
  sg_dry_run :: bool
  sg_no_deploy :: bool
  sg_no_check :: bool
  sg_push :: bool
  sg_remote :: string
  sg_config :: string
  sg_state_dir :: string
  sg_host :: "string option"

datatype ship_gate_outcome = GateAbort command_output | GateProceed json

datatype 'e ship_command_error = ShipLoad load_error | ShipFailed ship_error | ShipDeploy 'e

definition ship_check_gate :: "'w check_host \<Rightarrow> string \<Rightarrow> string \<Rightarrow> ('w proc, load_error, ship_gate_outcome) eff" where
  "ship_check_gate h base_dir config_path p =
     (if \<not> ch_exists h config_path (pr_world p) then
        (Inr (GateProceed (JObject [(''ran'', JBool False), (''reason'', JString ''no config'')])), p)
      else and_then (load (ch_read h) (ch_from_toml h) config_path) (\<lambda>config p1.
        let report = validate_checks_only config in
        if \<not> report_ok report then
          (Inr (GateAbort \<lparr>co_exit_code = 1, co_pretty = render_issues report @ ''refusing to ship: invalid checks'' @ [newline],
            co_json = JObject [(''shipped'', JBool False),
              (''checks'', JObject [(''ran'', JBool True), (''ok'', JBool False), (''issues'', issues_json report)])]\<rparr>), p1)
        else if cf_checks config = [] then
          (Inr (GateProceed (JObject [(''ran'', JBool False), (''reason'', JString ''no checks configured'')])), p1)
        else
          (case run_checks h (build_checks config config_path) (resolve_jobs (ch_parallelism h) 0) base_dir p1 of
             (run, p2) \<Rightarrow>
               if crr_ok run then (Inr (GateProceed (JObject (check_report_json run @ [(''ran'', JBool True)]))), p2)
               else (case render_check_report h run p2 of (pretty, p3) \<Rightarrow>
                 (Inr (GateAbort \<lparr>co_exit_code = 1, co_pretty = pretty @ ''refusing to ship: checks failed'' @ [newline],
                   co_json = JObject [(''shipped'', JBool False), (''checks'', JObject (check_report_json run))]\<rparr>), p3)))) p)"

definition count_checks :: "'w check_host \<Rightarrow> string \<Rightarrow> 'w proc \<Rightarrow> nat \<times> 'w proc" where
  "count_checks h config_path p =
     (if \<not> ch_exists h config_path (pr_world p) then (0, p)
      else case load (ch_read h) (ch_from_toml h) config_path p of (Inr config, p1) \<Rightarrow> (length (cf_checks config), p1) | (Inl _, p1) \<Rightarrow> (0, p1))"

definition ship_pretty :: "ship_report \<Rightarrow> string" where
  "ship_pretty report =
     (if sr_dry_run report then
        writeln (''ship plan: '' @ sr_old_version report @ '' '' @ arrow @ '' '' @ sr_new_version report @ '' (commit '' @ debug_str (sr_message report) @
          (if sr_deploy_requested report then '', then deploy'' else []) @ '')'') @
        writeln (''(dry run '' @ utf8_bytes [0xE2, 0x80, 0x94] @ '' nothing was written)'')
      else writeln (''shipped '' @ sr_old_version report @ '' '' @ arrow @ '' '' @ sr_new_version report @ '' (committed'' @
          (if sr_pushed report then '', pushed'' else []) @ '')''))"

definition ship_json :: "ship_report \<Rightarrow> (string \<times> json) list" where
  "ship_json report =
     [(''old_version'', JString (sr_old_version report)), (''new_version'', JString (sr_new_version report)),
      (''committed'', JBool (sr_committed report)), (''pushed'', JBool (sr_pushed report))]"

text \<open>The deploy that follows, with the configuration, the state directory, the host and the version just shipped.\<close>

type_synonym ('w, 'e) deploy_fn = "string \<Rightarrow> string \<Rightarrow> string option \<Rightarrow> string \<Rightarrow> ('w proc, 'e, command_output) eff"

definition ship_checks_json :: "'w check_host \<Rightarrow> ship_args \<Rightarrow> ('w proc, load_error, ship_gate_outcome) eff" where
  "ship_checks_json ch args =
     (if sg_dry_run args then (\<lambda>p. case count_checks ch (sg_config args) p of (n, p1) \<Rightarrow>
        (Inr (GateProceed (JObject [(''would_run'', JNumber (show_nat n))])), p1))
      else if sg_no_check args then ok (GateProceed (JObject [(''ran'', JBool False), (''reason'', JString ''skipped (--no-check)'')]))
      else ship_check_gate ch (sg_dir args) (sg_config args))"

definition ship_command :: "'w check_host \<Rightarrow> ('w, 'd, 'i) ship_host \<Rightarrow> ('w, 'e) deploy_fn \<Rightarrow> ship_args \<Rightarrow>
    ('w proc, 'e ship_command_error, command_output) eff" where
  "ship_command ch sh deploy args =
     and_then (map_err ShipLoad (ship_checks_json ch args)) (\<lambda>gate. case gate of
       GateAbort output \<Rightarrow> ok output
     | GateProceed checks_json \<Rightarrow>
         and_then (map_err ShipFailed (ship sh (sg_dir args) (sg_level args)
           \<lparr>so_dry_run = sg_dry_run args, so_no_deploy = sg_no_deploy args, so_push = sg_push args, so_no_bump = sg_no_bump args,
            so_remote = sg_remote args, so_message_template = None\<rparr>)) (\<lambda>report.
         if \<not> sr_deploy_requested report \<or> sr_dry_run report then
           ok \<lparr>co_exit_code = 0, co_pretty = ship_pretty report,
             co_json = JObject (ship_json report @ [(''deployed'', JBool False), (''dry_run'', JBool (sr_dry_run report)),
               (''race_detected'', JBool (sr_race_detected report)), (''checks'', checks_json)])\<rparr>
         else and_then (map_err ShipDeploy (deploy (sg_config args) (sg_state_dir args) (sg_host args) (sr_new_version report))) (\<lambda>out.
           ok \<lparr>co_exit_code = co_exit_code out, co_pretty = ship_pretty report @ co_pretty out,
             co_json = JObject (ship_json report @ [(''deployed'', JBool True), (''deploy'', co_json out),
               (''race_detected'', JBool (sr_race_detected report)), (''checks'', checks_json)])\<rparr>)))"

text \<open>
  C24: The check gate comes before everything a ship changes. On a real run without \<open>--no-check\<close>, when the configuration
  declares checks that are invalid or of which one does not pass, the command exits with 1 and the run ends
  there: the last thing that happened is the checks themselves and the writing of their report, and neither the
  version, nor the repository, nor a deploy was touched, whatever \<open>git\<close> and the deploy would have done.
\<close>

theorem failed_checks_stop_the_ship:
  assumes "\<not> sg_dry_run args" and "\<not> sg_no_check args" and "ch_exists ch (sg_config args) (pr_world p)"
    and "load (ch_read ch) (ch_from_toml ch) (sg_config args) p = (Inr cfg, p1)"
    and "run_checks ch (build_checks cfg (sg_config args)) (resolve_jobs (ch_parallelism ch) 0) (sg_dir args) p1 = (run, p2)"
    and "\<not> report_ok (validate_checks_only cfg) \<or> (\<exists>o1\<in>set (crr_outcomes run). cko_code o1 \<noteq> Some 0)"
    and "cf_checks cfg \<noteq> []"
  shows "\<exists>out. co_exit_code out = 1 \<and>
    ship_command ch sh deploy args p =
      (Inr out, if report_ok (validate_checks_only cfg) then snd (render_check_report ch run p2) else p1)"
proof (cases "report_ok (validate_checks_only cfg)")
  case False
  with assms(1-4) show ?thesis by (auto simp: ship_command_def ship_checks_json_def ship_check_gate_def and_then_def map_err_def Let_def)
next
  case True
  then have "\<not> list_all (\<lambda>o1. cko_code o1 = Some 0) (crr_outcomes run)" using assms(6) by (auto simp: list_all_iff)
  then have "\<not> crr_ok run" using run_reports [OF assms(5)] by simp
  with True assms show ?thesis
    by (auto simp: ship_command_def ship_checks_json_def ship_check_gate_def and_then_def map_err_def Let_def split: prod.splits)
qed

section \<open>Runs\<close>

text \<open>
  A project whose \<open>Cargo.toml\<close> holds two lines, the version of \<open>[package]\<close> and that of \<open>[workspace.package]\<close>: empty when
  there is none, a quoted string, or anything else for a value that is no string, such as the inline table that
  inherits the workspace's version.
\<close>

definition is_quoted :: "string \<Rightarrow> bool" where
  "is_quoted s \<longleftrightarrow> s \<noteq> [] \<and> hd s = CHR 0x22"

definition pkg_path :: "string list" where
  "pkg_path = [''package'', ''version'']"

definition ws_path :: "string list" where
  "ws_path = [''workspace'', ''package'', ''version'']"

definition two_lines :: "(string \<times> string, string list \<times> string \<times> string) toml_lib" where
  "two_lines =
     \<lparr>tl_parse = (\<lambda>s. case split_once newline s of Some (a, b) \<Rightarrow> Inr (a, b) | None \<Rightarrow> Inl ''expected two lines''),
      tl_print = (\<lambda>(a, b). a @ newline # b),
      tl_item = Pair [],
      tl_get = (\<lambda>(path, a, b) key. let q = path @ [key] in
        if a \<noteq> [] \<and> prefix q pkg_path \<or> b \<noteq> [] \<and> prefix q ws_path then Some (q, a, b) else None),
      tl_is_value = (\<lambda>(path, a, b). path = pkg_path \<or> path = ws_path),
      tl_as_str = (\<lambda>(path, a, b). if path = pkg_path \<and> is_quoted a then Some (tl a)
        else if path = ws_path \<and> is_quoted b then Some (tl b) else None),
      tl_set = (\<lambda>path v (a, b). if path = pkg_path then (CHR 0x22 # v, b)
        else if path = ws_path then (a, CHR 0x22 # v) else (a, b)),
      sv_parse = (\<lambda>s. if s = ''1.0.0'' then Inr (1, 0, 0) else if s = ''1.0.1'' then Inr (1, 0, 1) else Inl ''unexpected end of input''),
      sv_show = (\<lambda>v. if v = (1, 0, 1) then ''1.0.1'' else if v = (1, 0, 2) then ''1.0.2'' else ''1.1.0'')\<rparr>"

text \<open>The world is the text of the version file; \<open>origin\<close> is the file's text on the remote branch.\<close>

definition demo_git :: "string \<Rightarrow> string spawn" where
  "demo_git origin program args env cwd w =
     (Inr \<lparr>cp_code = Some 0,
        cp_stdout = (if args ! 0 = ''rev-parse'' then ''main'' @ [newline] else if args ! 0 = ''show'' then origin else []),
        cp_stderr = []\<rparr>, w)"

definition demo_project :: "string \<Rightarrow> (string, string \<times> string, string list \<times> string \<times> string) ship_host" where
  "demo_project origin =
     \<lparr>pj_lib = two_lines, pj_exists = (\<lambda>path w. path = ''app/Cargo.toml''),
      pj_read = (\<lambda>path w. (if path = ''app/Cargo.toml'' then Inr w else Inl ''No such file or directory'', w)),
      pj_write = (\<lambda>path content w. if path = ''app/Cargo.toml'' then (Inr (), content) else (Inl ''No such file or directory'', w)),
      pj_spawn = demo_git origin\<rparr>"

definition at_1_0_0 :: string where
  "at_1_0_0 = CHR 0x22 # ''1.0.0'' @ [newline]"

definition at_1_0_1 :: string where
  "at_1_0_1 = CHR 0x22 # ''1.0.1'' @ [newline]"

definition inheriting :: string where
  "inheriting = ''{ workspace = true }'' @ newline # CHR 0x22 # ''1.0.0''"

lemma split_once_newlineI: "newline \<notin> set a \<Longrightarrow> split_once newline (a @ newline # b) = Some (a, b)"
  by (induction a) (auto simp: split_once_def split: list.splits)

lemma split_once_newlineD: "split_once newline s = Some (a, b) \<Longrightarrow> newline \<notin> set a"
  by (auto simp: split_once_def split: list.splits dest: set_takeWhileD)

lemma paths_differ: "pkg_path \<noteq> ws_path" "ws_path \<noteq> pkg_path"
  by (simp_all add: pkg_path_def ws_path_def)

definition reached :: "string \<Rightarrow> string \<Rightarrow> string list \<Rightarrow> bool" where
  "reached a b q \<longleftrightarrow> a \<noteq> [] \<and> prefix q pkg_path \<or> b \<noteq> [] \<and> prefix q ws_path"

lemma reached_prefix: "reached a b (q @ r) \<Longrightarrow> reached a b q"
  unfolding reached_def using append_prefixD by blast

lemma navigate_two_lines:
  "navigate two_lines (q, a, b) path = (if path = [] \<or> reached a b (q @ path) then Some (q @ path, a, b) else None)"
proof (induction path arbitrary: q)
  case (Cons k path)
  have get: "tl_get two_lines (q, a, b) k = (if reached a b (q @ [k]) then Some (q @ [k], a, b) else None)"
    by (simp add: two_lines_def reached_def Let_def)
  show ?case
  proof (cases "reached a b (q @ [k])")
    case True
    with get Cons.IH [of "q @ [k]"] show ?thesis by (cases path) simp_all
  next
    case False
    with get reached_prefix [of a b "q @ [k]" path] show ?thesis by auto
  qed
qed simp

lemma two_lines_str:
  "Option.bind (navigate two_lines (tl_item two_lines (a, b)) path) (tl_as_str two_lines) =
     (if path = pkg_path \<and> is_quoted a then Some (tl a)
      else if path = ws_path \<and> is_quoted b then Some (tl b) else None)"
proof -
  have "is_quoted a \<Longrightarrow> reached a b pkg_path" "is_quoted b \<Longrightarrow> reached a b ws_path"
    by (simp_all add: reached_def is_quoted_def)
  moreover have "tl_item two_lines (a, b) = ([], a, b)" by (simp add: two_lines_def)
  moreover have "tl_as_str two_lines (path, a, b) = (if path = pkg_path \<and> is_quoted a then Some (tl a)
      else if path = ws_path \<and> is_quoted b then Some (tl b) else None)"
    by (simp add: two_lines_def)
  ultimately show ?thesis by (auto simp: navigate_two_lines)
qed

lemma two_lines_set:
  assumes "tl_parse two_lines content = Inr (a, b)" and "path = pkg_path \<or> path = ws_path"
    and "newline \<notin> set v"
  shows "tl_parse two_lines (tl_print two_lines (tl_set two_lines path v (a, b))) = Inr (tl_set two_lines path v (a, b))"
    "Option.bind (navigate two_lines (tl_item two_lines (tl_set two_lines path v (a, b))) path) (tl_as_str two_lines) = Some v"
    "other \<noteq> path \<Longrightarrow> Option.bind (navigate two_lines (tl_item two_lines (tl_set two_lines path v (a, b))) other) (tl_as_str two_lines) =
      Option.bind (navigate two_lines (tl_item two_lines (a, b)) other) (tl_as_str two_lines)"
proof -
  have a: "newline \<notin> set a" using assms(1) by (auto simp: two_lines_def dest: split_once_newlineD split: option.splits)
  define d where "d = tl_set two_lines path v (a, b)"
  have d: "d = (if path = pkg_path then (CHR 0x22 # v, b) else (a, CHR 0x22 # v))"
    using assms(2) paths_differ by (auto simp: d_def two_lines_def)
  have "split_once newline (fst d @ newline # snd d) = Some (fst d, snd d)"
    using a assms(3) by (intro split_once_newlineI) (simp add: d newline_def)
  then show "tl_parse two_lines (tl_print two_lines (tl_set two_lines path v (a, b))) = Inr (tl_set two_lines path v (a, b))"
    unfolding d_def [symmetric] by (cases d) (simp add: two_lines_def)
  show "Option.bind (navigate two_lines (tl_item two_lines (tl_set two_lines path v (a, b))) path) (tl_as_str two_lines) = Some v"
    "other \<noteq> path \<Longrightarrow> Option.bind (navigate two_lines (tl_item two_lines (tl_set two_lines path v (a, b))) other) (tl_as_str two_lines) =
      Option.bind (navigate two_lines (tl_item two_lines (a, b)) other) (tl_as_str two_lines)"
    unfolding d_def [symmetric] using assms(2) paths_differ by (auto simp: d two_lines_str is_quoted_def)
qed

lemma two_lines_laws: "toml_laws two_lines"
  unfolding toml_laws_def
proof (intro conjI allI impI)
  fix i s assume "tl_as_str two_lines i = Some s"
  then show "tl_is_value two_lines i" by (cases i) (simp add: two_lines_def split: if_splits)
next
  fix v show "newline \<notin> set (sv_show two_lines v)" by (simp add: two_lines_def newline_def)
next
  fix content d path i v
  assume h: "tl_parse two_lines content = Inr d \<and> navigate two_lines (tl_item two_lines d) path = Some i \<and> tl_is_value two_lines i \<and> newline \<notin> set v"
  obtain a b where d: "d = (a, b)" by fastforce
  have "i = (path, a, b)" using h d by (auto simp: two_lines_def navigate_two_lines [unfolded two_lines_def] split: if_splits)
  with h have path: "path = pkg_path \<or> path = ws_path" by (auto simp: two_lines_def)
  note laws = two_lines_set [OF _ path, of content a b v]
  show "tl_parse two_lines (tl_print two_lines (tl_set two_lines path v d)) = Inr (tl_set two_lines path v d)" using laws(1) h d by simp
  show "Option.bind (navigate two_lines (tl_item two_lines (tl_set two_lines path v d)) path) (tl_as_str two_lines) = Some v" using laws(2) h d by simp
  fix other assume "\<not> prefix path other \<and> \<not> prefix other path"
  then have "other \<noteq> path" by auto
  with laws(3) h d show "Option.bind (navigate two_lines (tl_item two_lines (tl_set two_lines path v d)) other) (tl_as_str two_lines) =
      Option.bind (navigate two_lines (tl_item two_lines d) other) (tl_as_str two_lines)" by simp
qed

lemma demo_project_laws: "file_laws (demo_project origin)"
  by (auto simp: file_laws_def demo_project_def)

abbreviation demo_start :: "'w \<Rightarrow> 'w proc" where
  "demo_start w \<equiv> \<lparr>pr_env = Map.empty, pr_withheld = {}, pr_world = w\<rparr>"

lemma demo_bump: "fst (bump (demo_project at_1_0_0) ''app'' Patch (demo_start at_1_0_0)) = Inr (''1.0.0'', ''1.0.1'')"
  by code_simp

theorem bump_then_locate_witness:
  "\<exists>p' info. bump (demo_project at_1_0_0) ''app'' Patch (demo_start at_1_0_0) = (Inr (''1.0.0'', ''1.0.1''), p') \<and>
     toml_laws (pj_lib (demo_project at_1_0_0)) \<and> file_laws (demo_project at_1_0_0) \<and>
     locate (demo_project at_1_0_0) ''app'' (demo_start at_1_0_0) = (Inr info, demo_start at_1_0_0) \<and> vi_version info = ''1.0.0'' \<and>
     locate (demo_project at_1_0_0) ''app'' p' = (Inr (info\<lparr>vi_version := ''1.0.1''\<rparr>), p')"
proof -
  obtain p' where b: "bump (demo_project at_1_0_0) ''app'' Patch (demo_start at_1_0_0) = (Inr (''1.0.0'', ''1.0.1''), p')"
    using demo_bump by (metis prod.collapse)
  have laws: "toml_laws (pj_lib (demo_project at_1_0_0))" "file_laws (demo_project at_1_0_0)"
    using two_lines_laws demo_project_laws by (simp_all add: demo_project_def)
  from bump_then_locate [OF laws b] b laws show ?thesis by blast
qed

definition pushing :: ship_options where
  "pushing = ship_options_default"

lemma demo_ship:
  "fst (ship (traced (demo_project at_1_0_0)) ''app'' Patch pushing (demo_start (at_1_0_0, []))) =
     Inr \<lparr>sr_old_version = ''1.0.0'', sr_new_version = ''1.0.1'', sr_message = ''Release v1.0.1'', sr_committed = True, sr_pushed = True,
       sr_deploy_requested = True, sr_dry_run = False, sr_race_detected = False\<rparr>"
  by code_simp

lemma demo_status_looks: "status_looks (demo_project origin)"
  by (simp add: status_looks_def demo_project_def demo_git_def)


definition demo_args :: ship_args where
  "demo_args =
     \<lparr>sg_dir = ''app'', sg_level = Patch, sg_no_bump = False, sg_dry_run = False, sg_no_deploy = False, sg_no_check = False, sg_push = True,
      sg_remote = ''origin'', sg_config = ''conf/fraisier.toml'', sg_state_dir = ''state'', sg_host = None\<rparr>"

lemma demo_gate:
  "report_ok (validate_checks_only demo_checks)"
  "map cko_code (crr_outcomes (fst (run_checks demo_shell demo_items 2 ''app'' (demo_start at_1_0_0)))) = [Some 1, Some 0]"
  by code_simp+

lemma demo_report_writes_nothing: "pr_world (snd (render_check_report demo_shell r p)) = pr_world p"
proof -
  have one: "snd (render_outcome demo_shell d o1 w) = w" for d o1 w
    by (simp add: render_outcome_def write_check_log_def demo_shell_def and_then_def Let_def split: option.split)
  have "snd (render_outcomes demo_shell d os w) = w" for d os w
  proof (induction os arbitrary: w)
    case (Cons o1 os)
    obtain t where "render_outcome demo_shell d o1 w = (t, w)" using one [of d o1 w] by (metis prod.collapse)
    with Cons [of w] show ?case by (cases "render_outcomes demo_shell d os w") simp
  qed simp
  from this [of "check_log_dir (pr_env p)" "crr_outcomes r" "pr_world p"] show ?thesis
    by (cases "render_outcomes demo_shell (check_log_dir (pr_env p)) (crr_outcomes r) (pr_world p)") (simp add: render_check_report_def Let_def)
qed

theorem failed_checks_stop_the_ship_witness:
  "\<exists>out p2. co_exit_code out = 1 \<and> ch_exists demo_shell (sg_config demo_args) at_1_0_0 \<and>
     load (ch_read demo_shell) (ch_from_toml demo_shell) (sg_config demo_args) (demo_start at_1_0_0) = (Inr demo_checks, demo_start at_1_0_0) \<and>
     ship_command demo_shell (demo_project at_1_0_0) (\<lambda>config state_dir host version. fail ()) demo_args (demo_start at_1_0_0) = (Inr out, p2) \<and>
     pr_world p2 = at_1_0_0"
proof -
  let ?p = "demo_start at_1_0_0"
  obtain run p2 where run: "run_checks demo_shell demo_items 2 ''app'' ?p = (run, p2)" by fastforce
  have l: "load (ch_read demo_shell) (ch_from_toml demo_shell) (sg_config demo_args) ?p = (Inr demo_checks, ?p)"
    by (simp add: load_def and_then_def in_world_def map_err_def demo_shell_def withhold_admin_env_def demo_checks_def base_config_def)
  have e: "ch_exists demo_shell (sg_config demo_args) (pr_world ?p)" "\<not> sg_dry_run demo_args" "\<not> sg_no_check demo_args" "cf_checks demo_checks \<noteq> []"
    by (simp_all add: demo_shell_def demo_args_def demo_checks_def)
  have "map cko_code (crr_outcomes run) = [Some 1, Some 0]" using demo_gate(2) run by simp
  then have bad: "\<not> report_ok (validate_checks_only demo_checks) \<or> (\<exists>o1\<in>set (crr_outcomes run). cko_code o1 \<noteq> Some 0)"
    by (cases "crr_outcomes run") auto
  have run': "run_checks demo_shell (build_checks demo_checks (sg_config demo_args)) (resolve_jobs (ch_parallelism demo_shell) 0) (sg_dir demo_args) ?p = (run, p2)"
    using run by (simp add: demo_items_def demo_args_def demo_shell_def resolve_jobs_def unwrap_or_def)
  obtain out where out: "co_exit_code out = 1" "ship_command demo_shell (demo_project at_1_0_0) (\<lambda>config state_dir host version. fail ()) demo_args ?p =
      (Inr out, snd (render_check_report demo_shell run p2))"
    using failed_checks_stop_the_ship [OF e(2,3,1) l run' bad e(4)] demo_gate(1) by auto
  have "pr_world (snd (run_checks demo_shell demo_items 2 ''app'' ?p)) = at_1_0_0" by code_simp
  then have "pr_world (snd (render_check_report demo_shell run p2)) = at_1_0_0" unfolding run by (simp add: demo_report_writes_nothing)
  with out l e(1) show ?thesis
    by (intro exI [of _ out] exI [of _ "snd (render_check_report demo_shell run p2)"] conjI) simp_all
qed

section \<open>Where the workflow does not do what it says\<close>

text \<open>
  A package that inherits the workspace's version by an inline table: the bump reads the workspace's version and
  overwrites the inline table, so the package leaves the workspace's version and the workspace keeps the old one.
\<close>

lemma inherited_version_overwritten:
  "fst (bump (demo_project []) ''app'' Patch (demo_start inheriting)) = Inr (''1.0.0'', ''1.0.1'')"
  "pr_world (snd (bump (demo_project []) ''app'' Patch (demo_start inheriting))) = CHR 0x22 # ''1.0.1'' @ newline # CHR 0x22 # ''1.0.0''"
  by code_simp+

text \<open>A release committed but not pushed: the next ship finds the remote behind and reports a race.\<close>

lemma unpushed_release_is_a_race:
  "fst (ship (demo_project at_1_0_0) ''app'' Patch pushing (demo_start at_1_0_1)) = Inl (VersionRace ''1.0.1'' ''1.0.0'' ''main'')"
  by code_simp

text \<open>\<open>git\<close>, and with it every hook of the repository, finds a withheld variable in its environment.\<close>

lemma git_sees_withheld:
  assumes "name \<in> pr_withheld p" and "pr_env p name = Some v" and "pj_spawn h = (\<lambda>program args env cwd w.
      (Inr \<lparr>cp_code = Some 0, cp_stdout = (case env name of Some s \<Rightarrow> s | None \<Rightarrow> []), cp_stderr = []\<rparr>, w))"
  shows "fst (git h dir args operation p) = Inr v"
  using assms by (simp add: git_def and_then_def map_err_def in_world_def captured_succeeded_def)

text \<open>A re-shipped version is reported as committed although nothing was.\<close>

lemma reship_says_committed:
  "\<not> sr_committed r \<Longrightarrow> \<not> sr_dry_run r \<Longrightarrow> \<exists>before after. ship_pretty r = before @ ''(committed'' @ after"
  by (auto simp: ship_pretty_def writeln_def) (metis append.assoc append_Cons append_Nil)+

end
