(* ===== verification/Spec2Isabelle.thy ===== *)
theory Spec2Isabelle
  imports Saga_Files Single_Host_Rollback Blue_Green Multi_Host_Rollout Refresh_Run Drill Self_Upgrade Webhook Prune_Run Scaffold_Install Ship
begin

text \<open>
  A verification of fraisier, a deploy tool (\<open>src/crates/\<close>): the saga driver and its state store, the deploy
  flows that run on it, the database operations around a deploy (backup, retention, restore, drill, refresh),
  self-upgrade, the webhook, the configuration and its validation, the generated units, and the release workflow.

  \<^bold>\<open>How the parts interact\<close>

  A deploy is a saga: steps run forward under a lock, every transition is recorded in a state store, and a
  failing step makes the driver compensate the completed steps in reverse order. The three flows (single host,
  blue-green, multi-host) are lists of such steps over the five adapter axes; their preflight asks the policy
  gate and the readiness, rehearsal and connection checks. A configuration is loaded, validated and resolved
  into what the flows take. The webhook starts deploys and drains them before a restart; scheduled units run
  backup, prune, drill and refresh; \<open>ship\<close> bumps, commits, pushes and then deploys.

  \<^bold>\<open>Theories and the code they model\<close>

  Foundations, of no file by themselves:
  \<^item> \<open>Prelude\<close>: the effect type \<open>('w, 'e, 'a) eff\<close> (a fallible computation on a world, the model of a function
    returning \<open>Result\<close>, which leaves its effects behind when it fails), \<open>keeps obs f\<close> (no run changes an
    observation) and its introduction rules \<open>keeps_intros\<close>.
  \<^item> \<open>Rust_Strings\<close>, \<open>Decimal\<close>: the parts of Rust's string and number library the sources use, on bytes.
  \<^item> \<open>Files\<close>: a directory whose calls may each fail, by a plan of faults.
  \<^item> \<open>Async\<close>: tasks and \<open>join_all\<close> under an arbitrary schedule.

  The saga (\<open>fraisier-saga/src/\<close>):
  \<^item> \<open>Redact\<close>: \<open>redact.rs\<close>, the removal of credentials from messages.
  \<^item> \<open>Saga_Events\<close>, \<open>State_Store\<close>: \<open>events.rs\<close> and \<open>state_store.rs\<close>; the \<open>StateStore\<close> trait is a record of
    operations, its promises are the locales \<open>state_store_contract\<close> and \<open>reliable_store\<close>, which the in-memory
    backend interprets (\<open>mem\<close>).
  \<^item> \<open>State_Store_Files\<close>: the filesystem backend call by call on \<open>Files\<close>; it interprets the same locale (\<open>fs\<close>).
  \<^item> \<open>Saga\<close>: \<open>saga.rs\<close>, the driver, its reference semantics \<open>saga_spec\<close> and the refinement between them;
    \<open>Saga_Files\<close>: what a run leaves on disk and a later process reads back.

  The flows (\<open>fraisier-core/src/\<close>):
  \<^item> \<open>Adapter_Axes\<close>: \<open>adapter_axes.rs\<close>, \<open>no_database.rs\<close>, the adapter contract as records of calls.
  \<^item> \<open>Policy\<close>: \<open>policy.rs\<close>; \<open>Preflight\<close>: \<open>readiness.rs\<close>, \<open>restore_rehearsal.rs\<close>, \<open>connection_budget.rs\<close>.
  \<^item> \<open>Single_Host\<close>, \<open>Single_Host_Rollback\<close>: \<open>single_host.rs\<close>, the flow and its correctness.
  \<^item> \<open>Blue_Green\<close>: \<open>blue_green.rs\<close>; \<open>Multi_Host\<close>, \<open>Multi_Host_Rollout\<close>: \<open>multi_host.rs\<close>, under every
    interleaving of the hosts of a batch.

  The database (\<open>fraisier-db/src/\<close>):
  \<^item> \<open>Db_Commands\<close>: \<open>lib.rs\<close>, connections, quoting and command lines.
  \<^item> \<open>Utc_Stamp\<close>, \<open>Db_Archive\<close>: \<open>archive.rs\<close>; \<open>Db_Retention\<close>: \<open>retention.rs\<close>.
  \<^item> \<open>Db_Restore\<close>: \<open>restore.rs\<close> with the precheck of \<open>tviews.rs\<close>; \<open>Db_Refresh\<close>: \<open>refresh.rs\<close>.
  \<^item> \<open>Drill\<close>: \<open>fraisier-core/src/drill.rs\<close> and \<open>fraisier-cli/src/pg_rehearsal.rs\<close>; the locale \<open>throwaway_host\<close>
    states what both rely on.
  \<^item> \<open>Refresh_Run\<close>: \<open>fraisier-cli/src/refresh/\<close> with \<open>sanitize.rs\<close>, the steps under the deploy lock.

  The surroundings:
  \<^item> \<open>Self_Upgrade\<close>: \<open>fraisier-self-upgrade\<close> with the symlink swap and retries of \<open>fraisier-adapter-support\<close>.
  \<^item> \<open>Webhook_Sign\<close>, \<open>Webhook\<close>: \<open>fraisier-webhook\<close>, signatures, the receiver segment by segment, the drain.
  \<^item> \<open>Config_Schema\<close>, \<open>Config_Validate\<close>, \<open>Config_Accepted\<close>: \<open>fraisier-config\<close>, the sections, the validators
    (their duplicate scans share the locale \<open>unique_scan\<close>, interpreted four times) and what acceptance gives.
  \<^item> \<open>Cli_Output\<close>, \<open>Prune_Run\<close>: \<open>fraisier-cli/src/commands.rs\<close>, a command's output and \<open>backup prune\<close>.
  \<^item> \<open>Scaffold\<close>, \<open>Scaffold_Install\<close>: \<open>fraisier-scaffold\<close> and the install commands.
  \<^item> \<open>Subprocess\<close>, \<open>Checks\<close>, \<open>Ship\<close>: \<open>child_env.rs\<close>, the shared runner of \<open>fraisier-adapter-support\<close>, loading a
    configuration, \<open>fraisier-check\<close>, \<open>fraisier-ship\<close> and their commands.

  \<^bold>\<open>What the lemmas show\<close>

  The driver refines its reference semantics, compensates exactly the completed steps in reverse, and leaves
  a final state; a flow over lawful adapters either reaches its goal or leaves live what was live. An
  archive appears under its name only checked, and the active link points at the new binary or where it did, whatever calls
  fail; the store's files are durable as long as its calls succeed. Destructive
  commands are confined: pruning to the corpus, restores and drills to throwaways (which stay
  behind only where \<open>DROP DATABASE\<close> fails), refresh to marked databases,
  installation to its own files, a ship to the steps of a release. Only authentic requests deploy. Optimised
  routines agree with their declarative meaning (the glob matcher, calendar stamps, segmented reading). Each
  theory ends with runs that show its hypotheses can hold and, where the code departs from what it says,
  with a lemma that exhibits it.

  \<^bold>\<open>Parameters and hypotheses\<close>

  Code outside the repository is an argument: \<open>serde_json\<close> and TOML as codecs, the hash and the HMAC, HTTP, \<open>psql\<close>,
  \<open>pg_dump\<close>, \<open>pg_restore\<close>, \<open>systemctl\<close>, \<open>git\<close>, the clocks and the file system. What a theorem needs of them is a named
  hypothesis that states their documented behaviour, and its witness instantiates them concretely.

  \<^bold>\<open>Bounds\<close>

  Integers keep their width where it shows (policy budgets at 32 bits, versions, retention and free space at 64
  bits); time is in nanoseconds. Loops that depend on a clock take the number of polls the deadline allows from the
  environment (\<open>uh_polls\<close>, \<open>mc_polls\<close>), so every such loop ends; the two loops whose end is a property, the drain and
  the glob matcher, are \<open>partial_function (option)\<close> and proved to return. Retries are bounded by the constants
  of the source.

  \<^bold>\<open>Not modelled\<close>

  The adapters that turn a call into command lines or HTTP requests, artifact downloads, the adapter processes
  over JSON-RPC, the SQLite backend, tracing, ssh bootstrap and the ledger sync: they are translations to
  foreign programs, and the flows are verified against the contract they are to keep. The selection of adapters,
  presets and stack files work on values of the serde and toml crates. Argument parsing, the dry-run preview,
  diagnostics, metrics and alerts render text and decide nothing about a deploy.
\<close>

end
